(* ===== verification/Prelude.thy ===== *)
theory Prelude imports
  Complex_Main
  "HOL-Library.AList"
  "HOL-Library.List_Lexorder"
  "HOL-Library.Char_ord"
begin

text \<open>
  Shared vocabulary of the development.

  \<^item> Instants and durations (\<open>datetime\<close>, \<open>timedelta\<close>) are integers counting microseconds,
    the resolution of the Python types; \<open>seconds n\<close> converts.
  \<^item> A Python \<open>dict\<close> whose iteration order the code observes is an association list in
    insertion order: assignment to a present key keeps its position and assignment to a
    new key appends, which is what \<^const>\<open>AList.update\<close> does; \<open>del\<close> is \<^const>\<open>AList.delete\<close>.
    A dict whose order is never observed is a partial function.
  \<^item> A Python value of type \<open>Any\<close> (a JSON payload) is a value of \<open>json\<close>.
  \<^item> An operation of a stateful object takes the state and returns its result paired with
    the new state; a call that may raise returns a sum, \<open>Inl\<close> holding the exception.
\<close>

named_theorems dict_simps \<open>lookup after an update or a deletion of a dict\<close>
named_theorems wf_intros \<open>well-formedness is kept by the operations\<close>

section \<open>Time\<close>

type_synonym time = int

abbreviation (input) seconds :: "int \<Rightarrow> int" where
  "seconds n \<equiv> n * 1000000"

text \<open>\<open>round(x)\<close>, which \<open>timedelta\<close> uses too.\<close>

definition round_half_even :: "real \<Rightarrow> int" where
  "round_half_even x =
     (let f = \<lfloor>x\<rfloor>; d = x - of_int f in if d < 1 / 2 then f else if d > 1 / 2 then f + 1 else if even f then f else f + 1)"

definition hours_delta :: "real \<Rightarrow> int" where
  "hours_delta h = round_half_even (h * 3600000000)"

section \<open>Dicts in insertion order\<close>

type_synonym ('k, 'v) dict = "('k \<times> 'v) list"

abbreviation dict_get :: "('k, 'v) dict \<Rightarrow> 'k \<Rightarrow> 'v option" where
  "dict_get d k \<equiv> map_of d k"

abbreviation dict_set :: "'k \<Rightarrow> 'v \<Rightarrow> ('k, 'v) dict \<Rightarrow> ('k, 'v) dict" where
  "dict_set \<equiv> AList.update"

abbreviation dict_del :: "'k \<Rightarrow> ('k, 'v) dict \<Rightarrow> ('k, 'v) dict" where
  "dict_del \<equiv> AList.delete"

abbreviation dict_keys :: "('k, 'v) dict \<Rightarrow> 'k list" where
  "dict_keys d \<equiv> map fst d"

abbreviation dict_values :: "('k, 'v) dict \<Rightarrow> 'v list" where
  "dict_values d \<equiv> map snd d"

definition wf_dict :: "('k, 'v) dict \<Rightarrow> bool" where
  "wf_dict d \<longleftrightarrow> distinct (map fst d)"

definition dict_get_default :: "('k, 'v) dict \<Rightarrow> 'k \<Rightarrow> 'v \<Rightarrow> 'v" where
  "dict_get_default d k v = (case dict_get d k of None \<Rightarrow> v | Some x \<Rightarrow> x)"

lemma dict_get_set [dict_simps, simp]: "dict_get (dict_set k v d) = (dict_get d)(k \<mapsto> v)"
  by (rule update_conv')

lemma dict_get_del [dict_simps, simp]: "dict_get (dict_del k d) = (dict_get d)(k := None)"
  by (rule delete_conv')

lemma wf_dict_Nil [simp]: "wf_dict []"
  by (simp add: wf_dict_def)

lemma wf_dict_Cons: "wf_dict ((k, v) # d) \<longleftrightarrow> dict_get d k = None \<and> wf_dict d"
  by (auto simp: wf_dict_def map_of_eq_None_iff)

lemma wf_dict_set [wf_intros, simp, intro]: "wf_dict d \<Longrightarrow> wf_dict (dict_set k v d)"
  unfolding wf_dict_def by (rule distinct_update)

lemma wf_dict_del [wf_intros, simp, intro]: "wf_dict d \<Longrightarrow> wf_dict (dict_del k d)"
  unfolding wf_dict_def by (rule distinct_delete)

lemma dict_set_fresh: "dict_get d k = None \<Longrightarrow> dict_set k v d = d @ [(k, v)]"
  by (induction d) (auto split: if_splits)

lemma dict_keys_dom: "set (dict_keys d) = dom (dict_get d)"
  by (simp add: dom_map_of_conv_image_fst)

lemma dict_get_None [dict_simps]: "dict_get d k = None \<longleftrightarrow> k \<notin> set (dict_keys d)"
  by (simp add: map_of_eq_None_iff)

lemma dict_values_iff: "wf_dict d \<Longrightarrow> v \<in> set (dict_values d) \<longleftrightarrow> (\<exists>k. dict_get d k = Some v)"
  by (force simp: wf_dict_def)

lemma length_dict: "wf_dict d \<Longrightarrow> length d = card (dom (dict_get d))"
  by (metis dict_keys_dom distinct_card length_map wf_dict_def)

section \<open>Strings\<close>

text \<open>
  A string is its UTF-8 text, one \<^typ>\<open>char\<close> per byte; \<open>str.strip\<close>, \<open>str.lower\<close> and
  \<open>str.replace\<close> are what they do on ASCII.
\<close>

definition em_dash :: string where
  "em_dash = [CHR 0xE2, CHR 0x80, CHR 0x94]"

definition newline :: string where
  "newline = [CHR 0x0A]"

text \<open>\<open>sep.join(xs)\<close>, and the distinct elements in order of first occurrence (\<open>dict.fromkeys\<close>).\<close>

fun join_strings :: "string \<Rightarrow> string list \<Rightarrow> string" where
  "join_strings sep [] = []"
| "join_strings sep [s] = s"
| "join_strings sep (s # ss) = s @ sep @ join_strings sep ss"

definition dedup :: "'a list \<Rightarrow> 'a list" where
  "dedup xs = rev (remdups (rev xs))"

lemma set_dedup [simp]: "set (dedup xs) = set xs" and distinct_dedup [simp]: "distinct (dedup xs)"
  by (simp_all add: dedup_def)

lemma dedup_distinct: "distinct xs \<Longrightarrow> dedup xs = xs"
  by (simp add: dedup_def distinct_remdups_id)

definition is_space :: "char \<Rightarrow> bool" where
  "is_space c \<longleftrightarrow> c \<in> {CHR '' '', CHR 0x09, CHR 0x0A, CHR 0x0B, CHR 0x0C, CHR 0x0D, CHR 0x1C, CHR 0x1D, CHR 0x1E, CHR 0x1F}"

definition strip :: "string \<Rightarrow> string" where
  "strip s = rev (dropWhile is_space (rev (dropWhile is_space s)))"

definition ascii_lower :: "char \<Rightarrow> char" where
  "ascii_lower c = (if CHR ''A'' \<le> c \<and> c \<le> CHR ''Z'' then char_of (of_char c + 32 :: nat) else c)"

text \<open>ASCII classes by code point.\<close>

definition is_digit :: "char \<Rightarrow> bool" where
  "is_digit c = (of_char c \<in> {48..57 :: nat})"

definition is_letter :: "char \<Rightarrow> bool" where
  "is_letter c = (of_char c \<in> {65..90 :: nat} \<union> {97..122})"

definition lower :: "string \<Rightarrow> string" where
  "lower s = map ascii_lower s"

definition is_prefix :: "string \<Rightarrow> string \<Rightarrow> bool" where
  "is_prefix p s \<longleftrightarrow> take (length p) s = p"

function replace_all :: "string \<Rightarrow> string \<Rightarrow> string \<Rightarrow> string" where
  "replace_all old new s =
     (if s = [] \<or> old = [] then s
      else if is_prefix old s then new @ replace_all old new (drop (length old) s)
      else hd s # replace_all old new (tl s))"
  by auto
termination by (relation "measure (\<lambda>(old, new, s). length s)") auto

declare replace_all.simps [simp del]

text \<open>
  \<open>len(s)\<close> counts characters: the UTF-8 bytes that do not continue one. \<open>s[:n]\<close> is the bytes of
  the first \<open>n\<close> characters.
\<close>

definition char_len :: "string \<Rightarrow> nat" where
  "char_len s = length (filter (\<lambda>c. of_char c \<notin> {128..191 :: nat}) s)"

fun char_take :: "nat \<Rightarrow> string \<Rightarrow> string" where
  "char_take n [] = []"
| "char_take n (c # s) =
     (if of_char c \<in> {128..191 :: nat} then c # char_take n s
      else (case n of 0 \<Rightarrow> [] | Suc m \<Rightarrow> c # char_take m s))"

lemma char_len_simps [simp]:
  "char_len [] = 0" "char_len (s @ t) = char_len s + char_len t"
  "char_len (c # s) = (if of_char c \<in> {128..191 :: nat} then char_len s else Suc (char_len s))"
  by (auto simp: char_len_def)

lemma char_len_take [simp]: "char_len (char_take n s) = min n (char_len s)"
  by (induction n s rule: char_take.induct) (auto split: nat.splits)

lemma char_take_all: "char_len s \<le> n \<Longrightarrow> char_take n s = s"
  by (induction n s rule: char_take.induct) (auto split: nat.splits if_splits)

lemma char_take_cut:
  "n \<le> char_len s \<Longrightarrow> t = [] \<or> of_char (hd t) \<notin> {128..191 :: nat} \<Longrightarrow> char_take n (char_take n s @ t) = char_take n s"
proof (induction n s rule: char_take.induct)
  case (1 n)
  then show ?case
    by (cases t) auto
next
  case (2 n c s)
  then show ?case
    by (cases n; cases t) (auto split: if_splits)
qed

section \<open>UUIDs\<close>

text \<open>
  A \<open>uuid.UUID\<close> is its canonical text: 32 lower-case hexadecimal digits in groups of
  8, 4, 4, 4 and 12. \<open>uuid_parse\<close> is the constructor: \<open>None\<close> when it raises \<open>ValueError\<close>.
\<close>

type_synonym uuid = string

definition uuid_parse :: "string \<Rightarrow> uuid option" where
  "uuid_parse s =
     (let h = replace_all ''uuid:'' [] (replace_all ''urn:'' [] s);
          b = (\<lambda>c. c = CHR ''{'' \<or> c = CHR ''}'');
          h = filter (\<lambda>c. c \<noteq> CHR ''-'') (rev (dropWhile b (rev (dropWhile b h))));
          h = lower h
      in if length h = 32 \<and> set h \<subseteq> set ''0123456789abcdef''
         then Some (take 8 h @ ''-'' @ take 4 (drop 8 h) @ ''-'' @ take 4 (drop 12 h) @ ''-'' @
                    take 4 (drop 16 h) @ ''-'' @ drop 20 h)
         else None)"

section \<open>JSON values\<close>

text \<open>
  What \<open>json.loads\<close> yields and what the payload dicts hold. Numbers are integers or
  reals (the rounding of floats is not modelled); an object keeps its insertion order.
\<close>

datatype json =
    JNull
  | JBool bool
  | JInt int
  | JReal real
  | JStr string
  | JList "json list"
  | JObj "(string \<times> json) list"

type_synonym payload = "(string, json) dict"

text \<open>Python truthiness of a payload value.\<close>

fun truthy :: "json \<Rightarrow> bool" where
  "truthy JNull = False"
| "truthy (JBool b) = b"
| "truthy (JInt i) = (i \<noteq> 0)"
| "truthy (JReal r) = (r \<noteq> 0)"
| "truthy (JStr s) = (s \<noteq> [])"
| "truthy (JList xs) = (xs \<noteq> [])"
| "truthy (JObj kvs) = (kvs \<noteq> [])"

section \<open>Results\<close>

text \<open>Forgetting which exception was raised.\<close>

definition ok_or_unit :: "'e + 'a \<Rightarrow> unit + 'a" where
  "ok_or_unit x = map_sum (\<lambda>_. ()) id x"

lemma ok_or_unit_simps [simp]:
  "ok_or_unit (Inl e) = Inl ()"
  "ok_or_unit (Inr a) = Inr a"
  by (simp_all add: ok_or_unit_def)

lemma ok_or_unit_Inr_iff [simp]: "ok_or_unit x = Inr a \<longleftrightarrow> x = Inr a"
  by (cases x) auto

lemma ok_or_unit_Inl_iff [simp]: "ok_or_unit x = Inl u \<longleftrightarrow> (\<exists>e. x = Inl e)"
  by (cases x) auto

section \<open>Fields of a payload\<close>

text \<open>
  \<open>d.get(k, v)\<close> for a field the code uses at one type. A value of another type is read
  as the default; the schemas exclude it.
\<close>

definition str_field :: "payload \<Rightarrow> string \<Rightarrow> string \<Rightarrow> string" where
  "str_field d k v = (case dict_get d k of Some (JStr s) \<Rightarrow> s | _ \<Rightarrow> v)"

definition opt_str_field :: "payload \<Rightarrow> string \<Rightarrow> string option" where
  "opt_str_field d k = (case dict_get d k of Some (JStr s) \<Rightarrow> Some s | _ \<Rightarrow> None)"

definition num_field :: "payload \<Rightarrow> string \<Rightarrow> real \<Rightarrow> real" where
  "num_field d k v = (case dict_get d k of Some (JInt i) \<Rightarrow> real_of_int i | Some (JReal r) \<Rightarrow> r | _ \<Rightarrow> v)"

definition obj_field :: "payload \<Rightarrow> string \<Rightarrow> payload" where
  "obj_field d k = (case dict_get d k of Some (JObj p) \<Rightarrow> p | _ \<Rightarrow> [])"

text \<open>\<open>None\<close> and the empty string are false.\<close>

fun nonempty :: "string option \<Rightarrow> bool" where
  "nonempty None = False"
| "nonempty (Some s) = (s \<noteq> [])"

text \<open>The slice \<open>xs[-n:]\<close>, which is all of \<open>xs\<close> for \<open>n = 0\<close>.\<close>

definition last_slice :: "nat \<Rightarrow> 'a list \<Rightarrow> 'a list" where
  "last_slice n xs = (if n = 0 then xs else drop (length xs - n) xs)"

end
