(* ===== verification/Lock_Spec.thy ===== *)
theory Lock_Spec imports Prelude begin

text \<open>
  The lock registry of \<open>memu/neighborhood_lock.py\<close>: its records, the abstract lease
  automaton that the \<open>LockRegistry\<close> protocol promises, the facts about the automaton
  that make leases safe (fencing), and the interface \<open>lock_registry\<close> through which the
  two registries of the code are related to it.
\<close>

section \<open>Records\<close>

record lock_record =
  lr_slug :: string
  lr_holder_id :: string
  lr_fencing_token :: int
  lr_acquired_at :: time
  lr_expires_at :: time

text \<open>The texts of \<open>NeighborhoodConflict\<close>, told apart by the check that raised it.\<close>

datatype conflict =
    HeldBy string time
  | LockGone
  | TokenMismatch int int
  | OwnerChanged
  | LostRace

section \<open>The abstract lease automaton\<close>

record lease =
  l_holder :: string
  l_token :: int
  l_expires :: time

text \<open>
  Leases and fencing counters per key. The key of a slug is the slug itself in the SQLite
  registry and the lock's file name in the markdown registry.
\<close>

record areg =
  leases :: "string \<rightharpoonup> lease"
  fences :: "string \<Rightarrow> int"

definition live :: "areg \<Rightarrow> time \<Rightarrow> string \<Rightarrow> bool" where
  "live A now k \<longleftrightarrow> (\<exists>l. leases A k = Some l \<and> now < l_expires l)"

definition live_lease :: "areg \<Rightarrow> time \<Rightarrow> string \<Rightarrow> lease option" where
  "live_lease A now k =
     (case leases A k of None \<Rightarrow> None | Some l \<Rightarrow> if now < l_expires l then Some l else None)"

definition spec_acquire ::
  "(string \<Rightarrow> string) \<Rightarrow> areg \<Rightarrow> time \<Rightarrow> string \<Rightarrow> string \<Rightarrow> int \<Rightarrow> (unit + lock_record) \<times> areg" where
  "spec_acquire key A now s h ttl =
     (if live A now (key s) then (Inl (), A)
      else (let t = fences A (key s) + 1
            in (Inr \<lparr>lr_slug = s, lr_holder_id = h, lr_fencing_token = t,
                     lr_acquired_at = now, lr_expires_at = now + ttl\<rparr>,
                A\<lparr>leases := (leases A)(key s \<mapsto> \<lparr>l_holder = h, l_token = t, l_expires = now + ttl\<rparr>),
                  fences := (fences A)(key s := t)\<rparr>)))"

definition owns :: "areg \<Rightarrow> string \<Rightarrow> string \<Rightarrow> int \<Rightarrow> bool" where
  "owns A k h t \<longleftrightarrow> (\<exists>l. leases A k = Some l \<and> l_holder l = h \<and> l_token l = t)"

definition spec_renew ::
  "(string \<Rightarrow> string) \<Rightarrow> areg \<Rightarrow> time \<Rightarrow> string \<Rightarrow> string \<Rightarrow> int \<Rightarrow> int \<Rightarrow> (unit + lock_record) \<times> areg" where
  "spec_renew key A now s h t ttl =
     (if owns A (key s) h t
      then (Inr \<lparr>lr_slug = s, lr_holder_id = h, lr_fencing_token = t,
                 lr_acquired_at = now, lr_expires_at = now + ttl\<rparr>,
            A\<lparr>leases := (leases A)(key s \<mapsto> \<lparr>l_holder = h, l_token = t, l_expires = now + ttl\<rparr>)\<rparr>)
      else (Inl (), A))"

definition spec_release ::
  "(string \<Rightarrow> string) \<Rightarrow> areg \<Rightarrow> string \<Rightarrow> string \<Rightarrow> int \<Rightarrow> bool \<times> areg" where
  "spec_release key A s h t =
     (if owns A (key s) h t
      then (True, A\<lparr>leases := (leases A)(key s := None)\<rparr>)
      else (False, A))"

lemmas spec_defs = spec_acquire_def spec_renew_def spec_release_def Let_def

text \<open>A lease carries the current value of its key's counter; counters never go below 0.\<close>

definition areg_inv :: "areg \<Rightarrow> bool" where
  "areg_inv A \<longleftrightarrow> (\<forall>k l. leases A k = Some l \<longrightarrow> l_token l = fences A k) \<and> (\<forall>k. 0 \<le> fences A k)"

lemma areg_inv_acquire:
  "areg_inv A \<Longrightarrow> areg_inv (snd (spec_acquire key A now s h ttl))"
  by (auto simp: areg_inv_def spec_defs)

lemma areg_inv_renew: "areg_inv A \<Longrightarrow> areg_inv (snd (spec_renew key A now s h t ttl))"
  by (auto simp: areg_inv_def spec_defs owns_def)

lemma areg_inv_release: "areg_inv A \<Longrightarrow> areg_inv (snd (spec_release key A s h t))"
  by (auto simp: areg_inv_def spec_defs)

section \<open>Runs and fencing\<close>

text \<open>
  A run of the registry: any agent may acquire, renew or release with any arguments at any
  time. The history \<open>issued\<close> collects every record a successful acquisition returned,
  newest first.
\<close>

record run_state =
  rs_reg :: areg
  rs_issued :: "lock_record list"

inductive reg_step :: "(string \<Rightarrow> string) \<Rightarrow> run_state \<Rightarrow> run_state \<Rightarrow> bool" for key where
  step_acquire: "spec_acquire key (rs_reg S) now s h ttl = (Inr rec, A') \<Longrightarrow>
     reg_step key S \<lparr>rs_reg = A', rs_issued = rec # rs_issued S\<rparr>"
| step_refused: "spec_acquire key (rs_reg S) now s h ttl = (Inl u, A') \<Longrightarrow>
     reg_step key S (S\<lparr>rs_reg := A'\<rparr>)"
| step_renew: "spec_renew key (rs_reg S) now s h t ttl = (res, A') \<Longrightarrow>
     reg_step key S (S\<lparr>rs_reg := A'\<rparr>)"
| step_release: "spec_release key (rs_reg S) s h t = (b, A') \<Longrightarrow>
     reg_step key S (S\<lparr>rs_reg := A'\<rparr>)"

inductive reg_reach :: "(string \<Rightarrow> string) \<Rightarrow> run_state \<Rightarrow> bool" for key where
  reach_init: "areg_inv A \<Longrightarrow> reg_reach key \<lparr>rs_reg = A, rs_issued = []\<rparr>"
| reach_step: "reg_reach key S \<Longrightarrow> reg_step key S S' \<Longrightarrow> reg_reach key S'"

text \<open>Tokens issued for a key strictly decrease along the history, newest first.\<close>

definition key_tokens :: "(string \<Rightarrow> string) \<Rightarrow> string \<Rightarrow> lock_record list \<Rightarrow> int list" where
  "key_tokens key k recs = map lr_fencing_token (filter (\<lambda>r. key (lr_slug r) = k) recs)"

definition run_inv :: "(string \<Rightarrow> string) \<Rightarrow> run_state \<Rightarrow> bool" where
  "run_inv key S \<longleftrightarrow> areg_inv (rs_reg S) \<and>
     (\<forall>k. sorted_wrt (>) (key_tokens key k (rs_issued S)) \<and>
          (\<forall>t \<in> set (key_tokens key k (rs_issued S)). t \<le> fences (rs_reg S) k))"

lemma key_tokens_Nil [simp]: "key_tokens key k [] = []"
  by (simp add: key_tokens_def)

lemma key_tokens_Cons [simp]:
  "key_tokens key k (r # rs) =
     (if key (lr_slug r) = k then lr_fencing_token r # key_tokens key k rs else key_tokens key k rs)"
  by (simp add: key_tokens_def)

lemma fences_renew [simp]: "fences (snd (spec_renew key A now s h t ttl)) = fences A"
  by (simp add: spec_defs)

lemma fences_release [simp]: "fences (snd (spec_release key A s h t)) = fences A"
  by (simp add: spec_defs)

lemma fences_acquire_mono: "fences A k \<le> fences (snd (spec_acquire key A now s h ttl)) k"
  by (simp add: spec_defs)

lemma spec_acquire_Inr:
  assumes "spec_acquire key A now s h ttl = (Inr rec, A')"
  shows "\<not> live A now (key s)" "lr_slug rec = s" "lr_holder_id rec = h"
    "lr_fencing_token rec = fences A (key s) + 1" "lr_expires_at rec = now + ttl"
    "fences A' = (fences A)(key s := fences A (key s) + 1)"
    "leases A' = (leases A)(key s \<mapsto> \<lparr>l_holder = h, l_token = lr_fencing_token rec, l_expires = now + ttl\<rparr>)"
  using assms by (auto simp: spec_defs split: if_splits)

lemma spec_acquire_Inl: "spec_acquire key A now s h ttl = (Inl u, A') \<longleftrightarrow> live A now (key s) \<and> A' = A"
  by (auto simp: spec_defs)

lemma run_inv_acquire:
  assumes inv: "run_inv key S" and acq: "spec_acquire key (rs_reg S) now s h ttl = (Inr rec, A')"
  shows "run_inv key \<lparr>rs_reg = A', rs_issued = rec # rs_issued S\<rparr>"
proof -
  note a = spec_acquire_Inr [OF acq]
  have "areg_inv A'"
    using inv areg_inv_acquire [of "rs_reg S" key now s h ttl] acq by (simp add: run_inv_def)
  with inv a show ?thesis
    by (force simp: run_inv_def)
qed

lemma run_inv_step:
  assumes step: "reg_step key S S'" and inv: "run_inv key S"
  shows "run_inv key S'"
  using step
proof (cases rule: reg_step.cases)
  case step_acquire
  with inv show ?thesis by (auto intro: run_inv_acquire)
next
  case step_refused
  with inv show ?thesis by (simp add: spec_acquire_Inl)
next
  case (step_renew now s h t ttl res A')
  with inv show ?thesis
    using fences_renew [of key "rs_reg S" now s h t ttl] areg_inv_renew [of "rs_reg S" key now s h t ttl]
    by (simp add: run_inv_def)
next
  case (step_release s h t b A')
  with inv show ?thesis
    using fences_release [of key "rs_reg S" s h t] areg_inv_release [of "rs_reg S" key s h t]
    by (simp add: run_inv_def)
qed

lemma run_inv_reach: "reg_reach key S \<Longrightarrow> run_inv key S"
  by (induction rule: reg_reach.induct) (auto simp: run_inv_step, simp add: run_inv_def)

text \<open>
  Fencing: once a newer record exists for a key, the holder of an older one can neither
  renew nor release.
\<close>

lemma stale_not_owner:
  assumes inv: "run_inv key S" and hist: "rs_issued S = xs @ newer # ys" and old: "older \<in> set ys"
    and same: "key (lr_slug older) = key (lr_slug newer)"
  shows "\<not> owns (rs_reg S) (key (lr_slug older)) h (lr_fencing_token older)"
proof
  let ?k = "key (lr_slug older)"
  assume "owns (rs_reg S) ?k h (lr_fencing_token older)"
  then have eq: "lr_fencing_token older = fences (rs_reg S) ?k"
    using inv by (auto simp: owns_def run_inv_def areg_inv_def)
  have toks: "key_tokens key ?k (rs_issued S) =
      key_tokens key ?k xs @ lr_fencing_token newer # key_tokens key ?k ys"
    using hist same by (simp add: key_tokens_def)
  have "lr_fencing_token older \<in> set (key_tokens key ?k ys)"
    using old by (auto simp: key_tokens_def)
  moreover have "sorted_wrt (>) (key_tokens key ?k (rs_issued S))"
    using inv by (simp add: run_inv_def)
  ultimately have "lr_fencing_token older < lr_fencing_token newer"
    unfolding toks by (auto simp: sorted_wrt_append)
  moreover have "lr_fencing_token newer \<le> fences (rs_reg S) ?k"
    using inv toks by (auto simp: run_inv_def)
  ultimately show False using eq by simp
qed

section \<open>Sequences of calls\<close>

text \<open>
  The calls agents make on one registry, in the order its mutex admits them, with the
  records of the successful acquisitions, newest first.
\<close>

datatype reg_call =
    CallAcquire time string string int
  | CallRenew time string string int int
  | CallRelease string string int

fun call_slug :: "reg_call \<Rightarrow> string" where
  "call_slug (CallAcquire now s h ttl) = s"
| "call_slug (CallRenew now s h t ttl) = s"
| "call_slug (CallRelease s h t) = s"

fun run_calls ::
  "('r \<Rightarrow> time \<Rightarrow> string \<Rightarrow> string \<Rightarrow> int \<Rightarrow> ('e + lock_record) \<times> 'r) \<Rightarrow>
   ('r \<Rightarrow> time \<Rightarrow> string \<Rightarrow> string \<Rightarrow> int \<Rightarrow> int \<Rightarrow> ('e + lock_record) \<times> 'r) \<Rightarrow>
   ('r \<Rightarrow> string \<Rightarrow> string \<Rightarrow> int \<Rightarrow> bool \<times> 'r) \<Rightarrow>
   reg_call list \<Rightarrow> lock_record list \<Rightarrow> 'r \<Rightarrow> lock_record list \<times> 'r" where
  "run_calls acq ren rel [] issued r = (issued, r)"
| "run_calls acq ren rel (CallAcquire now s h ttl # cs) issued r =
     (case acq r now s h ttl of
        (Inr rec, r') \<Rightarrow> run_calls acq ren rel cs (rec # issued) r'
      | (Inl e, r') \<Rightarrow> run_calls acq ren rel cs issued r')"
| "run_calls acq ren rel (CallRenew now s h t ttl # cs) issued r =
     run_calls acq ren rel cs issued (snd (ren r now s h t ttl))"
| "run_calls acq ren rel (CallRelease s h t # cs) issued r =
     run_calls acq ren rel cs issued (snd (rel r s h t))"

section \<open>The interface of a lock registry\<close>

text \<open>
  What \<open>NeighborhoodLock\<close> relies on: each operation, on the registry's own state, is the
  operation of the automaton on the abstract state, for slugs whose key the registry can
  store (\<open>valid\<close>).
\<close>

locale lock_registry =
  fixes inv :: "'r \<Rightarrow> bool"
    and valid :: "string \<Rightarrow> bool"
    and key :: "string \<Rightarrow> string"
    and \<alpha> :: "'r \<Rightarrow> areg"
    and acq :: "'r \<Rightarrow> time \<Rightarrow> string \<Rightarrow> string \<Rightarrow> int \<Rightarrow> (conflict + lock_record) \<times> 'r"
    and ren :: "'r \<Rightarrow> time \<Rightarrow> string \<Rightarrow> string \<Rightarrow> int \<Rightarrow> int \<Rightarrow> (conflict + lock_record) \<times> 'r"
    and rel :: "'r \<Rightarrow> string \<Rightarrow> string \<Rightarrow> int \<Rightarrow> bool \<times> 'r"
  assumes acq_refines: "inv r \<Longrightarrow> valid s \<Longrightarrow>
      map_prod ok_or_unit \<alpha> (acq r now s h ttl) = spec_acquire key (\<alpha> r) now s h ttl"
    and ren_refines: "inv r \<Longrightarrow> valid s \<Longrightarrow>
      map_prod ok_or_unit \<alpha> (ren r now s h t ttl) = spec_renew key (\<alpha> r) now s h t ttl"
    and rel_refines: "inv r \<Longrightarrow> valid s \<Longrightarrow>
      map_prod id \<alpha> (rel r s h t) = spec_release key (\<alpha> r) s h t"
    and inv_acq: "inv r \<Longrightarrow> valid s \<Longrightarrow> inv (snd (acq r now s h ttl))"
    and inv_ren: "inv r \<Longrightarrow> valid s \<Longrightarrow> inv (snd (ren r now s h t ttl))"
    and inv_rel: "inv r \<Longrightarrow> valid s \<Longrightarrow> inv (snd (rel r s h t))"
    and inv_areg: "inv r \<Longrightarrow> areg_inv (\<alpha> r)"

end
