(* ===== verification/Neighborhood_Lock.thy ===== *)
theory Neighborhood_Lock imports Lock_Spec begin

text \<open>
  The context manager \<open>NeighborhoodLock\<close> of \<open>memu/neighborhood_lock.py\<close>, over any
  registry: its operations take the registry's operations as arguments. The clock is a
  function: \<open>clk i\<close> is the reading of the \<open>i\<close>-th registry call of the loop. The lemmas of
  the second part hold for the lease automaton; the context \<open>lock_registry\<close> at the end
  carries them over to every registry that implements the interface.
\<close>

section \<open>The context manager\<close>

record nlock =
  nl_slug :: string
  nl_neighbors :: "string list"
  nl_holder :: string
  nl_ttl :: int
  nl_renew_interval :: int
  nl_records :: "lock_record list"
  nl_renewer :: bool

datatype nlock_error = RenewNotPositive | RenewNotBelowTtl | NotHeld

definition nlock_init :: "string \<Rightarrow> string list \<Rightarrow> string option \<Rightarrow> string \<Rightarrow> int \<Rightarrow> int \<Rightarrow> nlock_error + nlock" where
  "nlock_init slug nbrs holder uuid ttl renew_interval =
     (let h = (case holder of None \<Rightarrow> uuid | Some x \<Rightarrow> if x = [] then uuid else x)
      in if renew_interval \<le> 0 then Inl RenewNotPositive
         else if ttl \<le> renew_interval then Inl RenewNotBelowTtl
         else Inr \<lparr>nl_slug = slug, nl_neighbors = nbrs, nl_holder = h, nl_ttl = ttl,
                   nl_renew_interval = renew_interval, nl_records = [], nl_renewer = False\<rparr>)"

definition nlock_record :: "nlock \<Rightarrow> nlock_error + lock_record" where
  "nlock_record L = (case nl_records L of [] \<Rightarrow> Inl NotHeld | r # _ \<Rightarrow> Inr r)"

definition nlock_fencing_token :: "nlock \<Rightarrow> nlock_error + int" where
  "nlock_fencing_token L = map_sum id lr_fencing_token (nlock_record L)"

definition nlock_targets :: "nlock \<Rightarrow> string list" where
  "nlock_targets L = nl_slug L # sort (filter (\<lambda>s. s \<noteq> nl_slug L) (nl_neighbors L))"

fun acquire_all ::
  "('r \<Rightarrow> time \<Rightarrow> string \<Rightarrow> string \<Rightarrow> int \<Rightarrow> ('e + lock_record) \<times> 'r) \<Rightarrow> (nat \<Rightarrow> time) \<Rightarrow> string \<Rightarrow> int
    \<Rightarrow> nat \<Rightarrow> string list \<Rightarrow> lock_record list \<Rightarrow> 'r \<Rightarrow> ('e option \<times> lock_record list) \<times> 'r" where
  "acquire_all acq clk h ttl i [] acc r = ((None, acc), r)"
| "acquire_all acq clk h ttl i (s # ss) acc r =
     (case acq r (clk i) s h ttl of
        (Inr rec, r') \<Rightarrow> acquire_all acq clk h ttl (Suc i) ss (acc @ [rec]) r'
      | (Inl e, r') \<Rightarrow> ((Some e, acc), r'))"

fun release_all :: "('r \<Rightarrow> string \<Rightarrow> string \<Rightarrow> int \<Rightarrow> bool \<times> 'r) \<Rightarrow> lock_record list \<Rightarrow> 'r \<Rightarrow> 'r" where
  "release_all rel [] r = r"
| "release_all rel (rec # recs) r =
     release_all rel recs (snd (rel r (lr_slug rec) (lr_holder_id rec) (lr_fencing_token rec)))"

definition nlock_enter ::
  "('r \<Rightarrow> time \<Rightarrow> string \<Rightarrow> string \<Rightarrow> int \<Rightarrow> ('e + lock_record) \<times> 'r) \<Rightarrow>
   ('r \<Rightarrow> string \<Rightarrow> string \<Rightarrow> int \<Rightarrow> bool \<times> 'r) \<Rightarrow> (nat \<Rightarrow> time) \<Rightarrow> nlock \<Rightarrow> 'r \<Rightarrow> ('e + nlock) \<times> 'r" where
  "nlock_enter acq rel clk L r =
     (case acquire_all acq clk (nl_holder L) (nl_ttl L) 0 (nlock_targets L) [] r of
        ((None, recs), r') \<Rightarrow> (Inr (L\<lparr>nl_records := recs, nl_renewer := True\<rparr>), r')
      | ((Some e, recs), r') \<Rightarrow> (Inl e, release_all rel recs r'))"

definition nlock_exit :: "('r \<Rightarrow> string \<Rightarrow> string \<Rightarrow> int \<Rightarrow> bool \<times> 'r) \<Rightarrow> nlock \<Rightarrow> 'r \<Rightarrow> nlock \<times> 'r" where
  "nlock_exit rel L r =
     (L\<lparr>nl_renewer := False, nl_records := []\<rparr>, release_all rel (nl_records L) r)"

fun renew_all ::
  "('r \<Rightarrow> time \<Rightarrow> string \<Rightarrow> string \<Rightarrow> int \<Rightarrow> int \<Rightarrow> ('e + lock_record) \<times> 'r) \<Rightarrow> (nat \<Rightarrow> time) \<Rightarrow> int
    \<Rightarrow> nat \<Rightarrow> lock_record list \<Rightarrow> lock_record list \<Rightarrow> 'r \<Rightarrow> ('e + lock_record list) \<times> 'r" where
  "renew_all ren clk ttl i [] acc r = (Inr acc, r)"
| "renew_all ren clk ttl i (rec # recs) acc r =
     (case ren r (clk i) (lr_slug rec) (lr_holder_id rec) (lr_fencing_token rec) ttl of
        (Inr rec', r') \<Rightarrow> renew_all ren clk ttl (Suc i) recs (acc @ [rec']) r'
      | (Inl e, r') \<Rightarrow> (Inl e, r'))"

text \<open>One pass of the renewer task; a conflict ends the task and leaves the records.\<close>

definition nlock_renew_pass ::
  "('r \<Rightarrow> time \<Rightarrow> string \<Rightarrow> string \<Rightarrow> int \<Rightarrow> int \<Rightarrow> ('e + lock_record) \<times> 'r) \<Rightarrow> (nat \<Rightarrow> time) \<Rightarrow> nlock \<Rightarrow> 'r
    \<Rightarrow> nlock \<times> 'r" where
  "nlock_renew_pass ren clk L r =
     (if \<not> nl_renewer L then (L, r)
      else case renew_all ren clk (nl_ttl L) 0 (nl_records L) [] r of
             (Inr recs, r') \<Rightarrow> (L\<lparr>nl_records := recs\<rparr>, r')
           | (Inl e, r') \<Rightarrow> (L\<lparr>nl_renewer := False\<rparr>, r'))"

section \<open>The loops over the lease automaton\<close>

lemma leases_release_other [simp]:
  "k \<noteq> key s \<Longrightarrow> leases (snd (spec_release key A s h t)) k = leases A k"
  by (simp add: spec_defs)

lemma leases_release_own: "owns A (key s) h t \<Longrightarrow> leases (snd (spec_release key A s h t)) (key s) = None"
  by (simp add: spec_defs)

lemma leases_release_cases:
  "leases (snd (spec_release key A s h t)) k = leases A k \<or> leases (snd (spec_release key A s h t)) k = None"
  by (simp add: spec_defs)

definition rec_keys :: "(string \<Rightarrow> string) \<Rightarrow> lock_record list \<Rightarrow> string set" where
  "rec_keys key recs = (\<lambda>r. key (lr_slug r)) ` set recs"

definition owned_by :: "(string \<Rightarrow> string) \<Rightarrow> areg \<Rightarrow> lock_record list \<Rightarrow> string \<Rightarrow> bool" where
  "owned_by key A recs k \<longleftrightarrow>
     (\<exists>r \<in> set recs. key (lr_slug r) = k \<and> owns A k (lr_holder_id r) (lr_fencing_token r))"

lemma rec_keys_simps [simp]:
  "rec_keys key [] = {}"
  "rec_keys key (r # rs) = insert (key (lr_slug r)) (rec_keys key rs)"
  "rec_keys key (rs @ rs') = rec_keys key rs \<union> rec_keys key rs'"
  by (auto simp: rec_keys_def)

lemma fences_release_all [simp]: "fences (release_all (spec_release key) recs A) = fences A"
  by (induction recs arbitrary: A) simp_all

lemma release_all_other:
  "k \<notin> rec_keys key recs \<Longrightarrow> leases (release_all (spec_release key) recs A) k = leases A k"
  by (induction recs arbitrary: A) simp_all

lemma release_all_keeps_None:
  "leases A k = None \<Longrightarrow> leases (release_all (spec_release key) recs A) k = None"
proof (induction recs arbitrary: A)
  case (Cons r recs)
  then show ?case
    using leases_release_cases [of key A "lr_slug r" "lr_holder_id r" "lr_fencing_token r" k] by auto
qed simp

lemma release_all_owned:
  "owned_by key A recs k \<Longrightarrow> leases (release_all (spec_release key) recs A) k = None"
proof (induction recs arbitrary: A)
  case (Cons r recs)
  let ?A = "snd (spec_release key A (lr_slug r) (lr_holder_id r) (lr_fencing_token r))"
  show ?case
  proof (cases "leases ?A k = None")
    case True
    then show ?thesis by (simp add: release_all_keeps_None)
  next
    case False
    then have same: "leases ?A k = leases A k"
      using leases_release_cases by metis
    have "\<not> (key (lr_slug r) = k \<and> owns A k (lr_holder_id r) (lr_fencing_token r))"
      using False leases_release_own by metis
    then have "owned_by key ?A recs k"
      using Cons.prems same by (auto simp: owned_by_def owns_def)
    then show ?thesis by (simp add: Cons.IH)
  qed
qed (simp add: owned_by_def)

text \<open>
  What the acquisition loop keeps, from the state \<open>A0\<close> it started in, at every instant
  \<open>t\<close> no clock reading exceeds.
\<close>

definition acq_inv :: "(string \<Rightarrow> string) \<Rightarrow> areg \<Rightarrow> time \<Rightarrow> lock_record list \<Rightarrow> areg \<Rightarrow> bool" where
  "acq_inv key A0 t acc A \<longleftrightarrow>
     (\<forall>k. k \<notin> rec_keys key acc \<longrightarrow> leases A k = leases A0 k) \<and>
     (\<forall>k \<in> rec_keys key acc. owned_by key A acc k \<and> \<not> live A0 t k) \<and>
     (\<forall>k. fences A0 k \<le> fences A k) \<and>
     (\<forall>r \<in> set acc. fences A0 (key (lr_slug r)) < lr_fencing_token r)"

lemma acq_inv_step:
  assumes inv: "acq_inv key A0 t acc A" and le: "now \<le> t"
    and acq: "spec_acquire key A now s h ttl = (Inr rec, A')"
  shows "acq_inv key A0 t (acc @ [rec]) A'"
proof -
  note a = spec_acquire_Inr [OF acq]
  have others: "owned_by key A' (acc @ [rec]) k" if "k \<in> rec_keys key acc" for k
  proof (cases "k = key s")
    case True
    then show ?thesis using a by (auto simp: owned_by_def owns_def)
  next
    case False
    then show ?thesis using inv that a by (fastforce simp: acq_inv_def owned_by_def owns_def)
  qed
  have new: "owned_by key A' (acc @ [rec]) (key s)"
    using a by (auto simp: owned_by_def owns_def)
  have dead: "\<not> live A0 t (key s)"
  proof (cases "key s \<in> rec_keys key acc")
    case True
    then show ?thesis using inv by (auto simp: acq_inv_def)
  next
    case False
    then have "leases A (key s) = leases A0 (key s)" using inv by (auto simp: acq_inv_def)
    then show ?thesis using a(1) le by (auto simp: live_def)
  qed
  have mono: "fences A0 k \<le> fences A' k" for k
  proof -
    have "fences A0 k \<le> fences A k" using inv by (auto simp: acq_inv_def)
    then show ?thesis using a(6) by auto
  qed
  have tok: "fences A0 (key s) < lr_fencing_token rec"
  proof -
    have "fences A0 (key s) \<le> fences A (key s)" using inv by (auto simp: acq_inv_def)
    then show ?thesis using a(4) by simp
  qed
  show ?thesis
    using inv others new dead mono tok a(2,7) by (auto simp: acq_inv_def)
qed

lemma acquire_all_inv:
  "acquire_all (spec_acquire key) clk h ttl i ss acc A = ((e, recs), A') \<Longrightarrow>
   acq_inv key A0 t acc A \<Longrightarrow> \<forall>j. i \<le> j \<and> j < i + length ss \<longrightarrow> clk j \<le> t \<Longrightarrow>
   acq_inv key A0 t recs A'"
proof (induction ss arbitrary: i acc A)
  case (Cons s ss)
  show ?case
  proof (cases "spec_acquire key A (clk i) s h ttl")
    case (Pair res A1)
    show ?thesis
    proof (cases res)
      case (Inl u)
      with Pair have "A1 = A" by (simp add: spec_acquire_Inl)
      with Inl Pair Cons.prems show ?thesis by simp
    next
      case (Inr rec)
      with Pair Cons.prems have "acq_inv key A0 t (acc @ [rec]) A1"
        by (intro acq_inv_step [where now = "clk i" and A = A]) auto
      with Inr Pair Cons.prems Cons.IH [of "Suc i" "acc @ [rec]" A1] show ?thesis by simp
    qed
  qed
qed simp

lemma acquire_all_records:
  "acquire_all (spec_acquire key) clk h ttl i ss acc A = ((e, recs), A') \<Longrightarrow>
   \<exists>new. recs = acc @ new \<and> map lr_slug new = take (length new) ss \<and>
         (\<forall>r \<in> set new. lr_holder_id r = h) \<and> (e = None \<longrightarrow> length new = length ss)"
proof (induction ss arbitrary: i acc A)
  case (Cons s ss)
  show ?case
  proof (cases "spec_acquire key A (clk i) s h ttl")
    case (Pair res A1)
    show ?thesis
    proof (cases res)
      case (Inl u)
      with Pair Cons.prems show ?thesis by auto
    next
      case (Inr rec)
      with Pair Cons.prems Cons.IH [of "Suc i" "acc @ [rec]" A1] obtain new where
        "recs = (acc @ [rec]) @ new" "map lr_slug new = take (length new) ss"
        "\<forall>r \<in> set new. lr_holder_id r = h" "e = None \<longrightarrow> length new = length ss"
        by auto
      moreover have "lr_slug rec = s" "lr_holder_id rec = h"
        using spec_acquire_Inr Pair Inr by metis+
      ultimately show ?thesis by (intro exI [of _ "rec # new"]) simp
    qed
  qed
qed simp

lemma acq_inv_init: "acq_inv key A t [] A"
  by (simp add: acq_inv_def)

lemmas acquire_all_from_start = acquire_all_inv [OF _ acq_inv_init]

lemma spec_enter_rollback:
  assumes "nlock_enter (spec_acquire key) (spec_release key) clk L A = (Inl e, A')"
    and t: "\<forall>j < length (nlock_targets L). clk j \<le> t"
  shows "live_lease A' t k = live_lease A t k" and "fences A k \<le> fences A' k"
proof -
  obtain recs A1 where loop:
    "acquire_all (spec_acquire key) clk (nl_holder L) (nl_ttl L) 0 (nlock_targets L) [] A = ((Some e, recs), A1)"
    and A': "A' = release_all (spec_release key) recs A1"
    using assms(1) by (auto simp: nlock_enter_def split: prod.splits option.splits)
  have inv: "acq_inv key A t recs A1"
    using acquire_all_from_start [OF loop] t by simp
  then show "fences A k \<le> fences A' k"
    by (simp add: A' acq_inv_def)
  show "live_lease A' t k = live_lease A t k"
  proof (cases "k \<in> rec_keys key recs")
    case True
    then have "owned_by key A1 recs k" "\<not> live A t k" using inv by (auto simp: acq_inv_def)
    then show ?thesis
      by (auto simp: A' live_lease_def release_all_owned live_def split: option.splits)
  next
    case False
    then have "leases A1 k = leases A k" using inv by (auto simp: acq_inv_def)
    with False show ?thesis by (simp add: A' live_lease_def release_all_other)
  qed
qed

lemma spec_enter_owns:
  assumes "nlock_enter (spec_acquire key) (spec_release key) clk L A = (Inr L', A')"
    and t: "\<forall>j < length (nlock_targets L). clk j \<le> t"
  shows "map lr_slug (nl_records L') = nlock_targets L"
    and "\<forall>r \<in> set (nl_records L'). lr_holder_id r = nl_holder L \<and>
           fences A (key (lr_slug r)) < lr_fencing_token r"
    and "\<forall>s \<in> set (nlock_targets L). owned_by key A' (nl_records L') (key s) \<and> \<not> live A t (key s)"
    and "k \<notin> key ` set (nlock_targets L) \<Longrightarrow> leases A' k = leases A k"
proof -
  obtain recs where loop:
    "acquire_all (spec_acquire key) clk (nl_holder L) (nl_ttl L) 0 (nlock_targets L) [] A = ((None, recs), A')"
    and L': "nl_records L' = recs"
    using assms(1) by (auto simp: nlock_enter_def split: prod.splits option.splits)
  have inv: "acq_inv key A t recs A'"
    using acquire_all_from_start [OF loop] t by simp
  obtain new where "recs = [] @ new" "map lr_slug new = take (length new) (nlock_targets L)"
    "\<forall>r \<in> set new. lr_holder_id r = nl_holder L" "length new = length (nlock_targets L)"
    using acquire_all_records [OF loop] by auto
  then have slugs: "map lr_slug recs = nlock_targets L" and h: "\<forall>r \<in> set recs. lr_holder_id r = nl_holder L"
    by auto
  have keys: "rec_keys key recs = key ` set (nlock_targets L)"
    unfolding slugs [symmetric] by (simp add: rec_keys_def image_image)
  show "map lr_slug (nl_records L') = nlock_targets L" by (simp add: L' slugs)
  show "\<forall>r \<in> set (nl_records L'). lr_holder_id r = nl_holder L \<and>
           fences A (key (lr_slug r)) < lr_fencing_token r"
    using inv h by (auto simp: L' acq_inv_def)
  show "\<forall>s \<in> set (nlock_targets L). owned_by key A' (nl_records L') (key s) \<and> \<not> live A t (key s)"
    using inv by (auto simp: L' acq_inv_def keys)
  show "leases A' k = leases A k" if "k \<notin> key ` set (nlock_targets L)"
    using inv that by (auto simp: acq_inv_def keys)
qed

text \<open>When does entering succeed? With a clock that moves less than the time to live.\<close>

lemma acquire_all_distinct:
  "acquire_all (spec_acquire key) clk h ttl i ss acc A = ((None, recs), A') \<Longrightarrow>
   i + length ss \<le> n \<Longrightarrow> \<forall>j < n. \<forall>j' < n. clk j < clk j' + ttl \<Longrightarrow>
   \<forall>k \<in> K. \<forall>j < n. live A (clk j) k \<Longrightarrow>
   distinct (map key ss) \<and> key ` set ss \<inter> K = {}"
proof (induction ss arbitrary: i acc A K)
  case (Cons s ss)
  then obtain rec A1 where acq: "spec_acquire key A (clk i) s h ttl = (Inr rec, A1)"
    by (auto split: prod.splits sum.splits)
  note a = spec_acquire_Inr [OF acq]
  have "key s \<notin> K" using Cons.prems(2,4) a(1) by auto
  moreover have "\<forall>k \<in> insert (key s) K. \<forall>j < n. live A1 (clk j) k"
    using Cons.prems(2,3,4) a(7) by (auto simp: live_def)
  ultimately show ?case
    using Cons.IH [of "Suc i" "acc @ [rec]" A1 "insert (key s) K"] Cons.prems acq by auto
qed simp

lemma acquire_all_succeeds:
  "distinct (map key ss) \<Longrightarrow> \<forall>j < length ss. \<not> live A (clk (i + j)) (key (ss ! j)) \<Longrightarrow>
   \<exists>recs A'. acquire_all (spec_acquire key) clk h ttl i ss acc A = ((None, recs), A')"
proof (induction ss arbitrary: i acc A)
  case (Cons s ss)
  have "\<not> live A (clk i) (key s)" using Cons.prems(2) by force
  then obtain rec A1 where acq: "spec_acquire key A (clk i) s h ttl = (Inr rec, A1)"
    by (simp add: spec_defs)
  note a = spec_acquire_Inr [OF acq]
  have "\<not> live A1 (clk (Suc i + j)) (key (ss ! j))" if "j < length ss" for j
  proof -
    have "key (ss ! j) \<in> key ` set ss" using nth_mem [OF that] by (rule imageI)
    then have "key (ss ! j) \<noteq> key s" using Cons.prems(1) by auto
    moreover have "\<not> live A (clk (i + Suc j)) (key ((s # ss) ! Suc j))"
      using Cons.prems(2) that by (metis Suc_less_eq length_Cons)
    ultimately show ?thesis using a(7) by (auto simp: live_def)
  qed
  then show ?case using Cons.IH [of A1 "Suc i" "acc @ [rec]"] Cons.prems(1) acq by simp
qed simp

lemma spec_enter_iff:
  assumes spread: "\<forall>i < length (nlock_targets L). \<forall>j < length (nlock_targets L). clk i < clk j + nl_ttl L"
    and same: "\<forall>i < length (nlock_targets L). \<forall>k. live A (clk i) k \<longleftrightarrow> live A (clk 0) k"
  shows "(\<exists>L'. fst (nlock_enter (spec_acquire key) (spec_release key) clk L A) = Inr L') \<longleftrightarrow>
     distinct (map key (nlock_targets L)) \<and> (\<forall>s \<in> set (nlock_targets L). \<not> live A (clk 0) (key s))"
    (is "?ok \<longleftrightarrow> ?free")
proof
  assume ?ok
  then obtain recs A' where loop:
    "acquire_all (spec_acquire key) clk (nl_holder L) (nl_ttl L) 0 (nlock_targets L) [] A = ((None, recs), A')"
    by (auto simp: nlock_enter_def split: prod.splits option.splits)
  have alive: "\<forall>k \<in> {k. live A (clk 0) k}. \<forall>j < length (nlock_targets L). live A (clk j) k"
    using same by blast
  have "distinct (map key (nlock_targets L)) \<and>
      key ` set (nlock_targets L) \<inter> {k. live A (clk 0) k} = {}"
    by (rule acquire_all_distinct [OF loop _ spread alive]) simp
  then show ?free by auto
next
  assume ?free
  then have "\<forall>j < length (nlock_targets L). \<not> live A (clk (0 + j)) (key (nlock_targets L ! j))"
    using same nth_mem by (metis add_0)
  with \<open>?free\<close> have "\<exists>recs A'. acquire_all (spec_acquire key) clk (nl_holder L) (nl_ttl L) 0 (nlock_targets L) [] A
      = ((None, recs), A')"
    by (intro acquire_all_succeeds) simp_all
  then show ?ok by (auto simp: nlock_enter_def)
qed

section \<open>Every registry of the interface\<close>

context lock_registry begin

lemma acq_step:
  "inv r \<Longrightarrow> valid s \<Longrightarrow> acq r now s h ttl = (res, r') \<Longrightarrow>
   spec_acquire key (\<alpha> r) now s h ttl = (ok_or_unit res, \<alpha> r') \<and> inv r'"
  using acq_refines [of r s now h ttl] inv_acq [of r s now h ttl] by simp

lemma ren_step:
  "inv r \<Longrightarrow> valid s \<Longrightarrow> ren r now s h t ttl = (res, r') \<Longrightarrow>
   spec_renew key (\<alpha> r) now s h t ttl = (ok_or_unit res, \<alpha> r') \<and> inv r'"
  using ren_refines [of r s now h t ttl] inv_ren [of r s now h t ttl] by simp

lemma rel_step:
  "inv r \<Longrightarrow> valid s \<Longrightarrow> rel r s h t = (b, r') \<Longrightarrow>
   spec_release key (\<alpha> r) s h t = (b, \<alpha> r') \<and> inv r'"
  using rel_refines [of r s h t] inv_rel [of r s h t] by simp

lemma run_calls_reach:
  "inv r \<Longrightarrow> reg_reach key \<lparr>rs_reg = \<alpha> r, rs_issued = issued\<rparr> \<Longrightarrow> \<forall>c \<in> set cs. valid (call_slug c) \<Longrightarrow>
   run_calls acq ren rel cs issued r = (issued', r') \<Longrightarrow>
   inv r' \<and> reg_reach key \<lparr>rs_reg = \<alpha> r', rs_issued = issued'\<rparr>"
proof (induction cs arbitrary: issued r)
  case (Cons c cs)
  show ?case
  proof (cases c)
    case (CallAcquire now s h ttl)
    obtain res r1 where acq: "acq r now s h ttl = (res, r1)" by (cases "acq r now s h ttl")
    then have st: "spec_acquire key (\<alpha> r) now s h ttl = (ok_or_unit res, \<alpha> r1)" "inv r1"
      using acq_step Cons.prems CallAcquire by auto
    show ?thesis
    proof (cases res)
      case (Inl e)
      then have "reg_reach key \<lparr>rs_reg = \<alpha> r1, rs_issued = issued\<rparr>"
        using st Cons.prems(2) by (auto simp: spec_acquire_Inl)
      with Inl acq st CallAcquire Cons show ?thesis by simp
    next
      case (Inr rec)
      then have "reg_step key \<lparr>rs_reg = \<alpha> r, rs_issued = issued\<rparr> \<lparr>rs_reg = \<alpha> r1, rs_issued = rec # issued\<rparr>"
        using st step_acquire [of key "\<lparr>rs_reg = \<alpha> r, rs_issued = issued\<rparr>"] by simp
      then have "reg_reach key \<lparr>rs_reg = \<alpha> r1, rs_issued = rec # issued\<rparr>"
        using Cons.prems(2) reach_step by blast
      with Inr acq st CallAcquire Cons show ?thesis by simp
    qed
  next
    case (CallRenew now s h t ttl)
    obtain res r1 where ren: "ren r now s h t ttl = (res, r1)" by (cases "ren r now s h t ttl")
    then have st: "spec_renew key (\<alpha> r) now s h t ttl = (ok_or_unit res, \<alpha> r1)" "inv r1"
      using ren_step Cons.prems CallRenew by auto
    then have "reg_step key \<lparr>rs_reg = \<alpha> r, rs_issued = issued\<rparr> \<lparr>rs_reg = \<alpha> r1, rs_issued = issued\<rparr>"
      using step_renew [of key "\<lparr>rs_reg = \<alpha> r, rs_issued = issued\<rparr>"] by simp
    then have "reg_reach key \<lparr>rs_reg = \<alpha> r1, rs_issued = issued\<rparr>"
      using Cons.prems(2) reach_step by blast
    with ren st CallRenew Cons show ?thesis by simp
  next
    case (CallRelease s h t)
    obtain b r1 where rel: "rel r s h t = (b, r1)" by (cases "rel r s h t")
    then have st: "spec_release key (\<alpha> r) s h t = (b, \<alpha> r1)" "inv r1"
      using rel_step Cons.prems CallRelease by auto
    then have "reg_step key \<lparr>rs_reg = \<alpha> r, rs_issued = issued\<rparr> \<lparr>rs_reg = \<alpha> r1, rs_issued = issued\<rparr>"
      using step_release [of key "\<lparr>rs_reg = \<alpha> r, rs_issued = issued\<rparr>"] by simp
    then have "reg_reach key \<lparr>rs_reg = \<alpha> r1, rs_issued = issued\<rparr>"
      using Cons.prems(2) reach_step by blast
    with rel st CallRelease Cons show ?thesis by simp
  qed
qed simp

text \<open>A record that has been superseded can neither be renewed nor released, in any run.\<close>

lemma superseded_is_fenced:
  assumes "inv r0" and "\<forall>c \<in> set cs. valid (call_slug c)"
    and run: "run_calls acq ren rel cs [] r0 = (xs @ newer # ys, r)"
    and old: "older \<in> set ys" and same: "key (lr_slug older) = key (lr_slug newer)"
    and v: "valid (lr_slug older)"
  shows "isl (fst (ren r now (lr_slug older) h (lr_fencing_token older) ttl)) \<and>
         \<not> fst (rel r (lr_slug older) h (lr_fencing_token older))"
proof -
  have "reg_reach key \<lparr>rs_reg = \<alpha> r0, rs_issued = []\<rparr>"
    using reach_init inv_areg assms(1) by blast
  from run_calls_reach [OF assms(1) this assms(2) run]
  have inv: "inv r" and "run_inv key \<lparr>rs_reg = \<alpha> r, rs_issued = xs @ newer # ys\<rparr>"
    by (auto dest: run_inv_reach)
  then have no: "\<not> owns (\<alpha> r) (key (lr_slug older)) h (lr_fencing_token older)"
    using stale_not_owner [OF _ _ old same] by force
  obtain res r1 where ren: "ren r now (lr_slug older) h (lr_fencing_token older) ttl = (res, r1)"
    by (metis prod.exhaust)
  obtain b r2 where rel: "rel r (lr_slug older) h (lr_fencing_token older) = (b, r2)"
    by (metis prod.exhaust)
  show ?thesis
    using no ren rel ren_step [OF inv v ren] rel_step [OF inv v rel]
    by (cases res) (auto simp: spec_renew_def spec_release_def)
qed

lemma release_all_refines:
  "inv r \<Longrightarrow> \<forall>rec \<in> set recs. valid (lr_slug rec) \<Longrightarrow>
   \<alpha> (release_all rel recs r) = release_all (spec_release key) recs (\<alpha> r) \<and> inv (release_all rel recs r)"
proof (induction recs arbitrary: r)
  case (Cons rec recs)
  obtain b r1 where "rel r (lr_slug rec) (lr_holder_id rec) (lr_fencing_token rec) = (b, r1)"
    by (cases "rel r (lr_slug rec) (lr_holder_id rec) (lr_fencing_token rec)")
  with Cons rel_step [OF _ _ this] show ?case by simp
qed simp

lemma acquire_all_refines:
  "inv r \<Longrightarrow> \<forall>s \<in> set ss. valid s \<Longrightarrow> acquire_all acq clk h ttl i ss acc r = ((e, recs), r') \<Longrightarrow>
   acquire_all (spec_acquire key) clk h ttl i ss acc (\<alpha> r) = ((map_option (\<lambda>_. ()) e, recs), \<alpha> r') \<and> inv r'"
proof (induction ss arbitrary: i acc r)
  case (Cons s ss)
  obtain res r1 where acq: "acq r (clk i) s h ttl = (res, r1)" by (cases "acq r (clk i) s h ttl")
  with acq_step [OF _ _ acq] Cons show ?case by (cases res) auto
qed auto

theorem enter_refines:
  assumes "inv r" and v: "\<forall>s \<in> set (nlock_targets L). valid s"
    and enter: "nlock_enter acq rel clk L r = (res, r')"
  shows "nlock_enter (spec_acquire key) (spec_release key) clk L (\<alpha> r) = (ok_or_unit res, \<alpha> r') \<and> inv r'"
proof -
  obtain e recs r1 where loop:
    "acquire_all acq clk (nl_holder L) (nl_ttl L) 0 (nlock_targets L) [] r = ((e, recs), r1)"
    by (metis prod.exhaust)
  note l = acquire_all_refines [OF assms(1) v loop]
  have "\<forall>rec \<in> set recs. valid (lr_slug rec)"
  proof -
    obtain new where "recs = new" "map lr_slug new = take (length new) (nlock_targets L)"
      using acquire_all_records [of key clk _ _ _ "nlock_targets L" "[]"] l by force
    then have "lr_slug ` set recs \<subseteq> set (nlock_targets L)"
      by (metis list.set_map set_take_subset)
    with v show ?thesis by auto
  qed
  then show ?thesis
    using l enter loop release_all_refines [of r1 recs]
    by (cases e) (auto simp: nlock_enter_def)
qed

lemma enter_fails_rollback:
  assumes "inv r" "\<forall>s \<in> set (nlock_targets L). valid s"
    and "nlock_enter acq rel clk L r = (Inl e, r')"
    and "\<forall>j < length (nlock_targets L). clk j \<le> t"
  shows "live_lease (\<alpha> r') t k = live_lease (\<alpha> r) t k \<and> fences (\<alpha> r) k \<le> fences (\<alpha> r') k"
proof -
  have "nlock_enter (spec_acquire key) (spec_release key) clk L (\<alpha> r) = (Inl (), \<alpha> r')"
    using enter_refines [OF assms(1-3)] by simp
  from spec_enter_rollback [OF this assms(4)] show ?thesis by simp
qed

lemma enter_owns:
  assumes "inv r" "\<forall>s \<in> set (nlock_targets L). valid s"
    and "nlock_enter acq rel clk L r = (Inr L', r')"
    and "\<forall>j < length (nlock_targets L). clk j \<le> t"
  shows "map lr_slug (nl_records L') = nlock_targets L \<and>
    (\<forall>rec \<in> set (nl_records L'). lr_holder_id rec = nl_holder L \<and>
       fences (\<alpha> r) (key (lr_slug rec)) < lr_fencing_token rec) \<and>
    (\<forall>s \<in> set (nlock_targets L). owned_by key (\<alpha> r') (nl_records L') (key s) \<and> \<not> live (\<alpha> r) t (key s)) \<and>
    (\<forall>k. k \<notin> key ` set (nlock_targets L) \<longrightarrow> leases (\<alpha> r') k = leases (\<alpha> r) k)"
proof -
  have "nlock_enter (spec_acquire key) (spec_release key) clk L (\<alpha> r) = (Inr L', \<alpha> r')"
    using enter_refines [OF assms(1-3)] by simp
  from spec_enter_owns [OF this assms(4)] show ?thesis by blast
qed

lemma enter_iff:
  assumes "inv r" "\<forall>s \<in> set (nlock_targets L). valid s"
    and "\<forall>i < length (nlock_targets L). \<forall>j < length (nlock_targets L). clk i < clk j + nl_ttl L"
    and "\<forall>i < length (nlock_targets L). \<forall>k. live (\<alpha> r) (clk i) k \<longleftrightarrow> live (\<alpha> r) (clk 0) k"
  shows "(\<exists>L'. fst (nlock_enter acq rel clk L r) = Inr L') \<longleftrightarrow>
     distinct (map key (nlock_targets L)) \<and> (\<forall>s \<in> set (nlock_targets L). \<not> live (\<alpha> r) (clk 0) (key s))"
proof -
  obtain res r' where "nlock_enter acq rel clk L r = (res, r')" by (metis prod.exhaust)
  with enter_refines [OF assms(1,2) this] spec_enter_iff [OF assms(3,4), of key]
  show ?thesis by (cases res) auto
qed

end

end
