(* ===== verification/Sqlite_Locks.thy ===== *)
theory Sqlite_Locks imports Neighborhood_Lock begin

text \<open>
  \<open>SqliteLockRegistry\<close> of \<open>memu/neighborhood_lock.py\<close>. The two tables are maps from the
  primary key \<open>slug\<close> to the row. Every method runs its statements under one asyncio lock
  and commits at the end, so a method is one atomic step. Timestamps are written with
  \<open>isoformat\<close> and read back with \<open>fromisoformat\<close>, which give the same instant; the rows
  hold the instant.
\<close>

record lock_row =
  row_holder :: string
  row_token :: int
  row_acquired :: time
  row_expires :: time

record sq_registry =
  sq_locks :: "string \<rightharpoonup> lock_row"
  sq_fence :: "string \<rightharpoonup> int"

definition sq_bump_fence :: "sq_registry \<Rightarrow> string \<Rightarrow> int \<times> sq_registry" where
  "sq_bump_fence r slug =
     (let new_token = (case sq_fence r slug of Some c \<Rightarrow> c + 1 | None \<Rightarrow> 1)
      in (new_token, r\<lparr>sq_fence := (sq_fence r)(slug \<mapsto> new_token)\<rparr>))"

definition sq_try_acquire ::
  "sq_registry \<Rightarrow> time \<Rightarrow> string \<Rightarrow> string \<Rightarrow> int \<Rightarrow> (conflict + lock_record) \<times> sq_registry" where
  "sq_try_acquire r now slug holder_id ttl =
     (let insert_lease = (\<lambda>r1.
            (let (new_token, r2) = sq_bump_fence r1 slug; expires = now + ttl
             in (Inr \<lparr>lr_slug = slug, lr_holder_id = holder_id, lr_fencing_token = new_token,
                      lr_acquired_at = now, lr_expires_at = expires\<rparr>,
                 r2\<lparr>sq_locks := (sq_locks r2)(slug \<mapsto>
                      \<lparr>row_holder = holder_id, row_token = new_token,
                       row_acquired = now, row_expires = expires\<rparr>)\<rparr>)))
      in case sq_locks r slug of
           Some row \<Rightarrow>
             if now < row_expires row then (Inl (HeldBy (row_holder row) (row_expires row)), r)
             else insert_lease (r\<lparr>sq_locks := (sq_locks r)(slug := None)\<rparr>)
         | None \<Rightarrow> insert_lease r)"

definition sq_renew ::
  "sq_registry \<Rightarrow> time \<Rightarrow> string \<Rightarrow> string \<Rightarrow> int \<Rightarrow> int \<Rightarrow> (conflict + lock_record) \<times> sq_registry" where
  "sq_renew r now slug holder_id fencing_token ttl =
     (case sq_locks r slug of
        None \<Rightarrow> (Inl LockGone, r)
      | Some row \<Rightarrow>
          if row_holder row \<noteq> holder_id \<or> row_token row \<noteq> fencing_token
          then (Inl (TokenMismatch fencing_token (row_token row)), r)
          else (let expires = now + ttl
                in (Inr \<lparr>lr_slug = slug, lr_holder_id = holder_id, lr_fencing_token = fencing_token,
                         lr_acquired_at = now, lr_expires_at = expires\<rparr>,
                    r\<lparr>sq_locks := (sq_locks r)(slug \<mapsto> row\<lparr>row_expires := expires\<rparr>)\<rparr>)))"

definition sq_release :: "sq_registry \<Rightarrow> string \<Rightarrow> string \<Rightarrow> int \<Rightarrow> bool \<times> sq_registry" where
  "sq_release r slug holder_id fencing_token =
     (case sq_locks r slug of
        None \<Rightarrow> (False, r)
      | Some row \<Rightarrow>
          if row_holder row \<noteq> holder_id \<or> row_token row \<noteq> fencing_token then (False, r)
          else (True, r\<lparr>sq_locks := (sq_locks r)(slug := None)\<rparr>))"

definition sq_peek :: "sq_registry \<Rightarrow> string \<Rightarrow> lock_record option" where
  "sq_peek r slug =
     map_option (\<lambda>row. \<lparr>lr_slug = slug, lr_holder_id = row_holder row, lr_fencing_token = row_token row,
       lr_acquired_at = row_acquired row, lr_expires_at = row_expires row\<rparr>) (sq_locks r slug)"

definition sq_empty :: sq_registry where
  "sq_empty = \<lparr>sq_locks = Map.empty, sq_fence = Map.empty\<rparr>"

section \<open>It implements the lease automaton\<close>

definition row_lease :: "lock_row \<Rightarrow> lease" where
  "row_lease row = \<lparr>l_holder = row_holder row, l_token = row_token row, l_expires = row_expires row\<rparr>"

definition sq_abs :: "sq_registry \<Rightarrow> areg" where
  "sq_abs r = \<lparr>leases = map_option row_lease \<circ> sq_locks r,
               fences = (\<lambda>k. case sq_fence r k of None \<Rightarrow> 0 | Some c \<Rightarrow> c)\<rparr>"

definition sq_inv :: "sq_registry \<Rightarrow> bool" where
  "sq_inv r \<longleftrightarrow> areg_inv (sq_abs r)"

lemmas sq_defs = sq_try_acquire_def sq_renew_def sq_release_def sq_bump_fence_def Let_def

lemma sq_abs_leases [simp]: "leases (sq_abs r) k = map_option row_lease (sq_locks r k)"
  by (simp add: sq_abs_def)

lemma sq_abs_fences [simp]: "fences (sq_abs r) k = (case sq_fence r k of None \<Rightarrow> 0 | Some c \<Rightarrow> c)"
  by (simp add: sq_abs_def)

lemma row_lease_sel [simp]:
  "l_holder (row_lease row) = row_holder row" "l_token (row_lease row) = row_token row"
  "l_expires (row_lease row) = row_expires row"
  by (simp_all add: row_lease_def)

lemma sq_acquire_refines:
  "map_prod ok_or_unit sq_abs (sq_try_acquire r now s h ttl) = spec_acquire id (sq_abs r) now s h ttl"
  by (cases "sq_locks r s"; cases "sq_fence r s")
    (auto simp: sq_defs spec_acquire_def live_def sq_abs_def row_lease_def fun_eq_iff)

lemma sq_renew_refines:
  "map_prod ok_or_unit sq_abs (sq_renew r now s h t ttl) = spec_renew id (sq_abs r) now s h t ttl"
  by (cases "sq_locks r s")
    (auto simp: sq_defs spec_renew_def owns_def sq_abs_def row_lease_def fun_eq_iff)

lemma sq_release_refines:
  "map_prod id sq_abs (sq_release r s h t) = spec_release id (sq_abs r) s h t"
  by (cases "sq_locks r s")
    (auto simp: sq_defs spec_release_def owns_def sq_abs_def row_lease_def fun_eq_iff)

lemma sq_abs_snd:
  "sq_abs (snd (sq_try_acquire r now s h ttl)) = snd (spec_acquire id (sq_abs r) now s h ttl)"
  "sq_abs (snd (sq_renew r now s h t ttl)) = snd (spec_renew id (sq_abs r) now s h t ttl)"
  "sq_abs (snd (sq_release r s h t)) = snd (spec_release id (sq_abs r) s h t)"
  using sq_acquire_refines [of r now s h ttl] sq_renew_refines [of r now s h t ttl]
    sq_release_refines [of r s h t] by (metis snd_map_prod)+

interpretation sqreg: lock_registry sq_inv "\<lambda>_. True" id sq_abs sq_try_acquire sq_renew sq_release
  by unfold_locales
    (simp_all add: sq_acquire_refines sq_renew_refines sq_release_refines sq_inv_def sq_abs_snd
      areg_inv_acquire areg_inv_renew areg_inv_release)

section \<open>Properties\<close>

text \<open>
  (C1) Every operation of the SQLite registry is the operation of the lease automaton:
  the same success or failure, the same record, and the same leases and counters after it.
\<close>
theorem sqlite_registry_refines_leases:
  "map_prod ok_or_unit sq_abs (sq_try_acquire r now slug holder ttl) =
     spec_acquire id (sq_abs r) now slug holder ttl \<and>
   map_prod ok_or_unit sq_abs (sq_renew r now slug holder token ttl) =
     spec_renew id (sq_abs r) now slug holder token ttl \<and>
   map_prod id sq_abs (sq_release r slug holder token) = spec_release id (sq_abs r) slug holder token"
  by (simp add: sq_acquire_refines sq_renew_refines sq_release_refines)

text \<open>
  (C2) Fencing: after any sequence of calls on the SQLite registry, once a second record has
  been issued for a slug, the holder of the earlier record can neither renew nor release.
\<close>
theorem sqlite_superseded_record_fenced:
  assumes "sq_inv r0"
    and "run_calls sq_try_acquire sq_renew sq_release calls [] r0 = (xs @ newer # ys, r)"
    and "older \<in> set ys" and "lr_slug older = lr_slug newer"
  shows "isl (fst (sq_renew r now (lr_slug older) holder (lr_fencing_token older) ttl)) \<and>
         \<not> fst (sq_release r (lr_slug older) holder (lr_fencing_token older))"
  using sqreg.superseded_is_fenced [OF assms(1) _ assms(2,3)] assms(4) by simp

lemma sq_inv_empty: "sq_inv sq_empty"
  by (simp add: sq_inv_def sq_empty_def areg_inv_def)

theorem sqlite_superseded_record_fenced_witness:
  "isl (fst (sq_renew (snd (run_calls sq_try_acquire sq_renew sq_release
      [CallAcquire 0 ''s'' ''a'' 5, CallAcquire 7 ''s'' ''b'' 5] [] sq_empty)) 8 ''s'' ''a'' 1 5))"
proof -
  let ?calls = "[CallAcquire 0 ''s'' ''a'' 5, CallAcquire 7 ''s'' ''b'' 5]"
  let ?old = "\<lparr>lr_slug = ''s'', lr_holder_id = ''a'', lr_fencing_token = 1, lr_acquired_at = 0, lr_expires_at = 5\<rparr>"
  let ?new = "\<lparr>lr_slug = ''s'', lr_holder_id = ''b'', lr_fencing_token = 2, lr_acquired_at = 7, lr_expires_at = 12\<rparr>"
  have run: "run_calls sq_try_acquire sq_renew sq_release ?calls [] sq_empty =
      ([] @ ?new # [?old], snd (run_calls sq_try_acquire sq_renew sq_release ?calls [] sq_empty))"
    by (simp add: sq_defs sq_empty_def)
  show ?thesis
    using sqlite_superseded_record_fenced [OF sq_inv_empty run, of ?old 8 "''a''" 5] by simp
qed

text \<open>
  (C3) All or nothing: when entering a \<open>NeighborhoodLock\<close> fails, then from the last clock
  reading on every slug has exactly the live lease it had before, and no counter went back.
\<close>
theorem sqlite_enter_failure_rolls_back:
  assumes "sq_inv r"
    and "isl (fst (nlock_enter sq_try_acquire sq_release clk L r))"
    and "\<forall>j < length (nlock_targets L). clk j \<le> t"
  shows "live_lease (sq_abs (snd (nlock_enter sq_try_acquire sq_release clk L r))) t slug =
           live_lease (sq_abs r) t slug \<and>
         fences (sq_abs r) slug \<le> fences (sq_abs (snd (nlock_enter sq_try_acquire sq_release clk L r))) slug"
  using sqreg.enter_fails_rollback [OF assms(1) _ _ assms(3)] assms(2)
  by (cases "nlock_enter sq_try_acquire sq_release clk L r"; cases "fst (nlock_enter sq_try_acquire sq_release clk L r)")
    auto

definition sq_example :: sq_registry where
  "sq_example = snd (sq_try_acquire sq_empty 0 ''b'' ''peer'' 50)"

definition nlock_example :: nlock where
  "nlock_example = \<lparr>nl_slug = ''a'', nl_neighbors = [''c'', ''b''], nl_holder = ''me'', nl_ttl = 30,
     nl_renew_interval = 10, nl_records = [], nl_renewer = False\<rparr>"

lemma nlock_example_targets [simp]: "nlock_targets nlock_example = [''a'', ''b'', ''c'']"
  by code_simp

lemma nlock_example_sel [simp]: "nl_holder nlock_example = ''me''" "nl_ttl nlock_example = 30"
  by (simp_all add: nlock_example_def)

lemma sq_inv_example: "sq_inv sq_example"
  using sqreg.inv_acq [OF sq_inv_empty] by (simp add: sq_example_def)

theorem sqlite_enter_failure_rolls_back_witness:
  "isl (fst (nlock_enter sq_try_acquire sq_release (\<lambda>i. 3) nlock_example sq_example)) \<and>
   live_lease (sq_abs (snd (nlock_enter sq_try_acquire sq_release (\<lambda>i. 3) nlock_example sq_example))) 3 ''a'' =
     live_lease (sq_abs sq_example) 3 ''a''"
proof -
  have fail: "isl (fst (nlock_enter sq_try_acquire sq_release (\<lambda>i. 3) nlock_example sq_example))"
    by (simp add: nlock_enter_def sq_example_def sq_empty_def sq_defs)
  show ?thesis
    using fail sqlite_enter_failure_rolls_back [OF sq_inv_example fail, of 3 "''a''"] by simp
qed

text \<open>
  When entering succeeds, the records are those of the slug and its sorted neighbours in
  order, all issued to the lock's holder with tokens above every token issued before; every
  target is leased to one of these records, no target was leased to a live peer, and the
  leases of all other slugs are untouched.
\<close>
theorem sqlite_enter_success_owns_all:
  assumes "sq_inv r"
    and "nlock_enter sq_try_acquire sq_release clk L r = (Inr L', r')"
    and "\<forall>j < length (nlock_targets L). clk j \<le> t"
  shows "map lr_slug (nl_records L') = nlock_targets L \<and>
    (\<forall>rec \<in> set (nl_records L'). lr_holder_id rec = nl_holder L \<and>
       fences (sq_abs r) (lr_slug rec) < lr_fencing_token rec) \<and>
    (\<forall>s \<in> set (nlock_targets L). owned_by id (sq_abs r') (nl_records L') s \<and> \<not> live (sq_abs r) t s) \<and>
    (\<forall>s. s \<notin> set (nlock_targets L) \<longrightarrow> leases (sq_abs r') s = leases (sq_abs r) s)"
  using sqreg.enter_owns [OF assms(1) _ assms(2,3)] by (simp add: image_id del: sq_abs_leases sq_abs_fences)

theorem sqlite_enter_success_owns_all_witness:
  "\<exists>L' r'. nlock_enter sq_try_acquire sq_release (\<lambda>i. 60) nlock_example sq_example = (Inr L', r') \<and>
     map lr_slug (nl_records L') = [''a'', ''b'', ''c'']"
proof -
  have "\<not> isl (fst (nlock_enter sq_try_acquire sq_release (\<lambda>i. 60) nlock_example sq_example))"
    by (simp add: nlock_enter_def sq_example_def sq_empty_def sq_defs)
  then obtain L' r' where ok: "nlock_enter sq_try_acquire sq_release (\<lambda>i. 60) nlock_example sq_example = (Inr L', r')"
    by (metis fst_conv isl_def old.sum.exhaust prod.exhaust)
  show ?thesis
    using ok sqlite_enter_success_owns_all [OF sq_inv_example ok, of 60]
    by simp
qed

end
