(* ===== verification/Markdown_Locks.thy ===== *)
theory Markdown_Locks imports Neighborhood_Lock begin

text \<open>
  \<open>MarkdownLockRegistry\<close> of \<open>memu/neighborhood_lock.py\<close>. The two directories are maps
  from file names to contents: \<open>locks/<name>.json\<close> holds a lease payload (or text that is
  not JSON), \<open>locks/_fence/<name>\<close> holds a counter (or text that is not an integer). A
  file name is the slug with every \<open>/\<close> replaced by two underscores. The methods run under
  one asyncio lock. \<open>_atomic_write\<close> writes the file \<open>name.tmp\<close> and renames it.
\<close>

record lock_payload =
  pl_slug :: string
  pl_holder_id :: string
  pl_fencing_token :: int
  pl_acquired_at :: time
  pl_expires_at :: time

datatype lock_file = LockFile lock_payload | NotJson

datatype fence_file = FenceInt int | FenceBlank | FenceGarbage

record md_registry =
  md_locks :: "string \<rightharpoonup> lock_file"
  md_fences :: "string \<rightharpoonup> fence_file"

definition safe_name :: "string \<Rightarrow> string" where
  "safe_name slug = concat (map (\<lambda>c. if c = CHR ''/'' then ''__'' else [c]) slug)"

definition tmp_name :: "string \<Rightarrow> string" where
  "tmp_name name = name @ ''.tmp''"

definition lock_name :: "string \<Rightarrow> string" where
  "lock_name slug = safe_name slug @ ''.json''"

definition read_lock_file :: "md_registry \<Rightarrow> string \<Rightarrow> lock_payload option" where
  "read_lock_file r name =
     (case md_locks r name of None \<Rightarrow> None | Some NotJson \<Rightarrow> None | Some (LockFile p) \<Rightarrow> Some p)"

definition read_fence :: "md_registry \<Rightarrow> string \<Rightarrow> int" where
  "read_fence r slug =
     (case md_fences r (safe_name slug) of
        Some (FenceInt n) \<Rightarrow> n | Some FenceBlank \<Rightarrow> 0 | Some FenceGarbage \<Rightarrow> 0 | None \<Rightarrow> 0)"

definition atomic_write :: "(string \<rightharpoonup> 'a) \<Rightarrow> string \<Rightarrow> 'a \<Rightarrow> (string \<rightharpoonup> 'a)" where
  "atomic_write fs name content = (fs(tmp_name name \<mapsto> content))(tmp_name name := None, name \<mapsto> content)"

definition md_bump_fence :: "md_registry \<Rightarrow> string \<Rightarrow> int \<times> md_registry" where
  "md_bump_fence r slug =
     (let new_token = read_fence r slug + 1
      in (new_token, r\<lparr>md_fences := atomic_write (md_fences r) (safe_name slug) (FenceInt new_token)\<rparr>))"

definition md_try_acquire ::
  "md_registry \<Rightarrow> time \<Rightarrow> string \<Rightarrow> string \<Rightarrow> int \<Rightarrow> (conflict + lock_record) \<times> md_registry" where
  "md_try_acquire r now slug holder_id ttl =
     (let expires = now + ttl; path = lock_name slug;
          create = (\<lambda>r1.
            (let (new_token, r2) = md_bump_fence r1 slug
             in case md_locks r2 path of
                  Some _ \<Rightarrow> (Inl LostRace, r2)
                | None \<Rightarrow>
                    (Inr \<lparr>lr_slug = slug, lr_holder_id = holder_id, lr_fencing_token = new_token,
                          lr_acquired_at = now, lr_expires_at = expires\<rparr>,
                     r2\<lparr>md_locks := (md_locks r2)(path \<mapsto>
                          LockFile \<lparr>pl_slug = slug, pl_holder_id = holder_id, pl_fencing_token = new_token,
                                    pl_acquired_at = now, pl_expires_at = expires\<rparr>)\<rparr>)))
      in case read_lock_file r path of
           Some existing \<Rightarrow>
             if now < pl_expires_at existing
             then (Inl (HeldBy (pl_holder_id existing) (pl_expires_at existing)), r)
             else create (r\<lparr>md_locks := (md_locks r)(path := None)\<rparr>)
         | None \<Rightarrow> create r)"

definition md_renew ::
  "md_registry \<Rightarrow> time \<Rightarrow> string \<Rightarrow> string \<Rightarrow> int \<Rightarrow> int \<Rightarrow> (conflict + lock_record) \<times> md_registry" where
  "md_renew r now slug holder_id fencing_token ttl =
     (if read_fence r slug \<noteq> fencing_token
      then (Inl (TokenMismatch fencing_token (read_fence r slug)), r)
      else case read_lock_file r (lock_name slug) of
             None \<Rightarrow> (Inl LockGone, r)
           | Some p \<Rightarrow>
               if pl_holder_id p \<noteq> holder_id \<or> pl_fencing_token p \<noteq> fencing_token
               then (Inl OwnerChanged, r)
               else (let expires = now + ttl
                     in (Inr \<lparr>lr_slug = slug, lr_holder_id = holder_id, lr_fencing_token = fencing_token,
                              lr_acquired_at = now, lr_expires_at = expires\<rparr>,
                         r\<lparr>md_locks := atomic_write (md_locks r) (lock_name slug)
                              (LockFile (p\<lparr>pl_expires_at := expires\<rparr>))\<rparr>)))"

definition md_release :: "md_registry \<Rightarrow> string \<Rightarrow> string \<Rightarrow> int \<Rightarrow> bool \<times> md_registry" where
  "md_release r slug holder_id fencing_token =
     (case read_lock_file r (lock_name slug) of
        None \<Rightarrow> (False, r)
      | Some p \<Rightarrow>
          if pl_holder_id p \<noteq> holder_id \<or> pl_fencing_token p \<noteq> fencing_token then (False, r)
          else if read_fence r slug \<noteq> fencing_token then (False, r)
          else (True, r\<lparr>md_locks := (md_locks r)(lock_name slug := None)\<rparr>))"

definition md_peek :: "md_registry \<Rightarrow> string \<Rightarrow> lock_record option" where
  "md_peek r slug =
     map_option (\<lambda>p. \<lparr>lr_slug = pl_slug p, lr_holder_id = pl_holder_id p,
       lr_fencing_token = pl_fencing_token p, lr_acquired_at = pl_acquired_at p,
       lr_expires_at = pl_expires_at p\<rparr>) (read_lock_file r (lock_name slug))"

definition md_empty :: md_registry where
  "md_empty = \<lparr>md_locks = Map.empty, md_fences = Map.empty\<rparr>"

section \<open>It implements the lease automaton\<close>

text \<open>
  The key of a slug is its file name, so slugs that differ in \<open>/\<close> against two underscores
  share a lock. The slugs for which the registry keeps its promise are those whose file
  name does not end in \<open>.tmp\<close>: writing the counter of \<open>a\<close> goes through \<open>_fence/a.tmp\<close>,
  which is the counter file of the slug \<open>a.tmp\<close>. (The empty slug, \<open>.\<close> and \<open>..\<close> name no
  regular file either.)
\<close>

definition tmp_free :: "string \<Rightarrow> bool" where
  "tmp_free name \<longleftrightarrow> drop (length name - 4) name \<noteq> ''.tmp''"

definition md_valid :: "string \<Rightarrow> bool" where
  "md_valid slug \<longleftrightarrow> tmp_free (safe_name slug) \<and> safe_name slug \<notin> {[], ''.'', ''..''}"

definition payload_lease :: "lock_payload \<Rightarrow> lease" where
  "payload_lease p = \<lparr>l_holder = pl_holder_id p, l_token = pl_fencing_token p, l_expires = pl_expires_at p\<rparr>"

definition fence_value :: "md_registry \<Rightarrow> string \<Rightarrow> int" where
  "fence_value r name =
     (case md_fences r name of
        Some (FenceInt n) \<Rightarrow> n | Some FenceBlank \<Rightarrow> 0 | Some FenceGarbage \<Rightarrow> 0 | None \<Rightarrow> 0)"

definition md_abs :: "md_registry \<Rightarrow> areg" where
  "md_abs r = \<lparr>leases = (\<lambda>k. if tmp_free k then map_option payload_lease (read_lock_file r (k @ ''.json'')) else None),
               fences = (\<lambda>k. if tmp_free k then fence_value r k else 0)\<rparr>"

definition md_inv :: "md_registry \<Rightarrow> bool" where
  "md_inv r \<longleftrightarrow> areg_inv (md_abs r) \<and> (\<forall>k. md_locks r (k @ ''.json'') \<noteq> Some NotJson)"

lemma tmp_free_tmp_name: "tmp_free k \<Longrightarrow> k \<noteq> tmp_name n"
  by (auto simp: tmp_free_def tmp_name_def)

lemma json_not_tmp: "k @ ''.json'' \<noteq> tmp_name n"
proof
  assume "k @ ''.json'' = tmp_name n"
  then have "last (k @ ''.json'') = last (n @ ''.tmp'')" by (simp add: tmp_name_def)
  then show False by simp
qed

lemma atomic_write_same [simp]: "atomic_write fs n c n = Some c"
  by (simp add: atomic_write_def)

lemma atomic_write_other: "k \<noteq> tmp_name n \<Longrightarrow> k \<noteq> n \<Longrightarrow> atomic_write fs n c k = fs k"
  by (simp add: atomic_write_def)

lemma atomic_write_tmp: "atomic_write fs n c (tmp_name n) = None"
  by (simp add: atomic_write_def tmp_name_def)

lemma atomic_write_json [simp]:
  "atomic_write fs (n @ ''.json'') c (k @ ''.json'') = (if k = n then Some c else fs (k @ ''.json''))"
  using json_not_tmp [of k "n @ ''.json''"] by (simp add: atomic_write_other)

lemma atomic_write_tmp_free:
  "tmp_free k \<Longrightarrow> atomic_write fs n c k = (if k = n then Some c else fs k)"
  using tmp_free_tmp_name [of k n] by (simp add: atomic_write_other)

lemma md_leases [simp]:
  "tmp_free k \<Longrightarrow> leases (md_abs r) k = map_option payload_lease (read_lock_file r (k @ ''.json''))"
  by (simp add: md_abs_def)

lemma md_fences_abs [simp]: "tmp_free k \<Longrightarrow> fences (md_abs r) k = fence_value r k"
  by (simp add: md_abs_def)

lemma payload_lease_sel [simp]:
  "l_holder (payload_lease p) = pl_holder_id p" "l_token (payload_lease p) = pl_fencing_token p"
  "l_expires (payload_lease p) = pl_expires_at p"
  by (simp_all add: payload_lease_def)

lemma fence_value_locks [simp]: "fence_value (r\<lparr>md_locks := L\<rparr>) n = fence_value r n"
  by (simp add: fence_value_def)

lemma read_fence_value: "read_fence r s = fence_value r (safe_name s)"
  by (simp add: read_fence_def fence_value_def)

text \<open>The abstract effect of the two writes.\<close>

lemma md_abs_put_lock:
  "tmp_free n \<Longrightarrow> md_abs (r\<lparr>md_locks := (md_locks r)(n @ ''.json'' \<mapsto> LockFile p)\<rparr>) =
     (md_abs r)\<lparr>leases := (leases (md_abs r))(n \<mapsto> payload_lease p)\<rparr>"
  by (auto simp: md_abs_def read_lock_file_def fence_value_def fun_eq_iff)

lemma md_abs_renew_lock:
  "tmp_free n \<Longrightarrow> md_abs (r\<lparr>md_locks := atomic_write (md_locks r) (n @ ''.json'') (LockFile p)\<rparr>) =
     (md_abs r)\<lparr>leases := (leases (md_abs r))(n \<mapsto> payload_lease p)\<rparr>"
  by (auto simp: md_abs_def read_lock_file_def fence_value_def fun_eq_iff)

lemma md_abs_del_lock:
  "tmp_free n \<Longrightarrow> md_abs (r\<lparr>md_locks := (md_locks r)(n @ ''.json'' := None)\<rparr>) =
     (md_abs r)\<lparr>leases := (leases (md_abs r))(n := None)\<rparr>"
  by (auto simp: md_abs_def read_lock_file_def fence_value_def fun_eq_iff)

lemma md_abs_put_fence:
  "tmp_free n \<Longrightarrow> md_abs (r\<lparr>md_fences := atomic_write (md_fences r) n (FenceInt t)\<rparr>) =
     (md_abs r)\<lparr>fences := (fences (md_abs r))(n := t)\<rparr>"
  by (auto simp: md_abs_def read_lock_file_def fence_value_def fun_eq_iff atomic_write_tmp_free)

lemma md_abs_acquired:
  "tmp_free n \<Longrightarrow>
   md_abs (r\<lparr>md_fences := atomic_write (md_fences r) n (FenceInt t),
            md_locks := (md_locks r)(n @ ''.json'' \<mapsto> LockFile p)\<rparr>) =
     (md_abs r)\<lparr>leases := (leases (md_abs r))(n \<mapsto> payload_lease p),
              fences := (fences (md_abs r))(n := t)\<rparr>"
  by (auto simp: md_abs_def read_lock_file_def fence_value_def fun_eq_iff atomic_write_tmp_free)

lemma lock_name_json: "lock_name s = safe_name s @ ''.json''"
  by (rule lock_name_def)

lemmas md_op_defs = md_try_acquire_def md_renew_def md_release_def md_bump_fence_def Let_def lock_name_json

lemma md_valid_tmp_free [simp]: "md_valid s \<Longrightarrow> tmp_free (safe_name s)"
  by (simp add: md_valid_def)

lemma md_lock_cases:
  assumes "md_inv r"
  obtains "md_locks r (k @ ''.json'') = None" "read_lock_file r (k @ ''.json'') = None"
  | p where "md_locks r (k @ ''.json'') = Some (LockFile p)" "read_lock_file r (k @ ''.json'') = Some p"
  using assms by (cases "md_locks r (k @ ''.json'')"; cases "the (md_locks r (k @ ''.json''))")
    (auto simp: md_inv_def read_lock_file_def)

lemma md_acquire_refines:
  assumes inv: "md_inv r" and v: "md_valid s"
  shows "map_prod ok_or_unit md_abs (md_try_acquire r now s h ttl) = spec_acquire safe_name (md_abs r) now s h ttl"
  using v by (cases rule: md_lock_cases [OF inv, of "safe_name s"])
    (auto simp: md_op_defs spec_acquire_def live_def read_fence_value md_abs_acquired md_abs_del_lock
      payload_lease_def)

lemma md_renew_refines:
  assumes inv: "md_inv r" and v: "md_valid s"
  shows "map_prod ok_or_unit md_abs (md_renew r now s h t ttl) = spec_renew safe_name (md_abs r) now s h t ttl"
proof -
  have "areg_inv (md_abs r)" using inv by (simp add: md_inv_def)
  then have tok: "pl_fencing_token p = fence_value r (safe_name s)"
    if "read_lock_file r (safe_name s @ ''.json'') = Some p" for p
    using that v by (auto simp: areg_inv_def dest: spec [of _ "safe_name s"])
  show ?thesis
    using v tok by (cases rule: md_lock_cases [OF inv, of "safe_name s"])
      (auto simp: md_op_defs spec_renew_def owns_def read_fence_value md_abs_renew_lock payload_lease_def)
qed

lemma md_release_refines:
  assumes inv: "md_inv r" and v: "md_valid s"
  shows "map_prod id md_abs (md_release r s h t) = spec_release safe_name (md_abs r) s h t"
proof -
  have "areg_inv (md_abs r)" using inv by (simp add: md_inv_def)
  then have tok: "pl_fencing_token p = fence_value r (safe_name s)"
    if "read_lock_file r (safe_name s @ ''.json'') = Some p" for p
    using that v by (auto simp: areg_inv_def dest: spec [of _ "safe_name s"])
  show ?thesis
    using v tok by (cases rule: md_lock_cases [OF inv, of "safe_name s"])
      (auto simp: md_op_defs spec_release_def owns_def read_fence_value md_abs_del_lock payload_lease_def)
qed

lemma md_abs_snd:
  assumes "md_inv r" "md_valid s"
  shows "md_abs (snd (md_try_acquire r now s h ttl)) = snd (spec_acquire safe_name (md_abs r) now s h ttl)"
    and "md_abs (snd (md_renew r now s h t ttl)) = snd (spec_renew safe_name (md_abs r) now s h t ttl)"
    and "md_abs (snd (md_release r s h t)) = snd (spec_release safe_name (md_abs r) s h t)"
  using md_acquire_refines [OF assms] md_renew_refines [OF assms] md_release_refines [OF assms]
  by (metis snd_map_prod)+

lemma md_no_garbage:
  assumes "\<forall>k. md_locks r (k @ ''.json'') \<noteq> Some NotJson"
  shows "md_locks (snd (md_try_acquire r now s h ttl)) (k @ ''.json'') \<noteq> Some NotJson"
    and "md_locks (snd (md_renew r now s h t ttl)) (k @ ''.json'') \<noteq> Some NotJson"
    and "md_locks (snd (md_release r s h t)) (k @ ''.json'') \<noteq> Some NotJson"
  using assms by (auto simp: md_op_defs split: option.splits)

interpretation mdreg: lock_registry md_inv md_valid safe_name md_abs md_try_acquire md_renew md_release
proof (unfold_locales, goal_cases)
  case (4 r s now h ttl)
  then show ?case using md_no_garbage(1) [of r] by (simp add: md_inv_def md_abs_snd areg_inv_acquire)
next
  case (5 r s now h t ttl)
  then show ?case using md_no_garbage(2) [of r] by (simp add: md_inv_def md_abs_snd areg_inv_renew)
next
  case (6 r s h t)
  then show ?case using md_no_garbage(3) [of r] by (simp add: md_inv_def md_abs_snd areg_inv_release)
qed (auto simp: md_acquire_refines md_renew_refines md_release_refines md_inv_def)

section \<open>Properties\<close>


lemma md_inv_empty: "md_inv md_empty"
  by (simp add: md_inv_def md_empty_def areg_inv_def md_abs_def read_lock_file_def fence_value_def)

lemma md_valid_example: "md_valid ''a/b''" "md_valid ''a''"
  by (simp_all add: md_valid_def safe_name_def tmp_free_def)


text \<open>
  Entering a \<open>NeighborhoodLock\<close> on a markdown vault, with a clock that moves less than
  the time to live and past no expiry, succeeds exactly when the file names of the slug and
  its neighbours are pairwise distinct and none is leased; a repeated neighbour, or two
  slugs with one file name, always fails.
\<close>
theorem markdown_enter_succeeds_iff:
  assumes "md_inv r" and "\<forall>s \<in> set (nlock_targets L). md_valid s"
    and "\<forall>i < length (nlock_targets L). \<forall>j < length (nlock_targets L). clk i < clk j + nl_ttl L"
    and "\<forall>i < length (nlock_targets L). \<forall>k. live (md_abs r) (clk i) k \<longleftrightarrow> live (md_abs r) (clk 0) k"
  shows "(\<exists>L'. fst (nlock_enter md_try_acquire md_release clk L r) = Inr L') \<longleftrightarrow>
     distinct (map safe_name (nlock_targets L)) \<and>
     (\<forall>s \<in> set (nlock_targets L). \<not> live (md_abs r) (clk 0) (safe_name s))"
  using mdreg.enter_iff [OF assms] .

definition nlock_clash :: nlock where
  "nlock_clash = \<lparr>nl_slug = ''a/b'', nl_neighbors = [''a__b''], nl_holder = ''me'', nl_ttl = 30,
     nl_renew_interval = 10, nl_records = [], nl_renewer = False\<rparr>"

theorem markdown_enter_succeeds_iff_witness:
  "\<not> (\<exists>L'. fst (nlock_enter md_try_acquire md_release (\<lambda>i. 0) nlock_clash md_empty) = Inr L')"
proof -
  have t: "nlock_targets nlock_clash = [''a/b'', ''a__b'']" by code_simp
  have v: "\<forall>s \<in> set (nlock_targets nlock_clash). md_valid s"
    by (simp add: t md_valid_def safe_name_def tmp_free_def)
  have ttl: "\<forall>i < length (nlock_targets nlock_clash). \<forall>j < length (nlock_targets nlock_clash).
      (0::int) < 0 + nl_ttl nlock_clash"
    by (simp add: nlock_clash_def)
  have "safe_name ''a/b'' = safe_name ''a__b''" by (simp add: safe_name_def)
  then show ?thesis
    using markdown_enter_succeeds_iff [OF md_inv_empty v ttl] by (simp add: t)
qed

text \<open>
  Acquiring a slug deletes the counter of the slug with \<open>.tmp\<close> appended: its holder,
  whatever its token, can from then on neither renew nor release.
\<close>
theorem markdown_acquire_wipes_tmp_counter:
  assumes "\<not> isl (fst (md_try_acquire r now slug holder ttl))" and "token \<noteq> 0"
  shows "read_fence (snd (md_try_acquire r now slug holder ttl)) (slug @ ''.tmp'') = 0 \<and>
    isl (fst (md_renew (snd (md_try_acquire r now slug holder ttl)) now' (slug @ ''.tmp'') holder' token ttl')) \<and>
    \<not> fst (md_release (snd (md_try_acquire r now slug holder ttl)) (slug @ ''.tmp'') holder' token)"
proof -
  have n: "safe_name (slug @ ''.tmp'') = tmp_name (safe_name slug)"
    by (simp add: safe_name_def tmp_name_def)
  let ?r = "snd (md_try_acquire r now slug holder ttl)"
  have "md_fences ?r (tmp_name (safe_name slug)) = None"
    using assms(1) by (auto simp: md_op_defs atomic_write_tmp split: option.splits if_splits)
  then have z: "read_fence ?r (slug @ ''.tmp'') = 0"
    by (simp add: read_fence_def n)
  then show ?thesis
    using assms(2) by (auto simp: md_renew_def md_release_def split: option.splits)
qed

theorem markdown_acquire_wipes_tmp_counter_witness:
  "isl (fst (md_renew (snd (md_try_acquire
      (snd (md_try_acquire md_empty 0 ''a.tmp'' ''peer'' 50)) 1 ''a'' ''me'' 50)) 2 ''a.tmp'' ''peer'' 1 50))"
proof -
  have "\<not> isl (fst (md_try_acquire (snd (md_try_acquire md_empty 0 ''a.tmp'' ''peer'' 50)) 1 ''a'' ''me'' 50))"
    by (simp add: md_op_defs md_empty_def read_lock_file_def safe_name_def)
  from markdown_acquire_wipes_tmp_counter [OF this, of 1 2 "''peer''" 50] show ?thesis by simp
qed

text \<open>
  A lock file that does not hold JSON (a writer that died between creating and writing
  it) blocks its slug for good: at every time, acquiring fails, the file stays, and the
  counter moves on.
\<close>
theorem markdown_torn_lock_file_blocks:
  assumes "md_locks r (lock_name slug) = Some NotJson"
  shows "fst (md_try_acquire r now slug holder ttl) = Inl LostRace \<and>
    md_locks (snd (md_try_acquire r now slug holder ttl)) (lock_name slug) = Some NotJson \<and>
    read_fence (snd (md_try_acquire r now slug holder ttl)) slug = read_fence r slug + 1"
  using assms by (simp add: md_op_defs read_lock_file_def read_fence_def)

theorem markdown_torn_lock_file_blocks_witness:
  "fst (md_try_acquire (md_empty\<lparr>md_locks := [''a.json'' \<mapsto> NotJson]\<rparr>) 9 ''a'' ''me'' 30) = Inl LostRace"
proof -
  have "md_locks (md_empty\<lparr>md_locks := [''a.json'' \<mapsto> NotJson]\<rparr>) (lock_name ''a'') = Some NotJson"
    by (simp add: lock_name_def safe_name_def)
  from markdown_torn_lock_file_blocks [OF this] show ?thesis by blast
qed

end
