(* ===== verification/Worker_Router.thy ===== *)
theory Worker_Router imports Prelude begin

text \<open>
  \<open>ParallelWorkerRouter\<close> of \<open>memu/parallel_worker_router.py\<close> with the messages of
  \<open>memu/worker_payloads.py\<close> it handles. The router's dictionaries are dicts in insertion
  order where the code iterates over them and maps where it only looks keys up. What a handler sends out is the list of its effects: the messages it
  publishes to workers, the completion callbacks it calls, and the delayed retries it
  schedules (the handler sleeps and dispatches afterwards, so other handlers run in
  between). A callback is called within the handler, without yielding to other handlers.
  Parsing of incoming JSON and the broker connection are left out; strings are ASCII.
\<close>

datatype capability =
    CODE_EXECUTION | FILE_SYSTEM_ACCESS | NETWORK_ACCESS | DATABASE_ACCESS | EXTERNAL_API
  | LONG_RUNNING | GPU_COMPUTE | MEMORY_INTENSIVE

section \<open>Messages\<close>

record subtask =
  st_id :: uuid
  st_parent :: uuid
  st_root :: uuid
  st_title :: string
  st_description :: string
  st_criteria :: "string list"
  st_capabilities :: "capability list"
  st_budget :: real
  st_priority :: int
  st_timeout :: int
  st_lanes :: "string list"
  st_max_memory_mb :: int
  st_max_cpu :: real
  st_long_lead :: "string list"
  st_hours :: "real option"
  st_dependencies :: "uuid list"
  st_context :: "string option"
  st_checkpoint :: payload
  st_created_at :: time
  st_created_by :: string

record batch =
  b_id :: uuid
  b_parent :: uuid
  b_root :: uuid
  b_subtasks :: "subtask list"
  b_mode :: string
  b_require_all :: bool
  b_max_parallel :: int
  b_strategy :: string
  b_created_at :: time
  b_created_by :: string

text \<open>The constraints the message classes check. A title is stripped of white space.\<close>

definition validate_title :: "string \<Rightarrow> string option" where
  "validate_title v = (if strip v = [] then None else Some (strip v))"

definition valid_subtask :: "subtask \<Rightarrow> subtask option" where
  "valid_subtask st =
     (if 1 \<le> length (st_title st) \<and> length (st_title st) \<le> 256 \<and> 1 \<le> length (st_description st) \<and>
         0 \<le> st_budget st \<and> 0 \<le> st_priority st \<and> st_priority st \<le> 10 \<and> 1 \<le> st_timeout st \<and>
         128 \<le> st_max_memory_mb st \<and> 0.1 \<le> st_max_cpu st
      then map_option (\<lambda>v. st\<lparr>st_title := v\<rparr>) (validate_title (st_title st))
      else None)"

definition validate_subtasks :: "subtask list \<Rightarrow> bool" where
  "validate_subtasks sts \<longleftrightarrow> sts \<noteq> [] \<and> \<not> card (set (map st_parent sts)) > 1"

definition valid_batch :: "batch \<Rightarrow> bool" where
  "valid_batch bt \<longleftrightarrow> 1 \<le> length (b_subtasks bt) \<and> length (b_subtasks bt) \<le> 50 \<and>
     1 \<le> b_max_parallel bt \<and> b_max_parallel bt \<le> 100 \<and> validate_subtasks (b_subtasks bt)"

record ready_payload =
  rp_worker_id :: string
  rp_gateway_id :: string
  rp_capabilities :: "capability list"
  rp_max_tasks :: int
  rp_memory_mb :: int
  rp_cpu_cores :: real
  rp_task_count :: int
  rp_ready :: bool
  rp_created_at :: time

record result_payload =
  res_worker_id :: string
  res_gateway_id :: string
  res_task_id :: uuid
  res_success :: bool
  res_data :: payload
  res_summary :: string
  res_seconds :: real
  res_tokens :: int
  res_cost :: real
  res_files :: "string list"
  res_memory_ids :: "uuid list"
  res_completed_at :: time

record error_payload =
  err_worker_id :: string
  err_gateway_id :: string
  err_task_id :: uuid
  err_type :: string
  err_message :: string
  err_traceback :: "string option"
  err_retryable :: bool
  err_retry_count :: int
  err_delay :: int
  err_checkpoint :: bool
  err_partial :: payload
  err_failed_at :: time

section \<open>The router's state\<close>

record worker_info =
  w_id :: string
  w_gateway :: string
  w_capabilities :: "capability list"
  w_max_tasks :: int
  w_count :: int
  w_memory_mb :: int
  w_cpu_cores :: real
  w_last_heartbeat :: time
  w_ready :: bool

record task_result =
  tr_success :: bool
  tr_data :: payload
  tr_summary :: string
  tr_seconds :: real
  tr_tokens :: int
  tr_worker :: string

datatype aggregate =
    CollectAll bool "(uuid, task_result) dict" "(uuid, string) dict" nat nat nat
  | FirstSuccess task_result uuid
  | NoSuccess "(uuid, string) dict"
  | MajorityVote bool nat nat "(uuid, task_result) dict" "(uuid, string) dict"
  | UnknownStrategy string

datatype effect =
    Publish string subtask
  | Complete uuid aggregate
  | RetryLater int subtask uuid

record router =
  r_workers :: "(string, worker_info) dict"
  r_worker_tasks :: "string \<rightharpoonup> uuid set"
  r_active :: "(uuid, batch) dict"
  r_results :: "uuid \<rightharpoonup> (uuid, task_result) dict"
  r_errors :: "uuid \<rightharpoonup> (uuid, string) dict"
  r_callbacks :: "uuid set"

definition router_init :: router where
  "router_init = \<lparr>r_workers = [], r_worker_tasks = Map.empty, r_active = [],
     r_results = Map.empty, r_errors = Map.empty, r_callbacks = {}\<rparr>"

definition get_results :: "router \<Rightarrow> uuid \<Rightarrow> (uuid, task_result) dict" where
  "get_results R b = (case r_results R b of None \<Rightarrow> [] | Some d \<Rightarrow> d)"

definition get_errors :: "router \<Rightarrow> uuid \<Rightarrow> (uuid, string) dict" where
  "get_errors R b = (case r_errors R b of None \<Rightarrow> [] | Some d \<Rightarrow> d)"

section \<open>Workers\<close>

definition handle_worker_ready :: "ready_payload \<Rightarrow> router \<Rightarrow> router" where
  "handle_worker_ready p R =
     R\<lparr>r_workers := dict_set (rp_worker_id p)
         \<lparr>w_id = rp_worker_id p, w_gateway = rp_gateway_id p, w_capabilities = rp_capabilities p,
          w_max_tasks = rp_max_tasks p, w_count = rp_task_count p, w_memory_mb = rp_memory_mb p,
          w_cpu_cores = rp_cpu_cores p, w_last_heartbeat = rp_created_at p, w_ready = rp_ready p\<rparr>
         (r_workers R)\<rparr>"

definition update_worker :: "string \<Rightarrow> (worker_info \<Rightarrow> worker_info) \<Rightarrow> router \<Rightarrow> router" where
  "update_worker wid f R =
     (case dict_get (r_workers R) wid of
        None \<Rightarrow> R
      | Some w \<Rightarrow> R\<lparr>r_workers := dict_set wid (f w) (r_workers R)\<rparr>)"

definition handle_worker_heartbeat :: "string \<Rightarrow> time \<Rightarrow> router \<Rightarrow> router" where
  "handle_worker_heartbeat wid ts R = update_worker wid (\<lambda>w. w\<lparr>w_last_heartbeat := ts\<rparr>) R"

definition worker_fits :: "subtask \<Rightarrow> worker_info \<Rightarrow> bool" where
  "worker_fits st w \<longleftrightarrow> w_ready w \<and> \<not> w_count w \<ge> w_max_tasks w \<and>
     list_all (\<lambda>c. c \<in> set (w_capabilities w)) (st_capabilities st) \<and>
     \<not> w_memory_mb w < st_max_memory_mb st"

definition worker_load :: "worker_info \<Rightarrow> real" where
  "worker_load w = real_of_int (w_count w) / real_of_int (w_max_tasks w)"

definition find_best_worker :: "router \<Rightarrow> subtask \<Rightarrow> worker_info option" where
  "find_best_worker R st =
     (case filter (worker_fits st) (dict_values (r_workers R)) of
        [] \<Rightarrow> None
      | c # cs \<Rightarrow> Some (hd (sort_key worker_load (c # cs))))"

text \<open>The monitor's sweep drops workers silent for more than 60 seconds.\<close>

definition is_stale :: "time \<Rightarrow> worker_info \<Rightarrow> bool" where
  "is_stale now w \<longleftrightarrow> now - w_last_heartbeat w > seconds 60"

definition monitor_sweep :: "time \<Rightarrow> router \<Rightarrow> router" where
  "monitor_sweep now R =
     fold (\<lambda>wid R. R\<lparr>r_workers := dict_del wid (r_workers R), r_worker_tasks := (r_worker_tasks R)(wid := None)\<rparr>)
       (map fst (filter (\<lambda>(wid, w). is_stale now w) (r_workers R))) R"

section \<open>Dispatch and completion\<close>

definition dispatch_subtask :: "subtask \<Rightarrow> router \<Rightarrow> effect list \<times> router" where
  "dispatch_subtask st R =
     (case find_best_worker R st of
        None \<Rightarrow> ([], R)
      | Some w \<Rightarrow>
          (let tasks = (case r_worker_tasks R (w_id w) of None \<Rightarrow> {} | Some T \<Rightarrow> T);
               R1 = R\<lparr>r_worker_tasks := (r_worker_tasks R)(w_id w \<mapsto> insert (st_id st) tasks)\<rparr>
           in ([Publish (w_id w) st], update_worker (w_id w) (\<lambda>w. w\<lparr>w_count := w_count w + 1\<rparr>) R1)))"

fun dispatch_all :: "subtask list \<Rightarrow> router \<Rightarrow> effect list \<times> router" where
  "dispatch_all [] R = ([], R)"
| "dispatch_all (st # sts) R =
     (let (e1, R1) = dispatch_subtask st R; (e2, R2) = dispatch_all sts R1 in (e1 @ e2, R2))"

fun find_batch_in :: "(uuid, batch) dict \<Rightarrow> uuid \<Rightarrow> uuid option" where
  "find_batch_in [] t = None"
| "find_batch_in ((b, bt) # d) t =
     (if \<exists>st \<in> set (b_subtasks bt). st_id st = t then Some b else find_batch_in d t)"

definition find_batch_for_task :: "router \<Rightarrow> uuid \<Rightarrow> uuid option" where
  "find_batch_for_task R t = find_batch_in (r_active R) t"

definition aggregate_results :: "batch \<Rightarrow> (uuid, task_result) dict \<Rightarrow> (uuid, string) dict \<Rightarrow> aggregate" where
  "aggregate_results bt results errors =
     (if b_strategy bt = ''collect_all''
      then CollectAll (length errors = 0) results errors (length (b_subtasks bt)) (length results) (length errors)
      else if b_strategy bt = ''first_success''
      then (case find (\<lambda>(t, r). tr_success r) results of
              Some (t, r) \<Rightarrow> FirstSuccess r t
            | None \<Rightarrow> NoSuccess errors)
      else if b_strategy bt = ''majority_vote''
      then MajorityVote (length errors < length results) (length results) (length errors) results errors
      else UnknownStrategy (b_strategy bt))"

definition check_batch_completion :: "uuid \<Rightarrow> router \<Rightarrow> effect list \<times> router" where
  "check_batch_completion b R =
     (case dict_get (r_active R) b of
        None \<Rightarrow> ([], R)
      | Some bt \<Rightarrow>
          (let results = get_results R b; errors = get_errors R b in
           if length results + length errors < length (b_subtasks bt) then ([], R)
           else (if b \<in> r_callbacks R then [Complete b (aggregate_results bt results errors)] else [],
                 R\<lparr>r_active := dict_del b (r_active R), r_results := (r_results R)(b := None),
                   r_errors := (r_errors R)(b := None), r_callbacks := r_callbacks R - {b}\<rparr>)))"

text \<open>A report ends the worker's assignment and lowers its load.\<close>

definition settle_worker :: "string \<Rightarrow> uuid \<Rightarrow> router \<Rightarrow> router" where
  "settle_worker wid t R =
     update_worker wid (\<lambda>w. w\<lparr>w_count := w_count w - 1\<rparr>)
       (case r_worker_tasks R wid of
          None \<Rightarrow> R
        | Some T \<Rightarrow> R\<lparr>r_worker_tasks := (r_worker_tasks R)(wid \<mapsto> T - {t})\<rparr>)"

definition handle_worker_result :: "result_payload \<Rightarrow> router \<Rightarrow> effect list \<times> router" where
  "handle_worker_result p R =
     (case find_batch_for_task R (res_task_id p) of
        None \<Rightarrow> ([], R)
      | Some b \<Rightarrow>
          (let r = \<lparr>tr_success = res_success p, tr_data = res_data p, tr_summary = res_summary p,
                    tr_seconds = res_seconds p, tr_tokens = res_tokens p, tr_worker = res_worker_id p\<rparr>;
               R1 = R\<lparr>r_results := (r_results R)(b \<mapsto> dict_set (res_task_id p) r (get_results R b))\<rparr>
           in check_batch_completion b (settle_worker (res_worker_id p) (res_task_id p) R1)))"

definition handle_worker_error :: "error_payload \<Rightarrow> router \<Rightarrow> effect list \<times> router" where
  "handle_worker_error p R =
     (case find_batch_for_task R (err_task_id p) of
        None \<Rightarrow> ([], R)
      | Some b \<Rightarrow>
          (let R1 = R\<lparr>r_errors := (r_errors R)(b \<mapsto> dict_set (err_task_id p) (err_message p) (get_errors R b))\<rparr>;
               R2 = settle_worker (err_worker_id p) (err_task_id p) R1
           in case dict_get (r_active R2) b of
                Some bt \<Rightarrow>
                  if err_retryable p \<and> err_retry_count p < 3
                  then (case find (\<lambda>st. st_id st = err_task_id p) (b_subtasks bt) of
                          Some st \<Rightarrow> ([RetryLater (err_delay p) st b], R2)
                        | None \<Rightarrow> ([], R2))
                  else check_batch_completion b R2
              | None \<Rightarrow> check_batch_completion b R2))"

section \<open>Spawning a batch\<close>

text \<open>
  \<open>spawn_parallel_batch\<close> registers the batch and dispatches. In the parallel mode it
  dispatches every subtask and returns (the semaphore is held while a dispatch publishes,
  not while the subtask runs). In the other modes it waits between dispatches, polling the
  result table: a \<open>spawner\<close> is such a suspended call.
\<close>

datatype spawner =
    Returned
  | SeqWait uuid uuid "subtask list"
  | AdaptWait uuid nat nat "subtask list"

definition register_batch :: "batch \<Rightarrow> bool \<Rightarrow> router \<Rightarrow> router" where
  "register_batch bt cb R =
     R\<lparr>r_active := dict_set (b_id bt) bt (r_active R),
       r_results := (r_results R)(b_id bt \<mapsto> []),
       r_errors := (r_errors R)(b_id bt \<mapsto> []),
       r_callbacks := (if cb then insert (b_id bt) (r_callbacks R) else r_callbacks R)\<rparr>"

fun start_sequential :: "uuid \<Rightarrow> subtask list \<Rightarrow> router \<Rightarrow> effect list \<times> router \<times> spawner" where
  "start_sequential b [] R = ([], R, Returned)"
| "start_sequential b (st # sts) R =
     (let (e, R1) = dispatch_subtask st R in (e, R1, SeqWait b (st_id st) sts))"

definition start_adaptive :: "batch \<Rightarrow> router \<Rightarrow> effect list \<times> router \<times> spawner" where
  "start_adaptive bt R =
     (let initial = min 3 (length (b_subtasks bt));
          (e, R1) = dispatch_all (take initial (b_subtasks bt)) R
      in (e, R1, if drop initial (b_subtasks bt) = [] then Returned
                 else AdaptWait (b_id bt) initial initial (drop initial (b_subtasks bt))))"

definition spawn_parallel_batch :: "batch \<Rightarrow> bool \<Rightarrow> router \<Rightarrow> effect list \<times> router \<times> spawner" where
  "spawn_parallel_batch bt cb R =
     (let R0 = register_batch bt cb R in
      if b_mode bt = ''parallel'' then (let (e, R1) = dispatch_all (b_subtasks bt) R0 in (e, R1, Returned))
      else if b_mode bt = ''sequential'' then start_sequential (b_id bt) (b_subtasks bt) R0
      else start_adaptive bt R0)"

text \<open>One poll of a suspended spawner.\<close>

fun poll_spawner :: "spawner \<Rightarrow> router \<Rightarrow> effect list \<times> router \<times> spawner" where
  "poll_spawner Returned R = ([], R, Returned)"
| "poll_spawner (SeqWait b t rest) R =
     (if t \<in> set (dict_keys (get_results R b)) then start_sequential b rest R
      else ([], R, SeqWait b t rest))"
| "poll_spawner (AdaptWait b i initial []) R = ([], R, Returned)"
| "poll_spawner (AdaptWait b i initial (st # sts)) R =
     (if length (get_results R b) < i - initial + 1 then ([], R, AdaptWait b i initial (st # sts))
      else (let (e, R1) = dispatch_subtask st R
            in (e, R1, if sts = [] then Returned else AdaptWait b (i + 1) initial sts)))"

section \<open>Statistics\<close>

record worker_stats =
  ws_total :: nat
  ws_ready :: nat
  ws_capacity :: int
  ws_load :: int
  ws_utilization :: real
  ws_active_batches :: nat

definition get_worker_stats :: "router \<Rightarrow> worker_stats" where
  "get_worker_stats R =
     (let ws = dict_values (r_workers R);
          cap = sum_list (map w_max_tasks ws);
          load = sum_list (map w_count ws)
      in \<lparr>ws_total = length ws, ws_ready = length (filter w_ready ws), ws_capacity = cap, ws_load = load,
          ws_utilization = (if cap > 0 then real_of_int load / real_of_int cap else 0),
          ws_active_batches = length (r_active R)\<rparr>)"

section \<open>Messages in sequence\<close>

datatype message =
    MReady ready_payload
  | MHeartbeat string time
  | MResult result_payload
  | MError error_payload
  | MRetry subtask
  | MSweep time

fun handle_message :: "message \<Rightarrow> router \<Rightarrow> effect list \<times> router" where
  "handle_message (MReady p) R = ([], handle_worker_ready p R)"
| "handle_message (MHeartbeat wid ts) R = ([], handle_worker_heartbeat wid ts R)"
| "handle_message (MResult p) R = handle_worker_result p R"
| "handle_message (MError p) R = handle_worker_error p R"
| "handle_message (MRetry st) R = dispatch_subtask st R"
| "handle_message (MSweep now) R = ([], monitor_sweep now R)"

fun handle_messages :: "message list \<Rightarrow> router \<Rightarrow> effect list \<times> router" where
  "handle_messages [] R = ([], R)"
| "handle_messages (msg # msgs) R =
     (let (e1, R1) = handle_message msg R; (e2, R2) = handle_messages msgs R1 in (e1 @ e2, R2))"

section \<open>Well-formedness\<close>

definition batch_ids :: "batch \<Rightarrow> uuid set" where
  "batch_ids bt = st_id ` set (b_subtasks bt)"

definition reports_wf :: "router \<Rightarrow> uuid \<Rightarrow> batch \<Rightarrow> bool" where
  "reports_wf R b bt \<longleftrightarrow>
     (\<exists>rs es. r_results R b = Some rs \<and> r_errors R b = Some es \<and> wf_dict rs \<and> wf_dict es \<and>
        dom (dict_get rs) \<subseteq> batch_ids bt \<and> dom (dict_get es) \<subseteq> batch_ids bt)"

definition workers_wf :: "router \<Rightarrow> bool" where
  "workers_wf R \<longleftrightarrow> wf_dict (r_workers R) \<and> (\<forall>wid w. dict_get (r_workers R) wid = Some w \<longrightarrow> w_id w = wid)"

definition batches_wf :: "router \<Rightarrow> bool" where
  "batches_wf R \<longleftrightarrow> wf_dict (r_active R) \<and> r_callbacks R \<subseteq> dom (dict_get (r_active R)) \<and>
     (\<forall>b. case dict_get (r_active R) b of
            None \<Rightarrow> r_results R b = None \<and> r_errors R b = None
          | Some bt \<Rightarrow> reports_wf R b bt)"

definition router_wf :: "router \<Rightarrow> bool" where
  "router_wf R \<longleftrightarrow> workers_wf R \<and> batches_wf R"

text \<open>The worker operations leave the batch tables alone, and the other way round.\<close>

lemma update_worker_frame [simp]:
  "r_active (update_worker wid f R) = r_active R" "r_results (update_worker wid f R) = r_results R"
  "r_errors (update_worker wid f R) = r_errors R" "r_callbacks (update_worker wid f R) = r_callbacks R"
  "r_worker_tasks (update_worker wid f R) = r_worker_tasks R"
  by (simp_all add: update_worker_def split: option.splits)

lemma settle_worker_frame [simp]:
  "r_active (settle_worker wid t R) = r_active R" "r_results (settle_worker wid t R) = r_results R"
  "r_errors (settle_worker wid t R) = r_errors R" "r_callbacks (settle_worker wid t R) = r_callbacks R"
  by (simp_all add: settle_worker_def split: option.splits)

lemma dispatch_subtask_frame [simp]:
  "r_active (snd (dispatch_subtask st R)) = r_active R" "r_results (snd (dispatch_subtask st R)) = r_results R"
  "r_errors (snd (dispatch_subtask st R)) = r_errors R" "r_callbacks (snd (dispatch_subtask st R)) = r_callbacks R"
  by (simp_all add: dispatch_subtask_def Let_def split: option.splits)

lemma dispatch_all_frame [simp]:
  "r_active (snd (dispatch_all sts R)) = r_active R" "r_results (snd (dispatch_all sts R)) = r_results R"
  "r_errors (snd (dispatch_all sts R)) = r_errors R" "r_callbacks (snd (dispatch_all sts R)) = r_callbacks R"
proof -
  have "r_active (snd (dispatch_all sts R)) = r_active R \<and> r_results (snd (dispatch_all sts R)) = r_results R \<and>
      r_errors (snd (dispatch_all sts R)) = r_errors R \<and> r_callbacks (snd (dispatch_all sts R)) = r_callbacks R"
  proof (induction sts arbitrary: R)
    case (Cons st sts)
    then show ?case
      using Cons.IH [of "snd (dispatch_subtask st R)"] by (simp add: split_def Let_def)
  qed simp
  then show "r_active (snd (dispatch_all sts R)) = r_active R" "r_results (snd (dispatch_all sts R)) = r_results R"
    "r_errors (snd (dispatch_all sts R)) = r_errors R" "r_callbacks (snd (dispatch_all sts R)) = r_callbacks R"
    by simp_all
qed

lemma monitor_fold_frame:
  "r_active (fold (\<lambda>wid R. R\<lparr>r_workers := dict_del wid (r_workers R), r_worker_tasks := (r_worker_tasks R)(wid := None)\<rparr>) ws R) = r_active R \<and>
   r_results (fold (\<lambda>wid R. R\<lparr>r_workers := dict_del wid (r_workers R), r_worker_tasks := (r_worker_tasks R)(wid := None)\<rparr>) ws R) = r_results R \<and>
   r_errors (fold (\<lambda>wid R. R\<lparr>r_workers := dict_del wid (r_workers R), r_worker_tasks := (r_worker_tasks R)(wid := None)\<rparr>) ws R) = r_errors R \<and>
   r_callbacks (fold (\<lambda>wid R. R\<lparr>r_workers := dict_del wid (r_workers R), r_worker_tasks := (r_worker_tasks R)(wid := None)\<rparr>) ws R) = r_callbacks R"
  by (induction ws arbitrary: R) simp_all

lemma monitor_sweep_frame [simp]:
  "r_active (monitor_sweep now R) = r_active R" "r_results (monitor_sweep now R) = r_results R"
  "r_errors (monitor_sweep now R) = r_errors R" "r_callbacks (monitor_sweep now R) = r_callbacks R"
  by (simp_all only: monitor_sweep_def monitor_fold_frame)

lemma ready_frame [simp]:
  "r_active (handle_worker_ready p R) = r_active R" "r_results (handle_worker_ready p R) = r_results R"
  "r_errors (handle_worker_ready p R) = r_errors R" "r_callbacks (handle_worker_ready p R) = r_callbacks R"
  by (simp_all add: handle_worker_ready_def)

lemma heartbeat_frame [simp]:
  "r_active (handle_worker_heartbeat wid ts R) = r_active R" "r_results (handle_worker_heartbeat wid ts R) = r_results R"
  "r_errors (handle_worker_heartbeat wid ts R) = r_errors R" "r_callbacks (handle_worker_heartbeat wid ts R) = r_callbacks R"
  by (simp_all add: handle_worker_heartbeat_def)

lemma check_batch_frame [simp]:
  "r_workers (snd (check_batch_completion b R)) = r_workers R"
  "r_worker_tasks (snd (check_batch_completion b R)) = r_worker_tasks R"
  by (simp_all add: check_batch_completion_def Let_def split: option.splits)

text \<open>Only the four batch fields matter to \<open>batches_wf\<close>, only the worker table to \<open>workers_wf\<close>.\<close>

lemma batches_wf_cong:
  "r_active R' = r_active R \<Longrightarrow> r_results R' = r_results R \<Longrightarrow> r_errors R' = r_errors R \<Longrightarrow>
   r_callbacks R' = r_callbacks R \<Longrightarrow> batches_wf R' = batches_wf R"
  by (simp add: batches_wf_def reports_wf_def cong: option.case_cong)

lemma workers_wf_cong: "r_workers R' = r_workers R \<Longrightarrow> workers_wf R' = workers_wf R"
  by (simp add: workers_wf_def)

lemma workers_wf_update: "workers_wf R \<Longrightarrow> (\<And>w. w_id (f w) = w_id w) \<Longrightarrow> workers_wf (update_worker wid f R)"
  by (auto simp: workers_wf_def update_worker_def split: option.splits)

lemma workers_wf_ready: "workers_wf R \<Longrightarrow> workers_wf (handle_worker_ready p R)"
  by (auto simp: workers_wf_def handle_worker_ready_def)

lemma workers_wf_settle: "workers_wf R \<Longrightarrow> workers_wf (settle_worker wid t R)"
  unfolding settle_worker_def
  by (rule workers_wf_update) (auto simp: workers_wf_def split: option.splits)

lemma workers_wf_dispatch: "workers_wf R \<Longrightarrow> workers_wf (snd (dispatch_subtask st R))"
proof (cases "find_best_worker R st")
  case (Some w)
  assume "workers_wf R"
  then have "workers_wf (R\<lparr>r_worker_tasks := T\<rparr>)" for T by (simp add: workers_wf_def)
  then have "workers_wf (update_worker (w_id w) (\<lambda>w. w\<lparr>w_count := w_count w + 1\<rparr>) (R\<lparr>r_worker_tasks := T\<rparr>))" for T
    by (rule workers_wf_update) simp
  with Some show ?thesis by (simp add: dispatch_subtask_def Let_def)
qed (simp add: dispatch_subtask_def)

lemma workers_wf_dispatch_all: "workers_wf R \<Longrightarrow> workers_wf (snd (dispatch_all sts R))"
proof (induction sts arbitrary: R)
  case (Cons st sts)
  then show ?case by (simp add: split_def Let_def workers_wf_dispatch)
qed simp

lemma workers_wf_del:
  "workers_wf R \<Longrightarrow> workers_wf (R\<lparr>r_workers := dict_del wid (r_workers R), r_worker_tasks := T\<rparr>)"
  unfolding workers_wf_def by (auto simp del: map_of_eq_Some_iff split: if_splits)

lemma workers_wf_fold:
  "workers_wf R \<Longrightarrow> workers_wf (fold (\<lambda>wid R. R\<lparr>r_workers := dict_del wid (r_workers R),
     r_worker_tasks := (r_worker_tasks R)(wid := None)\<rparr>) ws R)"
  by (induction ws arbitrary: R) (simp_all add: workers_wf_del)

lemma workers_wf_sweep: "workers_wf R \<Longrightarrow> workers_wf (monitor_sweep now R)"
  unfolding monitor_sweep_def by (rule workers_wf_fold)

lemma find_batch_in_Some:
  "find_batch_in d t = Some b \<Longrightarrow> wf_dict d \<Longrightarrow> \<exists>bt. dict_get d b = Some bt \<and> t \<in> batch_ids bt"
  by (induction d t rule: find_batch_in.induct)
    (auto simp: batch_ids_def wf_dict_Cons split: if_splits)

lemma find_batch_Some:
  "batches_wf R \<Longrightarrow> find_batch_for_task R t = Some b \<Longrightarrow>
   \<exists>bt. dict_get (r_active R) b = Some bt \<and> t \<in> batch_ids bt"
  unfolding find_batch_for_task_def batches_wf_def using find_batch_in_Some by blast

text \<open>What well-formedness says of one batch.\<close>

lemma batches_wfD:
  "batches_wf R \<Longrightarrow> dict_get (r_active R) b = Some bt \<Longrightarrow> reports_wf R b bt"
  "batches_wf R \<Longrightarrow> dict_get (r_active R) b = None \<Longrightarrow>
     r_results R b = None \<and> r_errors R b = None \<and> b \<notin> r_callbacks R"
  by (auto simp: batches_wf_def dest: spec [of _ b])

lemma batches_wf_change:
  assumes "batches_wf R" and "wf_dict (r_active R')"
    and "\<And>b'. b' \<noteq> b \<Longrightarrow> dict_get (r_active R') b' = dict_get (r_active R) b' \<and>
       r_results R' b' = r_results R b' \<and> r_errors R' b' = r_errors R b' \<and>
       (b' \<in> r_callbacks R' \<longrightarrow> b' \<in> r_callbacks R)"
    and "case dict_get (r_active R') b of
        None \<Rightarrow> r_results R' b = None \<and> r_errors R' b = None \<and> b \<notin> r_callbacks R'
      | Some bt \<Rightarrow> reports_wf R' b bt"
  shows "batches_wf R'"
  unfolding batches_wf_def
proof (intro conjI allI)
  show "r_callbacks R' \<subseteq> dom (dict_get (r_active R'))"
  proof
    fix b' assume "b' \<in> r_callbacks R'"
    show "b' \<in> dom (dict_get (r_active R'))"
    proof (cases "b' = b")
      case True
      with assms(4) \<open>b' \<in> r_callbacks R'\<close> show ?thesis by (auto split: option.splits)
    next
      case False
      from assms(3) [OF this] \<open>b' \<in> r_callbacks R'\<close> batches_wfD(2) [OF assms(1), of b']
      show ?thesis by (auto simp: dom_def)
    qed
  qed
  fix b'
  show "case dict_get (r_active R') b' of
      None \<Rightarrow> r_results R' b' = None \<and> r_errors R' b' = None | Some bt \<Rightarrow> reports_wf R' b' bt"
  proof (cases "b' = b")
    case True
    with assms(4) show ?thesis by (auto split: option.splits)
  next
    case False
    from batches_wfD [OF assms(1), of b'] assms(3) [OF False] show ?thesis
      by (auto simp: reports_wf_def split: option.splits)
  qed
qed (rule assms(2))

lemma batches_wf_active: "batches_wf R \<Longrightarrow> wf_dict (r_active R)"
  by (simp add: batches_wf_def)

lemma batches_wf_check: "batches_wf R \<Longrightarrow> batches_wf (snd (check_batch_completion b R))"
  by (rule batches_wf_change [where b = b and R = R])
    (auto simp: check_batch_completion_def Let_def batches_wfD batches_wf_active split: option.splits)

lemma batches_wf_add_result:
  assumes wf: "batches_wf R" and b: "dict_get (r_active R) b = Some bt" and t: "t \<in> batch_ids bt"
  shows "batches_wf (R\<lparr>r_results := (r_results R)(b \<mapsto> dict_set t v (get_results R b))\<rparr>)"
proof -
  obtain rs es where "r_results R b = Some rs" "r_errors R b = Some es" "wf_dict rs" "wf_dict es"
    "dom (dict_get rs) \<subseteq> batch_ids bt" "dom (dict_get es) \<subseteq> batch_ids bt"
    using batches_wfD(1) [OF wf b] by (auto simp: reports_wf_def)
  with b t show ?thesis
    by (intro batches_wf_change [OF wf, where b = b])
      (auto simp: reports_wf_def get_results_def batches_wf_active [OF wf])
qed

lemma batches_wf_add_error:
  assumes wf: "batches_wf R" and b: "dict_get (r_active R) b = Some bt" and t: "t \<in> batch_ids bt"
  shows "batches_wf (R\<lparr>r_errors := (r_errors R)(b \<mapsto> dict_set t v (get_errors R b))\<rparr>)"
proof -
  obtain rs es where "r_results R b = Some rs" "r_errors R b = Some es" "wf_dict rs" "wf_dict es"
    "dom (dict_get rs) \<subseteq> batch_ids bt" "dom (dict_get es) \<subseteq> batch_ids bt"
    using batches_wfD(1) [OF wf b] by (auto simp: reports_wf_def)
  with b t show ?thesis
    by (intro batches_wf_change [OF wf, where b = b])
      (auto simp: reports_wf_def get_errors_def batches_wf_active [OF wf])
qed

lemma router_wf_init: "router_wf router_init"
  by (simp add: router_wf_def router_init_def workers_wf_def batches_wf_def)

lemma router_wf_settle: "router_wf R \<Longrightarrow> router_wf (settle_worker wid t R)"
  using batches_wf_cong [of "settle_worker wid t R" R] by (simp add: router_wf_def workers_wf_settle)

lemma router_wf_check: "router_wf R \<Longrightarrow> router_wf (snd (check_batch_completion b R))"
  using workers_wf_cong [of "snd (check_batch_completion b R)" R] by (simp add: router_wf_def batches_wf_check)

lemma router_wf_dispatch: "router_wf R \<Longrightarrow> router_wf (snd (dispatch_subtask st R))"
  using batches_wf_cong [of "snd (dispatch_subtask st R)" R] by (simp add: router_wf_def workers_wf_dispatch)

lemma router_wf_dispatch_all: "router_wf R \<Longrightarrow> router_wf (snd (dispatch_all sts R))"
  using batches_wf_cong [of "snd (dispatch_all sts R)" R] by (simp add: router_wf_def workers_wf_dispatch_all)

lemma router_wf_result: 
  assumes wf: "router_wf R"
  shows "router_wf (snd (handle_worker_result p R))"
proof (cases "find_batch_for_task R (res_task_id p)")
  case (Some b)
  then obtain bt where "dict_get (r_active R) b = Some bt" "res_task_id p \<in> batch_ids bt"
    using find_batch_Some [of R "res_task_id p" b] wf[unfolded router_wf_def] by auto
  then have "router_wf (R\<lparr>r_results := (r_results R)(b \<mapsto> dict_set (res_task_id p) v (get_results R b))\<rparr>)" for v
    using wf batches_wf_add_result by (simp add: router_wf_def workers_wf_def)
  with Some show ?thesis
    by (simp add: handle_worker_result_def Let_def router_wf_check router_wf_settle)
qed (simp add: handle_worker_result_def wf)

lemma router_wf_error:
  assumes wf: "router_wf R"
  shows "router_wf (snd (handle_worker_error p R))"
proof (cases "find_batch_for_task R (err_task_id p)")
  case (Some b)
  then obtain bt where "dict_get (r_active R) b = Some bt" "err_task_id p \<in> batch_ids bt"
    using find_batch_Some [of R "err_task_id p" b] wf[unfolded router_wf_def] by auto
  then have "router_wf (R\<lparr>r_errors := (r_errors R)(b \<mapsto> dict_set (err_task_id p) v (get_errors R b))\<rparr>)" for v
    using wf batches_wf_add_error by (simp add: router_wf_def workers_wf_def)
  with Some show ?thesis
    by (simp add: handle_worker_error_def Let_def router_wf_check router_wf_settle split: option.split)
qed (simp add: handle_worker_error_def wf)

lemma router_wf_message: "router_wf R \<Longrightarrow> router_wf (snd (handle_message msg R))"
proof (cases msg)
  case (MHeartbeat wid ts)
  assume "router_wf R"
  then have "workers_wf (handle_worker_heartbeat wid ts R)"
    unfolding handle_worker_heartbeat_def by (auto simp: router_wf_def intro: workers_wf_update)
  with \<open>router_wf R\<close> MHeartbeat show ?thesis
    using batches_wf_cong [of "handle_worker_heartbeat wid ts R" R] by (simp add: router_wf_def)
next
  case (MReady p)
  then show "router_wf R \<Longrightarrow> ?thesis"
    using batches_wf_cong [of "handle_worker_ready p R" R] by (simp add: router_wf_def workers_wf_ready)
next
  case (MSweep now)
  then show "router_wf R \<Longrightarrow> ?thesis"
    using batches_wf_cong [of "monitor_sweep now R" R] by (simp add: router_wf_def workers_wf_sweep)
qed (simp_all add: router_wf_result router_wf_error router_wf_dispatch)

lemma router_wf_register: "router_wf R \<Longrightarrow> router_wf (register_batch bt cb R)"
  unfolding router_wf_def
proof (elim conjE, intro conjI)
  assume "batches_wf R"
  then show "batches_wf (register_batch bt cb R)"
    by (rule batches_wf_change [where b = "b_id bt"])
      (auto simp: register_batch_def reports_wf_def batches_wf_active \<open>batches_wf R\<close>)
qed (simp add: register_batch_def workers_wf_def)

lemma router_wf_sequential: "router_wf R \<Longrightarrow> router_wf (fst (snd (start_sequential b sts R)))"
  by (cases sts) (auto simp: split_def Let_def router_wf_dispatch)

lemma router_wf_spawn: "router_wf R \<Longrightarrow> router_wf (fst (snd (spawn_parallel_batch bt cb R)))"
  by (auto simp: spawn_parallel_batch_def Let_def split_def start_adaptive_def
      intro: router_wf_register router_wf_dispatch_all router_wf_sequential)

lemma router_wf_poll: "router_wf R \<Longrightarrow> router_wf (fst (snd (poll_spawner sp R)))"
  by (cases "(sp, R)" rule: poll_spawner.cases)
    (auto simp: Let_def split_def router_wf_dispatch router_wf_sequential)

lemma router_wf_messages: "router_wf R \<Longrightarrow> router_wf (snd (handle_messages msgs R))"
  by (induction msgs arbitrary: R) (auto simp: Let_def split_def router_wf_message)

section \<open>Choosing a worker\<close>

lemma hd_sort_key_min:
  assumes "xs \<noteq> []"
  shows "hd (sort_key f xs) \<in> set xs" and "x \<in> set xs \<Longrightarrow> f (hd (sort_key f xs)) \<le> f x"
proof -
  obtain y ys where s: "sort_key f xs = y # ys"
    using assms by (metis length_0_conv length_sort list.exhaust)
  have "set (y # ys) = set xs" unfolding s [symmetric] by simp
  moreover have "sorted (map f (y # ys))" unfolding s [symmetric] by simp
  ultimately show "hd (sort_key f xs) \<in> set xs" "x \<in> set xs \<Longrightarrow> f (hd (sort_key f xs)) \<le> f x"
    by (auto simp: s)
qed

lemma find_best_worker_Some:
  assumes "find_best_worker R st = Some w"
  shows "w \<in> set (dict_values (r_workers R))" "worker_fits st w"
    "w' \<in> set (dict_values (r_workers R)) \<Longrightarrow> worker_fits st w' \<Longrightarrow> worker_load w \<le> worker_load w'"
proof -
  let ?c = "filter (worker_fits st) (dict_values (r_workers R))"
  from assms have c: "?c \<noteq> []" and w: "w = hd (sort_key worker_load ?c)"
    by (auto simp: find_best_worker_def split: list.splits)
  from hd_sort_key_min(1) [OF c, of worker_load]
  show "w \<in> set (dict_values (r_workers R))" "worker_fits st w"
    by (auto simp: w)
  assume "w' \<in> set (dict_values (r_workers R))" "worker_fits st w'"
  then have "w' \<in> set ?c" by simp
  from hd_sort_key_min(2) [OF c this] show "worker_load w \<le> worker_load w'" by (simp add: w)
qed

lemma find_best_worker_None:
  "find_best_worker R st = None \<longleftrightarrow> (\<forall>w \<in> set (dict_values (r_workers R)). \<not> worker_fits st w)"
proof -
  have "find_best_worker R st = None \<longleftrightarrow> filter (worker_fits st) (dict_values (r_workers R)) = []"
    by (simp add: find_best_worker_def split: list.split)
  then show ?thesis by (simp add: filter_empty_conv)
qed

definition within_limit :: "router \<Rightarrow> bool" where
  "within_limit R \<longleftrightarrow> (\<forall>wid w. dict_get (r_workers R) wid = Some w \<longrightarrow> w_count w \<le> w_max_tasks w)"

lemma workers_wfD:
  "workers_wf R \<Longrightarrow> wf_dict (r_workers R)"
  "workers_wf R \<Longrightarrow> dict_get (r_workers R) wid = Some w \<Longrightarrow> w_id w = wid"
  unfolding workers_wf_def by (blast, elim conjE allE impE, assumption+)

lemma find_best_worker_stored:
  assumes wf: "workers_wf R" and w: "find_best_worker R st = Some w"
  shows "dict_get (r_workers R) (w_id w) = Some w"
proof -
  from find_best_worker_Some(1) [OF w] dict_values_iff [OF workers_wfD(1) [OF wf]]
  obtain k where k: "dict_get (r_workers R) k = Some w" by blast
  from workers_wfD(2) [OF wf k] k show ?thesis by (simp only:)
qed

lemma dispatch_subtask_Some:
  assumes "workers_wf R" "find_best_worker R st = Some w"
  shows "fst (dispatch_subtask st R) = [Publish (w_id w) st]"
    and "r_workers (snd (dispatch_subtask st R)) =
      dict_set (w_id w) (w\<lparr>w_count := w_count w + 1\<rparr>) (r_workers R)"
  using assms find_best_worker_stored [OF assms]
  by (simp_all add: dispatch_subtask_def Let_def update_worker_def)

lemma within_limit_dispatch:
  assumes wf: "workers_wf R" and lim: "within_limit R"
  shows "within_limit (snd (dispatch_subtask st R))"
proof (cases "find_best_worker R st")
  case (Some w)
  have "w_count w < w_max_tasks w"
    using find_best_worker_Some(2) [OF Some] by (simp add: worker_fits_def)
  then show ?thesis
    using lim by (simp add: within_limit_def dispatch_subtask_Some(2) [OF wf Some])
qed (simp add: dispatch_subtask_def lim)

lemma within_limit_dispatch_all:
  "workers_wf R \<Longrightarrow> within_limit R \<Longrightarrow> within_limit (snd (dispatch_all sts R))"
proof (induction sts arbitrary: R)
  case (Cons st sts)
  then show ?case by (simp add: split_def Let_def workers_wf_dispatch within_limit_dispatch)
qed simp

section \<open>Completion\<close>

text \<open>When no subtask is in both tables, the code's count is the number of reported subtasks.\<close>

lemma complete_iff_all_reported:
  assumes wf: "router_wf R" and b: "dict_get (r_active R) b = Some bt"
    and ids: "distinct (map st_id (b_subtasks bt))"
    and disj: "dom (dict_get (get_results R b)) \<inter> dom (dict_get (get_errors R b)) = {}"
  shows "dict_get (r_active (snd (check_batch_completion b R))) b = None \<longleftrightarrow>
    (\<forall>st \<in> set (b_subtasks bt). st_id st \<in> dom (dict_get (get_results R b)) \<union> dom (dict_get (get_errors R b)))"
proof -
  let ?rs = "dom (dict_get (get_results R b))" and ?es = "dom (dict_get (get_errors R b))"
  have rep: "wf_dict (get_results R b)" "wf_dict (get_errors R b)" "?rs \<subseteq> batch_ids bt" "?es \<subseteq> batch_ids bt"
    using batches_wfD(1) [OF _ b] wf by (auto simp: router_wf_def reports_wf_def get_results_def get_errors_def)
  have n: "length (b_subtasks bt) = card (batch_ids bt)"
    using ids distinct_card [of "map st_id (b_subtasks bt)"] by (simp add: batch_ids_def)
  have "length (get_results R b) + length (get_errors R b) = card (?rs \<union> ?es)"
    using rep disj by (simp add: length_dict card_Un_disjoint finite_dom_map_of)
  moreover have "card (?rs \<union> ?es) < card (batch_ids bt) \<longleftrightarrow> ?rs \<union> ?es \<noteq> batch_ids bt"
    using rep by (metis Un_least batch_ids_def finite_imageI finite_set less_irrefl psubsetI psubset_card_mono)
  ultimately have "dict_get (r_active (snd (check_batch_completion b R))) b = None \<longleftrightarrow> ?rs \<union> ?es = batch_ids bt"
    using b n by (simp add: check_batch_completion_def Let_def)
  also have "\<dots> \<longleftrightarrow> batch_ids bt \<subseteq> ?rs \<union> ?es" using rep by auto
  finally show ?thesis by (auto simp: batch_ids_def)
qed


section \<open>Completion callbacks\<close>

definition completions :: "uuid \<Rightarrow> effect list \<Rightarrow> nat" where
  "completions b es = length (filter (\<lambda>e. case e of Complete b' a \<Rightarrow> b' = b | _ \<Rightarrow> False) es)"

lemma completions_simps [simp]:
  "completions b [] = 0"
  "completions b (Complete b' a # es) = (if b' = b then Suc (completions b es) else completions b es)"
  "completions b (Publish w st # es) = completions b es"
  "completions b (RetryLater d st t # es) = completions b es"
  "completions b (es @ fs) = completions b es + completions b fs"
  by (simp_all add: completions_def)

definition pending_callback :: "uuid \<Rightarrow> router \<Rightarrow> nat" where
  "pending_callback b R = (if b \<in> r_callbacks R then 1 else 0)"

lemma completions_check:
  "completions b (fst (check_batch_completion b' R)) + pending_callback b (snd (check_batch_completion b' R)) \<le>
   pending_callback b R"
  by (auto simp: check_batch_completion_def Let_def pending_callback_def split: option.splits)

lemma completions_dispatch [simp]: "completions b (fst (dispatch_subtask st R)) = 0"
  by (simp add: dispatch_subtask_def Let_def split: option.splits)

lemma pending_callback_cong: "r_callbacks R' = r_callbacks R \<Longrightarrow> pending_callback b R' = pending_callback b R"
  by (simp add: pending_callback_def)

lemma completions_result:
  "completions b (fst (handle_worker_result p R)) + pending_callback b (snd (handle_worker_result p R)) \<le>
   pending_callback b R"
proof (cases "find_batch_for_task R (res_task_id p)")
  case (Some b')
  then obtain R1 where h: "handle_worker_result p R = check_batch_completion b' R1" and "r_callbacks R1 = r_callbacks R"
    by (simp add: handle_worker_result_def Let_def)
  then show ?thesis using completions_check [of b b' R1] pending_callback_cong [of R1 R b] by simp
qed (simp add: handle_worker_result_def)

lemma completions_error:
  "completions b (fst (handle_worker_error p R)) + pending_callback b (snd (handle_worker_error p R)) \<le>
   pending_callback b R"
proof (cases "find_batch_for_task R (err_task_id p)")
  case (Some b')
  let ?R2 = "settle_worker (err_worker_id p) (err_task_id p)
     (R\<lparr>r_errors := (r_errors R)(b' \<mapsto> dict_set (err_task_id p) (err_message p) (get_errors R b'))\<rparr>)"
  have pend: "pending_callback b ?R2 = pending_callback b R" by (rule pending_callback_cong) simp
  have "handle_worker_error p R = check_batch_completion b' ?R2 \<or>
      completions b (fst (handle_worker_error p R)) = 0 \<and> snd (handle_worker_error p R) = ?R2"
    using Some by (simp add: handle_worker_error_def Let_def split: option.split)
  then show ?thesis using completions_check [of b b' ?R2] pend by auto
qed (simp add: handle_worker_error_def)

lemma completions_message:
  "completions b (fst (handle_message msg R)) + pending_callback b (snd (handle_message msg R)) \<le> pending_callback b R"
proof (cases msg)
  case (MResult p) then show ?thesis using completions_result by simp
next
  case (MError p) then show ?thesis using completions_error by simp
qed (simp_all add: pending_callback_def)

lemma completions_messages:
  "completions b (fst (handle_messages msgs R)) + pending_callback b (snd (handle_messages msgs R)) \<le> pending_callback b R"
proof (induction msgs arbitrary: R)
  case (Cons msg msgs)
  show ?case
    using completions_message [of b msg R] Cons [of "snd (handle_message msg R)"]
    by (simp add: Let_def split_def)
qed simp

section \<open>A batch that is gone stays gone\<close>

lemma gone_check:
  "dict_get (r_active R) b = None \<Longrightarrow> dict_get (r_active (snd (check_batch_completion b' R))) b = None"
  by (simp add: check_batch_completion_def Let_def split: option.splits)

lemma gone_message:
  "dict_get (r_active R) b = None \<Longrightarrow> dict_get (r_active (snd (handle_message msg R))) b = None"
  by (cases msg) (simp_all add: handle_worker_result_def handle_worker_error_def Let_def gone_check split: option.split)

lemma gone_messages:
  "dict_get (r_active R) b = None \<Longrightarrow> dict_get (r_active (snd (handle_messages msgs R))) b = None"
  by (induction msgs arbitrary: R) (simp_all add: Let_def split_def gone_message)

lemma gone_poll:
  assumes "router_wf R" "dict_get (r_active R) b = None"
  shows "poll_spawner (SeqWait b t rest) R = ([], R, SeqWait b t rest)"
  using assms batches_wfD(2) [of R b] by (simp add: router_wf_def get_results_def)


section \<open>Properties of the router\<close>

text \<open>
  The router's tables stay consistent: every dispatch, spawn, poll, report, heartbeat,
  registration and sweep keeps each worker under its own id, keeps exactly the active
  batches in the result and error tables, and records reports only for subtasks of the batch.
\<close>
theorem router_tables_consistent:
  assumes "router_wf R"
  shows "router_wf (snd (handle_messages msgs R)) \<and>
    router_wf (fst (snd (spawn_parallel_batch bt cb R))) \<and> router_wf (fst (snd (poll_spawner sp R)))"
  using assms by (simp add: router_wf_messages router_wf_spawn router_wf_poll)

definition demo_ready :: ready_payload where
  "demo_ready = \<lparr>rp_worker_id = ''w1'', rp_gateway_id = ''g'', rp_capabilities = [CODE_EXECUTION],
     rp_max_tasks = 2, rp_memory_mb = 512, rp_cpu_cores = 1, rp_task_count = 0, rp_ready = True, rp_created_at = 0\<rparr>"

definition demo_subtask :: "uuid \<Rightarrow> subtask" where
  "demo_subtask t = \<lparr>st_id = t, st_parent = ''p'', st_root = ''p'', st_title = ''t'', st_description = ''d'', st_criteria = [],
     st_capabilities = [CODE_EXECUTION], st_budget = 1, st_priority = 5, st_timeout = 3600, st_lanes = [],
     st_max_memory_mb = 256, st_max_cpu = 1, st_long_lead = [], st_hours = None, st_dependencies = [],
     st_context = None, st_checkpoint = [], st_created_at = 0, st_created_by = ''g''\<rparr>"

definition demo_batch :: "string \<Rightarrow> subtask list \<Rightarrow> batch" where
  "demo_batch mode sts = \<lparr>b_id = ''b7'', b_parent = ''p'', b_root = ''p'', b_subtasks = sts, b_mode = mode, b_require_all = False,
     b_max_parallel = 1, b_strategy = ''collect_all'', b_created_at = 0, b_created_by = ''g''\<rparr>"

definition demo_result :: "uuid \<Rightarrow> result_payload" where
  "demo_result t = \<lparr>res_worker_id = ''w1'', res_gateway_id = ''g'', res_task_id = t, res_success = True, res_data = [],
     res_summary = ''done'', res_seconds = 1, res_tokens = 10, res_cost = 0, res_files = [],
     res_memory_ids = [], res_completed_at = 1\<rparr>"

definition demo_error :: "uuid \<Rightarrow> error_payload" where
  "demo_error t = \<lparr>err_worker_id = ''w1'', err_gateway_id = ''g'', err_task_id = t, err_type = ''E'', err_message = ''boom'',
     err_traceback = None, err_retryable = True, err_retry_count = 0, err_delay = 5, err_checkpoint = False,
     err_partial = [], err_failed_at = 0\<rparr>"

lemmas demo_defs = demo_ready_def demo_subtask_def demo_batch_def demo_result_def demo_error_def

theorem router_tables_consistent_witness:
  "router_wf (snd (handle_messages [MReady demo_ready, MSweep 0] router_init)) \<and>
   router_wf (fst (snd (spawn_parallel_batch (demo_batch ''parallel'' [demo_subtask ''t1'']) True router_init))) \<and>
   router_wf (fst (snd (poll_spawner Returned router_init)))"
  by (rule router_tables_consistent [OF router_wf_init])

text \<open>
  The chosen worker is registered, ready, below its task limit, has every capability
  and enough memory, and no other such worker is less loaded; no worker is chosen exactly
  when none fits.
\<close>
theorem best_worker_is_least_loaded_fit:
  "case find_best_worker R st of
     None \<Rightarrow> \<forall>w \<in> set (dict_values (r_workers R)). \<not> worker_fits st w
   | Some w \<Rightarrow> w \<in> set (dict_values (r_workers R)) \<and> worker_fits st w \<and>
       (\<forall>w' \<in> set (dict_values (r_workers R)). worker_fits st w' \<longrightarrow> worker_load w \<le> worker_load w')"
  using find_best_worker_Some [of R st] find_best_worker_None [of R st] by (simp split: option.split)

theorem best_worker_is_least_loaded_fit_witness:
  "(let R = handle_worker_ready demo_ready router_init in
    case find_best_worker R (demo_subtask ''t1'') of
     None \<Rightarrow> \<forall>w \<in> set (dict_values (r_workers R)). \<not> worker_fits (demo_subtask ''t1'') w
   | Some w \<Rightarrow> w \<in> set (dict_values (r_workers R)) \<and> worker_fits (demo_subtask ''t1'') w \<and>
       (\<forall>w' \<in> set (dict_values (r_workers R)). worker_fits (demo_subtask ''t1'') w' \<longrightarrow> worker_load w \<le> worker_load w')) \<and>
   find_best_worker (handle_worker_ready demo_ready router_init) (demo_subtask ''t1'') \<noteq> None"
  unfolding Let_def
  by (rule conjI [OF best_worker_is_least_loaded_fit])
    (simp add: find_best_worker_def handle_worker_ready_def router_init_def demo_defs worker_fits_def)

text \<open>
  Dispatching a whole batch never raises a worker's task count above the limit the
  worker announced; every task published goes to a worker that had room.
\<close>
theorem dispatch_respects_worker_limits:
  assumes "router_wf R" "within_limit R"
  shows "within_limit (snd (dispatch_all sts R)) \<and> router_wf (snd (dispatch_all sts R))"
  using assms by (simp add: within_limit_dispatch_all router_wf_dispatch_all router_wf_def [of R])

theorem dispatch_respects_worker_limits_witness:
  "within_limit (snd (dispatch_all [demo_subtask ''t1'', demo_subtask ''t2'', demo_subtask ''t3''] (handle_worker_ready demo_ready router_init))) \<and>
   router_wf (snd (dispatch_all [demo_subtask ''t1'', demo_subtask ''t2'', demo_subtask ''t3''] (handle_worker_ready demo_ready router_init)))"
proof (rule dispatch_respects_worker_limits)
  show "router_wf (handle_worker_ready demo_ready router_init)"
    using router_wf_message [OF router_wf_init, of "MReady demo_ready"] by simp
  show "within_limit (handle_worker_ready demo_ready router_init)"
    by (simp add: within_limit_def handle_worker_ready_def router_init_def demo_defs)
qed


definition demo_open :: "string \<Rightarrow> subtask list \<Rightarrow> router" where
  "demo_open mode sts = register_batch (demo_batch mode sts) True (handle_worker_ready demo_ready router_init)"

lemma demo_open_wf: "router_wf (demo_open mode sts)"
  unfolding demo_open_def
  using router_wf_register router_wf_message [OF router_wf_init, of "MReady demo_ready"] by simp

lemmas demo_open_defs = demo_open_def register_batch_def handle_worker_ready_def router_init_def demo_defs


text \<open>
  A subtask that fails, is retried and then succeeds stands in both tables and is
  counted twice: a batch of two subtasks is closed and its callback called although the
  other subtask never reported.
\<close>
theorem retried_subtask_closes_batch_early:
  assumes b: "dict_get (r_active R) b = Some bt" "find_batch_for_task R (st_id s1) = Some b"
    and two: "b_subtasks bt = [s1, s2]" "st_id s1 \<noteq> st_id s2"
    and none: "r_results R b = Some []" "r_errors R b = Some []"
    and p: "err_task_id p = st_id s1" "err_retryable p" "err_retry_count p < 3"
    and q: "res_task_id q = st_id s1"
  shows "dict_get (r_active (snd (handle_messages [MError p, MRetry s1, MResult q] R))) b = None \<and>
    (b \<in> r_callbacks R \<longrightarrow> completions b (fst (handle_messages [MError p, MRetry s1, MResult q] R)) = 1)"
proof -
  let ?R1 = "snd (handle_worker_error p R)" and ?R2 = "snd (dispatch_subtask s1 (snd (handle_worker_error p R)))"
  have e: "fst (handle_worker_error p R) = [RetryLater (err_delay p) s1 b]"
    "r_active ?R1 = r_active R" "r_results ?R1 = r_results R" "r_callbacks ?R1 = r_callbacks R"
    "r_errors ?R1 b = Some [(st_id s1, err_message p)]"
    using assms by (simp_all add: handle_worker_error_def Let_def get_errors_def)
  have "find_batch_for_task ?R2 (st_id s1) = Some b"
    using b e by (simp add: find_batch_for_task_def)
  then have "dict_get (r_active (snd (handle_worker_result q ?R2))) b = None"
    "b \<in> r_callbacks R \<longrightarrow> completions b (fst (handle_worker_result q ?R2)) = 1"
    using b two none q e
    by (simp_all add: handle_worker_result_def Let_def check_batch_completion_def get_results_def get_errors_def)
  then show ?thesis by (simp add: Let_def split_def e)
qed

theorem retried_subtask_closes_batch_early_witness:
  "dict_get (r_active (snd (handle_messages [MError (demo_error ''t1''), MRetry (demo_subtask ''t1''), MResult (demo_result ''t1'')]
      (demo_open ''parallel'' [demo_subtask ''t1'', demo_subtask ''t2''])))) ''b7'' = None \<and>
   completions ''b7'' (fst (handle_messages [MError (demo_error ''t1''), MRetry (demo_subtask ''t1''), MResult (demo_result ''t1'')]
      (demo_open ''parallel'' [demo_subtask ''t1'', demo_subtask ''t2'']))) = 1"
  using retried_subtask_closes_batch_early [of "demo_open ''parallel'' [demo_subtask ''t1'', demo_subtask ''t2'']" "''b7''"
      "demo_batch ''parallel'' [demo_subtask ''t1'', demo_subtask ''t2'']" "demo_subtask ''t1''" "demo_subtask ''t2''" "demo_error ''t1''" "demo_result ''t1''"]
  by (simp add: demo_open_defs find_batch_for_task_def del: handle_messages.simps)

text \<open>
  Over any sequence of messages the completion callback of a batch is called at most
  once, and never when none is pending.
\<close>
theorem callback_called_at_most_once:
  "completions b (fst (handle_messages msgs R)) \<le> (if b \<in> r_callbacks R then 1 else 0)"
  using completions_messages [of b msgs R] by (simp add: pending_callback_def)

text \<open>
  In sequential mode the spawner of a batch waits for its last subtask in the result
  table, but the report that ends the batch deletes that table: after the only subtask of
  a batch has succeeded, every later poll of the spawner waits on, whatever messages arrive.
\<close>
theorem sequential_spawn_never_returns:
  assumes wf: "router_wf R" and mode: "b_mode bt = ''sequential''" and one: "b_subtasks bt = [st]"
    and fresh: "find_batch_for_task R (st_id st) = None" "dict_get (r_active R) (b_id bt) = None"
    and p: "res_task_id p = st_id st"
    and sp: "spawn_parallel_batch bt cb R = (es, R1, sp)"
    and R2: "R2 = snd (handle_messages msgs (snd (handle_worker_result p R1)))"
  shows "sp \<noteq> Returned \<and> poll_spawner sp R2 = ([], R2, sp)"
proof -
  let ?R0 = "register_batch bt cb R"
  from mode one sp have R1: "R1 = snd (dispatch_subtask st ?R0)" and spw: "sp = SeqWait (b_id bt) (st_id st) []"
    by (simp_all add: spawn_parallel_batch_def Let_def split_def)
  have append: "find_batch_in d t = None \<Longrightarrow> find_batch_in (d @ [(b, bt)]) t = find_batch_in [(b, bt)] t" for d t b
    by (induction d t rule: find_batch_in.induct) (auto split: if_splits)
  have "find_batch_for_task R1 (st_id st) = Some (b_id bt)"
    using append fresh one by (simp add: R1 find_batch_for_task_def register_batch_def dict_set_fresh)
  then have "dict_get (r_active (snd (handle_worker_result p R1))) (b_id bt) = None"
    using one p by (simp add: handle_worker_result_def Let_def R1 register_batch_def check_batch_completion_def
        get_results_def get_errors_def)
  then have gone: "dict_get (r_active R2) (b_id bt) = None" unfolding R2 by (rule gone_messages)
  have "router_wf R1" using router_wf_spawn [OF wf, of bt cb] sp by simp
  then have "router_wf R2" unfolding R2 by (intro router_wf_messages router_wf_result)
  from gone_poll [OF this gone] spw show ?thesis by simp
qed

theorem sequential_spawn_never_returns_witness:
  "\<exists>es R1 sp. spawn_parallel_batch (demo_batch ''sequential'' [demo_subtask ''t1'']) True router_init = (es, R1, sp) \<and>
     sp \<noteq> Returned \<and>
     poll_spawner sp (snd (handle_messages [MSweep 9] (snd (handle_worker_result (demo_result ''t1'') R1)))) =
       ([], snd (handle_messages [MSweep 9] (snd (handle_worker_result (demo_result ''t1'') R1))), sp)"
proof -
  obtain es R1 sp where sp: "spawn_parallel_batch (demo_batch ''sequential'' [demo_subtask ''t1'']) True router_init = (es, R1, sp)"
    by (metis prod_cases3)
  have "sp \<noteq> Returned \<and>
     poll_spawner sp (snd (handle_messages [MSweep 9] (snd (handle_worker_result (demo_result ''t1'') R1)))) =
       ([], snd (handle_messages [MSweep 9] (snd (handle_worker_result (demo_result ''t1'') R1))), sp)"
    by (rule sequential_spawn_never_returns [OF router_wf_init _ _ _ _ _ sp refl, of "demo_subtask ''t1''"])
      (simp_all add: demo_defs router_init_def find_batch_for_task_def)
  with sp show ?thesis by blast
qed

end
