(* ===== verification/Swarm_Models.thy ===== *)
theory Swarm_Models imports Prelude begin

text \<open>
  The contracts of \<open>memu/swarm_models.py\<close> that the event projections and the compute
  governor use: event types, task states, the event envelope, the DAG node and the compute
  budget with their derived properties. \<open>event_value\<close> and \<open>status_value\<close> are the strings
  the enumerations stand for on the wire and in the database.
\<close>

datatype event_type =
    TASK_DRAFTED | TASK_AMENDED | TASK_CLAIMED | TASK_COMPLETED | TASK_FAILED | TASK_CANCELLED
  | BID_SUBMITTED | LEASE_GRANTED | LEASE_EXPIRED | AUDIT_PROPOSED | AUDIT_ACCEPTED | AUDIT_REJECTED
  | CIRCUIT_BREAKER | SYSTEM_HALT | SYSTEM_OVERRIDE | HEARTBEAT | MEMORY_WRITTEN | DECISION_MADE
  | HEALTH_CHECK | LANE_ACQUIRED | LANE_RELEASED | LANE_CONTESTED | TASK_ORPHANED | TASK_HYDRATED
  | CHECKPOINT_SAVED | ROLLBACK_EXECUTED | DLQ_ENQUEUED | DLQ_DIAGNOSED | DLQ_HEALED | RPC_REQUEST
  | RPC_RESPONSE | MERKLE_ANCHOR

fun event_value :: "event_type \<Rightarrow> string" where
  "event_value TASK_DRAFTED = ''task_drafted''"
| "event_value TASK_AMENDED = ''task_amended''"
| "event_value TASK_CLAIMED = ''task_claimed''"
| "event_value TASK_COMPLETED = ''task_completed''"
| "event_value TASK_FAILED = ''task_failed''"
| "event_value TASK_CANCELLED = ''task_cancelled''"
| "event_value BID_SUBMITTED = ''bid_submitted''"
| "event_value LEASE_GRANTED = ''lease_granted''"
| "event_value LEASE_EXPIRED = ''lease_expired''"
| "event_value AUDIT_PROPOSED = ''audit_proposed''"
| "event_value AUDIT_ACCEPTED = ''audit_accepted''"
| "event_value AUDIT_REJECTED = ''audit_rejected''"
| "event_value CIRCUIT_BREAKER = ''circuit_breaker''"
| "event_value SYSTEM_HALT = ''system_halt''"
| "event_value SYSTEM_OVERRIDE = ''system_override''"
| "event_value HEARTBEAT = ''heartbeat''"
| "event_value MEMORY_WRITTEN = ''memory_written''"
| "event_value DECISION_MADE = ''decision_made''"
| "event_value HEALTH_CHECK = ''health_check''"
| "event_value LANE_ACQUIRED = ''lane_acquired''"
| "event_value LANE_RELEASED = ''lane_released''"
| "event_value LANE_CONTESTED = ''lane_contested''"
| "event_value TASK_ORPHANED = ''task_orphaned''"
| "event_value TASK_HYDRATED = ''task_hydrated''"
| "event_value CHECKPOINT_SAVED = ''checkpoint_saved''"
| "event_value ROLLBACK_EXECUTED = ''rollback_executed''"
| "event_value DLQ_ENQUEUED = ''dlq_enqueued''"
| "event_value DLQ_DIAGNOSED = ''dlq_diagnosed''"
| "event_value DLQ_HEALED = ''dlq_healed''"
| "event_value RPC_REQUEST = ''rpc_request''"
| "event_value RPC_RESPONSE = ''rpc_response''"
| "event_value MERKLE_ANCHOR = ''merkle_anchor''"

datatype task_status =
    PENDING | BIDDING | CLAIMED | EXECUTING | AUDIT_PENDING | COMPLETED | FAILED | CANCELLED
  | ORPHANED | HYDRATING | YIELDING | DLQ | ROLLING_BACK

fun status_value :: "task_status \<Rightarrow> string" where
  "status_value PENDING = ''pending''"
| "status_value BIDDING = ''bidding''"
| "status_value CLAIMED = ''claimed''"
| "status_value EXECUTING = ''executing''"
| "status_value AUDIT_PENDING = ''audit_pending''"
| "status_value COMPLETED = ''completed''"
| "status_value FAILED = ''failed''"
| "status_value CANCELLED = ''cancelled''"
| "status_value ORPHANED = ''orphaned''"
| "status_value HYDRATING = ''hydrating''"
| "status_value YIELDING = ''yielding''"
| "status_value DLQ = ''dlq''"
| "status_value ROLLING_BACK = ''rolling_back''"

record swarm_event =
  se_id :: uuid
  se_timestamp :: time
  se_source :: string
  se_type :: event_type
  se_task :: uuid
  se_parent :: "uuid option"
  se_payload :: payload
  se_context :: "uuid option"
  se_cost :: real
  se_signature :: "string option"

definition valid_swarm_event :: "swarm_event \<Rightarrow> bool" where
  "valid_swarm_event e \<longleftrightarrow> length (se_source e) \<le> 64 \<and> 0 \<le> se_cost e"

section \<open>Tasks of the DAG\<close>

record task_node =
  tn_id :: uuid
  tn_root :: uuid
  tn_parent :: "uuid option"
  tn_children :: "uuid list"
  tn_title :: string
  tn_status :: task_status
  tn_gateway :: "string option"
  tn_budget :: real
  tn_spent :: real
  tn_events :: "uuid list"
  tn_created :: "time option"
  tn_completed :: "time option"
  tn_lanes :: "string list"
  tn_fencing :: "int option"
  tn_rollback :: "string option"
  tn_checkpoint :: "string option"
  tn_checkpoint_time :: "time option"
  tn_failures :: int
  tn_last_error :: "string option"
  tn_capabilities :: "string list"

text \<open>The node the constructor makes from its four required arguments.\<close>

definition new_task_node :: "uuid \<Rightarrow> uuid \<Rightarrow> string \<Rightarrow> time \<Rightarrow> task_node" where
  "new_task_node t r title created =
     \<lparr>tn_id = t, tn_root = r, tn_parent = None, tn_children = [], tn_title = title, tn_status = PENDING,
      tn_gateway = None, tn_budget = 0, tn_spent = 0, tn_events = [], tn_created = Some created,
      tn_completed = None, tn_lanes = [], tn_fencing = None, tn_rollback = None, tn_checkpoint = None,
      tn_checkpoint_time = None, tn_failures = 0, tn_last_error = None, tn_capabilities = []\<rparr>"

definition is_leaf :: "task_node \<Rightarrow> bool" where
  "is_leaf n \<longleftrightarrow> length (tn_children n) = 0"

definition is_blocked :: "task_node \<Rightarrow> bool" where
  "is_blocked n \<longleftrightarrow> tn_status n = PENDING \<and> tn_parent n \<noteq> None"

definition is_poison_pill :: "task_node \<Rightarrow> bool" where
  "is_poison_pill n \<longleftrightarrow> tn_failures n \<ge> 3"

definition has_checkpoint :: "task_node \<Rightarrow> bool" where
  "has_checkpoint n \<longleftrightarrow> tn_checkpoint n \<noteq> None"

section \<open>Compute budgets\<close>

record compute_budget =
  cb_root :: uuid
  cb_max_tokens :: int
  cb_max_cost :: real
  cb_tokens :: int
  cb_cost :: real
  cb_frozen :: bool

definition tokens_remaining :: "compute_budget \<Rightarrow> int" where
  "tokens_remaining b = max (cb_max_tokens b - cb_tokens b) 0"

definition cost_remaining :: "compute_budget \<Rightarrow> real" where
  "cost_remaining b = max (cb_max_cost b - cb_cost b) 0"

definition is_exhausted :: "compute_budget \<Rightarrow> bool" where
  "is_exhausted b \<longleftrightarrow> tokens_remaining b \<le> 0 \<or> cost_remaining b \<le> 0"

lemma is_exhausted_iff: "is_exhausted b \<longleftrightarrow> cb_max_tokens b \<le> cb_tokens b \<or> cb_max_cost b \<le> cb_cost b"
  by (auto simp: is_exhausted_def tokens_remaining_def cost_remaining_def)

end
