(* ===== verification/Bridge_Ledger.thy ===== *)
theory Bridge_Ledger imports Prelude begin

text \<open>
  \<open>BridgeLedger\<close> of \<open>memu/bridge_ledger.py\<close>: the event log and the DAG of tasks the
  WebSocket bridge projects from the raw events it receives. A raw event is its JSON
  object; timestamps are the ISO strings of the events, and \<open>now\<close> is the one the ledger
  makes up for an event without. Python shares one task object between the task table and
  its local variables; here a change is a change of the table.
\<close>

record mem_task =
  mt_id :: string
  mt_title :: string
  mt_status :: string
  mt_parent :: "string option"
  mt_root :: "string option"
  mt_gateway :: "string option"
  mt_budget :: real
  mt_spent :: real
  mt_children :: "string list"
  mt_events :: "string list"
  mt_created :: "string option"
  mt_completed :: "string option"
  mt_updated :: "string option"

definition new_mem_task :: "string \<Rightarrow> string \<Rightarrow> mem_task" where
  "new_mem_task t ts = \<lparr>mt_id = t, mt_title = ''Unknown'', mt_status = ''pending'', mt_parent = None,
     mt_root = None, mt_gateway = None, mt_budget = 0, mt_spent = 0, mt_children = [], mt_events = [],
     mt_created = Some ts, mt_completed = None, mt_updated = None\<rparr>"

record heartbeat_info =
  hb_gateway :: string
  hb_last_seen :: string
  hb_payload :: payload

record lane_info =
  ln_lane :: string
  ln_holder :: string
  ln_event :: string
  ln_timestamp :: string

record dlq_info =
  dq_source :: string
  dq_payload :: payload
  dq_timestamp :: string

record ledger =
  l_max :: nat
  l_events :: "payload list"
  l_tasks :: "(string, mem_task) dict"
  l_roots :: "string set"
  l_lanes :: "(string, lane_info) dict"
  l_dlq :: "dlq_info list"
  l_heartbeats :: "(string, heartbeat_info) dict"

definition ledger_init :: "nat \<Rightarrow> ledger" where
  "ledger_init m = \<lparr>l_max = m, l_events = [], l_tasks = [], l_roots = {}, l_lanes = [], l_dlq = [],
     l_heartbeats = []\<rparr>"

section \<open>Events\<close>

definition log_event :: "payload \<Rightarrow> ledger \<Rightarrow> ledger" where
  "log_event raw L =
     (let es = l_events L @ [raw]
      in L\<lparr>l_events := if length es > l_max L then last_slice (l_max L) es else es\<rparr>)"

definition process_system_event :: "string \<Rightarrow> payload \<Rightarrow> string \<Rightarrow> string \<Rightarrow> ledger \<Rightarrow> ledger" where
  "process_system_event et p src ts L =
     (if et = ''heartbeat_ping'' then
        L\<lparr>l_heartbeats := dict_set src \<lparr>hb_gateway = src, hb_last_seen = ts, hb_payload = p\<rparr> (l_heartbeats L)\<rparr>
      else if et = ''lane_contested'' \<or> et = ''lane_acquired'' then
        (let lane = str_field p ''lane'' ''unknown''
         in L\<lparr>l_lanes := dict_set lane \<lparr>ln_lane = lane, ln_holder = str_field p ''gateway_id'' src,
                ln_event = et, ln_timestamp = ts\<rparr> (l_lanes L)\<rparr>)
      else if et = ''dlq_entry'' then
        L\<lparr>l_dlq := l_dlq L @ [\<lparr>dq_source = src, dq_payload = p, dq_timestamp = ts\<rparr>]\<rparr>
      else L)"

text \<open>What an event of each type changes in the task it names.\<close>

definition apply_event :: "string \<Rightarrow> payload \<Rightarrow> string \<Rightarrow> string \<Rightarrow> mem_task \<Rightarrow> mem_task" where
  "apply_event et p src ts t =
     (if et = ''task_drafted'' then
        t\<lparr>mt_title := str_field p ''title'' (mt_title t), mt_status := ''pending'',
          mt_root := opt_str_field p ''root_prompt_id'', mt_parent := opt_str_field p ''parent_task_id'',
          mt_budget := num_field p ''compute_budget'' 0\<rparr>
      else if et = ''bid_submitted'' then t\<lparr>mt_status := ''bidding''\<rparr>
      else if et = ''lease_granted'' then
        t\<lparr>mt_status := ''claimed'', mt_gateway := Some (str_field p ''gateway_id'' src)\<rparr>
      else if et = ''task_claimed'' then
        t\<lparr>mt_status := ''executing'', mt_gateway := Some (str_field p ''gateway_id'' src)\<rparr>
      else if et = ''task_completed'' then t\<lparr>mt_status := ''completed'', mt_completed := Some ts\<rparr>
      else if et = ''task_failed'' then t\<lparr>mt_status := ''failed''\<rparr>
      else if et = ''task_cancelled'' then t\<lparr>mt_status := ''cancelled''\<rparr>
      else if et = ''task_amended'' then t\<lparr>mt_title := str_field p ''title'' (mt_title t)\<rparr>
      else if et = ''audit_proposed'' then t\<lparr>mt_status := ''audit_pending''\<rparr>
      else if et = ''audit_accepted'' then t\<lparr>mt_status := ''completed''\<rparr>
      else if et = ''audit_rejected'' then t\<lparr>mt_status := ''pending'', mt_gateway := None\<rparr>
      else if et = ''lease_expired'' then t\<lparr>mt_status := ''pending'', mt_gateway := None\<rparr>
      else if et = ''circuit_breaker'' then t\<lparr>mt_status := ''failed''\<rparr>
      else t)"

definition link_parent :: "string \<Rightarrow> (string, mem_task) dict \<Rightarrow> (string, mem_task) dict" where
  "link_parent tid ts =
     (case dict_get ts tid of
        None \<Rightarrow> ts
      | Some t \<Rightarrow>
          (if nonempty (mt_parent t) then
             (case dict_get ts (the (mt_parent t)) of
                None \<Rightarrow> ts
              | Some pt \<Rightarrow>
                  if tid \<in> set (mt_children pt) then ts
                  else dict_set (the (mt_parent t)) (pt\<lparr>mt_children := mt_children pt @ [tid]\<rparr>) ts)
           else ts))"

definition halt_executing :: "(string, mem_task) dict \<Rightarrow> (string, mem_task) dict" where
  "halt_executing ts =
     map (\<lambda>(k, t). (k, if mt_status t = ''executing'' then t\<lparr>mt_status := ''halted''\<rparr> else t)) ts"

definition raw_task_id :: "payload \<Rightarrow> string" where "raw_task_id raw = str_field raw ''task_id'' []"
definition raw_event_id :: "payload \<Rightarrow> string" where "raw_event_id raw = str_field raw ''event_id'' []"
definition raw_type :: "payload \<Rightarrow> string" where "raw_type raw = str_field raw ''event_type'' []"
definition raw_cost :: "payload \<Rightarrow> real" where "raw_cost raw = num_field raw ''compute_cost'' 0"
definition raw_payload :: "payload \<Rightarrow> payload" where "raw_payload raw = obj_field raw ''payload''"

definition process_task_event :: "string \<Rightarrow> payload \<Rightarrow> (string, mem_task) dict \<Rightarrow> (string, mem_task) dict" where
  "process_task_event now raw ts0 =
     (let et = raw_type raw; tid = raw_task_id raw; ts = str_field raw ''timestamp'' now;
          t = (case dict_get ts0 tid of None \<Rightarrow> new_mem_task tid ts | Some t \<Rightarrow> t);
          t1 = t\<lparr>mt_events := mt_events t @ [raw_event_id raw], mt_spent := mt_spent t + raw_cost raw,
                 mt_updated := Some ts\<rparr>;
          t2 = apply_event et (raw_payload raw) (str_field raw ''source_gateway'' ''unknown'') ts t1;
          ts1 = dict_set tid t2 ts0;
          ts2 = (if et = ''task_drafted'' then link_parent tid ts1
                 else if et = ''system_halt'' then halt_executing ts1
                 else ts1)
      in link_parent tid ts2)"

definition process_event :: "string \<Rightarrow> payload \<Rightarrow> ledger \<Rightarrow> mem_task option \<times> ledger" where
  "process_event now raw L =
     (let L1 = log_event raw L; tid = raw_task_id raw; p = raw_payload raw in
      if tid = [] then
        (None, process_system_event (raw_type raw) p (str_field raw ''source_gateway'' ''unknown'')
                 (str_field raw ''timestamp'' now) L1)
      else
        (let ts = process_task_event now raw (l_tasks L1);
             root = opt_str_field p ''root_prompt_id''
         in (dict_get ts tid,
             L1\<lparr>l_tasks := ts,
                l_roots := if raw_type raw = ''task_drafted'' \<and> nonempty root
                           then insert (the root) (l_roots L1) else l_roots L1\<rparr>)))"

fun process_events :: "(string \<times> payload) list \<Rightarrow> ledger \<Rightarrow> ledger" where
  "process_events [] L = L"
| "process_events ((now, raw) # es) L = process_events es (snd (process_event now raw L))"

section \<open>Views\<close>

record dag_node =
  dn_id :: string
  dn_label :: string
  dn_status :: string
  dn_gateway :: "string option"
  dn_budget :: real
  dn_spent :: real
  dn_event_count :: nat

record dag_view =
  dv_nodes :: "dag_node list"
  dv_edges :: "(string \<times> string \<times> string) list"
  dv_total_tasks :: nat
  dv_total_events :: nat
  dv_roots :: "string set"
  dv_budget :: real
  dv_spent :: real
  dv_gateways :: nat
  dv_lanes :: "(string, lane_info) dict"
  dv_dlq :: nat

definition dag_node_of :: "mem_task \<Rightarrow> dag_node" where
  "dag_node_of t = \<lparr>dn_id = mt_id t, dn_label = mt_title t, dn_status = mt_status t,
     dn_gateway = mt_gateway t, dn_budget = mt_budget t, dn_spent = mt_spent t,
     dn_event_count = length (mt_events t)\<rparr>"

definition dag_edge_of :: "mem_task \<Rightarrow> string \<times> string \<times> string" where
  "dag_edge_of t = (''e-'' @ the (mt_parent t) @ ''-'' @ mt_id t, the (mt_parent t), mt_id t)"

definition get_dag :: "string option \<Rightarrow> ledger \<Rightarrow> dag_view" where
  "get_dag rp L =
     (let all = dict_values (l_tasks L);
          sel = (if nonempty rp then filter (\<lambda>t. mt_root t = rp) all else all)
      in \<lparr>dv_nodes = map dag_node_of sel,
          dv_edges = map dag_edge_of (filter (\<lambda>t. nonempty (mt_parent t)) sel),
          dv_total_tasks = length (l_tasks L), dv_total_events = length (l_events L),
          dv_roots = l_roots L, dv_budget = sum_list (map mt_budget all),
          dv_spent = sum_list (map mt_spent all), dv_gateways = length (l_heartbeats L),
          dv_lanes = l_lanes L, dv_dlq = length (l_dlq L)\<rparr>)"

definition get_event_log :: "nat \<Rightarrow> nat \<Rightarrow> ledger \<Rightarrow> payload list" where
  "get_event_log limit offset L = take limit (drop offset (rev (l_events L)))"

record trajectory =
  tj_task :: mem_task
  tj_events :: "payload list"
  tj_children :: "(string \<times> string \<times> string) list"

definition get_trajectory :: "string \<Rightarrow> ledger \<Rightarrow> string + trajectory" where
  "get_trajectory tid L =
     (case dict_get (l_tasks L) tid of
        None \<Rightarrow> Inl (''Task '' @ tid @ '' not found'')
      | Some t \<Rightarrow>
          Inr \<lparr>tj_task = t,
               tj_events = filter (\<lambda>e. dict_get e ''task_id'' = Some (JStr tid)) (l_events L),
               tj_children = map (\<lambda>c. case dict_get (l_tasks L) c of
                                        Some ct \<Rightarrow> (c, mt_title ct, mt_status ct)
                                      | None \<Rightarrow> (c, ''?'', ''?'')) (mt_children t)\<rparr>)"


section \<open>Accounting\<close>

text \<open>Linking and halting change neither a task's id nor its cost nor its events.\<close>

definition acct :: "mem_task \<Rightarrow> string \<times> real \<times> string list" where
  "acct t = (mt_id t, mt_spent t, mt_events t)"

lemma link_parent_acct: "map_option acct (dict_get (link_parent tid ts) k) = map_option acct (dict_get ts k)"
  by (simp add: link_parent_def acct_def split: option.split)

lemma dict_get_halt: "dict_get (halt_executing ts) k =
    map_option (\<lambda>t. if mt_status t = ''executing'' then t\<lparr>mt_status := ''halted''\<rparr> else t) (dict_get ts k)"
  by (induction ts) (auto simp: halt_executing_def)

lemma halt_executing_acct: "map_option acct (dict_get (halt_executing ts) k) = map_option acct (dict_get ts k)"
  by (cases "dict_get ts k") (simp_all add: dict_get_halt acct_def)

lemma relink_acct:
  "map_option acct (dict_get (link_parent tid
     (if A then link_parent tid ts else if B then halt_executing ts else ts)) k) = map_option acct (dict_get ts k)"
  by (simp add: link_parent_acct halt_executing_acct)

lemma apply_event_frame [simp]:
  "mt_id (apply_event et p src ts t) = mt_id t" "mt_spent (apply_event et p src ts t) = mt_spent t"
  "mt_events (apply_event et p src ts t) = mt_events t" "mt_children (apply_event et p src ts t) = mt_children t"
  by (simp_all add: apply_event_def)

lemma process_task_event_acct:
  "map_option acct (dict_get (process_task_event now raw ts) k) =
   (if k = raw_task_id raw
    then Some (case dict_get ts k of None \<Rightarrow> (k, raw_cost raw, [raw_event_id raw])
               | Some t \<Rightarrow> (mt_id t, mt_spent t + raw_cost raw, mt_events t @ [raw_event_id raw]))
    else map_option acct (dict_get ts k))"
  unfolding process_task_event_def Let_def relink_acct
  by (simp add: acct_def new_mem_task_def split: option.split)

definition events_of :: "string \<Rightarrow> (string \<times> payload) list \<Rightarrow> payload list" where
  "events_of k es = filter (\<lambda>raw. raw_task_id raw = k) (map snd es)"

lemma system_event_tasks [simp]: "l_tasks (process_system_event et p src ts L) = l_tasks L"
  by (simp add: process_system_event_def Let_def)

lemma log_event_frame [simp]: "l_tasks (log_event raw L) = l_tasks L" "l_max (log_event raw L) = l_max L"
  by (simp_all add: log_event_def Let_def)

lemma l_tasks_process_event:
  "l_tasks (snd (process_event now raw L)) =
     (if raw_task_id raw = [] then l_tasks L else process_task_event now raw (l_tasks L))"
  by (simp add: process_event_def Let_def)

lemma process_events_acct:
  assumes "k \<noteq> []"
  shows "map_option acct (dict_get (l_tasks (process_events es L)) k) =
    (case dict_get (l_tasks L) k of
       None \<Rightarrow> if events_of k es = [] then None
               else Some (k, sum_list (map raw_cost (events_of k es)), map raw_event_id (events_of k es))
     | Some t \<Rightarrow> Some (mt_id t, mt_spent t + sum_list (map raw_cost (events_of k es)),
                      mt_events t @ map raw_event_id (events_of k es)))"
proof (induction es arbitrary: L)
  case Nil
  then show ?case by (simp add: events_of_def acct_def split: option.split)
next
  case (Cons e es)
  obtain now raw where e: "e = (now, raw)" by (cases e)
  let ?L = "snd (process_event now raw L)"
  have ev: "events_of k (e # es) = (if raw_task_id raw = k then raw # events_of k es else events_of k es)"
    by (simp add: events_of_def e)
  have acc: "map_option acct (dict_get (l_tasks ?L) k) =
     (if k = raw_task_id raw
      then Some (case dict_get (l_tasks L) k of None \<Rightarrow> (k, raw_cost raw, [raw_event_id raw])
                 | Some t \<Rightarrow> (mt_id t, mt_spent t + raw_cost raw, mt_events t @ [raw_event_id raw]))
      else map_option acct (dict_get (l_tasks L) k))"
  proof (cases "raw_task_id raw = []")
    case False
    show ?thesis unfolding l_tasks_process_event using False process_task_event_acct by (simp only: if_False)
  qed (use assms in \<open>simp add: l_tasks_process_event\<close>)
  show ?case
    using Cons [of ?L] acc unfolding ev unfolding e
    by (auto simp: acct_def add.assoc split: option.splits if_splits)
qed

section \<open>Invariant\<close>

definition tasks_wf :: "(string, mem_task) dict \<Rightarrow> bool" where
  "tasks_wf ts \<longleftrightarrow> wf_dict ts \<and>
     (\<forall>k t. dict_get ts k = Some t \<longrightarrow> mt_id t = k \<and> distinct (mt_children t) \<and> set (mt_children t) \<subseteq> dom (dict_get ts))"

lemma tasks_wf_set:
  assumes "tasks_wf ts" "mt_id t = k" "distinct (mt_children t)" "set (mt_children t) \<subseteq> insert k (dom (dict_get ts))"
  shows "tasks_wf (dict_set k t ts)"
  using assms unfolding tasks_wf_def by (auto simp: subset_insertI2 split: if_splits; blast)

lemma tasks_wf_link: "tasks_wf ts \<Longrightarrow> tasks_wf (link_parent tid ts)"
  unfolding link_parent_def
  by (auto split: option.split intro!: tasks_wf_set) (auto simp: tasks_wf_def dom_def)

lemma wf_dict_halt: "wf_dict (halt_executing ts) = wf_dict ts"
  by (simp add: wf_dict_def halt_executing_def comp_def split_def)

lemma tasks_wf_halt: "tasks_wf ts \<Longrightarrow> tasks_wf (halt_executing ts)"
  unfolding tasks_wf_def wf_dict_halt by (auto simp: dict_get_halt dom_def subset_iff; fastforce)

lemma tasks_wf_process: 
  assumes "tasks_wf ts"
  shows "tasks_wf (process_task_event now raw ts)"
proof -
  have "tasks_wf (dict_set (raw_task_id raw) (apply_event et p src s
      ((case dict_get ts (raw_task_id raw) of None \<Rightarrow> new_mem_task (raw_task_id raw) s' | Some t \<Rightarrow> t)
        \<lparr>mt_events := es, mt_spent := c, mt_updated := u\<rparr>)) ts)" for et p src s s' es c u
    using assms by (intro tasks_wf_set) (auto simp: tasks_wf_def new_mem_task_def split: option.split)
  then show ?thesis
    by (simp add: process_task_event_def Let_def tasks_wf_link tasks_wf_halt)
qed

lemma tasks_wf_events: "tasks_wf (l_tasks L) \<Longrightarrow> tasks_wf (l_tasks (process_events es L))"
proof (induction es arbitrary: L)
  case (Cons e es)
  then show ?case by (cases e) (simp add: l_tasks_process_event tasks_wf_process)
qed simp

section \<open>The log\<close>

lemma l_events_process_event:
  "l_events (snd (process_event now raw L)) = l_events (log_event raw L)"
  "l_max (snd (process_event now raw L)) = l_max L"
  by (simp_all add: process_event_def Let_def process_system_event_def)

lemma log_event_last:
  assumes "0 < l_max L" "l_events L = drop (length xs - l_max L) xs"
  shows "l_events (log_event raw L) = drop (length (xs @ [raw]) - l_max L) (xs @ [raw])"
  using assms by (auto simp: log_event_def Let_def last_slice_def Suc_diff_le)

lemma process_events_log:
  assumes "0 < l_max L" "l_events L = drop (length xs - l_max L) xs"
  shows "l_events (process_events es L) = drop (length xs + length es - l_max L) (xs @ map snd es)"
  using assms
proof (induction es arbitrary: L xs)
  case (Cons e es)
  obtain now raw where e: "e = (now, raw)" by (cases e)
  let ?L = "snd (process_event now raw L)"
  from log_event_last [OF Cons.prems] Cons.prems Cons.IH [of ?L "xs @ [raw]"]
  show ?case by (simp add: e l_events_process_event)
qed simp

section \<open>Parent links\<close>

lemma link_parent_parents: "map_option mt_parent (dict_get (link_parent tid ts) k) = map_option mt_parent (dict_get ts k)"
  by (simp add: link_parent_def split: option.split)

lemma halt_parents: "map_option mt_parent (dict_get (halt_executing ts) k) = map_option mt_parent (dict_get ts k)"
  by (cases "dict_get ts k") (simp_all add: dict_get_halt)

lemma halt_children: "map_option mt_children (dict_get (halt_executing ts) k) = map_option mt_children (dict_get ts k)"
  by (cases "dict_get ts k") (simp_all add: dict_get_halt)

lemma relink_parents:
  "map_option mt_parent (dict_get (link_parent tid
     (if A then link_parent tid ts else if B then halt_executing ts else ts)) k) = map_option mt_parent (dict_get ts k)"
  by (simp add: link_parent_parents halt_parents)

lemma link_parent_other:
  "map_option mt_parent (dict_get ts tid) \<noteq> Some (Some k) \<Longrightarrow> dict_get (link_parent tid ts) k = dict_get ts k"
  by (auto simp: link_parent_def split: option.split elim: nonempty.elims)

lemma relink_children:
  assumes "map_option mt_parent (dict_get ts tid) \<noteq> Some (Some k)"
  shows "map_option mt_children (dict_get (link_parent tid
     (if A then link_parent tid ts else if B then halt_executing ts else ts)) k) = map_option mt_children (dict_get ts k)"
  using assms by (simp add: link_parent_other link_parent_parents halt_parents halt_children)

lemma apply_event_parent:
  "mt_parent (apply_event et p src ts t) =
     (if et = ''task_drafted'' then opt_str_field p ''parent_task_id'' else mt_parent t)"
  by (simp add: apply_event_def)

lemma process_task_event_parent:
  "map_option mt_parent (dict_get (process_task_event now raw ts) k) =
   (if k \<noteq> raw_task_id raw then map_option mt_parent (dict_get ts k)
    else Some (if raw_type raw = ''task_drafted'' then opt_str_field (raw_payload raw) ''parent_task_id''
               else case dict_get ts k of None \<Rightarrow> None | Some t \<Rightarrow> mt_parent t))"
  unfolding process_task_event_def Let_def relink_parents
  by (simp add: apply_event_parent new_mem_task_def split: option.split)

lemma process_task_event_new:
  assumes fresh: "dict_get ts (raw_task_id raw) = None"
    and "raw_type raw = ''task_drafted'' \<longrightarrow> opt_str_field (raw_payload raw) ''parent_task_id'' \<noteq> Some (raw_task_id raw)"
  shows "map_option mt_children (dict_get (process_task_event now raw ts) (raw_task_id raw)) = Some []"
proof -
  have "map_option mt_parent (dict_get (dict_set (raw_task_id raw)
      (apply_event (raw_type raw) (raw_payload raw) src s
        ((new_mem_task (raw_task_id raw) s)\<lparr>mt_events := es, mt_spent := c, mt_updated := u\<rparr>)) ts) (raw_task_id raw)) \<noteq>
     Some (Some (raw_task_id raw))" for src s es c u
    using assms(2) by (simp add: apply_event_parent new_mem_task_def)
  note relink_children [OF this]
  then show ?thesis
    unfolding process_task_event_def Let_def fresh option.case by (simp add: new_mem_task_def)
qed

lemma process_task_event_keys:
  "dict_get (process_task_event now raw ts) k = None \<longleftrightarrow> k \<noteq> raw_task_id raw \<and> dict_get ts k = None"
  using process_task_event_acct [of now raw ts k] by (auto split: if_splits)

lemma dag_edges_None: "dv_edges (get_dag None L) = map dag_edge_of (filter (\<lambda>t. nonempty (mt_parent t)) (dict_values (l_tasks L)))"
  by (simp add: get_dag_def Let_def)

lemma dag_edge_present:
  assumes "wf_dict (l_tasks L)" "dict_get (l_tasks L) c = Some t" "mt_id t = c" "mt_parent t = Some p" "p \<noteq> []"
  shows "(''e-'' @ p @ ''-'' @ c, p, c) \<in> set (dv_edges (get_dag None L))"
proof -
  have "t \<in> set (dict_values (l_tasks L))"
    using dict_values_iff [OF assms(1)] assms(2) by blast
  then have "t \<in> set (filter (\<lambda>t. nonempty (mt_parent t)) (dict_values (l_tasks L)))"
    by (simp only: set_filter assms(4) nonempty.simps mem_Collect_eq) (simp add: assms(4,5))
  then have "dag_edge_of t \<in> set (dv_edges (get_dag None L))"
    unfolding dag_edges_None set_map by (rule imageI)
  moreover have "dag_edge_of t = (''e-'' @ p @ ''-'' @ c, p, c)"
    unfolding dag_edge_of_def assms(3,4) by (simp only: option.sel)
  ultimately show ?thesis by (simp only:)
qed

section \<open>Properties of the ledger\<close>

definition demo_draft :: "string \<Rightarrow> string \<Rightarrow> string \<times> payload" where
  "demo_draft c p = (''t0'', [(''event_type'', JStr ''task_drafted''), (''event_id'', JStr (''e'' @ c)), (''task_id'', JStr c),
     (''compute_cost'', JInt 2), (''payload'', JObj [(''title'', JStr c), (''parent_task_id'', JStr p)])])"

definition demo_events :: "(string \<times> payload) list" where
  "demo_events = [demo_draft ''b'' ''a'', demo_draft ''a'' []]"

text \<open>
  (C6) Replaying any list of raw events into an empty ledger, a task exists exactly when
  some event names it, its compute cost is the sum of the costs of those events and its
  event list is theirs in order.
\<close>
theorem ledger_replay_accounts:
  assumes "k \<noteq> []"
  shows "case dict_get (l_tasks (process_events es (ledger_init m))) k of
     None \<Rightarrow> events_of k es = []
   | Some t \<Rightarrow> events_of k es \<noteq> [] \<and> mt_id t = k \<and> mt_spent t = sum_list (map raw_cost (events_of k es)) \<and>
       mt_events t = map raw_event_id (events_of k es)"
  using process_events_acct [OF assms, of es "ledger_init m"]
  by (auto simp: ledger_init_def acct_def split: option.splits if_splits)

theorem ledger_replay_accounts_witness:
  "case dict_get (l_tasks (process_events demo_events (ledger_init 1))) ''a'' of
     None \<Rightarrow> events_of ''a'' demo_events = []
   | Some t \<Rightarrow> events_of ''a'' demo_events \<noteq> [] \<and> mt_id t = ''a'' \<and>
       mt_spent t = sum_list (map raw_cost (events_of ''a'' demo_events)) \<and>
       mt_events t = map raw_event_id (events_of ''a'' demo_events)"
  by (rule ledger_replay_accounts) simp

text \<open>
  With a positive bound the log holds exactly the last events, and the page query
  returns them newest first; every task stays under its own id, and its children are
  distinct tasks of the ledger.
\<close>
theorem ledger_log_bounded_and_tasks_wf:
  assumes "0 < m"
  shows "l_events (process_events es (ledger_init m)) = drop (length es - m) (map snd es) \<and>
    length (l_events (process_events es (ledger_init m))) \<le> m \<and>
    get_event_log m 0 (process_events es (ledger_init m)) = take m (rev (map snd es)) \<and>
    tasks_wf (l_tasks (process_events es (ledger_init m)))"
proof -
  have log: "l_events (process_events es (ledger_init m)) = drop (length es - m) (map snd es)"
    using process_events_log [of "ledger_init m" "[]" es] assms by (simp add: ledger_init_def)
  have "tasks_wf (l_tasks (ledger_init m))" by (simp add: tasks_wf_def ledger_init_def)
  from tasks_wf_events [OF this] log show ?thesis
    by (cases "length es \<le> m") (simp_all add: get_event_log_def rev_drop)
qed

theorem ledger_log_bounded_and_tasks_wf_witness:
  "l_events (process_events demo_events (ledger_init 1)) = drop (length demo_events - 1) (map snd demo_events) \<and>
   length (l_events (process_events demo_events (ledger_init 1))) \<le> 1 \<and>
   get_event_log 1 0 (process_events demo_events (ledger_init 1)) = take 1 (rev (map snd demo_events)) \<and>
   tasks_wf (l_tasks (process_events demo_events (ledger_init 1)))"
  by (rule ledger_log_bounded_and_tasks_wf) simp

text \<open>
  A child drafted before its parent is known is not in the parent's child list after
  the parent's first event either, although the DAG view draws the edge: the second pass
  resolves only the task of the event at hand.
\<close>
theorem early_child_is_not_linked:
  assumes wf: "tasks_wf (l_tasks L)" and p: "dict_get (l_tasks L) p = None" "p \<noteq> []" "c \<noteq> []" "c \<noteq> p"
    and child: "raw_type e1 = ''task_drafted''" "raw_task_id e1 = c" "opt_str_field (raw_payload e1) ''parent_task_id'' = Some p"
    and parent: "raw_task_id e2 = p" "opt_str_field (raw_payload e2) ''parent_task_id'' \<noteq> Some p"
  shows "\<exists>t. dict_get (l_tasks (process_events [(n1, e1), (n2, e2)] L)) p = Some t \<and> mt_children t = [] \<and>
    (''e-'' @ p @ ''-'' @ c, p, c) \<in> set (dv_edges (get_dag None (process_events [(n1, e1), (n2, e2)] L)))"
proof -
  let ?ts1 = "process_task_event n1 e1 (l_tasks L)" and ?L2 = "process_events [(n1, e1), (n2, e2)] L"
  have L2: "l_tasks ?L2 = process_task_event n2 e2 ?ts1"
    using assms by (simp add: l_tasks_process_event)
  have fresh: "dict_get ?ts1 (raw_task_id e2) = None"
    using assms by (simp add: process_task_event_keys)
  have "map_option mt_children (dict_get (l_tasks ?L2) p) = Some []"
    using process_task_event_new [OF fresh, of n2] parent unfolding L2 by simp
  then obtain t where t: "dict_get (l_tasks ?L2) p = Some t" "mt_children t = []" by auto
  have "map_option mt_parent (dict_get (l_tasks ?L2) c) = Some (Some p)"
    using assms unfolding L2 by (simp add: process_task_event_parent)
  then obtain tc where tc: "dict_get (l_tasks ?L2) c = Some tc" "mt_parent tc = Some p" by auto
  have wf2: "tasks_wf (l_tasks ?L2)" using wf by (rule tasks_wf_events)
  then have "wf_dict (l_tasks ?L2)" "mt_id tc = c" using tc(1) by (simp_all add: tasks_wf_def)
  from dag_edge_present [OF this(1) tc(1) this(2) tc(2) p(2)] t show ?thesis by blast
qed

theorem early_child_is_not_linked_witness:
  "\<exists>t. dict_get (l_tasks (process_events demo_events (ledger_init 9))) ''a'' = Some t \<and> mt_children t = [] \<and>
     (''e-'' @ ''a'' @ ''-'' @ ''b'', ''a'', ''b'') \<in> set (dv_edges (get_dag None (process_events demo_events (ledger_init 9))))"
  unfolding demo_events_def demo_draft_def
  by (rule early_child_is_not_linked)
    (simp_all add: tasks_wf_def ledger_init_def raw_type_def raw_task_id_def raw_payload_def str_field_def
      opt_str_field_def obj_field_def)

end
