(* ===== verification/Dag_Projection.thy ===== *)
theory Dag_Projection imports Swarm_Models begin

text \<open>
  \<open>memu/projection.py\<close>: the DAG of a root prompt rebuilt from the append-only \<open>events\<close>
  table, and its materialisation in the \<open>tasks\<close> table. The two tables are part of the
  state \<open>db\<close>; the queries are written out as the SQL says. Events with equal timestamps
  keep the order of the table, which SQL leaves open. \<open>get_compute_budget\<close> is left out:
  its query mixes aggregates with plain columns without grouping.
\<close>

record event_row =
  er_id :: uuid
  er_time :: time
  er_task :: uuid
  er_gateway :: string
  er_type :: string
  er_payload :: payload
  er_cost :: real

record task_row =
  tk_id :: uuid
  tk_root :: uuid
  tk_parent :: "uuid option"
  tk_title :: string
  tk_status :: string
  tk_gateway :: "string option"
  tk_budget :: real
  tk_spent :: real
  tk_created :: "time option"
  tk_updated :: time

record db =
  db_events :: "event_row list"
  db_tasks :: "uuid \<rightharpoonup> task_row"

type_synonym dag = "(uuid, task_node) dict"

definition fetch_rows :: "uuid \<Rightarrow> db \<Rightarrow> event_row list" where
  "fetch_rows rp D =
     sort_key er_time
       (filter (\<lambda>e. case db_tasks D (er_task e) of None \<Rightarrow> False | Some t \<Rightarrow> tk_root t = rp) (db_events D))"

text \<open>\<open>UUID(...)\<close> raises \<open>ValueError\<close> on a malformed parent id.\<close>

definition parse_parent :: "payload \<Rightarrow> string + uuid option" where
  "parse_parent p =
     (if nonempty (opt_str_field p ''parent_task_id'')
      then (case uuid_parse (the (opt_str_field p ''parent_task_id'')) of
              None \<Rightarrow> Inl ''badly formed hexadecimal UUID string''
            | Some u \<Rightarrow> Inr (Some u))
      else Inr None)"

definition apply_row :: "event_row \<Rightarrow> task_node \<Rightarrow> string + task_node" where
  "apply_row r n =
     (let et = er_type r; p = er_payload r in
      if et = event_value TASK_DRAFTED then
        map_sum id (\<lambda>par. n\<lparr>tn_title := str_field p ''title'' (tn_title n), tn_status := PENDING,
                            tn_parent := par, tn_budget := num_field p ''compute_budget'' 0\<rparr>) (parse_parent p)
      else Inr
       (if et = event_value BID_SUBMITTED then n\<lparr>tn_status := BIDDING\<rparr>
        else if et = event_value LEASE_GRANTED then
          n\<lparr>tn_status := CLAIMED, tn_gateway := Some (er_gateway r)\<rparr>
        else if et = event_value TASK_CLAIMED then
          n\<lparr>tn_status := EXECUTING, tn_gateway := Some (str_field p ''gateway_id'' (er_gateway r))\<rparr>
        else if et = event_value TASK_COMPLETED then n\<lparr>tn_status := COMPLETED, tn_completed := Some (er_time r)\<rparr>
        else if et = event_value TASK_FAILED then n\<lparr>tn_status := FAILED\<rparr>
        else if et = event_value TASK_CANCELLED then n\<lparr>tn_status := CANCELLED\<rparr>
        else if et = event_value TASK_AMENDED then n\<lparr>tn_title := str_field p ''title'' (tn_title n)\<rparr>
        else if et = event_value AUDIT_PROPOSED then n\<lparr>tn_status := AUDIT_PENDING\<rparr>
        else if et = event_value AUDIT_ACCEPTED then n\<lparr>tn_status := COMPLETED\<rparr>
        else if et = event_value AUDIT_REJECTED then n\<lparr>tn_status := PENDING, tn_gateway := None\<rparr>
        else if et = event_value LEASE_EXPIRED then n\<lparr>tn_status := PENDING, tn_gateway := None\<rparr>
        else if et = event_value CIRCUIT_BREAKER then n\<lparr>tn_status := FAILED\<rparr>
        else n))"

definition register_child :: "uuid \<Rightarrow> dag \<Rightarrow> dag" where
  "register_child tid d =
     (case dict_get d tid of
        None \<Rightarrow> d
      | Some n \<Rightarrow>
          (case tn_parent n of
             None \<Rightarrow> d
           | Some p \<Rightarrow>
               (case dict_get d p of
                  None \<Rightarrow> d
                | Some pn \<Rightarrow>
                    if tid \<in> set (tn_children pn) then d
                    else dict_set p (pn\<lparr>tn_children := tn_children pn @ [tid]\<rparr>) d)))"

definition project_row :: "uuid \<Rightarrow> event_row \<Rightarrow> dag \<Rightarrow> string + dag" where
  "project_row rp r d =
     (let tid = er_task r;
          n = (case dict_get d tid of
                 None \<Rightarrow> new_task_node tid rp (str_field (er_payload r) ''title'' ''Unknown'') (er_time r)
               | Some n \<Rightarrow> n);
          n1 = n\<lparr>tn_events := tn_events n @ [er_id r], tn_spent := tn_spent n + er_cost r\<rparr>
      in case apply_row r n1 of
           Inl e \<Rightarrow> Inl e
         | Inr n2 \<Rightarrow>
             Inr (if er_type r = event_value TASK_DRAFTED then register_child tid (dict_set tid n2 d)
                  else dict_set tid n2 d))"

fun project_rows :: "uuid \<Rightarrow> event_row list \<Rightarrow> dag \<Rightarrow> string + dag" where
  "project_rows rp [] d = Inr d"
| "project_rows rp (r # rs) d =
     (case project_row rp r d of Inl e \<Rightarrow> Inl e | Inr d' \<Rightarrow> project_rows rp rs d')"

definition resolve_children :: "dag \<Rightarrow> dag" where
  "resolve_children d = fold register_child (dict_keys d) d"

definition project_task_dag :: "uuid \<Rightarrow> db \<Rightarrow> string + dag" where
  "project_task_dag rp D = map_sum id resolve_children (project_rows rp (fetch_rows rp D) [])"

definition upsert_task :: "time \<Rightarrow> task_node \<Rightarrow> (uuid \<rightharpoonup> task_row) \<Rightarrow> (uuid \<rightharpoonup> task_row)" where
  "upsert_task now n T =
     (case T (tn_id n) of
        None \<Rightarrow> T(tn_id n \<mapsto> \<lparr>tk_id = tn_id n, tk_root = tn_root n, tk_parent = tn_parent n,
                  tk_title = tn_title n, tk_status = status_value (tn_status n), tk_gateway = tn_gateway n,
                  tk_budget = tn_budget n, tk_spent = tn_spent n, tk_created = tn_created n, tk_updated = now\<rparr>)
      | Some row \<Rightarrow> T(tn_id n \<mapsto> row\<lparr>tk_status := status_value (tn_status n), tk_gateway := tn_gateway n,
                  tk_spent := tn_spent n, tk_updated := now\<rparr>))"

definition materialize_tasks :: "time \<Rightarrow> uuid \<Rightarrow> db \<Rightarrow> string + db" where
  "materialize_tasks now rp D =
     map_sum id (\<lambda>d. D\<lparr>db_tasks := fold (upsert_task now) (dict_values d) (db_tasks D)\<rparr>) (project_task_dag rp D)"

section \<open>Replaying rows\<close>

definition row_acct :: "task_node \<Rightarrow> uuid \<times> real \<times> uuid list" where
  "row_acct n = (tn_id n, tn_spent n, tn_events n)"

lemma register_child_acct: "map_option row_acct (dict_get (register_child tid d) k) = map_option row_acct (dict_get d k)"
  by (simp add: register_child_def row_acct_def split: option.split)

lemma register_child_parents: "map_option tn_parent (dict_get (register_child tid d) k) = map_option tn_parent (dict_get d k)"
  by (simp add: register_child_def split: option.split)

lemma apply_row_frame:
  assumes "apply_row r n = Inr n'"
  shows "tn_id n' = tn_id n" "tn_spent n' = tn_spent n" "tn_events n' = tn_events n" "tn_children n' = tn_children n"
  using assms
  by (cases "parse_parent (er_payload r)"; simp add: apply_row_def Let_def split: if_splits; clarsimp)+

definition dag_wf :: "dag \<Rightarrow> bool" where
  "dag_wf d \<longleftrightarrow> wf_dict d \<and>
     (\<forall>k n. dict_get d k = Some n \<longrightarrow> tn_id n = k \<and> distinct (tn_children n) \<and> set (tn_children n) \<subseteq> dom (dict_get d))"

lemma dag_wf_set:
  assumes "dag_wf d" "tn_id n = k" "distinct (tn_children n)" "set (tn_children n) \<subseteq> insert k (dom (dict_get d))"
  shows "dag_wf (dict_set k n d)"
  using assms unfolding dag_wf_def by (auto simp: subset_insertI2 split: if_splits; blast)

lemma dag_wf_register: "dag_wf d \<Longrightarrow> dag_wf (register_child tid d)"
  unfolding register_child_def
  by (auto split: option.split intro!: dag_wf_set) (auto simp: dag_wf_def dom_def)

definition initial_node :: "uuid \<Rightarrow> event_row \<Rightarrow> dag \<Rightarrow> task_node" where
  "initial_node rp r d =
     (case dict_get d (er_task r) of
        None \<Rightarrow> new_task_node (er_task r) rp (str_field (er_payload r) ''title'' ''Unknown'') (er_time r)
      | Some n \<Rightarrow> n)"

lemma project_row_cases:
  assumes "project_row rp r d = Inr d'"
  obtains n2 where "apply_row r ((initial_node rp r d)\<lparr>tn_events := tn_events (initial_node rp r d) @ [er_id r],
      tn_spent := tn_spent (initial_node rp r d) + er_cost r\<rparr>) = Inr n2"
    and "d' = (if er_type r = event_value TASK_DRAFTED then register_child (er_task r) (dict_set (er_task r) n2 d)
               else dict_set (er_task r) n2 d)"
  using assms by (auto simp: project_row_def initial_node_def Let_def split: sum.splits)

lemma dag_wf_project_row:
  assumes "dag_wf d" "project_row rp r d = Inr d'"
  shows "dag_wf d'"
proof -
  obtain n2 where n2: "apply_row r ((initial_node rp r d)\<lparr>tn_events := tn_events (initial_node rp r d) @ [er_id r],
      tn_spent := tn_spent (initial_node rp r d) + er_cost r\<rparr>) = Inr n2"
    and d': "d' = (if er_type r = event_value TASK_DRAFTED then register_child (er_task r) (dict_set (er_task r) n2 d)
               else dict_set (er_task r) n2 d)"
    using assms(2) by (rule project_row_cases)
  have "dag_wf (dict_set (er_task r) n2 d)"
    by (rule dag_wf_set [OF assms(1)])
      (use assms(1) in \<open>auto simp: apply_row_frame [OF n2] initial_node_def new_task_node_def dag_wf_def split: option.split\<close>)
  then show ?thesis by (simp add: d' dag_wf_register)
qed

lemma dag_wf_project_rows: "dag_wf d \<Longrightarrow> project_rows rp rs d = Inr d' \<Longrightarrow> dag_wf d'"
  by (induction rs arbitrary: d) (auto split: sum.splits dest: dag_wf_project_row)

lemma project_row_acct:
  assumes "project_row rp r d = Inr d'"
  shows "map_option row_acct (dict_get d' k) =
    (if k = er_task r
     then Some (case dict_get d k of None \<Rightarrow> (k, er_cost r, [er_id r])
                | Some n \<Rightarrow> (tn_id n, tn_spent n + er_cost r, tn_events n @ [er_id r]))
     else map_option row_acct (dict_get d k))"
proof -
  obtain n2 where n2: "apply_row r ((initial_node rp r d)\<lparr>tn_events := tn_events (initial_node rp r d) @ [er_id r],
      tn_spent := tn_spent (initial_node rp r d) + er_cost r\<rparr>) = Inr n2"
    and d': "d' = (if er_type r = event_value TASK_DRAFTED then register_child (er_task r) (dict_set (er_task r) n2 d)
               else dict_set (er_task r) n2 d)"
    using assms by (rule project_row_cases)
  have "map_option row_acct (dict_get d' k) = map_option row_acct (dict_get (dict_set (er_task r) n2 d) k)"
    unfolding d' by (cases "er_type r = event_value TASK_DRAFTED") (simp_all only: register_child_acct simp_thms if_True if_False)
  then show ?thesis
    using apply_row_frame [OF n2] by (simp add: row_acct_def initial_node_def new_task_node_def split: option.split)
qed

lemma project_row_dom:
  assumes "project_row rp r d = Inr d'"
  shows "dom (dict_get d') = insert (er_task r) (dom (dict_get d))"
proof -
  have "dict_get d' k = None \<longleftrightarrow> k \<noteq> er_task r \<and> dict_get d k = None" for k
  proof -
    have "map_option row_acct (dict_get d' k) = None \<longleftrightarrow> k \<noteq> er_task r \<and> map_option row_acct (dict_get d k) = None"
      unfolding project_row_acct [OF assms, of k] by (simp del: map_option_is_None)
    then show ?thesis by (simp only: map_option_is_None)
  qed
  then show ?thesis unfolding dom_def by auto
qed

lemma project_rows_dom:
  "project_rows rp rs d = Inr d' \<Longrightarrow> dom (dict_get d') = dom (dict_get d) \<union> er_task ` set rs"
proof (induction rs arbitrary: d)
  case (Cons r rs)
  then obtain d1 where d1: "project_row rp r d = Inr d1" "project_rows rp rs d1 = Inr d'"
    by (auto split: sum.splits)
  show ?case unfolding Cons.IH [OF d1(2)] project_row_dom [OF d1(1)] by simp
qed simp

section \<open>Resolving the children\<close>

lemma dom_register [simp]: "dom (dict_get (register_child tid d)) = dom (dict_get d)"
  by (auto simp: register_child_def dom_def split: option.splits)

lemma register_child_keeps:
  "dict_get d p = Some n \<Longrightarrow> c \<in> set (tn_children n) \<Longrightarrow>
   \<exists>n'. dict_get (register_child tid d) p = Some n' \<and> c \<in> set (tn_children n')"
  by (auto simp: register_child_def split: option.splits)

lemma register_child_adds:
  "dict_get d c = Some n \<Longrightarrow> tn_parent n = Some p \<Longrightarrow> dict_get d p \<noteq> None \<Longrightarrow>
   \<exists>pn. dict_get (register_child c d) p = Some pn \<and> c \<in> set (tn_children pn)"
  by (auto simp: register_child_def split: option.splits)

definition is_linked :: "uuid \<Rightarrow> dag \<Rightarrow> bool" where
  "is_linked c d \<longleftrightarrow>
     (\<forall>n p. dict_get d c = Some n \<longrightarrow> tn_parent n = Some p \<longrightarrow> dict_get d p \<noteq> None \<longrightarrow>
        (\<exists>pn. dict_get d p = Some pn \<and> c \<in> set (tn_children pn)))"

lemma register_child_parent_of:
  "dict_get (register_child tid d) c = Some n \<Longrightarrow> \<exists>n0. dict_get d c = Some n0 \<and> tn_parent n0 = tn_parent n"
  using register_child_parents [of tid d c] by (cases "dict_get d c") auto

lemma is_linked_self: "is_linked c (register_child c d)"
  unfolding is_linked_def using register_child_adds [of d c] register_child_parent_of [of c d c] dom_register [of c d]
  by (metis domIff)

lemma is_linked_register: "is_linked c d \<Longrightarrow> is_linked c (register_child tid d)"
  unfolding is_linked_def using register_child_keeps [of d] register_child_parent_of [of tid d c] dom_register [of tid d]
  by (metis domIff)

lemma fold_register:
  "dom (dict_get (fold register_child ks d)) = dom (dict_get d)"
  "dag_wf d \<Longrightarrow> dag_wf (fold register_child ks d)"
  "map_option row_acct (dict_get (fold register_child ks d) k) = map_option row_acct (dict_get d k)"
  "map_option tn_parent (dict_get (fold register_child ks d) k) = map_option tn_parent (dict_get d k)"
  by (induction ks arbitrary: d) (simp_all add: dag_wf_register register_child_acct register_child_parents)

lemma fold_register_linked:
  "c \<in> set ks \<or> is_linked c d \<Longrightarrow> is_linked c (fold register_child ks d)"
  by (induction ks arbitrary: d) (auto simp: is_linked_self is_linked_register)

lemma resolve_children_linked: "is_linked c (resolve_children d)"
proof (cases "c \<in> set (dict_keys d)")
  case False
  then have "dict_get d c = None" by (simp add: dict_get_None)
  then have "dict_get (resolve_children d) c = None"
    using fold_register(1) [of "dict_keys d" d] unfolding resolve_children_def by (metis domIff)
  then show ?thesis by (simp add: is_linked_def)
qed (simp add: resolve_children_def fold_register_linked)

section \<open>Costs and materialisation\<close>

definition rows_of :: "uuid \<Rightarrow> event_row list \<Rightarrow> event_row list" where
  "rows_of k rs = filter (\<lambda>r. er_task r = k) rs"

definition acct_after :: "uuid \<Rightarrow> event_row list \<Rightarrow> (uuid \<times> real \<times> uuid list) option \<Rightarrow> (uuid \<times> real \<times> uuid list) option" where
  "acct_after k rs a =
     (if rows_of k rs = [] then a
      else case a of
        None \<Rightarrow> Some (k, sum_list (map er_cost (rows_of k rs)), map er_id (rows_of k rs))
      | Some (i, c, es) \<Rightarrow> Some (i, c + sum_list (map er_cost (rows_of k rs)), es @ map er_id (rows_of k rs)))"

lemma acct_after_Cons: "acct_after k (r # rs) a = acct_after k rs (acct_after k [r] a)"
  by (cases a) (simp_all add: acct_after_def rows_of_def split_def add.assoc)

lemma project_row_acct_after:
  assumes "project_row rp r d = Inr d'"
  shows "map_option row_acct (dict_get d' k) = acct_after k [r] (map_option row_acct (dict_get d k))"
  unfolding project_row_acct [OF assms]
  by (cases "k = er_task r"; cases "dict_get d k") (auto simp: acct_after_def rows_of_def row_acct_def)

lemma project_rows_acct:
  "project_rows rp rs d = Inr d' \<Longrightarrow>
   map_option row_acct (dict_get d' k) = acct_after k rs (map_option row_acct (dict_get d k))"
proof (induction rs arbitrary: d)
  case (Cons r rs)
  then obtain d1 where d1: "project_row rp r d = Inr d1" "project_rows rp rs d1 = Inr d'"
    by (auto split: sum.splits)
  show ?case
    unfolding Cons.IH [OF d1(2)] project_row_acct_after [OF d1(1)] by (rule acct_after_Cons [symmetric])
qed (simp add: acct_after_def rows_of_def)

lemma project_task_dag_rows:
  assumes "project_task_dag rp D = Inr d"
  obtains d0 where "project_rows rp (fetch_rows rp D) [] = Inr d0" "d = resolve_children d0"
  using assms by (cases "project_rows rp (fetch_rows rp D) []") (auto simp: project_task_dag_def)

lemma project_task_dag_wf:
  assumes "project_task_dag rp D = Inr d"
  shows "dag_wf d" "dom (dict_get d) = er_task ` set (fetch_rows rp D)"
    "map_option row_acct (dict_get d k) = acct_after k (fetch_rows rp D) None"
proof -
  obtain d0 where d0: "project_rows rp (fetch_rows rp D) [] = Inr d0" "d = resolve_children d0"
    using assms by (rule project_task_dag_rows)
  have "dag_wf []" by (simp add: dag_wf_def)
  from dag_wf_project_rows [OF this d0(1)] show "dag_wf d"
    unfolding d0(2) resolve_children_def by (rule fold_register(2))
  show "dom (dict_get d) = er_task ` set (fetch_rows rp D)"
    using project_rows_dom [OF d0(1)] unfolding d0(2) resolve_children_def fold_register(1) by simp
  show "map_option row_acct (dict_get d k) = acct_after k (fetch_rows rp D) None"
    using project_rows_acct [OF d0(1), of k] unfolding d0(2) resolve_children_def fold_register(3) by simp
qed

lemma fold_upsert:
  assumes "wf_dict d" "\<And>k n. (k, n) \<in> set d \<Longrightarrow> tn_id n = k \<and> T k \<noteq> None"
  shows "fold (upsert_task now) (dict_values d) T k =
    (case dict_get d k of
       None \<Rightarrow> T k
     | Some n \<Rightarrow> Some ((the (T k))\<lparr>tk_status := status_value (tn_status n), tk_gateway := tn_gateway n,
                          tk_spent := tn_spent n, tk_updated := now\<rparr>))"
  using assms
proof (induction d arbitrary: T)
  case (Cons e d)
  obtain i n where e: "e = (i, n)" by (cases e)
  have n: "tn_id n = i" "T i \<noteq> None" using Cons.prems(2) [of i n] by (simp_all add: e)
  have wf: "dict_get d i = None" "wf_dict d" using Cons.prems(1) by (simp_all add: e wf_dict_Cons)
  obtain row where row: "T i = Some row" using n(2) by auto
  have T1: "upsert_task now n T = T(i \<mapsto> row\<lparr>tk_status := status_value (tn_status n), tk_gateway := tn_gateway n,
      tk_spent := tn_spent n, tk_updated := now\<rparr>)"
    by (simp add: upsert_task_def n row)
  have "fold (upsert_task now) (dict_values d) (upsert_task now n T) k =
    (case dict_get d k of
       None \<Rightarrow> upsert_task now n T k
     | Some n' \<Rightarrow> Some ((the (upsert_task now n T k))\<lparr>tk_status := status_value (tn_status n'), tk_gateway := tn_gateway n',
                          tk_spent := tn_spent n', tk_updated := now\<rparr>))"
  proof (rule Cons.IH [OF wf(2)])
    fix k n' assume "(k, n') \<in> set d"
    then have "tn_id n' = k" "T k \<noteq> None" using Cons.prems(2) [of k n'] by simp_all
    then show "tn_id n' = k \<and> upsert_task now n T k \<noteq> None" unfolding T1 by simp
  qed
  then show ?case using wf(1) row by (auto simp: e T1 split: option.split)
qed simp

lemma fetched_in_tasks: "r \<in> set (fetch_rows rp D) \<Longrightarrow> \<exists>t. db_tasks D (er_task r) = Some t \<and> tk_root t = rp"
  by (auto simp: fetch_rows_def split: option.splits)

lemma materialize_lookup:
  assumes "project_task_dag rp D = Inr d"
  shows "materialize_tasks now rp D = Inr (D\<lparr>db_tasks := (\<lambda>k. case dict_get d k of
       None \<Rightarrow> db_tasks D k
     | Some n \<Rightarrow> Some ((the (db_tasks D k))\<lparr>tk_status := status_value (tn_status n), tk_gateway := tn_gateway n,
                          tk_spent := tn_spent n, tk_updated := now\<rparr>))\<rparr>)"
proof -
  note wf = project_task_dag_wf(1,2) [OF assms]
  have "tn_id n = k \<and> db_tasks D k \<noteq> None" if "(k, n) \<in> set d" for k n
  proof -
    have g: "dict_get d k = Some n" using wf(1) that by (simp add: dag_wf_def wf_dict_def)
    then have "k \<in> dom (dict_get d)" by blast
    then obtain r where "r \<in> set (fetch_rows rp D)" "er_task r = k" unfolding wf(2) by auto
    with fetched_in_tasks [of r rp D] g wf(1) show ?thesis by (auto simp: dag_wf_def)
  qed
  moreover have "wf_dict d" using wf(1) by (simp add: dag_wf_def)
  ultimately have "fold (upsert_task now) (dict_values d) (db_tasks D) = (\<lambda>k. case dict_get d k of
       None \<Rightarrow> db_tasks D k
     | Some n \<Rightarrow> Some ((the (db_tasks D k))\<lparr>tk_status := status_value (tn_status n), tk_gateway := tn_gateway n,
                          tk_spent := tn_spent n, tk_updated := now\<rparr>))"
    by (intro ext fold_upsert) auto
  with assms show ?thesis by (simp add: materialize_tasks_def)
qed

section \<open>Properties of the projection\<close>

text \<open>
  A projected DAG has exactly the tasks with fetched events, each under its own id;
  its child links are complete (a node whose parent is in the DAG is among the parent's
  children, in whatever order the two were drafted), distinct and inside the DAG; and each
  node's cost and events are those of its rows.
\<close>
theorem projection_links_and_costs:
  assumes "project_task_dag rp D = Inr d"
  shows "dag_wf d \<and> (\<forall>c. is_linked c d) \<and> dom (dict_get d) = er_task ` set (fetch_rows rp D) \<and>
    (\<forall>k n. dict_get d k = Some n \<longrightarrow> tn_spent n = sum_list (map er_cost (rows_of k (fetch_rows rp D))) \<and>
       tn_events n = map er_id (rows_of k (fetch_rows rp D)))"
proof -
  obtain d0 where "d = resolve_children d0" using assms by (rule project_task_dag_rows)
  then have linked: "\<forall>c. is_linked c d" using resolve_children_linked by simp
  have "tn_spent n = sum_list (map er_cost (rows_of k (fetch_rows rp D))) \<and>
       tn_events n = map er_id (rows_of k (fetch_rows rp D))" if "dict_get d k = Some n" for k n
    using project_task_dag_wf(3) [OF assms, of k] that by (auto simp: acct_after_def row_acct_def split: if_splits)
  with project_task_dag_wf [OF assms] linked show ?thesis by blast
qed

definition demo_task_row :: "uuid \<Rightarrow> task_row" where
  "demo_task_row t = \<lparr>tk_id = t, tk_root = ''r'', tk_parent = None, tk_title = ''stale'', tk_status = ''pending'',
     tk_gateway = None, tk_budget = 0, tk_spent = 0, tk_created = None, tk_updated = 0\<rparr>"

definition demo_row :: "uuid \<Rightarrow> event_type \<Rightarrow> time \<Rightarrow> event_row" where
  "demo_row t et ts = \<lparr>er_id = t @ event_value et, er_time = ts, er_task = t, er_gateway = ''g'', er_type = event_value et,
     er_payload = [(''title'', JStr ''fresh'')], er_cost = 3\<rparr>"

definition demo_db :: db where
  "demo_db = \<lparr>db_events = [demo_row ''t'' TASK_COMPLETED 9, demo_row ''t'' TASK_DRAFTED 1, demo_row ''u'' TASK_DRAFTED 2],
     db_tasks = [''t'' \<mapsto> demo_task_row ''t'']\<rparr>"

lemma demo_dag: "project_task_dag ''r'' demo_db = Inr [(''t'', (new_task_node ''t'' ''r'' ''fresh'' 1)
    \<lparr>tn_status := COMPLETED, tn_completed := Some 9, tn_spent := 6, tn_events := [''ttask_drafted'', ''ttask_completed'']\<rparr>)]"
  by (simp add: project_task_dag_def fetch_rows_def demo_db_def demo_row_def demo_task_row_def project_row_def Let_def
      apply_row_def parse_parent_def opt_str_field_def str_field_def num_field_def new_task_node_def register_child_def
      resolve_children_def)

theorem projection_links_and_costs_witness:
  "\<exists>d. project_task_dag ''r'' demo_db = Inr d \<and> dag_wf d \<and> (\<forall>c. is_linked c d) \<and>
    dom (dict_get d) = er_task ` set (fetch_rows ''r'' demo_db) \<and>
    (\<forall>k n. dict_get d k = Some n \<longrightarrow> tn_spent n = sum_list (map er_cost (rows_of k (fetch_rows ''r'' demo_db))) \<and>
       tn_events n = map er_id (rows_of k (fetch_rows ''r'' demo_db)))"
  using projection_links_and_costs [OF demo_dag] demo_dag by blast

text \<open>
  Materialising the DAG writes status, gateway and cost of the projected nodes into
  their rows, but recovers nothing else: it creates no row (the events of a task without a
  row are not fetched), and every row keeps its title, parent, root, budget and creation time.
\<close>
theorem materialize_recovers_no_row:
  assumes "materialize_tasks now rp D = Inr D'"
  shows "db_events D' = db_events D \<and> dom (db_tasks D') = dom (db_tasks D) \<and>
    (\<forall>k row. db_tasks D k = Some row \<longrightarrow> (\<exists>row'. db_tasks D' k = Some row' \<and> tk_title row' = tk_title row \<and>
       tk_parent row' = tk_parent row \<and> tk_root row' = tk_root row \<and> tk_budget row' = tk_budget row \<and>
       tk_created row' = tk_created row \<and>
       (\<forall>d n. project_task_dag rp D = Inr d \<longrightarrow> dict_get d k = Some n \<longrightarrow>
          tk_status row' = status_value (tn_status n) \<and> tk_gateway row' = tn_gateway n \<and> tk_spent row' = tn_spent n)))"
proof -
  obtain d where d: "project_task_dag rp D = Inr d"
    using assms by (cases "project_task_dag rp D") (auto simp: materialize_tasks_def)
  have sub: "db_tasks D k \<noteq> None" if "dict_get d k \<noteq> None" for k
  proof -
    from that have "k \<in> dom (dict_get d)" by (simp add: domIff)
    then obtain r where "r \<in> set (fetch_rows rp D)" "k = er_task r"
      unfolding project_task_dag_wf(2) [OF d] by auto
    with fetched_in_tasks [of r rp D] show ?thesis by auto
  qed
  have D': "db_events D' = db_events D" "db_tasks D' = (\<lambda>k. case dict_get d k of
       None \<Rightarrow> db_tasks D k
     | Some n \<Rightarrow> Some ((the (db_tasks D k))\<lparr>tk_status := status_value (tn_status n), tk_gateway := tn_gateway n,
                          tk_spent := tn_spent n, tk_updated := now\<rparr>))"
    using materialize_lookup [OF d, of now] assms by auto
  have "dom (db_tasks D') = dom (db_tasks D)"
    using sub by (auto simp: D' dom_def split: option.splits)
  then show ?thesis using d by (simp add: D' split: option.split)
qed

theorem materialize_recovers_no_row_witness:
  "\<exists>D'. materialize_tasks 10 ''r'' demo_db = Inr D' \<and> db_events D' = db_events demo_db \<and>
    dom (db_tasks D') = dom (db_tasks demo_db) \<and>
    (\<forall>k row. db_tasks demo_db k = Some row \<longrightarrow> (\<exists>row'. db_tasks D' k = Some row' \<and> tk_title row' = tk_title row \<and>
       tk_parent row' = tk_parent row \<and> tk_root row' = tk_root row \<and> tk_budget row' = tk_budget row \<and>
       tk_created row' = tk_created row \<and>
       (\<forall>d n. project_task_dag ''r'' demo_db = Inr d \<longrightarrow> dict_get d k = Some n \<longrightarrow>
          tk_status row' = status_value (tn_status n) \<and> tk_gateway row' = tn_gateway n \<and> tk_spent row' = tn_spent n)))"
  using materialize_recovers_no_row [OF materialize_lookup [OF demo_dag]] materialize_lookup [OF demo_dag] by blast

end
