(* ===== verification/Projection_Agreement.thy ===== *)
theory Projection_Agreement imports Bridge_Ledger Dag_Projection begin

text \<open>
  The two projections of the event stream compared: the bridge's in-memory ledger
  (\<open>Bridge_Ledger\<close>) and the projection from the database (\<open>Dag_Projection\<close>).
  \<open>raw_of_row\<close> is the bridge's message for a row of the events table.
\<close>

definition raw_of_row :: "event_row \<Rightarrow> payload" where
  "raw_of_row r = [(''event_id'', JStr (er_id r)), (''event_type'', JStr (er_type r)), (''task_id'', JStr (er_task r)),
     (''source_gateway'', JStr (er_gateway r)), (''timestamp'', JStr ''t''), (''payload'', JObj (er_payload r)),
     (''compute_cost'', JReal (er_cost r))]"

lemma raw_of_row_fields [simp]:
  "raw_event_id (raw_of_row r) = er_id r" "raw_type (raw_of_row r) = er_type r"
  "raw_task_id (raw_of_row r) = er_task r" "raw_payload (raw_of_row r) = er_payload r"
  "raw_cost (raw_of_row r) = er_cost r"
  by (simp_all add: raw_of_row_def raw_event_id_def raw_type_def raw_task_id_def raw_payload_def raw_cost_def
      str_field_def obj_field_def num_field_def)

definition task_view :: "mem_task \<Rightarrow> string \<times> real \<times> string list" where
  "task_view t = (mt_status t, mt_spent t, mt_events t)"

definition node_view :: "task_node \<Rightarrow> string \<times> real \<times> string list" where
  "node_view n = (status_value (tn_status n), tn_spent n, tn_events n)"

definition agree :: "dag \<Rightarrow> (string, mem_task) dict \<Rightarrow> bool" where
  "agree d ts \<longleftrightarrow> (\<forall>k. map_option node_view (dict_get d k) = map_option task_view (dict_get ts k))"

lemma link_parent_view: "map_option task_view (dict_get (link_parent tid ts) k) = map_option task_view (dict_get ts k)"
  by (simp add: link_parent_def task_view_def split: option.split)

lemma register_child_view: "map_option node_view (dict_get (register_child tid d) k) = map_option node_view (dict_get d k)"
  by (simp add: register_child_def node_view_def split: option.split)

lemma fold_register_view:
  "map_option node_view (dict_get (fold register_child ks d) k) = map_option node_view (dict_get d k)"
  by (induction ks arbitrary: d) (simp_all add: register_child_view)

text \<open>The two event interpreters assign the same status.\<close>

lemma apply_status:
  assumes "apply_row r n = Inr n'" "mt_status t = status_value (tn_status n)"
  shows "mt_status (apply_event (er_type r) p src ts t) = status_value (tn_status n')"
  using assms
  by (cases "parse_parent (er_payload r)"; simp add: apply_row_def apply_event_def Let_def split: if_splits; clarsimp)

lemma agree_step:
  assumes ag: "agree d ts" and step: "project_row rp r d = Inr d'" and no_halt: "er_type r \<noteq> event_value SYSTEM_HALT"
  shows "agree d' (process_task_event now (raw_of_row r) ts)"
proof -
  obtain n2 where n2: "apply_row r ((initial_node rp r d)\<lparr>tn_events := tn_events (initial_node rp r d) @ [er_id r],
      tn_spent := tn_spent (initial_node rp r d) + er_cost r\<rparr>) = Inr n2"
    and d': "d' = (if er_type r = event_value TASK_DRAFTED then register_child (er_task r) (dict_set (er_task r) n2 d)
               else dict_set (er_task r) n2 d)"
    using step by (rule project_row_cases)
  let ?s = "str_field (raw_of_row r) ''timestamp'' now" and ?src = "str_field (raw_of_row r) ''source_gateway'' ''unknown''"
  let ?t = "case dict_get ts (er_task r) of None \<Rightarrow> new_mem_task (er_task r) ?s | Some t \<Rightarrow> t"
  let ?t2 = "apply_event (er_type r) (er_payload r) ?src ?s
     (?t\<lparr>mt_events := mt_events ?t @ [er_id r], mt_spent := mt_spent ?t + er_cost r, mt_updated := Some ?s\<rparr>)"
  have same: "node_view (initial_node rp r d) = task_view ?t"
    using ag [unfolded agree_def, rule_format, of "er_task r"]
    by (auto simp: initial_node_def new_task_node_def new_mem_task_def node_view_def task_view_def split: option.splits)
  have "node_view n2 = task_view ?t2"
    using same apply_status [OF n2, of "?t\<lparr>mt_events := mt_events ?t @ [er_id r], mt_spent := mt_spent ?t + er_cost r,
        mt_updated := Some ?s\<rparr>" "er_payload r" ?src ?s] apply_row_frame [OF n2]
    by (simp add: node_view_def task_view_def)
  then have new: "map_option node_view (dict_get (dict_set (er_task r) n2 d) k) =
      map_option task_view (dict_get (dict_set (er_task r) ?t2 ts) k)" for k
    using ag by (simp add: agree_def)
  have dag: "map_option node_view (dict_get d' k) = map_option node_view (dict_get (dict_set (er_task r) n2 d) k)" for k
    unfolding d' by (cases "er_type r = event_value TASK_DRAFTED") (simp_all only: register_child_view simp_thms if_True if_False)
  have led: "map_option task_view (dict_get (process_task_event now (raw_of_row r) ts) k) =
      map_option task_view (dict_get (dict_set (er_task r) ?t2 ts) k)" for k
    using no_halt unfolding process_task_event_def Let_def raw_of_row_fields
    by (cases "er_type r = ''task_drafted''") (simp_all only: link_parent_view simp_thms if_True if_False event_value.simps)
  show ?thesis
    unfolding agree_def by (intro allI, rule trans [OF dag], rule trans [OF new], rule led [symmetric])
qed

lemma agree_rows:
  assumes "project_rows rp rs d = Inr d'" "agree d (l_tasks L)"
    and "\<forall>r \<in> set rs. er_task r \<noteq> [] \<and> er_type r \<noteq> event_value SYSTEM_HALT"
  shows "agree d' (l_tasks (process_events (map (\<lambda>r. (now, raw_of_row r)) rs) L))"
  using assms
proof (induction rs arbitrary: d L)
  case (Cons r rs)
  then obtain d1 where d1: "project_row rp r d = Inr d1" "project_rows rp rs d1 = Inr d'"
    by (auto split: sum.splits)
  have "agree d1 (process_task_event now (raw_of_row r) (l_tasks L))"
    using Cons.prems by (intro agree_step [OF _ d1(1)]) simp_all
  then have "agree d1 (l_tasks (snd (process_event now (raw_of_row r) L)))"
    using Cons.prems(3) by (simp add: l_tasks_process_event)
  from Cons.IH [OF d1(2) this] Cons.prems(3) show ?case by simp
qed simp

text \<open>
  (C7) The bridge ledger and the database projection agree: replaying the fetched rows of
  a root prompt, none of them a halt, both have the same tasks with the same status, cost
  and event list.
\<close>
theorem projections_agree:
  assumes "project_task_dag rp D = Inr d"
    and "\<forall>r \<in> set (fetch_rows rp D). er_task r \<noteq> [] \<and> er_type r \<noteq> event_value SYSTEM_HALT"
  shows "\<forall>k. map_option node_view (dict_get d k) = map_option task_view
    (dict_get (l_tasks (process_events (map (\<lambda>r. (now, raw_of_row r)) (fetch_rows rp D)) (ledger_init m))) k)"
proof -
  obtain d0 where d0: "project_rows rp (fetch_rows rp D) [] = Inr d0" "d = resolve_children d0"
    using assms(1) by (rule project_task_dag_rows)
  have "agree [] (l_tasks (ledger_init m))" by (simp add: agree_def ledger_init_def)
  from agree_rows [OF d0(1) this assms(2)]
  have "agree d0 (l_tasks (process_events (map (\<lambda>r. (now, raw_of_row r)) (fetch_rows rp D)) (ledger_init m)))" .
  then show ?thesis by (simp add: agree_def d0(2) resolve_children_def fold_register_view)
qed

theorem projections_agree_witness:
  "\<exists>d. project_task_dag ''r'' demo_db = Inr d \<and> (\<forall>k. map_option node_view (dict_get d k) = map_option task_view
    (dict_get (l_tasks (process_events (map (\<lambda>r. (''now'', raw_of_row r)) (fetch_rows ''r'' demo_db)) (ledger_init 5))) k))"
proof -
  have "\<forall>r \<in> set (fetch_rows ''r'' demo_db). er_task r \<noteq> [] \<and> er_type r \<noteq> event_value SYSTEM_HALT"
    by (simp add: fetch_rows_def demo_db_def demo_row_def demo_task_row_def)
  from projections_agree [OF demo_dag this, of "''now''" 5] demo_dag show ?thesis by blast
qed

end
