(* ===== verification/Storage_Base.thy ===== *)
theory Storage_Base imports Prelude begin

text \<open>
  The shared records of \<open>memu/storage/base.py\<close>: nodes, links, search hits, the
  normalisation behind the content hash, the frontmatter of a node and its effective time.
  The hash function is a parameter (\<open>hashlib.sha256\<close>, without the hexadecimal coding). In the
  frontmatter an instant stands for its ISO text, as the JSON integer of its microseconds.
\<close>

section \<open>Nodes and links\<close>

record link_record =
  lk_src_slug :: string
  lk_dst_slug :: string
  lk_type :: string
  lk_strength :: real
  lk_src_id :: "string option"
  lk_dst_id :: "string option"

record wiki_node =
  nd_id :: string
  nd_slug :: string
  nd_kind :: string
  nd_title :: string
  nd_body :: string
  nd_tags :: "string list"
  nd_links :: "link_record list"
  nd_metadata :: payload
  nd_created :: "time option"
  nd_updated :: "time option"
  nd_happened :: "time option"
  nd_salience :: real
  nd_confidence :: real
  nd_agent :: string
  nd_type :: string
  nd_source :: "payload option"
  nd_extra :: payload
  nd_reinforced :: int
  nd_last_reinforced :: "time option"

record search_hit =
  sh_node :: wiki_node
  sh_score :: real
  sh_reason :: string

definition effective_time :: "wiki_node \<Rightarrow> time option" where
  "effective_time n = (case nd_happened n of Some t \<Rightarrow> Some t | None \<Rightarrow> nd_created n)"

section \<open>Content hash\<close>

text \<open>\<open>re.sub\<close> of each run of white space by one blank.\<close>

function sub_ws :: "string \<Rightarrow> string" where
  "sub_ws [] = []"
| "sub_ws (c # cs) = (if is_space c then CHR '' '' # sub_ws (dropWhile is_space cs) else c # sub_ws cs)"
  by pat_completeness auto
termination by (relation "measure length") (auto simp: le_imp_less_Suc length_dropWhile_le)

definition normalize_for_hash :: "string \<Rightarrow> string" where
  "normalize_for_hash text = lower (strip (sub_ws (replace_all [CHR 0x0D, CHR 0x0A] [CHR 0x0A] text)))"

definition content_hash :: "(string \<Rightarrow> 'h) \<Rightarrow> wiki_node \<Rightarrow> 'h" where
  "content_hash H n = H (normalize_for_hash (nd_title n) @ [CHR 0x00] @ normalize_for_hash (nd_body n))"

section \<open>Frontmatter of a node\<close>

definition link_frontmatter :: "link_record \<Rightarrow> json" where
  "link_frontmatter l = JObj [(''slug'', JStr (lk_dst_slug l)), (''type'', JStr (lk_type l)), (''strength'', JReal (lk_strength l))]"

definition opt_entry :: "string \<Rightarrow> time option \<Rightarrow> payload" where
  "opt_entry k t = (case t of None \<Rightarrow> [] | Some t \<Rightarrow> [(k, JInt t)])"

definition to_frontmatter :: "wiki_node \<Rightarrow> payload" where
  "to_frontmatter n =
     [(''id'', JStr (nd_id n)), (''slug'', JStr (nd_slug n)), (''kind'', JStr (nd_kind n)),
      (''title'', JStr (nd_title n)), (''tags'', JList (map JStr (nd_tags n)))]
     @ opt_entry ''created'' (nd_created n) @ opt_entry ''updated'' (nd_updated n)
     @ opt_entry ''happened_at'' (nd_happened n)
     @ [(''agent_id'', JStr (nd_agent n)), (''memory_type'', JStr (nd_type n)),
        (''salience'', JReal (nd_salience n)), (''confidence'', JReal (nd_confidence n))]
     @ (if nd_links n = [] then [] else [(''links'', JList (map link_frontmatter (nd_links n)))])
     @ (case nd_source n of Some (e # es) \<Rightarrow> [(''source'', JObj (e # es))] | _ \<Rightarrow> [])
     @ (if nd_metadata n = [] then [] else [(''metadata'', JObj (nd_metadata n))])
     @ (if nd_extra n = [] then [] else [(''extra'', JObj (nd_extra n))])
     @ (if nd_reinforced n = 0 then [] else [(''reinforcement_count'', JInt (nd_reinforced n))])
     @ opt_entry ''last_reinforced_at'' (nd_last_reinforced n)"

section \<open>Normalisation keeps exactly the words\<close>

text \<open>The reference: \<open>str.split()\<close> followed by \<open>' '.join\<close>.\<close>

function words :: "string \<Rightarrow> string list" where
  "words s = (case dropWhile is_space s of [] \<Rightarrow> []
     | c # cs \<Rightarrow> takeWhile (\<lambda>x. \<not> is_space x) (c # cs) # words (dropWhile (\<lambda>x. \<not> is_space x) (c # cs)))"
  by auto
termination
proof (relation "measure length")
  fix s c cs assume s: "dropWhile is_space s = c # cs"
  then have "\<not> is_space c" using hd_dropWhile [of is_space s] by (simp add: dropWhile_eq_Nil_conv [symmetric])
  then have "length (dropWhile (\<lambda>x. \<not> is_space x) (c # cs)) < length (c # cs)"
    by (simp add: le_imp_less_Suc length_dropWhile_le)
  also have "length (c # cs) \<le> length s" using length_dropWhile_le [of is_space s] s by simp
  finally show "(dropWhile (\<lambda>x. \<not> is_space x) (c # cs), s) \<in> measure length" by simp
qed simp

declare words.simps [simp del]

fun join_words :: "string list \<Rightarrow> string" where
  "join_words [] = []"
| "join_words [w] = w"
| "join_words (w # ws) = w @ CHR '' '' # join_words ws"

definition word_ok :: "string \<Rightarrow> bool" where
  "word_ok w \<longleftrightarrow> w \<noteq> [] \<and> list_all (\<lambda>c. \<not> is_space c) w"

lemma words_ok: "w \<in> set (words s) \<Longrightarrow> word_ok w"
proof (induction s rule: words.induct)
  case (1 s)
  show ?case
  proof (cases "dropWhile is_space s")
    case (Cons c cs)
    then have "\<not> is_space c" using hd_dropWhile [of is_space s] by (simp add: dropWhile_eq_Nil_conv [symmetric])
    moreover have "list_all (\<lambda>x. \<not> is_space x) (takeWhile (\<lambda>x. \<not> is_space x) xs)" for xs
      by (induction xs) auto
    ultimately show ?thesis using 1 Cons by (subst (asm) (2) words.simps) (auto simp: word_ok_def)
  next
    case Nil
    then have "words s = []" by (subst words.simps) (simp only: list.case)
    then show ?thesis using 1(2) by simp
  qed
qed

lemma is_space_blank [simp]: "is_space (CHR '' '')"
  by (simp add: is_space_def)

lemma words_space: "is_space c \<Longrightarrow> words (c # s) = words s"
  by (subst (1 2) words.simps) simp

lemma words_dropWhile: "words (dropWhile is_space s) = words s"
  by (induction s) (simp_all add: words_space)

lemma words_Nil [simp]: "words [] = []"
  by (simp add: words.simps)

lemma words_Cons_Cons:
  assumes "\<not> is_space c" "\<not> is_space d"
  shows "words (c # d # s) = (c # hd (words (d # s))) # tl (words (d # s))"
  using assms by (subst (1 2 3) words.simps) simp

lemma words_Cons_space:
  assumes "\<not> is_space c" "is_space d"
  shows "words (c # d # s) = [c] # words s"
  using assms words_space [of d s] by (subst (1) words.simps) simp

lemma words_single [simp]: "\<not> is_space c \<Longrightarrow> words [c] = [[c]]"
  by (simp add: words.simps [of "[c]"])

text \<open>The blanks that may surround the joined words after \<open>sub_ws\<close>.\<close>

lemma words_nonempty: "\<not> is_space c \<Longrightarrow> words (c # s) \<noteq> []"
  by (simp add: words.simps [of "c # s"])

lemma join_words_Cons: "join_words (w # ws) = w @ (if ws = [] then [] else CHR '' '' # join_words ws)"
  by (cases ws) auto

lemma sub_ws_form:
  "\<exists>b. sub_ws s = (if s \<noteq> [] \<and> is_space (hd s) then CHR '' '' # b else b) \<and>
       (b = join_words (words s) \<or> (b = join_words (words s) @ [CHR '' ''] \<and> words s \<noteq> []))"
proof (induction s rule: sub_ws.induct)
  case (2 c cs)
  show ?case
  proof (cases "is_space c")
    case True
    let ?d = "dropWhile is_space cs"
    have "\<not> (?d \<noteq> [] \<and> is_space (hd ?d))" using hd_dropWhile [of is_space cs] by (auto simp: dropWhile_eq_Nil_conv)
    then show ?thesis using 2(1) [OF True] True by (auto simp: words_space words_dropWhile)
  next
    case False
    from 2(2) [OF False] obtain b where b: "sub_ws cs = (if cs \<noteq> [] \<and> is_space (hd cs) then CHR '' '' # b else b)"
      "b = join_words (words cs) \<or> (b = join_words (words cs) @ [CHR '' ''] \<and> words cs \<noteq> [])" by blast
    show ?thesis
    proof (cases cs)
      case Nil
      then show ?thesis using False b by simp
    next
      case (Cons d ds)
      show ?thesis
      proof (cases "is_space d")
        case True
        then have "words (c # cs) = [c] # words cs"
          using False Cons words_Cons_space words_space by simp
        then show ?thesis using False True Cons b
          by (cases "words cs = []") (auto simp: join_words_Cons)
      next
        case nd: False
        obtain w ws where w: "words cs = w # ws" using words_nonempty [OF nd, of ds] Cons by (cases "words cs") auto
        then have "words (c # cs) = (c # w) # ws" using words_Cons_Cons [OF False nd, of ds] Cons by simp
        then show ?thesis using False nd Cons b w by (auto simp: join_words_Cons)
      qed
    qed
  qed
qed simp

lemma join_words_ends:
  assumes "\<And>w. w \<in> set ws \<Longrightarrow> word_ok w" "ws \<noteq> []"
  shows "join_words ws \<noteq> [] \<and> \<not> is_space (hd (join_words ws)) \<and> \<not> is_space (last (join_words ws))"
  using assms
proof (induction ws)
  case (Cons w ws)
  have "w \<noteq> []" "\<not> is_space (hd w)" "\<not> is_space (last w)"
    using Cons.prems(1) [of w] by (auto simp: word_ok_def list_all_iff)
  with Cons show ?case by (auto simp: join_words_Cons)
qed simp

lemma strip_id:
  assumes "s \<noteq> []" "\<not> is_space (hd s)" "\<not> is_space (last s)"
  shows "strip s = s"
proof -
  have "dropWhile is_space s = s" "dropWhile is_space (rev s) = rev s"
    using assms by (simp_all add: dropWhile_eq_self_iff hd_rev)
  then show ?thesis by (simp add: strip_def)
qed

lemma strip_Cons_blank: "strip (CHR '' '' # s) = strip s"
  by (simp add: strip_def)

lemma strip_snoc_blank: "s \<noteq> [] \<Longrightarrow> \<not> is_space (hd s) \<Longrightarrow> strip (s @ [CHR '' '']) = strip s"
  by (cases s) (simp_all add: strip_def)

lemma strip_sub_ws: "strip (sub_ws s) = join_words (words s)"
proof -
  let ?j = "join_words (words s)"
  obtain b where b: "sub_ws s = (if s \<noteq> [] \<and> is_space (hd s) then CHR '' '' # b else b)"
    "b = ?j \<or> (b = ?j @ [CHR '' ''] \<and> words s \<noteq> [])" using sub_ws_form by blast
  have j: "words s \<noteq> [] \<Longrightarrow> ?j \<noteq> [] \<and> \<not> is_space (hd ?j) \<and> strip ?j = ?j"
    using join_words_ends [of "words s"] words_ok [of _ s] strip_id [of ?j] by metis
  have "strip b = ?j"
  proof (cases "words s = []")
    case True
    then show ?thesis using b(2) by (simp add: strip_def)
  next
    case False
    then show ?thesis using b(2) j strip_snoc_blank by auto
  qed
  then show ?thesis using b(1) by (simp add: strip_Cons_blank)
qed

lemma is_prefix_Cons: "is_prefix [a, b] (c # cs) \<longleftrightarrow> c = a \<and> cs \<noteq> [] \<and> hd cs = b"
  by (cases cs) (auto simp: is_prefix_def)

text \<open>Dropping the carriage returns before line feeds moves no word boundary.\<close>

lemma words_append_hd:
  "is_space c \<Longrightarrow> \<not> is_space d \<Longrightarrow> words (d # c # s) = [d] # words s"
  by (simp add: words_Cons_space)

lemma words_Cons_cong: "words s = words t \<Longrightarrow> (s = [] \<or> is_space (hd s)) = (t = [] \<or> is_space (hd t)) \<Longrightarrow> words (c # s) = words (c # t)"
proof (cases "is_space c")
  case False
  assume w: "words s = words t" and h: "(s = [] \<or> is_space (hd s)) = (t = [] \<or> is_space (hd t))"
  have "words (c # u) = (if u = [] \<or> is_space (hd u) then [c] # words u else (c # hd (words u)) # tl (words u))" for u
    using False by (cases u) (simp_all add: words_Cons_space words_Cons_Cons words_space)
  then show ?thesis using w h by simp
qed (simp add: words_space)

lemma words_crlf:
  "words (replace_all [CHR 0x0D, CHR 0x0A] [CHR 0x0A] s) = words s \<and>
   (let r = replace_all [CHR 0x0D, CHR 0x0A] [CHR 0x0A] s in (r = [] \<or> is_space (hd r)) = (s = [] \<or> is_space (hd s)))"
proof (induction s rule: length_induct)
  case (1 s)
  let ?r = "replace_all [CHR 0x0D, CHR 0x0A] [CHR 0x0A]"
  show ?case
  proof (cases s)
    case Nil
    then show ?thesis by (simp add: replace_all.simps)
  next
    case (Cons c cs)
    show ?thesis
    proof (cases "is_prefix [CHR 0x0D, CHR 0x0A] s")
      case True
      then obtain ds where ds: "s = CHR 0x0D # CHR 0x0A # ds" using Cons by (cases cs) (auto simp: is_prefix_Cons)
      then have "?r s = CHR 0x0A # ?r ds" by (subst replace_all.simps) (simp add: is_prefix_def)
      moreover have "is_space (CHR 0x0A)" "is_space (CHR 0x0D)" by (simp_all add: is_space_def)
      moreover have "words (?r ds) = words ds" using 1 ds by simp
      ultimately show ?thesis by (simp add: ds words_space)
    next
      case False
      then have r: "?r s = c # ?r cs" using Cons by (subst replace_all.simps) simp
      have "words (?r cs) = words cs" "(?r cs = [] \<or> is_space (hd (?r cs))) = (cs = [] \<or> is_space (hd cs))"
        using 1 Cons by (simp_all add: Let_def)
      from words_Cons_cong [OF this] show ?thesis using r Cons by simp
    qed
  qed
qed

lemma normalize_words: "normalize_for_hash s = lower (join_words (words s))"
  by (simp add: normalize_for_hash_def strip_sub_ws words_crlf)

lemma lower_join: "lower (join_words ws) = join_words (map lower ws)"
  by (induction ws rule: join_words.induct) (simp_all add: lower_def ascii_lower_def)

section \<open>Properties\<close>

text \<open>
  Normalisation is lower-casing the words and joining them with single blanks, so the
  content hash depends on nothing but the words of title and body: CRLF, tabs, runs of
  blanks, blanks at the ends and case do not change it.
\<close>
theorem content_hash_depends_on_words:
  "normalize_for_hash s = join_words (map lower (words s)) \<and>
   (map lower (words (nd_title n)) = map lower (words (nd_title n')) \<longrightarrow>
    map lower (words (nd_body n)) = map lower (words (nd_body n')) \<longrightarrow> content_hash H n = content_hash H n')"
  by (simp add: normalize_words lower_join content_hash_def)

definition demo_node :: "string \<Rightarrow> string \<Rightarrow> wiki_node" where
  "demo_node t b = \<lparr>nd_id = ''i'', nd_slug = ''s'', nd_kind = ''note'', nd_title = t, nd_body = b, nd_tags = [],
     nd_links = [], nd_metadata = [], nd_created = None, nd_updated = None, nd_happened = None, nd_salience = 1 / 2,
     nd_confidence = 1, nd_agent = ''user'', nd_type = ''observation'', nd_source = None, nd_extra = [],
     nd_reinforced = 0, nd_last_reinforced = None\<rparr>"

definition demo_link :: link_record where
  "demo_link = \<lparr>lk_src_slug = ''s'', lk_dst_slug = ''t'', lk_type = ''related'', lk_strength = 1 / 2, lk_src_id = None,
     lk_dst_id = None\<rparr>"

theorem content_hash_depends_on_words_witness:
  "content_hash id (demo_node ''A b'' ''x'') = content_hash id (demo_node ''a  B'' ''X '')"
proof -
  have "words ''A b'' = [''A'', ''b'']" "words ''a  B'' = [''a'', ''B'']" "words ''x'' = [''x'']" "words ''X '' = [''X'']"
    by (simp_all add: words.simps is_space_def)
  moreover have "lower ''A'' = ''a''" "lower ''a'' = ''a''" "lower ''b'' = ''b''" "lower ''B'' = ''b''"
    "lower ''x'' = ''x''" "lower ''X'' = ''x''" by code_simp+
  moreover have "nd_title (demo_node t b) = t" "nd_body (demo_node t b) = b" for t b by (simp_all add: demo_node_def)
  ultimately show ?thesis
    by (intro content_hash_depends_on_words [THEN conjunct2, rule_format]) (simp_all only: list.map)
qed

end
