(* ===== verification/Slug_Registry.thy ===== *)
theory Slug_Registry imports Storage_Base begin

text \<open>
  \<open>memu/wiki/slug_registry.py\<close> over any storage backend, and the part of the
  \<open>StorageBackend\<close> protocol it relies on as a locale. The two backends interpret the
  locale (\<open>Sqlite_Backend\<close>, \<open>Markdown_Backend\<close>). A fresh \<open>uuid4\<close> and the clock are
  arguments.
\<close>

datatype store_error =
    IntegrityError
  | UnknownSlug string
  | UnknownKind string
  | AttributeError

definition infer_kind :: "string \<Rightarrow> string \<Rightarrow> string" where
  "infer_kind slug dflt =
     (if is_prefix ''paper/'' slug then ''paper''
      else if is_prefix ''code/'' slug then ''code''
      else if is_prefix ''task/'' slug \<or> is_prefix ''tasks/'' slug then ''task''
      else dflt)"

text \<open>The placeholder node of a dangling link; \<open>title or slug\<close> falls back on an empty title.\<close>

definition stub_node :: "uuid \<Rightarrow> time \<Rightarrow> string \<Rightarrow> string \<Rightarrow> string option \<Rightarrow> string \<Rightarrow> wiki_node" where
  "stub_node new now slug kind title agent =
     (let t = (if nonempty title then the title else slug)
      in \<lparr>nd_id = new, nd_slug = slug, nd_kind = infer_kind slug kind, nd_title = t,
          nd_body = ''# '' @ t @ [CHR 0x0A, CHR 0x0A] @ ''> Placeholder stub '' @ em_dash @ '' materialized by memU.'' @ [CHR 0x0A],
          nd_tags = [], nd_links = [], nd_metadata = [], nd_created = Some now, nd_updated = None,
          nd_happened = None, nd_salience = 1 / 10, nd_confidence = 0, nd_agent = agent,
          nd_type = ''placeholder'', nd_source = None, nd_extra = [], nd_reinforced = 0, nd_last_reinforced = None\<rparr>)"

definition resolve_or_stub ::
  "('s \<Rightarrow> string \<Rightarrow> string option) \<Rightarrow> (wiki_node \<Rightarrow> 's \<Rightarrow> (store_error + wiki_node) \<times> 's) \<Rightarrow>
   uuid \<Rightarrow> time \<Rightarrow> string \<Rightarrow> string \<Rightarrow> string option \<Rightarrow> string \<Rightarrow> 's \<Rightarrow> (store_error + string) \<times> 's" where
  "resolve_or_stub resolve put new now slug kind title agent s =
     (if nonempty (resolve s slug) then (Inr (the (resolve s slug)), s)
      else (case put (stub_node new now slug kind title agent) s of
              (Inl e, s') \<Rightarrow> (Inl e, s')
            | (Inr n, s') \<Rightarrow> (Inr new, s')))"

section \<open>What the registry relies on\<close>

locale node_store =
  fixes resolve :: "'s \<Rightarrow> string \<Rightarrow> string option"
    and put :: "wiki_node \<Rightarrow> 's \<Rightarrow> (store_error + wiki_node) \<times> 's"
    and inv :: "'s \<Rightarrow> bool"
    and accepts :: "'s \<Rightarrow> wiki_node \<Rightarrow> bool"
  assumes put_inv: "inv s \<Longrightarrow> accepts s n \<Longrightarrow> inv (snd (put n s))"
    and put_ok: "inv s \<Longrightarrow> accepts s n \<Longrightarrow> \<exists>n'. fst (put n s) = Inr n' \<and>
          resolve (snd (put n s)) (nd_slug n) = Some (nd_id n') \<and>
          (resolve s (nd_slug n) = None \<longrightarrow> nd_id n' = nd_id n)"
    and put_frame: "inv s \<Longrightarrow> accepts s n \<Longrightarrow> slug \<noteq> nd_slug n \<Longrightarrow> resolve (snd (put n s)) slug = resolve s slug"
    and resolve_nonempty: "inv s \<Longrightarrow> resolve s slug \<noteq> Some []"
begin

text \<open>
  After \<open>resolve_or_stub\<close> the slug resolves to the returned id; a slug that resolved
  already is left as it is; no other slug changes; asking again returns the same id and
  stores nothing.
\<close>

lemma nonempty_resolve: "inv s \<Longrightarrow> nonempty (resolve s slug) \<longleftrightarrow> resolve s slug \<noteq> None"
  using resolve_nonempty [of s slug] by (cases "resolve s slug") auto

lemma stub_resolves:
  assumes s: "inv s" "accepts s (stub_node new now slug kind title agent)" and new: "new \<noteq> []"
    and call: "resolve_or_stub resolve put new now slug kind title agent s = (r, s')"
  shows "\<exists>i. r = Inr i \<and> resolve s' slug = Some i \<and> inv s' \<and>
     (resolve s slug \<noteq> None \<longrightarrow> s' = s) \<and> (\<forall>sl. sl \<noteq> slug \<longrightarrow> resolve s' sl = resolve s sl) \<and>
     (\<forall>new' now'. resolve_or_stub resolve put new' now' slug kind title agent s' = (Inr i, s'))"
proof (cases "resolve s slug")
  case None
  let ?n = "stub_node new now slug kind title agent"
  have slug: "nd_slug ?n = slug" "nd_id ?n = new" by (simp_all add: stub_node_def Let_def)
  obtain n' where n': "fst (put ?n s) = Inr n'" "resolve (snd (put ?n s)) slug = Some (nd_id n')" "nd_id n' = new"
    using put_ok [OF s] None slug by auto
  have call': "r = Inr new" "s' = snd (put ?n s)"
    using call None n' by (auto simp: resolve_or_stub_def split: prod.splits)
  have inv': "inv s'" using put_inv [OF s] call' by simp
  have "resolve s' slug = Some new" using n' call' by simp
  then have "\<forall>new' now'. resolve_or_stub resolve put new' now' slug kind title agent s' = (Inr new, s')"
    using new by (simp add: resolve_or_stub_def)
  moreover have "\<forall>sl. sl \<noteq> slug \<longrightarrow> resolve s' sl = resolve s sl"
    using put_frame [OF s] slug call' by simp
  ultimately show ?thesis using call' inv' \<open>resolve s' slug = Some new\<close> None by blast
next
  case (Some i)
  then have "nonempty (resolve s slug)" unfolding nonempty_resolve [OF s(1)] by simp
  then have "r = Inr i" "s' = s" using call Some by (simp_all add: resolve_or_stub_def)
  moreover have "i \<noteq> []" using Some resolve_nonempty [OF s(1), of slug] by simp
  ultimately show ?thesis
    using Some s \<open>nonempty (resolve s slug)\<close> by (simp add: resolve_or_stub_def)
qed

end

end
