(* ===== verification/Sqlite_Backend.thy ===== *)
theory Sqlite_Backend imports Slug_Registry begin

text \<open>
  \<open>SqliteBackend\<close> of \<open>memu/storage/sqlite_backend.py\<close>: its tables as lists of rows in
  rowid order, each method with the constraints the schema declares (unique ids and
  slugs, foreign keys with cascading deletes, the primary key of the links). A JSON column
  holds the JSON value and a time column the instant. Where SQL leaves the order of rows
  open the model takes rowid order. The FTS5 index, embeddings at float32 precision and
  the schema migrations are left out.
\<close>

section \<open>Tables\<close>

record sql_node =
  sn_id :: string
  sn_slug :: string
  sn_kind :: string
  sn_title :: string
  sn_body :: string
  sn_tags :: "string list"
  sn_metadata :: payload
  sn_extra :: payload
  sn_source :: "payload option"
  sn_agent :: string
  sn_type :: string
  sn_salience :: real
  sn_confidence :: real
  sn_created :: time
  sn_updated :: time
  sn_happened :: "time option"

record sql_link =
  sl_src :: string
  sl_dst :: string
  sl_type :: string
  sl_strength :: real

record sql_embedding =
  em_dims :: nat
  em_model :: "string option"
  em_vector :: "real list"
  em_updated :: time

record sqlite_store =
  ss_nodes :: "sql_node list"
  ss_slugs :: "(string, string \<times> string) dict"
  ss_links :: "sql_link list"
  ss_embeddings :: "(string, sql_embedding) dict"

definition sqlite_empty :: sqlite_store where
  "sqlite_empty = \<lparr>ss_nodes = [], ss_slugs = [], ss_links = [], ss_embeddings = []\<rparr>"

definition node_ids :: "sqlite_store \<Rightarrow> string set" where
  "node_ids S = sn_id ` set (ss_nodes S)"

section \<open>Rows and nodes\<close>

definition row_links :: "sqlite_store \<Rightarrow> string \<Rightarrow> string \<Rightarrow> link_record list" where
  "row_links S i slug = map (\<lambda>l. \<lparr>lk_src_slug = slug, lk_dst_slug = sl_dst l, lk_type = sl_type l,
       lk_strength = sl_strength l, lk_src_id = Some i, lk_dst_id = None\<rparr>)
     (filter (\<lambda>l. sl_src l = i) (ss_links S))"

definition row_to_node :: "sqlite_store \<Rightarrow> sql_node \<Rightarrow> wiki_node" where
  "row_to_node S r = \<lparr>nd_id = sn_id r, nd_slug = sn_slug r, nd_kind = sn_kind r, nd_title = sn_title r,
     nd_body = sn_body r, nd_tags = sn_tags r, nd_links = row_links S (sn_id r) (sn_slug r),
     nd_metadata = sn_metadata r, nd_created = Some (sn_created r), nd_updated = Some (sn_updated r),
     nd_happened = sn_happened r, nd_salience = sn_salience r, nd_confidence = sn_confidence r,
     nd_agent = sn_agent r, nd_type = sn_type r, nd_source = sn_source r, nd_extra = sn_extra r,
     nd_reinforced = 0, nd_last_reinforced = None\<rparr>"

text \<open>The row an insertion writes; an empty source is stored as NULL.\<close>

definition node_to_row :: "time \<Rightarrow> wiki_node \<Rightarrow> sql_node" where
  "node_to_row now n = \<lparr>sn_id = nd_id n, sn_slug = nd_slug n, sn_kind = nd_kind n, sn_title = nd_title n,
     sn_body = nd_body n, sn_tags = nd_tags n, sn_metadata = nd_metadata n, sn_extra = nd_extra n,
     sn_source = (if nd_source n = Some [] then None else nd_source n), sn_agent = nd_agent n, sn_type = nd_type n,
     sn_salience = nd_salience n, sn_confidence = nd_confidence n,
     sn_created = (case nd_created n of None \<Rightarrow> now | Some t \<Rightarrow> t), sn_updated = now, sn_happened = nd_happened n\<rparr>"

section \<open>Operations\<close>

definition slug_clash :: "sqlite_store \<Rightarrow> wiki_node \<Rightarrow> bool" where
  "slug_clash S n \<longleftrightarrow> (\<exists>r \<in> set (ss_nodes S). sn_slug r = nd_slug n \<and> sn_id r \<noteq> nd_id n)"

definition merge_row :: "sql_node \<Rightarrow> sql_node \<Rightarrow> sql_node" where
  "merge_row r old = (if sn_id old = sn_id r then r\<lparr>sn_created := sn_created old\<rparr> else old)"

definition upsert_row :: "sql_node \<Rightarrow> sql_node list \<Rightarrow> sql_node list" where
  "upsert_row r rs =
     (if sn_id r \<in> sn_id ` set rs
      then map (merge_row r) rs
      else rs @ [r])"

definition replace_link :: "sql_link \<Rightarrow> sql_link list \<Rightarrow> sql_link list" where
  "replace_link l ls =
     filter (\<lambda>x. (sl_src x, sl_dst x, sl_type x) \<noteq> (sl_src l, sl_dst l, sl_type l)) ls @ [l]"

definition row_of_link :: "string \<Rightarrow> link_record \<Rightarrow> sql_link" where
  "row_of_link src l = \<lparr>sl_src = src, sl_dst = lk_dst_slug l, sl_type = lk_type l, sl_strength = lk_strength l\<rparr>"

definition sqlite_register_slug :: "string \<Rightarrow> string \<Rightarrow> string \<Rightarrow> sqlite_store \<Rightarrow> (store_error + unit) \<times> sqlite_store" where
  "sqlite_register_slug slug i kind S =
     (if i \<in> node_ids S then (Inr (), S\<lparr>ss_slugs := dict_set slug (i, kind) (ss_slugs S)\<rparr>)
      else (Inl IntegrityError, S))"

definition sqlite_put_node :: "time \<Rightarrow> wiki_node \<Rightarrow> sqlite_store \<Rightarrow> (store_error + wiki_node) \<times> sqlite_store" where
  "sqlite_put_node now n S =
     (let n1 = n\<lparr>nd_created := (case nd_created n of None \<Rightarrow> Some now | Some t \<Rightarrow> Some t), nd_updated := Some now\<rparr> in
      if slug_clash S n then (Inl IntegrityError, S)
      else
       (let S1 = S\<lparr>ss_nodes := upsert_row (node_to_row now n) (ss_nodes S)\<rparr>;
            S2 = snd (sqlite_register_slug (nd_slug n) (nd_id n) (nd_kind n) S1);
            S3 = S2\<lparr>ss_links := filter (\<lambda>l. sl_src l \<noteq> nd_id n) (ss_links S2)\<rparr>
        in (Inr n1, S3\<lparr>ss_links := fold (\<lambda>l. replace_link (row_of_link (nd_id n) l)) (nd_links n) (ss_links S3)\<rparr>)))"

definition sqlite_get_node :: "string \<Rightarrow> sqlite_store \<Rightarrow> wiki_node option" where
  "sqlite_get_node ref S =
     map_option (row_to_node S) (find (\<lambda>r. sn_id r = ref \<or> sn_slug r = ref) (ss_nodes S))"

definition sqlite_delete_node :: "string \<Rightarrow> sqlite_store \<Rightarrow> sqlite_store" where
  "sqlite_delete_node ref S =
     (let gone = (\<lambda>r. sn_id r = ref \<or> sn_slug r = ref);
          ids = sn_id ` set (filter gone (ss_nodes S))
      in S\<lparr>ss_nodes := filter (\<lambda>r. \<not> gone r) (ss_nodes S),
           ss_slugs := filter (\<lambda>e. fst (snd e) \<notin> ids) (ss_slugs S),
           ss_embeddings := filter (\<lambda>e. fst e \<notin> ids) (ss_embeddings S)\<rparr>)"

definition sqlite_list_nodes :: "string option \<Rightarrow> nat \<Rightarrow> sqlite_store \<Rightarrow> wiki_node list" where
  "sqlite_list_nodes kind limit S =
     map (row_to_node S) (take limit (sort_key (\<lambda>r. - sn_updated r)
       (filter (\<lambda>r. nonempty kind \<longrightarrow> kind = Some (sn_kind r)) (ss_nodes S))))"

definition sqlite_resolve_slug :: "sqlite_store \<Rightarrow> string \<Rightarrow> string option" where
  "sqlite_resolve_slug S slug = map_option fst (dict_get (ss_slugs S) slug)"

definition sqlite_put_link :: "link_record \<Rightarrow> sqlite_store \<Rightarrow> (store_error + unit) \<times> sqlite_store" where
  "sqlite_put_link l S =
     (case (if nonempty (lk_src_id l) then lk_src_id l else sqlite_resolve_slug S (lk_src_slug l)) of
        None \<Rightarrow> (Inl (UnknownSlug (lk_src_slug l)), S)
      | Some i \<Rightarrow> (Inr (), S\<lparr>ss_links := replace_link (row_of_link i l) (ss_links S)\<rparr>))"

definition sqlite_list_links :: "string \<Rightarrow> string \<Rightarrow> sqlite_store \<Rightarrow> link_record list" where
  "sqlite_list_links ref direction S =
     (case sqlite_get_node ref S of
        None \<Rightarrow> []
      | Some n \<Rightarrow>
          (if direction = ''out'' \<or> direction = ''both'' then row_links S (nd_id n) (nd_slug n) else []) @
          (if direction = ''in'' \<or> direction = ''both''
           then concat (map (\<lambda>l. map (\<lambda>r. \<lparr>lk_src_slug = sn_slug r, lk_dst_slug = sl_dst l, lk_type = sl_type l,
                     lk_strength = sl_strength l, lk_src_id = Some (sn_id r), lk_dst_id = None\<rparr>)
                   (filter (\<lambda>r. sn_id r = sl_src l) (ss_nodes S)))
                 (filter (\<lambda>l. sl_dst l = nd_slug n) (ss_links S)))
           else []))"

definition sqlite_put_embedding ::
  "time \<Rightarrow> string \<Rightarrow> real list \<Rightarrow> string option \<Rightarrow> sqlite_store \<Rightarrow> (store_error + unit) \<times> sqlite_store" where
  "sqlite_put_embedding now i v model S =
     (if v = [] then (Inr (), S)
      else if i \<notin> node_ids S then (Inl IntegrityError, S)
      else (Inr (), S\<lparr>ss_embeddings := dict_set i \<lparr>em_dims = length v, em_model = model, em_vector = v, em_updated = now\<rparr>
                       (ss_embeddings S)\<rparr>))"

definition sqlite_iter_changed :: "time option \<Rightarrow> sqlite_store \<Rightarrow> wiki_node list" where
  "sqlite_iter_changed since S =
     map (row_to_node S) (sort_key sn_updated
       (filter (\<lambda>r. case since of None \<Rightarrow> True | Some t \<Rightarrow> sn_updated r \<ge> t) (ss_nodes S)))"

section \<open>Vector search\<close>

definition or_one :: "real \<Rightarrow> real" where
  "or_one x = (if x = 0 then 1 else x)"

definition cosine_score :: "real list \<Rightarrow> real list \<Rightarrow> real" where
  "cosine_score q v =
     sum_list (map (\<lambda>(a, b). a * b) (zip q v)) /
       (or_one (sqrt (sum_list (map (\<lambda>x. x * x) q))) * or_one (sqrt (sum_list (map (\<lambda>x. x * x) v))))"

definition sqlite_search_vector :: "real list \<Rightarrow> nat \<Rightarrow> string option \<Rightarrow> sqlite_store \<Rightarrow> search_hit list" where
  "sqlite_search_vector q k kind S =
     (if q = [] then []
      else map (\<lambda>(s, r). \<lparr>sh_node = row_to_node S r, sh_score = s, sh_reason = ''vector''\<rparr>)
        (take k (sort_key (\<lambda>(s, r). - s)
          (concat (map (\<lambda>(i, e). map (\<lambda>r. (cosine_score q (em_vector e), r))
               (filter (\<lambda>r. sn_id r = i \<and> (nonempty kind \<longrightarrow> kind = Some (sn_kind r)) \<and> length (em_vector e) = length q)
                 (ss_nodes S)))
             (ss_embeddings S))))))"

section \<open>The full-text query\<close>

text \<open>What a free-form query is turned into before it reaches the FTS5 engine.\<close>

definition token_start :: "char \<Rightarrow> bool" where
  "token_start c \<longleftrightarrow> is_letter c \<or> is_digit c \<or> c = CHR ''_''"

definition token_char :: "char \<Rightarrow> bool" where
  "token_char c \<longleftrightarrow> token_start c \<or> c = CHR ''-''"

function fts_tokens :: "string \<Rightarrow> string list" where
  "fts_tokens [] = []"
| "fts_tokens (c # cs) =
     (if token_start c then (c # takeWhile token_char cs) # fts_tokens (dropWhile token_char cs) else fts_tokens cs)"
  by pat_completeness auto
termination by (relation "measure length") (auto simp: le_imp_less_Suc length_dropWhile_le)

fun join_or :: "string list \<Rightarrow> string" where
  "join_or [] = []"
| "join_or [t] = t"
| "join_or (t # ts) = t @ '' OR '' @ join_or ts"

definition escape_fts_query :: "string \<Rightarrow> string" where
  "escape_fts_query query = join_or (map (\<lambda>t. CHR 0x22 # t @ [CHR 0x22]) (fts_tokens query))"

lemma fts_token_chars: "t \<in> set (fts_tokens q) \<Longrightarrow> t \<noteq> [] \<and> list_all token_char t"
proof (induction q rule: fts_tokens.induct)
  case (2 c cs)
  have "list_all token_char (takeWhile token_char cs)" by (induction cs) auto
  moreover have "token_start c \<Longrightarrow> token_char c" by (simp add: token_char_def)
  ultimately show ?case using 2 by (auto split: if_splits)
qed simp

text \<open>No token can close the quotes around it.\<close>

lemma fts_token_unquoted: "t \<in> set (fts_tokens q) \<Longrightarrow> CHR 0x22 \<notin> set t"
proof
  assume "t \<in> set (fts_tokens q)" "CHR 0x22 \<in> set t"
  then have "token_char (CHR 0x22)" using fts_token_chars by (auto simp: list_all_iff)
  moreover have "\<not> token_char (CHR 0x22)" 
    by (simp add: token_char_def token_start_def is_letter_def is_digit_def)
  ultimately show False by simp
qed

section \<open>Graph search\<close>

text \<open>
  One recursion step of the CTE: the rows reached from a row over a link in either
  direction. \<open>UNION\<close> removes duplicates; the depth separates the levels, so the rows of
  depth \<open>d\<close> are the \<open>d\<close>-th level.
\<close>

definition type_ok :: "string list option \<Rightarrow> sql_link \<Rightarrow> bool" where
  "type_ok types l \<longleftrightarrow> (case types of Some (t # ts) \<Rightarrow> sl_type l \<in> set (t # ts) | _ \<Rightarrow> True)"

definition graph_neighbours :: "string list option \<Rightarrow> sqlite_store \<Rightarrow> sql_node \<Rightarrow> sql_node list" where
  "graph_neighbours types S r =
     concat (map (\<lambda>l. case dict_get (ss_slugs S) (sl_dst l) of
                        None \<Rightarrow> []
                      | Some (i, _) \<Rightarrow> filter (\<lambda>n. sn_id n = i) (ss_nodes S))
              (filter (\<lambda>l. sl_src l = sn_id r \<and> type_ok types l) (ss_links S)))
     @ concat (map (\<lambda>l. filter (\<lambda>n. sn_id n = sl_src l) (ss_nodes S))
              (filter (\<lambda>l. sl_dst l = sn_slug r \<and> type_ok types l) (ss_links S)))"

fun graph_level :: "string list option \<Rightarrow> sqlite_store \<Rightarrow> sql_node list \<Rightarrow> nat \<Rightarrow> sql_node list" where
  "graph_level types S start 0 = start"
| "graph_level types S start (Suc d) =
     remdups (concat (map (graph_neighbours types S) (graph_level types S start d)))"

text \<open>The first depth at which each row is reached.\<close>

fun shallowest :: "(nat \<times> sql_node) list \<Rightarrow> (nat \<times> sql_node) list \<Rightarrow> (nat \<times> sql_node) list" where
  "shallowest seen [] = seen"
| "shallowest seen ((d, r) # rows) =
     shallowest (if sn_id r \<in> set (map (\<lambda>(e, x). sn_id x) seen) then seen else seen @ [(d, r)]) rows"

definition sqlite_search_graph :: "string \<Rightarrow> nat \<Rightarrow> string list option \<Rightarrow> sqlite_store \<Rightarrow> search_hit list" where
  "sqlite_search_graph start_slug hops types S =
     (if hops < 1 \<or> start_slug = [] then []
      else case sqlite_resolve_slug S start_slug of
        None \<Rightarrow> []
      | Some i \<Rightarrow>
          (let start = filter (\<lambda>n. sn_id n = i) (ss_nodes S);
               rows = concat (map (\<lambda>d. map (Pair d) (sort_key sn_slug
                        (filter (\<lambda>n. sn_slug n \<noteq> start_slug) (graph_level types S start d)))) [1..<Suc hops])
           in map (\<lambda>(d, r). \<lparr>sh_node = row_to_node S r, sh_score = 1 / (1 + real d), sh_reason = ''graph''\<rparr>)
                (shallowest [] rows)))"

section \<open>Integrity\<close>

definition link_key :: "sql_link \<Rightarrow> string \<times> string \<times> string" where
  "link_key l = (sl_src l, sl_dst l, sl_type l)"

definition sqlite_inv :: "sqlite_store \<Rightarrow> bool" where
  "sqlite_inv S \<longleftrightarrow> distinct (map sn_id (ss_nodes S)) \<and> distinct (map sn_slug (ss_nodes S)) \<and> [] \<notin> node_ids S \<and>
     wf_dict (ss_slugs S) \<and> (\<forall>slug i k. dict_get (ss_slugs S) slug = Some (i, k) \<longrightarrow> i \<in> node_ids S) \<and>
     distinct (map link_key (ss_links S)) \<and>
     wf_dict (ss_embeddings S) \<and> dom (dict_get (ss_embeddings S)) \<subseteq> node_ids S"

lemma merge_row_id [simp]: "sn_id (merge_row r old) = sn_id old"
  by (simp add: merge_row_def)

lemma merge_row_slug: "sn_slug (merge_row r old) = (if sn_id old = sn_id r then sn_slug r else sn_slug old)"
  by (simp add: merge_row_def)

lemma map_upsert_ids:
  "map sn_id (upsert_row r rs) = (if sn_id r \<in> sn_id ` set rs then map sn_id rs else map sn_id rs @ [sn_id r])"
  by (simp add: upsert_row_def)

lemma upsert_ids: "sn_id ` set (upsert_row r rs) = insert (sn_id r) (sn_id ` set rs)"
proof -
  have "set (map sn_id (upsert_row r rs)) = insert (sn_id r) (sn_id ` set rs)" unfolding map_upsert_ids by auto
  then show ?thesis by simp
qed

lemma upsert_distinct_ids: "distinct (map sn_id rs) \<Longrightarrow> distinct (map sn_id (upsert_row r rs))"
  unfolding map_upsert_ids by auto

lemma distinct_map_slug_update:
  assumes "distinct (map sn_id xs)" "distinct (map sn_slug xs)" "\<forall>x \<in> set xs. sn_slug x = sn_slug r \<longrightarrow> sn_id x = sn_id r"
  shows "distinct (map sn_slug (map (merge_row r) xs))"
  using assms
proof (induction xs)
  case (Cons x xs)
  have "sn_slug (merge_row r y) \<noteq> sn_slug (merge_row r x)" if y: "y \<in> set xs" for y
  proof -
    have "sn_id y \<noteq> sn_id x" "sn_slug y \<noteq> sn_slug x" using Cons.prems(1,2) y by (auto simp: image_iff)
    moreover have "sn_slug y = sn_slug r \<longrightarrow> sn_id y = sn_id r" "sn_slug x = sn_slug r \<longrightarrow> sn_id x = sn_id r"
      using Cons.prems(3) y by auto
    ultimately show ?thesis by (auto simp: merge_row_slug)
  qed
  then have "sn_slug (merge_row r x) \<notin> (\<lambda>y. sn_slug (merge_row r y)) ` set xs" by (intro notI, elim imageE) metis
  then have "sn_slug (merge_row r x) \<notin> set (map sn_slug (map (merge_row r) xs))" by (simp add: image_image)
  moreover have "distinct (map sn_slug (map (merge_row r) xs))" using Cons by simp
  ultimately show ?case by (simp only: list.map distinct.simps simp_thms)
qed simp

lemma upsert_distinct_slugs:
  assumes "distinct (map sn_id rs)" "distinct (map sn_slug rs)"
    "\<forall>x \<in> set rs. sn_slug x = sn_slug r \<longrightarrow> sn_id x = sn_id r"
  shows "distinct (map sn_slug (upsert_row r rs))"
proof (cases "sn_id r \<in> sn_id ` set rs")
  case True
  then show ?thesis using distinct_map_slug_update [OF assms] by (simp add: upsert_row_def)
next
  case False
  have "sn_slug r \<notin> sn_slug ` set rs"
  proof
    assume "sn_slug r \<in> sn_slug ` set rs"
    then obtain x where "x \<in> set rs" "sn_slug x = sn_slug r" by auto
    with assms(3) False show False by (metis imageI)
  qed
  with False assms(2) show ?thesis by (simp add: upsert_row_def)
qed

lemma distinct_keys_filter: "distinct (map link_key ls) \<Longrightarrow> distinct (map link_key (filter P ls))"
  by (rule distinct_map_filter)

lemma distinct_keys_replace: "distinct (map link_key ls) \<Longrightarrow> distinct (map link_key (replace_link l ls))"
  by (auto simp: replace_link_def link_key_def distinct_map_filter)

lemma distinct_keys_fold:
  "distinct (map link_key ls) \<Longrightarrow> distinct (map link_key (fold (\<lambda>l. replace_link (row_of_link i l)) xs ls))"
  by (induction xs arbitrary: ls) (simp_all add: distinct_keys_replace)

definition stored_links :: "wiki_node \<Rightarrow> sql_link list \<Rightarrow> sql_link list" where
  "stored_links n ls =
     fold (\<lambda>l. replace_link (row_of_link (nd_id n) l)) (nd_links n) (filter (\<lambda>l. sl_src l \<noteq> nd_id n) ls)"

lemma sqlite_put_state:
  assumes "\<not> slug_clash S n"
  shows "snd (sqlite_put_node now n S) = S\<lparr>ss_nodes := upsert_row (node_to_row now n) (ss_nodes S),
      ss_slugs := dict_set (nd_slug n) (nd_id n, nd_kind n) (ss_slugs S), ss_links := stored_links n (ss_links S)\<rparr>"
proof -
  have "nd_id n \<in> sn_id ` set (upsert_row (node_to_row now n) (ss_nodes S))"
    unfolding upsert_ids by (simp add: node_to_row_def)
  with assms show ?thesis
    by (simp add: sqlite_put_node_def sqlite_register_slug_def node_ids_def Let_def stored_links_def)
qed

lemma sqlite_inv_put:
  assumes "sqlite_inv S" "nd_id n \<noteq> []"
  shows "sqlite_inv (snd (sqlite_put_node now n S))"
proof (cases "slug_clash S n")
  case False
  have ids: "node_ids (snd (sqlite_put_node now n S)) = insert (nd_id n) (node_ids S)"
    unfolding sqlite_put_state [OF False] by (simp add: node_ids_def upsert_ids) (simp add: node_to_row_def)
  have "distinct (map sn_slug (upsert_row (node_to_row now n) (ss_nodes S)))"
    by (rule upsert_distinct_slugs) (use assms False in \<open>auto simp: sqlite_inv_def slug_clash_def node_to_row_def\<close>)
  moreover have "distinct (map sn_id (upsert_row (node_to_row now n) (ss_nodes S)))"
    by (rule upsert_distinct_ids) (use assms in \<open>simp add: sqlite_inv_def\<close>)
  moreover have "distinct (map link_key (stored_links n (ss_links S)))"
    unfolding stored_links_def using assms by (intro distinct_keys_fold distinct_keys_filter) (simp add: sqlite_inv_def)
  ultimately show ?thesis
    using assms unfolding sqlite_inv_def ids by (auto simp: sqlite_put_state [OF False])
qed (simp add: sqlite_put_node_def Let_def assms)

lemma dict_get_filter_value: "wf_dict d \<Longrightarrow> dict_get (filter (\<lambda>e. P (snd e)) d) k = Some v \<longleftrightarrow> dict_get d k = Some v \<and> P v"
  by (induction d) (auto simp: wf_dict_def image_iff dest: map_of_SomeD)

lemma wf_dict_filter: "wf_dict d \<Longrightarrow> wf_dict (filter P d)"
  by (simp add: wf_dict_def distinct_map_filter)

lemma sqlite_inv_delete:
  assumes "sqlite_inv S"
  shows "sqlite_inv (sqlite_delete_node ref S)"
proof -
  let ?S = "sqlite_delete_node ref S" and ?gone = "\<lambda>r. sn_id r = ref \<or> sn_slug r = ref"
  let ?ids = "sn_id ` set (filter ?gone (ss_nodes S))"
  have inj: "sn_id r = sn_id r' \<Longrightarrow> r = r'" if "r \<in> set (ss_nodes S)" "r' \<in> set (ss_nodes S)" for r r'
    using that assms by (auto simp: sqlite_inv_def distinct_map dest: inj_onD)
  have ids: "node_ids ?S = node_ids S - ?ids"
    using inj by (auto simp: node_ids_def sqlite_delete_node_def Let_def image_iff)
  have "i \<in> node_ids S - ?ids" if "dict_get (ss_slugs ?S) slug = Some (i, k)" for slug i k
  proof -
    have "dict_get (ss_slugs S) slug = Some (i, k)" "i \<notin> ?ids"
      using that dict_get_filter_value [of "ss_slugs S" "\<lambda>v. fst v \<notin> ?ids" slug "(i, k)"] assms
      by (simp_all add: sqlite_delete_node_def Let_def sqlite_inv_def)
    then show ?thesis using assms unfolding sqlite_inv_def by blast
  qed
  moreover have "dom (dict_get (ss_embeddings ?S)) \<subseteq> node_ids S - ?ids"
  proof -
    have "dom (dict_get (ss_embeddings ?S)) \<subseteq> dom (dict_get (ss_embeddings S)) - ?ids"
      by (auto simp: sqlite_delete_node_def Let_def dom_map_of_conv_image_fst)
    then show ?thesis using assms unfolding sqlite_inv_def by blast
  qed
  moreover have "distinct (map sn_id (ss_nodes ?S))" "distinct (map sn_slug (ss_nodes ?S))" "wf_dict (ss_slugs ?S)"
    "wf_dict (ss_embeddings ?S)" "distinct (map link_key (ss_links ?S))" "[] \<notin> node_ids S - ?ids"
    using assms by (simp_all add: sqlite_inv_def sqlite_delete_node_def Let_def distinct_map_filter wf_dict_filter)
  ultimately show ?thesis unfolding sqlite_inv_def ids by blast
qed

lemma sqlite_inv_other:
  assumes "sqlite_inv S"
  shows "sqlite_inv (snd (sqlite_register_slug slug i k S))" "sqlite_inv (snd (sqlite_put_link l S))"
    "sqlite_inv (snd (sqlite_put_embedding now i v m S))"
  using assms distinct_keys_replace
  by (auto simp: sqlite_register_slug_def sqlite_put_link_def sqlite_put_embedding_def sqlite_inv_def node_ids_def
      split: option.splits)

section \<open>The slug registry on SQLite\<close>

definition sqlite_accepts :: "sqlite_store \<Rightarrow> wiki_node \<Rightarrow> bool" where
  "sqlite_accepts S n \<longleftrightarrow> \<not> slug_clash S n \<and> nd_id n \<noteq> []"

interpretation sqlite_nodes: node_store sqlite_resolve_slug "sqlite_put_node now" sqlite_inv sqlite_accepts for now
proof
  fix S n assume S: "sqlite_inv S" "sqlite_accepts S n"
  then have ok: "\<not> slug_clash S n" "nd_id n \<noteq> []" by (simp_all add: sqlite_accepts_def)
  show "sqlite_inv (snd (sqlite_put_node now n S))" by (rule sqlite_inv_put [OF S(1) ok(2)])
  have "fst (sqlite_put_node now n S) = Inr (n\<lparr>nd_created := (case nd_created n of None \<Rightarrow> Some now | Some t \<Rightarrow> Some t),
      nd_updated := Some now\<rparr>)"
    using ok(1) by (simp add: sqlite_put_node_def Let_def)
  then show "\<exists>n'. fst (sqlite_put_node now n S) = Inr n' \<and>
      sqlite_resolve_slug (snd (sqlite_put_node now n S)) (nd_slug n) = Some (nd_id n') \<and>
      (sqlite_resolve_slug S (nd_slug n) = None \<longrightarrow> nd_id n' = nd_id n)"
    by (simp add: sqlite_put_state [OF ok(1)] sqlite_resolve_slug_def)
  show "sqlite_resolve_slug (snd (sqlite_put_node now n S)) slug = sqlite_resolve_slug S slug" if "slug \<noteq> nd_slug n" for slug
    using that by (simp add: sqlite_put_state [OF ok(1)] sqlite_resolve_slug_def)
next
  show "sqlite_resolve_slug S slug \<noteq> Some []" if "sqlite_inv S" for S slug
    using that by (auto simp: sqlite_resolve_slug_def sqlite_inv_def)
qed

section \<open>Reading back what was put\<close>

lemma find_unique:
  assumes "x \<in> set xs" "P x" "\<And>y. y \<in> set xs \<Longrightarrow> P y \<Longrightarrow> y = x"
  shows "find P xs = Some x"
proof -
  obtain y where "find P xs = Some y" using assms(1,2) by (cases "find P xs") (auto simp: find_None_iff)
  moreover from this have "y \<in> set xs" "P y" by (auto simp: find_Some_iff)
  ultimately show ?thesis using assms(3) [of y] by simp
qed

lemma fold_replace_distinct:
  assumes "distinct (map (\<lambda>l. (lk_dst_slug l, lk_type l)) ls)"
    and "\<And>x l. x \<in> set xs \<Longrightarrow> l \<in> set ls \<Longrightarrow> (sl_src x, sl_dst x, sl_type x) \<noteq> (i, lk_dst_slug l, lk_type l)"
  shows "fold (\<lambda>l. replace_link (row_of_link i l)) ls xs = xs @ map (row_of_link i) ls"
  using assms
proof (induction ls arbitrary: xs)
  case (Cons l ls)
  have "filter (\<lambda>x. (sl_src x, sl_dst x, sl_type x) \<noteq> (i, lk_dst_slug l, lk_type l)) xs = xs"
    using Cons.prems(2) by (intro filter_True) auto
  then have "replace_link (row_of_link i l) xs = xs @ [row_of_link i l]" by (simp add: replace_link_def row_of_link_def)
  moreover have "fold (\<lambda>l. replace_link (row_of_link i l)) ls (xs @ [row_of_link i l]) =
      (xs @ [row_of_link i l]) @ map (row_of_link i) ls"
  proof (rule Cons.IH)
    show "distinct (map (\<lambda>l. (lk_dst_slug l, lk_type l)) ls)" using Cons.prems(1) by simp
    fix x l' assume x: "x \<in> set (xs @ [row_of_link i l])" and l': "l' \<in> set ls"
    have "(lk_dst_slug l, lk_type l) \<noteq> (lk_dst_slug l', lk_type l')" using Cons.prems(1) l' by (force simp: image_iff)
    then show "(sl_src x, sl_dst x, sl_type x) \<noteq> (i, lk_dst_slug l', lk_type l')"
      using x l' Cons.prems(2) [of x l'] by (cases "x \<in> set xs") (simp_all add: row_of_link_def)
  qed
  ultimately show ?case by simp
qed simp

lemma stored_links_of:
  assumes "distinct (map (\<lambda>l. (lk_dst_slug l, lk_type l)) (nd_links n))"
  shows "filter (\<lambda>l. sl_src l = nd_id n) (stored_links n ls) = map (row_of_link (nd_id n)) (nd_links n)"
proof -
  have "stored_links n ls = filter (\<lambda>l. sl_src l \<noteq> nd_id n) ls @ map (row_of_link (nd_id n)) (nd_links n)"
    unfolding stored_links_def by (rule fold_replace_distinct [OF assms]) auto
  then show ?thesis by (simp add: row_of_link_def comp_def)
qed

definition created_of :: "time \<Rightarrow> wiki_node \<Rightarrow> sqlite_store \<Rightarrow> time" where
  "created_of now n S =
     (case find (\<lambda>r. sn_id r = nd_id n) (ss_nodes S) of
        Some r \<Rightarrow> sn_created r
      | None \<Rightarrow> (case nd_created n of None \<Rightarrow> now | Some t \<Rightarrow> t))"

text \<open>The node as it comes back.\<close>

definition sqlite_echo :: "time \<Rightarrow> wiki_node \<Rightarrow> sqlite_store \<Rightarrow> wiki_node" where
  "sqlite_echo now n S =
     n\<lparr>nd_created := Some (created_of now n S), nd_updated := Some now,
       nd_links := map (\<lambda>l. l\<lparr>lk_src_slug := nd_slug n, lk_src_id := Some (nd_id n), lk_dst_id := None\<rparr>) (nd_links n),
       nd_source := (if nd_source n = Some [] then None else nd_source n), nd_reinforced := 0, nd_last_reinforced := None\<rparr>"

lemma upserted_row:
  assumes "distinct (map sn_id (ss_nodes S))"
  shows "(node_to_row now n)\<lparr>sn_created := created_of now n S\<rparr> \<in> set (upsert_row (node_to_row now n) (ss_nodes S))"
    and "x \<in> set (upsert_row (node_to_row now n) (ss_nodes S)) \<Longrightarrow> sn_id x = nd_id n \<Longrightarrow>
      x = (node_to_row now n)\<lparr>sn_created := created_of now n S\<rparr>"
    and "x \<in> set (upsert_row (node_to_row now n) (ss_nodes S)) \<Longrightarrow> sn_id x \<noteq> nd_id n \<Longrightarrow> x \<in> set (ss_nodes S)"
proof -
  have i: "sn_id (node_to_row now n) = nd_id n" by (simp add: node_to_row_def)
  have uniq: "r = r'" if "r \<in> set (ss_nodes S)" "r' \<in> set (ss_nodes S)" "sn_id r = sn_id r'" for r r'
    using that assms by (auto simp: distinct_map dest: inj_onD)
  show "x \<in> set (upsert_row (node_to_row now n) (ss_nodes S)) \<Longrightarrow> sn_id x \<noteq> nd_id n \<Longrightarrow> x \<in> set (ss_nodes S)"
    using i by (auto simp: upsert_row_def merge_row_def split: if_splits)
  have "(node_to_row now n)\<lparr>sn_created := created_of now n S\<rparr> \<in> set (upsert_row (node_to_row now n) (ss_nodes S)) \<and>
    (x \<in> set (upsert_row (node_to_row now n) (ss_nodes S)) \<longrightarrow> sn_id x = nd_id n \<longrightarrow>
      x = (node_to_row now n)\<lparr>sn_created := created_of now n S\<rparr>)" for x
  proof (cases "find (\<lambda>r. sn_id r = nd_id n) (ss_nodes S)")
    case None
    then have none: "\<forall>r \<in> set (ss_nodes S). sn_id r \<noteq> nd_id n" by (simp add: find_None_iff)
    have row: "(node_to_row now n)\<lparr>sn_created := created_of now n S\<rparr> = node_to_row now n"
      using None by (simp add: created_of_def node_to_row_def)
    have "upsert_row (node_to_row now n) (ss_nodes S) = ss_nodes S @ [node_to_row now n]"
      using none i by (auto simp: upsert_row_def)
    with row none show ?thesis by auto
  next
    case (Some r)
    then have r: "r \<in> set (ss_nodes S)" "sn_id r = nd_id n" by (auto simp: find_Some_iff)
    then have up: "upsert_row (node_to_row now n) (ss_nodes S) = map (merge_row (node_to_row now n)) (ss_nodes S)"
      using i r(2) imageI [OF r(1), of sn_id] by (simp add: upsert_row_def)
    have m: "merge_row (node_to_row now n) r = (node_to_row now n)\<lparr>sn_created := created_of now n S\<rparr>"
      using r i Some by (simp add: merge_row_def created_of_def)
    have "merge_row (node_to_row now n) y = (node_to_row now n)\<lparr>sn_created := created_of now n S\<rparr>"
      if "y \<in> set (ss_nodes S)" "sn_id (merge_row (node_to_row now n) y) = nd_id n" for y
      using uniq [OF that(1) r(1)] that r m by simp
    then show ?thesis unfolding up using m r(1) by (metis (no_types, lifting) imageE imageI list.set_map)
  qed
  then show "(node_to_row now n)\<lparr>sn_created := created_of now n S\<rparr> \<in> set (upsert_row (node_to_row now n) (ss_nodes S))"
    "x \<in> set (upsert_row (node_to_row now n) (ss_nodes S)) \<Longrightarrow> sn_id x = nd_id n \<Longrightarrow>
      x = (node_to_row now n)\<lparr>sn_created := created_of now n S\<rparr>" by blast+
qed

lemma sqlite_get_put:
  assumes inv: "sqlite_inv S" and ok: "\<not> slug_clash S n"
    and links: "distinct (map (\<lambda>l. (lk_dst_slug l, lk_type l)) (nd_links n))"
    and apart: "\<forall>r \<in> set (ss_nodes S). sn_id r \<noteq> nd_id n \<longrightarrow> sn_slug r \<noteq> nd_id n \<and> sn_id r \<noteq> nd_slug n"
    and ref: "ref = nd_id n \<or> ref = nd_slug n"
  shows "sqlite_get_node ref (snd (sqlite_put_node now n S)) = Some (sqlite_echo now n S)"
proof -
  let ?row = "(node_to_row now n)\<lparr>sn_created := created_of now n S\<rparr>"
  have dist: "distinct (map sn_id (ss_nodes S))" using inv by (simp add: sqlite_inv_def)
  have "find (\<lambda>r. sn_id r = ref \<or> sn_slug r = ref) (upsert_row (node_to_row now n) (ss_nodes S)) = Some ?row"
  proof (rule find_unique)
    show "?row \<in> set (upsert_row (node_to_row now n) (ss_nodes S))" by (rule upserted_row(1) [OF dist])
    show "sn_id ?row = ref \<or> sn_slug ?row = ref" using ref by (auto simp: node_to_row_def)
    fix y assume y: "y \<in> set (upsert_row (node_to_row now n) (ss_nodes S))" "sn_id y = ref \<or> sn_slug y = ref"
    show "y = ?row"
    proof (cases "sn_id y = nd_id n")
      case False
      with y(1) have "y \<in> set (ss_nodes S)" by (rule upserted_row(3) [OF dist])
      then show ?thesis using apart ok False y(2) ref by (auto simp: slug_clash_def)
    qed (use y(1) upserted_row(2) [OF dist] in blast)
  qed
  moreover have "row_links (snd (sqlite_put_node now n S)) (nd_id n) (nd_slug n) =
      map (\<lambda>l. l\<lparr>lk_src_slug := nd_slug n, lk_src_id := Some (nd_id n), lk_dst_id := None\<rparr>) (nd_links n)"
    using stored_links_of [OF links, of "ss_links S"]
    by (simp add: row_links_def sqlite_put_state [OF ok]) (simp add: row_of_link_def)
  ultimately show ?thesis
    unfolding sqlite_get_node_def sqlite_echo_def
    by (simp add: row_to_node_def sqlite_put_state [OF ok] node_to_row_def)
qed

section \<open>Graph search is shortest-path reachability\<close>

definition adjacent :: "string list option \<Rightarrow> sqlite_store \<Rightarrow> (sql_node \<times> sql_node) set" where
  "adjacent types S = {(r, n). n \<in> set (graph_neighbours types S r)}"

lemma in_resolved_rows:
  "n \<in> set (case dict_get slugs k of None \<Rightarrow> [] | Some (i, _) \<Rightarrow> filter (\<lambda>n. sn_id n = i) rows) \<longleftrightarrow>
   n \<in> set rows \<and> map_option fst (dict_get slugs k) = Some (sn_id n)"
  by (cases "dict_get slugs k") (auto simp: split_def)

lemma adjacent_iff:
  "(r, n) \<in> adjacent types S \<longleftrightarrow> n \<in> set (ss_nodes S) \<and>
     (\<exists>l \<in> set (ss_links S). type_ok types l \<and>
        (sl_src l = sn_id r \<and> map_option fst (dict_get (ss_slugs S) (sl_dst l)) = Some (sn_id n) \<or>
         sl_dst l = sn_slug r \<and> sl_src l = sn_id n))"
  unfolding adjacent_def graph_neighbours_def
  by (simp only: mem_Collect_eq prod.case set_append set_concat set_map set_filter Un_iff UN_iff image_iff bex_simps
      in_resolved_rows) auto

lemma set_graph_level: "set (graph_level types S start d) = ((adjacent types S) ^^ d) `` set start"
  by (induction d) (auto simp: adjacent_def Image_def)

definition row_ids :: "(nat \<times> sql_node) list \<Rightarrow> string list" where
  "row_ids rows = map (\<lambda>(e, x). sn_id x) rows"

lemma row_ids_simps [simp]: "row_ids [] = []" "row_ids ((d, r) # rows) = sn_id r # row_ids rows"
  "row_ids (xs @ ys) = row_ids xs @ row_ids ys"
  by (simp_all add: row_ids_def)

lemma in_row_ids: "i \<in> set (row_ids rows) \<longleftrightarrow> (\<exists>e x. (e, x) \<in> set rows \<and> sn_id x = i)"
  by (force simp: row_ids_def)

lemma shallowest_step:
  "shallowest seen ((d, r) # rows) = shallowest (if sn_id r \<in> set (row_ids seen) then seen else seen @ [(d, r)]) rows"
  by (simp only: shallowest.simps row_ids_def)

declare shallowest.simps(2) [simp del] shallowest_step [simp]

lemma shallowest_mono: "set seen \<subseteq> set (shallowest seen rows)"
  by (induction rows arbitrary: seen) (force split: if_splits)+

definition first_reached :: "(nat \<times> sql_node) list \<Rightarrow> (nat \<times> sql_node) list \<Rightarrow> bool" where
  "first_reached rows res \<longleftrightarrow> (\<forall>d r. (d, r) \<in> set rows \<longrightarrow> (\<exists>e x. (e, x) \<in> set res \<and> sn_id x = sn_id r \<and> e \<le> d))"

lemma shallowest_spec:
  assumes "sorted (map fst (seen @ rows))" "distinct (row_ids seen)"
  shows "sorted (map fst (shallowest seen rows)) \<and> distinct (row_ids (shallowest seen rows)) \<and>
    set (shallowest seen rows) \<subseteq> set (seen @ rows) \<and> first_reached (seen @ rows) (shallowest seen rows)"
  using assms
proof (induction rows arbitrary: seen)
  case Nil
  then show ?case by (auto simp: first_reached_def)
next
  case (Cons p rows)
  obtain d r where p: "p = (d, r)" by (cases p)
  show ?case
  proof (cases "sn_id r \<in> set (row_ids seen)")
    case True
    then obtain e x where ex: "(e, x) \<in> set seen" "sn_id x = sn_id r" by (auto simp: in_row_ids)
    have "sorted (map fst (seen @ rows))" using Cons.prems(1) by (auto simp: sorted_append)
    note IH = Cons.IH [OF this Cons.prems(2)]
    have "e \<le> d" using Cons.prems(1) ex(1) by (force simp: sorted_append p)
    moreover have "(e, x) \<in> set (shallowest seen rows)" using ex(1) shallowest_mono by blast
    ultimately have "first_reached (seen @ p # rows) (shallowest seen rows)"
      using IH ex(2) unfolding first_reached_def p by (auto; blast)
    with IH True show ?thesis by (auto simp: p)
  next
    case False
    then have "distinct (row_ids (seen @ [p]))" using Cons.prems(2) by (simp add: p)
    with Cons.IH [of "seen @ [p]"] Cons.prems(1) False show ?thesis by (simp add: p)
  qed
qed

text \<open>The rows of the answer, and what they are in terms of reachability.\<close>

definition graph_rows :: "string \<Rightarrow> nat \<Rightarrow> string list option \<Rightarrow> sqlite_store \<Rightarrow> sql_node list \<Rightarrow> (nat \<times> sql_node) list" where
  "graph_rows start_slug hops types S start =
     concat (map (\<lambda>d. map (Pair d) (sort_key sn_slug
        (filter (\<lambda>n. sn_slug n \<noteq> start_slug) (graph_level types S start d)))) [1..<Suc hops])"

lemma set_graph_rows:
  "(d, r) \<in> set (graph_rows start_slug hops types S start) \<longleftrightarrow>
   1 \<le> d \<and> d \<le> hops \<and> sn_slug r \<noteq> start_slug \<and> r \<in> ((adjacent types S) ^^ d) `` set start"
  by (auto simp: graph_rows_def set_graph_level [symmetric])

lemma sorted_concat_levels: "sorted ds \<Longrightarrow> sorted (map fst (concat (map (\<lambda>d. map (Pair d) (f d)) ds)))"
proof (induction ds)
  case (Cons d ds)
  have "sorted (map (\<lambda>x. d) xs)" for xs :: "'b list" by (induction xs) auto
  with Cons show ?case by (auto simp: sorted_append comp_def)
qed simp

lemma sorted_graph_rows: "sorted (map fst (graph_rows start_slug hops types S start))"
  unfolding graph_rows_def by (rule sorted_concat_levels) (rule sorted_upt)

lemma adjacent_pow_nodes: "1 \<le> d \<Longrightarrow> r \<in> ((adjacent types S) ^^ d) `` X \<Longrightarrow> r \<in> set (ss_nodes S)"
  by (cases d) (auto simp: adjacent_iff)

lemma shallowest_graph_rows:
  assumes "distinct (map sn_id (ss_nodes S))"
  shows "(d, r) \<in> set (shallowest [] (graph_rows ss hops types S start)) \<longleftrightarrow>
    1 \<le> d \<and> d \<le> hops \<and> sn_slug r \<noteq> ss \<and> r \<in> ((adjacent types S) ^^ d) `` set start \<and>
    (\<forall>e. 1 \<le> e \<and> e < d \<longrightarrow> r \<notin> ((adjacent types S) ^^ e) `` set start)" (is "?l \<longleftrightarrow> ?r")
proof -
  let ?rows = "graph_rows ss hops types S start"
  have spec: "distinct (row_ids (shallowest [] ?rows))" "set (shallowest [] ?rows) \<subseteq> set ?rows"
    "first_reached ?rows (shallowest [] ?rows)"
    using shallowest_spec [of "[]" ?rows] sorted_graph_rows [of ss hops types S start] by simp_all
  have uniq: "x = y" if "(e, x) \<in> set ?rows" "(f, y) \<in> set ?rows" "sn_id x = sn_id y" for e x f y
  proof -
    have "x \<in> set (ss_nodes S)" "y \<in> set (ss_nodes S)"
      using that(1,2) adjacent_pow_nodes unfolding set_graph_rows by blast+
    with assms that(3) show ?thesis by (auto simp: distinct_map dest: inj_onD)
  qed
  have once: "e = f" if "(e, x) \<in> set (shallowest [] ?rows)" "(f, x) \<in> set (shallowest [] ?rows)" for e f x
  proof -
    have "inj_on (\<lambda>(e, x). sn_id x) (set (shallowest [] ?rows))" using spec(1) by (simp add: row_ids_def distinct_map)
    from inj_onD [OF this _ that] show ?thesis by simp
  qed
  have least: "\<exists>e \<le> d. (e, r) \<in> set (shallowest [] ?rows)" if dr: "(d, r) \<in> set ?rows" for d r
  proof -
    obtain e x where x: "(e, x) \<in> set (shallowest [] ?rows)" "sn_id x = sn_id r" "e \<le> d"
      using spec(3) dr unfolding first_reached_def by blast
    with uniq [of e x d r] dr spec(2) have "x = r" by blast
    with x show ?thesis by blast
  qed
  show ?thesis
  proof
    assume l: ?l
    then have row: "(d, r) \<in> set ?rows" using spec(2) by blast
    have "r \<notin> ((adjacent types S) ^^ e) `` set start" if "1 \<le> e" "e < d" for e
    proof
      assume "r \<in> ((adjacent types S) ^^ e) `` set start"
      with row that have "(e, r) \<in> set ?rows" by (simp add: set_graph_rows)
      from least [OF this] once [OF l] that show False by fastforce
    qed
    with row show ?r by (simp add: set_graph_rows)
  next
    assume r: ?r
    then have "(d, r) \<in> set ?rows" by (simp add: set_graph_rows)
    from least [OF this] obtain e where e: "e \<le> d" "(e, r) \<in> set (shallowest [] ?rows)" by blast
    then have "1 \<le> e" "r \<in> ((adjacent types S) ^^ e) `` set start" using spec(2) set_graph_rows by blast+
    with r e(1) have "e = d" by (metis le_neq_implies_less)
    with e(2) show ?l by simp
  qed
qed

lemma search_graph_unfold:
  assumes "1 \<le> hops" "start_slug \<noteq> []" "sqlite_resolve_slug S start_slug = Some i"
  shows "sqlite_search_graph start_slug hops types S =
    map (\<lambda>(d, r). \<lparr>sh_node = row_to_node S r, sh_score = 1 / (1 + real d), sh_reason = ''graph''\<rparr>)
      (shallowest [] (graph_rows start_slug hops types S (filter (\<lambda>n. sn_id n = i) (ss_nodes S))))"
  using assms by (simp add: sqlite_search_graph_def graph_rows_def Let_def)

section \<open>Properties of the SQLite backend\<close>

text \<open>
  (C8) Every operation keeps the schema's constraints: unique ids, slugs and link keys,
  and no slug or embedding without its node.
\<close>
theorem sqlite_integrity:
  assumes "sqlite_inv S" "nd_id n \<noteq> []"
  shows "sqlite_inv (snd (sqlite_put_node now n S)) \<and> sqlite_inv (sqlite_delete_node ref S) \<and>
    sqlite_inv (snd (sqlite_register_slug slug i kind S)) \<and> sqlite_inv (snd (sqlite_put_link l S)) \<and>
    sqlite_inv (snd (sqlite_put_embedding now i v m S))"
  using assms by (simp add: sqlite_inv_put sqlite_inv_delete sqlite_inv_other)

lemma sqlite_inv_empty: "sqlite_inv sqlite_empty"
  by (simp add: sqlite_inv_def sqlite_empty_def node_ids_def)

theorem sqlite_integrity_witness:
  "sqlite_inv (snd (sqlite_put_node 5 (demo_node ''T'' ''b'') sqlite_empty)) \<and>
   sqlite_inv (sqlite_delete_node ''s'' sqlite_empty) \<and> sqlite_inv (snd (sqlite_register_slug ''s'' ''i'' ''note'' sqlite_empty)) \<and>
   sqlite_inv (snd (sqlite_put_link demo_link sqlite_empty)) \<and>
   sqlite_inv (snd (sqlite_put_embedding 5 ''i'' [1, 2] None sqlite_empty))"
  by (rule sqlite_integrity [OF sqlite_inv_empty]) (simp add: demo_node_def)

text \<open>
  A node whose slug belongs to no other node is stored, and reading it back by id or
  by slug gives it with its links tied to it, its update time set and the creation time of
  its first version; its reinforcement count and time are not stored.
\<close>
theorem sqlite_put_get:
  assumes "sqlite_inv S" "\<not> slug_clash S n" "distinct (map (\<lambda>l. (lk_dst_slug l, lk_type l)) (nd_links n))"
    and "\<forall>r \<in> set (ss_nodes S). sn_id r \<noteq> nd_id n \<longrightarrow> sn_slug r \<noteq> nd_id n \<and> sn_id r \<noteq> nd_slug n"
  shows "(\<exists>n'. fst (sqlite_put_node now n S) = Inr n') \<and>
    sqlite_get_node (nd_id n) (snd (sqlite_put_node now n S)) = Some (sqlite_echo now n S) \<and>
    sqlite_get_node (nd_slug n) (snd (sqlite_put_node now n S)) = Some (sqlite_echo now n S)"
  using sqlite_get_put [OF assms] assms(2) by (simp add: sqlite_put_node_def Let_def)

theorem sqlite_put_get_witness:
  "(\<exists>n'. fst (sqlite_put_node 5 ((demo_node ''T'' ''b'')\<lparr>nd_links := [demo_link]\<rparr>) sqlite_empty) = Inr n') \<and>
   sqlite_get_node ''i'' (snd (sqlite_put_node 5 ((demo_node ''T'' ''b'')\<lparr>nd_links := [demo_link]\<rparr>) sqlite_empty)) =
     Some (sqlite_echo 5 ((demo_node ''T'' ''b'')\<lparr>nd_links := [demo_link]\<rparr>) sqlite_empty) \<and>
   sqlite_get_node ''s'' (snd (sqlite_put_node 5 ((demo_node ''T'' ''b'')\<lparr>nd_links := [demo_link]\<rparr>) sqlite_empty)) =
     Some (sqlite_echo 5 ((demo_node ''T'' ''b'')\<lparr>nd_links := [demo_link]\<rparr>) sqlite_empty)"
  using sqlite_put_get [OF sqlite_inv_empty, of "(demo_node ''T'' ''b'')\<lparr>nd_links := [demo_link]\<rparr>" 5]
  by (simp add: demo_node_def sqlite_empty_def slug_clash_def)

text \<open>
  Asking the slug registry for a slug the SQLite store does not know materialises a
  placeholder the slug then resolves to; a known slug keeps its node; no other slug is
  touched; and asking again, with whatever fresh id, returns the same node and stores nothing.
\<close>
theorem sqlite_resolve_or_stub:
  assumes "sqlite_inv S" "sqlite_accepts S (stub_node new now slug kind title agent)" "new \<noteq> []"
    and "resolve_or_stub sqlite_resolve_slug (sqlite_put_node t) new now slug kind title agent S = (r, S')"
  shows "\<exists>i. r = Inr i \<and> sqlite_resolve_slug S' slug = Some i \<and> sqlite_inv S' \<and>
     (sqlite_resolve_slug S slug \<noteq> None \<longrightarrow> S' = S) \<and>
     (\<forall>sl. sl \<noteq> slug \<longrightarrow> sqlite_resolve_slug S' sl = sqlite_resolve_slug S sl) \<and>
     (\<forall>new' now'. resolve_or_stub sqlite_resolve_slug (sqlite_put_node t) new' now' slug kind title agent S' = (Inr i, S'))"
  using assms by (rule sqlite_nodes.stub_resolves)

theorem sqlite_resolve_or_stub_witness:
  "\<exists>r S' i. resolve_or_stub sqlite_resolve_slug (sqlite_put_node 5) ''u'' 5 ''paper/x'' ''note'' None ''memu'' sqlite_empty = (r, S') \<and>
     r = Inr i \<and> sqlite_resolve_slug S' ''paper/x'' = Some i \<and> sqlite_inv S'"
proof -
  obtain r S' where call: "resolve_or_stub sqlite_resolve_slug (sqlite_put_node 5) ''u'' 5 ''paper/x'' ''note'' None ''memu''
      sqlite_empty = (r, S')" by fastforce
  have "sqlite_accepts sqlite_empty (stub_node ''u'' 5 ''paper/x'' ''note'' None ''memu'')"
    by (simp add: sqlite_accepts_def slug_clash_def sqlite_empty_def stub_node_def Let_def)
  from sqlite_resolve_or_stub [OF sqlite_inv_empty this _ call] call show ?thesis by auto
qed

text \<open>
  (C9) Graph search returns exactly the nodes, other than the start slug's, reachable from
  the start over links of the given types in either direction in at most the given number
  of hops, each once with the score of its least depth, nearest first.
\<close>
theorem sqlite_graph_search_shortest:
  assumes "sqlite_inv S" "1 \<le> hops" "start_slug \<noteq> []" "sqlite_resolve_slug S start_slug = Some i"
  defines "start \<equiv> {n \<in> set (ss_nodes S). sn_id n = i}"
  shows "set (sqlite_search_graph start_slug hops types S) =
      {\<lparr>sh_node = row_to_node S r, sh_score = 1 / (1 + real d), sh_reason = ''graph''\<rparr> | r d.
         1 \<le> d \<and> d \<le> hops \<and> sn_slug r \<noteq> start_slug \<and> r \<in> ((adjacent types S) ^^ d) `` start \<and>
         (\<forall>e. 1 \<le> e \<and> e < d \<longrightarrow> r \<notin> ((adjacent types S) ^^ e) `` start)} \<and>
    sorted (rev (map sh_score (sqlite_search_graph start_slug hops types S))) \<and>
    distinct (map (nd_id \<circ> sh_node) (sqlite_search_graph start_slug hops types S))"
proof -
  let ?start = "filter (\<lambda>n. sn_id n = i) (ss_nodes S)"
  let ?rows = "shallowest [] (graph_rows start_slug hops types S ?start)"
  have dist: "distinct (map sn_id (ss_nodes S))" using assms(1) by (simp add: sqlite_inv_def)
  have st: "set ?start = start" by (auto simp: start_def)
  have "sorted (map fst ?rows)" "distinct (row_ids ?rows)"
    using shallowest_spec [of "[]"] sorted_graph_rows [of start_slug hops types S ?start] by simp_all
  moreover have "sorted_wrt (\<lambda>x y. x \<ge> y) (map (\<lambda>p. 1 / (1 + real (fst p))) xs)" if "sorted (map fst xs)"
    for xs :: "(nat \<times> sql_node) list"
    using that by (induction xs) (auto simp: frac_le)
  ultimately have "sorted (rev (map sh_score (sqlite_search_graph start_slug hops types S)))"
    "distinct (map (nd_id \<circ> sh_node) (sqlite_search_graph start_slug hops types S))"
    by (simp_all add: search_graph_unfold [OF assms(2-4)] split_def comp_def row_to_node_def sorted_wrt_rev row_ids_def)
  moreover have "set (sqlite_search_graph start_slug hops types S) =
    (\<lambda>(d, r). \<lparr>sh_node = row_to_node S r, sh_score = 1 / (1 + real d), sh_reason = ''graph''\<rparr>) ` set ?rows"
    by (simp add: search_graph_unfold [OF assms(2-4)])
  moreover have "\<dots> = {\<lparr>sh_node = row_to_node S r, sh_score = 1 / (1 + real d), sh_reason = ''graph''\<rparr> | r d.
      (d, r) \<in> set ?rows}" by auto
  ultimately show ?thesis unfolding shallowest_graph_rows [OF dist] st by simp
qed

definition demo_store :: sqlite_store where
  "demo_store = snd (sqlite_put_node 6 ((demo_node ''U'' ''b'')\<lparr>nd_id := ''j'', nd_slug := ''t''\<rparr>)
     (snd (sqlite_put_node 5 ((demo_node ''T'' ''b'')\<lparr>nd_links := [demo_link]\<rparr>) sqlite_empty)))"

theorem sqlite_graph_search_shortest_witness:
  "set (sqlite_search_graph ''s'' 2 None demo_store) =
      {\<lparr>sh_node = row_to_node demo_store r, sh_score = 1 / (1 + real d), sh_reason = ''graph''\<rparr> | r d.
         1 \<le> d \<and> d \<le> 2 \<and> sn_slug r \<noteq> ''s'' \<and>
         r \<in> ((adjacent None demo_store) ^^ d) `` {n \<in> set (ss_nodes demo_store). sn_id n = ''i''} \<and>
         (\<forall>e. 1 \<le> e \<and> e < d \<longrightarrow> r \<notin> ((adjacent None demo_store) ^^ e) `` {n \<in> set (ss_nodes demo_store). sn_id n = ''i''})} \<and>
    sorted (rev (map sh_score (sqlite_search_graph ''s'' 2 None demo_store))) \<and>
    distinct (map (nd_id \<circ> sh_node) (sqlite_search_graph ''s'' 2 None demo_store))"
proof (rule sqlite_graph_search_shortest)
  show "sqlite_inv demo_store"
    unfolding demo_store_def by (intro sqlite_inv_put sqlite_inv_empty) (simp_all add: demo_node_def)
  show "sqlite_resolve_slug demo_store ''s'' = Some ''i''"
    by (simp add: demo_store_def sqlite_put_node_def slug_clash_def sqlite_empty_def upsert_row_def node_to_row_def
        demo_node_def sqlite_register_slug_def node_ids_def sqlite_resolve_slug_def Let_def)
qed simp_all

end
