(* ===== verification/Rlm.thy ===== *)
theory Rlm imports Storage_Base "HOL-Library.Product_Lexorder" begin

text \<open>
  The retrieval layer of \<open>memu/rlm\<close>: the scoring primitives (\<open>scoring.py\<close>), reciprocal
  rank fusion and the hybrid retriever (\<open>retriever.py\<close>), and the recursive orchestrator
  (\<open>orchestrator.py\<close>). The backend's searches, the embedder, the decomposer and the
  retriever of the orchestrator are arguments; a search that raises is \<open>None\<close>.
\<close>

section \<open>Scoring\<close>

definition recency_decay :: "real \<Rightarrow> real \<Rightarrow> real" where
  "recency_decay days halflife =
     (let d = (if days < 0 then 0 else days)
      in if halflife \<le> 0 then 1 else (1 / 2) powr (d / halflife))"

definition reinforcement_boost :: "int \<Rightarrow> real" where
  "reinforcement_boost r = (if r \<le> 0 then 0 else ln (real_of_int (r + 1)))"

definition score_combined :: "real \<Rightarrow> int \<Rightarrow> real \<Rightarrow> real \<Rightarrow> real" where
  "score_combined similarity r days halflife =
     similarity * ln (real_of_int (max 0 r) + exp 1) * recency_decay days halflife"

text \<open>\<open>days_since\<close> of a missing timestamp is infinite, here \<open>None\<close>.\<close>

definition days_since :: "time option \<Rightarrow> time \<Rightarrow> real option" where
  "days_since ts now = map_option (\<lambda>t. real_of_int (now - t) / (1000000 * 86400)) ts"

section \<open>Reciprocal rank fusion\<close>

record rrf_entry =
  fe_hit :: search_hit
  fe_score :: real
  fe_best :: nat
  fe_reasons :: "string list"

definition hit_key :: "search_hit \<Rightarrow> string" where
  "hit_key h = (if nd_id (sh_node h) \<noteq> [] then nd_id (sh_node h) else nd_slug (sh_node h))"

definition rrf_add :: "nat \<Rightarrow> nat \<Rightarrow> search_hit \<Rightarrow> (string, rrf_entry) dict \<Rightarrow> (string, rrf_entry) dict" where
  "rrf_add rrf_k rank h d =
     (let e = (case dict_get d (hit_key h) of
                 None \<Rightarrow> \<lparr>fe_hit = h, fe_score = 0, fe_best = rank, fe_reasons = []\<rparr>
               | Some e \<Rightarrow> e)
      in dict_set (hit_key h)
           (e\<lparr>fe_score := fe_score e + 1 / (real rrf_k + real rank),
              fe_best := (if rank < fe_best e then rank else fe_best e),
              fe_reasons := (if sh_reason h \<in> set (fe_reasons e) then fe_reasons e else fe_reasons e @ [sh_reason h])\<rparr>) d)"

fun rrf_list :: "nat \<Rightarrow> nat \<Rightarrow> search_hit list \<Rightarrow> (string, rrf_entry) dict \<Rightarrow> (string, rrf_entry) dict" where
  "rrf_list rrf_k rank [] d = d"
| "rrf_list rrf_k rank (h # hs) d = rrf_list rrf_k (rank + 1) hs (rrf_add rrf_k rank h d)"

definition rrf_table :: "nat \<Rightarrow> search_hit list list \<Rightarrow> (string, rrf_entry) dict" where
  "rrf_table rrf_k ls = fold (rrf_list rrf_k 1) ls []"

definition fused_hit :: "rrf_entry \<Rightarrow> search_hit" where
  "fused_hit e =
     (let reason = join_strings ''+'' (sort (fe_reasons e))
      in \<lparr>sh_node = sh_node (fe_hit e), sh_score = fe_score e,
          sh_reason = (if reason \<noteq> [] then reason else sh_reason (fe_hit e))\<rparr>)"

definition rrf_order :: "string \<times> rrf_entry \<Rightarrow> real \<times> nat" where
  "rrf_order p = (- fe_score (snd p), fe_best (snd p))"

definition rrf_fuse :: "nat \<Rightarrow> nat \<Rightarrow> search_hit list list \<Rightarrow> search_hit list" where
  "rrf_fuse k rrf_k ls = map (\<lambda>p. fused_hit (snd p)) (take k (sort_key rrf_order (rrf_table rrf_k ls)))"

section \<open>The hybrid retriever\<close>

record retrieval_plan =
  pl_fts :: bool
  pl_vector :: bool
  pl_graph :: bool

definition default_plan :: retrieval_plan where
  "default_plan = \<lparr>pl_fts = True, pl_vector = True, pl_graph = False\<rparr>"

text \<open>A backend as the retriever sees it: its capabilities and searches.\<close>

record retrieval_backend =
  rb_capabilities :: "string set"
  rb_fts :: "string \<Rightarrow> nat \<Rightarrow> string option \<Rightarrow> search_hit list option"
  rb_vector :: "real list \<Rightarrow> nat \<Rightarrow> string option \<Rightarrow> search_hit list option"
  rb_graph :: "string \<Rightarrow> nat \<Rightarrow> search_hit list option"

record embedder =
  eb_dimensions :: nat
  eb_embed :: "string \<Rightarrow> real list option option"

definition null_embedder :: embedder where
  "null_embedder = \<lparr>eb_dimensions = 0, eb_embed = \<lambda>_. Some None\<rparr>"

definition vector_task :: "retrieval_backend \<Rightarrow> embedder \<Rightarrow> string \<Rightarrow> nat \<Rightarrow> string option \<Rightarrow> search_hit list option" where
  "vector_task B emb query k kind =
     (case eb_embed emb query of
        None \<Rightarrow> None
      | Some None \<Rightarrow> Some []
      | Some (Some v) \<Rightarrow> if v = [] then Some [] else rb_vector B v k kind)"

definition hybrid_retrieve ::
  "retrieval_backend \<Rightarrow> embedder option \<Rightarrow> nat \<Rightarrow> retrieval_plan \<Rightarrow> string option \<Rightarrow> string option \<Rightarrow> string \<Rightarrow> nat \<Rightarrow> search_hit list" where
  "hybrid_retrieve B emb rrf_k plan kind seed query k =
     (let run_fts = pl_fts plan \<and> ''fts'' \<in> rb_capabilities B;
          run_vec = pl_vector plan \<and> ''vector'' \<in> rb_capabilities B \<and> emb \<noteq> None \<and> eb_dimensions (the emb) > 0;
          run_graph = pl_graph plan \<and> ''graph'' \<in> rb_capabilities B \<and> seed \<noteq> None;
          results = (if run_fts then [rb_fts B query (max k 10) kind] else [])
                  @ (if run_vec then [vector_task B (the emb) query (max k 10) kind] else [])
                  @ (if run_graph then [rb_graph B (the seed) 1] else [])
      in rrf_fuse k rrf_k (map the (filter (\<lambda>r. r \<noteq> None) results)))"

section \<open>The orchestrator\<close>

record rlm_context =
  cx_max_depth :: nat
  cx_k :: nat
  cx_budget :: int
  cx_counter :: "string \<Rightarrow> int"

definition default_counter :: "string \<Rightarrow> int" where
  "default_counter s = max 1 (int (length s) div 4)"

definition default_context :: rlm_context where
  "default_context = \<lparr>cx_max_depth = 3, cx_k = 8, cx_budget = 8000, cx_counter = default_counter\<rparr>"

datatype rlm_result =
  RLMResult (rr_task: string) (rr_answer: string) (rr_slugs: "string list") (rr_depth: nat) (rr_children: "rlm_result list")

definition noop_decompose :: "string \<Rightarrow> nat \<Rightarrow> string list" where
  "noop_decompose task fanout = [task]"

definition concat_aggregate :: "string \<Rightarrow> rlm_result list \<Rightarrow> rlm_result" where
  "concat_aggregate task parts =
     RLMResult task (join_strings (newline @ newline) (filter (\<lambda>a. a \<noteq> []) (map rr_answer parts)))
       (dedup (concat (map rr_slugs parts))) 0 parts"

definition as_result :: "string \<Rightarrow> wiki_node list \<Rightarrow> nat \<Rightarrow> rlm_result" where
  "as_result task nodes depth =
     RLMResult task
       (join_strings newline (map (\<lambda>n. ''- [['' @ nd_slug n @ '']] '' @ em_dash @ '' '' @ nd_title n) nodes))
       (map nd_slug nodes) depth []"

definition rlm_leaf :: "(string \<Rightarrow> nat \<Rightarrow> search_hit list) \<Rightarrow> rlm_context \<Rightarrow> string \<Rightarrow> rlm_result" where
  "rlm_leaf retrieve ctx task = as_result task (map sh_node (retrieve task (cx_k ctx))) (cx_max_depth ctx)"

function solve ::
  "(string \<Rightarrow> nat \<Rightarrow> search_hit list) \<Rightarrow> (string \<Rightarrow> nat \<Rightarrow> string list) \<Rightarrow> (string \<Rightarrow> rlm_result list \<Rightarrow> rlm_result) \<Rightarrow>
   rlm_context \<Rightarrow> string \<Rightarrow> nat \<Rightarrow> int \<Rightarrow> rlm_result" where
  "solve retrieve decompose aggregate ctx task depth budget =
     (if depth \<ge> cx_max_depth ctx then rlm_leaf retrieve ctx task
      else
       (let sub0 = decompose task (cx_k ctx);
            sub = (if sub0 = [] then [task] else sub0)
        in aggregate task (map (\<lambda>q.
             let nodes = map sh_node (retrieve q (cx_k ctx)) in
             if nodes = [] then RLMResult q [] [] (depth + 1) []
             else if sum_list (map (\<lambda>n. cx_counter ctx (nd_body n)) nodes) > budget \<and> depth + 1 < cx_max_depth ctx
             then solve retrieve decompose aggregate ctx q (depth + 1) (budget div 2)
             else as_result q nodes (depth + 1)) sub)))"
  by auto
termination
  by (relation "measure (\<lambda>(retrieve, decompose, aggregate, ctx, task, depth, budget). cx_max_depth ctx - depth)") auto

declare solve.simps [simp del]

section \<open>What fusion computes\<close>

fun rank_score :: "nat \<Rightarrow> string \<Rightarrow> nat \<Rightarrow> search_hit list \<Rightarrow> real" where
  "rank_score rrf_k key rank [] = 0"
| "rank_score rrf_k key rank (h # hs) =
     (if hit_key h = key then 1 / (real rrf_k + real rank) else 0) + rank_score rrf_k key (rank + 1) hs"

definition total_score :: "nat \<Rightarrow> string \<Rightarrow> search_hit list list \<Rightarrow> real" where
  "total_score rrf_k key ls = sum_list (map (rank_score rrf_k key 1) ls)"

definition all_hits :: "search_hit list list \<Rightarrow> search_hit set" where
  "all_hits ls = (\<Union>l \<in> set ls. set l)"

definition entry_ok :: "search_hit set \<Rightarrow> string \<Rightarrow> rrf_entry \<Rightarrow> bool" where
  "entry_ok H key e \<longleftrightarrow> fe_hit e \<in> H \<and> hit_key (fe_hit e) = key"

definition score_of :: "(string, rrf_entry) dict \<Rightarrow> string \<Rightarrow> real" where
  "score_of d key = (case dict_get d key of None \<Rightarrow> 0 | Some e \<Rightarrow> fe_score e)"

definition table_ok :: "search_hit set \<Rightarrow> (string, rrf_entry) dict \<Rightarrow> bool" where
  "table_ok H d \<longleftrightarrow> wf_dict d \<and> dom (dict_get d) = hit_key ` H \<and> (\<forall>key e. dict_get d key = Some e \<longrightarrow> entry_ok H key e)"

lemma rrf_add_ok:
  assumes "table_ok H d"
  shows "table_ok (insert h H) (rrf_add K rank h d)"
proof -
  obtain e where e: "rrf_add K rank h d = dict_set (hit_key h) e d"
    and hit: "fe_hit e = (case dict_get d (hit_key h) of None \<Rightarrow> h | Some e0 \<Rightarrow> fe_hit e0)"
    by (auto simp: rrf_add_def Let_def split: option.split)
  have "entry_ok (insert h H) (hit_key h) e"
    using assms hit by (auto simp: table_ok_def entry_ok_def split: option.splits)
  moreover have "dom (dict_get (rrf_add K rank h d)) = hit_key ` insert h H"
    unfolding e dict_get_set dom_fun_upd using assms by (simp add: table_ok_def)
  ultimately show ?thesis
    using assms by (auto simp: e table_ok_def entry_ok_def)
qed

lemma rrf_add_score:
  "score_of (rrf_add K rank h d) key = score_of d key + (if hit_key h = key then 1 / (real K + real rank) else 0)"
  by (auto simp: score_of_def rrf_add_def Let_def split: option.splits)

lemma rrf_list_ok: "table_ok H d \<Longrightarrow> table_ok (H \<union> set hs) (rrf_list K rank hs d)"
proof (induction hs arbitrary: rank d H)
  case (Cons h hs)
  from Cons.IH [OF rrf_add_ok [OF Cons.prems]] show ?case by simp
qed simp

lemma rrf_list_score: "score_of (rrf_list K rank hs d) key = score_of d key + rank_score K key rank hs"
  by (induction hs arbitrary: rank d) (simp_all add: rrf_add_score)

lemma rrf_fold_ok: "table_ok H d \<Longrightarrow> table_ok (H \<union> all_hits ls) (fold (rrf_list K 1) ls d)"
proof (induction ls arbitrary: d H)
  case (Cons l ls)
  from Cons.IH [OF rrf_list_ok [OF Cons.prems]] show ?case by (simp add: all_hits_def Un_assoc)
qed (simp add: all_hits_def)

lemma rrf_fold_score: "score_of (fold (rrf_list K 1) ls d) key = score_of d key + total_score K key ls"
  by (induction ls arbitrary: d) (simp_all add: rrf_list_score total_score_def)

lemma rrf_table_ok: "table_ok (all_hits ls) (rrf_table K ls)"
  using rrf_fold_ok [of "{}" "[]" ls K] by (simp add: rrf_table_def table_ok_def)

lemma rrf_table_score: "dict_get (rrf_table K ls) key = Some e \<Longrightarrow> fe_score e = total_score K key ls"
  using rrf_fold_score [of K ls "[]" key] by (simp add: rrf_table_def score_of_def)

lemma fused_hit_facts [simp]:
  "sh_node (fused_hit e) = sh_node (fe_hit e)" "sh_score (fused_hit e) = fe_score e" "hit_key (fused_hit e) = hit_key (fe_hit e)"
  by (simp_all add: fused_hit_def Let_def hit_key_def)

lemma sorted_by_score:
  assumes "sorted (map rrf_order ps)"
  shows "sorted (rev (map (\<lambda>p. fe_score (snd p)) ps))"
  using assms by (induction ps) (auto simp: sorted_append rrf_order_def)

section \<open>Properties of the retrieval layer\<close>

text \<open>
  Fusion gives each distinct hit, once, the sum of its reciprocal ranks over all
  lists, in falling order of that sum; it returns the best ones when there are more than
  asked for, and all of them otherwise.
\<close>
theorem rrf_fuse_ranks:
  "(\<forall>h \<in> set (rrf_fuse k K ls). sh_score h = total_score K (hit_key h) ls \<and> sh_node h \<in> sh_node ` all_hits ls) \<and>
   distinct (map hit_key (rrf_fuse k K ls)) \<and> sorted (rev (map sh_score (rrf_fuse k K ls))) \<and>
   length (rrf_fuse k K ls) = min k (card (hit_key ` all_hits ls)) \<and>
   (\<forall>key \<in> hit_key ` all_hits ls. key \<in> hit_key ` set (rrf_fuse k K ls) \<or>
      (\<forall>h \<in> set (rrf_fuse k K ls). total_score K key ls \<le> sh_score h))"
proof -
  let ?d = "rrf_table K ls" and ?H = "all_hits ls"
  let ?s = "sort_key rrf_order ?d"
  have ok: "wf_dict ?d" "dom (dict_get ?d) = hit_key ` ?H" "\<And>key e. dict_get ?d key = Some e \<Longrightarrow> entry_ok ?H key e"
    using rrf_table_ok [of ls K] by (auto simp: table_ok_def)
  have entry: "hit_key (fe_hit (snd p)) = fst p" "fe_hit (snd p) \<in> ?H" "fe_score (snd p) = total_score K (fst p) ls"
    if "p \<in> set ?d" for p
  proof -
    have "dict_get ?d (fst p) = Some (snd p)" using that ok(1) by (simp add: wf_dict_def)
    with ok(3) rrf_table_score show "hit_key (fe_hit (snd p)) = fst p" "fe_hit (snd p) \<in> ?H"
      "fe_score (snd p) = total_score K (fst p) ls" by (simp_all add: entry_ok_def)
  qed
  have fuse: "rrf_fuse k K ls = map (\<lambda>p. fused_hit (snd p)) (take k ?s)" by (simp add: rrf_fuse_def)
  have sub: "p \<in> set ?d" if "p \<in> set (take k ?s)" for p
    using in_set_takeD [OF that] by simp
  have "sh_score h = total_score K (hit_key h) ls \<and> sh_node h \<in> sh_node ` ?H" if h: "h \<in> set (rrf_fuse k K ls)" for h
  proof -
    obtain p where p: "p \<in> set (take k ?s)" "h = fused_hit (snd p)" using h unfolding fuse set_map by (elim imageE) blast
    with entry [OF sub [OF p(1)]] show ?thesis by simp
  qed
  moreover have keys: "map hit_key (rrf_fuse k K ls) = map fst (take k ?s)"
    unfolding fuse map_map using entry(1) [OF sub] by (intro map_cong) simp_all
  moreover have "distinct (map fst ?s)"
  proof -
    have "inj_on fst (set ?s)" "distinct ?s" using ok(1) by (simp_all add: wf_dict_def distinct_map)
    then show ?thesis by (simp add: distinct_map)
  qed
  then have "distinct (map fst (take k ?s))" by (simp add: take_map [symmetric])
  moreover have "sorted (map rrf_order (take k ?s))" by (simp add: take_map [symmetric] sorted_wrt_take)
  then have "sorted (rev (map sh_score (rrf_fuse k K ls)))"
    using sorted_by_score unfolding fuse by (simp add: comp_def)
  moreover have "length (rrf_fuse k K ls) = min k (card (hit_key ` ?H))"
    using length_dict [OF ok(1)] ok(2) by (simp add: fuse min.commute)
  moreover have "key \<in> hit_key ` set (rrf_fuse k K ls) \<or> (\<forall>h \<in> set (rrf_fuse k K ls). total_score K key ls \<le> sh_score h)"
    if key: "key \<in> hit_key ` ?H" for key
  proof (cases "key \<in> set (map fst (take k ?s))")
    case True
    then show ?thesis unfolding keys [symmetric] by simp
  next
    case False
    have "key \<in> dom (dict_get ?d)" using key ok(2) by simp
    then obtain e where "dict_get ?d key = Some e" unfolding dom_def by blast
    then have e: "(key, e) \<in> set ?d" by (rule map_of_SomeD)
    then have "(key, e) \<in> set (take k ?s @ drop k ?s)" unfolding append_take_drop_id by simp
    moreover have "(key, e) \<notin> set (take k ?s)" using False imageI [of "(key, e)" _ fst] by auto
    ultimately have drop: "(key, e) \<in> set (drop k ?s)" unfolding set_append by blast
    have "sorted (map rrf_order (take k ?s @ drop k ?s))" unfolding append_take_drop_id by simp
    then have "sorted (map rrf_order (take k ?s) @ map rrf_order (drop k ?s))" by (simp only: map_append)
    then have "rrf_order p \<le> rrf_order (key, e)" if "p \<in> set (take k ?s)" for p
      using that drop by (auto simp: sorted_append)
    then have "fe_score e \<le> fe_score (snd p)" if p: "p \<in> set (take k ?s)" for p
    proof -
      from p have "rrf_order p \<le> rrf_order (key, e)" by fact
      then show ?thesis by (auto simp: rrf_order_def)
    qed
    then have "total_score K key ls \<le> sh_score h" if "h \<in> set (rrf_fuse k K ls)" for h
      using that entry(3) [OF e] unfolding fuse by auto
    then show ?thesis by blast
  qed
  ultimately show ?thesis by simp
qed

definition demo_hit :: "string \<Rightarrow> search_hit" where
  "demo_hit i = \<lparr>sh_node = (demo_node ''T'' ''b'')\<lparr>nd_id := i, nd_slug := i\<rparr>, sh_score = 1, sh_reason = ''fts''\<rparr>"

theorem rrf_fuse_ranks_witness:
  "length (rrf_fuse 1 60 [[demo_hit ''a'', demo_hit ''b''], [demo_hit ''b'']]) = 1"
proof -
  have "all_hits [[demo_hit ''a'', demo_hit ''b''], [demo_hit ''b'']] = {demo_hit ''a'', demo_hit ''b''}"
    by (auto simp: all_hits_def)
  moreover have "hit_key ` {demo_hit ''a'', demo_hit ''b''} = {''a'', ''b''}"
    by (simp add: hit_key_def demo_hit_def)
  ultimately show ?thesis
    using rrf_fuse_ranks [of 1 60 "[[demo_hit ''a'', demo_hit ''b''], [demo_hit ''b'']]"] by (simp del: rrf_fuse_def)
qed

text \<open>
  For a positive similarity the combined score rises strictly with the reinforcement
  count and falls with age; a negative age scores like no age, and one half-life halves it.
\<close>
theorem score_combined_monotone:
  assumes "0 < s" "0 < h"
  shows "(0 \<le> r \<and> r < r' \<longrightarrow> score_combined s r d h < score_combined s r' d h) \<and>
    (d \<le> d' \<longrightarrow> score_combined s r d' h \<le> score_combined s r d h) \<and>
    (d \<le> 0 \<longrightarrow> score_combined s r d h = score_combined s r 0 h) \<and>
    score_combined s r h h = score_combined s r 0 h / 2"
proof -
  have decay: "recency_decay d h = (1 / 2) powr (max 0 d / h)" for d
    using assms(2) by (simp add: recency_decay_def Let_def max_def)
  have pos: "0 < recency_decay d h" for d by (simp add: decay)
  have boost: "1 \<le> ln (real_of_int (max 0 r) + exp 1)" for r
  proof -
    have "ln (exp 1) \<le> ln (real_of_int (max 0 r) + exp 1)" by (subst ln_le_cancel_iff) (auto intro: add_nonneg_pos)
    then show ?thesis by simp
  qed
  have "ln (real_of_int (max 0 r) + exp 1) < ln (real_of_int (max 0 r') + exp 1)" if "0 \<le> r" "r < r'" for r r' :: int
    using that by (subst ln_less_cancel_iff) (auto intro: add_nonneg_pos)
  then have "0 \<le> r \<and> r < r' \<longrightarrow> score_combined s r d h < score_combined s r' d h"
    using assms(1) pos [of d] by (simp add: score_combined_def)
  moreover have "score_combined s r d' h \<le> score_combined s r d h" if "d \<le> d'"
  proof -
    have "recency_decay d' h \<le> recency_decay d h"
      unfolding decay using that assms(2) by (intro powr_mono' divide_right_mono) auto
    then show ?thesis using assms(1) boost [of r] by (simp add: score_combined_def mult_left_mono)
  qed
  ultimately show ?thesis using assms by (simp add: score_combined_def decay)
qed

theorem score_combined_monotone_witness:
  "score_combined 1 0 3 30 < score_combined 1 2 3 30 \<and> score_combined 1 1 9 30 \<le> score_combined 1 1 4 30"
  using score_combined_monotone [of 1 30 0 2 3 3] score_combined_monotone [of 1 30 1 1 4 9] by simp

lemma dedup_idem [simp]: "dedup (dedup xs) = dedup xs"
  by (rule dedup_distinct) simp

lemma default_solve:
  assumes "depth < cx_max_depth ctx"
  shows "rr_slugs (solve retrieve noop_decompose concat_aggregate ctx task depth budget) =
      dedup (map (\<lambda>h. nd_slug (sh_node h)) (retrieve task (cx_k ctx))) \<and>
    rr_answer (solve retrieve noop_decompose concat_aggregate ctx task depth budget) =
      rr_answer (as_result task (map sh_node (retrieve task (cx_k ctx))) 0)"
  using assms
proof (induction "cx_max_depth ctx - depth" arbitrary: depth budget)
  case (Suc n)
  let ?hits = "retrieve task (cx_k ctx)"
  have answer: "rr_answer (as_result task ns d) = rr_answer (as_result task ns 0)" for ns d by (simp add: as_result_def)
  have one: "rr_answer (concat_aggregate task [r]) = rr_answer r" "rr_slugs (concat_aggregate task [r]) = dedup (rr_slugs r)" for r
    by (simp_all add: concat_aggregate_def)
  show ?case
  proof (cases "depth + 1 < cx_max_depth ctx")
    case True
    then have "n = cx_max_depth ctx - (depth + 1)" using Suc.hyps(2) by simp
    note IH = Suc.hyps(1) [OF this True, of "budget div 2"]
    show ?thesis
      using Suc.prems IH True answer one
      by (subst (1 2) solve.simps) (auto simp: Let_def noop_decompose_def as_result_def comp_def)
  next
    case False
    then show ?thesis
      using Suc.prems answer one
      by (subst (1 2) solve.simps) (auto simp: Let_def noop_decompose_def as_result_def comp_def)
  qed
qed simp

fun rlm_nodes :: "rlm_result \<Rightarrow> rlm_result set" where
  "rlm_nodes (RLMResult t a s d cs) = insert (RLMResult t a s d cs) (\<Union>c \<in> set cs. rlm_nodes c)"

definition retrieved :: "(string \<Rightarrow> nat \<Rightarrow> search_hit list) \<Rightarrow> nat \<Rightarrow> string set" where
  "retrieved retrieve k = {nd_slug (sh_node h) | h q. h \<in> set (retrieve q k)}"

definition sound_tree :: "(string \<Rightarrow> nat \<Rightarrow> search_hit list) \<Rightarrow> rlm_context \<Rightarrow> rlm_result \<Rightarrow> bool" where
  "sound_tree retrieve ctx r \<longleftrightarrow>
     (\<forall>x \<in> rlm_nodes r. rr_depth x \<le> cx_max_depth ctx \<and> set (rr_slugs x) \<subseteq> retrieved retrieve (cx_k ctx))"

lemma sound_leaf: "d \<le> cx_max_depth ctx \<Longrightarrow>
   sound_tree retrieve ctx (as_result q (map sh_node (retrieve q (cx_k ctx))) d)"
  by (auto simp: sound_tree_def as_result_def retrieved_def)

lemma rlm_nodes_self: "r \<in> rlm_nodes r"
  by (cases r) simp

lemma sound_aggregate:
  assumes "\<And>r. r \<in> set parts \<Longrightarrow> sound_tree retrieve ctx r"
  shows "sound_tree retrieve ctx (concat_aggregate task parts)"
  using assms rlm_nodes_self unfolding sound_tree_def concat_aggregate_def by fastforce

lemma solve_sound: "sound_tree retrieve ctx (solve retrieve decompose concat_aggregate ctx task depth budget)"
proof (induction "cx_max_depth ctx - depth" arbitrary: task depth budget rule: less_induct)
  case less
  show ?case
  proof (cases "depth \<ge> cx_max_depth ctx")
    case True
    then show ?thesis by (subst solve.simps) (simp add: rlm_leaf_def sound_leaf)
  next
    case False
    have rec: "sound_tree retrieve ctx (solve retrieve decompose concat_aggregate ctx q (depth + 1) b)" for q b
      using False by (intro less) simp
    have empty: "sound_tree retrieve ctx (RLMResult q [] [] (depth + 1) [])" for q
      using False by (simp add: sound_tree_def)
    have leaf: "sound_tree retrieve ctx (as_result q (map sh_node (retrieve q (cx_k ctx))) (depth + 1))" for q
      using False by (intro sound_leaf) simp
    show ?thesis
      using False by (subst solve.simps) (auto simp: Let_def rec [simplified] empty [simplified] leaf [simplified] intro!: sound_aggregate)
  qed
qed

text \<open>
  (C10) Whatever the decomposer returns, the recursion ends; every result of the tree has
  at most the maximal depth and cites only slugs the retriever returned. Without a
  decomposer the answer and its slugs are those of one retrieval of the task: neither the
  token budget nor the depth changes them.
\<close>
theorem orchestrator_cites_retrieved:
  "sound_tree retrieve ctx (solve retrieve decompose concat_aggregate ctx task depth budget) \<and>
   (0 < cx_max_depth ctx \<longrightarrow>
      rr_slugs (solve retrieve noop_decompose concat_aggregate ctx task 0 budget) =
        dedup (map (\<lambda>h. nd_slug (sh_node h)) (retrieve task (cx_k ctx))) \<and>
      rr_answer (solve retrieve noop_decompose concat_aggregate ctx task 0 budget) =
        rr_answer (as_result task (map sh_node (retrieve task (cx_k ctx))) 0))"
  using solve_sound default_solve by blast

theorem orchestrator_cites_retrieved_witness:
  "rr_slugs (solve (\<lambda>q k. [demo_hit ''a'', demo_hit ''a'']) noop_decompose concat_aggregate default_context ''t'' 0 1) = [''a'']"
proof -
  have "0 < cx_max_depth default_context" by (simp add: default_context_def)
  with orchestrator_cites_retrieved [of "\<lambda>q k. [demo_hit ''a'', demo_hit ''a'']" default_context noop_decompose "''t''" 0 1]
  show ?thesis by (simp add: demo_hit_def dedup_def)
qed

end
