(* ===== verification/Markdown_Backend.thy ===== *)
theory Markdown_Backend imports Slug_Registry begin

text \<open>
  \<open>MarkdownBackend\<close> of \<open>memu/storage/markdown_backend.py\<close> on the vault layout of
  \<open>memu/wiki/vault.py\<close>. The vault is a dict from the paths of its markdown files, in the
  order \<open>rglob\<close> yields them, to what \<open>parse_frontmatter\<close> makes of their text: a
  frontmatter dict and a body. \<open>reload\<close> is what loading a dumped frontmatter gives back
  (the identity for a YAML library, see \<open>Frontmatter\<close> for the built-in fallback), and \<open>H\<close>
  the hash function of the content hash. A scan that meets a frontmatter whose links are
  not objects raises. Modification times are not modelled, so \<open>iter_changed\<close> is left out.
\<close>

type_synonym md_file = "payload \<times> string"
type_synonym vault = "(string, md_file) dict"

section \<open>Paths\<close>

definition strip_char :: "char \<Rightarrow> string \<Rightarrow> string" where
  "strip_char c s = rev (dropWhile (\<lambda>x. x = c) (rev (dropWhile (\<lambda>x. x = c) s)))"

definition path_for :: "string \<Rightarrow> string \<Rightarrow> store_error + string" where
  "path_for kind slug =
     (let safe = strip_char (CHR ''/'') (replace_all ''..'' [] slug) in
      if kind = ''note'' then Inr (''notes/'' @ safe @ ''.md'')
      else if kind = ''code'' then Inr (''code/'' @ safe @ ''.md'')
      else if kind = ''paper'' then Inr (''papers/'' @ safe @ ''.md'')
      else if kind = ''tasks'' \<or> kind = ''task'' then Inr (''tasks/'' @ safe @ ''.md'')
      else Inl (UnknownKind kind))"

section \<open>Reading a file\<close>

fun read_links :: "string \<Rightarrow> json list \<Rightarrow> store_error + link_record list" where
  "read_links slug [] = Inr []"
| "read_links slug (JObj l # js) =
     (case read_links slug js of
        Inl e \<Rightarrow> Inl e
      | Inr ls \<Rightarrow>
          Inr (if nonempty (opt_str_field l ''slug'')
               then \<lparr>lk_src_slug = slug, lk_dst_slug = str_field l ''slug'' [], lk_type = str_field l ''type'' ''related'',
                     lk_strength = num_field l ''strength'' (1 / 2), lk_src_id = None, lk_dst_id = None\<rparr> # ls
               else ls))"
| "read_links slug (j # js) = Inl AttributeError"

definition parse_dt :: "payload \<Rightarrow> string \<Rightarrow> time option" where
  "parse_dt fm k = (case dict_get fm k of Some (JInt t) \<Rightarrow> Some t | _ \<Rightarrow> None)"

definition list_field :: "payload \<Rightarrow> string \<Rightarrow> json list" where
  "list_field fm k = (case dict_get fm k of Some (JList js) \<Rightarrow> js | _ \<Rightarrow> [])"

fun json_str :: "json \<Rightarrow> string" where
  "json_str (JStr s) = s"
| "json_str _ = []"

text \<open>The title falls back on the stem of the file name; an empty source reads as given.\<close>

definition path_stem :: "string \<Rightarrow> string" where
  "path_stem p = (let name = rev (takeWhile (\<lambda>c. c \<noteq> CHR ''/'') (rev p)) in take (length name - 3) name)"

definition read_node :: "string \<Rightarrow> md_file \<Rightarrow> store_error + wiki_node option" where
  "read_node p f =
     (let fm = fst f in
      if \<not> nonempty (opt_str_field fm ''id'') \<or> \<not> nonempty (opt_str_field fm ''slug'') then Inr None
      else
       (let slug = str_field fm ''slug'' [] in
        case read_links slug (list_field fm ''links'') of
          Inl e \<Rightarrow> Inl e
        | Inr ls \<Rightarrow>
            Inr (Some \<lparr>nd_id = str_field fm ''id'' [], nd_slug = slug, nd_kind = str_field fm ''kind'' ''note'',
              nd_title = (if nonempty (opt_str_field fm ''title'') then str_field fm ''title'' [] else path_stem p),
              nd_body = snd f, nd_tags = map json_str (list_field fm ''tags''), nd_links = ls,
              nd_metadata = obj_field fm ''metadata'', nd_created = parse_dt fm ''created'',
              nd_updated = parse_dt fm ''updated'', nd_happened = parse_dt fm ''happened_at'',
              nd_salience = num_field fm ''salience'' (1 / 2), nd_confidence = num_field fm ''confidence'' 1,
              nd_agent = str_field fm ''agent_id'' ''user'', nd_type = str_field fm ''memory_type'' ''observation'',
              nd_source = (case dict_get fm ''source'' of Some (JObj s) \<Rightarrow> Some s | _ \<Rightarrow> None),
              nd_extra = obj_field fm ''extra'',
              nd_reinforced = (case dict_get fm ''reinforcement_count'' of Some (JInt i) \<Rightarrow> i | _ \<Rightarrow> 0),
              nd_last_reinforced = parse_dt fm ''last_reinforced_at''\<rparr>)))"

section \<open>Writing a file\<close>

text \<open>What reading gives for a written body: it ends with a newline, and one leading newline is dropped.\<close>

definition stored_body :: "string \<Rightarrow> string" where
  "stored_body b =
     (let b1 = (if b \<noteq> [] \<and> last b = CHR 0x0A then b else b @ newline)
      in if hd b1 = CHR 0x0A then tl b1 else b1)"

definition write_node :: "(payload \<Rightarrow> payload) \<Rightarrow> wiki_node \<Rightarrow> vault \<Rightarrow> (store_error + wiki_node) \<times> vault" where
  "write_node reload n V =
     (case path_for (nd_kind n) (nd_slug n) of
        Inl e \<Rightarrow> (Inl e, V)
      | Inr p \<Rightarrow>
          (Inr n, dict_set p (reload (to_frontmatter n),
             stored_body (if nd_body n \<noteq> [] then nd_body n else ''# '' @ nd_title n @ newline)) V))"

section \<open>Operations\<close>

text \<open>The scans read the files in order and stop at the first match; an unreadable link list raises.\<close>

fun find_node :: "(wiki_node \<Rightarrow> bool) \<Rightarrow> vault \<Rightarrow> store_error + wiki_node option" where
  "find_node P [] = Inr None"
| "find_node P ((p, f) # V) =
     (case read_node p f of
        Inl e \<Rightarrow> Inl e
      | Inr None \<Rightarrow> find_node P V
      | Inr (Some n) \<Rightarrow> if P n then Inr (Some n) else find_node P V)"

definition find_by_slug :: "vault \<Rightarrow> string \<Rightarrow> store_error + wiki_node option" where
  "find_by_slug V slug = find_node (\<lambda>n. nd_slug n = slug) V"

definition md_get_node :: "vault \<Rightarrow> string \<Rightarrow> store_error + wiki_node option" where
  "md_get_node V ref =
     (case find_by_slug V ref of
        Inl e \<Rightarrow> Inl e
      | Inr (Some n) \<Rightarrow> Inr (Some n)
      | Inr None \<Rightarrow> find_node (\<lambda>n. nd_id n = ref) V)"

text \<open>A node put again under its slug with the same content hash: the stored node, refreshed.\<close>

definition reinforced :: "time \<Rightarrow> wiki_node \<Rightarrow> wiki_node \<Rightarrow> wiki_node" where
  "reinforced now ex n =
     ex\<lparr>nd_reinforced := nd_reinforced ex + 1, nd_last_reinforced := Some now, nd_updated := Some now,
        nd_tags := nd_tags n, nd_metadata := nd_metadata n, nd_extra := nd_extra n, nd_source := nd_source n,
        nd_happened := nd_happened n, nd_agent := nd_agent n, nd_type := nd_type n, nd_salience := nd_salience n,
        nd_confidence := nd_confidence n\<rparr>"

definition stamped :: "time \<Rightarrow> bool \<Rightarrow> wiki_node \<Rightarrow> wiki_node" where
  "stamped now known n =
     (let n1 = (if known then n\<lparr>nd_reinforced := 0, nd_last_reinforced := None\<rparr> else n)
      in n1\<lparr>nd_updated := Some now, nd_created := (case nd_created n1 of None \<Rightarrow> Some now | Some t \<Rightarrow> Some t)\<rparr>)"

definition md_put_node ::
  "(string \<Rightarrow> 'h) \<Rightarrow> (payload \<Rightarrow> payload) \<Rightarrow> time \<Rightarrow> wiki_node \<Rightarrow> vault \<Rightarrow> (store_error + wiki_node) \<times> vault" where
  "md_put_node H reload now n V =
     (case find_by_slug V (nd_slug n) of
        Inl e \<Rightarrow> (Inl e, V)
      | Inr ex \<Rightarrow>
          if ex \<noteq> None \<and> content_hash H (the ex) = content_hash H n
          then write_node reload (reinforced now (the ex) n) V
          else write_node reload (stamped now (ex \<noteq> None) n) V)"

definition md_reinforce_node ::
  "(payload \<Rightarrow> payload) \<Rightarrow> time \<Rightarrow> string \<Rightarrow> vault \<Rightarrow> (store_error + wiki_node option) \<times> vault" where
  "md_reinforce_node reload now ref V =
     (case md_get_node V ref of
        Inl e \<Rightarrow> (Inl e, V)
      | Inr None \<Rightarrow> (Inr None, V)
      | Inr (Some n) \<Rightarrow>
          (case write_node reload (n\<lparr>nd_reinforced := nd_reinforced n + 1, nd_last_reinforced := Some now,
                                     nd_updated := Some now\<rparr>) V of
             (Inl e, V') \<Rightarrow> (Inl e, V')
           | (Inr n', V') \<Rightarrow> (Inr (Some n'), V')))"

definition md_delete_node :: "string \<Rightarrow> vault \<Rightarrow> (store_error + unit) \<times> vault" where
  "md_delete_node ref V =
     (case md_get_node V ref of
        Inl e \<Rightarrow> (Inl e, V)
      | Inr None \<Rightarrow> (Inr (), V)
      | Inr (Some n) \<Rightarrow>
          (case path_for (nd_kind n) (nd_slug n) of
             Inl e \<Rightarrow> (Inl e, V)
           | Inr p \<Rightarrow> (Inr (), dict_del p V)))"

text \<open>The limit is tested after a node is appended, so a limit of zero still yields one node.\<close>

fun md_list_from :: "string option \<Rightarrow> nat \<Rightarrow> wiki_node list \<Rightarrow> vault \<Rightarrow> store_error + wiki_node list" where
  "md_list_from kind limit out [] = Inr out"
| "md_list_from kind limit out ((p, f) # V) =
     (case read_node p f of
        Inl e \<Rightarrow> Inl e
      | Inr None \<Rightarrow> md_list_from kind limit out V
      | Inr (Some n) \<Rightarrow>
          if nonempty kind \<and> kind \<noteq> Some (nd_kind n) then md_list_from kind limit out V
          else if length (out @ [n]) \<ge> limit then Inr (out @ [n])
          else md_list_from kind limit (out @ [n]) V)"

definition md_list_nodes :: "string option \<Rightarrow> nat \<Rightarrow> vault \<Rightarrow> store_error + wiki_node list" where
  "md_list_nodes kind limit V = md_list_from kind limit [] V"

definition md_resolve_slug :: "vault \<Rightarrow> string \<Rightarrow> store_error + string option" where
  "md_resolve_slug V slug = map_sum id (map_option nd_id) (find_by_slug V slug)"

definition md_put_link ::
  "(string \<Rightarrow> 'h) \<Rightarrow> (payload \<Rightarrow> payload) \<Rightarrow> time \<Rightarrow> link_record \<Rightarrow> vault \<Rightarrow> (store_error + unit) \<times> vault" where
  "md_put_link H reload now l V =
     (case md_get_node V (lk_src_slug l) of
        Inl e \<Rightarrow> (Inl e, V)
      | Inr None \<Rightarrow> (Inr (), V)
      | Inr (Some src) \<Rightarrow>
          (let src' = src\<lparr>nd_links := filter (\<lambda>x. (lk_dst_slug x, lk_type x) \<noteq> (lk_dst_slug l, lk_type l)) (nd_links src) @ [l]\<rparr>
           in case md_put_node H reload now src' V of
                (Inl e, V') \<Rightarrow> (Inl e, V')
              | (Inr n, V') \<Rightarrow> (Inr (), V')))"

fun incoming_links :: "wiki_node option \<Rightarrow> string \<Rightarrow> vault \<Rightarrow> store_error + link_record list" where
  "incoming_links src target [] = Inr []"
| "incoming_links src target ((p, f) # V) =
     (case read_node p f of
        Inl e \<Rightarrow> Inl e
      | Inr other \<Rightarrow>
          (case incoming_links src target V of
             Inl e \<Rightarrow> Inl e
           | Inr ls \<Rightarrow>
               Inr ((case other of
                       None \<Rightarrow> []
                     | Some n \<Rightarrow>
                         if src \<noteq> None \<and> nd_id n = nd_id (the src) then []
                         else map (\<lambda>l. \<lparr>lk_src_slug = nd_slug n, lk_dst_slug = target, lk_type = lk_type l,
                                lk_strength = lk_strength l, lk_src_id = Some (nd_id n), lk_dst_id = None\<rparr>)
                              (filter (\<lambda>l. lk_dst_slug l = target) (nd_links n))) @ ls)))"

definition md_list_links :: "string \<Rightarrow> string \<Rightarrow> vault \<Rightarrow> store_error + link_record list" where
  "md_list_links ref direction V =
     (case md_get_node V ref of
        Inl e \<Rightarrow> Inl e
      | Inr src \<Rightarrow>
          (let outs = (if src \<noteq> None \<and> (direction = ''out'' \<or> direction = ''both'') then nd_links (the src) else [])
           in if direction = ''in'' \<or> direction = ''both''
              then map_sum id (\<lambda>ins. outs @ ins)
                     (incoming_links src (if src \<noteq> None then nd_slug (the src) else ref) V)
              else Inr outs))"

text \<open>\<open>str.count\<close>: non-overlapping occurrences.\<close>

function count_sub :: "string \<Rightarrow> string \<Rightarrow> nat" where
  "count_sub needle s =
     (if s = [] \<or> needle = [] then 0
      else if is_prefix needle s then Suc (count_sub needle (drop (length needle) s))
      else count_sub needle (tl s))"
  by auto
termination by (relation "measure (\<lambda>(needle, s). length s)") auto

declare count_sub.simps [simp del]

definition md_search_fts :: "string \<Rightarrow> nat \<Rightarrow> string option \<Rightarrow> vault \<Rightarrow> store_error + search_hit list" where
  "md_search_fts query k kind V =
     (let needle = strip (lower query) in
      if needle = [] then Inr []
      else map_sum id (\<lambda>ns. take k (sort_key (\<lambda>h. - sh_score h)
             (map (\<lambda>n. \<lparr>sh_node = n, sh_score = real (count_sub needle (lower (nd_title n @ newline @ nd_body n))),
                        sh_reason = ''fts''\<rparr>)
               (filter (\<lambda>n. count_sub needle (lower (nd_title n @ newline @ nd_body n)) \<noteq> 0) ns))))
             (md_list_nodes kind 10000 V))"

section \<open>Reading what was written\<close>

lemma dict_get_append: "dict_get (d @ e) k = (case dict_get d k of None \<Rightarrow> dict_get e k | Some v \<Rightarrow> Some v)"
  by (simp add: map_add_def)

lemma dict_get_opt_entry: "dict_get (opt_entry k t) k' = (if k' = k then map_option JInt t else None)"
  by (simp add: opt_entry_def split: option.split)

lemma dict_get_unless: "dict_get (if b then [] else [(k, v)]) k' = (if \<not> b \<and> k' = k then Some v else None)"
  by simp

lemma dict_get_source:
  "dict_get (case src of Some (e # es) \<Rightarrow> [(''source'', JObj (e # es))] | _ \<Rightarrow> []) k =
   (if k = ''source'' then (case src of Some (e # es) \<Rightarrow> Some (JObj (e # es)) | _ \<Rightarrow> None) else None)"
  by (simp split: option.split list.split)

lemma or_none: "(case x of None \<Rightarrow> None | Some v \<Rightarrow> Some v) = x"
  by (cases x) simp_all

lemmas frontmatter_lookup =
  dict_get_append dict_get_opt_entry dict_get_unless dict_get_source map_of.simps fst_conv snd_conv fun_upd_apply
  or_none simp_thms if_True if_False option.case

lemma frontmatter_fields:
  "dict_get (to_frontmatter n) ''id'' = Some (JStr (nd_id n))"
  "dict_get (to_frontmatter n) ''slug'' = Some (JStr (nd_slug n))"
  "dict_get (to_frontmatter n) ''kind'' = Some (JStr (nd_kind n))"
  "dict_get (to_frontmatter n) ''title'' = Some (JStr (nd_title n))"
  "dict_get (to_frontmatter n) ''tags'' = Some (JList (map JStr (nd_tags n)))"
  "dict_get (to_frontmatter n) ''agent_id'' = Some (JStr (nd_agent n))"
  "dict_get (to_frontmatter n) ''memory_type'' = Some (JStr (nd_type n))"
  "dict_get (to_frontmatter n) ''salience'' = Some (JReal (nd_salience n))"
  "dict_get (to_frontmatter n) ''confidence'' = Some (JReal (nd_confidence n))"
  unfolding to_frontmatter_def by (simp_all only: frontmatter_lookup) simp_all

lemma frontmatter_opt_fields:
  "dict_get (to_frontmatter n) ''created'' = map_option JInt (nd_created n)"
  "dict_get (to_frontmatter n) ''updated'' = map_option JInt (nd_updated n)"
  "dict_get (to_frontmatter n) ''happened_at'' = map_option JInt (nd_happened n)"
  "dict_get (to_frontmatter n) ''last_reinforced_at'' = map_option JInt (nd_last_reinforced n)"
  "dict_get (to_frontmatter n) ''links'' = (if nd_links n = [] then None else Some (JList (map link_frontmatter (nd_links n))))"
  "dict_get (to_frontmatter n) ''source'' = (case nd_source n of Some (e # es) \<Rightarrow> Some (JObj (e # es)) | _ \<Rightarrow> None)"
  "dict_get (to_frontmatter n) ''metadata'' = (if nd_metadata n = [] then None else Some (JObj (nd_metadata n)))"
  "dict_get (to_frontmatter n) ''extra'' = (if nd_extra n = [] then None else Some (JObj (nd_extra n)))"
  "dict_get (to_frontmatter n) ''reinforcement_count'' = (if nd_reinforced n = 0 then None else Some (JInt (nd_reinforced n)))"
  unfolding to_frontmatter_def by (simp_all only: frontmatter_lookup) (auto simp: or_none option.case_eq_if)

lemma read_links_written:
  "read_links slug (map link_frontmatter ls) =
   Inr (map (\<lambda>l. l\<lparr>lk_src_slug := slug, lk_src_id := None, lk_dst_id := None\<rparr>) (filter (\<lambda>l. lk_dst_slug l \<noteq> []) ls))"
  by (induction ls) (simp_all add: link_frontmatter_def opt_str_field_def str_field_def num_field_def)

text \<open>The node a written file reads as.\<close>

definition md_echo :: "string \<Rightarrow> string \<Rightarrow> wiki_node \<Rightarrow> wiki_node" where
  "md_echo p b n =
     n\<lparr>nd_title := (if nd_title n \<noteq> [] then nd_title n else path_stem p), nd_body := b,
       nd_links := map (\<lambda>l. l\<lparr>lk_src_slug := nd_slug n, lk_src_id := None, lk_dst_id := None\<rparr>)
         (filter (\<lambda>l. lk_dst_slug l \<noteq> []) (nd_links n)),
       nd_source := (if nd_source n = Some [] then None else nd_source n)\<rparr>"

lemma read_written:
  assumes "nd_id n \<noteq> []" "nd_slug n \<noteq> []"
  shows "read_node p (to_frontmatter n, b) = Inr (Some (md_echo p b n))"
proof -
  have tags: "json_str \<circ> JStr = id" by (rule ext) simp
  have links: "read_links (nd_slug n) (list_field (to_frontmatter n) ''links'') =
      Inr (map (\<lambda>l. l\<lparr>lk_src_slug := nd_slug n, lk_src_id := None, lk_dst_id := None\<rparr>)
        (filter (\<lambda>l. lk_dst_slug l \<noteq> []) (nd_links n)))"
    by (simp add: list_field_def frontmatter_opt_fields read_links_written)
  have src: "(case dict_get (to_frontmatter n) ''source'' of Some (JObj s) \<Rightarrow> Some s | _ \<Rightarrow> None) =
      (if nd_source n = Some [] then None else nd_source n)"
    by (auto simp: frontmatter_opt_fields split: option.split list.split)
  have dt: "parse_dt (to_frontmatter n) ''created'' = nd_created n" "parse_dt (to_frontmatter n) ''updated'' = nd_updated n"
    "parse_dt (to_frontmatter n) ''happened_at'' = nd_happened n"
    "parse_dt (to_frontmatter n) ''last_reinforced_at'' = nd_last_reinforced n"
    by (simp_all add: parse_dt_def frontmatter_opt_fields split: option.split)
  show ?thesis
    using assms
    by (simp add: read_node_def Let_def opt_str_field_def str_field_def num_field_def obj_field_def dt src
        links [unfolded list_field_def] list_field_def frontmatter_fields tags md_echo_def)
      (cases n, simp add: frontmatter_opt_fields)
qed

section \<open>Vaults in order\<close>

text \<open>
  Every file reads, a file with a node lies where the layout puts it, and no slug is in
  two files.
\<close>

definition read_at :: "vault \<Rightarrow> string \<Rightarrow> (store_error + wiki_node option) option" where
  "read_at V p = map_option (read_node p) (dict_get V p)"

definition node_at :: "vault \<Rightarrow> string \<Rightarrow> wiki_node \<Rightarrow> bool" where
  "node_at V p n \<longleftrightarrow> read_at V p = Some (Inr (Some n))"

definition all_read :: "vault \<Rightarrow> bool" where
  "all_read V \<longleftrightarrow> wf_dict V \<and> (\<forall>p e. read_at V p \<noteq> Some (Inl e))"

definition md_inv :: "vault \<Rightarrow> bool" where
  "md_inv V \<longleftrightarrow> all_read V \<and>
     (\<forall>p n. node_at V p n \<longrightarrow> path_for (nd_kind n) (nd_slug n) = Inr p \<and> nd_id n \<noteq> []) \<and>
     (\<forall>p n q m. node_at V p n \<longrightarrow> node_at V q m \<longrightarrow> nd_slug n = nd_slug m \<longrightarrow> p = q)"

lemma node_at_unique: "node_at V p n \<Longrightarrow> node_at V p m \<Longrightarrow> n = m"
  by (simp add: node_at_def)

lemma read_at_Cons: "read_at ((p, f) # V) q = (if q = p then Some (read_node p f) else read_at V q)"
  by (simp add: read_at_def)

lemma read_at_set: "read_at (dict_set p f V) q = (if q = p then Some (read_node p f) else read_at V q)"
  by (simp add: read_at_def)

lemma find_node_cases:
  "all_read V \<Longrightarrow> (\<exists>p n. find_node P V = Inr (Some n) \<and> node_at V p n \<and> P n) \<or>
    (find_node P V = Inr None \<and> (\<forall>p n. node_at V p n \<longrightarrow> \<not> P n))"
proof (induction V)
  case (Cons e V)
  obtain p f where e: "e = (p, f)" by (cases e)
  have wf: "wf_dict V" "read_at V p = None" using Cons.prems by (simp_all add: all_read_def e wf_dict_Cons read_at_def)
  then have "all_read V" using Cons.prems unfolding all_read_def e read_at_Cons by (metis option.distinct(1))
  note IH = Cons.IH [OF this]
  have later: "node_at (e # V) q n \<longleftrightarrow> (if q = p then read_node p f = Inr (Some n) else node_at V q n)" for q n
    by (simp add: node_at_def e read_at_Cons)
  have new: "node_at V q n \<Longrightarrow> node_at (e # V) q n" for q n using wf(2) by (auto simp: later) (simp add: node_at_def)
  obtain r where r: "read_node p f = Inr r" using Cons.prems unfolding all_read_def e read_at_Cons
    by (metis old.sum.exhaust)
  show ?case
  proof (cases r)
    case None
    from IH show ?thesis
    proof (elim disjE)
      assume "\<exists>q n. find_node P V = Inr (Some n) \<and> node_at V q n \<and> P n"
      then show ?thesis using new r None by (auto simp: e)
    next
      assume "find_node P V = Inr None \<and> (\<forall>q n. node_at V q n \<longrightarrow> \<not> P n)"
      then show ?thesis using r None later by (auto simp: e)
    qed
  next
    case (Some n)
    show ?thesis
    proof (cases "P n")
      case True
      then have "find_node P (e # V) = Inr (Some n)" "node_at (e # V) p n" using Some r later by (simp_all add: e)
      with True show ?thesis by blast
    next
      case False
      from IH show ?thesis
      proof (elim disjE)
        assume "\<exists>q n. find_node P V = Inr (Some n) \<and> node_at V q n \<and> P n"
        then show ?thesis using new r Some False by (auto simp: e)
      next
        assume "find_node P V = Inr None \<and> (\<forall>q n. node_at V q n \<longrightarrow> \<not> P n)"
        then show ?thesis using r Some False later by (auto simp: e)
      qed
    qed
  qed
qed (simp add: node_at_def read_at_def)

lemma find_by_slug_cases:
  assumes "md_inv V"
  shows "(\<exists>p n. find_by_slug V slug = Inr (Some n) \<and> node_at V p n \<and> nd_slug n = slug) \<or>
    (find_by_slug V slug = Inr None \<and> (\<forall>p n. node_at V p n \<longrightarrow> nd_slug n \<noteq> slug))"
  using find_node_cases [of V "\<lambda>n. nd_slug n = slug"] assms unfolding md_inv_def find_by_slug_def by blast

lemma find_by_slug_iff:
  assumes "md_inv V"
  shows "find_by_slug V slug = Inr (Some n) \<longleftrightarrow> (\<exists>p. node_at V p n \<and> nd_slug n = slug)"
proof
  assume "\<exists>p. node_at V p n \<and> nd_slug n = slug"
  then obtain p where p: "node_at V p n" "nd_slug n = slug" by blast
  from find_by_slug_cases [OF assms, of slug] p obtain q m where
    q: "find_by_slug V slug = Inr (Some m)" "node_at V q m" "nd_slug m = slug" by blast
  then have "p = q" using assms p unfolding md_inv_def by metis
  with p(1) q(2) have "n = m" using node_at_unique by blast
  with q(1) show "find_by_slug V slug = Inr (Some n)" by simp
qed (use find_by_slug_cases [OF assms, of slug] in auto)

lemma node_at_set: "node_at (dict_set p f V) q n \<longleftrightarrow> (if q = p then read_node p f = Inr (Some n) else node_at V q n)"
  by (simp add: node_at_def read_at_set)

text \<open>Writing a node at its path, when no other slug lies there and the slug lies nowhere else.\<close>

lemma md_inv_write:
  assumes inv: "md_inv V" and p: "path_for (nd_kind m) (nd_slug m) = Inr p" "nd_id m \<noteq> []"
    and read: "read_node p f = Inr (Some m)"
    and free: "\<And>q k. node_at V q k \<Longrightarrow> nd_slug k = nd_slug m \<Longrightarrow> q = p"
  shows "md_inv (dict_set p f V)"
  unfolding md_inv_def
proof (intro conjI allI impI)
  show "all_read (dict_set p f V)"
    using inv read unfolding md_inv_def all_read_def read_at_set by (auto split: if_splits)
  show "path_for (nd_kind n) (nd_slug n) = Inr q" "nd_id n \<noteq> []" if "node_at (dict_set p f V) q n" for q n
    using that inv p read by (auto simp: md_inv_def node_at_set split: if_splits)
  have old: "q = q'" if "node_at V q n" "node_at V q' n'" "nd_slug n = nd_slug n'" for q n q' n'
    using inv that unfolding md_inv_def by blast
  have here: "n = m" if "node_at (dict_set p f V) p n" for n
    using that read by (simp add: node_at_set)
  fix q n q' n' assume q: "node_at (dict_set p f V) q n" "node_at (dict_set p f V) q' n'" "nd_slug n = nd_slug n'"
  show "q = q'"
  proof (cases "q = p")
    case True
    then have n: "n = m" using q(1) here by simp
    show ?thesis
    proof (rule ccontr)
      assume "q \<noteq> q'"
      then have "node_at V q' n'" using q(2) True by (simp add: node_at_set)
      from free [OF this] q(3) n True \<open>q \<noteq> q'\<close> show False by simp
    qed
  next
    case False
    then have n: "node_at V q n" using q(1) by (simp add: node_at_set)
    show ?thesis
    proof (cases "q' = p")
      case True
      then have "n' = m" using q(2) here by simp
      with free [OF n] q(3) True show ?thesis by simp
    next
      case False
      then show ?thesis using q(2,3) n old by (simp add: node_at_set)
    qed
  qed
qed

section \<open>Putting a node\<close>

text \<open>The node a put writes, and the conditions under which it comes back.\<close>

definition put_target :: "(string \<Rightarrow> 'h) \<Rightarrow> time \<Rightarrow> vault \<Rightarrow> wiki_node \<Rightarrow> wiki_node" where
  "put_target H now V n =
     (case find_by_slug V (nd_slug n) of
        Inr (Some ex) \<Rightarrow> if content_hash H ex = content_hash H n then reinforced now ex n else stamped now True n
      | _ \<Rightarrow> stamped now False n)"

definition written_body :: "wiki_node \<Rightarrow> string" where
  "written_body n = stored_body (if nd_body n \<noteq> [] then nd_body n else ''# '' @ nd_title n @ newline)"

definition codec_keeps :: "(payload \<Rightarrow> payload) \<Rightarrow> wiki_node \<Rightarrow> bool" where
  "codec_keeps reload n \<longleftrightarrow> reload (to_frontmatter n) = to_frontmatter n"

definition md_accepts ::
  "(string \<Rightarrow> 'h) \<Rightarrow> (payload \<Rightarrow> payload) \<Rightarrow> time \<Rightarrow> vault \<Rightarrow> wiki_node \<Rightarrow> bool" where
  "md_accepts H reload now V n \<longleftrightarrow>
     (let m = put_target H now V n in
      nd_id m \<noteq> [] \<and> nd_slug n \<noteq> [] \<and> codec_keeps reload m \<and>
      (\<exists>p. path_for (nd_kind m) (nd_slug n) = Inr p \<and>
         (\<forall>k. node_at V p k \<longrightarrow> nd_slug k = nd_slug n) \<and>
         (\<forall>q k. node_at V q k \<longrightarrow> nd_slug k = nd_slug n \<longrightarrow> q = p)))"

lemma put_target_slug:
  assumes "md_inv V"
  shows "nd_slug (put_target H now V n) = nd_slug n"
  using find_by_slug_cases [OF assms, of "nd_slug n"]
  by (auto simp: put_target_def reinforced_def stamped_def Let_def)

lemma md_put_node_write:
  assumes "md_inv V"
  shows "md_put_node H reload now n V = write_node reload (put_target H now V n) V"
  using find_by_slug_cases [OF assms, of "nd_slug n"] by (auto simp: md_put_node_def put_target_def)

definition put_effect ::
  "(string \<Rightarrow> 'h) \<Rightarrow> (payload \<Rightarrow> payload) \<Rightarrow> time \<Rightarrow> vault \<Rightarrow> wiki_node \<Rightarrow> string \<Rightarrow> bool" where
  "put_effect H reload now V n p \<longleftrightarrow>
     fst (md_put_node H reload now n V) = Inr (put_target H now V n) \<and>
     md_inv (snd (md_put_node H reload now n V)) \<and>
     (\<forall>q k. node_at (snd (md_put_node H reload now n V)) q k \<longleftrightarrow>
       (if q = p then k = md_echo p (written_body (put_target H now V n)) (put_target H now V n) else node_at V q k)) \<and>
     (\<forall>k. node_at V p k \<longrightarrow> nd_slug k = nd_slug n) \<and> (\<forall>q k. node_at V q k \<longrightarrow> nd_slug k = nd_slug n \<longrightarrow> q = p)"

lemma put_effectD:
  assumes "put_effect H reload now V n p"
  shows "fst (md_put_node H reload now n V) = Inr (put_target H now V n)"
    "md_inv (snd (md_put_node H reload now n V))"
    "node_at (snd (md_put_node H reload now n V)) q k \<longleftrightarrow>
       (if q = p then k = md_echo p (written_body (put_target H now V n)) (put_target H now V n) else node_at V q k)"
    "node_at V p k \<Longrightarrow> nd_slug k = nd_slug n"
  using assms unfolding put_effect_def by blast+

lemma md_put_accepted:
  assumes inv: "md_inv V" and acc: "md_accepts H reload now V n"
  shows "\<exists>p. put_effect H reload now V n p"
proof -
  let ?m = "put_target H now V n"
  let ?e = "\<lambda>p. md_echo p (written_body ?m) ?m" and ?f = "(to_frontmatter ?m, written_body ?m)"
  have slug: "nd_slug ?m = nd_slug n" using inv by (rule put_target_slug)
  obtain p where p: "path_for (nd_kind ?m) (nd_slug n) = Inr p" "\<And>k. node_at V p k \<Longrightarrow> nd_slug k = nd_slug n"
    "\<And>q k. node_at V q k \<Longrightarrow> nd_slug k = nd_slug n \<Longrightarrow> q = p"
    using acc by (auto simp: md_accepts_def Let_def)
  have ids: "nd_id ?m \<noteq> []" "nd_slug ?m \<noteq> []" "codec_keeps reload ?m"
    using acc slug by (simp_all add: md_accepts_def Let_def)
  have read: "read_node p ?f = Inr (Some (?e p))" by (rule read_written [OF ids(1,2)])
  have echo: "nd_kind (?e p) = nd_kind ?m" "nd_slug (?e p) = nd_slug n" "nd_id (?e p) = nd_id ?m"
    using slug by (simp_all add: md_echo_def)
  have put: "md_put_node H reload now n V = (Inr ?m, dict_set p ?f V)"
    unfolding md_put_node_write [OF inv] write_node_def slug p(1)
    using ids(3) by (simp add: codec_keeps_def written_body_def)
  have inv': "md_inv (dict_set p ?f V)"
  proof (rule md_inv_write [OF inv _ _ read])
    show "path_for (nd_kind (?e p)) (nd_slug (?e p)) = Inr p" using p(1) echo by simp
    show "nd_id (?e p) \<noteq> []" using ids(1) echo by simp
    show "q = p" if "node_at V q k" "nd_slug k = nd_slug (?e p)" for q k
      using p(3) [OF that(1)] that(2) echo(2) by simp
  qed
  have node: "node_at (dict_set p ?f V) q k \<longleftrightarrow> (if q = p then k = ?e p else node_at V q k)" for q k
    using read by (auto simp: node_at_set)
  have "put_effect H reload now V n p"
    unfolding put_effect_def put fst_conv snd_conv
  proof (intro conjI allI impI)
    show "node_at (dict_set p ?f V) q k \<longleftrightarrow> (if q = p then k = ?e p else node_at V q k)" for q k by (rule node)
    show "nd_slug k = nd_slug n" if "node_at V p k" for k using that by (rule p(2))
    show "q = p" if "node_at V q k" "nd_slug k = nd_slug n" for q k using that by (rule p(3))
  qed (rule refl inv')+
  then show ?thesis by (rule exI)
qed

text \<open>Resolution as an option; in an ordered vault no scan raises.\<close>

definition md_resolve :: "vault \<Rightarrow> string \<Rightarrow> string option" where
  "md_resolve V slug = (case md_resolve_slug V slug of Inl e \<Rightarrow> None | Inr r \<Rightarrow> r)"

lemma md_resolve_eq:
  assumes "md_inv V"
  shows "md_resolve_slug V slug = Inr (md_resolve V slug)"
    and "md_resolve V slug = Some i \<longleftrightarrow> (\<exists>p n. node_at V p n \<and> nd_slug n = slug \<and> nd_id n = i)"
proof -
  show "md_resolve_slug V slug = Inr (md_resolve V slug)"
    using find_by_slug_cases [OF assms, of slug] by (auto simp: md_resolve_def md_resolve_slug_def)
  have "md_resolve V slug = Some i \<longleftrightarrow> (\<exists>n. find_by_slug V slug = Inr (Some n) \<and> nd_id n = i)"
    using find_by_slug_cases [OF assms, of slug] by (auto simp: md_resolve_def md_resolve_slug_def)
  then show "md_resolve V slug = Some i \<longleftrightarrow> (\<exists>p n. node_at V p n \<and> nd_slug n = slug \<and> nd_id n = i)"
    unfolding find_by_slug_iff [OF assms] by blast
qed

lemma md_resolve_None:
  assumes "md_inv V"
  shows "md_resolve V slug = None \<longleftrightarrow> (\<forall>p n. node_at V p n \<longrightarrow> nd_slug n \<noteq> slug)"
  using md_resolve_eq(2) [OF assms, of slug] by (metis option.exhaust option.distinct(1))

interpretation markdown_nodes: node_store md_resolve "md_put_node H reload now" md_inv "md_accepts H reload now" for H reload now
proof
  fix V n assume V: "md_inv V" "md_accepts H reload now V n"
  let ?m = "put_target H now V n" and ?V = "snd (md_put_node H reload now n V)"
  obtain p where "put_effect H reload now V n p" using md_put_accepted [OF V] by blast
  note put = put_effectD [OF this]
  have echo: "nd_slug (md_echo p b ?m) = nd_slug n" "nd_id (md_echo p b ?m) = nd_id ?m" for b
    using put_target_slug [OF V(1), of H now n] by (simp_all add: md_echo_def)
  show "md_inv ?V" by (rule put(2))
  have "md_resolve ?V (nd_slug n) = Some (nd_id ?m)"
    unfolding md_resolve_eq(2) [OF put(2)] put(3) using echo by auto
  moreover have "nd_id ?m = nd_id n" if "md_resolve V (nd_slug n) = None"
  proof -
    have "find_by_slug V (nd_slug n) = Inr None"
      using find_by_slug_cases [OF V(1), of "nd_slug n"] that unfolding md_resolve_None [OF V(1)] by blast
    then show ?thesis by (simp add: put_target_def stamped_def)
  qed
  ultimately show "\<exists>n'. fst (md_put_node H reload now n V) = Inr n' \<and> md_resolve ?V (nd_slug n) = Some (nd_id n') \<and>
      (md_resolve V (nd_slug n) = None \<longrightarrow> nd_id n' = nd_id n)"
    by (intro exI [of _ ?m] conjI put(1) impI)
  show "md_resolve ?V slug = md_resolve V slug" if slug: "slug \<noteq> nd_slug n" for slug
  proof (rule option.expand)
    have iff: "md_resolve ?V slug = Some i \<longleftrightarrow> md_resolve V slug = Some i" for i
    proof -
      have "(\<exists>k. node_at ?V q k \<and> nd_slug k = slug \<and> nd_id k = i) \<longleftrightarrow> (\<exists>k. node_at V q k \<and> nd_slug k = slug \<and> nd_id k = i)" for q
        using slug echo put(4) by (cases "q = p") (auto simp: put(3))
      then show ?thesis unfolding md_resolve_eq(2) [OF put(2)] md_resolve_eq(2) [OF V(1)] by simp
    qed
    show "(md_resolve ?V slug = None) = (md_resolve V slug = None)" using iff by (metis option.exhaust)
    show "the (md_resolve ?V slug) = the (md_resolve V slug)"
      if "md_resolve ?V slug \<noteq> None" using that iff by (metis option.exhaust)
  qed
next
  show "md_resolve V slug \<noteq> Some []" if "md_inv V" for V slug
    using md_resolve_eq(2) [OF that, of slug "[]"] that by (auto simp: md_inv_def)
qed

section \<open>Properties of the markdown backend\<close>

lemma md_vault_inv_empty: "md_inv []"
  by (simp add: md_inv_def all_read_def node_at_def read_at_def)

lemma markdown_put_get_lemma:
  assumes "md_inv V" "md_accepts H reload now V n"
  shows "\<exists>p. find_by_slug (snd (md_put_node H reload now n V)) (nd_slug n) =
    Inr (Some (md_echo p (written_body (put_target H now V n)) (put_target H now V n)))"
proof -
  let ?m = "put_target H now V n" and ?V = "snd (md_put_node H reload now n V)"
  obtain p where "put_effect H reload now V n p" using md_put_accepted [OF assms] by blast
  note put = put_effectD [OF this]
  have "nd_slug (md_echo p (written_body ?m) ?m) = nd_slug n"
    using put_target_slug [OF assms(1)] by (simp add: md_echo_def)
  then show ?thesis unfolding find_by_slug_iff [OF put(2)] put(3) by auto
qed

text \<open>
  (C11) A put the vault accepts keeps it in order and is read back under its slug: content
  with the same hash as the stored node's keeps that node's title, body, links and creation
  time and counts one more reinforcement; other content replaces it with the count at zero.
\<close>
theorem markdown_put_get:
  assumes "md_inv V" "md_accepts H reload now V n"
  shows "md_inv (snd (md_put_node H reload now n V)) \<and>
    (\<exists>p m. find_by_slug (snd (md_put_node H reload now n V)) (nd_slug n) = Inr (Some m) \<and>
       m = md_echo p (written_body (put_target H now V n)) (put_target H now V n) \<and> nd_updated m = Some now \<and>
       (\<forall>ex. find_by_slug V (nd_slug n) = Inr (Some ex) \<longrightarrow>
          (if content_hash H ex = content_hash H n
           then nd_reinforced m = nd_reinforced ex + 1 \<and> nd_created m = nd_created ex \<and> nd_last_reinforced m = Some now
           else nd_reinforced m = 0 \<and> nd_last_reinforced m = None)))"
proof -
  let ?m = "put_target H now V n" and ?V = "snd (md_put_node H reload now n V)"
  obtain p where found: "find_by_slug ?V (nd_slug n) = Inr (Some (md_echo p (written_body ?m) ?m))"
    using markdown_put_get_lemma [OF assms] by blast
  let ?e = "md_echo p (written_body ?m) ?m"
  have "nd_updated ?e = Some now"
    using find_by_slug_cases [OF assms(1), of "nd_slug n"]
    by (auto simp: md_echo_def put_target_def reinforced_def stamped_def Let_def)
  moreover have "if content_hash H ex = content_hash H n
      then nd_reinforced ?e = nd_reinforced ex + 1 \<and> nd_created ?e = nd_created ex \<and> nd_last_reinforced ?e = Some now
      else nd_reinforced ?e = 0 \<and> nd_last_reinforced ?e = None"
    if "find_by_slug V (nd_slug n) = Inr (Some ex)" for ex
    using that by (simp add: md_echo_def put_target_def reinforced_def stamped_def)
  moreover have "md_inv ?V" by (rule markdown_nodes.put_inv [OF assms])
  ultimately show ?thesis using found by blast
qed

lemma demo_accepts: "md_accepts id id 5 [] (demo_node ''T'' ''b'')"
  by (simp add: md_accepts_def put_target_def find_by_slug_def stamped_def demo_node_def codec_keeps_def path_for_def
      node_at_def read_at_def Let_def)

theorem markdown_put_get_witness:
  "md_inv (snd (md_put_node id id 5 (demo_node ''T'' ''b'') [])) \<and>
   (\<exists>m. find_by_slug (snd (md_put_node id id 5 (demo_node ''T'' ''b'') [])) ''s'' = Inr (Some m) \<and> nd_updated m = Some 5)"
proof -
  have "nd_slug (demo_node ''T'' ''b'') = ''s''" by (simp add: demo_node_def)
  with markdown_put_get [OF md_vault_inv_empty demo_accepts] show ?thesis by auto
qed

text \<open>
  On a markdown vault in order the slug registry keeps its contract too: the slug
  resolves to the returned id afterwards, known slugs and other slugs are left alone, and
  a second request returns the same id and writes nothing.
\<close>
theorem markdown_resolve_or_stub:
  assumes "md_inv V" "md_accepts H reload t V (stub_node new now slug kind title agent)" "new \<noteq> []"
    and "resolve_or_stub md_resolve (md_put_node H reload t) new now slug kind title agent V = (r, V')"
  shows "\<exists>i. r = Inr i \<and> md_resolve V' slug = Some i \<and> md_inv V' \<and> (md_resolve V slug \<noteq> None \<longrightarrow> V' = V) \<and>
     (\<forall>sl. sl \<noteq> slug \<longrightarrow> md_resolve V' sl = md_resolve V sl) \<and>
     (\<forall>new' now'. resolve_or_stub md_resolve (md_put_node H reload t) new' now' slug kind title agent V' = (Inr i, V'))"
  using assms by (rule markdown_nodes.stub_resolves)

theorem markdown_resolve_or_stub_witness:
  "\<exists>r V' i. resolve_or_stub md_resolve (md_put_node id id 5) ''u'' 5 ''x'' ''note'' None ''memu'' [] = (r, V') \<and>
     r = Inr i \<and> md_resolve V' ''x'' = Some i \<and> md_inv V'"
proof -
  obtain r V' where call: "resolve_or_stub md_resolve (md_put_node id id 5) ''u'' 5 ''x'' ''note'' None ''memu'' [] = (r, V')"
    by fastforce
  have "md_accepts id id 5 [] (stub_node ''u'' 5 ''x'' ''note'' None ''memu'')"
    by (simp add: md_accepts_def put_target_def find_by_slug_def stamped_def stub_node_def infer_kind_def is_prefix_def
        codec_keeps_def path_for_def node_at_def read_at_def Let_def)
  from markdown_resolve_or_stub [OF md_vault_inv_empty this _ call] call show ?thesis by auto
qed

text \<open>
  Linking two nodes through \<open>put_link\<close> reports success and loses the link: the source
  node is put again with unchanged content, which takes the reinforcing branch, and that
  branch does not copy the links. The stored links stay as they were.
\<close>
theorem markdown_put_link_is_lost:
  assumes inv: "md_inv V" and src: "find_by_slug V (lk_src_slug l) = Inr (Some src)"
    and codec: "codec_keeps reload (reinforced now src src)" and slug: "lk_src_slug l \<noteq> []"
  shows "fst (md_put_link H reload now l V) = Inr () \<and>
    (\<exists>m. find_by_slug (snd (md_put_link H reload now l V)) (lk_src_slug l) = Inr (Some m) \<and>
       nd_reinforced m = nd_reinforced src + 1 \<and>
       map (\<lambda>x. (lk_dst_slug x, lk_type x, lk_strength x)) (nd_links m) =
       map (\<lambda>x. (lk_dst_slug x, lk_type x, lk_strength x)) (filter (\<lambda>x. lk_dst_slug x \<noteq> []) (nd_links src)))"
proof -
  let ?src' = "src\<lparr>nd_links := filter (\<lambda>x. (lk_dst_slug x, lk_type x) \<noteq> (lk_dst_slug l, lk_type l)) (nd_links src) @ [l]\<rparr>"
  obtain p where p: "node_at V p src" "nd_slug src = lk_src_slug l" using src find_by_slug_iff [OF inv] by blast
  then have layout: "path_for (nd_kind src) (nd_slug src) = Inr p" "nd_id src \<noteq> []" using inv unfolding md_inv_def by blast+
  have target: "put_target H now V ?src' = reinforced now src src"
    using src p(2) by (simp add: put_target_def content_hash_def reinforced_def)
  have acc: "md_accepts H reload now V ?src'"
    unfolding md_accepts_def Let_def target
  proof (intro conjI exI)
    show "path_for (nd_kind (reinforced now src src)) (nd_slug ?src') = Inr p" using layout by (simp add: reinforced_def)
    have same: "nd_slug ?src' = nd_slug src" by simp
    show "\<forall>k. node_at V p k \<longrightarrow> nd_slug k = nd_slug ?src'" unfolding same using p(1) node_at_unique by blast
    show "\<forall>q k. node_at V q k \<longrightarrow> nd_slug k = nd_slug ?src' \<longrightarrow> q = p"
      unfolding same using inv p(1) unfolding md_inv_def by blast
  qed (use layout codec slug p(2) in \<open>simp_all add: reinforced_def\<close>)
  have call: "md_put_link H reload now l V = (Inr (), snd (md_put_node H reload now ?src' V))"
  proof -
    have "fst (md_put_node H reload now ?src' V) = Inr (reinforced now src src)"
    proof -
      obtain q where "put_effect H reload now V ?src' q" using md_put_accepted [OF inv acc] by blast
      from put_effectD(1) [OF this] show ?thesis unfolding target .
    qed
    then obtain V' where "md_put_node H reload now ?src' V = (Inr (reinforced now src src), V')"
      by (cases "md_put_node H reload now ?src' V") simp
    then show ?thesis using src unfolding md_put_link_def md_get_node_def Let_def by simp
  qed
  obtain q where m: "find_by_slug (snd (md_put_node H reload now ?src' V)) (lk_src_slug l) =
      Inr (Some (md_echo q (written_body (reinforced now src src)) (reinforced now src src)))"
    using markdown_put_get_lemma [OF inv acc] target p(2) by auto
  show ?thesis
    using m call by (simp add: md_echo_def reinforced_def comp_def)
qed

theorem markdown_put_link_is_lost_witness:
  "\<exists>V src m. find_by_slug V ''s'' = Inr (Some src) \<and> fst (md_put_link id id 6 demo_link V) = Inr () \<and>
     find_by_slug (snd (md_put_link id id 6 demo_link V)) ''s'' = Inr (Some m) \<and> nd_reinforced m = nd_reinforced src + 1"
proof -
  let ?V = "snd (md_put_node id id 5 (demo_node ''T'' ''b'') [])"
  have slug: "nd_slug (demo_node ''T'' ''b'') = ''s''" "lk_src_slug demo_link = ''s''"
    by (simp_all add: demo_node_def demo_link_def)
  obtain src where src: "find_by_slug ?V (lk_src_slug demo_link) = Inr (Some src)"
    using markdown_put_get_lemma [OF md_vault_inv_empty demo_accepts] slug by auto
  from markdown_put_link_is_lost [OF markdown_nodes.put_inv [OF md_vault_inv_empty demo_accepts] src, of id 6 id] src slug
  show ?thesis by (auto simp: codec_keeps_def)
qed

end
