(* ===== verification/Core_Memory.thy ===== *)
theory Core_Memory imports Prelude begin

text \<open>
  Agent core memory over a NATS key-value bucket (\<open>memu/core_memory.py\<close>) and the prompt
  firewall its writes consult (\<open>sanitize_memory_payload\<close> of \<open>memu/memory_agent.py\<close>).

  The bucket is a service outside the repository: a record of the four calls the manager
  makes, each a function of the key, its arguments and the service's state \<open>'s\<close>. Every call
  is an await point, so \<open>'s\<close> also holds what other writers are about to do and a call may
  run some of it before it answers. \<open>kv_contract\<close> states what NATS documents of the calls
  under such interference and \<open>kv_quiet\<close> what they do when nobody else writes; a bucket with
  a queue of foreign writes (\<open>demo_kv\<close>) satisfies both. The tokenizer is an argument too:
  \<open>Some\<close> its token count, or \<open>None\<close> when \<open>tiktoken\<close> is not installed.

  Proved: \<open>append_block\<close> and \<open>replace_in_block\<close> are atomic read-modify-writes under any
  interference; guarded operations write only what permissions, limits and firewall allow;
  \<open>update_block\<close> overwrites whatever revision the caller expected.
\<close>

section \<open>Blocks, permissions and limits\<close>

datatype core_block = System | Persona | User_Profile | Working_Context | Primed_Cache

fun core_block_value :: "core_block \<Rightarrow> string" where
  "core_block_value System = ''System''"
| "core_block_value Persona = ''Persona''"
| "core_block_value User_Profile = ''User_Profile''"
| "core_block_value Working_Context = ''Working_Context''"
| "core_block_value Primed_Cache = ''Primed_Cache''"

text \<open>\<open>for block in Block\<close>.\<close>

definition core_blocks :: "core_block list" where
  "core_blocks = [System, Persona, User_Profile, Working_Context, Primed_Cache]"

definition agent_writable_blocks :: "core_block set" where
  "agent_writable_blocks = {Working_Context}"

definition worker_writable_blocks :: "core_block set" where
  "worker_writable_blocks = {Primed_Cache, User_Profile}"

fun default_token_limit :: "core_block \<Rightarrow> nat" where
  "default_token_limit System = 1500"
| "default_token_limit Persona = 1000"
| "default_token_limit User_Profile = 2000"
| "default_token_limit Working_Context = 4000"
| "default_token_limit Primed_Cache = 2000"

definition total_token_budget :: nat where
  "total_token_budget = 12000"

definition max_cas_retries :: nat where
  "max_cas_retries = 5"

section \<open>Tokens\<close>

type_synonym tokenizer = "(string \<Rightarrow> nat) option"

definition count_tokens :: "tokenizer \<Rightarrow> string \<Rightarrow> nat" where
  "count_tokens enc text =
     (case enc of Some tokens \<Rightarrow> tokens text | None \<Rightarrow> max 1 (char_len text div 4))"

text \<open>
  \<open>token_safe_truncate\<close>, on a list and on a dict; \<open>dumps\<close> is the text of the container
  (\<open>json.dumps\<close>). The list loop pops from the front; the dict loop walks the keys that
  are not protected, in insertion order.
\<close>

fun truncate_list :: "tokenizer \<Rightarrow> (json list \<Rightarrow> string) \<Rightarrow> nat \<Rightarrow> json list \<Rightarrow> json list" where
  "truncate_list enc dumps max_tokens [] = []"
| "truncate_list enc dumps max_tokens (x # xs) =
     (if xs \<noteq> [] \<and> count_tokens enc (dumps (x # xs)) > max_tokens
      then truncate_list enc dumps max_tokens xs else x # xs)"

fun evict_loop ::
  "tokenizer \<Rightarrow> (payload \<Rightarrow> string) \<Rightarrow> nat \<Rightarrow> string list \<Rightarrow> payload \<Rightarrow> payload" where
  "evict_loop enc dumps max_tokens [] data = data"
| "evict_loop enc dumps max_tokens (k # evictable) data =
     (if length data > 1 \<and> count_tokens enc (dumps data) > max_tokens
      then evict_loop enc dumps max_tokens evictable (dict_del k data) else data)"

definition truncate_dict ::
  "tokenizer \<Rightarrow> (payload \<Rightarrow> string) \<Rightarrow> nat \<Rightarrow> string set \<Rightarrow> payload \<Rightarrow> payload" where
  "truncate_dict enc dumps max_tokens protected data =
     evict_loop enc dumps max_tokens (filter (\<lambda>k. k \<notin> protected) (dict_keys data)) data"

section \<open>Entries and snapshots\<close>

record block_entry =
  be_content :: string
  be_revision :: nat
  be_tokens :: nat

definition block_entry_to_dict :: "block_entry \<Rightarrow> payload" where
  "block_entry_to_dict b =
     [(''content'', JStr (be_content b)), (''revision'', JInt (int (be_revision b))),
      (''tokens'', JInt (int (be_tokens b)))]"

record core_memory =
  cm_agent_id :: string
  cm_blocks :: "(string, block_entry) dict"

definition total_tokens :: "core_memory \<Rightarrow> nat" where
  "total_tokens m = sum_list (map be_tokens (dict_values (cm_blocks m)))"

definition core_memory_to_dict :: "core_memory \<Rightarrow> payload" where
  "core_memory_to_dict m =
     [(''agent_id'', JStr (cm_agent_id m)),
      (''total_tokens'', JInt (int (total_tokens m))),
      (''budget'', JInt (int total_token_budget)),
      (''blocks'', JObj (map (\<lambda>(k, b). (k, JObj (block_entry_to_dict b))) (cm_blocks m)))]"

definition as_system_prompt_fragment :: "core_memory \<Rightarrow> string" where
  "as_system_prompt_fragment m =
     join_strings (newline @ newline)
       (concat (map (\<lambda>b. case dict_get (cm_blocks m) (core_block_value b) of
                             Some e \<Rightarrow> (if be_content e \<noteq> []
                               then [''<'' @ core_block_value b @ ''>'' @ newline @ be_content e @
                                     newline @ ''</'' @ core_block_value b @ ''>'']
                               else [])
                           | None \<Rightarrow> []) core_blocks))"

section \<open>The prompt firewall\<close>

text \<open>\<open>str.find\<close>: the first position of a substring.\<close>

fun find_sub :: "string \<Rightarrow> string \<Rightarrow> nat option" where
  "find_sub p [] = (if p = [] then Some 0 else None)"
| "find_sub p (c # s) = (if is_prefix p (c # s) then Some 0 else map_option Suc (find_sub p s))"

text \<open>The regular expressions are literals once their escapes are read; matching ignores case.\<close>

definition injection_patterns :: "string list" where
  "injection_patterns =
     [''ignore previous instructions'', ''ignore all previous'', ''disregard previous'',
      ''disregard all previous'', ''system override'', ''override system prompt'',
      ''new system prompt'', ''you are now'', ''act as if'', ''pretend you are'',
      ''forget everything'', ''forget your instructions'', ''ignore your training'',
      ''ignore your programming'', ''do not follow'', ''bypass safety'', ''bypass your'',
      ''jailbreak'', ''DAN mode'', ''developer mode enabled'', ''[system]'', ''[INST]'',
      ''<|im_start|>system'', ''### Instruction:'', ''### System:'']"

fun first_injection :: "string list \<Rightarrow> string \<Rightarrow> string option" where
  "first_injection [] text = None"
| "first_injection (p # ps) text =
     (case find_sub (lower p) (lower text) of
        Some i \<Rightarrow> Some (take (length p) (drop i text))
      | None \<Rightarrow> first_injection ps text)"

text \<open>\<open>(is_safe, matched)\<close>: \<open>None\<close> for \<open>(True, None)\<close>, the matched text otherwise.\<close>

definition sanitize_memory_payload :: "string \<Rightarrow> string option" where
  "sanitize_memory_payload text = (if text = [] then None else first_injection injection_patterns text)"

section \<open>The bucket\<close>

text \<open>An exception of the client library: whether it is \<open>KeyNotFoundError\<close>, and its text.\<close>

record kv_exn =
  not_found :: bool
  exn_text :: string

record 's kv =
  kv_get :: "string \<Rightarrow> 's \<Rightarrow> (kv_exn + string \<times> nat) \<times> 's"
  kv_create :: "string \<Rightarrow> string \<Rightarrow> 's \<Rightarrow> (kv_exn + nat) \<times> 's"
  kv_update :: "string \<Rightarrow> string \<Rightarrow> nat \<Rightarrow> 's \<Rightarrow> (kv_exn + nat) \<times> 's"
  kv_purge :: "string \<Rightarrow> 's \<Rightarrow> (kv_exn + unit) \<times> 's"

text \<open>The two texts the write loops recognise as a lost race.\<close>

definition is_conflict :: "kv_exn \<Rightarrow> bool" where
  "is_conflict e \<longleftrightarrow> find_sub ''wrong last sequence'' (lower (exn_text e)) \<noteq> None \<or>
                     find_sub ''already in use'' (lower (exn_text e)) \<noteq> None"

section \<open>CoreMemoryManager\<close>

datatype core_error =
    Quarantined string
  | Permission_Denied core_block
  | Token_Limit_Exceeded nat nat
  | Block_Missing
  | Old_Text_Missing
  | Memory_Concurrency
  | Kv_Failure kv_exn

definition core_key :: "string \<Rightarrow> core_block \<Rightarrow> string" where
  "core_key agent_id block = ''agent_'' @ agent_id @ ''.'' @ core_block_value block"

text \<open>A missing key and a failed read both give \<open>None\<close>.\<close>

definition get_block ::
  "'s kv \<Rightarrow> tokenizer \<Rightarrow> string \<Rightarrow> core_block \<Rightarrow> 's \<Rightarrow> block_entry option \<times> 's" where
  "get_block kv enc agent_id block s =
     (case kv_get kv (core_key agent_id block) s of
        (Inr (content, revn), s') \<Rightarrow>
          (Some \<lparr>be_content = content, be_revision = revn, be_tokens = count_tokens enc content\<rparr>, s')
      | (Inl _, s') \<Rightarrow> (None, s'))"

fun get_blocks ::
  "'s kv \<Rightarrow> tokenizer \<Rightarrow> string \<Rightarrow> core_block list \<Rightarrow> (string, block_entry) dict \<Rightarrow> 's \<Rightarrow>
   (string, block_entry) dict \<times> 's" where
  "get_blocks kv enc agent_id [] blocks s = (blocks, s)"
| "get_blocks kv enc agent_id (b # bs) blocks s =
     (case get_block kv enc agent_id b s of
        (entry, s') \<Rightarrow>
          get_blocks kv enc agent_id bs
            (dict_set (core_block_value b)
              (case entry of Some e \<Rightarrow> e
               | None \<Rightarrow> \<lparr>be_content = [], be_revision = 0, be_tokens = 0\<rparr>) blocks) s')"

definition get_agent_memory ::
  "'s kv \<Rightarrow> tokenizer \<Rightarrow> string \<Rightarrow> 's \<Rightarrow> core_memory \<times> 's" where
  "get_agent_memory kv enc agent_id s =
     (case get_blocks kv enc agent_id core_blocks [] s of
        (blocks, s') \<Rightarrow> (\<lparr>cm_agent_id = agent_id, cm_blocks = blocks\<rparr>, s'))"

text \<open>The permission test of \<open>update_block\<close> and \<open>replace_in_block\<close>; any other caller passes.\<close>

definition write_denied :: "string \<Rightarrow> core_block \<Rightarrow> bool" where
  "write_denied caller block \<longleftrightarrow>
     (caller = ''agent'' \<and> block \<notin> agent_writable_blocks) \<or>
     (caller = ''worker'' \<and> block \<notin> worker_writable_blocks)"

text \<open>
  One write attempt: revision 0 means the key is to be created. The update loop sleeps,
  reads the latest revision and tries again with the same content; its first argument
  counts the attempts left.
\<close>

definition cas_write :: "'s kv \<Rightarrow> string \<Rightarrow> string \<Rightarrow> nat \<Rightarrow> 's \<Rightarrow> (kv_exn + nat) \<times> 's" where
  "cas_write kv key data revn s = (if revn = 0 then kv_create kv key data s else kv_update kv key data revn s)"

fun update_loop ::
  "nat \<Rightarrow> 's kv \<Rightarrow> string \<Rightarrow> string \<Rightarrow> nat \<Rightarrow> 's \<Rightarrow> (core_error + nat) \<times> 's" where
  "update_loop 0 kv key data revn s = (Inl Memory_Concurrency, s)"
| "update_loop (Suc n) kv key data revn s =
     (case cas_write kv key data revn s of
        (Inr new_rev, s') \<Rightarrow> (Inr new_rev, s')
      | (Inl e, s') \<Rightarrow>
          if \<not> is_conflict e then (Inl (Kv_Failure e), s')
          else (case kv_get kv key s' of
                  (Inr (_, latest), s'') \<Rightarrow> update_loop n kv key data latest s''
                | (Inl e', s'') \<Rightarrow>
                    if not_found e' then update_loop n kv key data 0 s''
                    else (Inl (Kv_Failure e'), s'')))"

definition update_block ::
  "'s kv \<Rightarrow> tokenizer \<Rightarrow> string \<Rightarrow> core_block \<Rightarrow> string \<Rightarrow> nat \<Rightarrow> string \<Rightarrow> 's \<Rightarrow>
   (core_error + block_entry) \<times> 's" where
  "update_block kv enc agent_id block content expected_revision caller s =
     (case sanitize_memory_payload content of
        Some matched \<Rightarrow> (Inl (Quarantined matched), s)
      | None \<Rightarrow>
          if write_denied caller block then (Inl (Permission_Denied block), s)
          else if count_tokens enc content > default_token_limit block
          then (Inl (Token_Limit_Exceeded (count_tokens enc content) (default_token_limit block)), s)
          else (case update_loop max_cas_retries kv (core_key agent_id block) content expected_revision s of
                  (Inr new_rev, s') \<Rightarrow>
                    (Inr \<lparr>be_content = content, be_revision = new_rev,
                          be_tokens = count_tokens enc content\<rparr>, s')
                | (Inl e, s') \<Rightarrow> (Inl e, s')))"

text \<open>
  \<open>append_block\<close> reads, appends and writes, again after every lost race. It takes a caller
  and an expected revision and looks at neither.
\<close>

definition appended :: "string \<Rightarrow> string \<Rightarrow> string \<Rightarrow> string" where
  "appended separator text current =
     (if current \<noteq> [] then strip (current @ separator @ text) else strip text)"

fun append_loop ::
  "nat \<Rightarrow> 's kv \<Rightarrow> tokenizer \<Rightarrow> string \<Rightarrow> core_block \<Rightarrow> string \<Rightarrow> string \<Rightarrow> 's \<Rightarrow>
   (core_error + block_entry) \<times> 's" where
  "append_loop 0 kv enc key block text separator s = (Inl Memory_Concurrency, s)"
| "append_loop (Suc n) kv enc key block text separator s =
     (let attempt = (\<lambda>current revn s'.
        let new = appended separator text current; tokens = count_tokens enc new
        in if tokens > default_token_limit block
           then (Inl (Token_Limit_Exceeded tokens (default_token_limit block)), s')
           else (case cas_write kv key new revn s' of
                   (Inr new_rev, s'') \<Rightarrow>
                     (Inr \<lparr>be_content = new, be_revision = new_rev, be_tokens = tokens\<rparr>, s'')
                 | (Inl e, s'') \<Rightarrow>
                     if is_conflict e then append_loop n kv enc key block text separator s''
                     else (Inl (Kv_Failure e), s'')))
      in case kv_get kv key s of
           (Inr (current, revn), s') \<Rightarrow> attempt current revn s'
         | (Inl e, s') \<Rightarrow> if not_found e then attempt [] 0 s' else (Inl (Kv_Failure e), s'))"

definition append_block ::
  "'s kv \<Rightarrow> tokenizer \<Rightarrow> string \<Rightarrow> core_block \<Rightarrow> string \<Rightarrow> nat \<Rightarrow> string \<Rightarrow> string \<Rightarrow> 's \<Rightarrow>
   (core_error + block_entry) \<times> 's" where
  "append_block kv enc agent_id block text expected_revision caller separator s =
     append_loop max_cas_retries kv enc (core_key agent_id block) block text separator s"

text \<open>\<open>current.replace(old, new, 1)\<close>, \<open>None\<close> when the old text does not occur.\<close>

definition replace_first :: "string \<Rightarrow> string \<Rightarrow> string \<Rightarrow> string option" where
  "replace_first old new current =
     (case find_sub old current of
        None \<Rightarrow> None
      | Some i \<Rightarrow> Some (take i current @ new @ drop (i + length old) current))"

fun replace_loop ::
  "nat \<Rightarrow> 's kv \<Rightarrow> tokenizer \<Rightarrow> string \<Rightarrow> core_block \<Rightarrow> string \<Rightarrow> string \<Rightarrow> 's \<Rightarrow>
   (core_error + block_entry) \<times> 's" where
  "replace_loop 0 kv enc key block old new s = (Inl Memory_Concurrency, s)"
| "replace_loop (Suc n) kv enc key block old new s =
     (case kv_get kv key s of
        (Inl e, s') \<Rightarrow> (Inl (if not_found e then Block_Missing else Kv_Failure e), s')
      | (Inr (current, revn), s') \<Rightarrow>
          (case replace_first old new current of
             None \<Rightarrow> (Inl Old_Text_Missing, s')
           | Some content \<Rightarrow>
               let tokens = count_tokens enc content
               in if tokens > default_token_limit block
                  then (Inl (Token_Limit_Exceeded tokens (default_token_limit block)), s')
                  else (case kv_update kv key content revn s' of
                          (Inr new_rev, s'') \<Rightarrow>
                            (Inr \<lparr>be_content = content, be_revision = new_rev, be_tokens = tokens\<rparr>, s'')
                        | (Inl e, s'') \<Rightarrow>
                            if is_conflict e then replace_loop n kv enc key block old new s''
                            else (Inl (Kv_Failure e), s''))))"

definition replace_in_block ::
  "'s kv \<Rightarrow> tokenizer \<Rightarrow> string \<Rightarrow> core_block \<Rightarrow> string \<Rightarrow> string \<Rightarrow> nat \<Rightarrow> string \<Rightarrow> 's \<Rightarrow>
   (core_error + block_entry) \<times> 's" where
  "replace_in_block kv enc agent_id block old new expected_revision caller s =
     (if write_denied caller block then (Inl (Permission_Denied block), s)
      else replace_loop max_cas_retries kv enc (core_key agent_id block) block old new s)"

text \<open>
  \<open>bootstrap_agent\<close> creates the missing blocks, with no permission, firewall or limit test.
  A read that fails for another reason is logged and skipped; a failed creation raises,
  which ends the call.
\<close>

fun bootstrap_loop ::
  "'s kv \<Rightarrow> tokenizer \<Rightarrow> string \<Rightarrow> (core_block \<times> string) list \<Rightarrow> (string, block_entry) dict \<Rightarrow> 's \<Rightarrow>
   (core_error + (string, block_entry) dict) \<times> 's" where
  "bootstrap_loop kv enc agent_id [] blocks s = (Inr blocks, s)"
| "bootstrap_loop kv enc agent_id ((b, default_content) # defaults) blocks s =
     (case kv_get kv (core_key agent_id b) s of
        (Inr (content, revn), s') \<Rightarrow>
          bootstrap_loop kv enc agent_id defaults
            (dict_set (core_block_value b)
              \<lparr>be_content = content, be_revision = revn, be_tokens = count_tokens enc content\<rparr> blocks) s'
      | (Inl e, s') \<Rightarrow>
          if not_found e
          then (case kv_create kv (core_key agent_id b) default_content s' of
                  (Inr revn, s'') \<Rightarrow>
                    bootstrap_loop kv enc agent_id defaults
                      (dict_set (core_block_value b)
                        \<lparr>be_content = default_content, be_revision = revn,
                         be_tokens = count_tokens enc default_content\<rparr> blocks) s''
                | (Inl e', s'') \<Rightarrow> (Inl (Kv_Failure e'), s''))
          else bootstrap_loop kv enc agent_id defaults blocks s')"

definition bootstrap_agent ::
  "'s kv \<Rightarrow> tokenizer \<Rightarrow> string \<Rightarrow> string \<Rightarrow> string \<Rightarrow> 's \<Rightarrow> (core_error + core_memory) \<times> 's" where
  "bootstrap_agent kv enc agent_id system persona s =
     (case bootstrap_loop kv enc agent_id
             [(System, system), (Persona, persona), (User_Profile, []), (Working_Context, []),
              (Primed_Cache, [])] [] s of
        (Inr blocks, s') \<Rightarrow> (Inr \<lparr>cm_agent_id = agent_id, cm_blocks = blocks\<rparr>, s')
      | (Inl e, s') \<Rightarrow> (Inl e, s'))"

fun purge_loop :: "'s kv \<Rightarrow> string \<Rightarrow> core_block list \<Rightarrow> 's \<Rightarrow> nat \<times> 's" where
  "purge_loop kv agent_id [] s = (0, s)"
| "purge_loop kv agent_id (b # bs) s =
     (case kv_purge kv (core_key agent_id b) s of
        (r, s') \<Rightarrow> (case purge_loop kv agent_id bs s' of
                     (deleted, s'') \<Rightarrow> (if isl r then deleted else Suc deleted, s'')))"

definition delete_agent :: "'s kv \<Rightarrow> string \<Rightarrow> 's \<Rightarrow> nat \<times> 's" where
  "delete_agent kv agent_id s = purge_loop kv agent_id core_blocks s"

section \<open>What the bucket promises\<close>

text \<open>
  \<open>view s k\<close> is the value and the revision of a key, \<open>rely s s'\<close> that \<open>s'\<close> can follow \<open>s\<close>
  by other writers' writes. Revisions are positive and never reused, so one that is
  unchanged means the value is. A call answers for some moment it runs at: a read reports
  what is there, \<open>create\<close> succeeds only on a missing key, \<open>update\<close> only on the revision it
  is given, and a call that fails has written nothing.
\<close>

type_synonym 's kv_view = "'s \<Rightarrow> string \<Rightarrow> (string \<times> nat) option"

definition rely_ok :: "'s kv_view \<Rightarrow> ('s \<Rightarrow> 's \<Rightarrow> bool) \<Rightarrow> ('s \<Rightarrow> bool) \<Rightarrow> bool" where
  "rely_ok view rely good \<longleftrightarrow>
     (\<forall>s. rely s s) \<and>
     (\<forall>s s' s''. rely s s' \<and> rely s' s'' \<longrightarrow> rely s s'') \<and>
     (\<forall>s s' k c c' r. good s \<and> rely s s' \<and> view s k = Some (c, r) \<and> view s' k = Some (c', r)
        \<longrightarrow> c' = c)"

definition get_ok :: "'s kv \<Rightarrow> 's kv_view \<Rightarrow> ('s \<Rightarrow> 's \<Rightarrow> bool) \<Rightarrow> ('s \<Rightarrow> bool) \<Rightarrow> bool" where
  "get_ok kv view rely good \<longleftrightarrow>
     (\<forall>s s' k x. good s \<and> kv_get kv k s = (x, s') \<longrightarrow>
        good s' \<and> rely s s' \<and>
        (case x of Inr (c, r) \<Rightarrow> view s' k = Some (c, r) \<and> 0 < r
         | Inl e \<Rightarrow> not_found e \<longrightarrow> view s' k = None))"

definition write_ok :: "'s kv \<Rightarrow> 's kv_view \<Rightarrow> ('s \<Rightarrow> 's \<Rightarrow> bool) \<Rightarrow> ('s \<Rightarrow> bool) \<Rightarrow> bool" where
  "write_ok kv view rely good \<longleftrightarrow>
     (\<forall>s s' k d x. good s \<and> kv_create kv k d s = (x, s') \<longrightarrow>
        good s' \<and>
        (case x of Inl e \<Rightarrow> rely s s'
         | Inr n \<Rightarrow> \<exists>s1. rely s s1 \<and> view s1 k = None \<and> view s' = (view s1)(k \<mapsto> (d, n)))) \<and>
     (\<forall>s s' k d r x. good s \<and> kv_update kv k d r s = (x, s') \<longrightarrow>
        good s' \<and>
        (case x of Inl e \<Rightarrow> rely s s'
         | Inr n \<Rightarrow> \<exists>s1 c. rely s s1 \<and> view s1 k = Some (c, r) \<and> view s' = (view s1)(k \<mapsto> (d, n))))"

definition kv_contract :: "'s kv \<Rightarrow> 's kv_view \<Rightarrow> ('s \<Rightarrow> 's \<Rightarrow> bool) \<Rightarrow> ('s \<Rightarrow> bool) \<Rightarrow> bool" where
  "kv_contract kv view rely good \<longleftrightarrow>
     rely_ok view rely good \<and> get_ok kv view rely good \<and> write_ok kv view rely good"

text \<open>
  With nobody else writing (\<open>idle\<close>), each call does exactly that, and a refused write says
  why in the words the write loops look for.
\<close>

definition kv_quiet :: "'s kv \<Rightarrow> 's kv_view \<Rightarrow> ('s \<Rightarrow> bool) \<Rightarrow> bool" where
  "kv_quiet kv view idle \<longleftrightarrow>
     (\<forall>s k. idle s \<longrightarrow>
        idle (snd (kv_get kv k s)) \<and> view (snd (kv_get kv k s)) = view s \<and>
        (case view s k of
           Some (c, r) \<Rightarrow> fst (kv_get kv k s) = Inr (c, r) \<and> 0 < r
         | None \<Rightarrow> \<exists>e. fst (kv_get kv k s) = Inl e \<and> not_found e)) \<and>
     (\<forall>s k d r. idle s \<longrightarrow>
        (if r = 0 \<and> view s k = None \<or> r \<noteq> 0 \<and> map_option snd (view s k) = Some r
         then \<exists>n s'. cas_write kv k d r s = (Inr n, s') \<and> idle s' \<and> view s' = (view s)(k \<mapsto> (d, n))
         else \<exists>e s'. cas_write kv k d r s = (Inl e, s') \<and> is_conflict e \<and> idle s' \<and> view s' = view s))"

lemma kv_contract_rely:
  assumes "kv_contract kv view rely good"
  shows "rely s s" "rely s s' \<Longrightarrow> rely s' s'' \<Longrightarrow> rely s s''"
    "good s \<Longrightarrow> rely s s' \<Longrightarrow> view s k = Some (c, r) \<Longrightarrow> view s' k = Some (c', r) \<Longrightarrow> c' = c"
  using assms unfolding kv_contract_def rely_ok_def by blast+

lemma kv_contract_get:
  assumes "kv_contract kv view rely good" "good s" "kv_get kv k s = (x, s')"
  shows "good s'" "rely s s'" "x = Inr (c, r) \<Longrightarrow> view s' k = Some (c, r) \<and> 0 < r"
    "x = Inl e \<Longrightarrow> not_found e \<Longrightarrow> view s' k = None"
proof -
  have "good s' \<and> rely s s' \<and>
        (case x of Inr (c, r) \<Rightarrow> view s' k = Some (c, r) \<and> 0 < r
         | Inl e \<Rightarrow> not_found e \<longrightarrow> view s' k = None)"
    using assms unfolding kv_contract_def get_ok_def by blast
  then show "good s'" "rely s s'" "x = Inr (c, r) \<Longrightarrow> view s' k = Some (c, r) \<and> 0 < r"
    "x = Inl e \<Longrightarrow> not_found e \<Longrightarrow> view s' k = None"
    by simp_all
qed

lemma kv_contract_update:
  assumes "kv_contract kv view rely good" "good s" "kv_update kv k d r s = (x, s')"
  shows "good s'" "x = Inl e \<Longrightarrow> rely s s'"
    "x = Inr n \<Longrightarrow> \<exists>s1 c. rely s s1 \<and> view s1 k = Some (c, r) \<and> view s' = (view s1)(k \<mapsto> (d, n))"
proof -
  have "good s' \<and> (case x of Inl e \<Rightarrow> rely s s'
         | Inr n \<Rightarrow> \<exists>s1 c. rely s s1 \<and> view s1 k = Some (c, r) \<and> view s' = (view s1)(k \<mapsto> (d, n)))"
    using assms unfolding kv_contract_def write_ok_def by blast
  then show "good s'" "x = Inl e \<Longrightarrow> rely s s'"
    "x = Inr n \<Longrightarrow> \<exists>s1 c. rely s s1 \<and> view s1 k = Some (c, r) \<and> view s' = (view s1)(k \<mapsto> (d, n))"
    by auto
qed

lemma kv_contract_create:
  assumes "kv_contract kv view rely good" "good s" "kv_create kv k d s = (x, s')"
  shows "good s'" "x = Inl e \<Longrightarrow> rely s s'"
    "x = Inr n \<Longrightarrow> \<exists>s1. rely s s1 \<and> view s1 k = None \<and> view s' = (view s1)(k \<mapsto> (d, n))"
proof -
  have "good s' \<and> (case x of Inl e \<Rightarrow> rely s s'
         | Inr n \<Rightarrow> \<exists>s1. rely s s1 \<and> view s1 k = None \<and> view s' = (view s1)(k \<mapsto> (d, n)))"
    using assms unfolding kv_contract_def write_ok_def by blast
  then show "good s'" "x = Inl e \<Longrightarrow> rely s s'"
    "x = Inr n \<Longrightarrow> \<exists>s1. rely s s1 \<and> view s1 k = None \<and> view s' = (view s1)(k \<mapsto> (d, n))"
    by auto
qed

text \<open>
  A successful write puts \<open>d\<close> over the value \<open>c\<close> that the revision stood for, in one step:
  nothing was written between the moment \<open>c\<close> is read off and the write.
\<close>

lemma update_over_read:
  assumes "kv_contract kv view rely good" "good s" "view s k = Some (c, r)"
    "kv_update kv k d r s = (Inr n, s')"
  shows "\<exists>s1. rely s s1 \<and> view s1 k = Some (c, r) \<and> view s' = (view s1)(k \<mapsto> (d, n))"
proof -
  obtain s1 c' where s1: "rely s s1" "view s1 k = Some (c', r)" "view s' = (view s1)(k \<mapsto> (d, n))"
    using kv_contract_update(3)[OF assms(1,2,4) refl] by blast
  have "c' = c"
    by (rule kv_contract_rely(3)[OF assms(1,2) s1(1) assms(3) s1(2)])
  then show ?thesis
    using s1 by blast
qed

text \<open>The value a key has, a missing key counting as the empty text.\<close>

definition content_of :: "(string \<times> nat) option \<Rightarrow> string" where
  "content_of v = (case v of None \<Rightarrow> [] | Some (c, _) \<Rightarrow> c)"

lemma content_of_simps [simp]: "content_of None = []" "content_of (Some (c, r)) = c"
  by (simp_all add: content_of_def)

lemma cas_write_over_read:
  assumes "kv_contract kv view rely good" "good s"
    "(view s k = Some (c, r) \<and> 0 < r) \<or> (c = [] \<and> r = 0)"
    "cas_write kv k d r s = (Inr n, s')"
  shows "\<exists>s1. rely s s1 \<and> content_of (view s1 k) = c \<and> view s' = (view s1)(k \<mapsto> (d, n))"
proof (cases "r = 0")
  case True
  then have "c = []" "kv_create kv k d s = (Inr n, s')"
    using assms(3,4) by (auto simp: cas_write_def)
  then show ?thesis
    using kv_contract_create(3)[OF assms(1,2) _ refl] by fastforce
next
  case False
  then have "view s k = Some (c, r)" "kv_update kv k d r s = (Inr n, s')"
    using assms(3,4) by (auto simp: cas_write_def)
  then show ?thesis
    using update_over_read[OF assms(1,2)] by fastforce
qed

lemma cas_write_failed:
  assumes "kv_contract kv view rely good" "good s" "cas_write kv k d r s = (Inl e, s')"
  shows "good s'" "rely s s'"
  using assms(3) kv_contract_create(1,2)[OF assms(1,2)] kv_contract_update(1,2)[OF assms(1,2)]
  by (auto simp: cas_write_def split: if_splits)

section \<open>Appending and replacing are atomic\<close>

text \<open>
  \<open>committed\<close>: the call wrote once, replacing the value the key had at that very moment by
  a function of it, within the block's limit, and returned what it wrote.
\<close>

definition committed ::
  "'s kv_view \<Rightarrow> ('s \<Rightarrow> 's \<Rightarrow> bool) \<Rightarrow> tokenizer \<Rightarrow> string \<Rightarrow> core_block \<Rightarrow> (string \<Rightarrow> string option) \<Rightarrow>
   's \<Rightarrow> block_entry \<Rightarrow> 's \<Rightarrow> bool" where
  "committed view rely enc k block f s e s' \<longleftrightarrow>
     (\<exists>s1. rely s s1 \<and> f (content_of (view s1 k)) = Some (be_content e) \<and>
           view s' = (view s1)(k \<mapsto> (be_content e, be_revision e))) \<and>
     be_tokens e = count_tokens enc (be_content e) \<and>
     be_tokens e \<le> default_token_limit block"

lemma committed_later:
  assumes "kv_contract kv view rely good" "rely s s1" "committed view rely enc k block f s1 e s'"
  shows "committed view rely enc k block f s e s'"
  using assms kv_contract_rely(2)[OF assms(1)] unfolding committed_def by blast

lemma append_loop_atomic:
  assumes "kv_contract kv view rely good"
  shows "good s \<Longrightarrow> append_loop n kv enc k block text separator s = (Inr e, s') \<Longrightarrow>
    committed view rely enc k block (\<lambda>c. Some (appended separator text c)) s e s'"
proof (induction n arbitrary: s)
  case 0
  then show ?case by simp
next
  case (Suc n)
  let ?step = "\<lambda>current r t. cas_write kv k (appended separator text current) r t"
  obtain x t where get: "kv_get kv k s = (x, t)"
    by fastforce
  have t: "good t" "rely s t"
    using kv_contract_get(1,2)[OF assms Suc.prems(1) get] .
  obtain current r where cur: "(view t k = Some (current, r) \<and> 0 < r) \<or> (current = [] \<and> r = 0)"
    and limit: "count_tokens enc (appended separator text current) \<le> default_token_limit block"
    and step: "(case ?step current r t of
        (Inr m, u) \<Rightarrow> (Inr \<lparr>be_content = appended separator text current, be_revision = m,
              be_tokens = count_tokens enc (appended separator text current)\<rparr>, u)
      | (Inl e', u) \<Rightarrow> if is_conflict e' then append_loop n kv enc k block text separator u
                       else (Inl (Kv_Failure e'), u)) = (Inr e, s')"
  proof (cases x)
    case (Inl e')
    then show thesis
      using Suc.prems(2) get that[of "[]" 0] by (auto simp: Let_def split: if_splits)
  next
    case (Inr cr)
    obtain c q where "cr = (c, q)"
      by fastforce
    then show thesis
      using Suc.prems(2) get Inr kv_contract_get(3)[OF assms Suc.prems(1) get, of c q] that[of c q]
      by (auto simp: Let_def split: if_splits)
  qed
  obtain y u where w: "?step current r t = (y, u)"
    by fastforce
  show ?case
  proof (cases y)
    case (Inl e')
    then have "append_loop n kv enc k block text separator u = (Inr e, s')"
      using step w by (simp split: if_splits)
    moreover have "good u" "rely t u"
      using cas_write_failed[OF assms t(1)] w Inl by auto
    ultimately show ?thesis
      using Suc.IH t(2) committed_later[OF assms] by blast
  next
    case (Inr m)
    then have e: "e = \<lparr>be_content = appended separator text current, be_revision = m,
        be_tokens = count_tokens enc (appended separator text current)\<rparr>" "u = s'"
      using step w by simp_all
    have "\<exists>s1. rely t s1 \<and> content_of (view s1 k) = current \<and>
        view u = (view s1)(k \<mapsto> (appended separator text current, m))"
      using cas_write_over_read[OF assms t(1) cur] w Inr by simp
    then have "committed view rely enc k block (\<lambda>c. Some (appended separator text c)) t e s'"
      using limit by (auto simp: committed_def e)
    then show ?thesis
      by (rule committed_later[OF assms t(2)])
  qed
qed

lemma replace_loop_atomic:
  assumes "kv_contract kv view rely good"
  shows "good s \<Longrightarrow> replace_loop n kv enc k block old new s = (Inr e, s') \<Longrightarrow>
    committed view rely enc k block (replace_first old new) s e s'"
proof (induction n arbitrary: s)
  case 0
  then show ?case by simp
next
  case (Suc n)
  obtain x t where get: "kv_get kv k s = (x, t)"
    by fastforce
  have t: "good t" "rely s t"
    using kv_contract_get(1,2)[OF assms Suc.prems(1) get] .
  obtain current r where x: "x = Inr (current, r)"
    using Suc.prems(2) get by (cases x) auto
  then obtain c where c: "replace_first old new current = Some c"
    using Suc.prems(2) get by (auto split: option.splits)
  have cur: "view t k = Some (current, r)"
    using kv_contract_get(3)[OF assms Suc.prems(1) get] x by blast
  obtain y u where w: "kv_update kv k c r t = (y, u)"
    by fastforce
  have limit: "count_tokens enc c \<le> default_token_limit block"
    using Suc.prems(2) get x c by (auto simp: Let_def split: if_splits)
  show ?case
  proof (cases y)
    case (Inl e')
    then have "replace_loop n kv enc k block old new u = (Inr e, s')"
      using Suc.prems(2) get x c w limit by (simp split: if_splits)
    moreover have "good u" "rely t u"
      using kv_contract_update(1,2)[OF assms t(1) w] Inl by auto
    ultimately show ?thesis
      using Suc.IH t(2) committed_later[OF assms] by blast
  next
    case (Inr m)
    then have e: "e = \<lparr>be_content = c, be_revision = m, be_tokens = count_tokens enc c\<rparr>" "u = s'"
      using Suc.prems(2) get x c w limit by simp_all
    have "committed view rely enc k block (replace_first old new) t e s'"
      using update_over_read[OF assms t(1) cur, of c m u] w Inr limit c
      unfolding committed_def e by (metis block_entry.select_convs content_of_simps(2) e(2))
    then show ?thesis
      by (rule committed_later[OF assms t(2)])
  qed
qed

section \<open>A bucket with a queue of foreign writes\<close>

text \<open>
  A concrete bucket that meets the contract, for the instances: before each call the next
  write of the queue is carried out. Revisions count up over the whole bucket.
\<close>

record demo_bucket =
  db_data :: "string \<Rightarrow> (string \<times> nat) option"
  db_next :: nat
  db_others :: "(string \<times> string) list"

definition demo_put :: "string \<Rightarrow> string \<Rightarrow> demo_bucket \<Rightarrow> demo_bucket" where
  "demo_put k d s = s\<lparr>db_data := (db_data s)(k \<mapsto> (d, db_next s)), db_next := Suc (db_next s)\<rparr>"

definition demo_others :: "demo_bucket \<Rightarrow> demo_bucket" where
  "demo_others s =
     (case db_others s of [] \<Rightarrow> s | (k, d) # ws \<Rightarrow> demo_put k d (s\<lparr>db_others := ws\<rparr>))"

definition demo_conflict :: kv_exn where
  "demo_conflict = \<lparr>not_found = False, exn_text = ''nats: Wrong last sequence''\<rparr>"

definition demo_kv :: "demo_bucket kv" where
  "demo_kv =
     \<lparr>kv_get = (\<lambda>k s. let s = demo_others s in
         (case db_data s k of Some v \<Rightarrow> Inr v
          | None \<Rightarrow> Inl \<lparr>not_found = True, exn_text = ''nats: key not found''\<rparr>, s)),
      kv_create = (\<lambda>k d s. let s = demo_others s in
         (case db_data s k of Some v \<Rightarrow> (Inl demo_conflict, s) | None \<Rightarrow> (Inr (db_next s), demo_put k d s))),
      kv_update = (\<lambda>k d r s. let s = demo_others s in
         (if map_option snd (db_data s k) = Some r then (Inr (db_next s), demo_put k d s)
          else (Inl demo_conflict, s))),
      kv_purge = (\<lambda>k s. let s = demo_others s in (Inr (), s\<lparr>db_data := (db_data s)(k := None)\<rparr>))\<rparr>"

definition demo_rely :: "demo_bucket \<Rightarrow> demo_bucket \<Rightarrow> bool" where
  "demo_rely s s' \<longleftrightarrow> (\<exists>n. s' = (demo_others ^^ n) s)"

definition demo_good :: "demo_bucket \<Rightarrow> bool" where
  "demo_good s \<longleftrightarrow> (\<forall>k c r. db_data s k = Some (c, r) \<longrightarrow> 0 < r \<and> r < db_next s) \<and> 0 < db_next s"

definition demo_idle :: "demo_bucket \<Rightarrow> bool" where
  "demo_idle s \<longleftrightarrow> demo_good s \<and> db_others s = []"

definition demo_empty :: demo_bucket where
  "demo_empty = \<lparr>db_data = Map.empty, db_next = 1, db_others = []\<rparr>"

lemma demo_conflict_is: "is_conflict demo_conflict"
  unfolding is_conflict_def demo_conflict_def by code_simp

lemma demo_good_put: "demo_good s \<Longrightarrow> demo_good (demo_put k d s)"
  by (auto simp: demo_good_def demo_put_def less_Suc_eq)

lemma demo_good_others: "demo_good s \<Longrightarrow> demo_good (demo_others s)"
  by (auto simp: demo_others_def demo_good_def demo_put_def less_Suc_eq split: list.splits)

lemma demo_rely_refl: "demo_rely s s"
  unfolding demo_rely_def by (rule exI[of _ 0]) simp

lemma demo_rely_step: "demo_rely s (demo_others s)"
  unfolding demo_rely_def by (rule exI[of _ 1]) simp

lemma demo_rely_trans: "demo_rely s s' \<Longrightarrow> demo_rely s' s'' \<Longrightarrow> demo_rely s s''"
  unfolding demo_rely_def by (metis comp_apply funpow_add)

lemma demo_others_old:
  "db_next s \<le> db_next (demo_others s) \<and>
   (\<forall>k c r. db_data (demo_others s) k = Some (c, r) \<and> r < db_next s \<longrightarrow> db_data s k = Some (c, r))"
  by (auto simp: demo_others_def demo_put_def split: list.splits if_splits)

lemma demo_rely_old:
  "db_next s \<le> db_next ((demo_others ^^ n) s) \<and>
   (\<forall>k c r. db_data ((demo_others ^^ n) s) k = Some (c, r) \<and> r < db_next s \<longrightarrow> db_data s k = Some (c, r))"
proof (induction n)
  case 0
  then show ?case by simp
next
  case (Suc n)
  then show ?case
    using demo_others_old[of "(demo_others ^^ n) s"] by (metis comp_apply funpow.simps(2) le_trans less_le_trans)
qed

lemma demo_rely_ok: "rely_ok db_data demo_rely demo_good"
  unfolding rely_ok_def
proof (intro conjI allI impI)
  show "demo_rely s s" for s
    by (rule demo_rely_refl)
  show "demo_rely s s''" if "demo_rely s s' \<and> demo_rely s' s''" for s s' s''
    using that demo_rely_trans by blast
next
  fix s s' k c c' r
  assume h: "demo_good s \<and> demo_rely s s' \<and> db_data s k = Some (c, r) \<and> db_data s' k = Some (c', r)"
  then obtain n where "s' = (demo_others ^^ n) s"
    by (auto simp: demo_rely_def)
  moreover have "r < db_next s"
    using h by (auto simp: demo_good_def)
  ultimately show "c' = c"
    using h demo_rely_old[where s = s and n = n] by fastforce
qed

lemma demo_get_ok: "get_ok demo_kv db_data demo_rely demo_good"
  unfolding get_ok_def
proof (intro allI impI)
  fix s s' k x
  assume h: "demo_good s \<and> kv_get demo_kv k s = (x, s')"
  then have s': "s' = demo_others s"
    and x: "x = (case db_data s' k of Some v \<Rightarrow> Inr v
          | None \<Rightarrow> Inl \<lparr>not_found = True, exn_text = ''nats: key not found''\<rparr>)"
    by (auto simp: demo_kv_def Let_def)
  have "demo_good s'"
    using h s' demo_good_others by simp
  then show "demo_good s' \<and> demo_rely s s' \<and>
        (case x of Inr (c, r) \<Rightarrow> db_data s' k = Some (c, r) \<and> 0 < r
         | Inl e \<Rightarrow> not_found e \<longrightarrow> db_data s' k = None)"
    using x s' demo_rely_step by (auto simp: demo_good_def split: option.splits)
qed

lemma demo_put_data: "db_data (demo_put k d s) = (db_data s)(k \<mapsto> (d, db_next s))"
  by (simp add: demo_put_def)

lemma demo_write_ok: "write_ok demo_kv db_data demo_rely demo_good"
  unfolding write_ok_def
proof (intro conjI allI impI)
  fix s s' k d and x :: "kv_exn + nat"
  assume h: "demo_good s \<and> kv_create demo_kv k d s = (x, s')"
  show "demo_good s'"
    using h demo_good_others[of s] demo_good_put[of "demo_others s" k d]
    by (auto simp: demo_kv_def Let_def split: option.splits)
  show "case x of Inl e \<Rightarrow> demo_rely s s'
         | Inr n \<Rightarrow> \<exists>s1. demo_rely s s1 \<and> db_data s1 k = None \<and> db_data s' = (db_data s1)(k \<mapsto> (d, n))"
    using h demo_rely_step[of s] demo_put_data[of k d "demo_others s"]
    by (auto simp: demo_kv_def Let_def split: option.splits)
next
  fix s s' k d r and x :: "kv_exn + nat"
  assume h: "demo_good s \<and> kv_update demo_kv k d r s = (x, s')"
  show "demo_good s'"
    using h demo_good_others[of s] demo_good_put[of "demo_others s" k d]
    by (auto simp: demo_kv_def Let_def split: if_splits)
  show "case x of Inl e \<Rightarrow> demo_rely s s'
         | Inr n \<Rightarrow> \<exists>s1 c. demo_rely s s1 \<and> db_data s1 k = Some (c, r) \<and> db_data s' = (db_data s1)(k \<mapsto> (d, n))"
  proof (cases "map_option snd (db_data (demo_others s) k) = Some r")
    case True
    then obtain c where c: "db_data (demo_others s) k = Some (c, r)"
      by auto
    have "x = Inr (db_next (demo_others s))" "s' = demo_put k d (demo_others s)"
      using h True by (auto simp: demo_kv_def Let_def)
    then show ?thesis
      using c demo_rely_step[of s] demo_put_data[of k d "demo_others s"] by auto
  next
    case False
    then show ?thesis
      using h demo_rely_step[of s] by (auto simp: demo_kv_def Let_def)
  qed
qed

lemma demo_contract: "kv_contract demo_kv db_data demo_rely demo_good"
  unfolding kv_contract_def using demo_rely_ok demo_get_ok demo_write_ok by blast

lemma demo_idle_others: "demo_idle s \<Longrightarrow> demo_others s = s"
  by (simp add: demo_idle_def demo_others_def)

lemma demo_idle_put: "demo_idle s \<Longrightarrow> demo_idle (demo_put k d s)"
  using demo_good_put by (simp add: demo_idle_def demo_put_def)

lemma demo_idle_empty: "demo_idle demo_empty" and demo_good_empty: "demo_good demo_empty"
  by (simp_all add: demo_idle_def demo_good_def demo_empty_def)

lemma demo_quiet: "kv_quiet demo_kv db_data demo_idle"
  unfolding kv_quiet_def
proof (intro conjI allI impI)
  fix s k
  assume h: "demo_idle s"
  then show "demo_idle (snd (kv_get demo_kv k s))" "db_data (snd (kv_get demo_kv k s)) = db_data s"
    by (simp_all add: demo_kv_def demo_idle_others)
  show "case db_data s k of
           Some (c, r) \<Rightarrow> fst (kv_get demo_kv k s) = Inr (c, r) \<and> 0 < r
         | None \<Rightarrow> \<exists>e. fst (kv_get demo_kv k s) = Inl e \<and> not_found e"
    using h by (auto simp: demo_kv_def demo_idle_others demo_idle_def demo_good_def split: option.splits)
next
  fix s k d r
  assume h: "demo_idle s"
  then show "if r = 0 \<and> db_data s k = None \<or> r \<noteq> 0 \<and> map_option snd (db_data s k) = Some r
         then \<exists>n s'. cas_write demo_kv k d r s = (Inr n, s') \<and> demo_idle s' \<and>
                      db_data s' = (db_data s)(k \<mapsto> (d, n))
         else \<exists>e s'. cas_write demo_kv k d r s = (Inl e, s') \<and> is_conflict e \<and> demo_idle s' \<and>
                      db_data s' = db_data s"
    using demo_idle_put[OF h, of k d] demo_put_data[of k d s] demo_conflict_is
    by (auto simp: demo_kv_def cas_write_def demo_idle_others[OF h] split: option.splits)
qed

section \<open>What a failed call leaves\<close>

text \<open>Nothing: every error path is a step of other writers only.\<close>

lemma append_loop_failed:
  assumes "kv_contract kv view rely good"
  shows "good s \<Longrightarrow> append_loop n kv enc k block text separator s = (Inl e, s') \<Longrightarrow> good s' \<and> rely s s'"
proof (induction n arbitrary: s)
  case 0
  then show ?case
    using kv_contract_rely(1)[OF assms] by simp
next
  case (Suc n)
  obtain x t where get: "kv_get kv k s = (x, t)"
    by fastforce
  have t: "good t" "rely s t"
    using kv_contract_get(1,2)[OF assms Suc.prems(1) get] .
  have body: "good s' \<and> rely t s'"
    if h: "(if count_tokens enc c > default_token_limit block then (Inl (Token_Limit_Exceeded p q), t)
            else (case cas_write kv k c r t of
              (Inr m, u) \<Rightarrow> (Inr (f m), u)
            | (Inl e', u) \<Rightarrow> if is_conflict e' then append_loop n kv enc k block text separator u
                             else (Inl (Kv_Failure e'), u))) = (Inl e, s')" for c r p q f
  proof -
    obtain y u where w: "cas_write kv k c r t = (y, u)"
      by fastforce
    show ?thesis
    proof (cases y)
      case (Inl e')
      have "good u" "rely t u"
        using cas_write_failed[OF assms t(1)] w Inl by auto
      then show ?thesis
        using h w Inl t(1) Suc.IH[of u] kv_contract_rely(1,2)[OF assms] by (auto split: if_splits)
    next
      case (Inr m)
      then show ?thesis
        using h w t(1) kv_contract_rely(1)[OF assms] by (auto split: if_splits)
    qed
  qed
  note step = body[where p = "count_tokens enc (appended separator text c)"
      and c = "appended separator text c" and q = "default_token_limit block"
      and f = "\<lambda>m. \<lparr>be_content = appended separator text c, be_revision = m,
                be_tokens = count_tokens enc (appended separator text c)\<rparr>" for c]
  have "good s' \<and> rely t s'"
  proof (cases x)
    case (Inl e')
    show ?thesis
    proof (cases "not_found e'")
      case True
      show ?thesis
        by (rule step[of "[]" 0]) (use Suc.prems(2) get Inl True in \<open>simp add: Let_def\<close>)
    next
      case False
      then show ?thesis
        using Suc.prems(2) get Inl t(1) kv_contract_rely(1)[OF assms] by (simp add: Let_def)
    qed
  next
    case (Inr cr)
    obtain c r where "cr = (c, r)"
      by fastforce
    then show ?thesis
      using Suc.prems(2) get Inr by (intro step[of c r]) (simp add: Let_def)
  qed
  then show ?case
    using t(2) kv_contract_rely(2)[OF assms] by blast
qed

lemma replace_loop_failed:
  assumes "kv_contract kv view rely good"
  shows "good s \<Longrightarrow> replace_loop n kv enc k block old new s = (Inl e, s') \<Longrightarrow> good s' \<and> rely s s'"
proof (induction n arbitrary: s)
  case 0
  then show ?case
    using kv_contract_rely(1)[OF assms] by simp
next
  case (Suc n)
  obtain x t where get: "kv_get kv k s = (x, t)"
    by fastforce
  have t: "good t" "rely s t"
    using kv_contract_get(1,2)[OF assms Suc.prems(1) get] .
  show ?case
  proof (cases "\<exists>c r d. x = Inr (c, r) \<and> replace_first old new c = Some d \<and>
                 count_tokens enc d \<le> default_token_limit block")
    case False
    then show ?thesis
      using Suc.prems(2) get t by (cases x) (auto simp: Let_def split: option.splits if_splits)
  next
    case True
    then obtain c r d where x: "x = Inr (c, r)" "replace_first old new c = Some d"
      "count_tokens enc d \<le> default_token_limit block"
      by blast
    obtain y u where w: "kv_update kv k d r t = (y, u)"
      by fastforce
    obtain e' where y: "y = Inl e'"
      using Suc.prems(2) get x w by (cases y) auto
    have "good u" "rely s u"
      using kv_contract_update(1,2)[OF assms t(1) w] y t(2) kv_contract_rely(2)[OF assms] by blast+
    then show ?thesis
      using Suc.prems(2) get x w y Suc.IH[of u] kv_contract_rely(2)[OF assms] by (auto split: if_splits)
  qed
qed

section \<open>A ghost log of the writes\<close>

text \<open>The same bucket, noting every write it is asked for.\<close>

definition logged :: "'s kv \<Rightarrow> ('s \<times> (string \<times> string) list) kv" where
  "logged kv =
     \<lparr>kv_get = (\<lambda>k (s, l). case kv_get kv k s of (x, s') \<Rightarrow> (x, (s', l))),
      kv_create = (\<lambda>k d (s, l). case kv_create kv k d s of (x, s') \<Rightarrow> (x, (s', l @ [(k, d)]))),
      kv_update = (\<lambda>k d r (s, l). case kv_update kv k d r s of (x, s') \<Rightarrow> (x, (s', l @ [(k, d)]))),
      kv_purge = (\<lambda>k (s, l). case kv_purge kv k s of (x, s') \<Rightarrow> (x, (s', l)))\<rparr>"

lemma logged_get: "snd (snd (kv_get (logged kv) k sl)) = snd sl"
  by (cases sl) (simp add: logged_def split: prod.splits)

lemma logged_update: "snd (snd (kv_update (logged kv) k d r sl)) = snd sl @ [(k, d)]"
  by (cases sl) (simp add: logged_def split: prod.splits)

lemma logged_write: "snd (snd (cas_write (logged kv) k d r sl)) = snd sl @ [(k, d)]"
  by (cases sl) (simp add: logged_def cas_write_def split: prod.splits)

lemma update_loop_log:
  "set (snd (snd (update_loop n (logged kv) k d r sl))) \<subseteq> set (snd sl) \<union> {(k, d)}"
proof (induction n arbitrary: r sl)
  case 0
  then show ?case by auto
next
  case (Suc n)
  obtain y t where w: "cas_write (logged kv) k d r sl = (y, t)"
    by (cases "cas_write (logged kv) k d r sl")
  obtain x u where g: "kv_get (logged kv) k t = (x, u)"
    by (cases "kv_get (logged kv) k t")
  have t: "snd t = snd sl @ [(k, d)]" and u: "snd u = snd t"
    using logged_write[of kv k d r sl] logged_get[of kv k t] w g by simp_all
  have "set (snd (snd (update_loop n (logged kv) k d r' u))) \<subseteq> set (snd sl) \<union> {(k, d)}" for r'
    using Suc[of r' u] t u by auto
  then show ?case
    using w g t u by (auto split: sum.splits)
qed

lemma replace_loop_log:
  "set (snd (snd (replace_loop n (logged kv) enc k block old new sl))) \<subseteq>
     set (snd sl) \<union> {(k', d). k' = k \<and> count_tokens enc d \<le> default_token_limit block}"
proof (induction n arbitrary: sl)
  case 0
  then show ?case by auto
next
  case (Suc n)
  obtain x t where g: "kv_get (logged kv) k sl = (x, t)"
    by (cases "kv_get (logged kv) k sl")
  have t: "snd t = snd sl"
    using logged_get[of kv k sl] g by simp
  show ?case
  proof (cases "\<exists>c r d. x = Inr (c, r) \<and> replace_first old new c = Some d \<and>
                 count_tokens enc d \<le> default_token_limit block")
    case False
    then show ?thesis
      using g t by (cases x) (auto simp: Let_def split: option.splits)
  next
    case True
    then obtain c r d where x: "x = Inr (c, r)" "replace_first old new c = Some d"
      "count_tokens enc d \<le> default_token_limit block"
      by blast
    obtain y u where w: "kv_update (logged kv) k d r t = (y, u)"
      by (cases "kv_update (logged kv) k d r t")
    have "snd u = snd sl @ [(k, d)]"
      using logged_update[of kv k d r t] w t by simp
    then show ?thesis
      using Suc[of u] g x w by (auto split: sum.splits)
  qed
qed

section \<open>With nobody else writing\<close>

lemma kv_quiet_get:
  assumes "kv_quiet kv view idle" "idle s"
  obtains s' where "idle s'" "view s' = view s"
    "\<And>c r. view s k = Some (c, r) \<Longrightarrow> kv_get kv k s = (Inr (c, r), s') \<and> 0 < r"
    "view s k = None \<Longrightarrow> \<exists>e. kv_get kv k s = (Inl e, s') \<and> not_found e"
proof -
  have h: "idle (snd (kv_get kv k s))" "view (snd (kv_get kv k s)) = view s"
    "case view s k of
       Some (c, r) \<Rightarrow> fst (kv_get kv k s) = Inr (c, r) \<and> 0 < r
     | None \<Rightarrow> \<exists>e. fst (kv_get kv k s) = Inl e \<and> not_found e"
    using assms unfolding kv_quiet_def by blast+
  have e: "kv_get kv k s = (fst (kv_get kv k s), snd (kv_get kv k s))"
    by simp
  show ?thesis
  proof (rule that[OF h(1,2)])
    show "kv_get kv k s = (Inr (c, r), snd (kv_get kv k s)) \<and> 0 < r" if "view s k = Some (c, r)" for c r
      using h(3) e unfolding that by auto
    show "\<exists>e. kv_get kv k s = (Inl e, snd (kv_get kv k s)) \<and> not_found e" if none: "view s k = None"
    proof -
      obtain x where "fst (kv_get kv k s) = Inl x" "not_found x"
        using h(3) unfolding none by auto
      then show ?thesis
        by (intro exI[of _ x]) (simp add: prod_eq_iff)
    qed
  qed
qed

lemma kv_quiet_write:
  assumes "kv_quiet kv view idle" "idle s"
  shows "r = 0 \<and> view s k = None \<or> r \<noteq> 0 \<and> map_option snd (view s k) = Some r \<Longrightarrow>
      \<exists>n s'. cas_write kv k d r s = (Inr n, s') \<and> idle s' \<and> view s' = (view s)(k \<mapsto> (d, n))"
    "\<not> (r = 0 \<and> view s k = None \<or> r \<noteq> 0 \<and> map_option snd (view s k) = Some r) \<Longrightarrow>
      \<exists>e s'. cas_write kv k d r s = (Inl e, s') \<and> is_conflict e \<and> idle s' \<and> view s' = view s"
proof -
  have h: "if r = 0 \<and> view s k = None \<or> r \<noteq> 0 \<and> map_option snd (view s k) = Some r
      then \<exists>n s'. cas_write kv k d r s = (Inr n, s') \<and> idle s' \<and> view s' = (view s)(k \<mapsto> (d, n))
      else \<exists>e s'. cas_write kv k d r s = (Inl e, s') \<and> is_conflict e \<and> idle s' \<and> view s' = view s"
    using assms unfolding kv_quiet_def by blast
  show "\<exists>n s'. cas_write kv k d r s = (Inr n, s') \<and> idle s' \<and> view s' = (view s)(k \<mapsto> (d, n))"
    if "r = 0 \<and> view s k = None \<or> r \<noteq> 0 \<and> map_option snd (view s k) = Some r"
    using h by (simp only: that if_True)
  show "\<exists>e s'. cas_write kv k d r s = (Inl e, s') \<and> is_conflict e \<and> idle s' \<and> view s' = view s"
    if "\<not> (r = 0 \<and> view s k = None \<or> r \<noteq> 0 \<and> map_option snd (view s k) = Some r)"
    using h by (simp only: that if_False)
qed

lemma update_loop_quiet:
  assumes q: "kv_quiet kv view idle" and i: "idle s"
  shows "\<exists>m s'. update_loop (Suc (Suc n)) kv k d r s = (Inr m, s') \<and> idle s' \<and>
                view s' = (view s)(k \<mapsto> (d, m))"
proof (cases "r = 0 \<and> view s k = None \<or> r \<noteq> 0 \<and> map_option snd (view s k) = Some r")
  case True
  obtain m s' where "cas_write kv k d r s = (Inr m, s')" "idle s'" "view s' = (view s)(k \<mapsto> (d, m))"
    using kv_quiet_write(1)[OF q i True] by blast
  then show ?thesis
    by simp
next
  case False
  then obtain e t where w: "cas_write kv k d r s = (Inl e, t)" "is_conflict e" "idle t" "view t = view s"
    using kv_quiet_write(2)[OF q i False] by blast
  obtain u where u: "idle u" "view u = view t"
    "\<And>c r. view t k = Some (c, r) \<Longrightarrow> kv_get kv k t = (Inr (c, r), u) \<and> 0 < r"
    "view t k = None \<Longrightarrow> \<exists>e. kv_get kv k t = (Inl e, u) \<and> not_found e"
    using kv_quiet_get[OF q w(3), of k] by blast
  have "\<exists>m s'. update_loop (Suc n) kv k d r' u = (Inr m, s') \<and> idle s' \<and> view s' = (view u)(k \<mapsto> (d, m))"
    if "r' = 0 \<and> view u k = None \<or> r' \<noteq> 0 \<and> map_option snd (view u k) = Some r'" for r'
    using kv_quiet_write(1)[OF q u(1) that, of d] by auto
  then have again: "r' = 0 \<and> view t k = None \<or> r' \<noteq> 0 \<and> map_option snd (view t k) = Some r' \<Longrightarrow>
      \<exists>m s'. update_loop (Suc n) kv k d r' u = (Inr m, s') \<and> idle s' \<and> view s' = (view s)(k \<mapsto> (d, m))" for r'
    by (simp only: u(2) w(4))
  show ?thesis
  proof (cases "view t k")
    case None
    then obtain e' where "kv_get kv k t = (Inl e', u)" "not_found e'"
      using u(4) by blast
    then have "update_loop (Suc (Suc n)) kv k d r s = update_loop (Suc n) kv k d 0 u"
      using w(1,2) by (simp del: update_loop.simps(2) add: update_loop.simps(2)[of "Suc n"])
    then show ?thesis
      using again[of 0] None by simp
  next
    case (Some cr)
    then obtain c r' where c: "view t k = Some (c, r')"
      by (cases cr) simp
    have "kv_get kv k t = (Inr (c, r'), u)" "0 < r'"
      using u(3)[OF c] by simp_all
    moreover from this have "update_loop (Suc (Suc n)) kv k d r s = update_loop (Suc n) kv k d r' u"
      using w(1,2) by (simp del: update_loop.simps(2) add: update_loop.simps(2)[of "Suc n"])
    ultimately show ?thesis
      using again[of r'] c by simp
  qed
qed

lemma append_loop_quiet:
  assumes q: "kv_quiet kv view idle" and i: "idle s"
    and new: "new = appended separator text (content_of (view s k))"
    and limit: "count_tokens enc new \<le> default_token_limit block"
  shows "\<exists>m s'. append_loop (Suc n) kv enc k block text separator s =
      (Inr \<lparr>be_content = new, be_revision = m, be_tokens = count_tokens enc new\<rparr>, s') \<and> idle s' \<and>
      view s' = (view s)(k \<mapsto> (new, m))"
proof -
  obtain t where t: "idle t" "view t = view s"
    "\<And>c r. view s k = Some (c, r) \<Longrightarrow> kv_get kv k s = (Inr (c, r), t) \<and> 0 < r"
    "view s k = None \<Longrightarrow> \<exists>e. kv_get kv k s = (Inl e, t) \<and> not_found e"
    using kv_quiet_get[OF q i, of k] by blast
  define r where "r = (case view s k of None \<Rightarrow> 0 | Some (c, r) \<Rightarrow> r)"
  have "r = 0 \<and> view t k = None \<or> r \<noteq> 0 \<and> map_option snd (view t k) = Some r"
    using t(2,3) by (auto simp: r_def split: option.splits)
  then obtain m s' where w: "cas_write kv k new r t = (Inr m, s')" "idle s'"
    "view s' = (view t)(k \<mapsto> (new, m))"
    using kv_quiet_write(1)[OF q t(1)] by blast
  have "append_loop (Suc n) kv enc k block text separator s =
      (Inr \<lparr>be_content = new, be_revision = m, be_tokens = count_tokens enc new\<rparr>, s')"
  proof (cases "view s k")
    case None
    then show ?thesis
      using t(4) w(1) limit new by (auto simp: r_def Let_def)
  next
    case (Some cr)
    then obtain c r' where "view s k = Some (c, r')"
      by (cases cr) simp
    then show ?thesis
      using t(3) w(1) limit new by (auto simp: r_def Let_def)
  qed
  then show ?thesis
    using w(2,3) t(2) by simp
qed

section \<open>Keys, budget and truncation\<close>

text \<open>Agents do not share keys: the block is what follows the last dot.\<close>

lemma core_block_no_dot: "CHR ''.'' \<notin> set (core_block_value b)"
  by (cases b) simp_all

lemma core_block_value_inj: "core_block_value b = core_block_value b' \<Longrightarrow> b = b'"
  by (cases b; cases b') simp_all

lemma core_key_inj: "core_key a b = core_key a' b' \<Longrightarrow> a = a' \<and> b = b'"
proof -
  assume "core_key a b = core_key a' b'"
  then have e: "a @ ''.'' @ core_block_value b = a' @ ''.'' @ core_block_value b'"
    by (simp add: core_key_def)
  have "takeWhile (\<lambda>c. c \<noteq> CHR ''.'') (rev (a @ ''.'' @ core_block_value b)) = rev (core_block_value b)" for a b
    using core_block_no_dot[of b] by (auto simp: takeWhile_append)
  then have "core_block_value b = core_block_value b'"
    using e by (metis rev_rev_ident)
  then show ?thesis
    using e core_block_value_inj by simp
qed

text \<open>Blocks within their limits leave the whole memory within its budget.\<close>

lemma total_tokens_budget:
  assumes "map fst (cm_blocks m) = map core_block_value core_blocks"
    "\<And>b e. dict_get (cm_blocks m) (core_block_value b) = Some e \<Longrightarrow> be_tokens e \<le> default_token_limit b"
  shows "total_tokens m \<le> total_token_budget"
proof -
  obtain e1 e2 e3 e4 e5 where m: "cm_blocks m =
      [(''System'', e1), (''Persona'', e2), (''User_Profile'', e3), (''Working_Context'', e4),
       (''Primed_Cache'', e5)]"
    using assms(1) by (auto simp: core_blocks_def Cons_eq_map_conv map_eq_Cons_conv)
  then have "be_tokens e1 \<le> 1500" "be_tokens e2 \<le> 1000" "be_tokens e3 \<le> 2000" "be_tokens e4 \<le> 4000"
    "be_tokens e5 \<le> 2000"
    using assms(2)[of System] assms(2)[of Persona] assms(2)[of User_Profile]
      assms(2)[of Working_Context] assms(2)[of Primed_Cache] by simp_all
  then show ?thesis
    by (simp add: total_tokens_def total_token_budget_def m)
qed

text \<open>
  Truncation drops a prefix of a list until it fits or one item is left; of a dict it drops
  keys that are not protected, and if it still does not fit only protected ones are left.
\<close>

lemma truncate_list_suffix:
  "\<exists>dropped. xs = dropped @ truncate_list enc dumps max_tokens xs"
  by (induction xs) (auto intro: exI[of _ "_ # _"])

lemma truncate_list_fits:
  "length (truncate_list enc dumps max_tokens xs) \<le> 1 \<or>
   count_tokens enc (dumps (truncate_list enc dumps max_tokens xs)) \<le> max_tokens"
  by (induction xs) (auto simp: Let_def)

lemma evict_loop_keeps:
  "k \<notin> set evictable \<Longrightarrow> dict_get (evict_loop enc dumps max_tokens evictable data) k = dict_get data k"
  by (induction evictable arbitrary: data) auto

lemma truncate_dict_protected:
  "k \<in> protected \<Longrightarrow> dict_get (truncate_dict enc dumps max_tokens protected data) k = dict_get data k"
  unfolding truncate_dict_def by (rule evict_loop_keeps) auto

lemma evict_loop_subset:
  "set (dict_keys (evict_loop enc dumps max_tokens es data)) \<subseteq> set (dict_keys data)"
proof (induction es arbitrary: data)
  case (Cons e es)
  have "set (dict_keys (dict_del e data)) \<subseteq> set (dict_keys data)"
    by (auto simp: delete_keys)
  then have "set (dict_keys (evict_loop enc dumps max_tokens es (dict_del e data))) \<subseteq> set (dict_keys data)"
    using Cons[of "dict_del e data"] by (rule subset_trans[rotated])
  then show ?case
    by (simp del: set_map)
qed simp

lemma evict_loop_fits:
  "length (evict_loop enc dumps max_tokens es data) \<le> 1 \<or>
   count_tokens enc (dumps (evict_loop enc dumps max_tokens es data)) \<le> max_tokens \<or>
   set es \<inter> set (dict_keys (evict_loop enc dumps max_tokens es data)) = {}"
proof (induction es arbitrary: data)
  case (Cons k ks)
  have "k \<notin> set (dict_keys (dict_del k data))"
    by (auto simp: delete_keys)
  then have "k \<notin> set (dict_keys (evict_loop enc dumps max_tokens ks (dict_del k data)))"
    using evict_loop_subset[of enc dumps max_tokens ks "dict_del k data"] by blast
  then show ?case
    using Cons[of "dict_del k data"] by auto
qed simp

lemma truncate_dict_fits:
  fixes dumps :: "payload \<Rightarrow> string"
  assumes "r = truncate_dict enc dumps max_tokens protected data"
  shows "length r \<le> 1 \<or> count_tokens enc (dumps r) \<le> max_tokens \<or> set (dict_keys r) \<subseteq> protected"
  using evict_loop_fits[of enc dumps max_tokens "filter (\<lambda>k. k \<notin> protected) (dict_keys data)" data]
    evict_loop_subset[of enc dumps max_tokens "filter (\<lambda>k. k \<notin> protected) (dict_keys data)" data]
  unfolding assms truncate_dict_def by (auto simp del: evict_loop.simps)

section \<open>Properties\<close>


text \<open>The scratch pad of an agent on which two other writes are about to land.\<close>

definition demo_contended :: demo_bucket where
  "demo_contended =
     \<lparr>db_data = [''agent_a.Working_Context'' \<mapsto> (''x'', 1)], db_next = 2,
      db_others = [(''agent_a.Working_Context'', ''xy''), (''agent_a.Working_Context'', ''xyz'')]\<rparr>"

lemma demo_good_contended: "demo_good demo_contended"
  by (simp add: demo_good_def demo_contended_def)


text \<open>
  \<open>replace_in_block\<close> is an atomic replacement of the first occurrence: an entry it
  returns is the block's text at the moment of the write with that occurrence replaced, and
  a call that raises (no permission, no block, no occurrence, too long, too many lost
  races) has written nothing.
\<close>

theorem replace_in_block_atomic:
  assumes "kv_contract kv view rely good" and "good s"
    and "replace_in_block kv enc agent_id block old new expected_revision caller s = (x, s')"
  shows "case x of
      Inr e \<Rightarrow> \<not> write_denied caller block \<and>
               committed view rely enc (core_key agent_id block) block (replace_first old new) s e s'
    | Inl _ \<Rightarrow> good s' \<and> rely s s'"
  using replace_loop_atomic[OF assms(1,2)] replace_loop_failed[OF assms(1,2)] assms(2,3)
    kv_contract_rely(1)[OF assms(1)]
  unfolding replace_in_block_def by (cases x) (auto split: if_splits)

theorem replace_in_block_atomic_witness:
  "\<exists>e s'. replace_in_block demo_kv None ''a'' Working_Context ''y'' ''--'' 0 ''agent'' demo_contended = (Inr e, s') \<and>
          be_content e = ''x--z'' \<and>
          committed db_data demo_rely None ''agent_a.Working_Context'' Working_Context
            (replace_first ''y'' ''--'') demo_contended e s'"
proof -
  let ?r = "replace_in_block demo_kv None ''a'' Working_Context ''y'' ''--'' 0 ''agent'' demo_contended"
  have "map_sum id be_content (fst ?r) = Inr ''x--z''"
    by code_simp
  then obtain e where e: "fst ?r = Inr e" "be_content e = ''x--z''"
    by (cases "fst ?r") auto
  then have "?r = (Inr e, snd ?r)"
    by (metis prod.collapse)
  then show ?thesis
    using replace_in_block_atomic[OF demo_contract demo_good_contended, of None "''a''" Working_Context
        "''y''" "''--''" 0 "''agent''" "Inr e" "snd ?r"] e(2)
    by (auto simp: core_key_def)
qed

text \<open>
  (C13) The guarded writes. Every value \<open>update_block\<close> asks the bucket to store is the
  content it was given, under the key of the block it was given, which the caller may
  write; it passes the firewall and is within the block's limit. \<open>replace_in_block\<close> keeps
  the same rules but for the firewall, which it does not consult.
\<close>

theorem core_writes_guarded:
  assumes "w \<in> set (snd (snd (update_block (logged kv) enc agent_id block content revision caller (s, []))))
         \<or> w \<in> set (snd (snd (replace_in_block (logged kv) enc agent_id block old new revision caller (s, []))))"
  shows "fst w = core_key agent_id block \<and> \<not> write_denied caller block \<and>
         count_tokens enc (snd w) \<le> default_token_limit block \<and>
         (w \<in> set (snd (snd (update_block (logged kv) enc agent_id block content revision caller (s, []))))
            \<longrightarrow> snd w = content \<and> sanitize_memory_payload (snd w) = None)"
proof -
  let ?u = "update_block (logged kv) enc agent_id block content revision caller (s, [])"
  let ?r = "replace_in_block (logged kv) enc agent_id block old new revision caller (s, [])"
  have u: "w = (core_key agent_id block, content) \<and> \<not> write_denied caller block \<and>
      count_tokens enc content \<le> default_token_limit block \<and> sanitize_memory_payload content = None"
    if "w \<in> set (snd (snd ?u))"
    using that update_loop_log[of max_cas_retries kv "core_key agent_id block" content revision "(s, [])"]
    by (fastforce simp: update_block_def split: option.splits if_splits prod.splits sum.splits)
  have r: "fst w = core_key agent_id block \<and> \<not> write_denied caller block \<and>
      count_tokens enc (snd w) \<le> default_token_limit block"
    if "w \<in> set (snd (snd ?r))"
    using that replace_loop_log[of max_cas_retries kv enc "core_key agent_id block" block old new "(s, [])"]
    by (fastforce simp: replace_in_block_def split: if_splits)
  show ?thesis
    using assms u r by auto
qed

theorem core_writes_guarded_witness:
  "fst (''agent_a.Working_Context'', ''note'') = core_key ''a'' Working_Context \<and>
   \<not> write_denied ''agent'' Working_Context \<and>
   sanitize_memory_payload ''note'' = None"
proof -
  have "(''agent_a.Working_Context'', ''note'') \<in> set (snd (snd (update_block (logged demo_kv) None ''a''
          Working_Context ''note'' 0 ''agent'' (demo_empty, []))))"
    by code_simp
  then show ?thesis
    using core_writes_guarded[of "(''agent_a.Working_Context'', ''note'')" demo_kv None "''a''"
        Working_Context "''note''" 0 "''agent''" demo_empty "[]" "[]"] by auto
qed

text \<open>
  \<open>update_block\<close> cannot lose a race it should lose: on a block that another writer has
  changed since the caller read it, any stale expected revision is replaced by the latest
  one after the first conflict, and the caller's content overwrites the other write. With
  nobody else writing every accepted content is stored, whatever revision is expected.
\<close>

theorem update_block_ignores_revision:
  assumes "kv_quiet kv view idle" and "idle s"
    and "sanitize_memory_payload content = None" and "\<not> write_denied caller block"
    and "count_tokens enc content \<le> default_token_limit block"
  shows "\<exists>n s'. update_block kv enc agent_id block content expected_revision caller s =
           (Inr \<lparr>be_content = content, be_revision = n, be_tokens = count_tokens enc content\<rparr>, s') \<and>
         idle s' \<and> view s' = (view s)(core_key agent_id block \<mapsto> (content, n))"
proof -
  obtain n s' where "update_loop max_cas_retries kv (core_key agent_id block) content expected_revision s
      = (Inr n, s')" "idle s'" "view s' = (view s)(core_key agent_id block \<mapsto> (content, n))"
    using update_loop_quiet[OF assms(1,2), of 3 "core_key agent_id block" content expected_revision]
    by (auto simp: max_cas_retries_def numeral_eq_Suc)
  then show ?thesis
    using assms(3-5) by (simp add: update_block_def)
qed

theorem update_block_ignores_revision_witness:
  "\<exists>n s'. update_block demo_kv None ''a'' Working_Context ''mine'' 1 ''agent''
            (demo_put ''agent_a.Working_Context'' ''theirs'' (demo_put ''agent_a.Working_Context'' ''base'' demo_empty)) =
          (Inr \<lparr>be_content = ''mine'', be_revision = n, be_tokens = 1\<rparr>, s') \<and>
          db_data s' ''agent_a.Working_Context'' = Some (''mine'', n)"
proof -
  have i: "demo_idle (demo_put ''agent_a.Working_Context'' ''theirs'' (demo_put ''agent_a.Working_Context'' ''base'' demo_empty))"
    by (intro demo_idle_put demo_idle_empty)
  have c: "sanitize_memory_payload ''mine'' = None" "\<not> write_denied ''agent'' Working_Context"
    "count_tokens None ''mine'' \<le> default_token_limit Working_Context" "count_tokens None ''mine'' = 1"
    by code_simp+
  let ?s = "demo_put ''agent_a.Working_Context'' ''theirs'' (demo_put ''agent_a.Working_Context'' ''base'' demo_empty)"
  note rule = update_block_ignores_revision[of demo_kv db_data demo_idle ?s "''mine''" "''agent''"
      Working_Context None "''a''" 1]
  have k: "core_key ''a'' Working_Context = ''agent_a.Working_Context''"
    by code_simp
  obtain n s' where "update_block demo_kv None ''a'' Working_Context ''mine'' 1 ''agent'' ?s =
      (Inr \<lparr>be_content = ''mine'', be_revision = n, be_tokens = count_tokens None ''mine''\<rparr>, s')"
      "db_data s' = (db_data ?s)(core_key ''a'' Working_Context \<mapsto> (''mine'', n))"
    using rule[OF demo_quiet i c(1-3)] by blast
  then show ?thesis
    unfolding c(4) k by (intro exI[of _ n] exI[of _ s']) simp
qed

text \<open>
  \<open>append_block\<close> serves any caller. With nobody else writing it stores any text that
  fits in any block of any agent, for an agent in its own system prompt as well: it tests
  neither the caller's permission nor the firewall.
\<close>

theorem append_block_any_caller:
  assumes "kv_quiet kv view idle" and "idle s"
    and "new = appended separator text (content_of (view s (core_key agent_id block)))"
    and "count_tokens enc new \<le> default_token_limit block"
  shows "\<exists>n s'. append_block kv enc agent_id block text expected_revision caller separator s =
           (Inr \<lparr>be_content = new, be_revision = n, be_tokens = count_tokens enc new\<rparr>, s') \<and>
         idle s' \<and> view s' = (view s)(core_key agent_id block \<mapsto> (new, n))"
  using append_loop_quiet[OF assms(1,2,3,4), of 4 for enc block]
  unfolding append_block_def by (simp add: max_cas_retries_def numeral_eq_Suc)

theorem append_block_any_caller_witness:
  "write_denied ''agent'' System \<and> sanitize_memory_payload ''system override'' \<noteq> None \<and>
   (\<exists>n s'. append_block demo_kv None ''a'' System ''system override'' 0 ''agent'' newline demo_empty =
     (Inr \<lparr>be_content = ''system override'', be_revision = n, be_tokens = 3\<rparr>, s') \<and>
     db_data s' ''agent_a.System'' = Some (''system override'', n))"
proof -
  have c: "''system override'' = appended newline ''system override'' (content_of (db_data demo_empty (core_key ''a'' System)))"
    "count_tokens None ''system override'' \<le> default_token_limit System"
    "count_tokens None ''system override'' = 3" "write_denied ''agent'' System"
    by code_simp+
  have s: "sanitize_memory_payload ''system override'' \<noteq> None"
    by code_simp
  note rule = append_block_any_caller[of demo_kv db_data demo_idle demo_empty "''system override''"
      newline "''system override''" "''a''" System None 0 "''agent''"]
  have k: "core_key ''a'' System = ''agent_a.System''"
    by code_simp
  obtain n s' where "append_block demo_kv None ''a'' System ''system override'' 0 ''agent'' newline demo_empty =
     (Inr \<lparr>be_content = ''system override'', be_revision = n,
           be_tokens = count_tokens None ''system override''\<rparr>, s')"
     "db_data s' = (db_data demo_empty)(core_key ''a'' System \<mapsto> (''system override'', n))"
    using rule[OF demo_quiet demo_idle_empty c(1,2)] by blast
  then show ?thesis
    unfolding c(3) k using c(4) s by (intro conjI exI[of _ n] exI[of _ s']) simp_all
qed

end
