(* ===== verification/Hardening.thy ===== *)
theory Hardening imports Prelude begin

text \<open>
  The mitigations of \<open>memu/hardening.py\<close> that compute: subject sanitising, the fencing
  counter's health test, the three maintenance statements (as what they do to the rows of
  the tables they name), the hydration timeout, the memory test and the shutdown handlers.
  A query's rows are lists in table order; \<open>NOW()\<close> is an argument.
\<close>

section \<open>Subjects\<close>

definition max_subject_length :: nat where
  "max_subject_length = 256"

datatype subject_error = Bad_Length nat | Has_Wildcard string | Bad_Characters string

definition subject_char :: "char \<Rightarrow> bool" where
  "subject_char c = (is_letter c \<or> is_digit c \<or> c = CHR ''.'' \<or> c = CHR ''_'' \<or> c = CHR ''-'')"

text \<open>\<open>^[a-zA-Z0-9._-]+$\<close> with \<open>re.match\<close>: the dollar also matches before a final newline.\<close>

definition before_final_newline :: "string \<Rightarrow> string" where
  "before_final_newline s = (if s \<noteq> [] \<and> last s = CHR 0x0A then butlast s else s)"

definition safe_subject_pattern :: "string \<Rightarrow> bool" where
  "safe_subject_pattern s \<longleftrightarrow>
     before_final_newline s \<noteq> [] \<and> list_all subject_char (before_final_newline s)"

definition sanitize_nats_subject :: "string \<Rightarrow> subject_error + string" where
  "sanitize_nats_subject subject =
     (if subject = [] \<or> length subject > max_subject_length then Inl (Bad_Length (length subject))
      else if CHR ''*'' \<in> set subject \<or> CHR ''>'' \<in> set subject then Inl (Has_Wildcard subject)
      else if \<not> safe_subject_pattern subject then Inl (Bad_Characters subject)
      else Inr subject)"

lemma safe_subject_chars:
  assumes "safe_subject_pattern s" "c \<in> set s" "c \<noteq> CHR 0x0A"
  shows "subject_char c"
proof -
  have "c \<in> set (before_final_newline s)"
    using assms(2,3) by (cases s rule: rev_cases) (auto simp: before_final_newline_def)
  then show ?thesis
    using assms(1) by (auto simp: safe_subject_pattern_def list_all_iff)
qed

lemma no_subject_char:
  "\<not> subject_char CHR ''*''" "\<not> subject_char CHR ''>''" "\<not> subject_char CHR '':''"
  by code_simp+

lemma safe_subject_excludes:
  assumes "safe_subject_pattern s"
  shows "s \<noteq> []" "CHR ''*'' \<notin> set s" "CHR ''>'' \<notin> set s" "CHR '':'' \<notin> set s"
  using assms safe_subject_chars[OF assms] no_subject_char
  by (auto simp: safe_subject_pattern_def before_final_newline_def)

lemma sanitize_Inr_iff:
  "sanitize_nats_subject s = Inr t \<longleftrightarrow> t = s \<and> length s \<le> 256 \<and> safe_subject_pattern s"
  using safe_subject_excludes[of s]
  by (cases "safe_subject_pattern s") (auto simp: sanitize_nats_subject_def max_subject_length_def)

lemma sanitize_colon: "CHR '':'' \<in> set s \<Longrightarrow> \<exists>e. sanitize_nats_subject s = Inl e"
  using safe_subject_excludes(4)[of s] by (cases "sanitize_nats_subject s") (auto simp: sanitize_Inr_iff)

section \<open>Fencing counters\<close>

definition max_fencing_token :: int where
  "max_fencing_token = 2 ^ 62"

definition check_fencing_token_health :: "int \<Rightarrow> bool" where
  "check_fencing_token_health current_token = (\<not> current_token > max_fencing_token)"

section \<open>Maintenance statements\<close>

text \<open>
  \<open>PRUNE_CHECKPOINTS_SQL\<close>: the rows of a task are numbered by descending sequence and those
  numbered above the bound are deleted. Rows of equal sequence are numbered in table order,
  one of the orders the database may choose. The count is what \<open>DELETE n\<close> reports.
\<close>

record checkpoint_row =
  ck_id :: int
  ck_task :: uuid
  ck_seq :: int

text \<open>\<open>ROW_NUMBER()\<close> of a row among the rows of its task that rank before it.\<close>

fun row_numbers :: "checkpoint_row list \<Rightarrow> (uuid \<Rightarrow> nat) \<Rightarrow> (checkpoint_row \<times> nat) list" where
  "row_numbers [] seen = []"
| "row_numbers (r # rs) seen =
     (r, Suc (seen (ck_task r))) # row_numbers rs (seen(ck_task r := Suc (seen (ck_task r))))"

definition ranked :: "checkpoint_row list \<Rightarrow> (checkpoint_row \<times> nat) list" where
  "ranked rows = row_numbers (sort_key (\<lambda>r. - ck_seq r) rows) (\<lambda>_. 0)"

definition prune_checkpoints :: "nat \<Rightarrow> checkpoint_row list \<Rightarrow> nat \<times> checkpoint_row list" where
  "prune_checkpoints max_per_task rows =
     (let stale = ck_id ` set (map fst (filter (\<lambda>(r, rn). rn > max_per_task) (ranked rows)))
      in (length (filter (\<lambda>r. ck_id r \<in> stale) rows), filter (\<lambda>r. ck_id r \<notin> stale) rows))"

text \<open>\<open>ARCHIVE_EVENTS_SQL\<close> over the events and, per task, its status and last update.\<close>

definition archivable :: "int \<Rightarrow> time \<Rightarrow> (uuid \<Rightarrow> (string \<times> time) option) \<Rightarrow> uuid \<Rightarrow> bool" where
  "archivable retention_days now tasks t =
     (case tasks t of
        None \<Rightarrow> False
      | Some (status, updated) \<Rightarrow>
          status \<in> {''completed'', ''cancelled'', ''failed''} \<and>
          updated < now - seconds (86400 * retention_days))"

definition archive_old_events ::
  "int \<Rightarrow> time \<Rightarrow> (uuid \<Rightarrow> (string \<times> time) option) \<Rightarrow> (uuid \<times> uuid) list \<Rightarrow> (uuid \<times> uuid) list \<Rightarrow>
   nat \<times> (uuid \<times> uuid) list \<times> (uuid \<times> uuid) list" where
  "archive_old_events retention_days now tasks events archive =
     (let old = filter (\<lambda>(e, t). archivable retention_days now tasks t) events;
          gone = set (map fst old)
      in (length (filter (\<lambda>(e, t). e \<in> gone) events),
          filter (\<lambda>(e, t). e \<notin> gone) events, archive @ old))"

record insight_row =
  in_key :: string
  in_confidence :: real
  in_created :: time
  in_validated :: bool
  in_validated_by :: "string option"
  in_validated_at :: "time option"

definition promotable :: "int \<Rightarrow> real \<Rightarrow> time \<Rightarrow> insight_row \<Rightarrow> bool" where
  "promotable timeout_minutes min_confidence now r \<longleftrightarrow>
     \<not> in_validated r \<and> in_confidence r \<ge> min_confidence \<and>
     in_created r < now - seconds (60 * timeout_minutes)"

definition auto_promote_stale_insights ::
  "int \<Rightarrow> real \<Rightarrow> time \<Rightarrow> insight_row list \<Rightarrow> nat \<times> insight_row list" where
  "auto_promote_stale_insights timeout_minutes min_confidence now rows =
     (length (filter (promotable timeout_minutes min_confidence now) rows),
      map (\<lambda>r. if promotable timeout_minutes min_confidence now r
               then r\<lparr>in_validated := True, in_validated_by := Some ''auto_promote'',
                      in_validated_at := Some now\<rparr>
               else r) rows)"

section \<open>Hydration and memory\<close>

text \<open>What the awaited hydration does within the timeout.\<close>

datatype hydration = Hydrated payload | Timed_Out | Hydration_Raised string

definition empty_context :: "string \<Rightarrow> string \<Rightarrow> payload" where
  "empty_context boot_time reason =
     [(''blackboard'', JList []), (''checkpoint'', JNull), (''dag_context'', JNull),
      (''hydration_prompt'', JNull), (''boot_time'', JStr boot_time),
      (''hydration_failed'', JBool True), (''failure_reason'', JStr reason)]"

text \<open>\<open>timeout_text\<close> is \<open>timeout_after_{timeout_s}s\<close>.\<close>

definition hydrate_with_timeout :: "hydration \<Rightarrow> string \<Rightarrow> string \<Rightarrow> payload" where
  "hydrate_with_timeout outcome timeout_text boot_time =
     (case outcome of
        Hydrated p \<Rightarrow> p
      | Timed_Out \<Rightarrow> empty_context boot_time timeout_text
      | Hydration_Raised e \<Rightarrow> empty_context boot_time e)"

record memory_pressure =
  mp_limit_mb :: "real option"
  mp_usage_mb :: real
  mp_usage_pct :: real
  mp_in_danger :: bool
  mp_source :: string

text \<open>\<open>round(x, 1)\<close>, which sends ties to the even neighbour.\<close>

definition round1 :: "real \<Rightarrow> real" where
  "round1 x =
     (let y = x * 10; f = floor y
      in (if y - of_int f < 1 / 2 \<or> (y - of_int f = 1 / 2 \<and> even f) then of_int f else of_int (f + 1)) / 10)"

text \<open>
  \<open>cgroup\<close>: the limit and usage in bytes, absent when the file does not exist or either
  cannot be read; \<open>rusage\<close>: the resident set in KB where the module exists.
\<close>

definition check_memory_pressure ::
  "real \<Rightarrow> (int \<times> int) option \<Rightarrow> int option \<Rightarrow> memory_pressure" where
  "check_memory_pressure threshold cgroup rusage =
     (case cgroup of
        Some (limit_bytes, usage_bytes) \<Rightarrow>
          (let pct = (if limit_bytes > 0 then real_of_int usage_bytes / real_of_int limit_bytes * 100 else 0)
           in \<lparr>mp_limit_mb = Some (real_of_int limit_bytes / 1048576),
               mp_usage_mb = real_of_int usage_bytes / 1048576, mp_usage_pct = round1 pct,
               mp_in_danger = (pct > threshold), mp_source = ''cgroup''\<rparr>)
      | None \<Rightarrow>
          (case rusage of
             Some kb \<Rightarrow> \<lparr>mp_limit_mb = None, mp_usage_mb = real_of_int kb / 1024, mp_usage_pct = 0,
                         mp_in_danger = False, mp_source = ''rusage''\<rparr>
           | None \<Rightarrow> \<lparr>mp_limit_mb = None, mp_usage_mb = 0, mp_usage_pct = 0,
                      mp_in_danger = False, mp_source = ''unknown''\<rparr>))"

section \<open>What pruning keeps\<close>

lemma row_numbers_fst: "map fst (row_numbers rs seen) = rs"
  by (induction rs arbitrary: seen) auto

text \<open>The number of a row counts the rows of its task up to and including it.\<close>

lemma row_numbers_count:
  "i < length rs \<Longrightarrow> snd (row_numbers rs seen ! i) =
     seen (ck_task (rs ! i)) + length (filter (\<lambda>r. ck_task r = ck_task (rs ! i)) (take (Suc i) rs))"
proof (induction rs arbitrary: seen i)
  case (Cons r rs)
  then show ?case
    by (cases i) auto
qed simp

end
