(* ===== verification/Lane_Lock.thy ===== *)
theory Lane_Lock imports Swarm_Models Hardening begin

text \<open>
  Lane-locked execution of a task over NATS (\<open>memu/lane_lock.py\<close>).

  The two key-value buckets and the event subject belong to a service outside the
  repository. What the code awaits of it is a value of \<open>lane_call\<close>; a piece of code is a
  program that awaits calls and continues with the replies, and runs over any service
  \<open>lane_call \<Rightarrow> 's \<Rightarrow> lane_reply \<times> 's\<close>. Programs of two gateways interleave at their calls, which
  is where the event loop of either can be suspended. \<open>lane_service\<close> states what the buckets
  do when a call is answered (no key expires in between), and \<open>lane_store\<close> satisfies it.

  Proved: entering with acceptable, distinct and free lanes and leaving again gives the
  lanes back and moves each fencing counter by one; no task without lanes of its own can be
  entered; a failing agent costs two failures; a partial entry keeps its lanes; and two
  gateways that find the same stale lock can both end up holding it with the same token.
\<close>

section \<open>Programs over the service\<close>

record lane_data =
  ld_gateway :: "string option"
  ld_task :: "string option"
  ld_token :: "int option"
  ld_acquired :: "time option"
  ld_expires :: "time option"
  ld_lane :: "string option"

text \<open>
  The value of a lane key: empty, the lock data, or text that is not a JSON object. A field
  that is missing is \<open>None\<close>; so is an \<open>acquired_at\<close> that is not a timestamp with an offset.
\<close>

datatype lane_value = Lane_Blank | Lane_Garbage | Lane_Data lane_data

datatype lane_call =
    Lanes_Get string
  | Lanes_Create string lane_value
  | Lanes_Put string lane_value
  | Lanes_Delete string
  | Fence_Get string
  | Fence_Put string int
  | Publish_Event event_type payload

text \<open>\<open>Call_Failed\<close>: the call raised. \<open>Call_Token None\<close>: the counter's text is not an integer.\<close>

datatype lane_reply = Call_Failed | Call_Value lane_value | Call_Token "int option" | Call_Done

datatype 'a prog = Done 'a | Await lane_call "lane_reply \<Rightarrow> 'a prog"

primrec prog_bind :: "'a prog \<Rightarrow> ('a \<Rightarrow> 'b prog) \<Rightarrow> 'b prog" where
  "prog_bind (Done a) f = f a"
| "prog_bind (Await c k) f = Await c (\<lambda>r. prog_bind (k r) f)"

type_synonym 's service = "lane_call \<Rightarrow> 's \<Rightarrow> lane_reply \<times> 's"

primrec exec :: "'s service \<Rightarrow> 'a prog \<Rightarrow> 's \<Rightarrow> 'a \<times> 's" where
  "exec svc (Done a) s = (a, s)"
| "exec svc (Await c k) s = (case svc c s of (r, s') \<Rightarrow> exec svc (k r) s')"

lemma exec_bind [simp]:
  "exec svc (prog_bind p f) s = (case exec svc p s of (a, s') \<Rightarrow> exec svc (f a) s')"
  by (induction p arbitrary: s) (auto split: prod.splits)

text \<open>Two programs on one service: the schedule says whose pending call is answered next.\<close>

fun interleave :: "'s service \<Rightarrow> bool list \<Rightarrow> 'a prog \<Rightarrow> 'b prog \<Rightarrow> 's \<Rightarrow> 'a prog \<times> 'b prog \<times> 's" where
  "interleave svc [] p q s = (p, q, s)"
| "interleave svc (True # sched) (Await c k) q s =
     (case svc c s of (r, s') \<Rightarrow> interleave svc sched (k r) q s')"
| "interleave svc (False # sched) p (Await c k) s =
     (case svc c s of (r, s') \<Rightarrow> interleave svc sched p (k r) s')"
| "interleave svc (True # sched) (Done a) q s = interleave svc sched (Done a) q s"
| "interleave svc (False # sched) p (Done b) s = interleave svc sched p (Done b) s"

section \<open>Locks and the executor\<close>

definition lane_ttl :: int where
  "lane_ttl = 10"

datatype lane_error =
    Lane_Contested string
  | Duplicate_Claim string
  | Bad_Subject subject_error
  | Fencing_Token_Error string
  | Lane_Failure
  | Agent_Raised string

text \<open>The exceptions \<open>run\<close> lets through without counting a failure.\<close>

fun structural :: "lane_error \<Rightarrow> bool" where
  "structural (Lane_Contested _) = True"
| "structural (Duplicate_Claim _) = True"
| "structural (Fencing_Token_Error _) = True"
| "structural _ = False"

record lane_lock =
  ll_lane :: string
  ll_gateway :: string
  ll_task :: uuid
  ll_token :: int
  ll_acquired :: time
  ll_expires :: time

record executor =
  lx_gateway :: string
  lx_task :: task_node
  lx_nc :: bool
  lx_locks :: "lane_lock list"
  lx_heartbeat :: bool
  lx_seq :: nat

definition executor_init :: "task_node \<Rightarrow> string \<Rightarrow> bool \<Rightarrow> executor" where
  "executor_init task gateway nc =
     \<lparr>lx_gateway = gateway, lx_task = task, lx_nc = nc, lx_locks = [], lx_heartbeat = False, lx_seq = 0\<rparr>"

text \<open>Without a connection nothing is published; the result says whether the call returned.\<close>

definition publish_event :: "bool \<Rightarrow> event_type \<Rightarrow> payload \<Rightarrow> bool prog" where
  "publish_event nc et p =
     (if nc then Await (Publish_Event et p) (\<lambda>r. Done (r \<noteq> Call_Failed)) else Done True)"

text \<open>\<open>_get_lock_state\<close>: nothing, garbage (\<open>json.loads\<close> or the first \<open>.get\<close> raises) or the data.\<close>

definition get_lock_state :: "string \<Rightarrow> (unit + lane_data option) prog" where
  "get_lock_state lane =
     Await (Lanes_Get lane) (\<lambda>r. Done
       (case r of
          Call_Value Lane_Garbage \<Rightarrow> Inl ()
        | Call_Value (Lane_Data d) \<Rightarrow> Inr (Some d)
        | _ \<Rightarrow> Inr None))"

definition own_lane_data :: "string \<Rightarrow> uuid \<Rightarrow> int \<Rightarrow> time \<Rightarrow> string option \<Rightarrow> lane_data" where
  "own_lane_data gateway task token now lane =
     \<lparr>ld_gateway = Some gateway, ld_task = Some task, ld_token = Some token, ld_acquired = Some now,
      ld_expires = Some (now + seconds lane_ttl), ld_lane = lane\<rparr>"

text \<open>
  The second half of \<open>_acquire_lane\<close>: the next fencing token, the lock, the counter, the
  event. A counter that cannot be read or parsed restarts at 1.
\<close>

definition create_lane :: "string \<Rightarrow> uuid \<Rightarrow> bool \<Rightarrow> time \<Rightarrow> string \<Rightarrow> (lane_error + lane_lock) prog" where
  "create_lane gateway task nc now lane =
     Await (Fence_Get lane) (\<lambda>r.
       let token = (case r of Call_Token (Some n) \<Rightarrow> n + 1 | _ \<Rightarrow> 1)
       in Await (Lanes_Create lane (Lane_Data (own_lane_data gateway task token now (Some lane)))) (\<lambda>r.
            if r = Call_Failed then Done (Inl (Lane_Contested lane))
            else Await (Fence_Put lane token) (\<lambda>r.
              if r = Call_Failed then Done (Inl Lane_Failure)
              else if length gateway > 64 \<or> token < 0 then Done (Inl Lane_Failure)
              else prog_bind
                (publish_event nc LANE_ACQUIRED
                   [(''lane'', JStr lane), (''lane_id'', JStr lane), (''fencing_token'', JInt token)])
                (\<lambda>ok. Done (if ok
                   then Inr \<lparr>ll_lane = lane, ll_gateway = gateway, ll_task = task, ll_token = token,
                             ll_acquired = now, ll_expires = now + seconds lane_ttl\<rparr>
                   else Inl Lane_Failure)))))"

text \<open>
  Deleting a stale lock: a failed deletion inside the \<open>try\<close> is tried again by the handler.
  A lock whose data is malformed is deleted once.
\<close>

definition reclaim_stale :: "string \<Rightarrow> (lane_error + lane_lock) prog \<Rightarrow> (lane_error + lane_lock) prog" where
  "reclaim_stale lane next =
     Await (Lanes_Delete lane) (\<lambda>r.
       if r \<noteq> Call_Failed then next
       else Await (Lanes_Delete lane) (\<lambda>r. if r \<noteq> Call_Failed then next else Done (Inl Lane_Failure)))"

definition reclaim_malformed :: "string \<Rightarrow> (lane_error + lane_lock) prog \<Rightarrow> (lane_error + lane_lock) prog" where
  "reclaim_malformed lane next =
     Await (Lanes_Delete lane) (\<lambda>r. if r \<noteq> Call_Failed then next else Done (Inl Lane_Failure))"

definition acquire_lane :: "string \<Rightarrow> uuid \<Rightarrow> bool \<Rightarrow> time \<Rightarrow> string \<Rightarrow> (lane_error + lane_lock) prog" where
  "acquire_lane gateway task nc now lane_id =
     (case sanitize_nats_subject lane_id of
        Inl e \<Rightarrow> Done (Inl (Bad_Subject e))
      | Inr lane \<Rightarrow>
          prog_bind (get_lock_state lane) (\<lambda>existing.
            case existing of
              Inl _ \<Rightarrow> Done (Inl Lane_Failure)
            | Inr None \<Rightarrow> create_lane gateway task nc now lane
            | Inr (Some holder) \<Rightarrow>
                if ld_gateway holder = Some gateway \<and> ld_task holder = Some task
                then Done (Inl (Duplicate_Claim lane))
                else (case ld_acquired holder of
                        None \<Rightarrow> reclaim_malformed lane (create_lane gateway task nc now lane)
                      | Some acquired_at \<Rightarrow>
                          if now - acquired_at > seconds lane_ttl
                          then reclaim_stale lane (create_lane gateway task nc now lane)
                          else Done (Inl (Lane_Contested lane)))))"

text \<open>Every task has a lane: one without lanes of its own gets \<open>task:<id>\<close>.\<close>

definition lanes_of_task :: "task_node \<Rightarrow> string list" where
  "lanes_of_task t = (if tn_lanes t = [] then [''task:'' @ tn_id t] else tn_lanes t)"

text \<open>The lanes in order, each with the clock it reads; the first failure stops, and what was acquired stays listed.\<close>

fun acquire_lanes ::
  "string \<Rightarrow> uuid \<Rightarrow> bool \<Rightarrow> (nat \<Rightarrow> time) \<Rightarrow> nat \<Rightarrow> string list \<Rightarrow> lane_lock list \<Rightarrow>
   (lane_error option \<times> lane_lock list) prog" where
  "acquire_lanes gateway task nc clk i [] locks = Done (None, locks)"
| "acquire_lanes gateway task nc clk i (l # ls) locks =
     prog_bind (acquire_lane gateway task nc (clk i) l) (\<lambda>x.
       case x of
         Inl e \<Rightarrow> Done (Some e, locks)
       | Inr lock \<Rightarrow> acquire_lanes gateway task nc clk (Suc i) ls (locks @ [lock]))"

definition lane_enter :: "(nat \<Rightarrow> time) \<Rightarrow> executor \<Rightarrow> (lane_error option \<times> executor) prog" where
  "lane_enter clk x =
     prog_bind (acquire_lanes (lx_gateway x) (tn_id (lx_task x)) (lx_nc x) clk 0 (lanes_of_task (lx_task x)) (lx_locks x))
       (\<lambda>(err, locks). Done (err, x\<lparr>lx_locks := locks, lx_heartbeat := (err = None)\<rparr>))"
section \<open>Leaving, renewing, checkpoints\<close>

text \<open>A missing token reads as \<open>-1\<close>.\<close>

definition held_token :: "lane_data \<Rightarrow> int" where
  "held_token d = (case ld_token d of None \<Rightarrow> -1 | Some n \<Rightarrow> n)"

text \<open>One lock: deleted when it still names this gateway, task and token. Errors are logged.\<close>

definition release_lane :: "string \<Rightarrow> uuid \<Rightarrow> bool \<Rightarrow> lane_lock \<Rightarrow> unit prog" where
  "release_lane gateway task nc lock =
     prog_bind (get_lock_state (ll_lane lock)) (\<lambda>current.
       case current of
         Inr (Some holder) \<Rightarrow>
           if ld_gateway holder = Some gateway \<and> ld_task holder = Some task \<and>
              held_token holder = ll_token lock
           then Await (Lanes_Delete (ll_lane lock)) (\<lambda>r.
                  if r = Call_Failed then Done ()
                  else prog_bind
                    (publish_event nc LANE_RELEASED
                       [(''lane'', JStr (ll_lane lock)), (''lane_id'', JStr (ll_lane lock)),
                        (''fencing_token'', JInt (ll_token lock))])
                    (\<lambda>_. Done ()))
           else Done ()
       | _ \<Rightarrow> Done ())"

fun release_lanes :: "string \<Rightarrow> uuid \<Rightarrow> bool \<Rightarrow> lane_lock list \<Rightarrow> unit prog" where
  "release_lanes gateway task nc [] = Done ()"
| "release_lanes gateway task nc (l # ls) =
     prog_bind (release_lane gateway task nc l) (\<lambda>_. release_lanes gateway task nc ls)"

definition release_all_lanes :: "executor \<Rightarrow> executor prog" where
  "release_all_lanes x =
     prog_bind (release_lanes (lx_gateway x) (tn_id (lx_task x)) (lx_nc x) (lx_locks x))
       (\<lambda>_. Done (x\<lparr>lx_locks := []\<rparr>))"

text \<open>Renewing tests the token only, then rewrites the whole entry in its own name.\<close>

definition renew_lane_lock :: "string \<Rightarrow> uuid \<Rightarrow> time \<Rightarrow> lane_lock \<Rightarrow> lane_error option prog" where
  "renew_lane_lock gateway task now lock =
     prog_bind (get_lock_state (ll_lane lock)) (\<lambda>current.
       case current of
         Inl _ \<Rightarrow> Done (Some Lane_Failure)
       | Inr None \<Rightarrow> Done (Some (Fencing_Token_Error (ll_lane lock)))
       | Inr (Some d) \<Rightarrow>
           if held_token d \<noteq> ll_token lock then Done (Some (Fencing_Token_Error (ll_lane lock)))
           else Await (Lanes_Put (ll_lane lock)
                  (Lane_Data (own_lane_data gateway task (ll_token lock) now (ld_lane d))))
                (\<lambda>r. Done (if r = Call_Failed then Some Lane_Failure else None)))"

fun renew_lanes :: "string \<Rightarrow> uuid \<Rightarrow> time \<Rightarrow> lane_lock list \<Rightarrow> bool prog" where
  "renew_lanes gateway task now [] = Done True"
| "renew_lanes gateway task now (l # ls) =
     prog_bind (renew_lane_lock gateway task now l)
       (\<lambda>e. if e = None then renew_lanes gateway task now ls else Done False)"

text \<open>One pass of the heartbeat loop; an exception is logged and ends the pass.\<close>

definition heartbeat_pass :: "time \<Rightarrow> executor \<Rightarrow> executor prog" where
  "heartbeat_pass now x =
     prog_bind (renew_lanes (lx_gateway x) (tn_id (lx_task x)) now (lx_locks x)) (\<lambda>ok.
       if \<not> ok then Done x
       else (let x' = x\<lparr>lx_locks := map (\<lambda>l. l\<lparr>ll_expires := now + seconds lane_ttl\<rparr>) (lx_locks x)\<rparr>
             in prog_bind
                  (publish_event (lx_nc x) HEARTBEAT
                     [(''gateway_id'', JStr (lx_gateway x)), (''task_id'', JStr (tn_id (lx_task x))),
                      (''progress_pct'', JReal 0), (''status_note'', JStr ''lane-lock-heartbeat''),
                      (''lanes_held'', JList (map (\<lambda>l. JStr (ll_lane l)) (lx_locks x')))])
                  (\<lambda>_. Done x')))"

text \<open>The sequence number rises before the checkpoint is validated and published.\<close>

definition save_checkpoint :: "string \<Rightarrow> real \<Rightarrow> int \<Rightarrow> executor \<Rightarrow> (bool \<times> executor) prog" where
  "save_checkpoint scratchpad progress tokens x =
     (let x' = x\<lparr>lx_seq := Suc (lx_seq x)\<rparr>
      in if length scratchpad > 100000 \<or> progress < 0 \<or> progress > 100 then Done (False, x')
         else prog_bind
           (publish_event (lx_nc x) CHECKPOINT_SAVED
              [(''task_id'', JStr (tn_id (lx_task x))), (''gateway_id'', JStr (lx_gateway x)),
               (''checkpoint_sequence'', JInt (int (lx_seq x'))), (''scratchpad'', JStr scratchpad),
               (''progress_pct'', JReal progress), (''tokens_consumed'', JInt tokens)])
           (\<lambda>ok. Done (ok, x')))"

section \<open>Failure handling\<close>

text \<open>The text of an exception, for the event and the task.\<close>

fun lane_error_text :: "lane_error \<Rightarrow> string" where
  "lane_error_text (Agent_Raised e) = e"
| "lane_error_text (Lane_Contested l) = ''Cannot acquire lane '' @ l"
| "lane_error_text (Duplicate_Claim l) = ''Duplicate claim attempt for lane '' @ l"
| "lane_error_text (Bad_Subject _) = ''Invalid NATS subject''"
| "lane_error_text (Fencing_Token_Error l) = ''Fencing token mismatch on '' @ l"
| "lane_error_text Lane_Failure = ''''"

text \<open>The rollback instruction is only published; publishing is tried once more with the error.\<close>

definition execute_rollback :: "executor \<Rightarrow> bool prog" where
  "execute_rollback x =
     (let rollback = (\<lambda>success.
        [(''task_id'', JStr (tn_id (lx_task x))), (''gateway_id'', JStr (lx_gateway x)),
         (''rollback_instruction'', JStr (case tn_rollback (lx_task x) of Some i \<Rightarrow> i | None \<Rightarrow> [])),
         (''success'', JBool success)])
      in prog_bind (publish_event (lx_nc x) ROLLBACK_EXECUTED (rollback True))
           (\<lambda>ok. if ok then Done True else publish_event (lx_nc x) ROLLBACK_EXECUTED (rollback False)))"

definition handle_failure :: "string \<Rightarrow> executor \<Rightarrow> (bool \<times> executor) prog" where
  "handle_failure err x =
     (let t = (lx_task x)\<lparr>tn_failures := tn_failures (lx_task x) + 1, tn_last_error := Some err\<rparr>;
          x' = x\<lparr>lx_task := t\<rparr>
      in prog_bind (if nonempty (tn_rollback t) then execute_rollback x' else Done True) (\<lambda>ok.
           if \<not> ok then Done (False, x')
           else prog_bind
             (publish_event (lx_nc x) TASK_FAILED
                [(''error'', JStr err), (''failure_count'', JInt (tn_failures t))]) (\<lambda>ok.
             if \<not> ok then Done (False, x')
             else if is_poison_pill t
             then prog_bind
               (publish_event (lx_nc x) DLQ_ENQUEUED
                  [(''task_id'', JStr (tn_id t)), (''failure_count'', JInt (tn_failures t))])
               (\<lambda>ok. Done (ok, x'))
             else Done (True, x'))))"

section \<open>Running a task\<close>

text \<open>The tokens of all held locks against the counters, after the agent returned.\<close>

fun validate_tokens :: "lane_lock list \<Rightarrow> lane_error option prog" where
  "validate_tokens [] = Done None"
| "validate_tokens (l # ls) =
     Await (Fence_Get (ll_lane l)) (\<lambda>r.
       case r of
         Call_Token (Some n) \<Rightarrow>
           if n \<noteq> ll_token l then Done (Some (Fencing_Token_Error (ll_lane l))) else validate_tokens ls
       | _ \<Rightarrow> Done (Some Lane_Failure))"

text \<open>
  \<open>run\<close>: the agent is a program of its own over the same service, given whether it is a
  recovery. Anything it raises that is not structural, a counter that cannot be read, or a
  completion that cannot be published is a failure of the task and is raised again.
\<close>

definition run_agent :: "(bool \<Rightarrow> (lane_error + payload) prog) \<Rightarrow> executor \<Rightarrow> ((lane_error + payload) \<times> executor) prog" where
  "run_agent agent x =
     (let recovery = has_checkpoint (lx_task x);
          fail = (\<lambda>e. if structural e then Done (Inl e, x)
                      else prog_bind (handle_failure (lane_error_text e) x)
                        (\<lambda>(ok, x'). Done (Inl (if ok then e else Lane_Failure), x')))
      in prog_bind
           (if recovery
            then publish_event (lx_nc x) TASK_HYDRATED
              [(''recovering_gateway'', JStr (lx_gateway x)),
               (''checkpoint_state'', case tn_checkpoint (lx_task x) of Some c \<Rightarrow> JStr c | None \<Rightarrow> JNull)]
            else Done True)
           (\<lambda>ok. if \<not> ok then Done (Inl Lane_Failure, x)
             else prog_bind (agent recovery) (\<lambda>res.
               case res of
                 Inl e \<Rightarrow> fail e
               | Inr result \<Rightarrow>
                   prog_bind (validate_tokens (lx_locks x)) (\<lambda>bad.
                     case bad of
                       Some e \<Rightarrow> fail e
                     | None \<Rightarrow>
                         prog_bind
                           (publish_event (lx_nc x) TASK_COMPLETED
                              [(''result'', JObj result), (''tokens_used'', JInt 0)])
                           (\<lambda>ok. if ok then Done (Inr result, x) else fail Lane_Failure)))))"

text \<open>
  \<open>__aexit__\<close>: the heartbeat stops, the locks are released, an exception is handled and
  suppressed. The first component is false when the handling itself raised.
\<close>

definition lane_exit :: "lane_error option \<Rightarrow> executor \<Rightarrow> (bool \<times> executor) prog" where
  "lane_exit exc x =
     prog_bind (release_all_lanes (x\<lparr>lx_heartbeat := False\<rparr>)) (\<lambda>x'.
       case exc of
         None \<Rightarrow> Done (True, x')
       | Some e \<Rightarrow> handle_failure (lane_error_text e) x')"

text \<open>
  The documented use: \<open>async with LaneLockedExecution(...) as executor: await executor.run(f)\<close>.
  An entry that raises never reaches \<open>__aexit__\<close>.
\<close>

definition lane_locked_execution ::
  "(nat \<Rightarrow> time) \<Rightarrow> (bool \<Rightarrow> (lane_error + payload) prog) \<Rightarrow> executor \<Rightarrow>
   ((lane_error + payload option) \<times> executor) prog" where
  "lane_locked_execution clk agent x =
     prog_bind (lane_enter clk x) (\<lambda>(err, x1).
       case err of
         Some e \<Rightarrow> Done (Inl e, x1)
       | None \<Rightarrow>
           prog_bind (run_agent agent x1) (\<lambda>(res, x2).
             prog_bind (lane_exit (case res of Inl e \<Rightarrow> Some e | Inr _ \<Rightarrow> None) x2) (\<lambda>(ok, x3).
               Done (case res of
                       Inr p \<Rightarrow> Inr (Some p)
                     | Inl e \<Rightarrow> if ok then Inr None else Inl Lane_Failure, x3))))"

section \<open>The orphan detector\<close>

text \<open>
  One pass over the keys: a lock whose heartbeat is older than the TTL is announced and
  deleted. What raises on one key is logged and the next key follows.
\<close>

definition orphan_check :: "time \<Rightarrow> string \<Rightarrow> unit prog" where
  "orphan_check now key =
     prog_bind (get_lock_state key) (\<lambda>current.
       case current of
         Inr (Some d) \<Rightarrow>
           (case (ld_acquired d, Option.bind (ld_task d) uuid_parse, ld_gateway d) of
              (Some acquired_at, Some task, Some gateway) \<Rightarrow>
                if now - acquired_at > seconds lane_ttl
                then Await (Publish_Event TASK_ORPHANED
                       [(''task_id'', JStr task), (''dead_gateway'', JStr gateway),
                        (''has_recoverable_state'', JBool True),
                        (''time_since_last_heartbeat_ms'', JInt ((now - acquired_at) div 1000))])
                     (\<lambda>r. if r = Call_Failed then Done () else Await (Lanes_Delete key) (\<lambda>_. Done ()))
                else Done ()
            | _ \<Rightarrow> Done ())
       | _ \<Rightarrow> Done ())"

fun orphan_pass :: "time \<Rightarrow> string list \<Rightarrow> unit prog" where
  "orphan_pass now [] = Done ()"
| "orphan_pass now (k # ks) = prog_bind (orphan_check now k) (\<lambda>_. orphan_pass now ks)"

section \<open>Remote calls and leases\<close>

record rpc_response =
  rp_success :: bool
  rp_result :: payload
  rp_error :: "string option"

datatype rpc_error = No_Connection | Rpc_Failed "string option" | Rpc_Timeout

text \<open>The first message on the gateway's response subject decides, \<open>None\<close> when none arrives in time.\<close>

definition request_rpc :: "bool \<Rightarrow> rpc_response option \<Rightarrow> rpc_error + payload" where
  "request_rpc nc first_message =
     (if \<not> nc then Inl No_Connection
      else case first_message of
             None \<Rightarrow> Inl Rpc_Timeout
           | Some m \<Rightarrow> if rp_success m then Inr (rp_result m) else Inl (Rpc_Failed (rp_error m)))"

text \<open>\<open>release_all_my_leases\<close> on the rows (topic, owner) of \<open>gateway_topic_leases\<close>.\<close>

definition release_all_my_leases :: "string \<Rightarrow> (string \<times> string) list \<Rightarrow> nat \<times> (string \<times> string) list" where
  "release_all_my_leases container rows =
     (length (filter (\<lambda>r. snd r = container) rows), filter (\<lambda>r. snd r \<noteq> container) rows)"

section \<open>What the buckets do\<close>

text \<open>
  The lane bucket and the counters as maps: \<open>create\<close> succeeds on a missing key only, \<open>put\<close>
  and \<open>delete\<close> always, a missing key makes \<open>get\<close> raise. A service is a \<open>lane_service\<close> when its
  replies and its effect on what it stores are these.
\<close>

type_synonym lane_view = "(string \<Rightarrow> lane_value option) \<times> (string \<Rightarrow> int option)"

fun lane_store :: "lane_view service" where
  "lane_store (Lanes_Get k) (L, F) = (case L k of Some v \<Rightarrow> Call_Value v | None \<Rightarrow> Call_Failed, (L, F))"
| "lane_store (Lanes_Create k v) (L, F) = (if L k = None then (Call_Done, (L(k \<mapsto> v), F)) else (Call_Failed, (L, F)))"
| "lane_store (Lanes_Put k v) (L, F) = (Call_Done, (L(k \<mapsto> v), F))"
| "lane_store (Lanes_Delete k) (L, F) = (Call_Done, (L(k := None), F))"
| "lane_store (Fence_Get k) (L, F) = (case F k of Some n \<Rightarrow> Call_Token (Some n) | None \<Rightarrow> Call_Failed, (L, F))"
| "lane_store (Fence_Put k n) (L, F) = (Call_Done, (L, F(k \<mapsto> n)))"
| "lane_store (Publish_Event et p) (L, F) = (Call_Done, (L, F))"

definition lane_service :: "'s service \<Rightarrow> ('s \<Rightarrow> lane_view) \<Rightarrow> bool" where
  "lane_service svc view \<longleftrightarrow>
     (\<forall>c s. fst (svc c s) = fst (lane_store c (view s)) \<and> view (snd (svc c s)) = snd (lane_store c (view s)))"

lemma lane_store_service: "lane_service lane_store (\<lambda>s. s)"
  by (simp add: lane_service_def)

text \<open>So programs over such a service behave as over the maps, alone and interleaved.\<close>

lemma exec_refines:
  assumes "lane_service svc view"
  shows "fst (exec svc p s) = fst (exec lane_store p (view s)) \<and>
         view (snd (exec svc p s)) = snd (exec lane_store p (view s))"
proof (induction p arbitrary: s)
  case (Await c k)
  obtain r t where t: "svc c s = (r, t)"
    by fastforce
  moreover from this have "lane_store c (view s) = (r, view t)"
    using assms by (metis fst_conv lane_service_def prod.collapse snd_conv)
  ultimately show ?case
    using Await[of "k r" t] by simp
qed simp

lemma exec_result:
  assumes "lane_service svc view" "exec lane_store p (view s) = (a, v)"
  shows "\<exists>s'. exec svc p s = (a, s') \<and> view s' = v"
  using exec_refines[OF assms(1), of p s] assms(2) by (metis fst_conv prod.collapse snd_conv)

lemma interleave_refines:
  assumes "lane_service svc view"
  shows "\<exists>s'. interleave svc sched p q s =
      (fst (interleave lane_store sched p q (view s)), fst (snd (interleave lane_store sched p q (view s))), s') \<and>
      view s' = snd (snd (interleave lane_store sched p q (view s)))"
proof (induction sched arbitrary: p q s)
  case (Cons b sched)
  have step: "\<exists>r t. svc c s = (r, t) \<and> lane_store c (view s) = (r, view t)" for c
    using assms by (metis fst_conv lane_service_def prod.collapse snd_conv)
  show ?case
  proof (cases b)
    case True
    show ?thesis
    proof (cases p)
      case (Await c k)
      then show ?thesis
        using step[of c] Cons True by auto
    qed (use Cons True in auto)
  next
    case False
    show ?thesis
    proof (cases q)
      case (Await c k)
      then show ?thesis
        using step[of c] Cons False by auto
    qed (use Cons False in auto)
  qed
qed simp

lemma exec_publish [simp]:
  "exec lane_store (publish_event nc et p) v = (True, v)"
  by (cases v) (simp add: publish_event_def)

section \<open>Acquiring and releasing one lane\<close>

text \<open>A lane a gateway can take: no entry, or one of somebody else's that is stale or malformed.\<close>

definition next_token :: "int option \<Rightarrow> int" where
  "next_token t = (case t of Some n \<Rightarrow> n + 1 | None \<Rightarrow> 1)"

definition lane_free :: "string \<Rightarrow> uuid \<Rightarrow> time \<Rightarrow> lane_value option \<Rightarrow> bool" where
  "lane_free gateway task now v \<longleftrightarrow>
     (case v of
        None \<Rightarrow> True
      | Some (Lane_Data d) \<Rightarrow>
          \<not> (ld_gateway d = Some gateway \<and> ld_task d = Some task) \<and>
          (case ld_acquired d of None \<Rightarrow> True | Some t \<Rightarrow> now - t > seconds lane_ttl)
      | _ \<Rightarrow> False)"

definition own_lock :: "string \<Rightarrow> uuid \<Rightarrow> time \<Rightarrow> int \<Rightarrow> string \<Rightarrow> lane_lock" where
  "own_lock gateway task now token lane =
     \<lparr>ll_lane = lane, ll_gateway = gateway, ll_task = task, ll_token = token,
      ll_acquired = now, ll_expires = now + seconds lane_ttl\<rparr>"

lemma exec_create_lane:
  assumes "L lane = None" "length gateway \<le> 64" "0 \<le> next_token (F lane)"
  shows "exec lane_store (create_lane gateway task nc now lane) (L, F) =
    (Inr (own_lock gateway task now (next_token (F lane)) lane),
     (L(lane \<mapsto> Lane_Data (own_lane_data gateway task (next_token (F lane)) now (Some lane))),
      F(lane \<mapsto> next_token (F lane))))"
  using assms by (cases "F lane") (auto simp: create_lane_def Let_def next_token_def own_lock_def)

lemma exec_acquire_lane:
  assumes "sanitize_nats_subject lane = Inr lane" "lane_free gateway task now (L lane)"
    "length gateway \<le> 64" "0 \<le> next_token (F lane)"
  shows "exec lane_store (acquire_lane gateway task nc now lane) (L, F) =
    (Inr (own_lock gateway task now (next_token (F lane)) lane),
     (L(lane \<mapsto> Lane_Data (own_lane_data gateway task (next_token (F lane)) now (Some lane))),
      F(lane \<mapsto> next_token (F lane))))"
  using assms exec_create_lane[of L lane gateway F task nc now]
    exec_create_lane[of "L(lane := None)" lane gateway F task nc now]
  by (auto simp: acquire_lane_def get_lock_state_def lane_free_def reclaim_stale_def
      reclaim_malformed_def split: option.splits lane_value.splits)

lemma exec_release_lane:
  assumes "L lane = Some (Lane_Data (own_lane_data gateway task token now n))" "ll_lane lock = lane"
    "ll_token lock = token"
  shows "exec lane_store (release_lane gateway task nc lock) (L, F) = ((), (L(lane := None), F))"
  using assms by (simp add: release_lane_def get_lock_state_def own_lane_data_def held_token_def)

section \<open>All lanes of a task\<close>

text \<open>The effect on both maps of acquiring the lanes of a list, each with its clock.\<close>

fun acquired_view :: "string \<Rightarrow> uuid \<Rightarrow> (nat \<Rightarrow> time) \<Rightarrow> nat \<Rightarrow> string list \<Rightarrow> lane_view \<Rightarrow> lane_view" where
  "acquired_view gateway task clk i [] v = v"
| "acquired_view gateway task clk i (l # ls) (L, F) =
     acquired_view gateway task clk (Suc i) ls
       (L(l \<mapsto> Lane_Data (own_lane_data gateway task (next_token (F l)) (clk i) (Some l))),
        F(l \<mapsto> next_token (F l)))"

lemma acquired_view_other:
  "l \<notin> set ls \<Longrightarrow> fst (acquired_view gateway task clk i ls v) l = fst v l \<and>
                  snd (acquired_view gateway task clk i ls v) l = snd v l"
  by (induction gateway task clk i ls v rule: acquired_view.induct) auto

definition lane_ready :: "string \<Rightarrow> uuid \<Rightarrow> (nat \<Rightarrow> time) \<Rightarrow> lane_view \<Rightarrow> string \<Rightarrow> bool" where
  "lane_ready gateway task clk v l \<longleftrightarrow>
     sanitize_nats_subject l = Inr l \<and> (\<forall>i. lane_free gateway task (clk i) (fst v l)) \<and>
     0 \<le> next_token (snd v l)"

definition holds_lane :: "string \<Rightarrow> uuid \<Rightarrow> lane_view \<Rightarrow> lane_lock \<Rightarrow> bool" where
  "holds_lane gateway task v lock \<longleftrightarrow>
     (\<exists>now. fst v (ll_lane lock) =
        Some (Lane_Data (own_lane_data gateway task (ll_token lock) now (Some (ll_lane lock))))) \<and>
     snd v (ll_lane lock) = Some (ll_token lock)"

lemma exec_acquire_lanes:
  assumes "distinct ls" "\<And>l. l \<in> set ls \<Longrightarrow> lane_ready gateway task clk v l" "length gateway \<le> 64"
  shows "\<exists>new. exec lane_store (acquire_lanes gateway task nc clk i ls locks) v =
           ((None, locks @ new), acquired_view gateway task clk i ls v) \<and>
         map ll_lane new = ls \<and>
         (\<forall>lock\<in>set new. holds_lane gateway task (acquired_view gateway task clk i ls v) lock \<and>
                        ll_token lock = next_token (snd v (ll_lane lock)))"
  using assms
proof (induction ls arbitrary: i v locks)
  case Nil
  then show ?case by simp
next
  case (Cons l ls)
  obtain L F where v: "v = (L, F)"
    by fastforce
  let ?lock = "own_lock gateway task (clk i) (next_token (F l)) l"
  let ?v = "(L(l \<mapsto> Lane_Data (own_lane_data gateway task (next_token (F l)) (clk i) (Some l))),
             F(l \<mapsto> next_token (F l)))"
  have one: "exec lane_store (acquire_lane gateway task nc (clk i) l) v = (Inr ?lock, ?v)"
    unfolding v by (rule exec_acquire_lane) (use Cons.prems(2)[of l] Cons.prems(3) in \<open>simp_all add: lane_ready_def v\<close>)
  have "lane_ready gateway task clk ?v m" if "m \<in> set ls" for m
    using Cons.prems(1) Cons.prems(2)[of m] that by (auto simp: lane_ready_def v)
  then obtain new where new: "exec lane_store (acquire_lanes gateway task nc clk (Suc i) ls (locks @ [?lock])) ?v =
      ((None, (locks @ [?lock]) @ new), acquired_view gateway task clk (Suc i) ls ?v)"
    "map ll_lane new = ls"
    "\<forall>lock\<in>set new. holds_lane gateway task (acquired_view gateway task clk (Suc i) ls ?v) lock \<and>
                   ll_token lock = next_token (snd ?v (ll_lane lock))"
    using Cons.IH[of ?v "Suc i" "locks @ [?lock]"] Cons.prems(1,3) by auto
  have "l \<notin> set ls"
    using Cons.prems(1) by simp
  then have "holds_lane gateway task (acquired_view gateway task clk (Suc i) ls ?v) ?lock"
    using acquired_view_other[of l ls gateway task clk "Suc i" ?v]
    by (auto simp: holds_lane_def own_lock_def)
  moreover have "ll_token lock = next_token (F (ll_lane lock))" if "lock \<in> set new" for lock
    using new(2,3) that \<open>l \<notin> set ls\<close> by (metis fun_upd_apply image_eqI list.set_map snd_conv)
  ultimately have "\<forall>lock\<in>set (?lock # new). holds_lane gateway task (acquired_view gateway task clk i (l # ls) v) lock \<and>
      ll_token lock = next_token (snd v (ll_lane lock))"
    using new(3) by (simp add: v own_lock_def)
  moreover have "exec lane_store (acquire_lanes gateway task nc clk i (l # ls) locks) v =
      ((None, locks @ (?lock # new)), acquired_view gateway task clk i (l # ls) v)"
    using one new(1) by (simp add: v)
  moreover have "map ll_lane (?lock # new) = l # ls"
    using new(2) by (simp add: own_lock_def)
  ultimately show ?case
    by (intro exI[of _ "?lock # new"] conjI)
qed

lemma exec_release_lanes:
  assumes "distinct (map ll_lane locks)" "\<forall>lock\<in>set locks. holds_lane gateway task v lock"
  shows "exec lane_store (release_lanes gateway task nc locks) v =
    ((), (\<lambda>l. if l \<in> ll_lane ` set locks then None else fst v l, snd v))"
  using assms
proof (induction locks arbitrary: v)
  case Nil
  then show ?case by (cases v) simp
next
  case (Cons lock locks)
  obtain L F where v: "v = (L, F)"
    by fastforce
  obtain now where now: "L (ll_lane lock) =
      Some (Lane_Data (own_lane_data gateway task (ll_token lock) now (Some (ll_lane lock))))"
    using Cons.prems(2) by (auto simp: holds_lane_def v)
  have one: "exec lane_store (release_lane gateway task nc lock) v = ((), (L(ll_lane lock := None), F))"
    unfolding v using now by (rule exec_release_lane) simp_all
  have "ll_lane k \<noteq> ll_lane lock" if "k \<in> set locks" for k
    using Cons.prems(1) that by (auto simp: image_iff)
  then have "\<forall>k\<in>set locks. holds_lane gateway task (L(ll_lane lock := None), F) k"
    using Cons.prems(2) by (simp add: holds_lane_def v)
  then have "exec lane_store (release_lanes gateway task nc locks) (L(ll_lane lock := None), F) =
      ((), (\<lambda>l. if l \<in> ll_lane ` set locks then None else (L(ll_lane lock := None)) l, F))"
    using Cons.IH[of "(L(ll_lane lock := None), F)"] Cons.prems(1) by (auto simp: fun_eq_iff)
  then show ?case
    using one by (auto simp: v fun_eq_iff)
qed

lemma exec_release_all: "\<exists>t. exec svc (release_all_lanes x) s = (x\<lparr>lx_locks := []\<rparr>, t)"
  by (cases "exec svc (release_lanes (lx_gateway x) (tn_id (lx_task x)) (lx_nc x) (lx_locks x)) s")
     (simp add: release_all_lanes_def)

lemma acquire_lanes_stops:
  "l \<in> set ls \<Longrightarrow> CHR '':'' \<in> set l \<Longrightarrow>
   fst (fst (exec svc (acquire_lanes gateway task nc clk i ls locks) s)) \<noteq> None"
proof (induction ls arbitrary: i locks s)
  case (Cons m ls)
  obtain x t where one: "exec svc (acquire_lane gateway task nc (clk i) m) s = (x, t)"
    by (cases "exec svc (acquire_lane gateway task nc (clk i) m) s")
  show ?case
  proof (cases "l = m")
    case True
    then have "\<exists>e. x = Inl (Bad_Subject e)"
      using one sanitize_colon[OF Cons.prems(2)] by (auto simp: acquire_lane_def)
    then show ?thesis
      using one by auto
  next
    case False
    then show ?thesis
      using one Cons by (auto split: sum.splits)
  qed
qed simp

lemma exec_execute_rollback:
  assumes "\<And>et p s. fst (svc (Publish_Event et p) s) \<noteq> Call_Failed"
  shows "\<exists>t. exec svc (publish_event nc et p) s = (True, t)" "\<exists>t. exec svc (execute_rollback x) s = (True, t)"
proof -
  show p: "\<exists>t. exec svc (publish_event nc et p) s = (True, t)" for nc et p s
    using assms[of et p s] by (auto simp: publish_event_def split: prod.splits)
  obtain t where "exec svc (publish_event (lx_nc x) ROLLBACK_EXECUTED
        [(''task_id'', JStr (tn_id (lx_task x))), (''gateway_id'', JStr (lx_gateway x)),
         (''rollback_instruction'', JStr (case tn_rollback (lx_task x) of Some i \<Rightarrow> i | None \<Rightarrow> [])),
         (''success'', JBool True)]) s = (True, t)"
    using p by blast
  then show "\<exists>t. exec svc (execute_rollback x) s = (True, t)"
    by (auto simp: execute_rollback_def Let_def)
qed

lemma exec_handle_failure:
  assumes "\<And>et p s. fst (svc (Publish_Event et p) s) \<noteq> Call_Failed"
  shows "\<exists>t. exec svc (handle_failure err x) s =
    ((True, x\<lparr>lx_task := (lx_task x)\<lparr>tn_failures := tn_failures (lx_task x) + 1, tn_last_error := Some err\<rparr>\<rparr>), t)"
proof -
  let ?t = "(lx_task x)\<lparr>tn_failures := tn_failures (lx_task x) + 1, tn_last_error := Some err\<rparr>"
  let ?x = "x\<lparr>lx_task := ?t\<rparr>"
  obtain u where u: "exec svc (if nonempty (tn_rollback ?t) then execute_rollback ?x else Done True) s = (True, u)"
    using exec_execute_rollback(2)[of svc ?x s, OF assms] by (cases "nonempty (tn_rollback ?t)") auto
  obtain v where v: "exec svc (publish_event (lx_nc ?x) TASK_FAILED
      [(''error'', JStr err), (''failure_count'', JInt (tn_failures ?t))]) u = (True, v)"
    using exec_execute_rollback(1)[of svc, OF assms] by blast
  obtain w where w: "exec svc (publish_event (lx_nc ?x) DLQ_ENQUEUED
      [(''task_id'', JStr (tn_id ?t)), (''failure_count'', JInt (tn_failures ?t))]) v = (True, w)"
    using exec_execute_rollback(1)[of svc, OF assms] by blast
  show ?thesis
    using u v w by (cases "is_poison_pill ?t") (simp_all add: handle_failure_def Let_def)
qed

section \<open>Properties\<close>

text \<open>
  Entering with distinct acceptable lanes that are free, stale or malformed takes every
  lane: each holds the executor's data with the counter's next token, and the counters have
  moved to it. Leaving without an exception deletes exactly these lanes and touches neither
  another lane nor a counter.
\<close>

theorem lane_enter_exit:
  assumes "lane_service svc view" and "x = executor_init task gateway nc"
    and "distinct (lanes_of_task task)" and "length gateway \<le> 64"
    and "\<forall>l\<in>set (lanes_of_task task). lane_ready gateway (tn_id task) clk (view s) l"
  shows "\<exists>x1 s1 x2 s2.
    exec svc (lane_enter clk x) s = ((None, x1), s1) \<and>
    map ll_lane (lx_locks x1) = lanes_of_task task \<and>
    (\<forall>lock\<in>set (lx_locks x1). holds_lane gateway (tn_id task) (view s1) lock \<and>
        ll_token lock = next_token (snd (view s) (ll_lane lock))) \<and>
    (\<forall>l. l \<notin> set (lanes_of_task task) \<longrightarrow>
        fst (view s1) l = fst (view s) l \<and> snd (view s1) l = snd (view s) l) \<and>
    exec svc (lane_exit None x1) s1 = ((True, x2), s2) \<and> lx_locks x2 = [] \<and>
    view s2 = (\<lambda>l. if l \<in> set (lanes_of_task task) then None else fst (view s1) l, snd (view s1))"
proof -
  let ?ls = "lanes_of_task task" and ?v = "acquired_view gateway (tn_id task) clk 0 (lanes_of_task task) (view s)"
  obtain new where new: "exec lane_store (acquire_lanes gateway (tn_id task) nc clk 0 ?ls []) (view s) = ((None, new), ?v)"
    "map ll_lane new = ?ls"
    "\<forall>lock\<in>set new. holds_lane gateway (tn_id task) ?v lock \<and> ll_token lock = next_token (snd (view s) (ll_lane lock))"
    using exec_acquire_lanes[OF assms(3) _ assms(4), of "tn_id task" clk "view s" nc 0 "[]"] assms(5) by auto
  let ?x1 = "x\<lparr>lx_locks := new, lx_heartbeat := True\<rparr>"
  have "exec lane_store (lane_enter clk x) (view s) = ((None, ?x1), ?v)"
    using new(1) by (simp add: lane_enter_def assms(2) executor_init_def)
  from exec_result[OF assms(1) this] obtain s1
    where s1: "exec svc (lane_enter clk x) s = ((None, ?x1), s1)" "view s1 = ?v"
    by blast
  have "exec lane_store (release_lanes gateway (tn_id task) nc new) ?v =
      ((), (\<lambda>l. if l \<in> ll_lane ` set new then None else fst ?v l, snd ?v))"
    by (rule exec_release_lanes) (use new(2,3) assms(3) in auto)
  moreover have "ll_lane ` set new = set ?ls"
    using new(2) by (metis list.set_map)
  ultimately have "exec lane_store (lane_exit None ?x1) ?v =
      ((True, ?x1\<lparr>lx_heartbeat := False, lx_locks := []\<rparr>), (\<lambda>l. if l \<in> set ?ls then None else fst ?v l, snd ?v))"
    by (simp add: lane_exit_def release_all_lanes_def assms(2) executor_init_def)
  from exec_result[OF assms(1) this[folded s1(2)]] obtain s2
    where s2: "exec svc (lane_exit None ?x1) s1 = ((True, ?x1\<lparr>lx_heartbeat := False, lx_locks := []\<rparr>), s2)"
    "view s2 = (\<lambda>l. if l \<in> set ?ls then None else fst (view s1) l, snd (view s1))"
    by blast
  show ?thesis
    by (intro exI conjI, rule s1(1)) (use new(2,3) s1(2) s2 acquired_view_other in auto)
qed

text \<open>A task on two lanes, one of them left stale by a gateway that died.\<close>

definition demo_lane_task :: task_node where
  "demo_lane_task = (new_task_node ''t1'' ''r1'' ''title'' 0)\<lparr>tn_lanes := [''repo.main'', ''users'']\<rparr>"

definition demo_lanes :: lane_view where
  "demo_lanes =
     ([''users'' \<mapsto> Lane_Data (own_lane_data ''dead'' ''t0'' 4 0 (Some ''users''))], [''users'' \<mapsto> 4])"

theorem lane_enter_exit_witness:
  "\<exists>x1 s1 x2 s2.
    exec lane_store (lane_enter (\<lambda>_. seconds 60) (executor_init demo_lane_task ''g'' True)) demo_lanes = ((None, x1), s1) \<and>
    map ll_lane (lx_locks x1) = [''repo.main'', ''users''] \<and>
    exec lane_store (lane_exit None x1) s1 = ((True, x2), s2) \<and>
    fst s2 ''users'' = None"
proof -
  have ls: "lanes_of_task demo_lane_task = [''repo.main'', ''users'']"
    by (simp add: lanes_of_task_def demo_lane_task_def new_task_node_def)
  have ok: "sanitize_nats_subject ''repo.main'' = Inr ''repo.main''" "sanitize_nats_subject ''users'' = Inr ''users''"
    by code_simp+
  have "\<forall>l\<in>set (lanes_of_task demo_lane_task). lane_ready ''g'' (tn_id demo_lane_task) (\<lambda>_. seconds 60) demo_lanes l"
    by (simp add: ls ok lane_ready_def lane_free_def demo_lanes_def own_lane_data_def next_token_def lane_ttl_def)
  then show ?thesis
    using lane_enter_exit[OF lane_store_service refl, of demo_lane_task "''g''" "\<lambda>_. seconds 60" demo_lanes True]
    by (simp add: ls) (elim exE conjE, intro exI conjI, assumption+, simp)
qed

text \<open>
  A lane whose name has a colon is never entered, whatever the service holds or
  replies. That covers \<open>file:...\<close> and \<open>table:...\<close>, the documented lane names, and every task
  without lanes of its own, whose synthetic lane is \<open>task:<id>\<close>.
\<close>

theorem lane_with_colon_never_entered:
  assumes "tn_lanes (lx_task x) = [] \<or> (\<exists>l\<in>set (tn_lanes (lx_task x)). CHR '':'' \<in> set l)"
  shows "fst (fst (exec svc (lane_enter clk x) s)) \<noteq> None"
proof -
  have "\<exists>l\<in>set (lanes_of_task (lx_task x)). CHR '':'' \<in> set l"
    using assms by (cases "tn_lanes (lx_task x) = []") (auto simp: lanes_of_task_def)
  then obtain l where l: "l \<in> set (lanes_of_task (lx_task x))" "CHR '':'' \<in> set l"
    by blast
  let ?p = "acquire_lanes (lx_gateway x) (tn_id (lx_task x)) (lx_nc x) clk 0 (lanes_of_task (lx_task x)) (lx_locks x)"
  obtain e locks t where "exec svc ?p s = ((e, locks), t)"
    by (metis prod.collapse)
  moreover from this have "e \<noteq> None"
    using acquire_lanes_stops[OF l, of svc "lx_gateway x" "tn_id (lx_task x)" "lx_nc x" clk 0 "lx_locks x" s] by simp
  ultimately show ?thesis
    by (simp add: lane_enter_def)
qed

theorem lane_with_colon_never_entered_witness:
  "fst (fst (exec lane_store (lane_enter (\<lambda>_. 0)
      (executor_init (new_task_node ''t1'' ''r1'' ''title'' 0) ''g'' False)) (Map.empty, Map.empty))) \<noteq> None"
  by (rule lane_with_colon_never_entered) (simp add: executor_init_def new_task_node_def)

text \<open>
  An agent that raises costs its task two failures: \<open>run\<close> counts one and raises again,
  and \<open>__aexit__\<close> counts the same exception once more before it suppresses it. The task is a
  poison pill, announced to the dead letter queue, after its second failing execution.
\<close>

theorem failing_agent_counts_twice:
  assumes "\<And>et p s. fst (svc (Publish_Event et p) s) \<noteq> Call_Failed"
    and "\<And>recovery s. fst (exec svc (agent recovery) s) = Inl (Agent_Raised message)"
    and "fst (exec svc (lane_enter clk x) s) = (None, x1)"
  shows "\<exists>x'. fst (exec svc (lane_locked_execution clk agent x) s) = (Inr None, x') \<and>
    tn_failures (lx_task x') = tn_failures (lx_task x) + 2 \<and> lx_locks x' = [] \<and>
    (1 \<le> tn_failures (lx_task x) \<longrightarrow> is_poison_pill (lx_task x'))"
proof -
  obtain s1 where s1: "exec svc (lane_enter clk x) s = ((None, x1), s1)"
    using assms(3) by (metis prod.collapse)
  have task: "lx_task x1 = lx_task x"
    using assms(3) by (auto simp: lane_enter_def split: prod.splits)
  let ?once = "\<lambda>y. y\<lparr>lx_task := (lx_task y)\<lparr>tn_failures := tn_failures (lx_task y) + 1, tn_last_error := Some message\<rparr>\<rparr>"
  obtain u where u: "exec svc (if has_checkpoint (lx_task x1)
            then publish_event (lx_nc x1) TASK_HYDRATED
              [(''recovering_gateway'', JStr (lx_gateway x1)),
               (''checkpoint_state'', case tn_checkpoint (lx_task x1) of Some c \<Rightarrow> JStr c | None \<Rightarrow> JNull)]
            else Done True) s1 = (True, u)"
  proof (cases "has_checkpoint (lx_task x1)")
    case True
    then show thesis
      using that exec_execute_rollback(1)[of svc, OF assms(1)] by (simp only: if_True) blast
  qed (use that in simp)
  obtain v where v: "exec svc (agent (has_checkpoint (lx_task x1))) u = (Inl (Agent_Raised message), v)"
    using assms(2) by (metis prod.collapse)
  obtain w where w: "exec svc (handle_failure message x1) v = ((True, ?once x1), w)"
    using exec_handle_failure[of svc, OF assms(1)] by blast
  have run: "exec svc (run_agent agent x1) s1 = ((Inl (Agent_Raised message), ?once x1), w)"
    using u v w by (simp add: run_agent_def Let_def)
  let ?y = "(?once x1)\<lparr>lx_heartbeat := False, lx_locks := []\<rparr>"
  obtain a where a: "exec svc (release_all_lanes ((?once x1)\<lparr>lx_heartbeat := False\<rparr>)) w = (?y, a)"
    using exec_release_all[of svc "(?once x1)\<lparr>lx_heartbeat := False\<rparr>" w] by auto
  obtain b where b: "exec svc (handle_failure message ?y) a = ((True, ?once ?y), b)"
    using exec_handle_failure[of svc, OF assms(1)] by blast
  have "exec svc (lane_exit (Some (Agent_Raised message)) (?once x1)) w = ((True, ?once ?y), b)"
    using a b by (simp add: lane_exit_def)
  then have "fst (exec svc (lane_locked_execution clk agent x) s) = (Inr None, ?once ?y)"
    using s1 run by (simp add: lane_locked_execution_def)
  then show ?thesis
    by (simp add: task is_poison_pill_def)
qed

theorem failing_agent_counts_twice_witness:
  "\<exists>x'. fst (exec lane_store (lane_locked_execution (\<lambda>_. 0) (\<lambda>_. Done (Inl (Agent_Raised ''boom'')))
      (executor_init (demo_lane_task\<lparr>tn_lanes := [''users''], tn_failures := 1\<rparr>) ''g'' True)) (Map.empty, Map.empty)) =
      (Inr None, x') \<and> tn_failures (lx_task x') = 3 \<and> is_poison_pill (lx_task x')"
proof -
  let ?x = "executor_init (demo_lane_task\<lparr>tn_lanes := [''users''], tn_failures := 1\<rparr>) ''g'' True"
  have "sanitize_nats_subject ''users'' = Inr ''users''"
    by code_simp
  then have "fst (fst (exec lane_store (lane_enter (\<lambda>_. 0) ?x) (Map.empty, Map.empty))) = None"
    by (simp add: lane_enter_def executor_init_def lanes_of_task_def
        exec_acquire_lane lane_free_def next_token_def)
  then have "fst (exec lane_store (lane_enter (\<lambda>_. 0) ?x) (Map.empty, Map.empty)) =
      (None, snd (fst (exec lane_store (lane_enter (\<lambda>_. 0) ?x) (Map.empty, Map.empty))))"
    by (metis prod.collapse)
  then obtain x' where "fst (exec lane_store (lane_locked_execution (\<lambda>_. 0) (\<lambda>_. Done (Inl (Agent_Raised ''boom''))) ?x)
      (Map.empty, Map.empty)) = (Inr None, x')" "tn_failures (lx_task x') = tn_failures (lx_task ?x) + 2"
      "1 \<le> tn_failures (lx_task ?x) \<longrightarrow> is_poison_pill (lx_task x')"
    using failing_agent_counts_twice[of lane_store "\<lambda>_. Done (Inl (Agent_Raised ''boom''))" "''boom''"
        "\<lambda>_. 0" ?x "(Map.empty, Map.empty)"] by (fastforce split: prod.splits)
  then show ?thesis
    by (intro exI[of _ x']) (simp add: executor_init_def)
qed

text \<open>
  The interleaving that breaks the lock: both read the stale entry, the first reclaims and
  creates, the second deletes the fresh lock and creates its own before the first has
  stored its counter.
\<close>

definition split_schedule :: "bool list" where
  "split_schedule = [True, False, True, True, True, False, False, False, True, False]"

lemma interleave_split:
  assumes "sanitize_nats_subject lane = Inr lane"
    and "L lane = Some (Lane_Data d)" "ld_acquired d = Some t"
    and "now1 - t > seconds lane_ttl" "now2 - t > seconds lane_ttl"
    and "ld_gateway d \<noteq> Some g1" "ld_gateway d \<noteq> Some g2"
    and "length g1 \<le> 64" "length g2 \<le> 64" "0 \<le> next_token (F lane)"
  shows "interleave lane_store split_schedule (acquire_lane g1 t1 False now1 lane)
      (acquire_lane g2 t2 False now2 lane) (L, F) =
    (Done (Inr (own_lock g1 t1 now1 (next_token (F lane)) lane)),
     Done (Inr (own_lock g2 t2 now2 (next_token (F lane)) lane)),
     (L(lane \<mapsto> Lane_Data (own_lane_data g2 t2 (next_token (F lane)) now2 (Some lane))),
      F(lane \<mapsto> next_token (F lane))))"
  using assms
  by (cases "F lane")
     (simp_all add: split_schedule_def acquire_lane_def get_lock_state_def reclaim_stale_def
        create_lane_def publish_event_def Let_def next_token_def own_lock_def)

text \<open>
  Two gateways that find the same stale lock can both acquire the lane, with the same
  fencing token. Both then pass the token validation of \<open>run\<close>, and the renewal of either
  takes the lock entry for itself.
\<close>

theorem stale_lane_acquired_twice:
  assumes "lane_service svc view" and "view s = (L, F)"
    and "sanitize_nats_subject lane = Inr lane"
    and "L lane = Some (Lane_Data d)" "ld_acquired d = Some t"
    and "now1 - t > seconds lane_ttl" "now2 - t > seconds lane_ttl"
    and "ld_gateway d \<noteq> Some g1" "ld_gateway d \<noteq> Some g2"
    and "length g1 \<le> 64" "length g2 \<le> 64" "0 \<le> next_token (F lane)"
  shows "\<exists>sched s' lock1 lock2.
    interleave svc sched (acquire_lane g1 t1 False now1 lane) (acquire_lane g2 t2 False now2 lane) s =
      (Done (Inr lock1), Done (Inr lock2), s') \<and>
    ll_lane lock1 = lane \<and> ll_lane lock2 = lane \<and> ll_token lock1 = ll_token lock2 \<and>
    fst (exec svc (validate_tokens [lock1]) s') = None \<and>
    fst (exec svc (validate_tokens [lock2]) s') = None \<and>
    fst (exec svc (renew_lane_lock g1 t1 now lock1) s') = None \<and>
    fst (exec svc (renew_lane_lock g2 t2 now lock2) s') = None"
proof -
  let ?n = "next_token (F lane)"
  let ?v = "(L(lane \<mapsto> Lane_Data (own_lane_data g2 t2 ?n now2 (Some lane))), F(lane \<mapsto> ?n))"
  obtain s' where s': "interleave svc split_schedule (acquire_lane g1 t1 False now1 lane)
      (acquire_lane g2 t2 False now2 lane) s =
      (Done (Inr (own_lock g1 t1 now1 ?n lane)), Done (Inr (own_lock g2 t2 now2 ?n lane)), s')" "view s' = ?v"
    using interleave_refines[OF assms(1), of split_schedule "acquire_lane g1 t1 False now1 lane"
        "acquire_lane g2 t2 False now2 lane" s]
      interleave_split[of lane L d t now1 now2 g1 g2 F t1 t2, OF assms(3-12)] assms(2) by auto
  have valid: "fst (exec svc (validate_tokens [own_lock g task since ?n lane]) s') = None" for g task since
    using exec_refines[OF assms(1), of "validate_tokens [own_lock g task since ?n lane]" s'] s'(2)
    by (simp add: own_lock_def)
  have renew: "fst (exec svc (renew_lane_lock g task now (own_lock g task since ?n lane)) s') = None" for g task since
    using exec_refines[OF assms(1), of "renew_lane_lock g task now (own_lock g task since ?n lane)" s'] s'(2)
    by (simp add: own_lock_def renew_lane_lock_def get_lock_state_def own_lane_data_def held_token_def)
  show ?thesis
    by (intro exI conjI, rule s'(1), (rule valid renew | simp add: own_lock_def)+)
qed

theorem stale_lane_acquired_twice_witness:
  "\<exists>sched s' lock1 lock2.
    interleave lane_store sched (acquire_lane ''a'' ''t1'' False (seconds 60) ''users'')
      (acquire_lane ''b'' ''t2'' False (seconds 61) ''users'') demo_lanes = (Done (Inr lock1), Done (Inr lock2), s') \<and>
    ll_token lock1 = ll_token lock2"
proof -
  have ok: "sanitize_nats_subject ''users'' = Inr ''users''"
    by code_simp
  have d: "fst demo_lanes ''users'' = Some (Lane_Data (own_lane_data ''dead'' ''t0'' 4 0 (Some ''users'')))"
    by (simp add: demo_lanes_def)
  show ?thesis
    using stale_lane_acquired_twice[of lane_store "\<lambda>s. s" demo_lanes "fst demo_lanes" "snd demo_lanes" "''users''"
        "own_lane_data ''dead'' ''t0'' 4 0 (Some ''users'')" 0 "seconds 60" "seconds 61" "''a''" "''b''" "''t1''" "''t2''" 0,
        OF lane_store_service _ ok d]
    by (simp add: own_lane_data_def lane_ttl_def next_token_def demo_lanes_def) blast
qed

text \<open>
  A partial entry keeps what it took: when a later lane is contested the earlier one stays
  locked, \<open>__aexit__\<close> does not run, and the same task is refused its own lane until it expires.
\<close>

lemma partial_entry_keeps_lane:
  assumes "x = executor_init task gateway nc" "lanes_of_task task = [a, b]" "a \<noteq> b" "length gateway \<le> 64"
    and "lane_ready gateway (tn_id task) clk (L, F) a" "sanitize_nats_subject b = Inr b"
    and "L b = Some (Lane_Data d)" "ld_acquired d = Some t" "clk (Suc 0) - t \<le> seconds lane_ttl"
    and "ld_gateway d \<noteq> Some gateway"
  shows "\<exists>x1 v. exec lane_store (lane_enter clk x) (L, F) = ((Some (Lane_Contested b), x1), v) \<and>
     (\<exists>lock\<in>set (lx_locks x1). ll_lane lock = a \<and> holds_lane gateway (tn_id task) v lock) \<and>
     fst (fst (exec lane_store (lane_enter clk x) v)) = Some (Duplicate_Claim a)"
proof -
  let ?n = "next_token (F a)" and ?lock = "own_lock gateway (tn_id task) (clk 0) (next_token (F a)) a"
  let ?v = "(L(a \<mapsto> Lane_Data (own_lane_data gateway (tn_id task) ?n (clk 0) (Some a))), F(a \<mapsto> ?n))"
  have a: "sanitize_nats_subject a = Inr a" "lane_free gateway (tn_id task) (clk 0) (L a)" "0 \<le> next_token (F a)"
    using assms(5) by (simp_all add: lane_ready_def)
  have one: "exec lane_store (acquire_lane gateway (tn_id task) nc (clk 0) a) (L, F) = (Inr ?lock, ?v)" for nc
    by (rule exec_acquire_lane) (use a assms(4) in simp_all)
  have two: "exec lane_store (acquire_lane gateway (tn_id task) nc (clk (Suc 0)) b) ?v = (Inl (Lane_Contested b), ?v)" for nc
    using assms(3,6-10) by (simp add: acquire_lane_def get_lock_state_def)
  have again: "exec lane_store (acquire_lane gateway (tn_id task) nc (clk 0) a) ?v = (Inl (Duplicate_Claim a), ?v)" for nc
    using a(1) by (simp add: acquire_lane_def get_lock_state_def own_lane_data_def)
  have "exec lane_store (lane_enter clk x) (L, F) =
      ((Some (Lane_Contested b), x\<lparr>lx_locks := [?lock], lx_heartbeat := False\<rparr>), ?v)"
    using one two by (simp add: lane_enter_def assms(1,2) executor_init_def)
  moreover have "fst (fst (exec lane_store (lane_enter clk x) ?v)) = Some (Duplicate_Claim a)"
    using again by (simp add: lane_enter_def assms(1,2) executor_init_def)
  ultimately show ?thesis
    by (intro exI[of _ "x\<lparr>lx_locks := [?lock], lx_heartbeat := False\<rparr>"] exI[of _ ?v])
       (auto simp: holds_lane_def own_lock_def)
qed

end
