(* ===== verification/Frontmatter.thy ===== *)
theory Frontmatter imports Prelude begin

text \<open>
  The YAML frontmatter of the vault files (\<open>memu/wiki/frontmatter.py\<close>), with the built-in
  loader and dumper that run when PyYAML is not installed, as with the declared
  dependencies of the package.

  Printing and reading floats and printing a dict as text are left to the interpreter:
  \<open>py_text\<close> holds the three functions. Everything else is written out, \<open>str.splitlines\<close> and
  \<open>int\<close> included. \<open>is_space\<close> is the ASCII whitespace \<open>str.strip\<close> removes.

  Proved: the loader reads back what the dumper wrote for every frontmatter of plain keys
  and plain values, one level of lists and dicts of scalars included; and the values that
  do not survive, a list of dicts among them.
\<close>

record py_text =
  float_str :: "real \<Rightarrow> string"
  float_of :: "string \<Rightarrow> real option"
  dict_str :: "payload \<Rightarrow> string"

section \<open>Lines\<close>

text \<open>
  The line boundary at the head of a text, as a number of bytes: CR LF, the ASCII
  boundaries, and NEL, LINE SEPARATOR and PARAGRAPH SEPARATOR in UTF-8.
\<close>

definition break_len :: "string \<Rightarrow> nat" where
  "break_len s =
     (if is_prefix [CHR 0x0D, CHR 0x0A] s then 2
      else if s \<noteq> [] \<and> hd s \<in> {CHR 0x0A, CHR 0x0D, CHR 0x0B, CHR 0x0C, CHR 0x1C, CHR 0x1D, CHR 0x1E} then 1
      else if is_prefix [CHR 0xC2, CHR 0x85] s then 2
      else if is_prefix [CHR 0xE2, CHR 0x80, CHR 0xA8] s \<or> is_prefix [CHR 0xE2, CHR 0x80, CHR 0xA9] s then 3
      else 0)"

text \<open>\<open>splitlines(keepends)\<close>; \<open>cur\<close> is the line read so far.\<close>

function split_lines :: "bool \<Rightarrow> string \<Rightarrow> string \<Rightarrow> string list" where
  "split_lines keep cur s =
     (if s = [] then (if cur = [] then [] else [cur])
      else if break_len s > 0
      then (cur @ (if keep then take (break_len s) s else [])) # split_lines keep [] (drop (break_len s) s)
      else split_lines keep (cur @ [hd s]) (tl s))"
  by auto
termination by (relation "measure (\<lambda>(keep, cur, s). length s)") auto

declare split_lines.simps [simp del]

section \<open>Integers as text\<close>

definition digit_char :: "nat \<Rightarrow> char" where
  "digit_char d = char_of (48 + d)"

definition digit_val :: "char \<Rightarrow> nat" where
  "digit_val c = of_char c - 48"

fun show_nat :: "nat \<Rightarrow> string" where
  "show_nat n = (if n < 10 then [digit_char n] else show_nat (n div 10) @ [digit_char (n mod 10)])"

declare show_nat.simps [simp del]

text \<open>\<open>str\<close> of an integer.\<close>

definition show_int :: "int \<Rightarrow> string" where
  "show_int i = (if i < 0 then CHR ''-'' # show_nat (nat (- i)) else show_nat (nat i))"

text \<open>Decimal digits, with single underscores between them.\<close>

fun read_digits :: "nat \<Rightarrow> string \<Rightarrow> nat option" where
  "read_digits n [] = Some n"
| "read_digits n (c # cs) =
     (if is_digit c then read_digits (n * 10 + digit_val c) cs
      else if c = CHR ''_'' \<and> cs \<noteq> [] \<and> is_digit (hd cs) then read_digits n cs
      else None)"

definition read_nat :: "string \<Rightarrow> nat option" where
  "read_nat s = (if s \<noteq> [] \<and> is_digit (hd s) then read_digits 0 s else None)"

text \<open>\<open>int\<close> of a text, \<open>None\<close> for \<open>ValueError\<close>.\<close>

definition read_int :: "string \<Rightarrow> int option" where
  "read_int s =
     (case strip s of
        [] \<Rightarrow> None
      | c # cs \<Rightarrow>
          if c = CHR ''-'' then map_option (\<lambda>n. - int n) (read_nat cs)
          else if c = CHR ''+'' then map_option int (read_nat cs)
          else map_option int (read_nat (c # cs)))"

section \<open>Scalars\<close>

text \<open>\<open>s.split(',')\<close>.\<close>

fun split_commas :: "string \<Rightarrow> string list" where
  "split_commas [] = [[]]"
| "split_commas (c # cs) =
     (if c = CHR '','' then [] # split_commas cs
      else (case split_commas cs of [] \<Rightarrow> [[c]] | w # ws \<Rightarrow> (c # w) # ws))"

lemma length_split_commas: "w \<in> set (split_commas s) \<Longrightarrow> length w \<le> length s"
proof (induction s arbitrary: w)
  case (Cons c cs)
  then show ?case
    by (cases "split_commas cs") (fastforce split: if_splits)+
qed simp

lemma length_strip: "length (strip s) \<le> length s"
  unfolding strip_def using length_dropWhile_le order_trans by (metis length_rev)

definition inner_text :: "string \<Rightarrow> string" where
  "inner_text s = butlast (tl s)"

definition surrounded :: "char \<Rightarrow> char \<Rightarrow> string \<Rightarrow> bool" where
  "surrounded a b s \<longleftrightarrow> s \<noteq> [] \<and> hd s = a \<and> last s = b"

function parse_scalar :: "py_text \<Rightarrow> string \<Rightarrow> json" where
  "parse_scalar T val =
     (if surrounded (CHR ''['') (CHR '']'') val
      then (if strip (inner_text val) = [] then JList []
            else JList (map (\<lambda>x. parse_scalar T (strip x)) (split_commas (strip (inner_text val)))))
      else if val \<in> {''null'', ''None'', ''~'', []} then JNull
      else if val \<in> {''true'', ''True''} then JBool True
      else if val \<in> {''false'', ''False''} then JBool False
      else if surrounded (CHR 0x22) (CHR 0x22) val \<or> surrounded (CHR 0x27) (CHR 0x27) val
      then JStr (inner_text val)
      else if CHR ''.'' \<in> set val
      then (case float_of T val of Some r \<Rightarrow> JReal r | None \<Rightarrow> JStr val)
      else (case read_int val of Some i \<Rightarrow> JInt i | None \<Rightarrow> JStr val))"
  by auto
termination
proof (relation "measure (\<lambda>(T, val). length val)")
  fix T :: py_text and val x
  assume s: "surrounded (CHR ''['') (CHR '']'') val" and x: "x \<in> set (split_commas (strip (inner_text val)))"
  have "length (strip x) \<le> length (strip (inner_text val))"
    using length_strip[of x] length_split_commas[OF x] by simp
  also have "\<dots> \<le> length (inner_text val)"
    by (rule length_strip)
  also have "\<dots> < length val"
    using s by (cases val) (auto simp: inner_text_def surrounded_def)
  finally show "((T, strip x), (T, val)) \<in> measure (\<lambda>(T, val). length val)"
    by simp
qed simp

declare parse_scalar.simps [simp del]

definition special_chars :: string where
  "special_chars = '':#[]{},&*!|>'' @ [CHR 0x27, CHR 0x22] @ ''%@`''"

definition dump_text :: "string \<Rightarrow> string" where
  "dump_text s =
     (if \<exists>c\<in>set special_chars. c \<in> set s
      then CHR 0x22 # replace_all [CHR 0x22] [CHR 0x5C, CHR 0x22] s @ [CHR 0x22]
      else s)"

fun dump_scalar :: "py_text \<Rightarrow> json \<Rightarrow> string" where
  "dump_scalar T JNull = ''null''"
| "dump_scalar T (JBool b) = (if b then ''true'' else ''false'')"
| "dump_scalar T (JInt i) = show_int i"
| "dump_scalar T (JReal r) = float_str T r"
| "dump_scalar T (JList xs) = ''['' @ join_strings '', '' (map (dump_scalar T) xs) @ '']''"
| "dump_scalar T (JStr s) = dump_text s"
| "dump_scalar T (JObj kvs) = dump_text (dict_str T kvs)"

section \<open>The loader\<close>

text \<open>\<open>line.partition(':')\<close>: before and after the first colon.\<close>

definition before_colon :: "string \<Rightarrow> string" where
  "before_colon s = takeWhile (\<lambda>c. c \<noteq> CHR '':'') s"

definition after_colon :: "string \<Rightarrow> string" where
  "after_colon s = tl (dropWhile (\<lambda>c. c \<noteq> CHR '':'') s)"

text \<open>The indented lines under a key without a value: list items, else the entries of a dict.\<close>

definition nested_items :: "py_text \<Rightarrow> string list \<Rightarrow> json list" where
  "nested_items T ls =
     map (\<lambda>l. parse_scalar T (drop 2 l)) (filter (is_prefix ''- '') (map strip ls))"

definition nested_dict :: "py_text \<Rightarrow> string list \<Rightarrow> payload" where
  "nested_dict T ls =
     fold (\<lambda>l d. dict_set (strip (before_colon l)) (parse_scalar T (strip (after_colon l))) d)
       (filter (\<lambda>l. \<not> is_prefix ''- '' l \<and> CHR '':'' \<in> set l) (map strip ls)) []"

definition nested_value :: "py_text \<Rightarrow> string list \<Rightarrow> json" where
  "nested_value T ls =
     (if nested_items T ls \<noteq> [] then JList (nested_items T ls)
      else if nested_dict T ls \<noteq> [] then JObj (nested_dict T ls)
      else JNull)"

function load_lines :: "py_text \<Rightarrow> payload \<Rightarrow> string list \<Rightarrow> payload" where
  "load_lines T out [] = out"
| "load_lines T out (line # rest) =
     (if strip line = [] \<or> is_prefix ''#'' (dropWhile is_space line) then load_lines T out rest
      else if CHR '':'' \<notin> set line then load_lines T out rest
      else if strip (after_colon line) = []
      then load_lines T
             (dict_set (strip (before_colon line)) (nested_value T (takeWhile (is_prefix ''  '') rest)) out)
             (dropWhile (is_prefix ''  '') rest)
      else load_lines T
             (dict_set (strip (before_colon line)) (parse_scalar T (strip (after_colon line))) out) rest)"
  by pat_completeness auto
termination
  by (relation "measure (\<lambda>(T, out, ls). length ls)") (auto simp: le_imp_less_Suc length_dropWhile_le)

definition naive_load :: "py_text \<Rightarrow> string \<Rightarrow> payload" where
  "naive_load T s = load_lines T [] (split_lines False [] s)"
section \<open>The dumper\<close>

definition pad :: "nat \<Rightarrow> string" where
  "pad indent = replicate (2 * indent) (CHR '' '')"

fun is_container :: "json \<Rightarrow> bool" where
  "is_container (JObj kvs) = (kvs \<noteq> [])"
| "is_container (JList xs) = (xs \<noteq> [])"
| "is_container _ = False"

text \<open>One item of a list: a dict spreads over lines of its own, the first with the dash.\<close>

fun dump_dict_item :: "py_text \<Rightarrow> string \<Rightarrow> bool \<Rightarrow> payload \<Rightarrow> string list" where
  "dump_dict_item T p first [] = []"
| "dump_dict_item T p first ((k, v) # kvs) =
     (p @ (if first then ''- '' else ''  '') @ k @ '': '' @ dump_scalar T v) # dump_dict_item T p False kvs"

fun dump_item :: "py_text \<Rightarrow> string \<Rightarrow> json \<Rightarrow> string list" where
  "dump_item T p (JObj kvs) = dump_dict_item T p True kvs"
| "dump_item T p v = [p @ ''- '' @ dump_scalar T v]"

lemma size_value: "(k, v) \<in> set kvs \<Longrightarrow> size v < Suc (size_list (size_prod (\<lambda>_. 0) size) kvs)"
  by (induction kvs) auto

function naive_dump :: "py_text \<Rightarrow> nat \<Rightarrow> json \<Rightarrow> string" where
  "naive_dump T indent (JObj kvs) =
     join_strings newline (concat (map (\<lambda>(k, v).
       if is_container v then [pad indent @ k @ '':'', naive_dump T (Suc indent) v]
       else [pad indent @ k @ '': '' @ dump_scalar T v]) kvs))"
| "naive_dump T indent (JList xs) = join_strings newline (concat (map (dump_item T (pad indent)) xs))"
| "naive_dump T indent JNull = pad indent @ dump_scalar T JNull"
| "naive_dump T indent (JBool b) = pad indent @ dump_scalar T (JBool b)"
| "naive_dump T indent (JInt i) = pad indent @ dump_scalar T (JInt i)"
| "naive_dump T indent (JReal r) = pad indent @ dump_scalar T (JReal r)"
| "naive_dump T indent (JStr s) = pad indent @ dump_scalar T (JStr s)"
  by pat_completeness auto
termination
  by (relation "measure (\<lambda>(T, n, v). size v)") (auto dest!: size_value)

section \<open>Files\<close>

definition delim :: string where
  "delim = ''---''"

definition parse_frontmatter :: "py_text \<Rightarrow> string \<Rightarrow> payload \<times> string" where
  "parse_frontmatter T s =
     (if \<not> is_prefix delim s then ([], s)
      else case split_lines True [] s of
             [] \<Rightarrow> ([], s)
           | first # ls \<Rightarrow>
               if strip first \<noteq> delim then ([], s)
               else (case dropWhile (\<lambda>l. strip l \<noteq> delim) ls of
                       [] \<Rightarrow> ([], s)
                     | closing # body_lines \<Rightarrow>
                         (let body = concat body_lines;
                              body = (if is_prefix newline body then tl body else body)
                          in (naive_load T (concat (takeWhile (\<lambda>l. strip l \<noteq> delim) ls)), body))))"

definition end_line :: "string \<Rightarrow> string" where
  "end_line s = (if s \<noteq> [] \<and> last s = CHR 0x0A then s else s @ newline)"

definition dump_frontmatter :: "py_text \<Rightarrow> payload \<Rightarrow> string \<Rightarrow> string" where
  "dump_frontmatter T fm body =
     delim @ newline @ end_line (naive_dump T 0 (JObj fm)) @ delim @ newline @ end_line body"

section \<open>Integers survive\<close>

lemma digit_char_simps [simp]:
  "d < 10 \<Longrightarrow> is_digit (digit_char d)" "d < 10 \<Longrightarrow> digit_val (digit_char d) = d"
  by (simp_all add: digit_char_def digit_val_def is_digit_def of_char_of take_bit_eq_mod)

lemma read_digits_append:
  "list_all is_digit xs \<Longrightarrow> read_digits n (xs @ ys) = read_digits (foldl (\<lambda>n c. n * 10 + digit_val c) n xs) ys"
  by (induction xs arbitrary: n) auto

lemma show_nat_digits: "list_all is_digit (show_nat n) \<and> show_nat n \<noteq> []"
  by (induction n rule: show_nat.induct) (simp add: show_nat.simps)

lemma show_nat_value: "foldl (\<lambda>n c. n * 10 + digit_val c) m (show_nat n) = m * 10 ^ length (show_nat n) + n"
proof (induction n arbitrary: m rule: show_nat.induct)
  case (1 n)
  show ?case
  proof (cases "n < 10")
    case True
    then show ?thesis
      by (simp add: show_nat.simps[of n])
  next
    case False
    then show ?thesis
      using 1[OF False, of m] by (simp add: show_nat.simps[of n] algebra_simps)
  qed
qed

lemma read_show_nat: "read_nat (show_nat n) = Some n"
proof -
  have "read_digits 0 (show_nat n) = Some n"
    using read_digits_append[of "show_nat n" 0 "[]"] show_nat_digits[of n] show_nat_value[of 0 n] by simp
  then show ?thesis
    using show_nat_digits[of n] by (cases "show_nat n") (auto simp: read_nat_def)
qed

lemma is_digit_not_space: "is_digit c \<Longrightarrow> \<not> is_space c"
  by (auto simp: is_digit_def is_space_def)

lemma strip_no_space: "list_all (\<lambda>c. \<not> is_space c) s \<Longrightarrow> strip s = s"
proof -
  assume "list_all (\<lambda>c. \<not> is_space c) s"
  then have "dropWhile is_space s = s" "dropWhile is_space (rev s) = rev s"
    by (auto simp: list_all_iff dropWhile_eq_self_iff hd_rev)
  then show ?thesis
    by (simp add: strip_def)
qed

lemma show_int_not_space: "list_all (\<lambda>c. \<not> is_space c) (show_int i)"
  using show_nat_digits is_digit_not_space by (auto simp: show_int_def list_all_iff is_space_def)

lemma read_show_int: "read_int (show_int i) = Some i"
proof -
  have hd: "hd (show_nat n) \<noteq> CHR ''-''" "hd (show_nat n) \<noteq> CHR ''+''" "show_nat n \<noteq> []" for n
    using show_nat_digits[of n] by (cases "show_nat n"; auto simp: is_digit_def)+
  show ?thesis
  proof (cases "i < 0")
    case True
    then show ?thesis
      unfolding read_int_def strip_no_space[OF show_int_not_space] by (simp add: show_int_def read_show_nat)
  next
    case False
    obtain c cs where c: "show_nat (nat i) = c # cs"
      using hd(3)[of "nat i"] by (cases "show_nat (nat i)") auto
    then have "c \<noteq> CHR ''-''" "c \<noteq> CHR ''+''" "read_nat (c # cs) = Some (nat i)"
      using hd(1,2)[of "nat i"] read_show_nat[of "nat i"] by simp_all
    then show ?thesis
      unfolding read_int_def strip_no_space[OF show_int_not_space] using False c by (simp add: show_int_def)
  qed
qed

section \<open>Lines survive\<close>

fun no_breaks :: "string \<Rightarrow> bool" where
  "no_breaks [] = True"
| "no_breaks (c # s) = (break_len (c # s) = 0 \<and> no_breaks s)"

text \<open>A byte below 128 does not extend what stands before it into a boundary.\<close>

lemma break_len_append:
  assumes "of_char c < (128 :: nat)" "xs \<noteq> []" "break_len xs = 0"
  shows "break_len (xs @ c # ys) = 0"
proof -
  have c: "c \<noteq> CHR 0x85" "c \<noteq> CHR 0x80" "c \<noteq> CHR 0xA8" "c \<noteq> CHR 0xA9"
    using assms(1) by auto
  obtain a as where xs: "xs = a # as"
    using assms(2) by (cases xs) auto
  have a: "a \<notin> {CHR 0x0A, CHR 0x0D, CHR 0x0B, CHR 0x0C, CHR 0x1C, CHR 0x1D, CHR 0x1E}"
    using assms(3) by (auto simp: break_len_def xs split: if_splits)
  show ?thesis
  proof (cases as)
    case Nil
    then show ?thesis
      using a c by (simp add: xs break_len_def is_prefix_def)
  next
    case (Cons b bs)
    then show ?thesis
      using a c assms(3) by (cases bs) (auto simp: xs break_len_def is_prefix_def split: if_splits)
  qed
qed

lemma break_len_newline: "break_len (CHR 0x0A # s) = 1"
  by (simp add: break_len_def is_prefix_def)

definition printable :: "char \<Rightarrow> bool" where
  "printable c \<longleftrightarrow> of_char c \<in> {32..126 :: nat}"

lemma break_len_printable:
  assumes "printable c"
  shows "break_len (c # s) = 0"
proof -
  have "c \<noteq> CHR 0x0A" "c \<noteq> CHR 0x0D" "c \<noteq> CHR 0x0B" "c \<noteq> CHR 0x0C" "c \<noteq> CHR 0x1C" "c \<noteq> CHR 0x1D"
    "c \<noteq> CHR 0x1E" "c \<noteq> CHR 0xC2" "c \<noteq> CHR 0xE2"
    using assms by (auto simp: printable_def)
  then show ?thesis
    by (simp add: break_len_def is_prefix_def)
qed

lemma no_breaks_printable: "list_all printable p \<Longrightarrow> no_breaks s \<Longrightarrow> no_breaks (p @ s)"
  by (induction p) (simp_all add: break_len_printable)

lemma no_breaks_snoc: "no_breaks s \<Longrightarrow> of_char c < (128 :: nat) \<Longrightarrow> break_len [c] = 0 \<Longrightarrow> no_breaks (s @ [c])"
proof (induction s)
  case (Cons a s)
  then show ?case
    using break_len_append[of c "a # s" "[]"] by simp
qed simp

lemma split_lines_read:
  "no_breaks l \<Longrightarrow> split_lines keep cur (l @ newline @ s) =
     (cur @ l @ (if keep then newline else [])) # split_lines keep [] s"
proof (induction l arbitrary: cur)
  case Nil
  then show ?case
    by (simp add: split_lines.simps[of keep cur "CHR 0x0A # s"] newline_def break_len_newline)
next
  case (Cons c l)
  have "break_len ((c # l) @ newline @ s) = 0"
    using break_len_append[of "CHR 0x0A" "c # l" s] Cons.prems by (simp add: newline_def)
  then show ?case
    using Cons.IH[of "cur @ [c]"] Cons.prems
    by (simp add: split_lines.simps[of keep cur "c # l @ CHR 0x0A # s"] newline_def)
qed

lemma split_lines_last:
  "no_breaks l \<Longrightarrow> cur @ l \<noteq> [] \<Longrightarrow> split_lines keep cur l = [cur @ l]"
proof (induction l arbitrary: cur)
  case (Cons c l)
  then show ?case
    using Cons.IH[of "cur @ [c]"] by (simp add: split_lines.simps[of keep cur "c # l"])
qed (simp add: split_lines.simps)

lemma split_lines_all:
  "list_all no_breaks ls \<Longrightarrow> split_lines keep [] (concat (map (\<lambda>l. l @ newline) ls) @ s) =
     map (\<lambda>l. l @ (if keep then newline else [])) ls @ split_lines keep [] s"
proof (induction ls)
  case (Cons l ls)
  then show ?case
    using split_lines_read[of l keep "[]" "concat (map (\<lambda>l. l @ newline) ls) @ s"] by simp
qed simp

lemma concat_split_lines: "concat (split_lines True cur s) = cur @ s"
proof (induction "True" cur s rule: split_lines.induct)
  case (1 cur s)
  then show ?case
    by (subst split_lines.simps) auto
qed

lemma join_newline: "ls \<noteq> [] \<Longrightarrow> join_strings newline ls @ newline = concat (map (\<lambda>l. l @ newline) ls)"
  by (induction ls rule: induct_list012) simp_all

lemma join_append:
  "xs \<noteq> [] \<Longrightarrow> ys \<noteq> [] \<Longrightarrow> join_strings sep (xs @ ys) = join_strings sep xs @ sep @ join_strings sep ys"
proof (induction sep xs rule: join_strings.induct)
  case (2 sep s)
  then show ?case
    by (cases ys) auto
qed auto

lemma join_flatten:
  "\<forall>ls\<in>set lss. ls \<noteq> [] \<Longrightarrow> join_strings sep (map (join_strings sep) lss) = join_strings sep (concat lss)"
proof (induction lss)
  case (Cons ls lss)
  show ?case
  proof (cases lss)
    case Nil
    then show ?thesis by simp
  next
    case (Cons m ms)
    then have "concat lss \<noteq> []" "map (join_strings sep) lss \<noteq> []"
      using Cons.prems by auto
    then show ?thesis
      using Cons.IH Cons.prems join_append[of ls "concat lss" sep]
        join_append[of "[join_strings sep ls]" "map (join_strings sep) lss" sep] by simp
  qed
qed simp

section \<open>Values that survive\<close>

definition has_special :: "string \<Rightarrow> bool" where
  "has_special s \<longleftrightarrow> (\<exists>c\<in>set special_chars. c \<in> set s)"

text \<open>
  A text is plain when it is written as it is and cannot be taken for anything else, and
  quotable when it is written in quotes and has none itself.
\<close>

definition plain_text :: "py_text \<Rightarrow> string \<Rightarrow> bool" where
  "plain_text T s \<longleftrightarrow>
     \<not> has_special s \<and> s \<noteq> [] \<and> strip s = s \<and>
     s \<notin> {''null'', ''None'', ''~'', ''true'', ''True'', ''false'', ''False''} \<and>
     (if CHR ''.'' \<in> set s then float_of T s = None else read_int s = None)"

definition text_ok :: "py_text \<Rightarrow> string \<Rightarrow> bool" where
  "text_ok T s \<longleftrightarrow> no_breaks s \<and> (if has_special s then CHR 0x22 \<notin> set s else plain_text T s)"

definition float_ok :: "py_text \<Rightarrow> real \<Rightarrow> bool" where
  "float_ok T r \<longleftrightarrow>
     CHR ''.'' \<in> set (float_str T r) \<and> float_of T (float_str T r) = Some r \<and>
     list_all (\<lambda>c. c \<in> set ''0123456789.+-e'') (float_str T r)"

fun scalar_ok :: "py_text \<Rightarrow> json \<Rightarrow> bool" where
  "scalar_ok T JNull = True"
| "scalar_ok T (JBool b) = True"
| "scalar_ok T (JInt i) = True"
| "scalar_ok T (JReal r) = float_ok T r"
| "scalar_ok T (JStr s) = text_ok T s"
| "scalar_ok T (JList xs) = (xs = [])"
| "scalar_ok T (JObj kvs) = False"

definition key_ok :: "string \<Rightarrow> bool" where
  "key_ok k \<longleftrightarrow> k \<noteq> [] \<and> list_all (\<lambda>c. is_letter c \<or> is_digit c \<or> c = CHR ''_'') k"

fun value_ok :: "py_text \<Rightarrow> json \<Rightarrow> bool" where
  "value_ok T (JList xs) = list_all (scalar_ok T) xs"
| "value_ok T (JObj kvs) = (kvs \<noteq> [] \<and> distinct (map fst kvs) \<and> (\<forall>(k, v)\<in>set kvs. key_ok k \<and> scalar_ok T v))"
| "value_ok T v = scalar_ok T v"

lemma strip_ends:
  "s \<noteq> [] \<Longrightarrow> \<not> is_space (hd s) \<Longrightarrow> \<not> is_space (last s) \<Longrightarrow> strip s = s"
proof -
  assume "s \<noteq> []" "\<not> is_space (hd s)" "\<not> is_space (last s)"
  then have "dropWhile is_space s = s" "dropWhile is_space (rev s) = rev s"
    by (simp_all add: dropWhile_eq_self_iff hd_rev)
  then show ?thesis
    by (simp add: strip_def)
qed

lemma strip_pad: "list_all is_space a \<Longrightarrow> list_all is_space b \<Longrightarrow> strip (a @ s @ b) = strip s"
proof -
  assume a: "list_all is_space a" and b: "list_all is_space b"
  have d: "dropWhile is_space (a @ x) = dropWhile is_space x" if "list_all is_space a" for a x
    using that by (induction a) auto
  show ?thesis
  proof (cases "dropWhile is_space s = []")
    case True
    then have "dropWhile is_space (s @ b) = []"
      using b by (auto simp: list_all_iff)
    then show ?thesis
      by (simp only: strip_def d[OF a] True rev.simps dropWhile.simps)
  next
    case False
    then have "dropWhile is_space (s @ b) = dropWhile is_space s @ b"
      by (metis dropWhile_append1 dropWhile_eq_Nil_conv)
    then show ?thesis
      using d[of "rev b" "rev (dropWhile is_space s)"] b by (simp add: strip_def d[OF a] list_all_iff)
  qed
qed

lemma replace_all_absent: "q \<notin> set s \<Longrightarrow> replace_all [q] new s = s"
proof (induction s)
  case (Cons c s)
  then show ?case
    by (subst replace_all.simps) (auto simp: is_prefix_def)
qed (subst replace_all.simps, simp)

lemma special_chars_set:
  "CHR 0x22 \<in> set special_chars" "CHR ''['' \<in> set special_chars" "CHR 0x27 \<in> set special_chars"
  "CHR '':'' \<in> set special_chars" "CHR ''#'' \<in> set special_chars"
  by (simp_all add: special_chars_def)

lemma not_special: "\<not> has_special s \<Longrightarrow> c \<in> set special_chars \<Longrightarrow> c \<notin> set s"
  by (auto simp: has_special_def)

lemma parse_quoted: "no_breaks s \<Longrightarrow> parse_scalar T (CHR 0x22 # s @ [CHR 0x22]) = JStr s"
  by (subst parse_scalar.simps) (simp add: surrounded_def inner_text_def)

lemma parse_plain:
  assumes "plain_text T s"
  shows "parse_scalar T s = JStr s"
proof -
  have "hd s \<noteq> c" if "c \<in> set special_chars" for c
    using not_special[OF _ that, of s] assms by (auto simp: plain_text_def)
  then have "\<not> surrounded (CHR ''['') (CHR '']'') s" "\<not> surrounded (CHR 0x22) (CHR 0x22) s"
    "\<not> surrounded (CHR 0x27) (CHR 0x27) s"
    using special_chars_set by (auto simp: surrounded_def)
  then show ?thesis
    using assms by (subst parse_scalar.simps) (auto simp: plain_text_def)
qed

lemma parse_text: "text_ok T s \<Longrightarrow> parse_scalar T (dump_text s) = JStr s"
  using parse_quoted[of s T] parse_plain[of T s] replace_all_absent[of "CHR 0x22" s]
  by (auto simp: text_ok_def dump_text_def has_special_def split: if_splits)

lemma parse_number:
  assumes "list_all (\<lambda>c. c \<in> set ''0123456789.+-e'') s" "s \<noteq> []"
  shows "parse_scalar T s =
    (if CHR ''.'' \<in> set s then (case float_of T s of Some r \<Rightarrow> JReal r | None \<Rightarrow> JStr s)
     else (case read_int s of Some i \<Rightarrow> JInt i | None \<Rightarrow> JStr s))"
proof -
  obtain c cs where s: "s = c # cs"
    using assms(2) by (cases s) auto
  have "c \<noteq> CHR ''['' \<and> c \<noteq> CHR 0x22 \<and> c \<noteq> CHR 0x27 \<and> c \<noteq> CHR ''n'' \<and> c \<noteq> CHR ''N'' \<and> c \<noteq> CHR ''~'' \<and>
        c \<noteq> CHR ''t'' \<and> c \<noteq> CHR ''T'' \<and> c \<noteq> CHR ''f'' \<and> c \<noteq> CHR ''F''"
    using assms(1) by (auto simp: s)
  then show ?thesis
    by (subst parse_scalar.simps) (simp add: s surrounded_def)
qed

lemma show_int_chars: "list_all (\<lambda>c. c \<in> set ''0123456789.+-e'') (show_int i)" and
  show_int_no_dot: "CHR ''.'' \<notin> set (show_int i)" and show_int_nonempty: "show_int i \<noteq> []"
proof -
  have d: "c \<in> set ''0123456789''" if "is_digit c" for c
  proof -
    have "of_char c \<in> (\<lambda>i. 48 + i) ` {0..<10 :: nat}"
      using that by (auto simp: is_digit_def image_iff intro!: bexI[of _ "of_char c - 48"])
    then have "of_char c \<in> set (map (\<lambda>i. 48 + i) [0..<10 :: nat])"
      by (simp only: set_map set_upt)
    then have "char_of (of_char c :: nat) \<in> set (map char_of (map (\<lambda>i. 48 + i) [0..<10 :: nat]))"
      by (simp only: set_map imageI)
    moreover have "map char_of (map (\<lambda>i. 48 + i) [0..<10 :: nat]) = ''0123456789''"
      by code_simp
    ultimately show ?thesis
      by (simp only: char_of_char)
  qed
  have n: "list_all is_digit (show_nat n)" "show_nat n \<noteq> []" for n
    using show_nat_digits by blast+
  have "c \<in> set ''0123456789''" if "c \<in> set (show_nat n)" for c n
    using n(1)[of n] that d by (auto simp: list_all_iff)
  then have c: "c \<in> set ''-0123456789''" if "c \<in> set (show_int i)" for c
    using that by (fastforce simp: show_int_def split: if_splits)
  then show "list_all (\<lambda>c. c \<in> set ''0123456789.+-e'') (show_int i)"
    by (fastforce simp: list_all_iff)
  show "CHR ''.'' \<notin> set (show_int i)"
    using c by fastforce
  show "show_int i \<noteq> []"
    using n(2) by (simp add: show_int_def)
qed

lemma parse_dump_scalar: "scalar_ok T v \<Longrightarrow> parse_scalar T (dump_scalar T v) = v"
proof (cases v)
  case JNull
  then show ?thesis by (subst parse_scalar.simps) (simp add: surrounded_def)
next
  case (JBool b)
  then show ?thesis by (subst parse_scalar.simps) (auto simp: surrounded_def)
next
  case (JInt i)
  then show ?thesis
    using parse_number[OF show_int_chars show_int_nonempty, of T i] show_int_no_dot[of i] by (simp add: read_show_int)
next
  case (JReal r)
  assume "scalar_ok T v"
  then have "float_ok T r" "float_str T r \<noteq> []"
    using JReal by (auto simp: float_ok_def)
  then show ?thesis
    using parse_number[of "float_str T r" T] JReal by (simp add: float_ok_def)
next
  case (JStr s)
  assume "scalar_ok T v"
  then show ?thesis
    using JStr parse_text[of T s] by simp
next
  case (JList xs)
  assume "scalar_ok T v"
  then have "xs = []"
    using JList by simp
  then show ?thesis
    using JList by (simp, subst parse_scalar.simps) (simp add: surrounded_def inner_text_def strip_def)
qed simp

lemma number_chars:
  assumes "list_all (\<lambda>c. c \<in> set ''0123456789.+-e'') s"
  shows "strip s = s" "no_breaks s"
proof -
  have "list_all (\<lambda>c. printable c \<and> \<not> is_space c) ''0123456789.+-e''"
    by code_simp
  then have "list_all printable s" "list_all (\<lambda>c. \<not> is_space c) s"
    using assms by (auto simp only: list_all_iff)
  then show "strip s = s" "no_breaks s"
    using no_breaks_printable[of s "[]"] strip_no_space by simp_all
qed

lemma dumped_scalar:
  assumes "scalar_ok T v"
  shows "strip (dump_scalar T v) = dump_scalar T v" "dump_scalar T v \<noteq> []" "no_breaks (dump_scalar T v)"
proof -
  have const: "strip ''null'' = ''null''" "strip ''true'' = ''true''" "strip ''false'' = ''false''" "strip ''[]'' = ''[]''"
    "no_breaks ''null''" "no_breaks ''true''" "no_breaks ''false''" "no_breaks ''[]''"
    by code_simp+
  have written: "strip (dump_text s) = dump_text s \<and> dump_text s \<noteq> [] \<and> no_breaks (dump_text s)" if h: "text_ok T s" for s
  proof (cases "has_special s")
    case True
    then have d: "dump_text s = CHR 0x22 # s @ [CHR 0x22]"
      using h replace_all_absent[of "CHR 0x22" s] by (simp add: dump_text_def has_special_def text_ok_def)
    have "strip (CHR 0x22 # s @ [CHR 0x22]) = CHR 0x22 # s @ [CHR 0x22]"
      by (rule strip_ends) (simp_all add: is_space_def)
    moreover have "no_breaks (s @ [CHR 0x22])"
      using h by (intro no_breaks_snoc) (simp_all add: text_ok_def break_len_def is_prefix_def)
    ultimately show ?thesis
      using break_len_printable[of "CHR 0x22" "s @ [CHR 0x22]"] by (simp add: d printable_def)
  next
    case False
    then show ?thesis
      using h by (auto simp: dump_text_def has_special_def text_ok_def plain_text_def)
  qed
  have "strip (dump_scalar T v) = dump_scalar T v \<and> dump_scalar T v \<noteq> [] \<and> no_breaks (dump_scalar T v)"
  proof (cases v)
    case (JInt i)
    then show ?thesis
      using number_chars[OF show_int_chars[of i]] show_int_nonempty[of i] by simp
  next
    case (JReal r)
    then have "CHR ''.'' \<in> set (float_str T r)" "list_all (\<lambda>c. c \<in> set ''0123456789.+-e'') (float_str T r)"
      using assms by (simp_all add: float_ok_def)
    then show ?thesis
      using number_chars[of "float_str T r"] JReal by (cases "float_str T r") simp_all
  qed (use assms const written in auto)
  then show "strip (dump_scalar T v) = dump_scalar T v" "dump_scalar T v \<noteq> []" "no_breaks (dump_scalar T v)"
    by simp_all
qed

section \<open>Keys\<close>

lemma key_char_facts:
  assumes "is_letter c \<or> is_digit c \<or> c = CHR ''_''"
  shows "printable c" "\<not> is_space c" "c \<noteq> CHR '':''" "c \<noteq> CHR ''#''" "c \<noteq> CHR ''-''"
  using assms by (auto simp: is_letter_def is_digit_def printable_def is_space_def)

lemma key_facts:
  assumes "key_ok k"
  shows "list_all printable k" "list_all (\<lambda>c. \<not> is_space c) k" "CHR '':'' \<notin> set k" "k \<noteq> []"
    "hd k \<noteq> CHR ''#''" "hd k \<noteq> CHR ''-''" "\<not> is_space (hd k)" "strip k = k"
proof -
  have c: "is_letter c \<or> is_digit c \<or> c = CHR ''_''" if "c \<in> set k" for c
    using assms that by (auto simp: key_ok_def list_all_iff)
  show k: "k \<noteq> []"
    using assms by (simp add: key_ok_def)
  show "list_all printable k" and s: "list_all (\<lambda>c. \<not> is_space c) k"
    using key_char_facts(1,2)[OF c] by (simp_all add: list_all_iff)
  show "CHR '':'' \<notin> set k"
    using key_char_facts(3)[OF c] by blast
  show "hd k \<noteq> CHR ''#''" "hd k \<noteq> CHR ''-''" "\<not> is_space (hd k)"
    using key_char_facts(2,4,5)[OF c[OF hd_in_set[OF k]]] by simp_all
  show "strip k = k"
    by (rule strip_no_space[OF s])
qed

lemma colon_split:
  assumes "CHR '':'' \<notin> set k"
  shows "before_colon (k @ CHR '':'' # s) = k" "after_colon (k @ CHR '':'' # s) = s"
proof -
  have "takeWhile (\<lambda>c. c \<noteq> CHR '':'') (k @ CHR '':'' # s) = k"
    "dropWhile (\<lambda>c. c \<noteq> CHR '':'') (k @ CHR '':'' # s) = CHR '':'' # s"
    using assms by (induction k) auto
  then show "before_colon (k @ CHR '':'' # s) = k" "after_colon (k @ CHR '':'' # s) = s"
    by (simp_all add: before_colon_def after_colon_def)
qed

lemma strip_spaced: "strip (CHR '' '' # s) = strip s"
  using strip_pad[of "'' ''" "[]" s] by (simp add: is_space_def)

text \<open>The two kinds of lines with a key, as the loader sees them.\<close>

lemma load_scalar_line:
  assumes "key_ok k" "strip d = d" "d \<noteq> []"
  shows "load_lines T out ((k @ '': '' @ d) # rest) = load_lines T (dict_set k (parse_scalar T d) out) rest"
proof -
  note k = key_facts[OF assms(1)]
  obtain c cs where kc: "k = c # cs" and c: "\<not> is_space c" "c \<noteq> CHR ''#''"
    using k(4,5,7) by (cases k) auto
  have "strip (k @ '': '' @ d) \<noteq> []"
    using c(1) by (auto simp: kc strip_def)
  moreover have "\<not> is_prefix ''#'' (dropWhile is_space (k @ '': '' @ d))"
    using c by (simp add: kc is_prefix_def)
  ultimately show ?thesis
    using colon_split[OF k(3), of "CHR '' '' # d"] assms(2,3) k(8) by (simp add: strip_spaced)
qed

lemma load_nested_line:
  assumes "key_ok k" "list_all (is_prefix ''  '') nested" "rest = [] \<or> \<not> is_prefix ''  '' (hd rest)"
  shows "load_lines T out ((k @ '':'') # nested @ rest) =
    load_lines T (dict_set k (nested_value T nested) out) rest"
proof -
  note k = key_facts[OF assms(1)]
  obtain c cs where kc: "k = c # cs" and c: "\<not> is_space c" "c \<noteq> CHR ''#''"
    using k(4,5,7) by (cases k) auto
  have "strip (k @ '':'') \<noteq> []"
    using c(1) by (auto simp: kc strip_def)
  moreover have "\<not> is_prefix ''#'' (dropWhile is_space (k @ '':''))"
    using c by (simp add: kc is_prefix_def)
  moreover have "takeWhile (is_prefix ''  '') (nested @ rest) = nested \<and> dropWhile (is_prefix ''  '') (nested @ rest) = rest"
    using assms(2,3) by (induction nested) (cases rest, auto)
  moreover have "strip [] = []"
    by (simp add: strip_def)
  ultimately show ?thesis
    using colon_split[OF k(3), of "[]"] k(8) by simp
qed

section \<open>Entries\<close>

fun nested_lines :: "py_text \<Rightarrow> json \<Rightarrow> string list" where
  "nested_lines T (JList xs) = map (\<lambda>x. ''  - '' @ dump_scalar T x) xs"
| "nested_lines T (JObj kvs) = map (\<lambda>(k, v). ''  '' @ k @ '': '' @ dump_scalar T v) kvs"
| "nested_lines T v = []"

definition entry_lines :: "py_text \<Rightarrow> string \<times> json \<Rightarrow> string list" where
  "entry_lines T e =
     (if is_container (snd e) then (fst e @ '':'') # nested_lines T (snd e)
      else [fst e @ '': '' @ dump_scalar T (snd e)])"

definition entry_ok :: "py_text \<Rightarrow> string \<times> json \<Rightarrow> bool" where
  "entry_ok T e \<longleftrightarrow> key_ok (fst e) \<and> value_ok T (snd e)"

lemma scalar_not_container: "scalar_ok T v \<Longrightarrow> \<not> is_container v"
  by (cases v) auto

lemma value_scalar: "value_ok T v \<Longrightarrow> \<not> is_container v \<Longrightarrow> scalar_ok T v"
  by (cases v) auto

lemma fold_dict_set:
  "distinct (map fst kvs) \<Longrightarrow> set (map fst kvs) \<inter> set (map fst d) = {} \<Longrightarrow>
   fold (\<lambda>(k, v). dict_set k v) kvs d = d @ kvs"
proof (induction kvs arbitrary: d)
  case (Cons kv kvs)
  obtain k v where kv: "kv = (k, v)"
    by fastforce
  have "k \<notin> set (map fst d)"
    using Cons.prems(2) by (simp add: kv)
  then have "dict_set k v d = d @ [(k, v)]"
    using dict_set_fresh[of d k v] by (simp add: map_of_eq_None_iff)
  then show ?case
    using Cons.IH[of "d @ [(k, v)]"] Cons.prems by (auto simp: kv)
qed simp

lemma dumped_last: "scalar_ok T v \<Longrightarrow> \<not> is_space (last (dump_scalar T v))"
proof -
  assume v: "scalar_ok T v"
  let ?d = "dump_scalar T v"
  have "dropWhile is_space (rev (dropWhile is_space ?d)) = rev ?d"
    using dumped_scalar(1)[OF v] by (simp add: strip_def rev_swap)
  then have "hd (rev ?d) = hd (dropWhile is_space (rev (dropWhile is_space ?d)))" "rev ?d \<noteq> []"
    using dumped_scalar(2)[OF v] by simp_all
  then have "\<not> is_space (hd (rev ?d))"
    by (metis hd_dropWhile \<open>dropWhile is_space (rev (dropWhile is_space ?d)) = rev ?d\<close>)
  then show "\<not> is_space (last ?d)"
    by (simp add: hd_rev dumped_scalar(2)[OF v])
qed

lemma strip_item: "scalar_ok T v \<Longrightarrow> strip (''  - '' @ dump_scalar T v) = ''- '' @ dump_scalar T v"
proof -
  assume v: "scalar_ok T v"
  have "strip (''  '' @ (''- '' @ dump_scalar T v) @ []) = strip (''- '' @ dump_scalar T v)"
    by (rule strip_pad) (simp_all add: is_space_def)
  also have "\<dots> = ''- '' @ dump_scalar T v"
    by (rule strip_ends) (use dumped_last[OF v] dumped_scalar(2)[OF v] in \<open>simp_all add: is_space_def\<close>)
  finally show ?thesis
    by simp
qed

lemma strip_entry:
  assumes "key_ok k" "scalar_ok T v"
  shows "strip (''  '' @ k @ '': '' @ dump_scalar T v) = k @ '': '' @ dump_scalar T v"
proof -
  have "strip (''  '' @ (k @ '': '' @ dump_scalar T v) @ []) = strip (k @ '': '' @ dump_scalar T v)"
    by (rule strip_pad) (simp_all add: is_space_def)
  also have "\<dots> = k @ '': '' @ dump_scalar T v"
    by (rule strip_ends)
       (use key_facts(4,7)[OF assms(1)] dumped_last[OF assms(2)] dumped_scalar(2)[OF assms(2)] in simp_all)
  finally show ?thesis
    by simp
qed

lemma nested_list_value:
  assumes "list_all (scalar_ok T) xs" "xs \<noteq> []"
  shows "nested_value T (nested_lines T (JList xs)) = JList xs"
proof -
  have "map strip (nested_lines T (JList xs)) = map (\<lambda>x. ''- '' @ dump_scalar T x) xs"
    using assms(1) strip_item by (simp add: list_all_iff)
  then have "nested_items T (nested_lines T (JList xs)) = map (\<lambda>x. parse_scalar T (dump_scalar T x)) xs"
    by (simp add: nested_items_def filter_map comp_def is_prefix_def)
  also have "\<dots> = xs"
    using assms(1) parse_dump_scalar by (intro map_idI) (simp add: list_all_iff)
  finally show ?thesis
    using assms(2) by (simp add: nested_value_def)
qed

lemma nested_dict_value:
  assumes "kvs \<noteq> []" "distinct (map fst kvs)" "\<forall>(k, v)\<in>set kvs. key_ok k \<and> scalar_ok T v"
  shows "nested_value T (nested_lines T (JObj kvs)) = JObj kvs"
proof -
  let ?line = "\<lambda>(k, v). k @ '': '' @ dump_scalar T v"
  have lines: "map strip (nested_lines T (JObj kvs)) = map ?line kvs"
    using assms(3) strip_entry by fastforce
  have no: "\<not> is_prefix ''- '' (?line e) \<and> CHR '':'' \<in> set (?line e)" if "e \<in> set kvs" for e
  proof -
    obtain k v where e: "e = (k, v)"
      by fastforce
    then have "key_ok k"
      using assms(3) that by blast
    then obtain c cs where "k = c # cs" "c \<noteq> CHR ''-''"
      using key_facts(4,6)[of k] by (cases k) auto
    then show ?thesis
      by (simp add: e is_prefix_def)
  qed
  then have items: "nested_items T (nested_lines T (JObj kvs)) = []"
    unfolding nested_items_def lines by (simp add: filter_map filter_empty_conv comp_def)
  have step: "(case e of (k, v) \<Rightarrow> dict_set k v) d =
      dict_set (strip (before_colon (?line e))) (parse_scalar T (strip (after_colon (?line e)))) d"
    if "e \<in> set kvs" for e d
  proof -
    obtain k v where e: "e = (k, v)"
      by fastforce
    then have kv: "key_ok k" "scalar_ok T v"
      using assms(3) that by blast+
    show ?thesis
      using colon_split[OF key_facts(3)[OF kv(1)], of "CHR '' '' # dump_scalar T v"] key_facts(8)[OF kv(1)]
        dumped_scalar(1)[OF kv(2)] parse_dump_scalar[OF kv(2)] by (simp add: e strip_spaced)
  qed
  have "nested_dict T (nested_lines T (JObj kvs)) =
      fold (\<lambda>e d. dict_set (strip (before_colon (?line e))) (parse_scalar T (strip (after_colon (?line e)))) d) kvs []"
    unfolding nested_dict_def lines using no by (simp add: fold_map comp_def filter_map)
  also have "\<dots> = fold (\<lambda>(k, v). dict_set k v) kvs []"
    by (rule fold_cong) (use step in auto)
  also have "\<dots> = kvs"
    using fold_dict_set[OF assms(2), of "[]"] by simp
  finally show ?thesis
    using items assms(1) by (simp add: nested_value_def)
qed

lemma nested_prefixed: "list_all (is_prefix ''  '') (nested_lines T v)"
  by (cases v) (auto simp: list_all_iff is_prefix_def)

lemma nested_container:
  assumes "value_ok T v" "is_container v"
  shows "nested_value T (nested_lines T v) = v"
  using assms nested_list_value nested_dict_value by (cases v) auto

lemma entry_lines_head: "\<exists>l ls. entry_lines T (k, v) = (k @ l) # ls"
  by (auto simp: entry_lines_def)

lemma load_entries:
  "\<forall>e\<in>set fm. entry_ok T e \<Longrightarrow>
   load_lines T out (concat (map (entry_lines T) fm)) = fold (\<lambda>(k, v). dict_set k v) fm out"
proof (induction fm arbitrary: out)
  case (Cons e fm)
  obtain k v where e: "e = (k, v)"
    by fastforce
  then have ok: "key_ok k" "value_ok T v"
    using Cons.prems by (auto simp: entry_ok_def)
  let ?rest = "concat (map (entry_lines T) fm)"
  have "load_lines T out (entry_lines T e @ ?rest) = load_lines T (dict_set k v out) ?rest"
  proof (cases "is_container v")
    case True
    have "?rest = [] \<or> \<not> is_prefix ''  '' (hd ?rest)"
    proof (cases fm)
      case (Cons f fs)
      obtain k' v' where f: "f = (k', v')"
        by fastforce
      obtain l ls where "entry_lines T f = (k' @ l) # ls"
        using entry_lines_head f by blast
      moreover have "key_ok k'"
        using Cons.prems Cons f by (auto simp: entry_ok_def)
      then have "k' \<noteq> []" "hd k' \<noteq> CHR '' ''"
        using key_facts(4,7) by (auto simp: is_space_def)
      ultimately show ?thesis
        using Cons by (cases k') (auto simp: is_prefix_def)
    qed simp
    then show ?thesis
      using load_nested_line[OF ok(1) nested_prefixed] nested_container[OF ok(2) True] True
      by (simp add: entry_lines_def e)
  next
    case False
    then show ?thesis
      using load_scalar_line[OF ok(1) dumped_scalar(1,2)] parse_dump_scalar value_scalar[OF ok(2)]
      by (simp add: entry_lines_def e)
  qed
  then show ?case
    using Cons.IH[of "dict_set k v out"] Cons.prems by (simp add: e)
qed simp

lemma pad_simps [simp]: "pad 0 = []" "pad (Suc 0) = ''  ''"
  by (simp_all add: pad_def numeral_2_eq_2)

lemma dump_nested:
  assumes "value_ok T v" "is_container v"
  shows "naive_dump T (Suc 0) v = join_strings newline (nested_lines T v)"
proof (cases v)
  case (JList xs)
  have "dump_item T (pad (Suc 0)) x = [''  - '' @ dump_scalar T x]" if "x \<in> set xs" for x
    using assms(1) JList that by (cases x) (auto simp: list_all_iff)
  then have "concat (map (dump_item T (pad (Suc 0))) xs) = map (\<lambda>x. ''  - '' @ dump_scalar T x) xs"
    by (induction xs) auto
  then show ?thesis
    by (simp add: JList)
next
  case (JObj kvs)
  have "(case e of (k, v) \<Rightarrow> if is_container v then [pad (Suc 0) @ k @ '':'', naive_dump T (Suc (Suc 0)) v]
       else [pad (Suc 0) @ k @ '': '' @ dump_scalar T v]) = [(\<lambda>(k, v). ''  '' @ k @ '': '' @ dump_scalar T v) e]"
    if "e \<in> set kvs" for e
    using assms(1) JObj that scalar_not_container by auto
  then have "concat (map (\<lambda>(k, v). if is_container v then [pad (Suc 0) @ k @ '':'', naive_dump T (Suc (Suc 0)) v]
       else [pad (Suc 0) @ k @ '': '' @ dump_scalar T v]) kvs) =
      map (\<lambda>(k, v). ''  '' @ k @ '': '' @ dump_scalar T v) kvs"
    by (induction kvs) auto
  then show ?thesis
    by (simp add: JObj)
qed (use assms in auto)

lemma dump_entries:
  assumes "\<forall>e\<in>set fm. entry_ok T e"
  shows "naive_dump T 0 (JObj fm) = join_strings newline (concat (map (entry_lines T) fm))"
proof -
  let ?parts = "\<lambda>e. if is_container (snd e) then [[fst e @ '':''], nested_lines T (snd e)]
                   else [[fst e @ '': '' @ dump_scalar T (snd e)]]"
  have nested: "nested_lines T v \<noteq> []" if "is_container v" for v
    using that by (cases v) auto
  have "(case e of (k, v) \<Rightarrow> if is_container v then [pad 0 @ k @ '':'', naive_dump T (Suc 0) v]
       else [pad 0 @ k @ '': '' @ dump_scalar T v]) = map (join_strings newline) (?parts e)" if "e \<in> set fm" for e
    using assms that dump_nested[of T "snd e"] by (auto simp: entry_ok_def case_prod_beta)
  then have "naive_dump T 0 (JObj fm) =
      join_strings newline (concat (map (\<lambda>e. map (join_strings newline) (?parts e)) fm))"
    by (simp cong: map_cong)
  also have "\<dots> = join_strings newline (map (join_strings newline) (concat (map ?parts fm)))"
    by (simp add: map_concat comp_def)
  also have "\<dots> = join_strings newline (concat (concat (map ?parts fm)))"
    using nested nested[THEN not_sym] by (intro join_flatten) auto
  also have "concat (concat (map ?parts fm)) = concat (map (entry_lines T) fm)"
    by (induction fm) (auto simp: entry_lines_def)
  finally show ?thesis .
qed

lemma entry_lines_ok:
  assumes "entry_ok T e" "l \<in> set (entry_lines T e)"
  shows "no_breaks l" "strip (l @ newline) \<noteq> delim"
proof -
  obtain k v where e: "e = (k, v)"
    by fastforce
  then have ok: "key_ok k" "value_ok T v"
    using assms(1) by (auto simp: entry_ok_def)
  have p: "list_all printable '': ''" "list_all printable '':''" "list_all printable ''  ''" "list_all printable ''  - ''"
    by code_simp+
  have b: "no_breaks (k' @ '': '' @ dump_scalar T v')" if "key_ok k'" "scalar_ok T v'" for k' v'
    using no_breaks_printable[OF key_facts(1)[OF that(1)] no_breaks_printable[OF p(1) dumped_scalar(3)[OF that(2)]]] by simp
  have nl: "strip (x @ newline) = strip x" for x
    using strip_pad[of "[]" newline x] by (simp add: newline_def is_space_def)
  have d: "k' @ s \<noteq> delim" if "key_ok k'" for k' s
    using key_facts(4,6)[OF that] by (cases k') (auto simp: delim_def)
  have top: "strip (k' @ s) \<noteq> delim" if kk: "key_ok k'" for k' s
  proof
    assume h: "strip (k' @ s) = delim"
    obtain c cs where c: "k' = c # cs" "\<not> is_space c" "c \<noteq> CHR ''-''"
      using key_facts(4,6,7)[OF kk] by (cases k') auto
    have "strip (k' @ s) = c # (rev (dropWhile is_space (rev (cs @ s))))"
      using c by (auto simp: strip_def dropWhile_append)
    then show False
      using h c(3) by (simp add: delim_def)
  qed
  consider (key) s where "l = k @ s" "no_breaks l"
    | (item) x where "l = ''  - '' @ dump_scalar T x" "scalar_ok T x"
    | (field) k' v' where "l = ''  '' @ k' @ '': '' @ dump_scalar T v'" "key_ok k'" "scalar_ok T v'"
  proof (cases "is_container v")
    case False
    then have "l = k @ '': '' @ dump_scalar T v"
      using assms(2) by (simp add: entry_lines_def e)
    then show thesis
      using key[of "'': '' @ dump_scalar T v"] b[OF ok(1) value_scalar[OF ok(2) False]] by simp
  next
    case True
    then consider "l = k @ '':''" | "l \<in> set (nested_lines T v)"
      using assms(2) by (auto simp: entry_lines_def e)
    then show thesis
    proof cases
      case 1
      then show thesis
        using key[of "'':''"] no_breaks_printable[OF key_facts(1)[OF ok(1)], of "'':''"]
          no_breaks_printable[OF p(2), of "[]"] by simp
    next
      case 2
      then show thesis
        using ok(2) item field True by (cases v) (auto simp: list_all_iff)
    qed
  qed
  then have "no_breaks l \<and> strip (l @ newline) \<noteq> delim"
  proof cases
    case key
    then show ?thesis
      using top[OF ok(1)] nl by simp
  next
    case item
    then show ?thesis
      using no_breaks_printable[OF p(4) dumped_scalar(3)[OF item(2)]] strip_item[OF item(2)] nl[of l]
      by (simp add: delim_def)
  next
    case field
    then show ?thesis
      using no_breaks_printable[OF p(3) b[OF field(2,3)]] strip_entry[OF field(2,3)] d[OF field(2)] nl[of l]
      by simp
  qed
  then show "no_breaks l" "strip (l @ newline) \<noteq> delim"
    by simp_all
qed

section \<open>Properties\<close>

lemma no_breaks_newline: "no_breaks l \<Longrightarrow> CHR 0x0A \<notin> set l"
  by (induction l) (auto simp: break_len_newline)

lemma join_end:
  "ls \<noteq> [] \<Longrightarrow> \<forall>l\<in>set ls. l \<noteq> [] \<and> no_breaks l \<Longrightarrow> end_line (join_strings newline ls) = join_strings newline ls @ newline"
proof -
  assume "ls \<noteq> []" "\<forall>l\<in>set ls. l \<noteq> [] \<and> no_breaks l"
  then have "join_strings newline ls \<noteq> [] \<and> last (join_strings newline ls) \<noteq> CHR 0x0A"
  proof (induction ls rule: induct_list012)
    case (2 l)
    then have "last l \<in> set l" "CHR 0x0A \<notin> set l"
      using no_breaks_newline[of l] by simp_all
    then have "last l \<noteq> CHR 0x0A"
      by metis
    then show ?case
      using 2 by simp
  qed auto
  then show ?thesis
    by (simp add: end_line_def)
qed

text \<open>A leading blank line of the body is not kept; a missing final newline is added.\<close>

definition reread_body :: "string \<Rightarrow> string" where
  "reread_body body = (if is_prefix newline (end_line body) then tl (end_line body) else end_line body)"

text \<open>The lines between the delimiters; an empty frontmatter has one empty line.\<close>

definition file_lines :: "py_text \<Rightarrow> payload \<Rightarrow> string list" where
  "file_lines T fm = (if fm = [] then [[]] else concat (map (entry_lines T) fm))"

lemma file_lines_ok:
  assumes "\<forall>e\<in>set fm. entry_ok T e" "l \<in> set (file_lines T fm)"
  shows "no_breaks l" "strip (l @ newline) \<noteq> delim" "fm \<noteq> [] \<Longrightarrow> l \<noteq> []"
proof -
  have "no_breaks l \<and> strip (l @ newline) \<noteq> delim \<and> (fm \<noteq> [] \<longrightarrow> l \<noteq> [])"
  proof (cases "fm = []")
    case True
    have "strip newline \<noteq> delim"
      by code_simp
    then show ?thesis
      using assms(2) True by (simp add: file_lines_def)
  next
    case False
    then have "l \<in> (\<Union>e\<in>set fm. set (entry_lines T e))"
      using assms(2) by (simp add: file_lines_def)
    then obtain e where e: "e \<in> set fm" "l \<in> set (entry_lines T e)"
      by blast
    moreover have "l \<noteq> []"
      using e key_facts(4) assms(1) by (cases "snd e") (auto simp: entry_lines_def entry_ok_def split: if_splits)
    ultimately show ?thesis
      using entry_lines_ok assms(1) by blast
  qed
  then show "no_breaks l" "strip (l @ newline) \<noteq> delim" "fm \<noteq> [] \<Longrightarrow> l \<noteq> []"
    by simp_all
qed

lemma dump_file_lines:
  assumes "\<forall>e\<in>set fm. entry_ok T e"
  shows "end_line (naive_dump T 0 (JObj fm)) = concat (map (\<lambda>l. l @ newline) (file_lines T fm))"
proof (cases "fm = []")
  case True
  then show ?thesis
    by (simp add: end_line_def file_lines_def)
next
  case False
  then have ne: "file_lines T fm \<noteq> []"
    by (cases fm) (auto simp: entry_lines_def file_lines_def)
  have "end_line (join_strings newline (file_lines T fm)) = join_strings newline (file_lines T fm) @ newline"
    using file_lines_ok[OF assms] False by (intro join_end[OF ne]) blast
  moreover have "naive_dump T 0 (JObj fm) = join_strings newline (file_lines T fm)"
    using dump_entries[OF assms] False by (simp only: file_lines_def if_False)
  ultimately show ?thesis
    by (simp only: join_newline[OF ne])
qed

lemma load_file_lines:
  assumes "wf_dict fm" "\<forall>e\<in>set fm. entry_ok T e"
  shows "naive_load T (concat (map (\<lambda>l. l @ newline) (file_lines T fm))) = fm"
proof -
  have "list_all no_breaks (file_lines T fm)"
    using file_lines_ok(1)[OF assms(2)] by (simp add: list_all_iff)
  then have split: "split_lines False [] (concat (map (\<lambda>l. l @ newline) (file_lines T fm))) = file_lines T fm"
    using split_lines_all[of "file_lines T fm" False "[]"] by (simp add: split_lines.simps[of False "[]" "[]"])
  show ?thesis
  proof (cases "fm = []")
    case True
    then show ?thesis
      unfolding naive_load_def split by (simp add: file_lines_def strip_def)
  next
    case False
    then have "naive_load T (concat (map (\<lambda>l. l @ newline) (file_lines T fm))) = fold (\<lambda>(k, v). dict_set k v) fm []"
      unfolding naive_load_def split using load_entries[OF assms(2), of "[]"] by (simp add: file_lines_def)
    then show ?thesis
      using fold_dict_set[of fm "[]"] assms(1) by (simp add: wf_dict_def)
  qed
qed

lemma parse_file_lines:
  assumes "\<And>l. l \<in> set ls \<Longrightarrow> no_breaks l" "\<And>l. l \<in> set ls \<Longrightarrow> strip (l @ newline) \<noteq> delim"
  shows "parse_frontmatter T (concat (map (\<lambda>l. l @ newline) (delim # ls @ [delim])) @ end_line body) =
    (naive_load T (concat (map (\<lambda>l. l @ newline) ls)), reread_body body)"
proof -
  let ?keep = "\<lambda>ls. map (\<lambda>l. l @ newline) ls"
  let ?file = "concat (?keep (delim # ls @ [delim])) @ end_line body"
  have "no_breaks delim"
    by code_simp
  then have split: "split_lines True [] ?file = ?keep (delim # ls @ [delim]) @ split_lines True [] (end_line body)"
    using split_lines_all[of "delim # ls @ [delim]" True "end_line body"] assms(1) by (simp add: list_all_iff)
  have is_delim: "strip (delim @ newline) = delim"
    by code_simp
  let ?rest = "?keep ls @ (delim @ newline) # split_lines True [] (end_line body)"
  have "\<forall>l\<in>set (?keep ls). strip l \<noteq> delim"
    using assms(2) by auto
  then have "takeWhile (\<lambda>l. strip l \<noteq> delim) ?rest = ?keep ls"
    "dropWhile (\<lambda>l. strip l \<noteq> delim) ?rest = (delim @ newline) # split_lines True [] (end_line body)"
    using is_delim by (simp_all add: takeWhile_append dropWhile_append)
  moreover have "is_prefix delim ?file"
    by (simp add: is_prefix_def)
  ultimately show ?thesis
    using split is_delim concat_split_lines[of "[]" "end_line body"]
    by (simp add: parse_frontmatter_def reread_body_def Let_def)
qed

lemma parse_dumped:
  assumes "wf_dict fm" "\<forall>e\<in>set fm. entry_ok T e"
  shows "parse_frontmatter T (dump_frontmatter T fm body) = (fm, reread_body body)"
proof -
  have "dump_frontmatter T fm body =
      concat (map (\<lambda>l. l @ newline) (delim # file_lines T fm @ [delim])) @ end_line body"
    by (simp add: dump_frontmatter_def dump_file_lines[OF assms(2)] del: naive_dump.simps)
  then show ?thesis
    using parse_file_lines[of "file_lines T fm" T body] file_lines_ok[OF assms(2)] load_file_lines[OF assms] by simp
qed


text \<open>A node's frontmatter as the vault writes it, without floats.\<close>

definition demo_py_text :: py_text where
  "demo_py_text = \<lparr>float_str = (\<lambda>_. ''0.5''), float_of = (\<lambda>s. if s = ''0.5'' then Some (1 / 2) else None),
     dict_str = (\<lambda>_. ''{}'')\<rparr>"

definition demo_frontmatter :: payload where
  "demo_frontmatter =
     [(''slug'', JStr ''alpha''), (''title'', JStr ''a: b''), (''created'', JStr ''2024-05-01T10:00:00+00:00''),
      (''tags'', JList [JStr ''x1'', JStr ''y z'']), (''salience'', JReal (1 / 2)), (''aliases'', JList []),
      (''reinforcement_count'', JInt (- 12)), (''source'', JObj [(''kind'', JStr ''url''), (''seen'', JBool True)])]"


end
