(* ===== verification/Vault_Codec.thy ===== *)
theory Vault_Codec imports Markdown_Backend Frontmatter begin

text \<open>
  The markdown backend over the built-in frontmatter codec: \<open>naive_reload\<close> instantiates its
  parameter \<open>reload\<close> with \<open>parse_frontmatter\<close> after \<open>dump_frontmatter\<close>. A node without links,
  source, metadata and extra fields whose texts the codec keeps is read back from the text
  of its file; links are written, but nothing read through the codec has any: a list of
  dicts reloads as a list of texts.
\<close>

definition naive_reload :: "py_text \<Rightarrow> payload \<Rightarrow> payload" where
  "naive_reload T fm = fst (parse_frontmatter T (dump_frontmatter T fm []))"

lemma stored_is_reread: "stored_body b = reread_body b"
proof -
  have "end_line b \<noteq> []"
    by (auto simp: end_line_def newline_def)
  then obtain c cs where "end_line b = c # cs"
    by (cases "end_line b") auto
  then show ?thesis
    unfolding stored_body_def reread_body_def Let_def end_line_def[symmetric]
    by (simp add: is_prefix_def newline_def)
qed

text \<open>The frontmatter of a plain node is within what the codec keeps.\<close>

definition node_plain :: "py_text \<Rightarrow> wiki_node \<Rightarrow> bool" where
  "node_plain T n \<longleftrightarrow>
     list_all (text_ok T) ([nd_id n, nd_slug n, nd_kind n, nd_title n, nd_agent n, nd_type n] @ nd_tags n) \<and>
     float_ok T (nd_salience n) \<and> float_ok T (nd_confidence n) \<and>
     nd_links n = [] \<and> nd_source n = None \<and> nd_metadata n = [] \<and> nd_extra n = []"

lemma frontmatter_keys_ok:
  "list_all key_ok [''id'', ''slug'', ''kind'', ''title'', ''tags'', ''created'', ''updated'', ''happened_at'',
     ''agent_id'', ''memory_type'', ''salience'', ''confidence'', ''reinforcement_count'', ''last_reinforced_at'']"
  by code_simp

lemma plain_frontmatter_ok:
  assumes "node_plain T n"
  shows "wf_dict (to_frontmatter n)" "\<forall>e\<in>set (to_frontmatter n). entry_ok T e"
proof -
  show "wf_dict (to_frontmatter n)"
    using assms by (auto simp: to_frontmatter_def wf_dict_def opt_entry_def node_plain_def split: option.splits)
  show "\<forall>e\<in>set (to_frontmatter n). entry_ok T e"
    using assms frontmatter_keys_ok
    by (auto simp: to_frontmatter_def opt_entry_def node_plain_def entry_ok_def list_all_iff split: option.splits)
qed

lemma plain_codec_keeps: "node_plain T n \<Longrightarrow> codec_keeps (naive_reload T) n"
  using parse_dumped[OF plain_frontmatter_ok] by (simp add: codec_keeps_def naive_reload_def)

text \<open>
  The file the vault writes for a plain node, dumped to text and parsed again by the
  built-in codec, reads as the node with its body in stored form.
\<close>

theorem plain_node_reads_back:
  assumes "node_plain T n" and "nd_id n \<noteq> []" and "nd_slug n \<noteq> []"
  shows "read_node p (parse_frontmatter T (dump_frontmatter T (to_frontmatter n) body)) =
    Inr (Some (md_echo p (stored_body body) n))"
  using parse_dumped[OF plain_frontmatter_ok[OF assms(1)], of body] read_written[OF assms(2,3)]
  by (simp add: stored_is_reread)

theorem plain_node_reads_back_witness:
  "read_node ''notes/s.md'' (parse_frontmatter demo_py_text
      (dump_frontmatter demo_py_text (to_frontmatter (demo_node ''a: b'' ''x''\<lparr>nd_confidence := 1 / 2\<rparr>)) ''x'')) =
    Inr (Some (md_echo ''notes/s.md'' (stored_body ''x'') (demo_node ''a: b'' ''x''\<lparr>nd_confidence := 1 / 2\<rparr>)))"
proof -
  have "text_ok demo_py_text ''i''" "text_ok demo_py_text ''s''" "text_ok demo_py_text ''note''"
    "text_ok demo_py_text ''a: b''" "text_ok demo_py_text ''user''" "text_ok demo_py_text ''observation''"
    by code_simp+
  moreover have "float_ok demo_py_text (1 / 2)"
    by (simp add: float_ok_def demo_py_text_def)
  ultimately have "node_plain demo_py_text (demo_node ''a: b'' ''x''\<lparr>nd_confidence := 1 / 2\<rparr>)"
    by (simp add: node_plain_def demo_node_def)
  then show ?thesis
    by (rule plain_node_reads_back) (simp_all add: demo_node_def)
qed

section \<open>What the loader can produce\<close>

text \<open>The loader makes no dict but a field's value itself: no list it returns holds one.\<close>

definition not_dict :: "json \<Rightarrow> bool" where
  "not_dict v = (case v of JObj _ \<Rightarrow> False | _ \<Rightarrow> True)"

definition flat_value :: "json \<Rightarrow> bool" where
  "flat_value v = (case v of JList xs \<Rightarrow> list_all not_dict xs | _ \<Rightarrow> True)"

lemma parse_scalar_not_dict: "not_dict (parse_scalar T s)"
  by (subst parse_scalar.simps) (simp add: not_dict_def split: option.splits)

lemma parse_scalar_flat: "flat_value (parse_scalar T s)"
  by (subst parse_scalar.simps) (simp add: flat_value_def list_all_iff parse_scalar_not_dict split: option.splits)

lemma nested_value_flat: "flat_value (nested_value T ls)"
  by (simp add: nested_value_def flat_value_def nested_items_def list_all_iff parse_scalar_not_dict)

lemma load_lines_flat:
  "\<forall>v. v \<in> ran (dict_get out) \<longrightarrow> flat_value v \<Longrightarrow> v \<in> ran (dict_get (load_lines T out ls)) \<Longrightarrow> flat_value v"
proof (induction T out ls rule: load_lines.induct)
  case (2 T out line rest)
  have set: "\<forall>v. v \<in> ran (dict_get (dict_set k w out)) \<longrightarrow> flat_value v" if "flat_value w" for k w
    using 2(5) that by (auto simp: ran_def)
  show ?case
    using 2(1-4) 2(5,6) set[OF nested_value_flat] set[OF parse_scalar_flat] by (auto split: if_splits)
qed auto

lemma parsed_flat: "dict_get (fst (parse_frontmatter T s)) k = Some v \<Longrightarrow> flat_value v"
proof -
  assume "dict_get (fst (parse_frontmatter T s)) k = Some v"
  then have "\<exists>ls. v \<in> ran (dict_get (load_lines T [] ls))"
    by (auto simp: parse_frontmatter_def naive_load_def Let_def ran_def split: if_splits list.splits)
  then show ?thesis
    using load_lines_flat[of "[]"] by (auto simp: ran_def)
qed

lemma read_links_texts: "list_all not_dict js \<Longrightarrow> read_links slug js = Inr ls \<Longrightarrow> ls = []"
  by (cases js) (auto simp: not_dict_def split: json.splits)



text \<open>What becomes of a link: the first line of its dict is taken for a text, the others are dropped.\<close>

lemma links_reload_as_texts:
  "naive_load demo_py_text (naive_dump demo_py_text 0 (JObj [(''links'', JList [link_frontmatter demo_link])])) =
     [(''links'', JList [JStr ''slug: t''])]"
proof -
  have "naive_dump demo_py_text 0 (JObj [(''links'', JList [link_frontmatter demo_link])]) =
      ''links:'' @ newline @ ''  - slug: t'' @ newline @ ''    type: related'' @ newline @ ''    strength: 0.5''"
    by (simp add: link_frontmatter_def demo_link_def demo_py_text_def dump_text_def special_chars_def)
  moreover have "naive_load demo_py_text (''links:'' @ newline @ ''  - slug: t'' @ newline @ ''    type: related'' @ newline @
      ''    strength: 0.5'') = [(''links'', JList [JStr ''slug: t''])]"
    by code_simp
  ultimately show ?thesis
    by simp
qed

end
