(* ===== verification/Archival_Pager.thy ===== *)
theory Archival_Pager imports Core_Memory begin

text \<open>
  Paging between the scratch pad of an agent and the archive (\<open>memu/archival_pager.py\<close>), on
  top of \<open>get_block\<close>, \<open>update_block\<close> and \<open>append_block\<close>. The archive is a database outside the
  repository: \<open>insert\<close> stores a paragraph with its embedding and says whether it did, \<open>search\<close>
  returns rows of id, content and similarity, \<open>emb\<close> is the embedding client and
  \<open>sim_text\<close> prints a similarity with two decimals.

  Proved: with a working archive nothing is lost (the evicted paragraphs, then the kept ones,
  are the old paragraphs in order), and a paragraph the archive refuses is dropped all the
  same.
\<close>

definition eviction_threshold :: nat where
  "eviction_threshold = 3200"

definition eviction_batch_size :: nat where
  "eviction_batch_size = 3"

section \<open>Paragraphs\<close>

definition blank_line :: string where
  "blank_line = newline @ newline"

text \<open>\<open>s.split('\n\n')\<close>; \<open>cur\<close> is the piece read so far.\<close>

function split_blank :: "string \<Rightarrow> string \<Rightarrow> string list" where
  "split_blank cur s =
     (if s = [] then [cur]
      else if is_prefix blank_line s then cur # split_blank [] (drop 2 s)
      else split_blank (cur @ [hd s]) (tl s))"
  by auto
termination by (relation "measure (\<lambda>(cur, s). length s)") auto

declare split_blank.simps [simp del]

definition paragraphs :: "string \<Rightarrow> string list" where
  "paragraphs content = filter (\<lambda>p. p \<noteq> []) (map strip (split_blank [] content))"

section \<open>Eviction\<close>

type_synonym ('a, 'e) archive_insert = "string \<Rightarrow> string \<Rightarrow> 'e option \<Rightarrow> 'a \<Rightarrow> bool \<times> 'a"

fun archive_all ::
  "('a, 'e) archive_insert \<Rightarrow> (string \<Rightarrow> 'e option) \<Rightarrow> string \<Rightarrow> string list \<Rightarrow> 'a \<Rightarrow> nat \<times> 'a" where
  "archive_all ins emb agent_id [] a = (0, a)"
| "archive_all ins emb agent_id (p # ps) a =
     (case ins p agent_id (emb p) a of
        (ok, a') \<Rightarrow> (case archive_all ins emb agent_id ps a' of
                       (n, a'') \<Rightarrow> (if ok then Suc n else n, a'')))"

definition context_to_archival ::
  "'s kv \<Rightarrow> tokenizer \<Rightarrow> ('a, 'e) archive_insert \<Rightarrow> (string \<Rightarrow> 'e option) \<Rightarrow> string \<Rightarrow> 's \<Rightarrow> 'a \<Rightarrow>
   nat \<times> 's \<times> 'a" where
  "context_to_archival kv enc ins emb agent_id s a =
     (case get_block kv enc agent_id Working_Context s of
        (None, s1) \<Rightarrow> (0, s1, a)
      | (Some entry, s1) \<Rightarrow>
          if strip (be_content entry) = [] \<or> be_tokens entry \<le> eviction_threshold then (0, s1, a)
          else (let ps = paragraphs (be_content entry) in
            if length ps \<le> 1 then (0, s1, a)
            else (case archive_all ins emb agent_id (take eviction_batch_size ps) a of
                    (evicted, a1) \<Rightarrow>
                      (case update_block kv enc agent_id Working_Context
                              (join_strings blank_line (drop eviction_batch_size ps)) (be_revision entry) ''agent'' s1 of
                         (Inr _, s2) \<Rightarrow> (evicted, s2, a1)
                       | (Inl _, s2) \<Rightarrow> (0, s2, a1)))))"

section \<open>Paging back\<close>

record archival_row =
  ar_id :: string
  ar_content :: string
  ar_similarity :: real

text \<open>Texts are dropped from the end while the rest does not fit the budget left.\<close>

function trim_to_fit :: "(string list \<Rightarrow> bool) \<Rightarrow> string list \<Rightarrow> string list" where
  "trim_to_fit fits ts = (if ts \<noteq> [] \<and> \<not> fits ts then trim_to_fit fits (butlast ts) else ts)"
  by auto
termination by (relation "measure (\<lambda>(fits, ts). length ts)") auto

declare trim_to_fit.simps [simp del]

definition page_from_archival ::
  "'s kv \<Rightarrow> tokenizer \<Rightarrow> (real \<Rightarrow> string) \<Rightarrow> archival_row list \<Rightarrow> string \<Rightarrow> 's \<Rightarrow> archival_row list \<times> 's" where
  "page_from_archival kv enc sim_text rows agent_id s =
     (if rows = [] then ([], s)
      else (let paged = map (\<lambda>r. ''[archival|sim='' @ sim_text (ar_similarity r) @ ''] '' @ ar_content r) rows in
        case get_block kv enc agent_id Working_Context s of
          (entry, s1) \<Rightarrow>
            (let current = (case entry of Some e \<Rightarrow> be_tokens e | None \<Rightarrow> 0);
                 fits = (\<lambda>ts. current + count_tokens enc (join_strings blank_line ts) \<le> default_token_limit Working_Context);
                 ts = trim_to_fit fits paged
             in if ts = [] then ([], s1)
                else (case append_block kv enc agent_id Working_Context (join_strings blank_line ts)
                             (case entry of Some e \<Rightarrow> be_revision e | None \<Rightarrow> 0) ''agent'' newline s1 of
                        (Inr _, s2) \<Rightarrow> (take (length ts) rows, s2)
                      | (Inl _, s2) \<Rightarrow> ([], s2)))))"

lemma trim_to_fit_prefix: "\<exists>dropped. ts = trim_to_fit fits ts @ dropped"
proof (induction fits ts rule: trim_to_fit.induct)
  case (1 fits ts)
  show ?case
  proof (cases "ts \<noteq> [] \<and> \<not> fits ts")
    case True
    then obtain dropped where "butlast ts = trim_to_fit fits (butlast ts) @ dropped"
      using 1 by blast
    then have "ts = trim_to_fit fits (butlast ts) @ dropped @ [last ts]"
      using True by (metis append.assoc append_butlast_last_id)
    moreover have "trim_to_fit fits ts = trim_to_fit fits (butlast ts)"
      by (subst trim_to_fit.simps) (use True in simp)
    ultimately show ?thesis
      by metis
  next
    case False
    then have "trim_to_fit fits ts = ts"
      by (subst trim_to_fit.simps) auto
    then show ?thesis
      by simp
  qed
qed

lemma trim_to_fit_fits: "trim_to_fit fits ts = [] \<or> fits (trim_to_fit fits ts)"
proof (induction fits ts rule: trim_to_fit.induct)
  case (1 fits ts)
  then show ?case
    by (cases "ts \<noteq> [] \<and> \<not> fits ts"; subst (1 2) trim_to_fit.simps) auto
qed

section \<open>Splitting what was joined\<close>

text \<open>A text that does not contain a blank line, even where a newline follows it.\<close>

fun no_blank :: "string \<Rightarrow> bool" where
  "no_blank [] = True"
| "no_blank (c # s) = (\<not> is_prefix blank_line (c # s) \<and> no_blank s)"

lemma split_blank_read:
  "no_blank p \<Longrightarrow> p = [] \<or> last p \<noteq> CHR 0x0A \<Longrightarrow>
   split_blank cur (p @ blank_line @ s) = (cur @ p) # split_blank [] s"
proof (induction p arbitrary: cur)
  case Nil
  then show ?case
    by (subst split_blank.simps) (simp add: is_prefix_def blank_line_def newline_def)
next
  case (Cons c p)
  have "\<not> is_prefix blank_line ((c # p) @ blank_line @ s)"
    using Cons.prems by (cases p) (auto simp: is_prefix_def blank_line_def newline_def split: if_splits)
  then show ?case
    using Cons.IH[of "cur @ [c]"] Cons.prems
    by (subst split_blank.simps) (auto split: if_splits)
qed

lemma split_blank_last: "no_blank p \<Longrightarrow> split_blank cur p = [cur @ p]"
proof (induction p arbitrary: cur)
  case Nil
  show ?case
    by (subst split_blank.simps) simp
next
  case (Cons c p)
  then show ?case
    by (subst split_blank.simps) simp
qed

definition para_ok :: "string \<Rightarrow> bool" where
  "para_ok p \<longleftrightarrow> no_blank p \<and> p \<noteq> [] \<and> strip p = p"

lemma strip_last: "strip p = p \<Longrightarrow> p \<noteq> [] \<Longrightarrow> \<not> is_space (last p)"
proof -
  assume p: "strip p = p" "p \<noteq> []"
  then have d: "dropWhile is_space (rev (dropWhile is_space p)) = rev p"
    by (simp add: strip_def rev_swap)
  then have "\<not> is_space (hd (rev p))"
    by (metis hd_dropWhile p(2) rev_is_Nil_conv)
  then show "\<not> is_space (last p)"
    by (simp add: hd_rev p(2))
qed

lemma para_last: "para_ok p \<Longrightarrow> last p \<noteq> CHR 0x0A"
  using strip_last[of p] by (auto simp: para_ok_def is_space_def)

lemma paragraphs_join: "\<forall>p\<in>set ps. para_ok p \<Longrightarrow> paragraphs (join_strings blank_line ps) = ps"
proof -
  assume ok: "\<forall>p\<in>set ps. para_ok p"
  show ?thesis
  proof (cases "ps = []")
    case True
    then show ?thesis
      by (simp add: paragraphs_def split_blank.simps strip_def)
  next
    case False
    then have "split_blank [] (join_strings blank_line ps) = ps"
      using ok
    proof (induction ps rule: induct_list012)
      case (2 p)
      then show ?case
        by (simp add: split_blank_last para_ok_def)
    next
      case (3 p q ps)
      then show ?case
        using split_blank_read[of p "[]" "join_strings blank_line (q # ps)"] para_last[of p]
        by (simp add: para_ok_def)
    qed simp
    moreover have "map strip ps = ps" "filter (\<lambda>p. p \<noteq> []) ps = ps"
      using ok by (auto simp: para_ok_def intro!: map_idI filter_True)
    ultimately show ?thesis
      by (simp add: paragraphs_def)
  qed
qed

section \<open>Paragraphs of a text\<close>

lemma no_blank_part: "no_blank (a @ b @ c) \<Longrightarrow> no_blank b"
proof -
  have left: "no_blank (a @ b) \<Longrightarrow> no_blank b" for a b
    by (induction a) auto
  have right: "no_blank (b @ c) \<Longrightarrow> no_blank b" for b c
  proof (induction b)
    case (Cons x b)
    then show ?case
      by (cases b) (auto simp: is_prefix_def blank_line_def newline_def split: if_splits)
  qed simp
  show "no_blank (a @ b @ c) \<Longrightarrow> no_blank b"
    using left right by blast
qed

lemma strip_part: "\<exists>a c. s = a @ strip s @ c"
proof -
  let ?t = "dropWhile is_space s"
  have "s = takeWhile is_space s @ ?t"
    by simp
  also have "?t = rev (dropWhile is_space (rev ?t)) @ rev (takeWhile is_space (rev ?t))"
    by (metis rev_append rev_rev_ident takeWhile_dropWhile_id)
  finally show ?thesis
    unfolding strip_def by blast
qed

lemma strip_idem: "strip (strip s) = strip s"
proof (cases "strip s = []")
  case True
  moreover have "strip [] = []"
    by (simp add: strip_def)
  ultimately show ?thesis
    by simp
next
  case False
  let ?t = "dropWhile is_space s"
  have last: "\<not> is_space (last (strip s))"
    using False by (simp add: strip_def last_rev hd_dropWhile)
  have "hd (strip s) = hd ?t"
  proof -
    have t: "?t = strip s @ rev (takeWhile is_space (rev ?t))"
      unfolding strip_def by (metis rev_append rev_rev_ident takeWhile_dropWhile_id)
    show ?thesis
      using False by (subst t) simp
  qed
  moreover have "?t \<noteq> []"
    using False by (auto simp: strip_def dest: set_dropWhileD)
  then have "\<not> is_space (hd ?t)"
    by (rule hd_dropWhile)
  ultimately have "dropWhile is_space (strip s) = strip s" "dropWhile is_space (rev (strip s)) = rev (strip s)"
    using last False by (simp_all add: dropWhile_eq_self_iff hd_rev)
  then show ?thesis
    by (simp add: strip_def)
qed

lemma is_prefix_append: "is_prefix p s \<Longrightarrow> is_prefix p (s @ t)"
proof -
  assume p: "is_prefix p s"
  then have "length p \<le> length s"
    unfolding is_prefix_def by (metis length_take min.cobounded1 min.commute)
  then show ?thesis
    using p by (simp add: is_prefix_def)
qed

lemma split_blank_pieces:
  "(\<forall>i<length cur. \<not> is_prefix blank_line (drop i (cur @ s))) \<Longrightarrow> p \<in> set (split_blank cur s) \<Longrightarrow>
   \<forall>i<length p. \<not> is_prefix blank_line (drop i p)"
proof (induction cur s rule: split_blank.induct)
  case (1 cur s)
  have shorter: "\<forall>i<length cur. \<not> is_prefix blank_line (drop i cur)"
  proof (intro allI impI notI)
    fix i assume "i < length cur" "is_prefix blank_line (drop i cur)"
    then have "is_prefix blank_line (drop i (cur @ s))"
      by (simp add: is_prefix_append)
    then show False
      using 1(3) \<open>i < length cur\<close> by blast
  qed
  show ?case
  proof (cases "s = []")
    case True
    then show ?thesis
      using 1(3,4) by (simp add: split_blank.simps[of cur "[]"])
  next
    case False
    show ?thesis
    proof (cases "is_prefix blank_line s")
      case True
      then show ?thesis
        using 1(1)[OF False True] 1(4) shorter False by (auto simp: split_blank.simps[of cur s])
    next
      case False
      with \<open>s \<noteq> []\<close> have "\<forall>i<length (cur @ [hd s]). \<not> is_prefix blank_line (drop i ((cur @ [hd s]) @ tl s))"
        using 1(3) by (auto simp: less_Suc_eq)
      then show ?thesis
        using 1(2)[OF \<open>s \<noteq> []\<close> False] 1(4) \<open>s \<noteq> []\<close> False by (simp add: split_blank.simps[of cur s])
    qed
  qed
qed

lemma no_blank_iff: "no_blank p \<longleftrightarrow> (\<forall>i<length p. \<not> is_prefix blank_line (drop i p))"
proof (induction p)
  case (Cons c p)
  show ?case
    unfolding no_blank.simps Cons by (auto simp: less_Suc_eq_0_disj)
qed simp

lemma paragraphs_ok: "p \<in> set (paragraphs c) \<Longrightarrow> para_ok p"
proof -
  assume "p \<in> set (paragraphs c)"
  then obtain q where q: "q \<in> set (split_blank [] c)" "p = strip q" "p \<noteq> []"
    by (auto simp: paragraphs_def)
  then have "no_blank q"
    using split_blank_pieces[of "[]" c q] by (simp add: no_blank_iff)
  then have "no_blank p"
    using strip_part[of q] no_blank_part q(2) by metis
  then show "para_ok p"
    using q(2,3) by (simp add: para_ok_def strip_idem)
qed

lemma split_blank_chars: "q \<in> set (split_blank cur s) \<Longrightarrow> set q \<subseteq> set cur \<union> set s"
proof (induction cur s rule: split_blank.induct)
  case (1 cur s)
  show ?case
  proof (cases "s = []")
    case True
    then show ?thesis
      using 1(3) by (simp add: split_blank.simps[of cur "[]"])
  next
    case False
    have "set (drop 2 s) \<subseteq> set s"
      by (rule set_drop_subset)
    moreover have "set (tl s) \<subseteq> set s" "hd s \<in> set s"
      using False by (auto dest: list.set_sel(2))
    ultimately show ?thesis
      using 1 False by (cases "is_prefix blank_line s") (auto simp: split_blank.simps[of cur s])
  qed
qed

section \<open>Properties\<close>

text \<open>An archive that stores every paragraph it is given, in order.\<close>

definition archive_works :: "('a, 'e) archive_insert \<Rightarrow> ('a \<Rightarrow> string list) \<Rightarrow> bool" where
  "archive_works ins stored \<longleftrightarrow> (\<forall>p g e a. fst (ins p g e a) \<and> stored (snd (ins p g e a)) = stored a @ [p])"

lemma archive_all_works:
  assumes "archive_works ins stored"
  shows "fst (archive_all ins emb agent_id ps a) = length ps \<and>
         stored (snd (archive_all ins emb agent_id ps a)) = stored a @ ps"
proof (induction ps arbitrary: a)
  case (Cons p ps)
  obtain ok a' where "ins p agent_id (emb p) a = (ok, a')"
    by fastforce
  moreover from this have "ok" "stored a' = stored a @ [p]"
    using assms unfolding archive_works_def by (metis fst_conv, metis snd_conv)
  ultimately show ?case
    using Cons[of a'] by (cases "archive_all ins emb agent_id ps a'") simp
qed simp

lemma strip_empty: "strip s = [] \<Longrightarrow> list_all is_space s"
proof -
  assume "strip s = []"
  then have all: "\<forall>x\<in>set (dropWhile is_space s). is_space x"
    by (simp add: strip_def)
  have "dropWhile is_space s = []"
  proof (rule ccontr)
    assume "dropWhile is_space s \<noteq> []"
    then show False
      using all hd_dropWhile[of is_space s] hd_in_set by blast
  qed
  then show "list_all is_space s"
    by (simp add: list_all_iff)
qed

text \<open>What the pager does to the block does not depend on the archive.\<close>

lemma context_to_archival_block:
  assumes "kv_quiet kv view idle" "idle s"
    and "view s (core_key agent_id Working_Context) = Some (content, revn)"
    and "eviction_threshold < count_tokens enc content" "1 < length (paragraphs content)"
    and "sanitize_memory_payload (join_strings blank_line (drop eviction_batch_size (paragraphs content))) = None"
    and "count_tokens enc (join_strings blank_line (drop eviction_batch_size (paragraphs content))) \<le> 4000"
  shows "\<exists>s' n. context_to_archival kv enc ins emb agent_id s a =
      (fst (archive_all ins emb agent_id (take eviction_batch_size (paragraphs content)) a), s',
       snd (archive_all ins emb agent_id (take eviction_batch_size (paragraphs content)) a)) \<and>
     view s' = (view s)(core_key agent_id Working_Context \<mapsto>
       (join_strings blank_line (drop eviction_batch_size (paragraphs content)), n))"
proof -
  let ?k = "core_key agent_id Working_Context" and ?ps = "paragraphs content"
  let ?new = "join_strings blank_line (drop eviction_batch_size ?ps)"
  obtain t where t: "idle t" "view t = view s" "kv_get kv ?k s = (Inr (content, revn), t)"
    using kv_quiet_get[OF assms(1,2), of ?k] assms(3) by metis
  obtain m s' where s': "update_loop max_cas_retries kv ?k ?new revn t = (Inr m, s')" "view s' = (view t)(?k \<mapsto> (?new, m))"
    using update_loop_quiet[OF assms(1) t(1), of 3 ?k ?new revn] by (auto simp: max_cas_retries_def numeral_eq_Suc)
  have "strip content \<noteq> []"
  proof
    assume e: "strip content = []"
    then have "list_all is_space content"
      by (rule strip_empty)
    moreover have "p = []" if "p \<in> set ?ps" for p
    proof -
      obtain q where "q \<in> set (split_blank [] content)" "p = strip q"
        using \<open>p \<in> set ?ps\<close> by (auto simp: paragraphs_def)
      moreover from this have "set q \<subseteq> set content"
        using split_blank_chars[of q "[]" content] by simp
      ultimately show ?thesis
        using \<open>list_all is_space content\<close> by (auto simp: strip_def list_all_iff dest: set_dropWhileD)
    qed
    moreover have "hd ?ps \<in> set ?ps"
      using assms(5) by (cases ?ps) auto
    ultimately show False
      using paragraphs_ok[of "hd ?ps" content] by (simp add: para_ok_def)
  qed
  moreover have "update_block kv enc agent_id Working_Context ?new revn ''agent'' t =
      (Inr \<lparr>be_content = ?new, be_revision = m, be_tokens = count_tokens enc ?new\<rparr>, s')"
    using s'(1) assms(6,7) by (simp add: update_block_def write_denied_def agent_writable_blocks_def)
  ultimately show ?thesis
    using t assms(4,5) s'(2)
    by (intro exI[of _ s'] exI[of _ m]) (simp add: context_to_archival_def get_block_def Let_def split: prod.splits)
qed


text \<open>
  With an archive that works and nobody else writing, an eviction loses nothing: at most
  three paragraphs of the scratch pad, the oldest, are archived in order and counted, and the
  block then holds exactly the other paragraphs, in their order.
\<close>

theorem pager_conserves:
  assumes "kv_quiet kv view idle" "idle s" "archive_works ins stored"
    and "view s (core_key agent_id Working_Context) = Some (content, revn)"
    and "eviction_threshold < count_tokens enc content" "1 < length (paragraphs content)"
    and "sanitize_memory_payload (join_strings blank_line (drop eviction_batch_size (paragraphs content))) = None"
    and "count_tokens enc (join_strings blank_line (drop eviction_batch_size (paragraphs content))) \<le> 4000"
    and "context_to_archival kv enc ins emb agent_id s a = (n, s', a')"
  shows "\<exists>archived new m. archived @ paragraphs new = paragraphs content \<and>
           stored a' = stored a @ archived \<and> n = length archived \<and> 0 < n \<and> n \<le> 3 \<and>
           view s' = (view s)(core_key agent_id Working_Context \<mapsto> (new, m))"
proof -
  let ?ps = "paragraphs content"
  let ?new = "join_strings blank_line (drop eviction_batch_size ?ps)"
  have "\<forall>p\<in>set (drop eviction_batch_size ?ps). para_ok p"
    using paragraphs_ok in_set_dropD by fast
  then have "take eviction_batch_size ?ps @ paragraphs ?new = ?ps"
    using paragraphs_join[of "drop eviction_batch_size ?ps"] by simp
  moreover have "n = length (take eviction_batch_size ?ps)" "stored a' = stored a @ take eviction_batch_size ?ps"
    and "\<exists>m. view s' = (view s)(core_key agent_id Working_Context \<mapsto> (?new, m))"
    using context_to_archival_block[OF assms(1,2,4-8), of ins emb a] assms(9)
      archive_all_works[OF assms(3), of emb agent_id "take eviction_batch_size ?ps" a] by auto
  moreover have "0 < length (take eviction_batch_size ?ps)" "length (take eviction_batch_size ?ps) \<le> 3"
    using assms(6) by (auto simp: eviction_batch_size_def)
  ultimately show ?thesis
    by metis
qed

definition demo_archive :: "(string list, unit) archive_insert" where
  "demo_archive = (\<lambda>p agent_id e a. (True, a @ [p]))"

definition demo_scratch :: string where
  "demo_scratch = ''p'' @ blank_line @ ''q'' @ blank_line @ ''r'' @ blank_line @ ''s''"

theorem pager_conserves_witness:
  "\<exists>n s' a' archived new m.
     context_to_archival demo_kv (Some (\<lambda>t. 340 * length t)) demo_archive (\<lambda>p. None) ''a''
       (demo_put ''agent_a.Working_Context'' demo_scratch demo_empty) [] = (n, s', a') \<and>
     archived @ paragraphs new = [''p'', ''q'', ''r'', ''s''] \<and> a' = archived \<and> n = length archived \<and>
     db_data s' ''agent_a.Working_Context'' = Some (new, m)"
proof -
  let ?enc = "Some (\<lambda>t. 340 * length t) :: tokenizer"
  let ?s = "demo_put ''agent_a.Working_Context'' demo_scratch demo_empty"
  have i: "demo_idle ?s"
    by (intro demo_idle_put demo_idle_empty)
  have w: "archive_works demo_archive id"
    by (simp add: archive_works_def demo_archive_def)
  have k: "core_key ''a'' Working_Context = ''agent_a.Working_Context''"
    by code_simp
  have p: "paragraphs demo_scratch = [''p'', ''q'', ''r'', ''s'']"
    using paragraphs_join[of "[''p'', ''q'', ''r'', ''s'']"]
    by (simp add: demo_scratch_def para_ok_def blank_line_def newline_def is_prefix_def strip_def is_space_def)
  have d: "db_data ?s (core_key ''a'' Working_Context) = Some (demo_scratch, db_next demo_empty)"
    by (simp add: k demo_put_data)
  have c: "eviction_threshold < count_tokens ?enc demo_scratch"
    by (simp add: eviction_threshold_def count_tokens_def demo_scratch_def blank_line_def newline_def)
  have "sanitize_memory_payload ''s'' = None" "count_tokens ?enc ''s'' \<le> 4000"
    by code_simp+
  then have new: "sanitize_memory_payload (join_strings blank_line (drop eviction_batch_size (paragraphs demo_scratch))) = None"
      "count_tokens ?enc (join_strings blank_line (drop eviction_batch_size (paragraphs demo_scratch))) \<le> 4000"
    by (simp_all add: p eviction_batch_size_def)
  obtain n s' a' where r: "context_to_archival demo_kv ?enc demo_archive (\<lambda>p. None) ''a'' ?s [] = (n, s', a')"
    by (metis prod_cases3)
  show ?thesis
    using pager_conserves[OF demo_quiet i w d c _ new r] r by (simp add: p k) (metis fun_upd_same)
qed

text \<open>
  An archive that refuses every paragraph (the database is down) archives nothing, and the
  pager takes the paragraphs out of the scratch pad all the same.
\<close>

lemma archive_all_down: "(\<And>p g e a. ins p g e a = (False, a)) \<Longrightarrow> archive_all ins emb agent_id ps a = (0, a)"
  by (induction ps) simp_all

theorem pager_drops_refused_paragraphs:
  assumes "kv_quiet kv view idle" "idle s" and down: "\<And>p g e a. ins p g e a = (False, a)"
    and "view s (core_key agent_id Working_Context) = Some (content, revn)"
    and "eviction_threshold < count_tokens enc content" "1 < length (paragraphs content)"
    and "sanitize_memory_payload (join_strings blank_line (drop eviction_batch_size (paragraphs content))) = None"
    and "count_tokens enc (join_strings blank_line (drop eviction_batch_size (paragraphs content))) \<le> 4000"
  shows "\<exists>s' new m. context_to_archival kv enc ins emb agent_id s a = (0, s', a) \<and>
           view s' (core_key agent_id Working_Context) = Some (new, m) \<and>
           paragraphs new = drop 3 (paragraphs content)"
proof -
  let ?new = "join_strings blank_line (drop eviction_batch_size (paragraphs content))"
  have "\<forall>p\<in>set (drop eviction_batch_size (paragraphs content)). para_ok p"
    using paragraphs_ok in_set_dropD by fast
  then have "paragraphs ?new = drop 3 (paragraphs content)"
    using paragraphs_join by (simp add: eviction_batch_size_def)
  then show ?thesis
    using context_to_archival_block[OF assms(1,2,4-8), of ins emb a] archive_all_down[of ins, OF down] by fastforce
qed

end
