(* ===== verification/Context_Isolation.thy ===== *)
theory Context_Isolation imports Frontmatter begin

text \<open>
  Context isolation of agent messages (\<open>memu/context_isolation.py\<close>): what is stripped from a
  payload before it is published, the size limit and the minimal task handoff. The size is
  that of \<open>json.dumps\<close>, which escapes every character that is not printable ASCII; the text
  of a float is taken from \<open>py_text\<close>.

  Proved: stripping yields only isolated entries and is idempotent; a handoff that is made
  holds no excluded key and fits the limit; without extra fields it is always made when the
  texts hold no character outside the basic plane, and some texts of the documented lengths
  with such characters are refused.
\<close>

definition max_payload_size_bytes :: nat where
  "max_payload_size_bytes = 8192"

definition max_metadata_keys :: nat where
  "max_metadata_keys = 10"

definition max_string_length :: nat where
  "max_string_length = 512"

section \<open>Stripping\<close>

definition bleed_keys :: "string set" where
  "bleed_keys = {''context_snapshot'', ''memory_version_hashes'', ''blackboard_entries''}"

definition nested_bleed_keys :: "string set" where
  "nested_bleed_keys = {''context_snapshot'', ''blackboard_entries''}"

definition truncated_mark :: string where
  "truncated_mark = ''...[truncated]''"

text \<open>One turn of the loop; \<open>acc\<close> is the dict built so far.\<close>

fun strip_item :: "string \<times> json \<Rightarrow> payload \<Rightarrow> payload" where
  "strip_item (key, value) acc =
     (if key \<in> bleed_keys then acc
      else case value of
        JStr s \<Rightarrow>
          if key = ''checkpoint_state'' \<and> char_len s > max_string_length
          then dict_set ''checkpoint_pointer'' (JStr (char_take 64 s)) acc
          else if char_len s > max_string_length
          then dict_set key (JStr (char_take max_string_length s @ truncated_mark)) acc
          else dict_set key value acc
      | JObj kvs \<Rightarrow>
          if key = ''metadata''
          then (if length kvs > max_metadata_keys then dict_set key (JObj (take max_metadata_keys kvs)) acc
                else dict_set key value acc)
          else dict_set key (JObj (filter (\<lambda>kv. fst kv \<notin> nested_bleed_keys) kvs)) acc
      | _ \<Rightarrow> dict_set key value acc)"

definition strip_context_bleed :: "payload \<Rightarrow> payload" where
  "strip_context_bleed p = fold strip_item p []"

section \<open>The size limit\<close>

text \<open>The bytes of \<open>json.dumps\<close> for a byte of a text: the lead byte of a character pays for its escape.\<close>

definition escaped_size :: "char \<Rightarrow> nat" where
  "escaped_size c =
     (let b = of_char c :: nat in
      if b \<in> {34, 92, 8, 9, 10, 12, 13} then 2
      else if b < 32 \<or> b = 127 then 6
      else if b < 128 then 1
      else if b < 192 then 0
      else if b < 240 then 6
      else 12)"

definition text_size :: "string \<Rightarrow> nat" where
  "text_size s = sum_list (map escaped_size s)"

function json_size :: "py_text \<Rightarrow> json \<Rightarrow> nat" where
  "json_size T JNull = 4"
| "json_size T (JBool b) = (if b then 4 else 5)"
| "json_size T (JInt i) = length (show_int i)"
| "json_size T (JReal r) = length (float_str T r)"
| "json_size T (JStr s) = text_size s + 2"
| "json_size T (JList xs) = 2 + sum_list (map (json_size T) xs) + 2 * (length xs - 1)"
| "json_size T (JObj kvs) =
     2 + sum_list (map (\<lambda>(k, v). text_size k + 4 + json_size T v) kvs) + 2 * (length kvs - 1)"
  by pat_completeness auto
termination
proof (relation "measure (\<lambda>(T, v). size v)")
  fix T :: py_text and kvs :: "(string \<times> json) list" and z k v
  assume "z \<in> set kvs" "(k, v) = z"
  then have "(k, v) \<in> set kvs"
    by simp
  then have "size v < Suc (size_list (size_prod (\<lambda>_. 0) size) kvs)"
    by (induction kvs) auto
  then show "((T, v), T, JObj kvs) \<in> measure (\<lambda>(T, v). size v)"
    by simp
qed (auto simp: size_list_estimation' less_Suc_eq_le)

datatype isolation_error = PayloadTooLarge nat nat

definition enforce_payload_size_limit :: "py_text \<Rightarrow> payload \<Rightarrow> nat \<Rightarrow> isolation_error + unit" where
  "enforce_payload_size_limit T p max_bytes =
     (let payload_size = json_size T (JObj p) in
      if payload_size > max_bytes then Inl (PayloadTooLarge payload_size max_bytes) else Inr ())"

section \<open>Messages and handoffs\<close>

definition default_allowed_keys :: "string set" where
  "default_allowed_keys =
     {''msg_id'', ''timestamp'', ''from'', ''to'', ''type'', ''priority'',
      ''task_id'', ''agent_id'', ''title'', ''description'', ''status'',
      ''error'', ''notes'', ''query'', ''result_count''}"

definition sanitize_agent_message :: "payload \<Rightarrow> string set option \<Rightarrow> payload" where
  "sanitize_agent_message message allowed_keys =
     (let allowed = (case allowed_keys of None \<Rightarrow> default_allowed_keys | Some ks \<Rightarrow> ks);
          sanitized = filter (\<lambda>kv. fst kv \<in> allowed) message
      in case dict_get message ''payload'' of
           Some (JObj original) \<Rightarrow> dict_set ''payload'' (JObj (strip_context_bleed original)) sanitized
         | _ \<Rightarrow> sanitized)"

definition handoff_excluded :: "string set" where
  "handoff_excluded = {''context_snapshot'', ''checkpoint_state'', ''blackboard_entries''}"

fun handoff_item :: "string \<times> json \<Rightarrow> payload \<Rightarrow> payload" where
  "handoff_item (key, value) p =
     (if key \<notin> handoff_excluded
      then (case value of JStr s \<Rightarrow> dict_set key (JStr (char_take max_string_length s)) p
                        | _ \<Rightarrow> dict_set key value p)
      else p)"

definition handoff_fields :: "string \<Rightarrow> string \<Rightarrow> string \<Rightarrow> string option \<Rightarrow> payload" where
  "handoff_fields task_id agent_id title description =
     [(''task_id'', JStr task_id),
      (''agent_id'', JStr agent_id),
      (''title'', JStr (if title \<noteq> [] then char_take 256 title else [])),
      (''description'', case description of Some (c # d) \<Rightarrow> JStr (char_take 512 (c # d)) | _ \<Rightarrow> JNull)]"

definition create_minimal_task_handoff ::
  "py_text \<Rightarrow> string \<Rightarrow> string \<Rightarrow> string \<Rightarrow> string option \<Rightarrow> payload \<Rightarrow> isolation_error + payload" where
  "create_minimal_task_handoff T task_id agent_id title description kwargs =
     (let p = fold handoff_item kwargs (handoff_fields task_id agent_id title description) in
      case enforce_payload_size_limit T p max_payload_size_bytes of
        Inl e \<Rightarrow> Inl e
      | Inr u \<Rightarrow> Inr p)"


section \<open>What stripping leaves\<close>

fun isolated :: "string \<times> json \<Rightarrow> bool" where
  "isolated (key, value) =
     (key \<notin> bleed_keys \<and>
      (case value of
         JStr s \<Rightarrow> char_len s \<le> (if key = ''checkpoint_state'' then 512 else 526)
       | JObj kvs \<Rightarrow> if key = ''metadata'' then length kvs \<le> 10 else list_all (\<lambda>kv. fst kv \<notin> nested_bleed_keys) kvs
       | _ \<Rightarrow> True))"

text \<open>An entry that another pass keeps as it is.\<close>

definition settled :: "string \<times> json \<Rightarrow> bool" where
  "settled e \<longleftrightarrow> isolated e \<and> (\<forall>acc. strip_item e acc = dict_set (fst e) (snd e) acc)"

lemma truncated_again:
  "512 < char_len s \<Longrightarrow> char_take 512 (char_take 512 s @ truncated_mark) = char_take 512 s"
  by (rule char_take_cut) (simp_all add: truncated_mark_def)

lemma truncated_len: "512 < char_len s \<Longrightarrow> char_len (char_take 512 s @ truncated_mark) = 526"
  by (simp add: truncated_mark_def)

lemma strip_item_settles:
  "(\<forall>acc. strip_item e acc = acc) \<or> (\<exists>e'. settled e' \<and> (\<forall>acc. strip_item e acc = dict_set (fst e') (snd e') acc))"
proof (cases e)
  case (Pair key val)
  note defs = settled_def max_string_length_def max_metadata_keys_def
  show ?thesis
  proof (cases "key \<in> bleed_keys")
    case True
    then show ?thesis
      by (simp add: Pair)
  next
    case key: False
    have other: ?thesis if "settled (key, val)"
      by (rule disjI2, rule exI[of _ "(key, val)"], rule conjI, rule that)
        (use that in \<open>unfold Pair settled_def, blast\<close>)
    show ?thesis
    proof (cases val)
      case (JStr s)
      consider (fits) "char_len s \<le> 512" | (pointer) "512 < char_len s" "key = ''checkpoint_state''"
        | (cut) "512 < char_len s" "key \<noteq> ''checkpoint_state''"
        by linarith
      then show ?thesis
      proof cases
        case fits
        then show ?thesis
          using key JStr by (intro other) (simp add: defs)
      next
        case pointer
        moreover have "settled (''checkpoint_pointer'', JStr (char_take 64 s))"
          by (simp add: defs bleed_keys_def)
        ultimately show ?thesis
          using key JStr Pair
          by (intro disjI2 exI[of _ "(''checkpoint_pointer'', JStr (char_take 64 s))"]) (simp add: max_string_length_def)
      next
        case cut
        then have "settled (key, JStr (char_take 512 s @ truncated_mark))"
          using key truncated_again[OF cut(1)] truncated_len[OF cut(1)] by (simp add: defs del: char_len_simps)
        then show ?thesis
          using key JStr Pair cut
          by (intro disjI2 exI[of _ "(key, JStr (char_take 512 s @ truncated_mark))"]) (simp add: max_string_length_def)
      qed
    next
      case (JObj kvs)
      show ?thesis
      proof (cases "key = ''metadata''")
        case True
        then have "settled (key, JObj (take 10 kvs))"
          using key by (simp add: defs)
        then show ?thesis
          using key True JObj Pair
          by (intro disjI2 exI[of _ "(key, JObj (take 10 kvs))"]) (simp add: max_metadata_keys_def)
      next
        case False
        then have "settled (key, JObj (filter (\<lambda>kv. fst kv \<notin> nested_bleed_keys) kvs))"
          using key by (simp add: defs list_all_iff)
        then show ?thesis
          using key False JObj Pair
          by (intro disjI2 exI[of _ "(key, JObj (filter (\<lambda>kv. fst kv \<notin> nested_bleed_keys) kvs))"]) simp
      qed
    qed (rule other, simp add: defs key)+
  qed
qed

lemma set_dict_set: "set (dict_set k v d) \<subseteq> insert (k, v) (set d)"
  by (induction d) auto

lemma strip_fold_settled:
  "list_all settled acc \<Longrightarrow> wf_dict acc \<Longrightarrow> list_all settled (fold strip_item p acc) \<and> wf_dict (fold strip_item p acc)"
proof (induction p arbitrary: acc)
  case (Cons e p)
  have "list_all settled (strip_item e acc) \<and> wf_dict (strip_item e acc)"
    using strip_item_settles[of e]
  proof
    assume "\<exists>e'. settled e' \<and> (\<forall>acc. strip_item e acc = dict_set (fst e') (snd e') acc)"
    then obtain e' where "settled e'" "strip_item e acc = dict_set (fst e') (snd e') acc"
      by blast
    then show ?thesis
      using Cons.prems set_dict_set[of "fst e'" "snd e'" acc] by (auto simp: list_all_iff)
  qed (use Cons.prems in simp)
  then show ?case
    using Cons.IH by simp
qed simp

lemma strip_fold_keeps:
  "list_all settled q \<Longrightarrow> wf_dict (acc @ q) \<Longrightarrow> fold strip_item q acc = acc @ q"
proof (induction q arbitrary: acc)
  case (Cons e q)
  have "strip_item e acc = dict_set (fst e) (snd e) acc"
    using Cons.prems(1) by (simp add: settled_def)
  also have "\<dots> = acc @ [e]"
    using Cons.prems(2) dict_set_fresh[of acc "fst e" "snd e"] by (auto simp: wf_dict_def dict_get_None)
  finally show ?case
    using Cons.IH[of "acc @ [e]"] Cons.prems by simp
qed simp

section \<open>Properties\<close>

text \<open>
  (C16) Whatever the payload, stripping leaves a dict of isolated entries: no snapshot, history
  or blackboard field, no text over 526 characters (a full checkpoint state none over 512), at
  most ten metadata entries and no snapshot or blackboard in another nested dict; stripping
  again changes nothing.
\<close>

theorem strip_isolates:
  "list_all isolated (strip_context_bleed p) \<and> wf_dict (strip_context_bleed p) \<and>
   strip_context_bleed (strip_context_bleed p) = strip_context_bleed p"
proof -
  have s: "list_all settled (strip_context_bleed p)" "wf_dict (strip_context_bleed p)"
    using strip_fold_settled[of "[]" p] by (simp_all add: strip_context_bleed_def)
  moreover have "strip_context_bleed (strip_context_bleed p) = strip_context_bleed p"
    using strip_fold_keeps[OF s(1), of "[]"] s(2) by (simp add: strip_context_bleed_def)
  ultimately show ?thesis
    by (simp add: list_all_iff settled_def)
qed


section \<open>Handoffs\<close>

text \<open>What the handoff makes of an extra field.\<close>

definition handoff_value :: "json \<Rightarrow> json" where
  "handoff_value v = (case v of JStr s \<Rightarrow> JStr (char_take max_string_length s) | _ \<Rightarrow> v)"

lemma handoff_item_get:
  "dict_get (handoff_item (k, v) p) = (if k \<in> handoff_excluded then dict_get p else (dict_get p)(k \<mapsto> handoff_value v))"
  by (cases v) (simp_all add: handoff_value_def fun_upd_def)

lemma handoff_fold_get:
  "wf_dict kwargs \<Longrightarrow>
   dict_get (fold handoff_item kwargs p) k =
     (case dict_get kwargs k of
        Some v \<Rightarrow> if k \<in> handoff_excluded then dict_get p k else Some (handoff_value v)
      | None \<Rightarrow> dict_get p k)"
proof (induction kwargs arbitrary: p)
  case (Cons e kwargs)
  obtain k' v where e: "e = (k', v)"
    by fastforce
  have "dict_get kwargs k' = None" "wf_dict kwargs"
    using Cons.prems by (simp_all add: e wf_dict_Cons)
  then show ?case
    using Cons.IH[of "handoff_item e p"] by (auto simp: e handoff_item_get simp del: handoff_item.simps split: option.splits)
qed simp

lemma handoff_made_fields:
  assumes "create_minimal_task_handoff T task_id agent_id title description kwargs = Inr p"
  shows "p = fold handoff_item kwargs (handoff_fields task_id agent_id title description)"
    and "json_size T (JObj p) \<le> 8192"
  using assms
  by (auto simp: create_minimal_task_handoff_def enforce_payload_size_limit_def max_payload_size_bytes_def Let_def
      simp del: json_size.simps split: if_splits)

text \<open>
  A handoff that is made fits the limit, has the four fields cut to their lengths, none of
  the excluded fields, and every other extra field with its text cut.
\<close>

theorem handoff_contents:
  assumes "create_minimal_task_handoff T task_id agent_id title description kwargs = Inr p"
    and "wf_dict kwargs"
    and "list_all (\<lambda>k. k \<notin> {''task_id'', ''agent_id'', ''title'', ''description''}) (dict_keys kwargs)"
  shows "json_size T (JObj p) \<le> 8192 \<and>
    dict_get p ''task_id'' = Some (JStr task_id) \<and> dict_get p ''agent_id'' = Some (JStr agent_id) \<and>
    dict_get p ''title'' = Some (JStr (char_take 256 title)) \<and>
    (k \<in> handoff_excluded \<longrightarrow> dict_get p k = None) \<and>
    (k \<notin> handoff_excluded \<longrightarrow> k \<notin> {''task_id'', ''agent_id'', ''title'', ''description''} \<longrightarrow>
       dict_get p k = map_option handoff_value (dict_get kwargs k))"
proof -
  note p = handoff_made_fields[OF assms(1)]
  have own: "dict_get kwargs f = None" if "f \<in> {''task_id'', ''agent_id'', ''title'', ''description''}" for f
    using assms(3) that by (auto simp: dict_get_None list_all_iff)
  have get: "dict_get p f =
     (case dict_get kwargs f of
        Some v \<Rightarrow> if f \<in> handoff_excluded then dict_get (handoff_fields task_id agent_id title description) f
                 else Some (handoff_value v)
      | None \<Rightarrow> dict_get (handoff_fields task_id agent_id title description) f)" for f
    unfolding p(1) by (rule handoff_fold_get[OF assms(2)])
  have "dict_get p ''task_id'' = Some (JStr task_id)" "dict_get p ''agent_id'' = Some (JStr agent_id)"
    "dict_get p ''title'' = Some (JStr (char_take 256 title))"
    by (simp_all add: get own) (simp_all add: handoff_fields_def)
  moreover have "dict_get (handoff_fields task_id agent_id title description) k = None"
    if "k \<notin> {''task_id'', ''agent_id'', ''title'', ''description''}"
    using that by (simp add: handoff_fields_def)
  moreover have "k \<in> handoff_excluded \<Longrightarrow> k \<notin> {''task_id'', ''agent_id'', ''title'', ''description''}"
    by (auto simp: handoff_excluded_def)
  ultimately show ?thesis
    using p(2) get[of k] by (auto split: option.splits)
qed

section \<open>When a handoff is made\<close>

text \<open>Characters of the basic plane have no lead byte from 240 on.\<close>

definition basic_plane :: "string \<Rightarrow> bool" where
  "basic_plane s \<longleftrightarrow> list_all (\<lambda>c. of_char c < (240 :: nat)) s"

lemma text_size_simps [simp]:
  "text_size [] = 0" "text_size (c # s) = escaped_size c + text_size s" "text_size (s @ t) = text_size s + text_size t"
  by (simp_all add: text_size_def)

lemma escaped_size_bounds:
  "of_char c \<in> {128..191 :: nat} \<Longrightarrow> escaped_size c = 0"
  "of_char c < (240 :: nat) \<Longrightarrow> escaped_size c \<le> 6"
  by (auto simp: escaped_size_def Let_def)

lemma text_size_take: "basic_plane s \<Longrightarrow> text_size (char_take n s) \<le> 6 * n"
proof (induction n s rule: char_take.induct)
  case (2 n c s)
  then show ?case
    using escaped_size_bounds[of c]
    by (cases "of_char c \<in> {128..191 :: nat}"; cases n) (auto simp: basic_plane_def simp del: char_len_simps)
qed simp

definition description_size :: "string option \<Rightarrow> nat" where
  "description_size d = (case d of Some (c # s) \<Rightarrow> text_size (char_take 512 (c # s)) + 2 | _ \<Rightarrow> 4)"

lemma handoff_size:
  "json_size T (JObj (handoff_fields task_id agent_id title description)) =
     61 + text_size task_id + text_size agent_id + text_size (char_take 256 title) + description_size description"
proof -
  have "text_size ''task_id'' = 7" "text_size ''agent_id'' = 8" "text_size ''title'' = 5" "text_size ''description'' = 11"
    by code_simp+
  then show ?thesis
    by (simp add: handoff_fields_def description_size_def del: text_size_simps char_take.simps(2) split: option.splits list.splits)
qed

lemma description_size_bound: "basic_plane (case d of Some s \<Rightarrow> s | None \<Rightarrow> []) \<Longrightarrow> description_size d \<le> 3074"
  using text_size_take[of "case d of Some s \<Rightarrow> s | None \<Rightarrow> []" 512]
  by (cases d; cases "the d") (simp_all add: description_size_def del: char_take.simps text_size_simps)

text \<open>
  Without extra fields and with texts of the basic plane the handoff is always made, its
  texts cut, as long as the two ids stay under 3,500 bytes.
\<close>

theorem handoff_made:
  assumes "basic_plane title" and "basic_plane (case description of Some s \<Rightarrow> s | None \<Rightarrow> [])"
    and "text_size task_id + text_size agent_id \<le> 3500"
  shows "create_minimal_task_handoff T task_id agent_id title description [] =
    Inr (handoff_fields task_id agent_id title description)"
proof -
  have "json_size T (JObj (handoff_fields task_id agent_id title description)) \<le> max_payload_size_bytes"
    using text_size_take[OF assms(1), of 256] description_size_bound[OF assms(2)] assms(3)
    unfolding handoff_size max_payload_size_bytes_def by simp
  then show ?thesis
    by (simp add: create_minimal_task_handoff_def enforce_payload_size_limit_def Let_def del: json_size.simps)
qed

text \<open>
  Every character outside the basic plane costs twelve bytes: a title and a description of
  the documented lengths, 256 and 512, made of them are refused whatever the ids.
\<close>

definition emoji :: string where
  "emoji = [CHR 0xF0, CHR 0x9F, CHR 0x98, CHR 0x80]"

lemma emojis_take: "char_take n (concat (replicate n emoji) @ s) = concat (replicate n emoji) @ char_take 0 s"
  by (induction n) (simp_all add: emoji_def)

lemma emojis_size: "text_size (concat (replicate n emoji)) = 12 * n"
  by (induction n) (simp_all add: emoji_def escaped_size_def)

lemma emoji_handoff_refused:
  "\<exists>n. create_minimal_task_handoff T task_id agent_id (concat (replicate 256 emoji))
         (Some (concat (replicate 512 emoji))) [] = Inl (PayloadTooLarge n 8192)"
proof -
  have "concat (replicate 512 emoji) = emoji @ concat (replicate 511 emoji)"
    by (simp add: numeral_eq_Suc)
  then obtain c s where d: "concat (replicate 512 emoji) = c # s"
    by (simp add: emoji_def)
  have "description_size (Some (concat (replicate 512 emoji))) = 6146"
    using emojis_take[of 512 "[]"] emojis_size[of 512]
    by (simp add: description_size_def d del: char_take.simps text_size_simps) (simp add: d)
  moreover have "text_size (char_take 256 (concat (replicate 256 emoji))) = 3072"
    using emojis_take[of 256 "[]"] emojis_size[of 256] by simp
  ultimately have "json_size T (JObj (handoff_fields task_id agent_id (concat (replicate 256 emoji))
      (Some (concat (replicate 512 emoji))))) > max_payload_size_bytes"
    unfolding handoff_size max_payload_size_bytes_def by simp
  then show ?thesis
    by (simp add: create_minimal_task_handoff_def enforce_payload_size_limit_def Let_def max_payload_size_bytes_def
        del: json_size.simps)
qed

section \<open>Messages\<close>

text \<open>A sanitized message has allowed fields only, and its payload, when a dict, is stripped.\<close>

theorem sanitized_message:
  assumes "wf_dict message"
  shows "dict_get (sanitize_agent_message message (Some allowed)) k =
    (case dict_get message k of
       Some (JObj original) \<Rightarrow>
         if k = ''payload'' then Some (JObj (strip_context_bleed original))
         else if k \<in> allowed then Some (JObj original) else None
     | v \<Rightarrow> if k \<in> allowed then v else None)"
proof -
  have "dict_get (filter (\<lambda>kv. fst kv \<in> allowed) message) k = (if k \<in> allowed then dict_get message k else None)" for k
    by (induction message) auto
  then show ?thesis
    by (simp add: sanitize_agent_message_def Let_def split: option.splits json.splits)
qed


section \<open>Witnesses\<close>

theorem handoff_made_witness:
  "create_minimal_task_handoff demo_py_text ''t'' ''a'' ''Fix'' (Some ''Now'') [] =
    Inr (handoff_fields ''t'' ''a'' ''Fix'' (Some ''Now''))"
  by (rule handoff_made) code_simp+

theorem handoff_contents_witness:
  "\<exists>p. create_minimal_task_handoff demo_py_text ''t'' ''a'' ''Fix'' None [(''note'', JStr ''x''), (''checkpoint_state'', JStr ''y'')] = Inr p \<and>
    dict_get p ''note'' = Some (JStr ''x'') \<and> dict_get p ''checkpoint_state'' = None"
proof -
  let ?kw = "[(''note'', JStr ''x''), (''checkpoint_state'', JStr ''y'')] :: payload"
  obtain p where p: "create_minimal_task_handoff demo_py_text ''t'' ''a'' ''Fix'' None ?kw = Inr p"
    by (simp add: create_minimal_task_handoff_def enforce_payload_size_limit_def Let_def max_payload_size_bytes_def
        handoff_excluded_def handoff_fields_def max_string_length_def text_size_def escaped_size_def numeral_eq_Suc)
  have kw: "wf_dict ?kw" "list_all (\<lambda>k. k \<notin> {''task_id'', ''agent_id'', ''title'', ''description''}) (dict_keys ?kw)"
    by (simp_all add: wf_dict_def)
  show ?thesis
    using p handoff_contents[OF p kw, of "''note''"] handoff_contents[OF p kw, of "''checkpoint_state''"]
    by (simp add: handoff_excluded_def handoff_value_def max_string_length_def numeral_eq_Suc)
qed

text \<open>The metadata is cut to ten entries but not searched: a snapshot inside it is published.\<close>

lemma snapshot_in_metadata_kept:
  "strip_context_bleed [(''metadata'', JObj [(''context_snapshot'', v)])] = [(''metadata'', JObj [(''context_snapshot'', v)])]"
  by (simp add: strip_context_bleed_def bleed_keys_def max_metadata_keys_def)

end
