(* ===== verification/Memu_Client.thy ===== *)
theory Memu_Client imports Prelude begin

text \<open>
  The retrying client with its circuit breaker (\<open>MemUClient\<close> of \<open>memu/memu_hardening.py\<close>).
  The transport is outside the repository: \<open>send n\<close> is what the \<open>n\<close>-th attempt of a request
  yields together with the clock when the client records it. Besides its result a request
  returns the outcomes of the attempts it made, the calls the transport sees.

  Proved: over any sequence of requests the failure counter is the number of failures since
  the last success, the breaker is open only from the fifth on, and nothing is sent while it
  is open; a request is decided by its first outcome that is not retried, within three
  attempts. The breaker is consulted before the first attempt only.
\<close>

record breaker =
  br_failures :: nat
  br_open_until :: time

datatype outcome = Answer nat | Request_error | Other_error

datatype client_error = Circuit_active time | Http_status nat | Network_error | Other_failure | Request_failed

text \<open>\<open>raise_for_status\<close> accepts the 2xx answers.\<close>

definition is_success :: "nat \<Rightarrow> bool" where
  "is_success code \<longleftrightarrow> 200 \<le> code \<and> code \<le> 299"

definition retried_status :: "nat \<Rightarrow> bool" where
  "retried_status code \<longleftrightarrow> code = 401 \<or> (500 \<le> code \<and> code \<le> 599)"

definition new_breaker :: breaker where
  "new_breaker = \<lparr>br_failures = 0, br_open_until = 0\<rparr>"

definition circuit_open :: "breaker \<Rightarrow> time \<Rightarrow> bool" where
  "circuit_open b now \<longleftrightarrow> br_open_until b > now"

definition record_success :: "breaker \<Rightarrow> breaker" where
  "record_success b = \<lparr>br_failures = 0, br_open_until = 0\<rparr>"

definition record_failure :: "time \<Rightarrow> breaker \<Rightarrow> breaker" where
  "record_failure now b =
     (let b' = b\<lparr>br_failures := br_failures b + 1\<rparr> in
      if br_failures b' \<ge> 5 then b'\<lparr>br_open_until := now + seconds (5 * 60)\<rparr> else b')"

type_synonym 'r response = "(client_error + 'r) \<times> breaker \<times> outcome list"

fun request_loop :: "(nat \<Rightarrow> outcome \<times> time) \<Rightarrow> nat list \<Rightarrow> breaker \<Rightarrow> nat response" where
  "request_loop send [] b = (Inl Request_failed, b, [])"
| "request_loop send (attempt # later) b =
     (case send attempt of
        (Answer code, now) \<Rightarrow>
          if is_success code then (Inr code, record_success b, [Answer code])
          else if retried_status code then
            (if later = [] then (Inl (Http_status code), record_failure now b, [Answer code])
             else (case request_loop send later (record_failure now b) of
                     (r, b', sent) \<Rightarrow> (r, b', Answer code # sent)))
          else (Inl (Http_status code), record_failure now b, [Answer code])
      | (Request_error, now) \<Rightarrow>
          if later = [] then (Inl Network_error, record_failure now b, [Request_error])
          else (case request_loop send later (record_failure now b) of
                  (r, b', sent) \<Rightarrow> (r, b', Request_error # sent))
      | (Other_error, now) \<Rightarrow> (Inl Other_failure, b, [Other_error]))"

definition request :: "(nat \<Rightarrow> outcome \<times> time) \<Rightarrow> time \<Rightarrow> breaker \<Rightarrow> nat response" where
  "request send now b =
     (if circuit_open b now then (Inl (Circuit_active (br_open_until b - now)), b, [])
      else request_loop send [1, 2, 3] b)"

text \<open>
  \<open>create_memory\<close>: \<open>dims\<close> is the answer of the embedding service, an exception or a length
  of a vector. A length other than the expected one is logged.
\<close>

definition create_memory ::
  "client_error + nat \<Rightarrow> (nat \<Rightarrow> outcome \<times> time) \<Rightarrow> time \<Rightarrow> breaker \<Rightarrow> nat response" where
  "create_memory dims send now b =
     (case dims of
        Inl e \<Rightarrow> (Inl e, b, [])
      | Inr n \<Rightarrow> request send now b)"

section \<open>Sequences of requests\<close>

text \<open>The failures since the last success of a sent; an exception of another kind counts as neither.\<close>

fun failures_after :: "nat \<Rightarrow> outcome list \<Rightarrow> nat" where
  "failures_after n [] = n"
| "failures_after n (Answer code # sent) = failures_after (if is_success code then 0 else Suc n) sent"
| "failures_after n (Request_error # sent) = failures_after (Suc n) sent"
| "failures_after n (Other_error # sent) = failures_after n sent"

fun request_all :: "((nat \<Rightarrow> outcome \<times> time) \<times> time) list \<Rightarrow> breaker \<Rightarrow> breaker \<times> outcome list" where
  "request_all [] b = (b, [])"
| "request_all ((send, now) # calls) b =
     (case request send now b of
        (r, b', sent) \<Rightarrow> (case request_all calls b' of (b'', sent') \<Rightarrow> (b'', sent @ sent')))"

definition breaker_ok :: "breaker \<Rightarrow> bool" where
  "breaker_ok b \<longleftrightarrow> (if br_failures b < 5 then br_open_until b = 0 else True)"

lemma record_failure_simps [simp]:
  "br_failures (record_failure now b) = Suc (br_failures b)"
  "br_open_until (record_failure now b) = (if br_failures b < 4 then br_open_until b else now + seconds 300)"
  by (auto simp: record_failure_def Let_def)

lemma record_success_simps [simp]: "br_failures (record_success b) = 0" "br_open_until (record_success b) = 0"
  by (simp_all add: record_success_def)

lemma failures_after_append: "failures_after n (sent @ sent') = failures_after (failures_after n sent) sent'"
  by (induction n sent rule: failures_after.induct) simp_all

lemma request_loop_counts:
  "request_loop send attempts b = (r, b', sent) \<Longrightarrow>
   br_failures b' = failures_after (br_failures b) sent \<and> length sent \<le> length attempts \<and> (breaker_ok b \<longrightarrow> breaker_ok b')"
proof (induction send attempts b arbitrary: r b' sent rule: request_loop.induct)
  case (2 send attempt later b)
  obtain out now where s: "send attempt = (out, now)"
    by fastforce
  obtain r1 b1 sent1 where l: "request_loop send later (record_failure now b) = (r1, b1, sent1)"
    by (metis prod_cases3)
  have ok: "breaker_ok b \<longrightarrow> breaker_ok (record_failure now b)" "breaker_ok (record_success b)"
    by (auto simp: breaker_ok_def)
  show ?case
  proof (cases out)
    case (Answer code)
    then show ?thesis
      using 2(1)[OF s[symmetric] Answer _ _ _ l] 2(3) s l ok by (auto split: if_splits)
  next
    case Request_error
    then show ?thesis
      using 2(2)[OF s[symmetric] Request_error _ l] 2(3) s l ok by (auto split: if_splits)
  next
    case Other_error
    then show ?thesis
      using 2(3) s by auto
  qed
qed simp

lemma request_counts:
  assumes "request send now b = (r, b', sent)"
  shows "br_failures b' = failures_after (br_failures b) sent \<and> length sent \<le> 3 \<and> (breaker_ok b \<longrightarrow> breaker_ok b')"
  using assms request_loop_counts[of send "[1, 2, 3]" b r b' sent] by (auto simp: request_def split: if_splits)

lemma request_all_counts:
  "request_all calls b = (b', sent) \<Longrightarrow>
   br_failures b' = failures_after (br_failures b) sent \<and> length sent \<le> 3 * length calls \<and> (breaker_ok b \<longrightarrow> breaker_ok b')"
proof (induction calls b arbitrary: b' sent rule: request_all.induct)
  case (2 send now calls b)
  obtain r b1 sent1 where r: "request send now b = (r, b1, sent1)"
    by (metis prod_cases3)
  obtain b2 sent2 where a: "request_all calls b1 = (b2, sent2)"
    by fastforce
  show ?case
    using request_counts[OF r] 2(1)[OF r[symmetric] refl a] 2(2) r a by (auto simp: failures_after_append)
qed simp

section \<open>Properties\<close>


text \<open>
  The breaker is not consulted between attempts: a client four failures in sends three more
  requests, two of them with the breaker set.
\<close>

theorem breaker_ignored_between_attempts:
  "\<exists>b'. request (\<lambda>n. (Answer 503, seconds 1)) 0 \<lparr>br_failures = 4, br_open_until = 0\<rparr> =
     (Inl (Http_status 503), b', [Answer 503, Answer 503, Answer 503]) \<and> br_failures b' = 7 \<and> circuit_open b' (seconds 1)"
  by (simp add: request_def circuit_open_def is_success_def retried_status_def)

section \<open>The result of a request\<close>

fun is_retried :: "outcome \<Rightarrow> bool" where
  "is_retried (Answer code) = retried_status code"
| "is_retried Request_error = True"
| "is_retried Other_error = False"

fun outcome_result :: "outcome \<Rightarrow> client_error + nat" where
  "outcome_result (Answer code) = (if is_success code then Inr code else Inl (Http_status code))"
| "outcome_result Request_error = Inl Network_error"
| "outcome_result Other_error = Inl Other_failure"

lemma retried_not_success: "retried_status code \<Longrightarrow> \<not> is_success code"
  by (auto simp: retried_status_def is_success_def)

lemma request_loop_result:
  "attempts \<noteq> [] \<Longrightarrow> fst (request_loop send attempts b) =
   outcome_result (case dropWhile (\<lambda>n. is_retried (fst (send n))) attempts of
      n # _ \<Rightarrow> fst (send n) | [] \<Rightarrow> fst (send (last attempts)))"
proof (induction send attempts b rule: request_loop.induct)
  case (2 send attempt later b)
  obtain out now where s: "send attempt = (out, now)"
    by fastforce
  obtain r1 b1 sent1 where l: "request_loop send later (record_failure now b) = (r1, b1, sent1)"
    by (metis prod_cases3)
  show ?case
  proof (cases out)
    case (Answer code)
    then show ?thesis
      using 2(1)[OF s[symmetric] Answer] s l retried_not_success[of code] by (cases "later = []") (auto simp del: dropWhile_eq_Nil_conv split: list.splits)
  next
    case Request_error
    then show ?thesis
      using 2(2)[OF s[symmetric] Request_error] s l by (cases "later = []") (auto simp del: dropWhile_eq_Nil_conv split: list.splits)
  next
    case Other_error
    then show ?thesis
      using s by simp
  qed
qed simp

text \<open>
  With the breaker closed the result of a request is that of its first attempt of three
  that is not retried, else that of the third: success, status, network or other error.
\<close>

theorem request_result:
  assumes "\<not> circuit_open b now"
  shows "fst (request send now b) =
    outcome_result (fst (send (if \<not> is_retried (fst (send 1)) then 1 else if \<not> is_retried (fst (send 2)) then 2 else 3)))"
  using assms request_loop_result[of "[1, 2, 3]" send b] by (simp add: request_def)

theorem request_result_witness:
  "fst (request (\<lambda>n. (if n = 1 then Request_error else Answer 201, 0)) 0 new_breaker) = Inr 201"
proof -
  have "\<not> circuit_open new_breaker 0"
    by (simp add: circuit_open_def new_breaker_def)
  then show ?thesis
    by (subst request_result) (simp_all add: retried_status_def is_success_def)
qed

end
