(* ===== verification/Task_Orchestrator.thy ===== *)
theory Task_Orchestrator imports Swarm_Models begin

text \<open>
  The task orchestrator (\<open>memu/task_orchestrator.py\<close>): it buffers the events of every task,
  replaces a full buffer by a summary and publishes that, and drafts sub-tasks.

  One handled message comes with an \<open>orch_env\<close>: the length of the printed payload (which
  rests on how Python prints floats), the clock, the two fresh identifiers and whether the
  publication succeeds. \<open>start_loop\<close> is the loop over the subscription, which logs and drops
  every exception. \<open>_active_tasks\<close> is never written and left out.

  Proved: while publications succeed and the summarised fields are texts, the summaries and
  the buffer of a task account for each of its events and tokens exactly once, in order, and
  the buffer stays below both limits; a decision that is not a text stops the summaries of its
  task for good.
\<close>

section \<open>Configuration, summaries and state\<close>

record summarization_config =
  sc_max_events :: nat
  sc_max_tokens :: nat
  sc_ratio :: real

definition default_summarization :: summarization_config where
  "default_summarization = \<lparr>sc_max_events = 10, sc_max_tokens = 2000, sc_ratio = 3 / 10\<rparr>"

record task_summary =
  ts_task :: uuid
  ts_id :: uuid
  ts_created :: time
  ts_decisions :: "string list"
  ts_findings :: "string list"
  ts_blockers :: "string list"
  ts_actions :: "string list"
  ts_events :: nat
  ts_original :: nat
  ts_compressed :: int
  ts_ratio :: real
  ts_parent :: "uuid option"
  ts_supersedes :: "uuid list"

record orchestrator =
  or_gateway :: string
  or_config :: summarization_config
  or_summaries :: "uuid \<Rightarrow> task_summary list option"
  or_buffers :: "uuid \<Rightarrow> swarm_event list option"
  or_tokens :: "uuid \<Rightarrow> nat option"

definition orchestrator_init :: "string \<Rightarrow> summarization_config option \<Rightarrow> orchestrator" where
  "orchestrator_init gateway_id config =
     \<lparr>or_gateway = gateway_id,
      or_config = (case config of Some c \<Rightarrow> c | None \<Rightarrow> default_summarization),
      or_summaries = Map.empty, or_buffers = Map.empty, or_tokens = Map.empty\<rparr>"

record orch_env =
  oe_size :: "payload \<Rightarrow> nat"
  oe_now :: time
  oe_summary_id :: uuid
  oe_event_id :: uuid
  oe_published :: bool

datatype orch_error = ValidationError | PublishFailed

text \<open>A message the orchestrator publishes: subject and event.\<close>

type_synonym message = "string \<times> swarm_event"

section \<open>Summaries\<close>

definition got :: "payload \<Rightarrow> string \<Rightarrow> json" where
  "got p k = dict_get_default p k (JStr [])"

definition is_other :: "swarm_event \<Rightarrow> bool" where
  "is_other e \<longleftrightarrow> se_type e \<noteq> DECISION_MADE \<and> se_type e \<noteq> TASK_FAILED"

definition has_key :: "string \<Rightarrow> swarm_event \<Rightarrow> bool" where
  "has_key k e \<longleftrightarrow> dict_get (se_payload e) k \<noteq> None"

definition key_decisions :: "swarm_event list \<Rightarrow> json list" where
  "key_decisions es = [got (se_payload e) ''decision''. e \<leftarrow> es, se_type e = DECISION_MADE]"

definition critical_findings :: "swarm_event list \<Rightarrow> json list" where
  "critical_findings es = [got (se_payload e) ''finding''. e \<leftarrow> es, is_other e \<and> has_key ''finding'' e]"

definition blockers :: "swarm_event list \<Rightarrow> json list" where
  "blockers es = [got (se_payload e) ''error''. e \<leftarrow> es, se_type e = TASK_FAILED]"

definition next_actions :: "swarm_event list \<Rightarrow> json list" where
  "next_actions es =
     [got (se_payload e) ''next_action''. e \<leftarrow> es, is_other e \<and> \<not> has_key ''finding'' e \<and> has_key ''next_action'' e]"

text \<open>Validation of a field \<open>list[str]\<close>.\<close>

fun as_texts :: "json list \<Rightarrow> string list option" where
  "as_texts [] = Some []"
| "as_texts (JStr s # xs) = map_option (Cons s) (as_texts xs)"
| "as_texts (x # xs) = None"

definition truncate_real :: "real \<Rightarrow> int" where
  "truncate_real r = (if r < 0 then - \<lfloor>- r\<rfloor> else \<lfloor>r\<rfloor>)"

definition make_summary ::
  "orch_env \<Rightarrow> orchestrator \<Rightarrow> uuid \<Rightarrow> swarm_event list \<Rightarrow> orch_error + task_summary" where
  "make_summary env o1 task events =
     (let original = (case or_tokens o1 task of Some n \<Rightarrow> n | None \<Rightarrow> 0) in
      case (as_texts (take 5 (key_decisions events)), as_texts (take 5 (critical_findings events)),
            as_texts (take 3 (blockers events)), as_texts (take 3 (next_actions events))) of
        (Some ds, Some fs, Some bs, Some acts) \<Rightarrow>
          Inr \<lparr>ts_task = task, ts_id = oe_summary_id env, ts_created = oe_now env,
               ts_decisions = ds, ts_findings = fs, ts_blockers = bs, ts_actions = acts,
               ts_events = length events, ts_original = original,
               ts_compressed = truncate_real (real original * sc_ratio (or_config o1)),
               ts_ratio = sc_ratio (or_config o1), ts_parent = None, ts_supersedes = map se_id events\<rparr>
      | _ \<Rightarrow> Inl ValidationError)"

definition summary_event :: "orch_env \<Rightarrow> orchestrator \<Rightarrow> task_summary \<Rightarrow> swarm_event" where
  "summary_event env o1 s =
     \<lparr>se_id = oe_event_id env, se_timestamp = oe_now env, se_source = or_gateway o1, se_type = CHECKPOINT_SAVED,
      se_task = ts_task s, se_parent = None,
      se_payload =
        [(''summary_id'', JStr (ts_id s)),
         (''key_decisions'', JList (map JStr (ts_decisions s))),
         (''critical_findings'', JList (map JStr (ts_findings s))),
         (''blockers'', JList (map JStr (ts_blockers s))),
         (''next_actions'', JList (map JStr (ts_actions s))),
         (''compression_ratio'', JReal (ts_ratio s)),
         (''events_summarized'', JInt (int (ts_events s)))],
      se_context = None, se_cost = 0, se_signature = None\<rparr>"

definition publish_summary :: "orch_env \<Rightarrow> orchestrator \<Rightarrow> task_summary \<Rightarrow> orch_error + message" where
  "publish_summary env o1 s =
     (if \<not> valid_swarm_event (summary_event env o1 s) then Inl ValidationError
      else if oe_published env then Inr (''swarm.summary.'' @ ts_task s, summary_event env o1 s)
      else Inl PublishFailed)"

definition summarize_task ::
  "orch_env \<Rightarrow> uuid \<Rightarrow> orchestrator \<Rightarrow> (orch_error + unit) \<times> orchestrator \<times> message list" where
  "summarize_task env task o1 =
     (let events = (case or_buffers o1 task of Some es \<Rightarrow> es | None \<Rightarrow> []) in
      if events = [] then (Inr (), o1, [])
      else case make_summary env o1 task events of
        Inl err \<Rightarrow> (Inl err, o1, [])
      | Inr s \<Rightarrow>
          (let old = (case or_summaries o1 task of Some ss \<Rightarrow> ss | None \<Rightarrow> []);
               o2 = o1\<lparr>or_summaries := (or_summaries o1)(task \<mapsto> old @ [s])\<rparr>
           in case publish_summary env o2 s of
                Inl err \<Rightarrow> (Inl err, o2, [])
              | Inr msg \<Rightarrow>
                  (Inr (), o2\<lparr>or_buffers := (or_buffers o2)(task \<mapsto> []), or_tokens := (or_tokens o2)(task \<mapsto> 0)\<rparr>, [msg])))"

section \<open>Events\<close>

definition buffer_of :: "orchestrator \<Rightarrow> uuid \<Rightarrow> swarm_event list" where
  "buffer_of o1 t = (case or_buffers o1 t of Some es \<Rightarrow> es | None \<Rightarrow> [])"

definition tokens_of :: "orchestrator \<Rightarrow> uuid \<Rightarrow> nat" where
  "tokens_of o1 t = (case or_tokens o1 t of Some n \<Rightarrow> n | None \<Rightarrow> 0)"

definition buffer_event :: "orch_env \<Rightarrow> swarm_event \<Rightarrow> orchestrator \<Rightarrow> orchestrator" where
  "buffer_event env e o1 =
     o1\<lparr>or_buffers := (or_buffers o1)(se_task e \<mapsto> buffer_of o1 (se_task e) @ [e]),
        or_tokens := (or_tokens o1)(se_task e \<mapsto> tokens_of o1 (se_task e) + oe_size env (se_payload e) div 4)\<rparr>"

definition should_summarize :: "orchestrator \<Rightarrow> uuid \<Rightarrow> bool" where
  "should_summarize o1 t \<longleftrightarrow>
     length (buffer_of o1 t) \<ge> sc_max_events (or_config o1) \<or> tokens_of o1 t \<ge> sc_max_tokens (or_config o1)"

definition handle_event ::
  "orch_env \<Rightarrow> swarm_event \<Rightarrow> orchestrator \<Rightarrow> (orch_error + unit) \<times> orchestrator \<times> message list" where
  "handle_event env e o1 =
     (let o2 = buffer_event env e o1 in
      if should_summarize o2 (se_task e) then summarize_task env (se_task e) o2 else (Inr (), o2, []))"

text \<open>The messages of the subscription; \<open>None\<close> is one that does not validate as an event.\<close>

fun start_loop :: "(orch_env \<times> swarm_event option) list \<Rightarrow> orchestrator \<Rightarrow> orchestrator \<times> message list" where
  "start_loop [] o1 = (o1, [])"
| "start_loop ((env, None) # rest) o1 = start_loop rest o1"
| "start_loop ((env, Some e) # rest) o1 =
     (case handle_event env e o1 of
        (r, o2, out) \<Rightarrow> (case start_loop rest o2 of (o3, out') \<Rightarrow> (o3, out @ out')))"

definition get_all_summaries :: "orchestrator \<Rightarrow> uuid \<Rightarrow> task_summary list" where
  "get_all_summaries o1 t = (case or_summaries o1 t of Some ss \<Rightarrow> ss | None \<Rightarrow> [])"

definition get_task_summary :: "orchestrator \<Rightarrow> uuid \<Rightarrow> task_summary option" where
  "get_task_summary o1 t =
     (case get_all_summaries o1 t of [] \<Rightarrow> None | s # ss \<Rightarrow> Some (last (s # ss)))"

section \<open>Sub-tasks\<close>

record subtask_request =
  sr_parent :: uuid
  sr_title :: string
  sr_description :: string
  sr_capabilities :: "string list"
  sr_budget :: real
  sr_priority :: int
  sr_lanes :: "string list"
  sr_hours :: "real option"
  sr_dependencies :: "uuid list"
  sr_long_lead :: "string list"

text \<open>\<open>model_dump\<close> of the drafted task.\<close>

definition drafted_payload :: "subtask_request \<Rightarrow> payload" where
  "drafted_payload r =
     [(''title'', JStr (sr_title r)), (''description'', JStr (sr_description r)),
      (''root_prompt_id'', JStr (sr_parent r)), (''parent_task_id'', JStr (sr_parent r)),
      (''required_capabilities'', JList (map JStr (sr_capabilities r))),
      (''compute_budget'', JReal (sr_budget r)), (''priority'', JInt (sr_priority r)),
      (''dag_metadata'', JObj
         [(''estimated_duration_hours'', case sr_hours r of Some h \<Rightarrow> JReal h | None \<Rightarrow> JNull),
          (''dependencies'', JList (map JStr (sr_dependencies r))),
          (''long_lead_items'', JList (map JStr (sr_long_lead r)))])]"

definition drafted_event :: "orch_env \<Rightarrow> string \<Rightarrow> subtask_request \<Rightarrow> swarm_event" where
  "drafted_event env gateway r =
     \<lparr>se_id = oe_event_id env, se_timestamp = oe_now env, se_source = gateway, se_type = TASK_DRAFTED,
      se_task = oe_summary_id env, se_parent = Some (sr_parent r), se_payload = drafted_payload r,
      se_context = None, se_cost = 0, se_signature = None\<rparr>"

text \<open>\<open>oe_summary_id\<close> of the environment is the fresh identifier of the sub-task.\<close>

definition spawn_subtask ::
  "orch_env \<Rightarrow> orchestrator \<Rightarrow> subtask_request \<Rightarrow> (orch_error + uuid) \<times> message list" where
  "spawn_subtask env o1 r =
     (if char_len (sr_title r) > 256 \<or> sr_budget r < 0 \<or> sr_priority r < 0 \<or> sr_priority r > 10
         \<or> \<not> valid_swarm_event (drafted_event env (or_gateway o1) r)
      then (Inl ValidationError, [])
      else if oe_published env then
        (Inr (oe_summary_id env), [(''swarm.task.drafted'', drafted_event env (or_gateway o1) r)])
      else (Inl PublishFailed, []))"

fun spawn_parallel_subtasks ::
  "orchestrator \<Rightarrow> uuid \<Rightarrow> (orch_env \<times> subtask_request) list \<Rightarrow> (orch_error + uuid list) \<times> message list" where
  "spawn_parallel_subtasks o1 parent [] = (Inr [], [])"
| "spawn_parallel_subtasks o1 parent ((env, r) # rest) =
     (case spawn_subtask env o1 (r\<lparr>sr_parent := parent\<rparr>) of
        (Inl err, out) \<Rightarrow> (Inl err, out)
      | (Inr t, out) \<Rightarrow>
          (case spawn_parallel_subtasks o1 parent rest of
             (Inl err, out') \<Rightarrow> (Inl err, out @ out')
           | (Inr ts, out') \<Rightarrow> (Inr (t # ts), out @ out')))"


section \<open>Accounting\<close>

definition is_text :: "json \<Rightarrow> bool" where
  "is_text v = (case v of JStr _ \<Rightarrow> True | _ \<Rightarrow> False)"

text \<open>The four summarised fields are texts when they are present.\<close>

definition plain_event :: "swarm_event \<Rightarrow> bool" where
  "plain_event e \<longleftrightarrow>
     list_all (\<lambda>k. is_text (got (se_payload e) k)) [''decision'', ''finding'', ''error'', ''next_action'']"

lemma as_texts_iff: "(\<exists>ts. as_texts xs = Some ts) \<longleftrightarrow> list_all is_text xs"
  by (induction xs rule: as_texts.induct) (auto simp: is_text_def)

lemma plain_fields:
  assumes "list_all plain_event es"
  shows "list_all is_text (key_decisions es)" "list_all is_text (critical_findings es)"
    "list_all is_text (blockers es)" "list_all is_text (next_actions es)"
  using assms
  by (auto simp: list_all_iff plain_event_def key_decisions_def critical_findings_def blockers_def next_actions_def)

lemma list_all_take: "list_all P xs \<Longrightarrow> list_all P (take n xs)"
  by (auto simp: list_all_iff dest: in_set_takeD)

lemma make_summary_plain:
  assumes "list_all plain_event es"
  shows "\<exists>s. make_summary env o1 task es = Inr s \<and> ts_supersedes s = map se_id es \<and> ts_original s = tokens_of o1 task \<and>
     ts_task s = task \<and> ts_events s = length es"
proof -
  note texts = plain_fields[OF assms, THEN list_all_take, folded as_texts_iff]
  obtain ds fs bs acts where "as_texts (take 5 (key_decisions es)) = Some ds" "as_texts (take 5 (critical_findings es)) = Some fs"
      "as_texts (take 3 (blockers es)) = Some bs" "as_texts (take 3 (next_actions es)) = Some acts"
    using texts(1)[of 5] texts(2)[of 5] texts(3)[of 3] texts(4)[of 3] by blast
  then show ?thesis
    by (simp add: make_summary_def tokens_of_def Let_def)
qed

text \<open>What a task's summaries and buffer account for.\<close>

definition accounted_ids :: "orchestrator \<Rightarrow> uuid \<Rightarrow> uuid list" where
  "accounted_ids o1 t = concat (map ts_supersedes (get_all_summaries o1 t)) @ map se_id (buffer_of o1 t)"

definition accounted_tokens :: "orchestrator \<Rightarrow> uuid \<Rightarrow> nat" where
  "accounted_tokens o1 t = sum_list (map ts_original (get_all_summaries o1 t)) + tokens_of o1 t"

definition orch_ok :: "summarization_config \<Rightarrow> orchestrator \<Rightarrow> bool" where
  "orch_ok c o1 \<longleftrightarrow>
     or_config o1 = c \<and> length (or_gateway o1) \<le> 64 \<and> 0 < sc_max_events (or_config o1) \<and> 0 < sc_max_tokens (or_config o1) \<and>
     (\<forall>t. list_all plain_event (buffer_of o1 t) \<and> length (buffer_of o1 t) < sc_max_events (or_config o1) \<and>
        tokens_of o1 t < sc_max_tokens (or_config o1))"

lemma buffer_event_views [simp]:
  "buffer_of (buffer_event env e o1) t = buffer_of o1 t @ (if t = se_task e then [e] else [])"
  "tokens_of (buffer_event env e o1) t = tokens_of o1 t + (if t = se_task e then oe_size env (se_payload e) div 4 else 0)"
  "get_all_summaries (buffer_event env e o1) t = get_all_summaries o1 t"
  "or_config (buffer_event env e o1) = or_config o1" "or_gateway (buffer_event env e o1) = or_gateway o1"
  by (simp_all add: buffer_event_def buffer_of_def tokens_of_def get_all_summaries_def)

lemma summarize_plain:
  assumes "oe_published env" "length (or_gateway o1) \<le> 64" "list_all plain_event (buffer_of o1 task)" "buffer_of o1 task \<noteq> []"
  obtains s o2 msg where "summarize_task env task o1 = (Inr (), o2, [msg])"
    and "\<And>t. buffer_of o2 t = (if t = task then [] else buffer_of o1 t)"
    and "\<And>t. tokens_of o2 t = (if t = task then 0 else tokens_of o1 t)"
    and "\<And>t. get_all_summaries o2 t = get_all_summaries o1 t @ (if t = task then [s] else [])"
    and "or_config o2 = or_config o1" "or_gateway o2 = or_gateway o1"
    and "ts_supersedes s = map se_id (buffer_of o1 task)" "ts_original s = tokens_of o1 task"
proof -
  obtain s where s: "make_summary env o1 task (buffer_of o1 task) = Inr s" "ts_supersedes s = map se_id (buffer_of o1 task)"
      "ts_original s = tokens_of o1 task"
    using make_summary_plain[OF assms(3)] by blast
  have p: "publish_summary env o2 s = Inr (''swarm.summary.'' @ ts_task s, summary_event env o2 s)"
    if "or_gateway o2 = or_gateway o1" for o2
    using assms(1,2) that by (simp add: publish_summary_def valid_swarm_event_def summary_event_def)
  let ?o2 = "o1\<lparr>or_summaries := (or_summaries o1)(task \<mapsto> get_all_summaries o1 task @ [s]),
      or_buffers := (or_buffers o1)(task \<mapsto> []), or_tokens := (or_tokens o1)(task \<mapsto> 0)\<rparr>"
  let ?msg = "(''swarm.summary.'' @ ts_task s, summary_event env (o1\<lparr>or_summaries := (or_summaries o1)(task \<mapsto> get_all_summaries o1 task @ [s])\<rparr>) s)"
  have "summarize_task env task o1 = (Inr (), ?o2, [?msg])"
    using s(1) assms(4) by (simp add: summarize_task_def buffer_of_def get_all_summaries_def Let_def p)
  then show thesis
    by (rule that[of ?o2 ?msg s]) (simp_all add: buffer_of_def tokens_of_def get_all_summaries_def s(2,3)[unfolded buffer_of_def tokens_of_def])
qed

lemma handle_plain:
  assumes "oe_published env" "plain_event e" "orch_ok c o1"
  obtains o2 out where "handle_event env e o1 = (Inr (), o2, out)" and "orch_ok c o2"
    and "\<And>t. accounted_ids o2 t = accounted_ids o1 t @ (if t = se_task e then [se_id e] else [])"
    and "\<And>t. accounted_tokens o2 t = accounted_tokens o1 t + (if t = se_task e then oe_size env (se_payload e) div 4 else 0)"
proof -
  let ?b = "buffer_event env e o1"
  have b: "length (or_gateway ?b) \<le> 64" "list_all plain_event (buffer_of ?b t)" "buffer_of ?b (se_task e) \<noteq> []" for t
    using assms by (auto simp: orch_ok_def)
  show thesis
  proof (cases "should_summarize ?b (se_task e)")
    case True
    obtain s o2 msg where s: "summarize_task env (se_task e) ?b = (Inr (), o2, [msg])"
      "\<And>t. buffer_of o2 t = (if t = se_task e then [] else buffer_of ?b t)"
      "\<And>t. tokens_of o2 t = (if t = se_task e then 0 else tokens_of ?b t)"
      "\<And>t. get_all_summaries o2 t = get_all_summaries ?b t @ (if t = se_task e then [s] else [])"
      "or_config o2 = or_config ?b" "or_gateway o2 = or_gateway ?b"
      "ts_supersedes s = map se_id (buffer_of ?b (se_task e))" "ts_original s = tokens_of ?b (se_task e)"
      by (rule summarize_plain[OF assms(1) b(1,2) b(3)], rule that)
    have "handle_event env e o1 = (Inr (), o2, [msg])"
      using True s(1) by (simp add: handle_event_def Let_def)
    moreover have "orch_ok c o2"
      using assms(3) s(2,3,5,6) by (auto simp: orch_ok_def)
    ultimately show thesis
      by (rule that) (auto simp: accounted_ids_def accounted_tokens_def s)
  next
    case False
    then have "handle_event env e o1 = (Inr (), ?b, [])"
      by (simp add: handle_event_def Let_def)
    moreover have "orch_ok c ?b"
      using assms(2,3) False by (auto simp: orch_ok_def should_summarize_def not_le)
    ultimately show thesis
      by (rule that) (simp_all add: accounted_ids_def accounted_tokens_def)
  qed
qed

text \<open>The events of a task among the messages, and their tokens.\<close>

definition events_of :: "uuid \<Rightarrow> (orch_env \<times> swarm_event option) list \<Rightarrow> (orch_env \<times> swarm_event) list" where
  "events_of t msgs = [(env, e). (env, Some e) \<leftarrow> msgs, se_task e = t]"

definition good_messages :: "(orch_env \<times> swarm_event option) list \<Rightarrow> bool" where
  "good_messages msgs \<longleftrightarrow>
     list_all (\<lambda>(env, m). oe_published env \<and> (case m of Some e \<Rightarrow> plain_event e | None \<Rightarrow> True)) msgs"

lemma start_loop_accounts:
  "good_messages msgs \<Longrightarrow> orch_ok c o1 \<Longrightarrow> start_loop msgs o1 = (o2, out) \<Longrightarrow>
   orch_ok c o2 \<and> accounted_ids o2 t = accounted_ids o1 t @ map (\<lambda>(env, e). se_id e) (events_of t msgs) \<and>
   accounted_tokens o2 t = accounted_tokens o1 t + sum_list (map (\<lambda>(env, e). oe_size env (se_payload e) div 4) (events_of t msgs))"
proof (induction msgs o1 arbitrary: o2 out rule: start_loop.induct)
  case (3 env e rest o1)
  then have e: "oe_published env" "plain_event e" and rest: "good_messages rest"
    by (simp_all add: good_messages_def)
  obtain oh outh where h: "handle_event env e o1 = (Inr (), oh, outh)" "orch_ok c oh"
    "\<And>t. accounted_ids oh t = accounted_ids o1 t @ (if t = se_task e then [se_id e] else [])"
    "\<And>t. accounted_tokens oh t = accounted_tokens o1 t + (if t = se_task e then oe_size env (se_payload e) div 4 else 0)"
    by (rule handle_plain[OF e 3(3)], rule that)
  obtain o3 out' where r: "start_loop rest oh = (o3, out')"
    by fastforce
  have "o2 = o3"
    using 3(4) h(1) r by simp
  then show ?case
    using 3(1)[OF h(1)[symmetric] refl rest h(2) r] by (auto simp: h(3,4) events_of_def)
next
  case (2 env rest o1)
  then show ?case
    by (simp add: good_messages_def events_of_def)
qed (simp add: events_of_def)


section \<open>Properties\<close>

text \<open>
  (C18) While publications succeed and the summarised fields are texts, after any messages the
  summaries of a task followed by its buffer hold each of its events exactly once and in order,
  their token counts add up to the tokens of these events, and the buffer is below both limits.
\<close>

theorem orchestrator_accounts:
  assumes "good_messages msgs" and "length gateway \<le> 64" and "0 < sc_max_events c" and "0 < sc_max_tokens c"
    and "start_loop msgs (orchestrator_init gateway (Some c)) = (o2, out)"
  shows "concat (map ts_supersedes (get_all_summaries o2 t)) @ map se_id (buffer_of o2 t) =
      map (\<lambda>(env, e). se_id e) (events_of t msgs) \<and>
    sum_list (map ts_original (get_all_summaries o2 t)) + tokens_of o2 t =
      sum_list (map (\<lambda>(env, e). oe_size env (se_payload e) div 4) (events_of t msgs)) \<and>
    length (buffer_of o2 t) < sc_max_events c \<and> tokens_of o2 t < sc_max_tokens c"
proof -
  let ?o = "orchestrator_init gateway (Some c)"
  have init: "buffer_of ?o t = []" "tokens_of ?o t = 0" "get_all_summaries ?o t = []" "or_config ?o = c" "or_gateway ?o = gateway" for t
    by (simp_all add: orchestrator_init_def buffer_of_def tokens_of_def get_all_summaries_def)
  then have "orch_ok c ?o"
    using assms(2-4) by (simp add: orch_ok_def)
  from start_loop_accounts[OF assms(1) this assms(5), of t] show ?thesis
    by (auto simp: accounted_ids_def accounted_tokens_def orch_ok_def init)
qed

definition demo_env :: "string \<Rightarrow> orch_env" where
  "demo_env i = \<lparr>oe_size = (\<lambda>p. 40), oe_now = 0, oe_summary_id = ''s'' @ i, oe_event_id = ''p'' @ i, oe_published = True\<rparr>"

definition demo_event :: "string \<Rightarrow> event_type \<Rightarrow> payload \<Rightarrow> swarm_event" where
  "demo_event i et p = \<lparr>se_id = i, se_timestamp = 0, se_source = ''g'', se_type = et, se_task = ''t'', se_parent = None,
     se_payload = p, se_context = None, se_cost = 0, se_signature = None\<rparr>"

definition demo_messages :: "(orch_env \<times> swarm_event option) list" where
  "demo_messages =
     [(demo_env ''1'', Some (demo_event ''e1'' DECISION_MADE [(''decision'', JStr ''go'')])),
      (demo_env ''2'', Some (demo_event ''e2'' HEARTBEAT [])),
      (demo_env ''3'', None),
      (demo_env ''4'', Some (demo_event ''e3'' TASK_FAILED [(''error'', JStr ''late'')]))]"

theorem orchestrator_accounts_witness:
  "\<exists>o2 out. start_loop demo_messages (orchestrator_init ''g'' (Some (default_summarization\<lparr>sc_max_events := 2\<rparr>))) = (o2, out) \<and>
     concat (map ts_supersedes (get_all_summaries o2 ''t'')) @ map se_id (buffer_of o2 ''t'') = [''e1'', ''e2'', ''e3''] \<and>
     sum_list (map ts_original (get_all_summaries o2 ''t'')) + tokens_of o2 ''t'' = 30"
proof -
  let ?c = "default_summarization\<lparr>sc_max_events := 2\<rparr>"
  obtain o2 out where o2: "start_loop demo_messages (orchestrator_init ''g'' (Some ?c)) = (o2, out)"
    by fastforce
  have "good_messages demo_messages"
    by (simp add: good_messages_def demo_messages_def demo_env_def plain_event_def demo_event_def got_def dict_get_default_def is_text_def)
  moreover have "events_of ''t'' demo_messages =
      [(demo_env ''1'', demo_event ''e1'' DECISION_MADE [(''decision'', JStr ''go'')]),
       (demo_env ''2'', demo_event ''e2'' HEARTBEAT []), (demo_env ''4'', demo_event ''e3'' TASK_FAILED [(''error'', JStr ''late'')])]"
    by (simp add: events_of_def demo_messages_def demo_event_def)
  ultimately show ?thesis
    using orchestrator_accounts[OF _ _ _ _ o2, of "''t''"] o2
    by (simp add: default_summarization_def) (simp add: demo_env_def demo_event_def)
qed

lemma summarize_frame:
  assumes "t \<noteq> task"
  shows "buffer_of (fst (snd (summarize_task env task o1))) t = buffer_of o1 t \<and>
    get_all_summaries (fst (snd (summarize_task env task o1))) t = get_all_summaries o1 t"
  using assms
  by (simp add: summarize_task_def Let_def buffer_of_def get_all_summaries_def split: sum.splits)

text \<open>
  A decision that is not a text stays: once such an event heads the buffer of a task, no
  message ever summarises the task again, and every event of it is added to the buffer.
\<close>

theorem non_text_decision_blocks_summaries:
  assumes "buffer_of o1 t = e # es" and "se_type e = DECISION_MADE" and "\<not> is_text (got (se_payload e) ''decision'')"
    and "start_loop msgs o1 = (o2, out)"
  shows "buffer_of o2 t = buffer_of o1 t @ map snd (events_of t msgs) \<and> get_all_summaries o2 t = get_all_summaries o1 t"
proof -
  have stuck: "buffer_of (fst (snd (handle_event env m p))) t = buffer_of p t @ (if t = se_task m then [m] else []) \<and>
      get_all_summaries (fst (snd (handle_event env m p))) t = get_all_summaries p t"
    if head: "buffer_of p t = e # fs" for env m p fs
  proof -
    let ?b = "buffer_event env m p"
    have bad: "make_summary env ?b t (buffer_of ?b t) = Inl ValidationError"
    proof -
      obtain k where "key_decisions (buffer_of ?b t) = got (se_payload e) ''decision'' # k"
        using head assms(2) by (simp add: key_decisions_def)
      then have "as_texts (take 5 (key_decisions (buffer_of ?b t))) = None"
        using as_texts_iff[of "take 5 (key_decisions (buffer_of ?b t))"] assms(3) by (cases "as_texts (take 5 (key_decisions (buffer_of ?b t)))") auto
      then show ?thesis
        by (simp add: make_summary_def Let_def)
    qed
    have "summarize_task env t ?b = (Inl ValidationError, ?b, [])"
      using head bad by (simp add: summarize_task_def buffer_of_def[symmetric])
    then have "buffer_of (fst (snd (summarize_task env k ?b))) t = buffer_of ?b t \<and>
        get_all_summaries (fst (snd (summarize_task env k ?b))) t = get_all_summaries ?b t" for k
      using summarize_frame[of t k env ?b] by (cases "k = t") simp_all
    from this[of "se_task m"] show ?thesis
      by (cases "should_summarize ?b (se_task m)") (simp_all add: handle_event_def)
  qed
  show ?thesis
    using assms(1,4)
  proof (induction msgs o1 arbitrary: es out rule: start_loop.induct)
    case (3 env m rest p)
    obtain r oh outh where h: "handle_event env m p = (r, oh, outh)"
      by (metis prod_cases3)
    obtain out' where l: "start_loop rest oh = (o2, out')"
      using 3(3) h by (auto split: prod.splits)
    have oh: "buffer_of oh t = buffer_of p t @ (if t = se_task m then [m] else [])" "get_all_summaries oh t = get_all_summaries p t"
      using stuck[OF 3(2), of env m] h by simp_all
    then have "buffer_of oh t = e # es @ (if t = se_task m then [m] else [])"
      using 3(2) by simp
    from 3(1)[OF h[symmetric] refl this l] show ?case
      using oh by (auto simp: events_of_def)
  qed (auto simp: events_of_def)
qed


definition blocked_orchestrator :: orchestrator where
  "blocked_orchestrator =
     buffer_event (demo_env ''0'') (demo_event ''e0'' DECISION_MADE [(''decision'', JInt 7)]) (orchestrator_init ''g'' None)"

theorem non_text_decision_blocks_summaries_witness:
  "\<exists>o2 out. start_loop (concat (replicate 7 demo_messages)) blocked_orchestrator = (o2, out) \<and>
     length (buffer_of o2 ''t'') = 22 \<and> get_task_summary o2 ''t'' = None"
proof -
  obtain o2 out where o2: "start_loop (concat (replicate 7 demo_messages)) blocked_orchestrator = (o2, out)"
    by fastforce
  have b: "buffer_of blocked_orchestrator ''t'' = [demo_event ''e0'' DECISION_MADE [(''decision'', JInt 7)]]"
    "get_all_summaries blocked_orchestrator ''t'' = []"
    by (simp_all add: blocked_orchestrator_def demo_event_def orchestrator_init_def buffer_of_def get_all_summaries_def buffer_event_def)
  have "length (events_of ''t'' demo_messages) = 3" "events_of ''t'' (xs @ ys) = events_of ''t'' xs @ events_of ''t'' ys" for xs ys
    by (simp_all add: events_of_def demo_messages_def demo_event_def)
  then have "length (events_of ''t'' (concat (replicate 7 demo_messages))) = 21"
    by (simp add: numeral_eq_Suc)
  then show ?thesis
    using non_text_decision_blocks_summaries[OF b(1) _ _ o2] o2 b
    by (simp add: demo_event_def got_def dict_get_default_def is_text_def get_task_summary_def)
qed

section \<open>Spawning\<close>

definition draft_valid :: "orchestrator \<Rightarrow> subtask_request \<Rightarrow> bool" where
  "draft_valid o1 r \<longleftrightarrow>
     char_len (sr_title r) \<le> 256 \<and> 0 \<le> sr_budget r \<and> 0 \<le> sr_priority r \<and> sr_priority r \<le> 10 \<and> length (or_gateway o1) \<le> 64"

lemma spawn_subtask_cases:
  "spawn_subtask env o1 r =
     (if draft_valid o1 r
      then (if oe_published env then (Inr (oe_summary_id env), [(''swarm.task.drafted'', drafted_event env (or_gateway o1) r)])
            else (Inl PublishFailed, []))
      else (Inl ValidationError, []))"
  by (auto simp: spawn_subtask_def draft_valid_def valid_swarm_event_def drafted_event_def)

text \<open>
  Spawning several sub-tasks drafts, in order and under the given parent, those before the
  first that is invalid or cannot be published, and returns the identifiers only when there is
  none: a failure in the middle leaves published drafts whose identifiers are lost.
\<close>

theorem spawn_parallel_drafts_prefix:
  "spawn_parallel_subtasks o1 parent reqs =
     (let ok = (\<lambda>(env, r). draft_valid o1 r \<and> oe_published env); sent = takeWhile ok reqs in
      (if sent = reqs then Inr (map (\<lambda>(env, r). oe_summary_id env) reqs)
       else Inl (if draft_valid o1 (snd (reqs ! length sent)) then PublishFailed else ValidationError),
       map (\<lambda>(env, r). (''swarm.task.drafted'', drafted_event env (or_gateway o1) (r\<lparr>sr_parent := parent\<rparr>))) sent))"
proof (induction reqs)
  case (Cons x reqs)
  have "draft_valid o1 (r\<lparr>sr_parent := p\<rparr>) = draft_valid o1 r" for r p
    by (simp add: draft_valid_def)
  then show ?case
    using Cons by (cases x) (auto simp: spawn_subtask_cases Let_def simp del: takeWhile_eq_all_conv)
qed simp

end
