(* ===== verification/Wikilink.thy ===== *)
theory Wikilink imports Prelude begin

text \<open>
  The wikilink parser of \<open>memu/wiki/wikilink.py\<close>. The regular expression
  \<open>\[\[([^\[\]\|#]+)(#[^\[\]\|]+)?(\|[^\[\]]+)?\]\]\<close> is read as a deterministic scan: its classes
  are such that giving back a character of a group never makes the rest match, so no
  backtracking is needed, and \<open>finditer\<close> resumes after a match or one character on.

  Proved: the links written into any text without an opening bracket are exactly what the
  parser finds, once each and in order.
\<close>

record wiki_link =
  wl_slug :: string
  wl_anchor :: "string option"
  wl_alias :: "string option"

definition namespace :: "wiki_link \<Rightarrow> string option" where
  "namespace l = (if CHR ''/'' \<in> set (wl_slug l) then Some (takeWhile (\<lambda>c. c \<noteq> CHR ''/'') (wl_slug l)) else None)"

definition display :: "wiki_link \<Rightarrow> string" where
  "display l = (case wl_alias l of Some (c # a) \<Rightarrow> c # a | _ \<Rightarrow> wl_slug l)"

section \<open>The regular expression\<close>

definition slug_char :: "char \<Rightarrow> bool" where
  "slug_char c \<longleftrightarrow> c \<notin> {CHR ''['', CHR '']'', CHR ''|'', CHR ''#''}"

definition anchor_char :: "char \<Rightarrow> bool" where
  "anchor_char c \<longleftrightarrow> c \<notin> {CHR ''['', CHR '']'', CHR ''|''}"

definition alias_char :: "char \<Rightarrow> bool" where
  "alias_char c \<longleftrightarrow> c \<notin> {CHR ''['', CHR '']''}"

text \<open>An optional group: a mark and at least one character of a class. The group without its mark, and the rest.\<close>

definition optional_group :: "char \<Rightarrow> (char \<Rightarrow> bool) \<Rightarrow> string \<Rightarrow> string option \<times> string" where
  "optional_group mark ok s =
     (if s \<noteq> [] \<and> hd s = mark \<and> takeWhile ok (tl s) \<noteq> []
      then (Some (takeWhile ok (tl s)), dropWhile ok (tl s)) else (None, s))"

definition match_link :: "string \<Rightarrow> ((string \<times> string option \<times> string option) \<times> string) option" where
  "match_link s =
     (if is_prefix ''[['' s
      then (let r = drop 2 s; slug = takeWhile slug_char r in
        if slug = [] then None
        else (case optional_group (CHR ''#'') anchor_char (dropWhile slug_char r) of
                (anchor, r2) \<Rightarrow> (case optional_group (CHR ''|'') alias_char r2 of
                   (al1, r3) \<Rightarrow> if is_prefix '']]'' r3 then Some ((slug, anchor, al1), drop 2 r3) else None)))
      else None)"

lemma optional_group_length: "length (snd (optional_group m ok s)) \<le> length s"
  using length_dropWhile_le[of ok "tl s"] by (auto simp: optional_group_def)

lemma match_link_shorter: "match_link s = Some (g, rest) \<Longrightarrow> length rest < length s"
proof -
  assume m: "match_link s = Some (g, rest)"
  let ?r = "drop 2 s"
  let ?r1 = "dropWhile slug_char ?r"
  obtain anchor r2 where 2: "optional_group (CHR ''#'') anchor_char ?r1 = (anchor, r2)"
    by fastforce
  obtain al1 r3 where 3: "optional_group (CHR ''|'') alias_char r2 = (al1, r3)"
    by fastforce
  have "rest = drop 2 r3" "2 \<le> length s"
    using m 2 3 by (auto simp: match_link_def Let_def is_prefix_def split: if_splits dest: arg_cong[of _ _ length])
  moreover have "length r3 \<le> length ?r"
    using optional_group_length[of "CHR ''#''" anchor_char ?r1] optional_group_length[of "CHR ''|''" alias_char r2] 2 3
      length_dropWhile_le[of slug_char ?r] by simp
  ultimately show ?thesis
    by auto
qed

function find_links :: "string \<Rightarrow> (string \<times> string option \<times> string option) list" where
  "find_links s =
     (if s = [] then []
      else case match_link s of
             Some (g, rest) \<Rightarrow> g # find_links rest
           | None \<Rightarrow> find_links (tl s))"
  by auto
termination
  by (relation "measure length") (auto dest: match_link_shorter)

declare find_links.simps [simp del]

definition link_of_groups :: "string \<times> string option \<times> string option \<Rightarrow> wiki_link" where
  "link_of_groups g =
     (case g of (slug, anchor, al1) \<Rightarrow>
        \<lparr>wl_slug = strip slug, wl_anchor = map_option strip anchor, wl_alias = map_option strip al1\<rparr>)"

definition parse_wikilinks :: "string \<Rightarrow> wiki_link list" where
  "parse_wikilinks body = dedup (map link_of_groups (find_links body))"

definition iter_wikilinks :: "string list \<Rightarrow> wiki_link list" where
  "iter_wikilinks bodies = concat (map parse_wikilinks bodies)"

section \<open>Links written into a text\<close>

definition link_text :: "wiki_link \<Rightarrow> string" where
  "link_text l =
     ''[['' @ wl_slug l @ (case wl_anchor l of Some a \<Rightarrow> CHR ''#'' # a | None \<Rightarrow> [])
       @ (case wl_alias l of Some a \<Rightarrow> CHR ''|'' # a | None \<Rightarrow> []) @ '']]''"

definition tidy :: "(char \<Rightarrow> bool) \<Rightarrow> string \<Rightarrow> bool" where
  "tidy ok s \<longleftrightarrow> s \<noteq> [] \<and> strip s = s \<and> list_all ok s"

definition link_ok :: "wiki_link \<Rightarrow> bool" where
  "link_ok l \<longleftrightarrow> tidy slug_char (wl_slug l) \<and> (case wl_anchor l of Some a \<Rightarrow> tidy anchor_char a | None \<Rightarrow> True) \<and>
     (case wl_alias l of Some a \<Rightarrow> tidy alias_char a | None \<Rightarrow> True)"

lemma takeWhile_group:
  "list_all ok w \<Longrightarrow> s = [] \<or> \<not> ok (hd s) \<Longrightarrow> takeWhile ok (w @ s) = w \<and> dropWhile ok (w @ s) = s"
  by (induction w; cases s) auto

lemma match_link_text:
  assumes "link_ok l"
  shows "match_link (link_text l @ s) = Some ((wl_slug l, wl_anchor l, wl_alias l), s)"
proof -
  let ?an = "case wl_anchor l of Some a \<Rightarrow> CHR ''#'' # a | None \<Rightarrow> []"
  let ?al = "case wl_alias l of Some a \<Rightarrow> CHR ''|'' # a | None \<Rightarrow> []"
  have "takeWhile slug_char (wl_slug l @ ?an @ ?al @ '']]'' @ s) = wl_slug l \<and>
      dropWhile slug_char (wl_slug l @ ?an @ ?al @ '']]'' @ s) = ?an @ ?al @ '']]'' @ s"
    using assms by (intro takeWhile_group) (auto simp: link_ok_def tidy_def slug_char_def split: option.splits)
  moreover have "optional_group (CHR ''#'') anchor_char (?an @ ?al @ '']]'' @ s) = (wl_anchor l, ?al @ '']]'' @ s)"
  proof (cases "wl_anchor l")
    case (Some a)
    have "takeWhile anchor_char (a @ ?al @ '']]'' @ s) = a \<and> dropWhile anchor_char (a @ ?al @ '']]'' @ s) = ?al @ '']]'' @ s"
      using assms Some by (intro takeWhile_group) (auto simp: link_ok_def tidy_def anchor_char_def split: option.splits)
    then show ?thesis
      using assms Some by (simp add: optional_group_def link_ok_def tidy_def)
  qed (simp add: optional_group_def split: option.splits)
  moreover have "optional_group (CHR ''|'') alias_char (?al @ '']]'' @ s) = (wl_alias l, '']]'' @ s)"
  proof (cases "wl_alias l")
    case (Some a)
    have "takeWhile alias_char (a @ '']]'' @ s) = a \<and> dropWhile alias_char (a @ '']]'' @ s) = '']]'' @ s"
      using assms Some by (intro takeWhile_group) (auto simp: link_ok_def tidy_def alias_char_def)
    then show ?thesis
      using assms Some by (simp add: optional_group_def link_ok_def tidy_def)
  qed (simp add: optional_group_def)
  ultimately show ?thesis
    using assms by (simp add: match_link_def link_text_def is_prefix_def link_ok_def tidy_def Let_def)
qed

lemma link_of_tidy_groups: "link_ok l \<Longrightarrow> link_of_groups (wl_slug l, wl_anchor l, wl_alias l) = l"
  by (cases l) (auto simp: link_ok_def link_of_groups_def tidy_def split: option.splits)

lemma find_links_plain: "CHR ''['' \<notin> set t \<Longrightarrow> find_links (t @ s) = find_links s"
proof (induction t)
  case (Cons c t)
  then have "match_link (c # t @ s) = None"
    by (auto simp: match_link_def is_prefix_def)
  then show ?case
    using Cons by (subst find_links.simps) simp
qed simp

lemma find_links_text: "link_ok l \<Longrightarrow> find_links (link_text l @ s) = (wl_slug l, wl_anchor l, wl_alias l) # find_links s"
proof -
  assume "link_ok l"
  moreover have "link_text l @ s \<noteq> []"
    by (simp add: link_text_def)
  ultimately show ?thesis
    by (subst find_links.simps) (simp add: match_link_text)
qed

text \<open>
  (C19) In a text made of pieces without an opening bracket with well-formed links between
  them, the parser finds these links with their slugs, anchors and aliases, each once, in the
  order of their first occurrence.
\<close>

theorem wikilinks_roundtrip:
  assumes "list_all (\<lambda>(t, l). CHR ''['' \<notin> set t \<and> link_ok l) pieces" and "CHR ''['' \<notin> set rest"
  shows "parse_wikilinks (concat (map (\<lambda>(t, l). t @ link_text l) pieces) @ rest) = dedup (map snd pieces)"
proof -
  have "find_links rest = []"
    using find_links_plain[OF assms(2), of "[]"] by (simp add: find_links.simps)
  with assms(1) have "map link_of_groups (find_links (concat (map (\<lambda>(t, l). t @ link_text l) pieces) @ rest)) = map snd pieces"
    by (induction pieces) (auto simp: find_links_plain find_links_text link_of_tidy_groups)
  then show ?thesis
    by (simp add: parse_wikilinks_def)
qed

theorem wikilinks_roundtrip_witness:
  "parse_wikilinks ''see [[a]], [[paper/1#s|P]] and [[a]]'' =
     [\<lparr>wl_slug = ''a'', wl_anchor = None, wl_alias = None\<rparr>, \<lparr>wl_slug = ''paper/1'', wl_anchor = Some ''s'', wl_alias = Some ''P''\<rparr>]"
proof -
  let ?a = "\<lparr>wl_slug = ''a'', wl_anchor = None, wl_alias = None\<rparr>"
  let ?p = "\<lparr>wl_slug = ''paper/1'', wl_anchor = Some ''s'', wl_alias = Some ''P''\<rparr>"
  have ok: "list_all (\<lambda>(t, l). CHR ''['' \<notin> set t \<and> link_ok l) [(''see '', ?a), ('', '', ?p), ('' and '', ?a)]"
    by (simp add: link_ok_def tidy_def strip_def is_space_def slug_char_def anchor_char_def alias_char_def)
  have "dedup [?a, ?p, ?a] = [?a, ?p]"
    by (simp add: dedup_def)
  then show ?thesis
    using wikilinks_roundtrip[OF ok, of "[]"] by (simp add: link_text_def)
qed

text \<open>A link of blanks is not discarded: its slug is the empty string.\<close>

lemma blank_link_has_empty_slug: "map wl_slug (parse_wikilinks ''[[ ]]'') = [[]]"
  by code_simp

end
