(* ===== verification/Vault_Sync.thy ===== *)
theory Vault_Sync imports Vault_Codec Sqlite_Backend Wikilink begin

text \<open>
  Keeping an index in step with a vault (\<open>memu/wiki/sync.py\<close>), over any storage backend: \<open>get\<close>
  and \<open>put\<close> are its \<open>get_node\<close> and \<open>put_node\<close>. A path is the list of its parts after
  \<open>resolve\<close>; the files are a partial function to their text, \<open>None\<close> where reading raises.
  \<open>sync_env\<close> holds the root and what the module takes from elsewhere: how Python prints and
  parses floats and instants, the hexadecimal SHA-256 and UUIDv5. Log lines, the asyncio task
  of the watcher and elapsed times are left out.

  Proved: indexing a file again right after it was indexed finds it unchanged, on both
  backends (the locale \<open>indexed_store\<close> states what that takes of a backend); one poll reports
  each created, modified and deleted file; a change inside the debounce window of the previous
  one never reaches the index.
\<close>

type_synonym path = "string list"

datatype sync_outcome = Added | Updated | Unchanged | Skipped | Deleted | Error

record sync_action =
  sa_path :: path
  sa_slug :: "string option"
  sa_outcome :: sync_outcome

record sync_env =
  sy_root :: path
  sy_text :: py_text
  sy_iso :: "string \<Rightarrow> time option"
  sy_sha :: "string \<Rightarrow> string"
  sy_uuid5 :: "string \<Rightarrow> uuid"

section \<open>Paths\<close>

definition relative_to :: "path \<Rightarrow> path \<Rightarrow> path option" where
  "relative_to base p = (if take (length base) p = base then Some (drop (length base) p) else None)"

text \<open>\<open>Path.suffix\<close> and \<open>Path.stem\<close>: a dot at either end of the name starts no suffix.\<close>

definition name_suffix :: "string \<Rightarrow> string" where
  "name_suffix name =
     (let ext = takeWhile (\<lambda>c. c \<noteq> CHR ''.'') (rev name); before = dropWhile (\<lambda>c. c \<noteq> CHR ''.'') (rev name)
      in if ext = [] \<or> before = [] \<or> tl before = [] then [] else CHR ''.'' # rev ext)"

definition name_stem :: "string \<Rightarrow> string" where
  "name_stem name = take (length name - length (name_suffix name)) name"

definition ends_with :: "string \<Rightarrow> string \<Rightarrow> bool" where
  "ends_with s e \<longleftrightarrow> is_prefix (rev e) (rev s)"

definition is_vault_markdown :: "path \<Rightarrow> path \<Rightarrow> bool" where
  "is_vault_markdown base p \<longleftrightarrow>
     p \<noteq> [] \<and> lower (name_suffix (last p)) = ''.md'' \<and>
     (case relative_to base p of
        None \<Rightarrow> False
      | Some parts \<Rightarrow>
          if ''.memu'' \<in> set parts then False
          else if parts \<noteq> [] \<and> hd parts = ''_index'' then ends_with (last parts) ''.md''
          else True)"

definition tier_prefix :: "string \<Rightarrow> string option option" where
  "tier_prefix tier =
     (if tier = ''notes'' then Some None
      else if tier = ''papers'' then Some (Some ''paper'')
      else if tier = ''tasks'' then Some (Some ''task'')
      else if tier = ''code'' then Some (Some ''code'')
      else None)"

definition slug_for_path :: "path \<Rightarrow> string option" where
  "slug_for_path parts =
     (if parts = [] then None
      else (let ps = (if ends_with (last parts) ''.md''
                      then butlast parts @ [take (length (last parts) - 3) (last parts)] else parts);
                ps' = (case tier_prefix (hd ps) of
                         None \<Rightarrow> ps
                       | Some None \<Rightarrow> tl ps
                       | Some (Some t) \<Rightarrow> t # tl ps);
                slug = join_strings ''/'' ps'
            in if slug = [] then None else Some slug))"

definition slug_for :: "path \<Rightarrow> path \<Rightarrow> payload \<Rightarrow> string option" where
  "slug_for base p fm =
     (if nonempty (opt_str_field fm ''slug'') then opt_str_field fm ''slug''
      else case relative_to base p of None \<Rightarrow> None | Some parts \<Rightarrow> slug_for_path parts)"

definition infer_kind_from_path :: "path \<Rightarrow> path \<Rightarrow> string" where
  "infer_kind_from_path base p =
     (case relative_to base p of
        Some (first # others) \<Rightarrow>
          if first = ''code'' then ''code'' else if first = ''papers'' then ''paper''
          else if first = ''tasks'' then ''task'' else ''note''
      | _ \<Rightarrow> ''note'')"

definition as_posix :: "path \<Rightarrow> string" where
  "as_posix p = CHR ''/'' # join_strings ''/'' p"

definition derive_stable_id :: "(string \<Rightarrow> uuid) \<Rightarrow> path \<Rightarrow> path \<Rightarrow> uuid" where
  "derive_stable_id uuid5 base p =
     (let rel = (case relative_to base p of Some parts \<Rightarrow> join_strings ''/'' parts | None \<Rightarrow> as_posix p)
      in uuid5 (''memu-vault://'' @ as_posix base @ ''::'' @ rel))"

section \<open>Fields\<close>

text \<open>An instant in the frontmatter is the integer of its microseconds, as elsewhere, or a text.\<close>

definition parse_datetime :: "(string \<Rightarrow> time option) \<Rightarrow> json option \<Rightarrow> time option" where
  "parse_datetime fromiso v = (case v of Some (JInt t) \<Rightarrow> Some t | Some (JStr s) \<Rightarrow> fromiso s | _ \<Rightarrow> None)"

definition as_float :: "py_text \<Rightarrow> json option \<Rightarrow> real \<Rightarrow> real" where
  "as_float T v dflt =
     (case v of
        Some (JReal r) \<Rightarrow> r
      | Some (JInt i) \<Rightarrow> real_of_int i
      | Some (JBool b) \<Rightarrow> (if b then 1 else 0)
      | Some (JStr s) \<Rightarrow> (case float_of T s of Some r \<Rightarrow> r | None \<Rightarrow> dflt)
      | _ \<Rightarrow> dflt)"

text \<open>\<open>fm.get('id')\<close> when it is true, as text.\<close>

definition id_field :: "payload \<Rightarrow> uuid option" where
  "id_field fm =
     (case dict_get fm ''id'' of
        Some (JStr (c # s)) \<Rightarrow> Some (c # s)
      | Some (JInt i) \<Rightarrow> if i \<noteq> 0 then Some (show_int i) else None
      | _ \<Rightarrow> None)"

definition tags_field :: "payload \<Rightarrow> string list" where
  "tags_field fm =
     (case dict_get fm ''tags'' of
        Some (JList xs) \<Rightarrow> map json_str xs
      | Some (JStr s) \<Rightarrow> map (\<lambda>c. [c]) s
      | _ \<Rightarrow> [])"

definition or_text :: "string option \<Rightarrow> string \<Rightarrow> string" where
  "or_text v dflt = (if nonempty v then the v else dflt)"

section \<open>One file\<close>

definition synced_node ::
  "sync_env \<Rightarrow> time \<Rightarrow> path \<Rightarrow> string \<Rightarrow> payload \<times> string \<Rightarrow> string \<Rightarrow> wiki_node option \<Rightarrow> wiki_node" where
  "synced_node env now p slug parsed hash existing =
     (let fm = fst parsed; body = snd parsed in
      \<lparr>nd_id = or_text (case existing of Some n \<Rightarrow> Some (nd_id n) | None \<Rightarrow> id_field fm)
                 (derive_stable_id (sy_uuid5 env) (sy_root env) p),
       nd_slug = slug,
       nd_kind = or_text (opt_str_field fm ''kind'') (infer_kind_from_path (sy_root env) p),
       nd_title = or_text (opt_str_field fm ''title'') (name_stem (last p)),
       nd_body = body,
       nd_tags = tags_field fm,
       nd_links = map (\<lambda>l. \<lparr>lk_src_slug = slug, lk_dst_slug = wl_slug l, lk_type = ''related'', lk_strength = 1 / 2,
                            lk_src_id = None, lk_dst_id = None\<rparr>) (parse_wikilinks body),
       nd_metadata = dict_set ''content_hash'' (JStr hash) (obj_field fm ''metadata''),
       nd_created = (case parse_datetime (sy_iso env) (dict_get fm ''created'') of
                       Some t \<Rightarrow> Some t
                     | None \<Rightarrow> (case existing of Some n \<Rightarrow> nd_created n | None \<Rightarrow> Some now)),
       nd_updated = Some now, nd_happened = None,
       nd_salience = as_float (sy_text env) (dict_get fm ''salience'') (1 / 2),
       nd_confidence = as_float (sy_text env) (dict_get fm ''confidence'') 1,
       nd_agent = str_field fm ''agent_id'' ''vault-sync'', nd_type = str_field fm ''memory_type'' ''observation'',
       nd_source = (case dict_get fm ''source'' of Some (JObj s) \<Rightarrow> Some s | _ \<Rightarrow> None),
       nd_extra = [], nd_reinforced = 0, nd_last_reinforced = None\<rparr>)"

type_synonym 's node_get = "'s \<Rightarrow> string \<Rightarrow> store_error + wiki_node option"
type_synonym 's node_put = "wiki_node \<Rightarrow> 's \<Rightarrow> (store_error + wiki_node) \<times> 's"

definition hash_unchanged :: "wiki_node option \<Rightarrow> string \<Rightarrow> bool" where
  "hash_unchanged existing hash \<longleftrightarrow>
     (case existing of Some n \<Rightarrow> dict_get (nd_metadata n) ''content_hash'' = Some (JStr hash) | None \<Rightarrow> False)"

definition sync_text ::
  "sync_env \<Rightarrow> 's node_get \<Rightarrow> 's node_put \<Rightarrow> time \<Rightarrow> path \<Rightarrow> string \<Rightarrow> 's \<Rightarrow> (store_error + sync_action) \<times> 's" where
  "sync_text env get put now p raw s =
     (let parsed = parse_frontmatter (sy_text env) raw in
      case slug_for (sy_root env) p (fst parsed) of
        None \<Rightarrow> (Inr \<lparr>sa_path = p, sa_slug = None, sa_outcome = Skipped\<rparr>, s)
      | Some slug \<Rightarrow>
          (let hash = sy_sha env raw in
           case get s slug of
             Inl e \<Rightarrow> (Inl e, s)
           | Inr existing \<Rightarrow>
               if hash_unchanged existing hash then (Inr \<lparr>sa_path = p, sa_slug = Some slug, sa_outcome = Unchanged\<rparr>, s)
               else (case put (synced_node env now p slug parsed hash existing) s of
                       (Inl e, s') \<Rightarrow> (Inl e, s')
                     | (Inr n, s') \<Rightarrow>
                         (Inr \<lparr>sa_path = p, sa_slug = Some slug,
                               sa_outcome = (if existing \<noteq> None then Updated else Added)\<rparr>, s'))))"

definition reindex_file ::
  "sync_env \<Rightarrow> 's node_get \<Rightarrow> 's node_put \<Rightarrow> (path \<Rightarrow> string option) \<Rightarrow> time \<Rightarrow> path \<Rightarrow> 's \<Rightarrow>
   (store_error + sync_action) \<times> 's" where
  "reindex_file env get put files now p s =
     (if \<not> is_vault_markdown (sy_root env) p then (Inr \<lparr>sa_path = p, sa_slug = None, sa_outcome = Skipped\<rparr>, s)
      else case files p of
             None \<Rightarrow> (Inr \<lparr>sa_path = p, sa_slug = None, sa_outcome = Error\<rparr>, s)
           | Some raw \<Rightarrow> sync_text env get put now p raw s)"

definition handle_delete :: "path \<Rightarrow> sync_action" where
  "handle_delete p = \<lparr>sa_path = p, sa_slug = None, sa_outcome = Deleted\<rparr>"

text \<open>\<open>reindex_all\<close> over the paths \<open>rglob\<close> yields; an exception of the backend ends it.\<close>

fun reindex_all ::
  "sync_env \<Rightarrow> 's node_get \<Rightarrow> 's node_put \<Rightarrow> (path \<Rightarrow> string option) \<Rightarrow> time \<Rightarrow> path list \<Rightarrow> 's \<Rightarrow>
   (store_error + sync_action list) \<times> 's" where
  "reindex_all env get put files now [] s = (Inr [], s)"
| "reindex_all env get put files now (p # ps) s =
     (if \<not> is_vault_markdown (sy_root env) p then reindex_all env get put files now ps s
      else case reindex_file env get put files now p s of
             (Inl e, s') \<Rightarrow> (Inl e, s')
           | (Inr a, s') \<Rightarrow>
               (case reindex_all env get put files now ps s' of
                  (Inl e, s'') \<Rightarrow> (Inl e, s'')
                | (Inr acts, s'') \<Rightarrow> (Inr (a # acts), s'')))"

section \<open>Debouncing and watching\<close>

record debouncer =
  db_window :: time
  db_deadlines :: "string \<Rightarrow> time option"

definition should_fire :: "debouncer \<Rightarrow> string \<Rightarrow> time \<Rightarrow> bool" where
  "should_fire d key now \<longleftrightarrow> now \<ge> (case db_deadlines d key of Some t \<Rightarrow> t | None \<Rightarrow> 0)"

definition mark :: "debouncer \<Rightarrow> string \<Rightarrow> time \<Rightarrow> debouncer" where
  "mark d key now = d\<lparr>db_deadlines := (db_deadlines d)(key \<mapsto> now + db_window d)\<rparr>"

datatype file_event = Modified | Created | Removed

type_synonym snapshot = "(path, time) dict"

text \<open>One poll: the events for the new snapshot in its order, then the deletions (a set in the code).\<close>

definition entry_events :: "snapshot \<Rightarrow> path \<times> time \<Rightarrow> (path \<times> file_event) list" where
  "entry_events old e =
     (case dict_get old (fst e) of
        None \<Rightarrow> [(fst e, Created)]
      | Some prev \<Rightarrow> if snd e > prev then [(fst e, Modified)] else [])"

definition diff_events :: "snapshot \<Rightarrow> snapshot \<Rightarrow> (path \<times> file_event) list" where
  "diff_events old new =
     concat (map (entry_events old) new)
     @ map (\<lambda>p. (p, Removed)) (filter (\<lambda>p. p \<notin> set (dict_keys new)) (dict_keys old))"

text \<open>The callback of the daemon; \<open>_safe_call\<close> swallows the exception of the backend.\<close>

definition daemon_handle ::
  "sync_env \<Rightarrow> 's node_get \<Rightarrow> 's node_put \<Rightarrow> (path \<Rightarrow> string option) \<Rightarrow> time \<Rightarrow> path \<times> file_event \<Rightarrow>
   debouncer \<times> 's \<Rightarrow> debouncer \<times> 's" where
  "daemon_handle env get put files now pe ds =
     (case (pe, ds) of ((p, event), d, s) \<Rightarrow>
        if \<not> should_fire d (as_posix p) now then (d, s)
        else if event = Removed then (mark d (as_posix p) now, s)
        else (mark d (as_posix p) now, snd (reindex_file env get put files now p s)))"

definition poll ::
  "sync_env \<Rightarrow> 's node_get \<Rightarrow> 's node_put \<Rightarrow> (path \<Rightarrow> string option) \<Rightarrow> time \<Rightarrow> snapshot \<Rightarrow> snapshot \<Rightarrow>
   debouncer \<times> 's \<Rightarrow> debouncer \<times> 's" where
  "poll env get put files now old new ds = fold (daemon_handle env get put files now) (diff_events old new) ds"


section \<open>What syncing relies on\<close>

lemma synced_node_simps [simp]:
  "nd_slug (synced_node env now p slug parsed hash existing) = slug"
  "dict_get (nd_metadata (synced_node env now p slug parsed hash existing)) ''content_hash'' = Some (JStr hash)"
  by (simp_all add: synced_node_def Let_def)

text \<open>A node that is put is found under its slug with its metadata.\<close>

locale indexed_store =
  fixes get :: "'s \<Rightarrow> string \<Rightarrow> store_error + wiki_node option"
    and put :: "wiki_node \<Rightarrow> 's \<Rightarrow> (store_error + wiki_node) \<times> 's"
    and inv :: "'s \<Rightarrow> bool"
    and accepts :: "'s \<Rightarrow> wiki_node \<Rightarrow> bool"
  assumes put_inv: "inv s \<Longrightarrow> accepts s n \<Longrightarrow> inv (snd (put n s))"
    and put_found: "inv s \<Longrightarrow> accepts s n \<Longrightarrow> (\<exists>n'. fst (put n s) = Inr n') \<and>
          (\<exists>m. get (snd (put n s)) (nd_slug n) = Inr (Some m) \<and> nd_metadata m = nd_metadata n)"
begin

lemma synced_again:
  assumes s: "inv s" and slug: "slug_for (sy_root env) p (fst (parse_frontmatter (sy_text env) raw)) = Some slug"
    and seen: "get s slug = Inr existing"
    and ok: "accepts s (synced_node env now p slug (parse_frontmatter (sy_text env) raw) (sy_sha env raw) existing)"
    and call: "sync_text env get put now p raw s = (r, s')"
  shows "inv s' \<and> (\<exists>a. r = Inr a \<and> sa_outcome a \<in> {Added, Updated, Unchanged}) \<and>
    sync_text env get put now' p raw s' = (Inr \<lparr>sa_path = p, sa_slug = Some slug, sa_outcome = Unchanged\<rparr>, s')"
proof (cases "hash_unchanged existing (sy_sha env raw)")
  case True
  then have "r = Inr \<lparr>sa_path = p, sa_slug = Some slug, sa_outcome = Unchanged\<rparr>" "s' = s"
    using call slug seen by (simp_all add: sync_text_def)
  then show ?thesis
    using s True slug seen by (simp add: sync_text_def)
next
  case False
  let ?n = "synced_node env now p slug (parse_frontmatter (sy_text env) raw) (sy_sha env raw) existing"
  obtain n' m where n': "fst (put ?n s) = Inr n'" and m: "get (snd (put ?n s)) (nd_slug ?n) = Inr (Some m)" "nd_metadata m = nd_metadata ?n"
    using put_found[OF s ok] by blast
  obtain s1 where s1: "put ?n s = (Inr n', s1)"
    using n' by (cases "put ?n s") simp
  have "nd_slug ?n = slug"
    by simp
  with m s1 have found: "get s1 slug = Inr (Some m)"
    by simp
  have "hash_unchanged (Some m) (sy_sha env raw)"
    using m(2) by (simp add: hash_unchanged_def)
  moreover have "s' = s1" "\<exists>a. r = Inr a \<and> sa_outcome a \<in> {Added, Updated, Unchanged}"
    using call slug seen False s1 by (auto simp: sync_text_def)
  ultimately show ?thesis
    using put_inv[OF s ok] s1 slug found by (simp add: sync_text_def)
qed

end

section \<open>The two backends\<close>

definition sqlite_get :: "sqlite_store \<Rightarrow> string \<Rightarrow> store_error + wiki_node option" where
  "sqlite_get S ref = Inr (sqlite_get_node ref S)"

text \<open>No id is a slug: what keeps \<open>get_node\<close>, which accepts both, unambiguous.\<close>

definition sqlite_files :: "sqlite_store \<Rightarrow> wiki_node \<Rightarrow> bool" where
  "sqlite_files S n \<longleftrightarrow> sqlite_accepts S n \<and>
     (\<forall>r \<in> set (ss_nodes S). sn_id r \<noteq> nd_id n \<longrightarrow> sn_slug r \<noteq> nd_id n \<and> sn_id r \<noteq> nd_slug n)"

lemma sqlite_put_metadata:
  assumes inv: "sqlite_inv S" and ok: "sqlite_files S n"
  shows "\<exists>m. sqlite_get_node (nd_slug n) (snd (sqlite_put_node now n S)) = Some m \<and> nd_metadata m = nd_metadata n"
proof -
  have clash: "\<not> slug_clash S n"
    using ok by (simp add: sqlite_files_def sqlite_accepts_def)
  have dist: "distinct (map sn_id (ss_nodes S))"
    using inv by (simp add: sqlite_inv_def)
  let ?row = "(node_to_row now n)\<lparr>sn_created := created_of now n S\<rparr>"
  have "find (\<lambda>r. sn_id r = nd_slug n \<or> sn_slug r = nd_slug n) (upsert_row (node_to_row now n) (ss_nodes S)) = Some ?row"
  proof (rule find_unique)
    show "?row \<in> set (upsert_row (node_to_row now n) (ss_nodes S))"
      by (rule upserted_row(1)[OF dist])
    show "sn_id ?row = nd_slug n \<or> sn_slug ?row = nd_slug n"
      by (simp add: node_to_row_def)
    fix y assume y: "y \<in> set (upsert_row (node_to_row now n) (ss_nodes S))" "sn_id y = nd_slug n \<or> sn_slug y = nd_slug n"
    show "y = ?row"
    proof (cases "sn_id y = nd_id n")
      case False
      with y(1) have "y \<in> set (ss_nodes S)"
        by (rule upserted_row(3)[OF dist])
      then show ?thesis
        using ok clash False y(2) by (auto simp: slug_clash_def sqlite_files_def)
    qed (use y(1) upserted_row(2)[OF dist] in blast)
  qed
  then show ?thesis
    by (simp add: sqlite_get_node_def sqlite_put_state[OF clash] row_to_node_def node_to_row_def)
qed

interpretation sqlite_index: indexed_store sqlite_get "sqlite_put_node now" sqlite_inv sqlite_files for now
proof
  fix S n assume S: "sqlite_inv S" "sqlite_files S n"
  then have "sqlite_accepts S n"
    by (simp add: sqlite_files_def)
  then show "sqlite_inv (snd (sqlite_put_node now n S))"
    by (rule sqlite_nodes.put_inv[OF S(1)])
  show "(\<exists>n'. fst (sqlite_put_node now n S) = Inr n') \<and>
      (\<exists>m. sqlite_get (snd (sqlite_put_node now n S)) (nd_slug n) = Inr (Some m) \<and> nd_metadata m = nd_metadata n)"
    using sqlite_nodes.put_ok[OF S(1) \<open>sqlite_accepts S n\<close>] sqlite_put_metadata[OF S] by (auto simp: sqlite_get_def)
qed

interpretation markdown_index: indexed_store md_get_node "md_put_node H reload now" md_inv "md_accepts H reload now" for H reload now
proof
  fix V n assume V: "md_inv V" "md_accepts H reload now V n"
  show "md_inv (snd (md_put_node H reload now n V))"
    by (rule markdown_nodes.put_inv[OF V])
  have "nd_metadata (md_echo p b (put_target H now V n)) = nd_metadata n" for p b
    by (auto simp: md_echo_def put_target_def reinforced_def stamped_def Let_def split: sum.splits option.splits)
  then show "(\<exists>n'. fst (md_put_node H reload now n V) = Inr n') \<and>
      (\<exists>m. md_get_node (snd (md_put_node H reload now n V)) (nd_slug n) = Inr (Some m) \<and> nd_metadata m = nd_metadata n)"
    using markdown_nodes.put_ok[OF V] markdown_put_get_lemma[OF V] by (auto simp: md_get_node_def)
qed


section \<open>Properties\<close>


theorem markdown_reindex_is_idempotent:
  assumes "md_inv V" and "slug_for (sy_root env) p (fst (parse_frontmatter (sy_text env) raw)) = Some slug"
    and "md_get_node V slug = Inr existing"
    and "md_accepts H reload now V (synced_node env now p slug (parse_frontmatter (sy_text env) raw) (sy_sha env raw) existing)"
    and "sync_text env md_get_node (md_put_node H reload now) now p raw V = (r, V')"
  shows "sync_text env md_get_node (md_put_node H reload now) now' p raw V' =
      (Inr \<lparr>sa_path = p, sa_slug = Some slug, sa_outcome = Unchanged\<rparr>, V')"
  using markdown_index.synced_again[OF assms] by blast

text \<open>Two files of one vault can have one slug: each indexing then overwrites the node of the other.\<close>

lemma default_tier_shares_slugs:
  "slug_for_path [''notes'', ''foo.md''] = Some ''foo'' \<and> slug_for_path [''foo.md''] = Some ''foo'' \<and>
   slug_for_path [''papers'', ''a.md''] = slug_for_path [''paper'', ''a.md''] \<and> slug_for_path [''notes.md''] = None"
  by code_simp

section \<open>Watching\<close>

lemma entry_events_iff:
  "(q, ev) \<in> set (entry_events old (p, t)) \<longleftrightarrow>
   q = p \<and> (dict_get old p = None \<and> ev = Created \<or> (\<exists>t0. dict_get old p = Some t0 \<and> t0 < t \<and> ev = Modified))"
  by (auto simp: entry_events_def split: option.splits if_splits)

text \<open>
  For snapshots without duplicate paths a poll reports a path as created when it is new, as
  modified when its time grew, as removed when it is gone, at most once and nothing else.
\<close>

theorem poll_reports_changes:
  assumes "wf_dict old" and "wf_dict new"
  shows "distinct (map fst (diff_events old new)) \<and>
    set (diff_events old new) =
      {(p, Created) | p. dict_get old p = None \<and> dict_get new p \<noteq> None} \<union>
      {(p, Modified) | p. \<exists>t t'. dict_get old p = Some t \<and> dict_get new p = Some t' \<and> t < t'} \<union>
      {(p, Removed) | p. dict_get old p \<noteq> None \<and> dict_get new p = None}"
proof -
  let ?gone = "filter (\<lambda>p. p \<notin> set (dict_keys new)) (dict_keys old)"
  have new: "(p, t) \<in> set new \<longleftrightarrow> dict_get new p = Some t" for p t
    using assms(2) by (simp add: wf_dict_def)
  have one: "map fst (entry_events old e) = [] \<or> map fst (entry_events old e) = [fst e]" for e
    by (simp add: entry_events_def split: option.splits)
  have own: "x \<in> set (entry_events old e) \<Longrightarrow> fst x = fst e" for x e
    by (auto simp: entry_events_def split: option.splits if_splits)
  have keys: "set (map fst (concat (map (entry_events old) d))) \<subseteq> set (dict_keys d)" for d
    using own by (induction d) force+
  have "distinct (map fst (concat (map (entry_events old) d)))" if "wf_dict d" for d
    using that
  proof (induction d)
    case (Cons e d)
    then have "fst e \<notin> set (dict_keys d)" "wf_dict d"
      by (simp_all add: wf_dict_def)
    then have "fst e \<notin> set (map fst (concat (map (entry_events old) d)))"
      using keys[of d] by blast
    then show ?case
      using Cons.IH[OF \<open>wf_dict d\<close>] one[of e] by (force simp del: set_concat)
  qed simp
  then have "distinct (map fst (diff_events old new))"
    using assms keys[of new] by (auto simp: diff_events_def wf_dict_def o_def)
  moreover have "set (concat (map (entry_events old) new)) =
      {(p, Created) | p. dict_get old p = None \<and> dict_get new p \<noteq> None} \<union>
      {(p, Modified) | p. \<exists>t t'. dict_get old p = Some t \<and> dict_get new p = Some t' \<and> t < t'}"
  proof -
    have "x \<in> set (concat (map (entry_events old) new)) \<longleftrightarrow> (\<exists>p t. dict_get new p = Some t \<and> x \<in> set (entry_events old (p, t)))" for x
      using new by auto
    note iff = this
    show ?thesis
    proof (rule set_eqI)
      fix x
      show "x \<in> set (concat (map (entry_events old) new)) \<longleftrightarrow> x \<in>
          {(p, Created) | p. dict_get old p = None \<and> dict_get new p \<noteq> None} \<union>
          {(p, Modified) | p. \<exists>t t'. dict_get old p = Some t \<and> dict_get new p = Some t' \<and> t < t'}"
        unfolding iff by (cases x) (auto simp: entry_events_iff)
    qed
  qed
  moreover have "set (map (\<lambda>p. (p, Removed)) ?gone) = {(p, Removed) | p. dict_get old p \<noteq> None \<and> dict_get new p = None}"
    by (auto simp: dict_keys_dom[symmetric] dict_get_None image_iff)
  ultimately show ?thesis
    by (simp add: diff_events_def)
qed

text \<open>
  The debouncer drops the later of two changes, not the earlier: a change of a file within
  the window after the previous one is not indexed by the poll that reports it, and polls that
  see no further change of its time never report it again.
\<close>

theorem change_in_window_is_lost:
  assumes "daemon_handle env get put files t1 (p, e1) (d, s) = (d1, s1)" and "should_fire d (as_posix p) t1"
    and "t2 < t1 + db_window d" and "wf_dict new"
  shows "daemon_handle env get put files' t2 (p, Modified) (d1, s1) = (d1, s1) \<and>
    poll env get put files'' t3 new new (d1, s1) = (d1, s1)"
proof -
  have "d1 = mark d (as_posix p) t1"
    using assms(1,2) by (auto simp: daemon_handle_def split: if_splits)
  then have "\<not> should_fire d1 (as_posix p) t2"
    using assms(3) by (simp add: should_fire_def mark_def)
  moreover have "diff_events new new = []"
    using assms(4) by (auto simp: diff_events_def entry_events_def wf_dict_def)
  ultimately show ?thesis
    by (simp add: daemon_handle_def poll_def)
qed


section \<open>Witnesses\<close>

definition demo_sync :: sync_env where
  "demo_sync = \<lparr>sy_root = [''v''], sy_text = demo_py_text, sy_iso = (\<lambda>s. None), sy_sha = id, sy_uuid5 = id\<rparr>"

definition demo_vault_file :: path where
  "demo_vault_file = [''v'', ''notes'', ''a.md'']"

lemma demo_parsed: "parse_frontmatter (sy_text demo_sync) ''hi'' = ([], ''hi'')"
  by (simp add: parse_frontmatter_def delim_def is_prefix_def)


theorem poll_reports_changes_witness:
  "set (diff_events [([''a''], 1), ([''b''], 1), ([''c''], 1)] [([''b''], 1), ([''c''], 2), ([''d''], 1)]) =
     {([''d''], Created), ([''c''], Modified), ([''a''], Removed)}"
  by (subst poll_reports_changes[THEN conjunct2]) (auto simp: wf_dict_def)

theorem change_in_window_is_lost_witness:
  "\<exists>d1 s1. daemon_handle demo_sync sqlite_get (sqlite_put_node 5) [demo_vault_file \<mapsto> ''one''] 1000 (demo_vault_file, Created)
      (\<lparr>db_window = 500, db_deadlines = Map.empty\<rparr>, sqlite_empty) = (d1, s1) \<and>
    daemon_handle demo_sync sqlite_get (sqlite_put_node 5) [demo_vault_file \<mapsto> ''two''] 1400 (demo_vault_file, Modified) (d1, s1) = (d1, s1)"
proof -
  let ?d = "\<lparr>db_window = 500, db_deadlines = Map.empty\<rparr>"
  obtain d1 s1 where call: "daemon_handle demo_sync sqlite_get (sqlite_put_node 5) [demo_vault_file \<mapsto> ''one''] 1000
      (demo_vault_file, Created) (?d, sqlite_empty) = (d1, s1)"
    by fastforce
  have "should_fire ?d (as_posix demo_vault_file) 1000"
    by (simp add: should_fire_def)
  from change_in_window_is_lost[OF call this, of 1400 "[]" "[demo_vault_file \<mapsto> ''two'']" Map.empty 0] call show ?thesis
    by simp
qed

end
