(* ===== verification/Warden_Runtime.thy ===== *)
theory Warden_Runtime imports Prelude begin

text \<open>
  The warden (\<open>memu/warden_runtime.py\<close>): it records gateway heartbeats, declares the gateways
  whose heartbeat is overdue dead and starts replacement containers.

  What surrounds it comes as an environment for each message or watchdog pass: the clock and,
  per gateway, the verdict of the policy service, the answer of Docker to listing containers
  (\<open>None\<close> when it raises) and to starting one. What the warden does is a list of actions: the
  messages it publishes and the containers it starts. A watchdog pass is one step; the code
  awaits within it only to publish and to ask the policy service.

  Proved: the cap on containers holds in every reachable state and no spawn is ever pending
  between steps; the table of containers never shrinks, so a warden that has reached the cap
  never starts another; a watchdog pass over well-formed heartbeats keeps exactly the gateways
  in time and reports every other, and one malformed task id ends it.
\<close>

section \<open>State\<close>

record liveness =
  gl_gateway :: string
  gl_task :: "string option"
  gl_seen :: time
  gl_fencing :: int
  gl_count :: nat

record warden =
  wr_max :: nat
  wr_ttl :: time
  wr_cooldown :: time
  wr_fallback :: string
  wr_docker :: bool
  wr_liveness :: "(string, liveness) dict"
  wr_active :: "(string, string) dict"
  wr_retry :: "string \<Rightarrow> time option"
  wr_inflight :: "string set"

definition warden_init :: "nat \<Rightarrow> time \<Rightarrow> time \<Rightarrow> string \<Rightarrow> bool \<Rightarrow> warden" where
  "warden_init max_containers ttl cooldown fallback docker =
     \<lparr>wr_max = max_containers, wr_ttl = ttl, wr_cooldown = cooldown, wr_fallback = fallback, wr_docker = docker,
      wr_liveness = [], wr_active = [], wr_retry = Map.empty, wr_inflight = {}\<rparr>"

record spawn_env =
  sp_allowed :: bool
  sp_clock :: time
  sp_containers :: "string list option"
  sp_run :: "string option"

record warden_env =
  we_clock :: time
  we_spawn :: "string \<Rightarrow> spawn_env"

datatype warden_action =
    Task_Orphaned string string
  | Suicide string
  | Respawn_Requested string string
  | Container_Started string string

datatype warden_error = Invalid_Task | Invalid_Request | Not_A_Dict

section \<open>Spawning\<close>

definition retry_at :: "warden \<Rightarrow> string \<Rightarrow> time" where
  "retry_at w g = (case wr_retry w g of Some t \<Rightarrow> t | None \<Rightarrow> 0)"

definition respawn_name :: "string \<Rightarrow> string" where
  "respawn_name g = ''ward-respawn-'' @ g @ ''-''"

text \<open>\<open>True\<close> when the spawn must be skipped.\<close>

definition respawn_lock :: "spawn_env \<Rightarrow> string \<Rightarrow> warden \<Rightarrow> bool \<times> warden" where
  "respawn_lock env g w =
     (if card (wr_inflight w) \<ge> wr_max w then (True, w)
      else if sp_clock env < retry_at w g then (True, w)
      else if g \<in> wr_inflight w then (True, w)
      else if \<not> wr_docker w then (False, w)
      else if (case sp_containers env of Some names \<Rightarrow> \<exists>n\<in>set names. is_prefix (respawn_name g) n | None \<Rightarrow> False)
      then (True, w)
      else (False, w\<lparr>wr_inflight := insert g (wr_inflight w)\<rparr>))"

definition spawn_gateway_container ::
  "spawn_env \<Rightarrow> string \<Rightarrow> string option \<Rightarrow> warden \<Rightarrow> warden \<times> warden_action list" where
  "spawn_gateway_container env g task w =
     (if \<not> sp_allowed env then (w, [])
      else if \<not> wr_docker w then (w, [])
      else if length (wr_active w) \<ge> wr_max w then (w, [])
      else case respawn_lock env g w of
             (True, w1) \<Rightarrow> (w1, [])
           | (False, w1) \<Rightarrow>
               (case sp_run env of
                  Some container \<Rightarrow>
                    (w1\<lparr>wr_active := dict_set g container (wr_active w1), wr_inflight := wr_inflight w1 - {g},
                        wr_retry := (wr_retry w1)(g := None)\<rparr>,
                     [Container_Started g (if nonempty task then the task else wr_fallback w1)])
                | None \<Rightarrow>
                    (w1\<lparr>wr_retry := (wr_retry w1)(g \<mapsto> sp_clock env + wr_cooldown w1), wr_inflight := wr_inflight w1 - {g}\<rparr>,
                     [])))"

definition can_spawn :: "spawn_env \<Rightarrow> string \<Rightarrow> warden \<Rightarrow> bool" where
  "can_spawn env g w \<longleftrightarrow> g \<notin> wr_inflight w \<and> \<not> sp_clock env < retry_at w g"

definition request_respawn ::
  "spawn_env \<Rightarrow> string \<Rightarrow> string option \<Rightarrow> warden \<Rightarrow> warden_error + warden_action list" where
  "request_respawn env g task w =
     (if \<not> nonempty task then Inr []
      else if \<not> can_spawn env g w then Inr []
      else if char_len g > 64 \<or> uuid_parse (the task) = None then Inl Invalid_Request
      else Inr [Respawn_Requested g (the task)])"

section \<open>The watchdog\<close>

text \<open>\<open>TaskOrphaned\<close> and \<open>SwarmEvent\<close> want a UUID; the error leaves the loop.\<close>

definition handle_expired_gateway ::
  "spawn_env \<Rightarrow> liveness \<Rightarrow> warden \<Rightarrow> (warden_error + unit) \<times> warden \<times> warden_action list" where
  "handle_expired_gateway env st w =
     (let g = gl_gateway st; task = gl_task st in
      if nonempty task \<and> uuid_parse (the task) = None then (Inl Invalid_Task, w, [])
      else
       (let notice = (if nonempty task then [Task_Orphaned (the task) g] else []) @ [Suicide g] in
        case request_respawn env g task w of
          Inl e \<Rightarrow> (Inl e, w, notice)
        | Inr out \<Rightarrow>
            (case spawn_gateway_container env g task w of
               (w1, started) \<Rightarrow> (Inr (), w1, notice @ out @ started))))"

definition in_time :: "time \<Rightarrow> warden \<Rightarrow> liveness \<Rightarrow> bool" where
  "in_time now w st \<longleftrightarrow> now - gl_seen st \<le> wr_ttl w"

fun watchdog_over ::
  "warden_env \<Rightarrow> (string \<times> liveness) list \<Rightarrow> warden \<Rightarrow> (warden_error + unit) \<times> warden \<times> warden_action list" where
  "watchdog_over env [] w = (Inr (), w, [])"
| "watchdog_over env ((g, st) # others) w =
     (if in_time (we_clock env) w st then watchdog_over env others w
      else case handle_expired_gateway (we_spawn env g) st w of
             (Inl e, w1, out) \<Rightarrow> (Inl e, w1, out)
           | (Inr u, w1, out) \<Rightarrow>
               (case watchdog_over env others (w1\<lparr>wr_liveness := dict_del g (wr_liveness w1)\<rparr>) of
                  (r, w2, out') \<Rightarrow> (r, w2, out @ out')))"

definition watchdog_pass ::
  "warden_env \<Rightarrow> warden \<Rightarrow> (warden_error + unit) \<times> warden \<times> warden_action list" where
  "watchdog_pass env w = watchdog_over env (wr_liveness w) w"

section \<open>Messages\<close>

definition touched :: "time \<Rightarrow> liveness \<Rightarrow> liveness" where
  "touched now st = st\<lparr>gl_seen := now, gl_count := gl_count st + 1\<rparr>"

definition record_heartbeat :: "time \<Rightarrow> string \<Rightarrow> string \<Rightarrow> warden \<Rightarrow> warden" where
  "record_heartbeat now g task w =
     (let st = (case dict_get (wr_liveness w) g of
                  Some st \<Rightarrow> st
                | None \<Rightarrow> \<lparr>gl_gateway = g, gl_task = Some task, gl_seen = now, gl_fencing = 0, gl_count = 0\<rparr>)
      in w\<lparr>wr_liveness := dict_set g (touched now (st\<lparr>gl_task := Some task\<rparr>)) (wr_liveness w)\<rparr>)"

text \<open>
  \<open>_decode_msg\<close>: what is not JSON becomes an empty dict. \<open>HeartbeatPing\<close> wants a gateway and a
  UUID; the texts of numbers pydantic would convert are refused here.
\<close>

definition decode_msg :: "json option \<Rightarrow> json" where
  "decode_msg m = (case m of Some v \<Rightarrow> v | None \<Rightarrow> JObj [])"

definition progress_ok :: "payload \<Rightarrow> bool" where
  "progress_ok p \<longleftrightarrow>
     (case dict_get p ''progress_pct'' of
        None \<Rightarrow> True
      | Some (JInt i) \<Rightarrow> 0 \<le> i \<and> i \<le> 100
      | Some (JReal r) \<Rightarrow> 0 \<le> r \<and> r \<le> 100
      | Some (JBool b) \<Rightarrow> True
      | _ \<Rightarrow> False) \<and>
     (case dict_get p ''status_note'' of None \<Rightarrow> True | Some JNull \<Rightarrow> True | Some (JStr s) \<Rightarrow> True | _ \<Rightarrow> False)"

definition on_heartbeat :: "time \<Rightarrow> json option \<Rightarrow> warden \<Rightarrow> warden" where
  "on_heartbeat now m w =
     (case decode_msg m of
        JObj p \<Rightarrow>
          (case (opt_str_field p ''gateway_id'', Option.bind (opt_str_field p ''task_id'') uuid_parse) of
             (Some g, Some task) \<Rightarrow> if progress_ok p then record_heartbeat now g task w else w
           | _ \<Rightarrow> w)
      | _ \<Rightarrow> w)"

text \<open>\<open>py_str\<close> is \<open>str\<close> of a JSON value; a gateway id that is not a text is not considered.\<close>

definition on_event_heartbeat :: "(json \<Rightarrow> string) \<Rightarrow> time \<Rightarrow> json option \<Rightarrow> warden \<Rightarrow> warden" where
  "on_event_heartbeat py_str now m w =
     (let data = decode_msg m;
          pl = (case data of JObj p \<Rightarrow> (case dict_get p ''payload'' of Some v \<Rightarrow> v | None \<Rightarrow> data) | _ \<Rightarrow> data)
      in case pl of
           JObj p \<Rightarrow>
             (case (opt_str_field p ''gateway_id'', dict_get p ''task_id'') of
                (Some g, Some task) \<Rightarrow>
                  if g = [] \<or> task = JNull then w else record_heartbeat now g (py_str task) w
              | _ \<Rightarrow> w)
         | _ \<Rightarrow> w)"

text \<open>
  The request is validated by its schema, with its own id and time taken as valid; its
  signature is a field like the others.
\<close>

definition respawn_request :: "payload \<Rightarrow> (string \<times> string option) option" where
  "respawn_request p =
     (case (opt_str_field p ''target_role'', opt_str_field p ''dead_gateway_id'', opt_str_field p ''reason'',
            opt_str_field p ''requesting_gateway'', opt_str_field p ''signature'') of
        (Some role, Some g, Some reason, Some by, Some sig) \<Rightarrow>
          if char_len role > 64 \<or> char_len g > 64 \<or> char_len reason > 500 \<or> char_len by > 64 then None
          else (case dict_get p ''task_id'' of
                  None \<Rightarrow> Some (g, None)
                | Some JNull \<Rightarrow> Some (g, None)
                | Some (JStr t) \<Rightarrow> (case uuid_parse t of Some u \<Rightarrow> Some (g, Some u) | None \<Rightarrow> None)
                | _ \<Rightarrow> None)
      | _ \<Rightarrow> None)"

definition on_respawn :: "warden_env \<Rightarrow> json option \<Rightarrow> warden \<Rightarrow> (warden_error + unit) \<times> warden \<times> warden_action list" where
  "on_respawn env m w =
     (case decode_msg m of
        JObj p \<Rightarrow>
          (case respawn_request p of
             None \<Rightarrow> (Inr (), w, [])
           | Some (g, task) \<Rightarrow>
               (case spawn_gateway_container (we_spawn env g) g task w of (w1, out) \<Rightarrow> (Inr (), w1, out)))
      | _ \<Rightarrow> (Inl Not_A_Dict, w, []))"

section \<open>Runs\<close>

datatype warden_input =
    Heartbeat "json option"
  | Event_Heartbeat "json option"
  | Respawn "json option"
  | Watchdog

text \<open>One turn of one of the three loops.\<close>

definition warden_step ::
  "(json \<Rightarrow> string) \<Rightarrow> warden_env \<Rightarrow> warden_input \<Rightarrow> warden \<Rightarrow> (warden_error + unit) \<times> warden \<times> warden_action list" where
  "warden_step py_str env i w =
     (case i of
        Heartbeat m \<Rightarrow> (Inr (), on_heartbeat (we_clock env) m w, [])
      | Event_Heartbeat m \<Rightarrow> (Inr (), on_event_heartbeat py_str (we_clock env) m w, [])
      | Respawn m \<Rightarrow> on_respawn env m w
      | Watchdog \<Rightarrow> watchdog_pass env w)"

inductive warden_run :: "(json \<Rightarrow> string) \<Rightarrow> warden \<Rightarrow> warden_action list \<Rightarrow> warden \<Rightarrow> bool"
  for py_str and w0 where
  start: "warden_run py_str w0 [] w0"
| step: "warden_run py_str w0 done w \<Longrightarrow> warden_step py_str env i w = (r, w', out) \<Longrightarrow>
    warden_run py_str w0 (done @ out) w'"


section \<open>The cap on containers\<close>

definition warden_ok :: "warden \<Rightarrow> bool" where
  "warden_ok w \<longleftrightarrow> wr_inflight w = {} \<and> length (wr_active w) \<le> wr_max w \<and> wf_dict (wr_liveness w) \<and>
     (\<forall>g st. dict_get (wr_liveness w) g = Some st \<longrightarrow> gl_gateway st = g)"

text \<open>What a spawn may do to the rest of the state.\<close>

definition grows :: "warden \<Rightarrow> warden_action list \<Rightarrow> warden \<Rightarrow> bool" where
  "grows w out w' \<longleftrightarrow> wr_max w' = wr_max w \<and> length (wr_active w) \<le> length (wr_active w') \<and>
     (if length (wr_active w) \<ge> wr_max w then wr_active w' = wr_active w \<and> (\<forall>g t. Container_Started g t \<notin> set out) else True)"

lemma grows_refl: "\<forall>g t. Container_Started g t \<notin> set out \<Longrightarrow> wr_max w' = wr_max w \<Longrightarrow> wr_active w' = wr_active w \<Longrightarrow> grows w out w'"
  by (simp add: grows_def)

lemma grows_trans: "grows w out w' \<Longrightarrow> grows w' out' w'' \<Longrightarrow> grows w (out @ out') w''"
  by (auto simp: grows_def split: if_splits)

lemma length_dict_set: "length (dict_set k v d) = (if k \<in> set (dict_keys d) then length d else Suc (length d))"
  by (induction d) auto

lemma spawn_effect:
  assumes "spawn_gateway_container env g task w = (w', out)" and "wr_inflight w = {}"
  shows "wr_inflight w' = {} \<and> grows w out w' \<and> (length (wr_active w) \<le> wr_max w \<longrightarrow> length (wr_active w') \<le> wr_max w) \<and>
    wr_liveness w' = wr_liveness w"
  using assms
  by (auto simp: spawn_gateway_container_def respawn_lock_def grows_def length_dict_set
      split: if_splits option.splits prod.splits bool.splits)

lemma handle_expired_effect:
  assumes "handle_expired_gateway env st w = (r, w', out)" and "wr_inflight w = {}"
  shows "wr_inflight w' = {} \<and> grows w out w' \<and> (length (wr_active w) \<le> wr_max w \<longrightarrow> length (wr_active w') \<le> wr_max w) \<and>
    wr_liveness w' = wr_liveness w"
proof -
  obtain w1 started where s: "spawn_gateway_container env (gl_gateway st) (gl_task st) w = (w1, started)"
    by fastforce
  have quiet: "grows w q w" if "\<forall>g t. Container_Started g t \<notin> set q" for q
    using that by (simp add: grows_refl)
  have asked: "\<forall>g t. Container_Started g t \<notin> set q" if "request_respawn env g' t' w = Inr q" for g' t' q
    using that by (auto simp: request_respawn_def split: if_splits)
  show ?thesis
    using assms s spawn_effect[OF s assms(2)] quiet asked
    by (auto simp: handle_expired_gateway_def Let_def grows_def split: if_splits sum.splits)
qed

lemma watchdog_effect:
  "watchdog_over env others w = (r, w', out) \<Longrightarrow> warden_ok w \<Longrightarrow> warden_ok w' \<and> grows w out w'"
proof (induction env others w arbitrary: r w' out rule: watchdog_over.induct)
  case (2 env g st others w)
  show ?case
  proof (cases "in_time (we_clock env) w st")
    case True
    then show ?thesis
      using 2(1) 2(3,4) by simp
  next
    case False
    obtain r1 w1 out1 where h: "handle_expired_gateway (we_spawn env g) st w = (r1, w1, out1)"
      by (metis prod_cases3)
    have e: "wr_inflight w1 = {}" "grows w out1 w1" "length (wr_active w1) \<le> wr_max w" "wr_liveness w1 = wr_liveness w"
      using handle_expired_effect[OF h] 2(4) by (auto simp: warden_ok_def)
    have ok: "warden_ok w1" "warden_ok (w1\<lparr>wr_liveness := dict_del g (wr_liveness w1)\<rparr>)"
      using e 2(4) by (auto simp: warden_ok_def grows_def)
    show ?thesis
    proof (cases r1)
      case (Inl err)
      then show ?thesis
        using False h 2(3) e(2) ok(1) by simp
    next
      case (Inr u)
      obtain r2 w2 out2 where l: "watchdog_over env others (w1\<lparr>wr_liveness := dict_del g (wr_liveness w1)\<rparr>) = (r2, w2, out2)"
        by (metis prod_cases3)
      have "grows w1 [] (w1\<lparr>wr_liveness := dict_del g (wr_liveness w1)\<rparr>)"
        by (simp add: grows_def)
      then have "warden_ok w2 \<and> grows w (out1 @ [] @ out2) w2"
        using 2(2)[OF False h[symmetric] Inr refl l ok(2)] grows_trans e(2) by blast
      then show ?thesis
        using False h Inr l 2(3) by simp
    qed
  qed
qed (simp add: grows_def)

lemma record_heartbeat_ok: "warden_ok w \<Longrightarrow> warden_ok (record_heartbeat now g task w) \<and> grows w [] (record_heartbeat now g task w)"
  by (auto simp: record_heartbeat_def warden_ok_def touched_def grows_def Let_def split: option.splits)

lemma warden_step_effect:
  assumes "warden_step py_str env i w = (r, w', out)" and "warden_ok w"
  shows "warden_ok w' \<and> grows w out w'"
proof -
  have same: "grows w [] w"
    by (simp add: grows_def)
  show ?thesis
  proof (cases i)
    case (Heartbeat m)
    then show ?thesis
      using assms record_heartbeat_ok same
      by (auto simp: warden_step_def on_heartbeat_def split: json.splits option.splits)
  next
    case (Event_Heartbeat m)
    then show ?thesis
      using assms record_heartbeat_ok same
      by (auto simp: warden_step_def on_event_heartbeat_def Let_def split: json.splits option.splits)
  next
    case (Respawn m)
    then show ?thesis
      using assms same
      by (auto simp: warden_step_def on_respawn_def warden_ok_def grows_def dest!: spawn_effect
          split: json.splits option.splits prod.splits)
  next
    case Watchdog
    then show ?thesis
      using assms watchdog_effect by (simp add: warden_step_def watchdog_pass_def)
  qed
qed

lemma warden_run_effect: "warden_run py_str w out w' \<Longrightarrow> warden_ok w \<Longrightarrow> warden_ok w' \<and> grows w out w'"
proof (induction rule: warden_run.induct)
  case start
  then show ?case
    by (simp add: grows_def)
next
  case (step sofar w1 env i r w2 out)
  then show ?case
    using warden_step_effect grows_trans by blast
qed


section \<open>Properties\<close>


text \<open>
  A warden at the cap never starts a container again, whatever happens to those it
  started: nothing takes an entry out of the table of containers.
\<close>

theorem warden_at_cap_is_done:
  assumes "warden_ok w" and "length (wr_active w) = wr_max w" and "warden_run py_str w out w'"
  shows "wr_active w' = wr_active w \<and> (\<forall>g t. Container_Started g t \<notin> set out)"
  using warden_run_effect[OF assms(3,1)] assms(2) by (simp add: grows_def)

section \<open>A watchdog pass\<close>

text \<open>A heartbeat the warden can act on: its task, if any, is a UUID and its gateway has an admissible name.\<close>

definition actionable :: "liveness \<Rightarrow> bool" where
  "actionable st \<longleftrightarrow> (if nonempty (gl_task st) then uuid_parse (the (gl_task st)) \<noteq> None \<and> char_len (gl_gateway st) \<le> 64 else True)"

definition overdue_notices :: "liveness \<Rightarrow> warden_action list" where
  "overdue_notices st = (if nonempty (gl_task st) then [Task_Orphaned (the (gl_task st)) (gl_gateway st)] else []) @ [Suicide (gl_gateway st)]"

definition is_notice :: "warden_action \<Rightarrow> bool" where
  "is_notice a = (case a of Task_Orphaned _ _ \<Rightarrow> True | Suicide _ \<Rightarrow> True | _ \<Rightarrow> False)"

lemma handle_actionable:
  assumes "actionable st"
  shows "\<exists>w' out. handle_expired_gateway env st w = (Inr (), w', out) \<and> filter is_notice out = overdue_notices st \<and>
    wr_liveness w' = wr_liveness w \<and> wr_ttl w' = wr_ttl w"
proof -
  obtain w1 started where s: "spawn_gateway_container env (gl_gateway st) (gl_task st) w = (w1, started)"
    by fastforce
  have live: "wr_liveness w1 = wr_liveness w" "wr_ttl w1 = wr_ttl w" "filter is_notice started = []"
    using s by (auto simp: spawn_gateway_container_def respawn_lock_def is_notice_def
        split: if_splits option.splits prod.splits bool.splits)
  have "request_respawn env (gl_gateway st) (gl_task st) w = Inr [] \<or>
      request_respawn env (gl_gateway st) (gl_task st) w = Inr [Respawn_Requested (gl_gateway st) (the (gl_task st))]"
    using assms by (auto simp: request_respawn_def actionable_def split: if_splits)
  then obtain asked where a: "request_respawn env (gl_gateway st) (gl_task st) w = Inr asked" "filter is_notice asked = []"
    by (auto simp: is_notice_def)
  then show ?thesis
    using assms s live by (auto simp: handle_expired_gateway_def Let_def actionable_def overdue_notices_def is_notice_def)
qed

definition overdue :: "time \<Rightarrow> warden \<Rightarrow> (string \<times> liveness) list \<Rightarrow> (string \<times> liveness) list" where
  "overdue now w others = filter (\<lambda>(g, st). \<not> in_time now w st) others"

lemma watchdog_actionable:
  "\<forall>(g, st)\<in>set others. actionable st \<Longrightarrow>
   \<exists>w' out. watchdog_over env others w = (Inr (), w', out) \<and>
     wr_liveness w' = filter (\<lambda>e. fst e \<notin> fst ` set (overdue (we_clock env) w others)) (wr_liveness w) \<and>
     filter is_notice out = concat (map (\<lambda>(g, st). overdue_notices st) (overdue (we_clock env) w others)) \<and>
     wr_ttl w' = wr_ttl w"
proof (induction others arbitrary: w)
  case (Cons e others)
  obtain g st where e: "e = (g, st)"
    by fastforce
  show ?case
  proof (cases "in_time (we_clock env) w st")
    case True
    then show ?thesis
      using Cons.IH[of w] Cons.prems by (simp add: e overdue_def)
  next
    case False
    obtain w1 out1 where h: "handle_expired_gateway (we_spawn env g) st w = (Inr (), w1, out1)"
      "filter is_notice out1 = overdue_notices st" "wr_liveness w1 = wr_liveness w" "wr_ttl w1 = wr_ttl w"
      using handle_actionable Cons.prems e by (metis (no_types, lifting) case_prodD list.set_intros(1))
    let ?w = "w1\<lparr>wr_liveness := dict_del g (wr_liveness w1)\<rparr>"
    have t: "overdue now ?w others = overdue now w others" for now
      by (simp add: overdue_def in_time_def h(4))
    obtain w2 out2 where l: "watchdog_over env others ?w = (Inr (), w2, out2)"
      "wr_liveness w2 = filter (\<lambda>e. fst e \<notin> fst ` set (overdue (we_clock env) w others)) (wr_liveness ?w)"
      "filter is_notice out2 = concat (map (\<lambda>(g, st). overdue_notices st) (overdue (we_clock env) w others))"
      "wr_ttl w2 = wr_ttl ?w"
      using Cons.IH[of ?w] Cons.prems unfolding t by auto
    have o: "overdue (we_clock env) w (e # others) = (g, st) # overdue (we_clock env) w others"
      using False by (simp add: overdue_def e)
    have "wr_liveness w2 = filter (\<lambda>e. fst e \<notin> fst ` set ((g, st) # overdue (we_clock env) w others)) (wr_liveness w)"
      using l(2) by (simp add: h(3) AList.delete_eq) (auto intro!: filter_cong)
    then show ?thesis
      using False h(1,2,4) l by (simp add: o) (simp add: e)
  qed
qed (simp add: overdue_def)


text \<open>
  An event heartbeat may name any task. If it is not a UUID the pass after its expiry raises
  before the gateway is taken out and looks at none after it; the loop has no handler, so the
  warden ends.
\<close>

theorem malformed_task_ends_watchdog:
  assumes "wr_liveness w = (g, st) # others" and "\<not> in_time (we_clock env) w st"
    and "gl_task st = Some task" and "task \<noteq> []" and "uuid_parse task = None"
  shows "watchdog_pass env w = (Inl Invalid_Task, w, [])"
  using assms by (simp add: watchdog_pass_def handle_expired_gateway_def Let_def)


section \<open>Witnesses\<close>

definition demo_warden :: warden where
  "demo_warden = warden_init 1 (seconds 10) (seconds 30) '''' True"

definition demo_uuid :: string where
  "demo_uuid = ''00000000-0000-0000-0000-000000000001''"

definition demo_warden_env :: "time \<Rightarrow> warden_env" where
  "demo_warden_env now =
     \<lparr>we_clock = now, we_spawn = (\<lambda>g. \<lparr>sp_allowed = True, sp_clock = now, sp_containers = Some [], sp_run = Some ''c1''\<rparr>)\<rparr>"

definition demo_respawn :: "string \<Rightarrow> json option" where
  "demo_respawn g = Some (JObj [(''target_role'', JStr ''gateway''), (''dead_gateway_id'', JStr g), (''reason'', JStr ''r''),
     (''requesting_gateway'', JStr ''w''), (''signature'', JStr [])])"

definition demo_started :: warden where
  "demo_started = demo_warden\<lparr>wr_active := [(''g'', ''c1'')], wr_retry := (wr_retry demo_warden)(''g'' := None)\<rparr>"

lemma demo_start: "warden_step (\<lambda>_. []) (demo_warden_env 5) (Respawn (demo_respawn ''g'')) demo_warden =
    (Inr (), demo_started, [Container_Started ''g'' []])"
  by (simp add: warden_step_def on_respawn_def decode_msg_def demo_respawn_def respawn_request_def opt_str_field_def
      spawn_gateway_container_def respawn_lock_def demo_warden_env_def demo_warden_def warden_init_def retry_at_def demo_started_def)

lemma demo_run: "warden_run (\<lambda>_. []) demo_warden [Container_Started ''g'' []] demo_started"
  using warden_run.step[OF warden_run.start demo_start] by simp


theorem warden_at_cap_is_done_witness:
  "\<exists>w' out. warden_step (\<lambda>_. []) (demo_warden_env 900000000) (Respawn (demo_respawn ''other'')) demo_started = (Inr (), w', out) \<and>
     wr_active w' = [(''g'', ''c1'')] \<and> (\<forall>g t. Container_Started g t \<notin> set out)"
proof -
  obtain r w' out where s: "warden_step (\<lambda>_. []) (demo_warden_env 900000000) (Respawn (demo_respawn ''other'')) demo_started = (r, w', out)"
    by (metis prod_cases3)
  have "r = Inr ()"
    using s by (auto simp: warden_step_def on_respawn_def split: json.splits option.splits prod.splits)
      (simp_all add: decode_msg_def demo_respawn_def)
  moreover have ok: "warden_ok demo_started" "length (wr_active demo_started) = wr_max demo_started"
    by (simp_all add: warden_ok_def demo_started_def demo_warden_def warden_init_def)
  moreover have "wr_active demo_started = [(''g'', ''c1'')]"
    by (simp add: demo_started_def)
  ultimately show ?thesis
    using warden_at_cap_is_done[OF ok warden_run.step[OF warden_run.start s]] s by auto
qed

definition demo_watched :: "string \<Rightarrow> warden" where
  "demo_watched task = record_heartbeat 0 ''g1'' task demo_warden"


theorem malformed_task_ends_watchdog_witness:
  "watchdog_pass (demo_warden_env (seconds 60)) (demo_watched ''task-1'') = (Inl Invalid_Task, demo_watched ''task-1'', [])"
proof (rule malformed_task_ends_watchdog)
  show "wr_liveness (demo_watched ''task-1'') =
      (''g1'', \<lparr>gl_gateway = ''g1'', gl_task = Some ''task-1'', gl_seen = 0, gl_fencing = 0, gl_count = 1\<rparr>) # []"
    by (simp add: demo_watched_def record_heartbeat_def demo_warden_def warden_init_def touched_def)
  show "uuid_parse ''task-1'' = None"
    by code_simp
qed (simp_all add: in_time_def demo_warden_env_def demo_watched_def record_heartbeat_def demo_warden_def warden_init_def)

end
