(* ===== verification/Url_Parts.thy ===== *)
theory Url_Parts imports Frontmatter begin

text \<open>
  The part of \<open>urllib.parse.urlparse\<close> the repository uses: scheme, network location, path, and
  the host and port inside the location. The text of a bracketed host is checked by the
  \<open>ipaddress\<close> module of Python, which is an argument (\<open>literal\<close>); the fold of non-ASCII
  letters in a location is left out, as are query and fragment, which no caller reads.

  Proved: what the parts of a URL in normal form are.
\<close>

datatype url_error = Invalid_Url | Bad_Port string | Port_Out_Of_Range

text \<open>The control characters and blanks in front, and tabs and line ends anywhere, are dropped.\<close>

definition url_text :: "string \<Rightarrow> string" where
  "url_text s = filter (\<lambda>c. c \<notin> {CHR 0x09, CHR 0x0A, CHR 0x0D}) (dropWhile (\<lambda>c. of_char c \<le> (32 :: nat)) s)"

definition scheme_char :: "char \<Rightarrow> bool" where
  "scheme_char c \<longleftrightarrow> is_letter c \<or> is_digit c \<or> c \<in> {CHR ''+'', CHR ''-'', CHR ''.''}"

definition url_split_scheme :: "string \<Rightarrow> string \<times> string" where
  "url_split_scheme u =
     (let p = takeWhile (\<lambda>c. c \<noteq> CHR '':'') u in
      if p \<noteq> [] \<and> length p < length u \<and> is_letter (hd p) \<and> list_all scheme_char p
      then (lower p, drop (length p + 1) u) else ([], u))"

text \<open>\<open>str.partition\<close> and \<open>str.rpartition\<close> at one character: the parts before and after it.\<close>

definition before :: "char \<Rightarrow> string \<Rightarrow> string" where
  "before c s = takeWhile (\<lambda>d. d \<noteq> c) s"

definition after :: "char \<Rightarrow> string \<Rightarrow> string" where
  "after c s = tl (dropWhile (\<lambda>d. d \<noteq> c) s)"

definition after_last :: "char \<Rightarrow> string \<Rightarrow> string" where
  "after_last c s = rev (takeWhile (\<lambda>d. d \<noteq> c) (rev s))"

definition brackets_ok :: "(string \<Rightarrow> bool) \<Rightarrow> string \<Rightarrow> bool" where
  "brackets_ok literal loc \<longleftrightarrow>
     (CHR ''['' \<in> set loc \<longleftrightarrow> CHR '']'' \<in> set loc) \<and>
     (CHR ''['' \<in> set loc \<longrightarrow> literal (before CHR '']'' (after CHR ''['' loc)))"

record url =
  url_scheme :: string
  url_netloc :: string
  url_path :: string

text \<open>For some schemes the part of the last path segment from its first semicolon is cut off.\<close>

definition uses_params :: "string set" where
  "uses_params = {[], ''ftp'', ''hdl'', ''prospero'', ''http'', ''https'', ''shttp'', ''rtsp'', ''rtsps'', ''rtspu'',
                  ''sip'', ''sips'', ''mms'', ''sftp'', ''tel''}"

definition cut_params :: "string \<Rightarrow> string \<Rightarrow> string" where
  "cut_params scheme p =
     (if scheme \<in> uses_params
      then (let seg = after_last CHR ''/'' p in take (length p - length seg) p @ before CHR '';'' seg)
      else p)"

definition urlparse :: "(string \<Rightarrow> bool) \<Rightarrow> string \<Rightarrow> url_error + url" where
  "urlparse literal s =
     (case url_split_scheme (url_text s) of (scheme, rest) \<Rightarrow>
        if is_prefix ''//'' rest
        then (let loc = takeWhile (\<lambda>c. c \<notin> set ''/?#'') (drop 2 rest) in
              if brackets_ok literal loc
              then Inr \<lparr>url_scheme = scheme, url_netloc = loc,
                        url_path = cut_params scheme (takeWhile (\<lambda>c. c \<notin> set ''?#'') (drop (length loc) (drop 2 rest)))\<rparr>
              else Inl Invalid_Url)
        else Inr \<lparr>url_scheme = scheme, url_netloc = [], url_path = cut_params scheme (takeWhile (\<lambda>c. c \<notin> set ''?#'') rest)\<rparr>)"

definition hostinfo :: "url \<Rightarrow> string \<times> string option" where
  "hostinfo u =
     (let info = after_last CHR ''@'' (url_netloc u);
          (host, port) =
            (if CHR ''['' \<in> set info
             then (before CHR '']'' (after CHR ''['' info), after CHR '':'' (after CHR '']'' (after CHR ''['' info)))
             else (before CHR '':'' info, after CHR '':'' info))
      in (host, if port = [] then None else Some port))"

text \<open>A zone after a percent sign keeps its case.\<close>

definition url_hostname :: "url \<Rightarrow> string option" where
  "url_hostname u =
     (let host = fst (hostinfo u) in
      if host = [] then None
      else Some (lower (before CHR ''%'' host) @ drop (length (before CHR ''%'' host)) host))"

definition url_port :: "url \<Rightarrow> url_error + nat option" where
  "url_port u =
     (case snd (hostinfo u) of
        None \<Rightarrow> Inr None
      | Some p \<Rightarrow>
          if \<not> list_all is_digit p then Inl (Bad_Port p)
          else let n = foldl (\<lambda>n c. n * 10 + digit_val c) 0 p in
               if n \<le> 65535 then Inr (Some n) else Inl Port_Out_Of_Range)"

section \<open>A URL in normal form\<close>

definition plain_host :: "string \<Rightarrow> bool" where
  "plain_host h \<longleftrightarrow> h \<noteq> [] \<and> list_all (\<lambda>c. of_char c \<in> {48..57} \<union> {97..122} \<union> {45, 46 :: nat}) h"

lemma plain_host_chars:
  "plain_host h \<Longrightarrow> c \<in> set h \<Longrightarrow> of_char c \<in> {48..57} \<union> {97..122} \<union> {45, 46 :: nat}"
  by (auto simp: plain_host_def list_all_iff)

lemma plain_host_notin:
  assumes "plain_host h" "of_char c \<notin> {48..57} \<union> {97..122} \<union> {45, 46 :: nat}"
  shows "c \<notin> set h"
  using assms plain_host_chars by blast

lemma lower_plain_host: "plain_host h \<Longrightarrow> lower h = h"
  unfolding lower_def
  by (rule map_idI) (auto dest!: plain_host_chars simp: ascii_lower_def less_eq_char_def)

lemma digits_chars: "list_all is_digit p \<Longrightarrow> c \<in> set p \<Longrightarrow> of_char c \<in> {48..57 :: nat}"
  by (auto simp: list_all_iff is_digit_def)

lemma before_notin [simp]: "c \<notin> set s \<Longrightarrow> before c s = s"
  by (simp add: before_def takeWhile_eq_all_conv) blast

lemma after_notin [simp]: "c \<notin> set s \<Longrightarrow> after c s = []"
  by (induction s) (auto simp: after_def)

lemma before_at [simp]: "c \<notin> set s \<Longrightarrow> before c (s @ c # t) = s"
  by (induction s) (auto simp: before_def)

lemma after_at [simp]: "c \<notin> set s \<Longrightarrow> after c (s @ c # t) = t"
  by (induction s) (auto simp: after_def)

lemma after_last_notin [simp]: "c \<notin> set s \<Longrightarrow> after_last c s = s"
proof -
  assume "c \<notin> set s"
  then have "takeWhile (\<lambda>d. d \<noteq> c) (rev s) = rev s"
    unfolding takeWhile_eq_all_conv by auto
  then show ?thesis
    by (simp only: after_last_def rev_rev_ident)
qed

lemma after_last_at [simp]: "c \<notin> set t \<Longrightarrow> after_last c (s @ c # t) = t"
proof -
  assume "c \<notin> set t"
  then have "\<And>d. d \<in> set (rev t) \<Longrightarrow> d \<noteq> c"
    by auto
  then have "takeWhile (\<lambda>d. d \<noteq> c) (rev t @ c # rev s) = rev t @ takeWhile (\<lambda>d. d \<noteq> c) (c # rev s)"
    by (rule takeWhile_append2)
  then show ?thesis
    by (simp add: after_last_def)
qed

lemma url_text_printable:
  assumes "\<And>c. c \<in> set s \<Longrightarrow> of_char c > (32 :: nat)"
  shows "url_text s = s"
proof -
  have d: "dropWhile (\<lambda>c. of_char c \<le> (32 :: nat)) s = s"
    using assms by (cases s) (auto simp flip: not_less)
  have "c \<notin> {CHR 0x09, CHR 0x0A, CHR 0x0D}" if "c \<in> set s" for c
    using assms[OF that] by auto
  then show ?thesis
    by (simp add: url_text_def d filter_id_conv)
qed

lemma takeWhile_stop:
  assumes "\<And>x. x \<in> set xs \<Longrightarrow> P x" "ys = [] \<or> \<not> P (hd ys)"
  shows "takeWhile P (xs @ ys) = xs"
proof -
  have "takeWhile P (xs @ ys) = xs @ takeWhile P ys"
    using assms(1) by (rule takeWhile_append2)
  moreover have "takeWhile P ys = []"
    using assms(2) by (cases ys) auto
  ultimately show ?thesis
    by simp
qed

text \<open>A URL \<open>scheme://location/path\<close> splits into the three, whatever text checks brackets.\<close>

lemma urlparse_parts:
  assumes sc: "sc \<noteq> []" "list_all (\<lambda>c. of_char c \<in> {97..122 :: nat}) sc" "sc \<notin> uses_params"
    and loc: "\<And>c. c \<in> set loc \<Longrightarrow> of_char c > (32 :: nat) \<and> c \<notin> set ''/?#[]''"
    and path: "path = [] \<or> hd path = CHR ''/''" "\<And>c. c \<in> set path \<Longrightarrow> of_char c > (32 :: nat) \<and> c \<notin> set ''?#''"
  shows "urlparse literal (sc @ ''://'' @ loc @ path) = Inr \<lparr>url_scheme = sc, url_netloc = loc, url_path = path\<rparr>"
proof -
  let ?u = "sc @ ''://'' @ loc @ path"
  have letters: "of_char c \<in> {97..122 :: nat}" if "c \<in> set sc" for c
    using sc(2) that by (auto simp: list_all_iff)
  have "of_char c > (32 :: nat)" if "c \<in> set ?u" for c
    using that letters[of c] loc[of c] path(2)[of c] by auto
  then have utext: "url_text ?u = ?u"
    by (rule url_text_printable)
  have colon: "takeWhile (\<lambda>c. c \<noteq> CHR '':'') ?u = sc"
    using letters by (intro takeWhile_stop) fastforce+
  have lower_sc: "lower sc = sc"
    unfolding lower_def using letters by (intro map_idI) (fastforce simp: ascii_lower_def less_eq_char_def)
  have hd_sc: "is_letter (hd sc)" and all_sc: "list_all scheme_char sc"
    using sc(1) letters by (auto simp: is_letter_def scheme_char_def list_all_iff)
  have split: "url_split_scheme ?u = (sc, ''//'' @ loc @ path)"
    unfolding url_split_scheme_def colon Let_def using sc(1) hd_sc all_sc by (simp add: lower_sc)
  have netloc: "takeWhile (\<lambda>c. c \<notin> set ''/?#'') (loc @ path) = loc"
    using loc path(1) by (intro takeWhile_stop) auto
  have rest: "takeWhile (\<lambda>c. c \<notin> set ''?#'') path = path"
    unfolding takeWhile_eq_all_conv using path(2) by auto
  have brackets: "brackets_ok literal loc"
    using loc by (auto simp: brackets_ok_def)
  have slashes: "is_prefix ''//'' (''//'' @ loc @ path)" "drop 2 (''//'' @ loc @ path) = loc @ path"
    by (simp_all add: is_prefix_def)
  have behind: "drop (length loc) (loc @ path) = path"
    by simp
  show ?thesis
    unfolding urlparse_def utext split prod.case slashes Let_def netloc behind rest cut_params_def
    using sc(3) brackets slashes(1) by (simp only: if_True if_False)
qed

text \<open>Host and port of a location, with or without credentials in front.\<close>

lemma hostname_and_port:
  assumes h: "plain_host h" and p: "list_all is_digit p" "p \<noteq> []"
    and n: "foldl (\<lambda>n c. n * 10 + digit_val c) 0 p \<le> 65535"
    and u: "url_netloc u = h @ CHR '':'' # p \<or> url_netloc u = cred @ CHR ''@'' # h @ CHR '':'' # p"
  shows "url_hostname u = Some h \<and> url_port u = Inr (Some (foldl (\<lambda>n c. n * 10 + digit_val c) 0 p))"
proof -
  have h': "c \<notin> set h" if "c \<in> {CHR ''@'', CHR '':'', CHR ''['', CHR ''%''}" for c
    using that by (auto intro!: plain_host_notin[OF h])
  have p': "c \<notin> set p" if "c \<in> {CHR ''@'', CHR '':'', CHR ''['', CHR ''%''}" for c
    using that digits_chars[OF p(1)] by fastforce
  have na: "CHR ''@'' \<notin> set (h @ CHR '':'' # p)" and nb: "CHR ''['' \<notin> set (h @ CHR '':'' # p)" and nc: "CHR '':'' \<notin> set h"
    using h' p' by simp_all
  have loc: "after_last CHR ''@'' (url_netloc u) = h @ CHR '':'' # p"
    using u by (elim disjE) (simp_all only: after_last_notin[OF na] after_last_at[OF na])
  have info: "hostinfo u = (h, Some p)"
    unfolding hostinfo_def loc Let_def before_at[OF nc] after_at[OF nc] if_not_P[OF nb] prod.case if_not_P[OF p(2)] by (rule refl)
  have "h \<noteq> []"
    using h by (simp add: plain_host_def)
  moreover have "before CHR ''%'' h = h"
    using h' by (intro before_notin) simp
  ultimately show ?thesis
    using info n p(1) lower_plain_host[OF h] by (simp add: url_hostname_def url_port_def)
qed

section \<open>Choosing a storage backend\<close>

text \<open>
  \<open>get_backend\<close> of \<open>memu/storage/__init__.py\<close>: the environment variable and the home directory
  are arguments, \<open>expanduser\<close> without user names.
\<close>

datatype backend_choice = Markdown_At string | Sqlite_At string | Postgres_At string | Unsupported_Scheme string | Bad_Dsn

definition expanduser :: "string \<Rightarrow> string \<Rightarrow> string" where
  "expanduser home p =
     (if p = ''~'' then home else if is_prefix ''~/'' p then home @ tl p else p)"

definition sqlite_path :: "string \<Rightarrow> string" where
  "sqlite_path raw = (if is_prefix ''//'' raw then tl raw else if is_prefix ''/'' raw then tl raw else raw)"

definition get_backend :: "(string \<Rightarrow> bool) \<Rightarrow> string \<Rightarrow> string option \<Rightarrow> string option \<Rightarrow> backend_choice" where
  "get_backend literal home dsn env =
     (let d = (if nonempty dsn then the dsn else if nonempty env then the env else ''file://~/.memu/vault'') in
      case urlparse literal d of
        Inl e \<Rightarrow> Bad_Dsn
      | Inr u \<Rightarrow>
          let scheme = (if url_scheme u = [] then ''file'' else url_scheme u) in
          if scheme = ''file'' then Markdown_At (expanduser home (if url_path u = [] then url_netloc u else url_path u))
          else if scheme = ''sqlite'' then
            Sqlite_At (expanduser home (if sqlite_path (url_path u) = [] then '':memory:'' else sqlite_path (url_path u)))
          else if scheme \<in> {''postgres'', ''postgresql''} then Postgres_At d
          else Unsupported_Scheme scheme)"

text \<open>The default vault is placed in the root directory instead of the home directory.\<close>

lemma default_vault_ignores_home: "get_backend literal home None None = Markdown_At ''/.memu/vault''"
proof -
  have "urlparse literal (''file'' @ ''://'' @ ''~'' @ ''/.memu/vault'') =
      Inr \<lparr>url_scheme = ''file'', url_netloc = ''~'', url_path = ''/.memu/vault''\<rparr>"
    by (rule urlparse_parts) (auto simp: uses_params_def)
  then show ?thesis
    by (simp add: get_backend_def expanduser_def is_prefix_def)
qed

text \<open>An absolute SQLite path in the documented form is the path opened, and a relative one without its slash.\<close>

lemma sqlite_dsn_path:
  assumes p: "p \<noteq> []" "hd p \<notin> {CHR ''/'', CHR ''~''}" "\<And>c. c \<in> set p \<Longrightarrow> of_char c > (32 :: nat) \<and> c \<notin> set ''?#''"
  shows "get_backend literal home (Some (''sqlite:////'' @ p)) env = Sqlite_At (CHR ''/'' # p)"
    and "get_backend literal home (Some (''sqlite:///'' @ p)) env = Sqlite_At p"
proof -
  have "urlparse literal (''sqlite'' @ ''://'' @ [] @ q @ p) =
      Inr \<lparr>url_scheme = ''sqlite'', url_netloc = [], url_path = q @ p\<rparr>" if "q \<in> {''/'', ''//''}" for q
    using that p by (intro urlparse_parts) (auto simp: uses_params_def)
  from this[of "''/''"] this[of "''//''"]
  have u: "urlparse literal (''sqlite:///'' @ p) = Inr \<lparr>url_scheme = ''sqlite'', url_netloc = [], url_path = CHR ''/'' # p\<rparr>"
    "urlparse literal (''sqlite:////'' @ p) = Inr \<lparr>url_scheme = ''sqlite'', url_netloc = [], url_path = CHR ''/'' # CHR ''/'' # p\<rparr>"
    by simp_all
  obtain c q where c: "p = c # q" "c \<noteq> CHR ''/''" "c \<noteq> CHR ''~''"
    using p(1,2) by (cases p) auto
  show "get_backend literal home (Some (''sqlite:////'' @ p)) env = Sqlite_At (CHR ''/'' # p)"
    using u(2) c by (simp add: get_backend_def sqlite_path_def expanduser_def is_prefix_def)
  show "get_backend literal home (Some (''sqlite:///'' @ p)) env = Sqlite_At p"
    using u(1) c by (simp add: get_backend_def sqlite_path_def expanduser_def is_prefix_def)
qed

end
