(* ===== verification/Cluster_Manager.thy ===== *)
theory Cluster_Manager imports Url_Parts begin

text \<open>
  The connections of a gateway to two NATS servers (\<open>memu/cluster.py\<close>) and the choice of the
  server addresses (\<open>memu/nats_config.py\<close>).

  The NATS client is an outside service: whether a connection is up (\<open>is_connected\<close>), the answer
  to a connection attempt and to a ping are arguments of the operations that ask for them. The
  callbacks the manager passes to the client, the passes of the health monitor and the two
  properties that hand out a connection are steps of a \<open>cluster_event\<close> sequence, in any order;
  the calls of the failover callbacks a step makes are its output.

  Proved: a handed out connection is up, and one is handed out whenever one is up; in reachable
  states the manager only believes in nodes it has a connection to, and only a disconnection
  calls the callbacks, once each and about the switch just made; a monitor pass with the local
  node answering in time makes it active again, and no pass ever leaves it. Against the
  documentation: \<open>jetstream\<close> hands out the context of a dead node, other switches are silent,
  and a resolved address loses its credentials and its scheme.
\<close>

section \<open>Addresses\<close>

definition no_url_words :: "string set" where
  "no_url_words = {''none'', ''null'', ''undefined'', ''-'', ''-1''}"

definition placeholder_hosts :: "string set" where
  "placeholder_hosts = {''nats'', ''nats.railway.internal'', ''nats-railway.railway.internal''}"

definition clean_url :: "(string \<Rightarrow> bool) \<Rightarrow> string option \<Rightarrow> url_error + string option" where
  "clean_url literal value_opt =
     (if \<not> nonempty value_opt then Inr None
      else let v = strip (the value_opt) in
        if v = [] \<or> lower v \<in> no_url_words then Inr None
        else case urlparse literal v of
          Inl e \<Rightarrow> Inl e
        | Inr u \<Rightarrow> (case url_hostname u of
              None \<Rightarrow> Inr (Some v)
            | Some host \<Rightarrow> if host \<in> placeholder_hosts then Inr None else Inr (Some v)))"

definition clean_endpoint :: "string option \<Rightarrow> string option" where
  "clean_endpoint value_opt =
     (case value_opt of
        None \<Rightarrow> None
      | Some v \<Rightarrow> if strip v = [] \<or> lower (strip v) \<in> {''none'', ''null'', ''undefined''} then None else Some (strip v))"

definition resolve_nats_endpoints :: "(string \<Rightarrow> string option) \<Rightarrow> string option \<times> string option" where
  "resolve_nats_endpoints env =
     (let local = clean_endpoint (env ''NATS_LOCAL_URL'');
          railway = clean_endpoint (env ''NATS_RAILWAY_URL'');
          legacy = clean_endpoint (env ''NATS_URL'')
      in (if \<not> nonempty local \<and> nonempty legacy then legacy else local, railway))"

definition primary_nats_url :: "(string \<Rightarrow> string option) \<Rightarrow> string \<Rightarrow> string" where
  "primary_nats_url env fallback =
     (case resolve_nats_endpoints env of
        (local, railway) \<Rightarrow> if nonempty local then the local else if nonempty railway then the railway else fallback)"

section \<open>State\<close>

datatype cluster_node = LOCAL | RAILWAY

datatype nats_error = Bad_Url url_error | Client_Failed string | No_Urls | All_Failed | No_Connection | No_Jetstream

record node_health =
  nh_url :: string
  nh_connected :: bool
  nh_ping_ms :: real
  nh_error :: "nats_error option"
  nh_reconnects :: nat
  nh_seen :: real

record connect_opts =
  co_server :: string
  co_timeout :: real
  co_max_reconnect :: int
  co_allow_reconnect :: bool
  co_token :: "string option"
  co_creds_file :: "string option"
  co_nkey_seed :: "string option"

record ('c, 'j, 'k) cluster =
  cl_local :: "string option"
  cl_railway :: "string option"
  cl_threshold :: real
  cl_token :: "string option"
  cl_timeout :: real
  cl_max_reconnect :: int
  cl_allow_reconnect :: bool
  cl_conns :: "(cluster_node, 'c) dict"
  cl_js :: "cluster_node \<Rightarrow> 'j option"
  cl_active :: cluster_node
  cl_monitored :: bool
  cl_callbacks :: "'k list"
  cl_health :: "cluster_node \<Rightarrow> node_health"

definition new_health :: "real \<Rightarrow> string option \<Rightarrow> node_health" where
  "new_health now u =
     \<lparr>nh_url = (case u of Some v \<Rightarrow> v | None \<Rightarrow> []), nh_connected = False, nh_ping_ms = 0, nh_error = None,
      nh_reconnects = 0, nh_seen = now\<rparr>"

definition or_env :: "string option \<Rightarrow> (string \<Rightarrow> string option) \<Rightarrow> string \<Rightarrow> string option" where
  "or_env arg env name = (if nonempty arg then arg else env name)"

definition cluster_init ::
  "(string \<Rightarrow> bool) \<Rightarrow> (string \<Rightarrow> string option) \<Rightarrow> real \<Rightarrow> string option \<Rightarrow> string option \<Rightarrow> real \<Rightarrow>
   string option \<Rightarrow> real \<Rightarrow> int \<Rightarrow> bool \<Rightarrow> url_error + ('c, 'j, 'k) cluster" where
  "cluster_init literal env now local_url railway_url threshold token timeout reconnects allow =
     (case clean_url literal (or_env local_url env ''NATS_LOCAL_URL'') of
        Inl e \<Rightarrow> Inl e
      | Inr l \<Rightarrow> (case clean_url literal (or_env railway_url env ''NATS_RAILWAY_URL'') of
          Inl e \<Rightarrow> Inl e
        | Inr r \<Rightarrow> Inr
           \<lparr>cl_local = l, cl_railway = r, cl_threshold = threshold, cl_token = or_env token env ''NATS_AUTH_TOKEN'',
            cl_timeout = timeout, cl_max_reconnect = reconnects, cl_allow_reconnect = allow,
            cl_conns = [], cl_js = Map.empty, cl_active = LOCAL, cl_monitored = False, cl_callbacks = [],
            cl_health = (\<lambda>n. case n of LOCAL \<Rightarrow> new_health now l | RAILWAY \<Rightarrow> new_health now r)\<rparr>))"

definition set_health :: "cluster_node \<Rightarrow> (node_health \<Rightarrow> node_health) \<Rightarrow> ('c, 'j, 'k) cluster \<Rightarrow> ('c, 'j, 'k) cluster" where
  "set_health n f m = m\<lparr>cl_health := (cl_health m)(n := f (cl_health m n))\<rparr>"

definition other_node :: "cluster_node \<Rightarrow> cluster_node" where
  "other_node n = (if n = LOCAL then RAILWAY else LOCAL)"

definition switch_to :: "cluster_node \<Rightarrow> ('c, 'j, 'k) cluster \<Rightarrow> ('c, 'j, 'k) cluster" where
  "switch_to n m = m\<lparr>cl_active := n\<rparr>"

section \<open>Handing out a connection\<close>

definition connected_at :: "('c \<Rightarrow> bool) \<Rightarrow> ('c, 'j, 'k) cluster \<Rightarrow> cluster_node \<Rightarrow> 'c option" where
  "connected_at up m n = (case dict_get (cl_conns m) n of Some c \<Rightarrow> (if up c then Some c else None) | None \<Rightarrow> None)"

definition active_connection :: "('c \<Rightarrow> bool) \<Rightarrow> ('c, 'j, 'k) cluster \<Rightarrow> (nats_error + 'c) \<times> ('c, 'j, 'k) cluster" where
  "active_connection up m =
     (case connected_at up m (cl_active m) of
        Some c \<Rightarrow> (Inr c, m)
      | None \<Rightarrow> (case connected_at up m (other_node (cl_active m)) of
            Some c \<Rightarrow> (Inr c, switch_to (other_node (cl_active m)) m)
          | None \<Rightarrow> (Inl No_Connection, m)))"

definition jetstream :: "('c, 'j, 'k) cluster \<Rightarrow> (nats_error + 'j) \<times> ('c, 'j, 'k) cluster" where
  "jetstream m =
     (case cl_js m (cl_active m) of
        Some j \<Rightarrow> (Inr j, m)
      | None \<Rightarrow> (case cl_js m (other_node (cl_active m)) of
            Some j \<Rightarrow> (Inr j, switch_to (other_node (cl_active m)) m)
          | None \<Rightarrow> (Inl No_Jetstream, m)))"

definition on_failover :: "'k \<Rightarrow> ('c, 'j, 'k) cluster \<Rightarrow> ('c, 'j, 'k) cluster" where
  "on_failover cb m = m\<lparr>cl_callbacks := cl_callbacks m @ [cb]\<rparr>"

section \<open>Connecting\<close>

text \<open>
  What is outside during one attempt to connect: the IPv4 addresses of a name (\<open>None\<close> for
  \<open>gaierror\<close>), the answer of \<open>nats.connect\<close>, the environment and the clock.
\<close>

record ('c, 'j) dial_env =
  de_literal :: "string \<Rightarrow> bool"
  de_resolve :: "string \<Rightarrow> nat \<Rightarrow> string list option"
  de_connect :: "cluster_node \<Rightarrow> connect_opts \<Rightarrow> string + 'c"
  de_jetstream :: "'c \<Rightarrow> 'j"
  de_env :: "string \<Rightarrow> string option"
  de_now :: real

definition nonempty_env :: "('c, 'j) dial_env \<Rightarrow> string \<Rightarrow> string option" where
  "nonempty_env env name = (if nonempty (de_env env name) then de_env env name else None)"

definition resolved_url :: "('c, 'j) dial_env \<Rightarrow> string \<Rightarrow> url_error + string" where
  "resolved_url env address =
     (case urlparse (de_literal env) address of
        Inl e \<Rightarrow> Inl e
      | Inr u \<Rightarrow> (case url_port u of
            Inl e \<Rightarrow> Inl e
          | Inr p \<Rightarrow>
              let host = (case url_hostname u of Some h \<Rightarrow> h | None \<Rightarrow> ''localhost'');
                  port = (if p = None \<or> p = Some 0 then 4222 else the p)
              in case de_resolve env host port of
                   Some (ip # ips) \<Rightarrow> Inr (''nats://'' @ ip @ '':'' @ show_nat port)
                 | _ \<Rightarrow> Inr address))"

definition opts_for :: "('c, 'j) dial_env \<Rightarrow> string \<Rightarrow> ('c, 'j, 'k) cluster \<Rightarrow> connect_opts" where
  "opts_for env server m =
     \<lparr>co_server = server, co_timeout = cl_timeout m, co_max_reconnect = cl_max_reconnect m,
      co_allow_reconnect = cl_allow_reconnect m,
      co_token = (if nonempty (cl_token m) then cl_token m else None),
      co_creds_file = nonempty_env env ''NATS_CREDS_FILE'',
      co_nkey_seed = (if nonempty_env env ''NATS_CREDS_FILE'' = None then nonempty_env env ''NATS_NKEY_SEED'' else None)\<rparr>"

definition connect_node ::
  "('c, 'j) dial_env \<Rightarrow> cluster_node \<Rightarrow> string \<Rightarrow> ('c, 'j, 'k) cluster \<Rightarrow> (nats_error + unit) \<times> ('c, 'j, 'k) cluster" where
  "connect_node env n address m =
     (let attempt =
            (case resolved_url env address of
               Inl e \<Rightarrow> Inl (Bad_Url e)
             | Inr server \<Rightarrow>
                 (case de_connect env n (opts_for env server m) of Inl e \<Rightarrow> Inl (Client_Failed e) | Inr c \<Rightarrow> Inr c))
      in case attempt of
           Inl e \<Rightarrow> (Inl e, set_health n (\<lambda>h. h\<lparr>nh_connected := False, nh_error := Some e\<rparr>) m)
         | Inr c \<Rightarrow>
             (Inr (),
              set_health n (\<lambda>h. h\<lparr>nh_connected := True, nh_seen := de_now env, nh_error := None\<rparr>)
                (m\<lparr>cl_conns := dict_set n c (cl_conns m), cl_js := (cl_js m)(n \<mapsto> de_jetstream env c)\<rparr>)))"

definition connect_targets :: "('c, 'j, 'k) cluster \<Rightarrow> (cluster_node \<times> string) list" where
  "connect_targets m =
     (if nonempty (cl_local m) then [(LOCAL, the (cl_local m))] else []) @
     (if nonempty (cl_railway m) then [(RAILWAY, the (cl_railway m))] else [])"

fun connect_all ::
  "('c, 'j) dial_env \<Rightarrow> (cluster_node \<times> string) list \<Rightarrow> ('c, 'j, 'k) cluster \<Rightarrow> nat \<times> ('c, 'j, 'k) cluster" where
  "connect_all env [] m = (0, m)"
| "connect_all env ((n, address) # targets) m =
     (case connect_node env n address m of
        (r, m1) \<Rightarrow> (case connect_all env targets m1 of
            (k, m2) \<Rightarrow> ((case r of Inr u \<Rightarrow> k + 1 | Inl e \<Rightarrow> k), m2)))"

text \<open>\<open>railway_first\<close> says which of the two concurrent attempts ends first.\<close>

definition connect :: "('c, 'j) dial_env \<Rightarrow> bool \<Rightarrow> ('c, 'j, 'k) cluster \<Rightarrow> (nats_error + unit) \<times> ('c, 'j, 'k) cluster" where
  "connect env railway_first m =
     (let targets = connect_targets m in
      if targets = [] then (Inl No_Urls, m)
      else case connect_all env (if railway_first then rev targets else targets) m of
             (k, m1) \<Rightarrow>
               if k = 0 then (Inl All_Failed, m1)
               else (Inr (),
                 m1\<lparr>cl_active := (if nh_connected (cl_health m1 LOCAL) then LOCAL else RAILWAY), cl_monitored := True\<rparr>))"

section \<open>Callbacks of the client\<close>

type_synonym 'k notice = "'k \<times> cluster_node \<times> cluster_node"

definition failover :: "('c, 'j, 'k) cluster \<Rightarrow> ('c, 'j, 'k) cluster \<times> 'k notice list" where
  "failover m =
     (let other = other_node (cl_active m) in
      if nh_connected (cl_health m other)
      then (switch_to other m, map (\<lambda>cb. (cb, cl_active m, other)) (cl_callbacks m))
      else (m, []))"

definition on_error :: "cluster_node \<Rightarrow> string \<Rightarrow> ('c, 'j, 'k) cluster \<Rightarrow> ('c, 'j, 'k) cluster" where
  "on_error n e m = set_health n (\<lambda>h. h\<lparr>nh_error := Some (Client_Failed e)\<rparr>) m"

definition on_disconnect :: "cluster_node \<Rightarrow> ('c, 'j, 'k) cluster \<Rightarrow> ('c, 'j, 'k) cluster \<times> 'k notice list" where
  "on_disconnect n m =
     (let m1 = set_health n (\<lambda>h. h\<lparr>nh_connected := False\<rparr>) m in
      if cl_active m1 = n then failover m1 else (m1, []))"

definition on_reconnect :: "real \<Rightarrow> cluster_node \<Rightarrow> ('c, 'j, 'k) cluster \<Rightarrow> ('c, 'j, 'k) cluster" where
  "on_reconnect now n m =
     set_health n (\<lambda>h. h\<lparr>nh_connected := True, nh_reconnects := nh_reconnects h + 1, nh_seen := now\<rparr>) m"

section \<open>The health monitor\<close>

text \<open>What a pass observes: which clients are up, the time a flush takes (or its error), the clock.\<close>

record 'c ping_env =
  pe_up :: "'c \<Rightarrow> bool"
  pe_flush_ms :: "'c \<Rightarrow> string + real"
  pe_now :: real

definition pinged :: "'c ping_env \<Rightarrow> 'c \<Rightarrow> node_health \<Rightarrow> node_health" where
  "pinged env c h =
     (if \<not> pe_up env c then h\<lparr>nh_connected := False\<rparr>
      else case pe_flush_ms env c of
             Inr ms \<Rightarrow> h\<lparr>nh_connected := True, nh_ping_ms := ms, nh_seen := pe_now env, nh_error := None\<rparr>
           | Inl e \<Rightarrow> h\<lparr>nh_connected := False, nh_error := Some (Client_Failed e)\<rparr>)"

definition ping_node :: "'c ping_env \<Rightarrow> cluster_node \<times> 'c \<Rightarrow> ('c, 'j, 'k) cluster \<Rightarrow> ('c, 'j, 'k) cluster" where
  "ping_node env nc m = set_health (fst nc) (pinged env (snd nc)) m"

definition recover_local :: "('c, 'j, 'k) cluster \<Rightarrow> ('c, 'j, 'k) cluster" where
  "recover_local m =
     (if cl_active m = RAILWAY \<and> nh_connected (cl_health m LOCAL) \<and> nh_ping_ms (cl_health m LOCAL) < cl_threshold m
      then switch_to LOCAL m else m)"

definition health_pass :: "'c ping_env \<Rightarrow> ('c, 'j, 'k) cluster \<Rightarrow> ('c, 'j, 'k) cluster" where
  "health_pass env m = recover_local (fold (ping_node env) (cl_conns m) m)"

section \<open>Closing and reporting\<close>

text \<open>\<open>drain\<close> and \<open>close\<close> are asked of each connection in order, whatever the earlier ones answer.\<close>

definition close_cluster :: "('c, 'j, 'k) cluster \<Rightarrow> 'c list \<times> ('c, 'j, 'k) cluster" where
  "close_cluster m = (dict_values (cl_conns m), m\<lparr>cl_monitored := False\<rparr>)"

definition round_cents :: "real \<Rightarrow> real" where
  "round_cents x = of_int (round_half_even (x * 100)) / 100"

record node_status =
  ns_url :: string
  ns_connected :: bool
  ns_latency_ms :: real
  ns_error :: "nats_error option"
  ns_reconnects :: nat
  ns_seen :: real

definition node_name :: "cluster_node \<Rightarrow> string" where
  "node_name n = (case n of LOCAL \<Rightarrow> ''local'' | RAILWAY \<Rightarrow> ''railway'')"

definition cluster_status :: "('c, 'j, 'k) cluster \<Rightarrow> string \<times> (string, node_status) dict" where
  "cluster_status m =
     (node_name (cl_active m),
      map (\<lambda>n. let h = cl_health m n in
             (node_name n, \<lparr>ns_url = nh_url h, ns_connected = nh_connected h, ns_latency_ms = round_cents (nh_ping_ms h),
                            ns_error = nh_error h, ns_reconnects = nh_reconnects h, ns_seen = nh_seen h\<rparr>))
        [LOCAL, RAILWAY])"

section \<open>Runs\<close>

datatype ('c, 'j, 'k) cluster_event =
    Connect "('c, 'j) dial_env" bool
  | Lost cluster_node
  | Back real cluster_node
  | Errored cluster_node string
  | Pass "'c ping_env"
  | Ask_Connection "'c \<Rightarrow> bool"
  | Ask_Jetstream
  | Register 'k
  | Close

text \<open>The client only calls back about connections it made.\<close>

fun cluster_step :: "('c, 'j, 'k) cluster_event \<Rightarrow> ('c, 'j, 'k) cluster \<Rightarrow> ('c, 'j, 'k) cluster \<times> 'k notice list" where
  "cluster_step (Connect env rf) m = (snd (connect env rf m), [])"
| "cluster_step (Lost n) m = (if dict_get (cl_conns m) n = None then (m, []) else on_disconnect n m)"
| "cluster_step (Back now n) m = ((if dict_get (cl_conns m) n = None then m else on_reconnect now n m), [])"
| "cluster_step (Errored n e) m = (on_error n e m, [])"
| "cluster_step (Pass env) m = (if cl_monitored m then health_pass env m else m, [])"
| "cluster_step (Ask_Connection up) m = (snd (active_connection up m), [])"
| "cluster_step Ask_Jetstream m = (snd (jetstream m), [])"
| "cluster_step (Register cb) m = (on_failover cb m, [])"
| "cluster_step Close m = (snd (close_cluster m), [])"

fun cluster_run :: "('c, 'j, 'k) cluster_event list \<Rightarrow> ('c, 'j, 'k) cluster \<Rightarrow> ('c, 'j, 'k) cluster \<times> 'k notice list" where
  "cluster_run [] m = (m, [])"
| "cluster_run (e # es) m =
     (case cluster_step e m of (m1, out) \<Rightarrow> (case cluster_run es m1 of (m2, out') \<Rightarrow> (m2, out @ out')))"

section \<open>Correctness\<close>

lemma set_health_simps [simp]:
  "cl_health (set_health n f m) = (cl_health m)(n := f (cl_health m n))"
  "cl_conns (set_health n f m) = cl_conns m" "cl_js (set_health n f m) = cl_js m"
  "cl_active (set_health n f m) = cl_active m" "cl_monitored (set_health n f m) = cl_monitored m"
  "cl_callbacks (set_health n f m) = cl_callbacks m" "cl_threshold (set_health n f m) = cl_threshold m"
  by (simp_all add: set_health_def)

lemma switch_to_simps [simp]:
  "cl_health (switch_to n m) = cl_health m" "cl_conns (switch_to n m) = cl_conns m" "cl_js (switch_to n m) = cl_js m"
  "cl_active (switch_to n m) = n" "cl_callbacks (switch_to n m) = cl_callbacks m" "cl_monitored (switch_to n m) = cl_monitored m"
  by (simp_all add: switch_to_def)

lemma ping_node_simps [simp]:
  "cl_health (ping_node env nc m) = (cl_health m)(fst nc := pinged env (snd nc) (cl_health m (fst nc)))"
  "cl_conns (ping_node env nc m) = cl_conns m" "cl_active (ping_node env nc m) = cl_active m"
  "cl_threshold (ping_node env nc m) = cl_threshold m"
  by (simp_all add: ping_node_def)

lemma other_node_simps [simp]: "other_node LOCAL = RAILWAY" "other_node RAILWAY = LOCAL" "other_node (other_node n) = n"
  by (cases n; simp add: other_node_def)+

text \<open>
  (C23) The connection handed out is up and is the one of the node that is active afterwards; the
  active node changes only when its connection is down, and the request fails only when no
  connection is up, which leaves the manager as it was.
\<close>

theorem active_connection_is_up:
  "case active_connection up m of
     (Inr c, m') \<Rightarrow> connected_at up m' (cl_active m') = Some c \<and> up c \<and> m' = switch_to (cl_active m') m \<and>
                   (cl_active m' = cl_active m \<longleftrightarrow> connected_at up m (cl_active m) \<noteq> None)
   | (Inl e, m') \<Rightarrow> e = No_Connection \<and> m' = m \<and> (\<forall>n. connected_at up m n = None)"
proof -
  have up: "up c" if "connected_at up m n = Some c" for n c
    using that by (auto simp: connected_at_def split: option.splits if_splits)
  have same: "connected_at up (switch_to n m) = connected_at up m" "switch_to (cl_active m) m = m" for n
    by (simp_all add: connected_at_def switch_to_def fun_eq_iff)
  have nodes: "n = cl_active m \<or> n = other_node (cl_active m)" "other_node (cl_active m) \<noteq> cl_active m" for n
    by (cases n; cases "cl_active m"; simp)+
  show ?thesis
    using up nodes by (auto simp: active_connection_def same split: option.splits) metis
qed

text \<open>What holds between steps: a node believed connected has a connection and a JetStream context.\<close>

definition cluster_inv :: "('c, 'j, 'k) cluster \<Rightarrow> bool" where
  "cluster_inv m \<longleftrightarrow> wf_dict (cl_conns m) \<and> (\<forall>n. cl_js m n = None \<longleftrightarrow> dict_get (cl_conns m) n = None) \<and>
     (\<forall>n. nh_connected (cl_health m n) \<longrightarrow> dict_get (cl_conns m) n \<noteq> None)"

lemma cluster_inv_init: "cluster_init literal env now l r th tk ti re al = Inr m \<Longrightarrow> cluster_inv m"
  by (auto simp: cluster_init_def cluster_inv_def new_health_def split: sum.splits cluster_node.splits)

lemma cluster_inv_health [wf_intros]:
  "cluster_inv m \<Longrightarrow> (nh_connected (f (cl_health m n)) \<Longrightarrow> dict_get (cl_conns m) n \<noteq> None) \<Longrightarrow> cluster_inv (set_health n f m)"
  by (simp add: cluster_inv_def)

lemma cluster_inv_switch [wf_intros]: "cluster_inv m \<Longrightarrow> cluster_inv (switch_to n m)"
  by (simp add: cluster_inv_def)

lemma cluster_inv_connect_node: "cluster_inv m \<Longrightarrow> connect_node env n a m = (r, m') \<Longrightarrow> cluster_inv m'"
  by (auto simp: connect_node_def Let_def split: sum.splits intro!: cluster_inv_health)
    (simp add: cluster_inv_def)

lemma cluster_inv_connect_all: "cluster_inv m \<Longrightarrow> connect_all env ts m = (k, m') \<Longrightarrow> cluster_inv m'"
  by (induction env ts m arbitrary: k m' rule: connect_all.induct)
    (auto split: prod.splits dest: cluster_inv_connect_node)

lemma cluster_inv_connect: "cluster_inv m \<Longrightarrow> cluster_inv (snd (connect env rf m))"
  using cluster_inv_connect_all[of m env] unfolding connect_def Let_def
  by (cases "connect_all env (if rf then rev (connect_targets m) else connect_targets m) m") (auto simp: cluster_inv_def)

lemma ping_keeps_conns [simp]: "cl_conns (fold (ping_node env) ncs m) = cl_conns m"
  by (induction ncs arbitrary: m) simp_all

lemma cluster_inv_ping:
  "cluster_inv m \<Longrightarrow> (\<And>n. n \<in> set (dict_keys ncs) \<Longrightarrow> dict_get (cl_conns m) n \<noteq> None) \<Longrightarrow> cluster_inv (fold (ping_node env) ncs m)"
proof (induction ncs arbitrary: m)
  case (Cons nc ncs)
  have "dict_get (cl_conns m) (fst nc) \<noteq> None"
    by (rule Cons.prems(2)) simp
  then have "cluster_inv (ping_node env nc m)"
    using Cons.prems(1) unfolding ping_node_def by (intro cluster_inv_health)
  moreover have "dict_get (cl_conns (ping_node env nc m)) n \<noteq> None" if "n \<in> set (dict_keys ncs)" for n
    unfolding ping_node_simps by (rule Cons.prems(2)) (use that in simp)
  ultimately show ?case
    using Cons.IH by simp
qed simp

lemma cluster_inv_pass: "cluster_inv m \<Longrightarrow> cluster_inv (health_pass env m)"
  using cluster_inv_ping[of m "cl_conns m" env]
  by (simp add: health_pass_def recover_local_def cluster_inv_switch dict_get_None)

lemma cluster_inv_step:
  assumes "cluster_inv m"
  shows "cluster_inv (fst (cluster_step e m))"
proof (cases e)
  case (Errored n s)
  then show ?thesis
    using assms by (simp add: on_error_def cluster_inv_def)
next
  case (Lost n)
  then show ?thesis
    using assms by (auto simp: on_disconnect_def failover_def Let_def intro!: cluster_inv_switch cluster_inv_health)
next
  case (Back now n)
  then show ?thesis
    using assms by (auto simp: on_reconnect_def intro!: cluster_inv_health)
qed (use assms in \<open>auto simp: cluster_inv_connect cluster_inv_pass active_connection_def jetstream_def on_failover_def close_cluster_def
       intro!: cluster_inv_switch split: option.splits\<close>, simp_all add: cluster_inv_def)

lemma cluster_inv_run: "cluster_inv m \<Longrightarrow> cluster_inv (fst (cluster_run es m))"
proof (induction es arbitrary: m)
  case (Cons e es)
  then show ?case
    using cluster_inv_step[of m e] by (auto split: prod.splits dest: Cons.IH)
qed simp

text \<open>What a step announces: the switch it has just made, to every registered callback in order.\<close>

lemma step_announces:
  assumes "cluster_step e m = (m', out)" "out \<noteq> []"
  shows "e = Lost (cl_active m) \<and> cl_active m' = other_node (cl_active m) \<and> nh_connected (cl_health m (cl_active m')) \<and>
    out = map (\<lambda>cb. (cb, cl_active m, cl_active m')) (cl_callbacks m)"
proof -
  have eq: "cl_active m \<noteq> other_node (cl_active m)"
    by (cases "cl_active m") simp_all
  show ?thesis
    using assms by (cases e) (auto simp: on_disconnect_def failover_def Let_def eq split: if_splits)
qed

lemma lost_keeps_js: "cluster_step (Lost n) m = (m', out) \<Longrightarrow> cl_js m' = cl_js m"
  by (auto simp: on_disconnect_def failover_def Let_def split: if_splits)


lemma fold_ping_health:
  "distinct (dict_keys ncs) \<Longrightarrow> dict_get ncs n = Some c \<Longrightarrow>
   cl_health (fold (ping_node env) ncs m) n = pinged env c (cl_health m n)"
proof (induction ncs arbitrary: m)
  case (Cons nc ncs)
  have untouched: "n \<notin> set (dict_keys xs) \<Longrightarrow> cl_health (fold (ping_node env) xs m') n = cl_health m' n" for xs and m' :: "('a, 'b, 'c) cluster"
    by (induction xs arbitrary: m') auto
  show ?case
  proof (cases "fst nc = n")
    case True
    then have "snd nc = c" "n \<notin> set (dict_keys ncs)"
      using Cons.prems by (cases nc; auto)+
    then show ?thesis
      using True untouched[of ncs "ping_node env nc m"] by simp
  next
    case False
    then have "dict_get ncs n = Some c" "distinct (dict_keys ncs)"
      using Cons.prems by (cases nc; auto)+
    then show ?thesis
      using False Cons.IH[of "ping_node env nc m"] by simp
  qed
qed simp

lemma fold_ping_rest [simp]:
  "cl_active (fold (ping_node env) ncs m) = cl_active m" "cl_threshold (fold (ping_node env) ncs m) = cl_threshold m"
  by (induction ncs arbitrary: m) simp_all

text \<open>
  A monitor pass in which the local client is up and answers within the threshold makes
  the local node active, whatever happened before; no pass takes the manager away from it.
\<close>

theorem pass_returns_to_local:
  assumes init: "cluster_init literal env now l r threshold token timeout reconnects allow = Inr m0"
    and before: "cluster_run es m0 = (m, out)"
    and local: "cl_active m = LOCAL \<or>
      (dict_get (cl_conns m) LOCAL = Some c \<and> pe_up penv c \<and> pe_flush_ms penv c = Inr ms \<and> ms < cl_threshold m)"
  shows "cl_active (health_pass penv m) = LOCAL"
proof -
  have "distinct (dict_keys (cl_conns m))"
    using cluster_inv_run[OF cluster_inv_init[OF init], of es] before by (simp add: cluster_inv_def wf_dict_def)
  note h = fold_ping_health[OF this, of LOCAL c penv m]
  show ?thesis
    using local h by (cases "cl_active m") (auto simp: health_pass_def recover_local_def pinged_def)
qed

text \<open>The documented way out of a dead node is \<open>jetstream\<close>; it hands out the context of that node.\<close>

lemma jetstream_ignores_disconnect:
  assumes "cluster_inv m" "dict_get (cl_conns m) (cl_active m) \<noteq> None"
  shows "\<exists>j. jetstream m = (Inr j, m)"
  using assms unfolding cluster_inv_def jetstream_def by (cases "cl_js m (cl_active m)") auto

text \<open>A switch made while handing out a connection is announced to nobody.\<close>

lemma handing_out_is_silent: "snd (cluster_step (Ask_Connection up) m) = []"
  by simp

text \<open>An address that resolves is dialled without its scheme and its credentials.\<close>

lemma dialled_address_is_bare:
  assumes "urlparse (de_literal env) address = Inr u" "url_port u = Inr (Some (Suc p))" "url_hostname u = Some host"
    "de_resolve env host (Suc p) = Some (ip # ips)"
  shows "resolved_url env address = Inr (''nats://'' @ ip @ '':'' @ show_nat (Suc p))"
  using assms by (simp add: resolved_url_def)

section \<open>Witnesses\<close>

definition cluster_ex :: "(string, string, nat) cluster" where
  "cluster_ex =
     \<lparr>cl_local = Some ''nats://localhost:4222'', cl_railway = Some ''nats://railway.example:4222'', cl_threshold = 500,
      cl_token = None, cl_timeout = 5, cl_max_reconnect = - 1, cl_allow_reconnect = True, cl_conns = [], cl_js = Map.empty,
      cl_active = LOCAL, cl_monitored = False, cl_callbacks = [],
      cl_health = (\<lambda>n. case n of LOCAL \<Rightarrow> new_health 0 (Some ''nats://localhost:4222'')
                                | RAILWAY \<Rightarrow> new_health 0 (Some ''nats://railway.example:4222''))\<rparr>"

definition dial_ex :: "(string, string) dial_env" where
  "dial_ex = \<lparr>de_literal = (\<lambda>s. False), de_resolve = (\<lambda>h p. None), de_connect = (\<lambda>n opts. Inr (node_name n)),
    de_jetstream = (\<lambda>c. c), de_env = Map.empty, de_now = 1\<rparr>"

lemma cluster_ex_urls:
  "clean_url (\<lambda>s. False) (Some ''nats://localhost:4222'') = Inr (Some ''nats://localhost:4222'')"
  "clean_url (\<lambda>s. False) (Some ''nats://railway.example:4222'') = Inr (Some ''nats://railway.example:4222'')"
  by code_simp+

lemma ex_url_parts:
  "urlparse (\<lambda>s. False) ''nats://localhost:4222'' = Inr \<lparr>url_scheme = ''nats'', url_netloc = ''localhost:4222'', url_path = []\<rparr>"
  "urlparse (\<lambda>s. False) ''nats://railway.example:4222'' =
     Inr \<lparr>url_scheme = ''nats'', url_netloc = ''railway.example:4222'', url_path = []\<rparr>"
  by code_simp+

lemma ex_ports:
  "url_port \<lparr>url_scheme = ''nats'', url_netloc = ''localhost:4222'', url_path = []\<rparr> = Inr (Some 4222)"
  "url_port \<lparr>url_scheme = ''nats'', url_netloc = ''railway.example:4222'', url_path = []\<rparr> = Inr (Some 4222)"
  using hostname_and_port[of "''localhost''" "''4222''" "\<lparr>url_scheme = ''nats'', url_netloc = ''localhost:4222'', url_path = []\<rparr>"]
    hostname_and_port[of "''railway.example''" "''4222''" "\<lparr>url_scheme = ''nats'', url_netloc = ''railway.example:4222'', url_path = []\<rparr>"]
  by (simp_all add: plain_host_def is_digit_def digit_val_def)

lemma dial_ex_urls:
  "resolved_url dial_ex ''nats://localhost:4222'' = Inr ''nats://localhost:4222''"
  "resolved_url dial_ex ''nats://railway.example:4222'' = Inr ''nats://railway.example:4222''"
  by (simp_all add: resolved_url_def dial_ex_def ex_url_parts ex_ports)

lemma cluster_ex_init:
  "cluster_init (\<lambda>s. False) Map.empty 0 (Some ''nats://localhost:4222'') (Some ''nats://railway.example:4222'') 500 None 5 (- 1) True
   = Inr cluster_ex"
  by (simp add: cluster_init_def or_env_def cluster_ex_urls cluster_ex_def)

lemma connect_ex:
  "connect_node dial_ex LOCAL ''nats://localhost:4222'' m =
     (Inr (), set_health LOCAL (\<lambda>h. h\<lparr>nh_connected := True, nh_seen := 1, nh_error := None\<rparr>)
        (m\<lparr>cl_conns := dict_set LOCAL ''local'' (cl_conns m), cl_js := (cl_js m)(LOCAL \<mapsto> ''local'')\<rparr>))"
  "connect_node dial_ex RAILWAY ''nats://railway.example:4222'' m =
     (Inr (), set_health RAILWAY (\<lambda>h. h\<lparr>nh_connected := True, nh_seen := 1, nh_error := None\<rparr>)
        (m\<lparr>cl_conns := dict_set RAILWAY ''railway'' (cl_conns m), cl_js := (cl_js m)(RAILWAY \<mapsto> ''railway'')\<rparr>))"
  unfolding connect_node_def dial_ex_urls by (simp_all add: dial_ex_def node_name_def)

lemma connected_ex:
  fixes m :: "(string, string, nat) cluster"
  assumes "m = fst (cluster_step (Connect dial_ex False) cluster_ex)"
  shows "dict_get (cl_conns m) = Map.empty(LOCAL \<mapsto> ''local'', RAILWAY \<mapsto> ''railway'')" "cl_active m = LOCAL"
    "nh_connected (cl_health m RAILWAY)" "cl_threshold m = 500" "cl_callbacks m = []"
proof -
  have "connect_targets cluster_ex = [(LOCAL, ''nats://localhost:4222''), (RAILWAY, ''nats://railway.example:4222'')]"
    by (simp add: connect_targets_def cluster_ex_def)
  then have m: "m = snd (connect dial_ex False cluster_ex)" "cl_conns cluster_ex = []" "cl_threshold cluster_ex = 500"
    "cl_callbacks cluster_ex = []"
    and c: "connect_targets cluster_ex = [(LOCAL, ''nats://localhost:4222''), (RAILWAY, ''nats://railway.example:4222'')]"
    using assms by (simp_all add: cluster_ex_def)
  show "dict_get (cl_conns m) = Map.empty(LOCAL \<mapsto> ''local'', RAILWAY \<mapsto> ''railway'')" "cl_active m = LOCAL"
    "nh_connected (cl_health m RAILWAY)" "cl_threshold m = 500" "cl_callbacks m = []"
    unfolding m(1) by (simp_all add: connect_def c connect_ex m(2-4) fun_eq_iff)
qed


theorem pass_returns_to_local_witness:
  "let m = fst (cluster_run [Connect dial_ex False, Lost LOCAL, Back 5 LOCAL] cluster_ex) in
   cl_active m = RAILWAY \<and> cl_active (health_pass \<lparr>pe_up = (\<lambda>c. True), pe_flush_ms = (\<lambda>c. Inr 3), pe_now = 9\<rparr> m) = LOCAL"
proof -
  let ?c = "fst (cluster_step (Connect dial_ex False) cluster_ex)"
  let ?m = "fst (cluster_run [Connect dial_ex False, Lost LOCAL, Back 5 LOCAL] cluster_ex)"
  have m: "?m = on_reconnect 5 LOCAL (fst (on_disconnect LOCAL ?c))"
    using connected_ex[OF refl] by (simp add: on_disconnect_def failover_def Let_def split: prod.splits)
  have c: "dict_get (cl_conns ?m) LOCAL = Some ''local''" "cl_threshold ?m = 500" "cl_active ?m = RAILWAY"
    unfolding m using connected_ex[OF refl]
    by (simp_all add: on_reconnect_def on_disconnect_def failover_def Let_def switch_to_def)
  have "cl_active (health_pass \<lparr>pe_up = (\<lambda>c. True), pe_flush_ms = (\<lambda>c. Inr 3), pe_now = 9\<rparr> ?m) = LOCAL"
    by (rule pass_returns_to_local[OF cluster_ex_init prod.collapse[symmetric], where c = "''local''" and ms = 3])
      (simp only: c ping_env.simps sum.inject, simp)
  then show ?thesis
    unfolding Let_def using c by simp
qed

text \<open>The Railway address of the usage example in the module is taken for a placeholder and dropped.\<close>

lemma usage_example_has_no_fallback: "clean_url literal (Some ''nats://nats.railway.internal:4222'') = Inr None"
proof -
  have "urlparse literal (''nats'' @ ''://'' @ ''nats.railway.internal:4222'' @ []) =
      Inr \<lparr>url_scheme = ''nats'', url_netloc = ''nats.railway.internal:4222'', url_path = []\<rparr>"
    by (rule urlparse_parts) (auto simp: uses_params_def)
  moreover have "url_hostname \<lparr>url_scheme = ''nats'', url_netloc = ''nats.railway.internal:4222'', url_path = []\<rparr> =
      Some ''nats.railway.internal''"
    by code_simp
  moreover have "strip ''nats://nats.railway.internal:4222'' = ''nats://nats.railway.internal:4222''"
    "lower ''nats://nats.railway.internal:4222'' \<notin> no_url_words"
    by code_simp+
  ultimately show ?thesis
    unfolding clean_url_def by (simp add: placeholder_hosts_def)
qed

text \<open>However slow or dead the local node is, a monitor pass does not leave it.\<close>

lemma monitor_never_leaves_local: "cl_active m = LOCAL \<Longrightarrow> cl_active (health_pass env m) = LOCAL"
  by (simp add: health_pass_def recover_local_def)

end
