(* ===== verification/Supply_Chain.thy ===== *)
theory Supply_Chain imports Prelude begin

text \<open>
  Long lead items (\<open>memu/supply_chain.py\<close>): the table \<open>long_lead_items\<close> as a dict from item ids
  to rows, in some order, and the cache of the connector in front of it. PostgreSQL leaves the
  order of rows with equal sort keys open; here it is that of the table. The clock is an
  argument.

  Proved: no operation loses an item or moves its delivery, so an item is delivered once; the
  critical path of a task is the longest lead time of the items it requires, and the critical
  items are those within a fifth of it, in falling order. Against the intention: \<open>get_item\<close>
  keeps answering from the cache after the row has changed, and delivered items stay on the
  critical path.
\<close>

section \<open>State\<close>

record lead_item =
  li_id :: uuid
  li_name :: string
  li_type :: string
  li_lead_hours :: real
  li_category :: string
  li_supplier :: "string option"
  li_endpoint :: "string option"
  li_last_check :: "time option"
  li_in_stock :: bool
  li_required_by :: "uuid list"
  li_blocking :: "uuid list"
  li_ordered_at :: "time option"
  li_expected :: "time option"
  li_delivered_at :: "time option"
  li_created :: time
  li_updated :: time

record supply_db =
  su_table :: "(uuid, lead_item) dict"
  su_cache :: "uuid \<Rightarrow> lead_item option"

definition supply_init :: supply_db where
  "supply_init = \<lparr>su_table = [], su_cache = Map.empty\<rparr>"

section \<open>Operations\<close>

text \<open>The columns the \<open>INSERT\<close> names; the others get their defaults.\<close>

definition inserted_row :: "time \<Rightarrow> lead_item \<Rightarrow> lead_item" where
  "inserted_row now i =
     i\<lparr>li_last_check := None, li_ordered_at := None, li_expected := None, li_delivered_at := None,
       li_created := now, li_updated := now\<rparr>"

definition register_item :: "time \<Rightarrow> lead_item \<Rightarrow> supply_db \<Rightarrow> uuid \<times> supply_db" where
  "register_item now i s =
     (let row = (case dict_get (su_table s) (li_id i) of
                   None \<Rightarrow> inserted_row now i
                 | Some r \<Rightarrow> r\<lparr>li_updated := now, li_required_by := li_required_by i, li_blocking := li_blocking i\<rparr>)
      in (li_id i, s\<lparr>su_table := dict_set (li_id i) row (su_table s), su_cache := (su_cache s)(li_id i \<mapsto> i)\<rparr>))"

definition get_item :: "uuid \<Rightarrow> supply_db \<Rightarrow> lead_item option \<times> supply_db" where
  "get_item k s =
     (case su_cache s k of
        Some i \<Rightarrow> (Some i, s)
      | None \<Rightarrow> (case dict_get (su_table s) k of
            None \<Rightarrow> (None, s)
          | Some r \<Rightarrow> (Some r, s\<lparr>su_cache := (su_cache s)(k \<mapsto> r)\<rparr>)))"

definition get_items_for_task :: "uuid \<Rightarrow> supply_db \<Rightarrow> lead_item list" where
  "get_items_for_task t s =
     sort_key (\<lambda>i. - li_lead_hours i) (filter (\<lambda>i. t \<in> set (li_required_by i)) (dict_values (su_table s)))"

text \<open>Items without an expected delivery come last.\<close>

definition get_blocking_items :: "uuid \<Rightarrow> supply_db \<Rightarrow> lead_item list" where
  "get_blocking_items t s =
     (let rows = filter (\<lambda>i. t \<in> set (li_blocking i) \<and> li_delivered_at i = None) (dict_values (su_table s)) in
      sort_key (\<lambda>i. the (li_expected i)) (filter (\<lambda>i. li_expected i \<noteq> None) rows) @
      filter (\<lambda>i. li_expected i = None) rows)"

definition mark_ordered :: "time \<Rightarrow> uuid \<Rightarrow> real option \<Rightarrow> supply_db \<Rightarrow> bool \<times> supply_db" where
  "mark_ordered now k hours s =
     (case get_item k s of
        (None, s1) \<Rightarrow> (False, s1)
      | (Some i, s1) \<Rightarrow>
          let expected = now + hours_delta (case hours of Some h \<Rightarrow> h | None \<Rightarrow> li_lead_hours i) in
          (True,
           case dict_get (su_table s1) k of
             None \<Rightarrow> s1
           | Some r \<Rightarrow>
               s1\<lparr>su_table := dict_set k (r\<lparr>li_ordered_at := Some now, li_expected := Some expected, li_updated := now\<rparr>)
                    (su_table s1)\<rparr>))"

definition mark_delivered :: "time \<Rightarrow> uuid \<Rightarrow> supply_db \<Rightarrow> bool \<times> supply_db" where
  "mark_delivered now k s =
     (case dict_get (su_table s) k of
        Some r \<Rightarrow>
          if li_delivered_at r = None
          then (True, snd (get_item k (s\<lparr>su_table :=
                 dict_set k (r\<lparr>li_delivered_at := Some now, li_updated := now\<rparr>) (su_table s)\<rparr>)))
          else (False, s)
      | None \<Rightarrow> (False, s))"

record critical_item =
  ci_id :: uuid
  ci_name :: string
  ci_lead_hours :: real
  ci_category :: string
  ci_ordered :: bool
  ci_delivered :: bool

record critical_path =
  cp_hours :: real
  cp_total :: nat
  cp_critical :: nat
  cp_unordered :: nat
  cp_items :: "critical_item list"

definition critical_view :: "lead_item \<Rightarrow> critical_item" where
  "critical_view i =
     \<lparr>ci_id = li_id i, ci_name = li_name i, ci_lead_hours = li_lead_hours i, ci_category = li_category i,
      ci_ordered = (li_ordered_at i \<noteq> None), ci_delivered = (li_delivered_at i \<noteq> None)\<rparr>"

text \<open>\<open>None\<close> is the answer without items; the texts of the recommendation are left out.\<close>

definition critical_items :: "lead_item list \<Rightarrow> lead_item list" where
  "critical_items items =
     filter (\<lambda>i. li_lead_hours i \<ge> Max (li_lead_hours ` set items) * 0.8) items"

definition check_critical_path :: "uuid \<Rightarrow> supply_db \<Rightarrow> critical_path option" where
  "check_critical_path t s =
     (let items = get_items_for_task t s; critical = critical_items items in
      if items = [] then None
      else Some \<lparr>cp_hours = Max (li_lead_hours ` set items), cp_total = length items, cp_critical = length critical,
                 cp_unordered = length (filter (\<lambda>i. li_ordered_at i = None) critical),
                 cp_items = map critical_view critical\<rparr>)"

definition get_overdue_items :: "time \<Rightarrow> supply_db \<Rightarrow> lead_item list" where
  "get_overdue_items now s =
     sort_key (\<lambda>i. the (li_expected i))
       (filter (\<lambda>i. (case li_expected i of Some e \<Rightarrow> e < now | None \<Rightarrow> False) \<and> li_delivered_at i = None)
          (dict_values (su_table s)))"

section \<open>Runs\<close>

datatype supply_op = Register time lead_item | Get uuid | Order time uuid "real option" | Deliver time uuid

fun supply_step :: "supply_op \<Rightarrow> supply_db \<Rightarrow> bool \<times> supply_db" where
  "supply_step (Register now i) s = (True, snd (register_item now i s))"
| "supply_step (Get k) s = (let (r, s1) = get_item k s in (r \<noteq> None, s1))"
| "supply_step (Order now k h) s = mark_ordered now k h s"
| "supply_step (Deliver now k) s = mark_delivered now k s"

text \<open>The state after the operations and the results of the deliveries of one item.\<close>

fun deliveries :: "uuid \<Rightarrow> supply_op list \<Rightarrow> supply_db \<Rightarrow> bool list" where
  "deliveries k [] s = []"
| "deliveries k (e # es) s =
     (case supply_step e s of (ok, s1) \<Rightarrow>
        (case e of Deliver now k' \<Rightarrow> (if k' = k then [ok] else []) | _ \<Rightarrow> []) @ deliveries k es s1)"

fun supply_run :: "supply_op list \<Rightarrow> supply_db \<Rightarrow> supply_db" where
  "supply_run [] s = s"
| "supply_run (e # es) s = supply_run es (snd (supply_step e s))"

section \<open>Correctness\<close>

definition row_of :: "supply_db \<Rightarrow> uuid \<Rightarrow> lead_item option" where
  "row_of s k = dict_get (su_table s) k"

lemma get_item_table [simp]: "su_table (snd (get_item k s)) = su_table s"
  by (simp add: get_item_def split: option.splits)

lemma get_item_pair: "get_item k s = (r, s1) \<Longrightarrow> su_table s1 = su_table s"
  using get_item_table[of k s] by simp

text \<open>No operation removes a row, and a recorded delivery stays.\<close>

lemma step_keeps_row:
  assumes "row_of s k = Some r"
  shows "\<exists>r'. row_of (snd (supply_step e s)) k = Some r' \<and> li_id r' = li_id r \<and> li_name r' = li_name r \<and>
    li_lead_hours r' = li_lead_hours r \<and> (li_delivered_at r \<noteq> None \<longrightarrow> li_delivered_at r' = li_delivered_at r) \<and>
    (li_ordered_at r \<noteq> None \<longrightarrow> li_ordered_at r' \<noteq> None)"
  using assms
  by (cases e)
    (auto simp: row_of_def register_item_def mark_ordered_def mark_delivered_def Let_def split: option.splits prod.splits dest!: get_item_pair)

fun delivery_calls :: "uuid \<Rightarrow> supply_op list \<Rightarrow> nat" where
  "delivery_calls k [] = 0"
| "delivery_calls k (Deliver now k' # es) = (if k' = k then 1 else 0) + delivery_calls k es"
| "delivery_calls k (e # es) = delivery_calls k es"

lemma deliver_result:
  assumes "row_of s k = Some r"
  shows "fst (supply_step (Deliver now k) s) = (li_delivered_at r = None)"
    and "\<exists>r'. row_of (snd (supply_step (Deliver now k) s)) k = Some r' \<and> li_delivered_at r' \<noteq> None"
  using assms by (auto simp: row_of_def mark_delivered_def)

lemma other_step_keeps_delivery:
  assumes "row_of s k = Some r" "\<And>now. e \<noteq> Deliver now k"
  shows "\<exists>r'. row_of (snd (supply_step e s)) k = Some r' \<and> li_delivered_at r' = li_delivered_at r"
  using assms
  by (cases e)
    (auto simp: row_of_def register_item_def mark_ordered_def mark_delivered_def Let_def split: option.splits prod.splits dest!: get_item_pair)

text \<open>
  Among any operations on a registered item the first request to mark it delivered is the
  only one that succeeds, and none does on an item that was delivered before; no operation loses
  the item.
\<close>

theorem delivered_once:
  assumes "row_of s k = Some r"
  shows "deliveries k es s =
      (if li_delivered_at r = None \<and> delivery_calls k es > 0 then True # replicate (delivery_calls k es - 1) False
       else replicate (delivery_calls k es) False) \<and>
    row_of (supply_run es s) k \<noteq> None"
  using assms
proof (induction es arbitrary: s r)
  case (Cons e es)
  show ?case
  proof (cases "\<exists>now. e = Deliver now k")
    case True
    then obtain now where e: "e = Deliver now k"
      by blast
    obtain r' where r': "row_of (snd (supply_step e s)) k = Some r'" "li_delivered_at r' \<noteq> None"
      using deliver_result(2)[OF Cons.prems] unfolding e by blast
    show ?thesis
      using Cons.IH[OF r'(1)] r'(2) deliver_result(1)[OF Cons.prems, of now]
      by (cases "supply_step e s") (simp add: e)
  next
    case False
    then obtain r' where r': "row_of (snd (supply_step e s)) k = Some r'" "li_delivered_at r' = li_delivered_at r"
      using other_step_keeps_delivery[OF Cons.prems, of e] by blast
    have "deliveries k (e # es) s = deliveries k es (snd (supply_step e s))" "delivery_calls k (e # es) = delivery_calls k es"
      using False by (cases e; auto split: prod.splits)+
    then show ?thesis
      using Cons.IH[OF r'(1)] r'(2) by simp
  qed
qed simp

lemma sorted_desc: "sorted_wrt (\<lambda>a b. f a \<ge> f b) (sort_key (\<lambda>i. - f i :: real) xs)"
  using sorted_sort_key[of "\<lambda>i. - f i" xs] by (simp add: sorted_map)

text \<open>
  The critical path of a task: without a registered item the task requires there is none;
  else its length is the greatest lead time of those items, and the listed items are exactly
  those whose lead time is at least four fifths of it, longest first.
\<close>

theorem critical_path_correct:
  "case check_critical_path t s of
     None \<Rightarrow> \<forall>i\<in>set (dict_values (su_table s)). t \<notin> set (li_required_by i)
   | Some cp \<Rightarrow>
       let required = {i \<in> set (dict_values (su_table s)). t \<in> set (li_required_by i)} in
       (\<exists>i\<in>required. li_lead_hours i = cp_hours cp) \<and> (\<forall>i\<in>required. li_lead_hours i \<le> cp_hours cp) \<and>
       set (cp_items cp) = critical_view ` {i \<in> required. 0.8 * cp_hours cp \<le> li_lead_hours i} \<and>
       sorted_wrt (\<lambda>a b. ci_lead_hours a \<ge> ci_lead_hours b) (cp_items cp) \<and>
       cp_critical cp = length (cp_items cp) \<and>
       cp_unordered cp = length (filter (\<lambda>v. \<not> ci_ordered v) (cp_items cp))"
proof -
  let ?items = "get_items_for_task t s"
  let ?req = "{i \<in> set (dict_values (su_table s)). t \<in> set (li_required_by i)}"
  have req: "set ?items = ?req"
    by (auto simp: get_items_for_task_def)
  have desc: "sorted_wrt (\<lambda>a b. li_lead_hours a \<ge> li_lead_hours b) ?items"
    unfolding get_items_for_task_def by (rule sorted_desc)
  have view: "ci_lead_hours (critical_view i) = li_lead_hours i" "ci_ordered (critical_view i) \<longleftrightarrow> li_ordered_at i \<noteq> None" for i
    by (simp_all add: critical_view_def)
  show ?thesis
  proof (cases "?items = []")
    case True
    then have "?req = {}"
      using req by simp
    then show ?thesis
      using True by (auto simp: check_critical_path_def)
  next
    case False
    let ?m = "Max (li_lead_hours ` set ?items)"
    have max: "?m \<in> li_lead_hours ` set ?items" "\<forall>i\<in>set ?items. li_lead_hours i \<le> ?m"
      using False by simp_all
    have sorted: "sorted_wrt (\<lambda>a b. ci_lead_hours a \<ge> ci_lead_hours b) (map critical_view (critical_items ?items))"
      unfolding sorted_wrt_map view critical_items_def using desc by (rule sorted_wrt_filter)
    have unordered: "length (filter (\<lambda>i. li_ordered_at i = None) xs) = length (filter (\<lambda>v. \<not> ci_ordered v) (map critical_view xs))" for xs
      by (induction xs) (simp_all add: view)
    have listed: "set (map critical_view (critical_items ?items)) = critical_view ` {i \<in> ?req. 0.8 * ?m \<le> li_lead_hours i}"
      unfolding critical_items_def set_map set_filter req by (simp add: mult.commute)
    show ?thesis
      unfolding check_critical_path_def Let_def if_not_P[OF False] option.case critical_path.simps listed
      using max sorted unordered unfolding req by auto
  qed
qed

text \<open>Ordering an item that is cached changes its row and not the answer of \<open>get_item\<close>.\<close>

lemma cached_item_goes_stale:
  assumes "su_cache s k = Some i" "row_of s k = Some r"
  shows "\<exists>r'. row_of (snd (mark_ordered now k h s)) k = Some r' \<and> li_ordered_at r' = Some now \<and>
    fst (get_item k (snd (mark_ordered now k h s))) = Some i"
  using assms by (auto simp: row_of_def mark_ordered_def get_item_def Let_def)

text \<open>What was set on a new item about orders and deliveries is in the cache and not in the row.\<close>

lemma registration_drops_tracking:
  assumes "row_of s (li_id i) = None"
  shows "\<exists>r. row_of (snd (register_item now i s)) (li_id i) = Some r \<and> li_ordered_at r = None \<and> li_delivered_at r = None \<and>
    fst (get_item (li_id i) (snd (register_item now i s))) = Some i"
  using assms by (simp add: row_of_def register_item_def get_item_def inserted_row_def)

section \<open>Witnesses\<close>

definition item_ex :: lead_item where
  "item_ex =
     \<lparr>li_id = ''i1'', li_name = ''gpu'', li_type = ''hardware'', li_lead_hours = 100, li_category = ''medium'', li_supplier = None,
      li_endpoint = None, li_last_check = None, li_in_stock = True, li_required_by = [''t1''], li_blocking = [''t1''],
      li_ordered_at = None, li_expected = None, li_delivered_at = None, li_created = 0, li_updated = 0\<rparr>"

theorem delivered_once_witness:
  "deliveries ''i1'' [Deliver 5 ''i1'', Get ''i1'', Deliver 6 ''i2'', Order 7 ''i1'' None, Deliver 8 ''i1'']
     (snd (register_item 3 item_ex supply_init)) = [True, False]"
  using delivered_once[of "snd (register_item 3 item_ex supply_init)" "''i1''" "inserted_row 3 item_ex"
      "[Deliver 5 ''i1'', Get ''i1'', Deliver 6 ''i2'', Order 7 ''i1'' None, Deliver 8 ''i1'']"]
  by (simp add: row_of_def register_item_def supply_init_def item_ex_def inserted_row_def del: deliveries.simps)

end
