(* ===== verification/Concept_Search.thy ===== *)
theory Concept_Search imports Rlm begin

text \<open>
  Keyword, concept and hybrid search (\<open>memu/concept_search.py\<close>). A search row is a dict; the
  text of an id is an argument (\<open>str_of\<close>), as the ids are objects of the database driver.

  The database is a list of memories and a list of concepts with what PostgreSQL decides about
  texts as arguments: whether a memory matches a full-text query and how well, trigram
  similarity, its threshold operator and \<open>ILIKE\<close>. A query that raises says so. Rows with equal
  sort keys come in the order of the table.

  Proved: the fusion gives each row with an id the sum of its reciprocal ranks, exactly as the
  fusion of the retriever does; a hybrid search for an agent adds only memories of that agent.
  The trigram search does not: its condition lets every exact-enough match of any agent pass.
\<close>

section \<open>Reciprocal rank fusion\<close>

definition item_id :: "(json \<Rightarrow> string) \<Rightarrow> payload \<Rightarrow> string" where
  "item_id str_of item = (case dict_get item ''id'' of None \<Rightarrow> [] | Some v \<Rightarrow> str_of v)"

type_synonym fusion = "(string \<Rightarrow> real option) \<times> (string, payload) dict"

definition fuse_add :: "(json \<Rightarrow> string) \<Rightarrow> nat \<Rightarrow> nat \<Rightarrow> payload \<Rightarrow> fusion \<Rightarrow> fusion" where
  "fuse_add str_of k rank item st =
     (case st of (scores, items) \<Rightarrow>
        let i = item_id str_of item in
        if i = [] then (scores, items)
        else (scores(i \<mapsto> (case scores i of Some x \<Rightarrow> x | None \<Rightarrow> 0) + 1 / (real k + real rank)),
              if dict_get items i = None then dict_set i item items else items))"

fun fuse_set :: "(json \<Rightarrow> string) \<Rightarrow> nat \<Rightarrow> nat \<Rightarrow> payload list \<Rightarrow> fusion \<Rightarrow> fusion" where
  "fuse_set str_of k rank [] st = st"
| "fuse_set str_of k rank (item # items) st = fuse_set str_of k (rank + 1) items (fuse_add str_of k rank item st)"

definition fuse_table :: "(json \<Rightarrow> string) \<Rightarrow> nat \<Rightarrow> payload list list \<Rightarrow> fusion" where
  "fuse_table str_of k sets = fold (fuse_set str_of k 1) sets (Map.empty, [])"

definition score_or_zero :: "(json \<Rightarrow> string) \<Rightarrow> (string \<Rightarrow> real option) \<Rightarrow> payload \<Rightarrow> real" where
  "score_or_zero str_of scores item = (case scores (item_id str_of item) of Some x \<Rightarrow> x | None \<Rightarrow> 0)"

definition fuse_rows :: "(json \<Rightarrow> string) \<Rightarrow> nat \<Rightarrow> payload list list \<Rightarrow> payload list" where
  "fuse_rows str_of k sets =
     (case fuse_table str_of k sets of (scores, items) \<Rightarrow>
        map (\<lambda>item. dict_set ''rrf_score'' (JReal (score_or_zero str_of scores item)) item)
          (sort_key (\<lambda>item. - score_or_zero str_of scores item) (dict_values items)))"

section \<open>The searches\<close>

record memory_row =
  mr_id :: uuid
  mr_agent :: string
  mr_content :: string
  mr_columns :: payload

record concept =
  cn_concept :: string
  cn_ids :: "uuid list"
  cn_frequency :: int

record memory_db =
  db_memories :: "memory_row list"
  db_concepts :: "concept list"
  db_fts_rank :: "string \<Rightarrow> memory_row \<Rightarrow> real option"
  db_similarity :: "string \<Rightarrow> string \<Rightarrow> real"
  db_similar :: "string \<Rightarrow> string \<Rightarrow> bool"
  db_ilike :: "string \<Rightarrow> string \<Rightarrow> bool"
  db_fts_raises :: bool
  db_concepts_raise :: bool
  db_memories_raise :: bool

definition row_dict :: "string \<Rightarrow> (memory_row \<Rightarrow> real) \<Rightarrow> memory_row \<Rightarrow> payload" where
  "row_dict score_col score m =
     [(''id'', JStr (mr_id m)), (''content'', JStr (mr_content m)), (''agent_id'', JStr (mr_agent m)),
      (score_col, JReal (score m))] @ mr_columns m"

definition agent_ok :: "string option \<Rightarrow> memory_row \<Rightarrow> bool" where
  "agent_ok agent m \<longleftrightarrow> (nonempty agent \<longrightarrow> Some (mr_agent m) = agent)"

definition fts_search :: "memory_db \<Rightarrow> string \<Rightarrow> nat \<Rightarrow> string option \<Rightarrow> payload list" where
  "fts_search db query limit agent =
     (if db_fts_raises db then []
      else let rank = (\<lambda>m. the (db_fts_rank db query m)) in
        map (row_dict ''fts_rank'' rank)
          (take limit (sort_key (\<lambda>m. - rank m)
             (filter (\<lambda>m. db_fts_rank db query m \<noteq> None \<and> agent_ok agent m) (db_memories db)))))"

text \<open>\<open>AND\<close> binds tighter than \<open>OR\<close> in the joined condition.\<close>

definition trgm_where :: "memory_db \<Rightarrow> string \<Rightarrow> string option \<Rightarrow> memory_row \<Rightarrow> bool" where
  "trgm_where db query agent m \<longleftrightarrow>
     db_similar db (mr_content m) query \<or> (db_ilike db (mr_content m) (''%'' @ query @ ''%'') \<and> agent_ok agent m)"

definition trgm_search :: "memory_db \<Rightarrow> string \<Rightarrow> nat \<Rightarrow> string option \<Rightarrow> payload list" where
  "trgm_search db query limit agent =
     (if db_fts_raises db then []
      else let score = (\<lambda>m. db_similarity db (mr_content m) query) in
        map (row_dict ''trgm_score'' score)
          (take limit (sort_key (\<lambda>m. - score m) (filter (trgm_where db query agent) (db_memories db)))))"

definition concept_lookup :: "memory_db \<Rightarrow> string \<Rightarrow> nat \<Rightarrow> bool \<Rightarrow> concept list" where
  "concept_lookup db query limit fuzzy =
     (if db_concepts_raise db then []
      else if fuzzy
      then take limit (sort_key (\<lambda>c. - cn_frequency c)
             (filter (\<lambda>c. db_ilike db (cn_concept c) (''%'' @ query @ ''%'') \<or> db_similar db (cn_concept c) query) (db_concepts db)))
      else take limit (filter (\<lambda>c. cn_concept c = strip (lower query)) (db_concepts db)))"

text \<open>\<open>None\<close> is the exception of the second query, which the function does not catch.\<close>

definition array_position :: "uuid list \<Rightarrow> uuid \<Rightarrow> nat" where
  "array_position ids i = length (takeWhile (\<lambda>j. j \<noteq> i) ids)"

definition concept_search_memories :: "memory_db \<Rightarrow> string \<Rightarrow> nat \<Rightarrow> string option \<Rightarrow> payload list option" where
  "concept_search_memories db query limit agent =
     (let all_ids = concat (map cn_ids (concept_lookup db query 5 True)); ids = take limit (dedup all_ids) in
      if all_ids = [] then Some []
      else if db_memories_raise db then None
      else Some (map (row_dict ''concept_score'' (\<lambda>m. 0.9))
             (take limit (sort_key (\<lambda>m. array_position ids (mr_id m))
                (filter (\<lambda>m. mr_id m \<in> set ids \<and> agent_ok agent m) (db_memories db))))))"

definition hybrid_search ::
  "(json \<Rightarrow> string) \<Rightarrow> memory_db \<Rightarrow> string \<Rightarrow> payload list \<Rightarrow> nat \<Rightarrow> string option \<Rightarrow> bool \<Rightarrow> bool \<Rightarrow> nat \<Rightarrow> payload list option" where
  "hybrid_search str_of db query vector_results limit agent use_fts use_concepts rrf_k =
     (let fts = (if use_fts then fts_search db query (limit * 2) agent else []) in
      case (if use_concepts then concept_search_memories db query (limit * 2) agent else Some []) of
        None \<Rightarrow> None
      | Some concepts \<Rightarrow>
          let sets = [vector_results] @ (if fts \<noteq> [] then [fts] else []) @ (if concepts \<noteq> [] then [concepts] else []) in
          if length sets = 1 then Some (take limit vector_results)
          else Some (take limit (fuse_rows str_of rrf_k sets)))"

section \<open>Correctness of the fusion\<close>

text \<open>The sum of the reciprocal ranks a key has in the lists of keys; an empty key takes a rank.\<close>

fun key_score :: "nat \<Rightarrow> string \<Rightarrow> nat \<Rightarrow> string list \<Rightarrow> real" where
  "key_score k key rank [] = 0"
| "key_score k key rank (i # is) = (if i = key then 1 / (real k + real rank) else 0) + key_score k key (rank + 1) is"

definition total_key_score :: "nat \<Rightarrow> string \<Rightarrow> string list list \<Rightarrow> real" where
  "total_key_score k key ls = sum_list (map (key_score k key 1) ls)"

definition fusion_score :: "fusion \<Rightarrow> string \<Rightarrow> real" where
  "fusion_score st key = (case fst st key of Some x \<Rightarrow> x | None \<Rightarrow> 0)"

definition fusion_ok :: "(json \<Rightarrow> string) \<Rightarrow> payload set \<Rightarrow> fusion \<Rightarrow> bool" where
  "fusion_ok str_of R st \<longleftrightarrow> wf_dict (snd st) \<and> dom (dict_get (snd st)) = item_id str_of ` R - {[]} \<and>
     (\<forall>i r. dict_get (snd st) i = Some r \<longrightarrow> r \<in> R \<and> item_id str_of r = i)"

lemma fuse_add_score:
  "key \<noteq> [] \<Longrightarrow> fusion_score (fuse_add str_of k rank item st) key =
     fusion_score st key + (if item_id str_of item = key then 1 / (real k + real rank) else 0)"
  by (cases st) (auto simp: fusion_score_def fuse_add_def Let_def split: option.splits)

lemma fuse_set_score:
  "key \<noteq> [] \<Longrightarrow> fusion_score (fuse_set str_of k rank items st) key =
     fusion_score st key + key_score k key rank (map (item_id str_of) items)"
  by (induction items arbitrary: rank st) (simp_all add: fuse_add_score)

lemma fuse_fold_score:
  "key \<noteq> [] \<Longrightarrow> fusion_score (fold (fuse_set str_of k 1) sets st) key =
     fusion_score st key + total_key_score k key (map (map (item_id str_of)) sets)"
  by (induction sets arbitrary: st) (simp_all add: fuse_set_score total_key_score_def)

lemma fuse_add_ok:
  assumes ok: "fusion_ok str_of R st"
  shows "fusion_ok str_of (insert item R) (fuse_add str_of k rank item st)"
proof -
  let ?i = "item_id str_of item" and ?items = "snd st"
  have dom: "dom (dict_get ?items) = item_id str_of ` R - {[]}" and wf: "wf_dict ?items"
    and rows: "\<And>i r. dict_get ?items i = Some r \<Longrightarrow> r \<in> R \<and> item_id str_of r = i"
    using ok by (simp_all add: fusion_ok_def)
  show ?thesis
  proof (cases "?i = [] \<or> ?i \<in> dom (dict_get ?items)")
    case True
    then have same: "snd (fuse_add str_of k rank item st) = ?items"
      by (cases st) (auto simp: fuse_add_def Let_def)
    have "item_id str_of ` insert item R - {[]} = item_id str_of ` R - {[]}"
      using True dom by auto
    then show ?thesis
      unfolding fusion_ok_def same using dom wf rows by simp
  next
    case False
    then have upd: "snd (fuse_add str_of k rank item st) = dict_set ?i item ?items"
      by (cases st) (auto simp: fuse_add_def Let_def)
    have "dom (dict_get (dict_set ?i item ?items)) = item_id str_of ` insert item R - {[]}"
      unfolding dict_get_set dom_fun_upd dom using False by auto
    moreover have "wf_dict (dict_set ?i item ?items)"
      using wf by simp
    moreover have "r \<in> insert item R \<and> item_id str_of r = i" if "dict_get (dict_set ?i item ?items) i = Some r" for i r
      using that rows[of i r] by (auto split: if_splits)
    ultimately show ?thesis
      unfolding fusion_ok_def upd by blast
  qed
qed

lemma fuse_set_ok: "fusion_ok str_of R st \<Longrightarrow> fusion_ok str_of (R \<union> set items) (fuse_set str_of k rank items st)"
proof (induction items arbitrary: rank st R)
  case (Cons item items)
  from Cons.IH[OF fuse_add_ok[OF Cons.prems]] show ?case
    by simp
qed simp

lemma fuse_fold_ok:
  "fusion_ok str_of R st \<Longrightarrow> fusion_ok str_of (R \<union> \<Union> (set ` set sets)) (fold (fuse_set str_of k 1) sets st)"
proof (induction sets arbitrary: st R)
  case (Cons l ls)
  from Cons.IH[OF fuse_set_ok[OF Cons.prems]] show ?case
    by (simp add: Un_assoc)
qed simp

lemma fuse_table_facts:
  "fusion_ok str_of (\<Union> (set ` set sets)) (fuse_table str_of k sets)"
  "key \<noteq> [] \<Longrightarrow> fusion_score (fuse_table str_of k sets) key = total_key_score k key (map (map (item_id str_of)) sets)"
  using fuse_fold_ok[where str_of = str_of and R = "{}" and st = "(Map.empty, [])" and k = k and sets = sets]
    fuse_fold_score[where key = key and str_of = str_of and k = k and sets = sets and st = "(Map.empty, [])"]
  by (simp_all add: fuse_table_def fusion_ok_def fusion_score_def)

definition row_score :: "payload \<Rightarrow> real" where
  "row_score r = (case dict_get r ''rrf_score'' of Some (JReal x) \<Rightarrow> x | _ \<Rightarrow> 0)"

lemma scored_row [simp]:
  "item_id str_of (dict_set ''rrf_score'' v r) = item_id str_of r" "row_score (dict_set ''rrf_score'' (JReal x) r) = x"
  by (simp_all add: item_id_def row_score_def)

lemma sort_key_falling: "sorted (rev (map f (sort_key (\<lambda>i. - f i :: real) xs)))"
  using sorted_sort_key[of "\<lambda>i. - f i" xs] unfolding sorted_wrt_rev sorted_wrt_map sorted_map by simp

text \<open>What the fusion returns: each key once, with the sum of its reciprocal ranks, best first.\<close>

lemma fuse_rows_facts:
  fixes str_of k sets
  defines "out \<equiv> fuse_rows str_of k sets" and "keys \<equiv> map (map (item_id str_of)) sets"
  shows "set (map (\<lambda>r. (item_id str_of r, row_score r)) out) =
      (\<lambda>i. (i, total_key_score k i keys)) ` (item_id str_of ` (\<Union> (set ` set sets)) - {[]})"
    and "distinct (map (item_id str_of) out)" and "sorted (rev (map row_score out))"
proof -
  obtain scores items where t: "fuse_table str_of k sets = (scores, items)"
    by fastforce
  let ?R = "\<Union> (set ` set sets)" and ?s = "\<lambda>item. score_or_zero str_of scores item"
  let ?sorted = "sort_key (\<lambda>item. - ?s item) (dict_values items)"
  have out: "out = map (\<lambda>item. dict_set ''rrf_score'' (JReal (?s item)) item) ?sorted"
    unfolding out_def fuse_rows_def t by simp
  have wf: "wf_dict items" and dom: "dom (dict_get items) = item_id str_of ` ?R - {[]}"
    and rows: "\<And>i r. dict_get items i = Some r \<Longrightarrow> item_id str_of r = i"
    using fuse_table_facts(1)[of str_of sets k] unfolding t by (simp_all add: fusion_ok_def)
  have entry: "item_id str_of (snd p) = fst p" if "p \<in> set items" for p
    using that wf by (intro rows) (simp add: wf_dict_def)
  have ids: "map (item_id str_of) (dict_values items) = dict_keys items"
    unfolding map_map by (rule map_cong[OF refl]) (simp add: entry)
  have score: "?s r = total_key_score k i keys" if "item_id str_of r = i" "i \<noteq> []" for r i
    using fuse_table_facts(2)[OF that(2), of str_of k sets] that(1)
    unfolding t keys_def by (simp add: score_or_zero_def fusion_score_def)
  have fst_out: "map (item_id str_of) out = map (item_id str_of) ?sorted"
    by (simp add: out)
  have nonempty_ids: "i \<noteq> []" if "i \<in> set (dict_keys items)" for i
    using that dom unfolding dict_keys_dom by blast
  have "set (map (\<lambda>r. (item_id str_of r, row_score r)) out) = (\<lambda>r. (item_id str_of r, ?s r)) ` set (dict_values items)"
    by (simp add: out image_image)
  also have "\<dots> = (\<lambda>r. (item_id str_of r, total_key_score k (item_id str_of r) keys)) ` set (dict_values items)"
    using nonempty_ids entry by (intro image_cong refl) (auto intro!: score)
  also have "\<dots> = (\<lambda>i. (i, total_key_score k i keys)) ` set (map (item_id str_of) (dict_values items))"
    by (simp add: image_image)
  also have "\<dots> = (\<lambda>i. (i, total_key_score k i keys)) ` (item_id str_of ` ?R - {[]})"
    unfolding ids dict_keys_dom dom ..
  finally show "set (map (\<lambda>r. (item_id str_of r, row_score r)) out) =
      (\<lambda>i. (i, total_key_score k i keys)) ` (item_id str_of ` ?R - {[]})" .
  have "distinct (map (item_id str_of) (dict_values items))"
    unfolding ids using wf by (simp add: wf_dict_def)
  then have "distinct (dict_values items) \<and> inj_on (item_id str_of) (set (dict_values items))"
    by (rule distinct_map[THEN iffD1])
  then show "distinct (map (item_id str_of) out)"
    unfolding fst_out by (simp only: distinct_map distinct_sort set_sort)
  have "map row_score out = map ?s ?sorted"
    by (simp add: out)
  then show "sorted (rev (map row_score out))"
    using sort_key_falling[of ?s "dict_values items"] by (simp only:)
qed

definition hit_row :: "search_hit \<Rightarrow> payload" where
  "hit_row h = [(''id'', JStr (hit_key h))]"

lemma rank_score_keys: "rank_score k key rank hs = key_score k key rank (map hit_key hs)"
  by (induction hs arbitrary: rank) simp_all

lemma total_score_keys: "total_score k key ls = total_key_score k key (map (map hit_key) ls)"
  by (simp add: total_score_def total_key_score_def rank_score_keys[abs_def] comp_def)

lemma rrf_fuse_all:
  assumes "card (hit_key ` all_hits ls) \<le> n"
  shows "set (map (\<lambda>h. (hit_key h, sh_score h)) (rrf_fuse n k ls)) = (\<lambda>i. (i, total_score k i ls)) ` (hit_key ` all_hits ls)"
proof -
  let ?d = "rrf_table k ls"
  have ok: "wf_dict ?d" "dom (dict_get ?d) = hit_key ` all_hits ls"
    "\<And>key e. dict_get ?d key = Some e \<Longrightarrow> hit_key (fe_hit e) = key"
    using rrf_table_ok[of ls k] by (simp_all add: table_ok_def entry_ok_def)
  have "length ?d \<le> n"
    using length_dict[OF ok(1)] ok(2) assms by simp
  then have "rrf_fuse n k ls = map (\<lambda>p. fused_hit (snd p)) (sort_key rrf_order ?d)"
    by (simp add: rrf_fuse_def)
  then have "set (map (\<lambda>h. (hit_key h, sh_score h)) (rrf_fuse n k ls)) = (\<lambda>p. (hit_key (fe_hit (snd p)), fe_score (snd p))) ` set ?d"
    by (simp add: image_image)
  also have "\<dots> = (\<lambda>p. (fst p, total_score k (fst p) ls)) ` set ?d"
  proof (rule image_cong[OF refl])
    fix p assume "p \<in> set ?d"
    then have "dict_get ?d (fst p) = Some (snd p)"
      using ok(1) by (simp add: wf_dict_def)
    then show "(hit_key (fe_hit (snd p)), fe_score (snd p)) = (fst p, total_score k (fst p) ls)"
      using ok(3) rrf_table_score by simp
  qed
  also have "\<dots> = (\<lambda>i. (i, total_score k i ls)) ` set (dict_keys ?d)"
    by (simp add: image_image)
  finally show ?thesis
    unfolding dict_keys_dom ok(2) .
qed

text \<open>
  (C25) The two fusions of the repository agree: on rows that carry the keys of the hits, the
  fusion of this module and the one of the retriever, asked for all, give the same keys with the
  same scores, each key once and best first.
\<close>

theorem fusions_agree:
  assumes str: "\<And>s. str_of (JStr s) = s" and keys: "\<And>h. h \<in> all_hits ls \<Longrightarrow> hit_key h \<noteq> []"
    and n: "card (hit_key ` all_hits ls) \<le> n"
  shows "set (map (\<lambda>r. (item_id str_of r, row_score r)) (fuse_rows str_of k (map (map hit_row) ls))) =
      set (map (\<lambda>h. (hit_key h, sh_score h)) (rrf_fuse n k ls)) \<and>
    distinct (map (item_id str_of) (fuse_rows str_of k (map (map hit_row) ls))) \<and>
    sorted (rev (map row_score (fuse_rows str_of k (map (map hit_row) ls))))"
proof -
  have id: "item_id str_of (hit_row h) = hit_key h" for h
    by (simp add: item_id_def hit_row_def str)
  have ks: "map (map (item_id str_of)) (map (map hit_row) ls) = map (map hit_key) ls"
    by (simp add: id comp_def)
  have "item_id str_of ` (\<Union> (set ` set (map (map hit_row) ls))) - {[]} = hit_key ` all_hits ls"
    using keys by (auto simp: all_hits_def id image_UN image_image)
  then show ?thesis
    using fuse_rows_facts[of str_of k "map (map hit_row) ls"] rrf_fuse_all[OF n, of k]
    unfolding ks total_score_keys by simp
qed

section \<open>Whose memories a search returns\<close>

definition of_agent :: "string option \<Rightarrow> payload \<Rightarrow> bool" where
  "of_agent agent r \<longleftrightarrow> (nonempty agent \<longrightarrow> map_option JStr agent = dict_get r ''agent_id'')"

lemma row_dict_agent: "agent_ok agent m \<Longrightarrow> of_agent agent (row_dict c f m)"
  by (auto simp: of_agent_def row_dict_def agent_ok_def)

lemma fts_search_agent: "r \<in> set (fts_search db query limit agent) \<Longrightarrow> of_agent agent r"
  by (auto simp: fts_search_def Let_def intro: row_dict_agent dest!: in_set_takeD split: if_splits)

lemma concept_search_agent: "concept_search_memories db query limit agent = Some rs \<Longrightarrow> r \<in> set rs \<Longrightarrow> of_agent agent r"
  by (auto simp: concept_search_memories_def Let_def intro!: row_dict_agent dest!: in_set_takeD split: if_splits)

lemma fuse_rows_from:
  assumes "r \<in> set (fuse_rows str_of k sets)"
  shows "\<exists>r0 x. r0 \<in> \<Union> (set ` set sets) \<and> r = dict_set ''rrf_score'' (JReal x) r0"
proof -
  obtain scores items where t: "fuse_table str_of k sets = (scores, items)"
    by fastforce
  have ok: "wf_dict items" "\<And>i r. dict_get items i = Some r \<Longrightarrow> r \<in> \<Union> (set ` set sets)"
    using fuse_table_facts(1)[of str_of sets k] unfolding t by (simp_all add: fusion_ok_def)
  obtain r0 where r0: "r0 \<in> set (dict_values items)" "r = dict_set ''rrf_score'' (JReal (score_or_zero str_of scores r0)) r0"
    using assms unfolding fuse_rows_def t by auto
  obtain i where "dict_get items i = Some r0"
    using r0(1) dict_values_iff[OF ok(1)] by blast
  then show ?thesis
    using ok(2) r0(2) by blast
qed

text \<open>
  (C26) A hybrid search for an agent returns the caller's own vector results and memories of that
  agent, nothing else, and at most as many as asked for.
\<close>

theorem hybrid_search_respects_agent:
  assumes "hybrid_search str_of db query vs limit agent use_fts use_concepts k = Some rs"
  shows "length rs \<le> limit \<and>
    (\<forall>r\<in>set rs. (\<exists>v\<in>set vs. r = v \<or> (\<exists>x. r = dict_set ''rrf_score'' (JReal x) v)) \<or> of_agent agent r)"
proof -
  define fts where "fts = (if use_fts then fts_search db query (limit * 2) agent else [])"
  obtain cs where cs: "(if use_concepts then concept_search_memories db query (limit * 2) agent else Some []) = Some cs"
    using assms by (auto simp: hybrid_search_def Let_def split: option.splits)
  define sets where "sets = [vs] @ (if fts \<noteq> [] then [fts] else []) @ (if cs \<noteq> [] then [cs] else [])"
  have rs: "rs = take limit (if length sets = 1 then vs else fuse_rows str_of k sets)"
    using assms cs unfolding hybrid_search_def Let_def fts_def[symmetric] cs option.case sets_def[symmetric]
    by (simp split: if_splits)
  have agent: "of_agent agent r" if "r \<in> set fts \<union> set cs" for r
    using that cs fts_search_agent concept_search_agent by (auto simp: fts_def split: if_splits)
  have "(\<exists>v\<in>set vs. r = v \<or> (\<exists>x. r = dict_set ''rrf_score'' (JReal x) v)) \<or> of_agent agent r" if "r \<in> set rs" for r
  proof (cases "length sets = 1")
    case True
    then show ?thesis
      using that in_set_takeD[of r limit vs] by (simp add: rs) blast
  next
    case False
    then have fused: "r \<in> set (fuse_rows str_of k sets)"
      using that in_set_takeD[of r limit] by (simp add: rs)
    obtain r0 x where r0: "r0 \<in> \<Union> (set ` set sets)" "r = dict_set ''rrf_score'' (JReal x) r0"
      using fuse_rows_from[OF fused] by (elim exE conjE) (rule that)
    have "of_agent agent (dict_set ''rrf_score'' (JReal x) r0)" if "of_agent agent r0"
      using that by (simp add: of_agent_def)
    moreover have "r0 \<in> set vs \<or> of_agent agent r0"
      using r0(1) agent by (auto simp: sets_def split: if_splits)
    ultimately show ?thesis
      using r0(2) by blast
  qed
  then show ?thesis
    unfolding rs by simp
qed

text \<open>A trigram search for one agent returns what is similar enough of every other agent too.\<close>

lemma trgm_leaks_other_agents:
  assumes "\<not> db_fts_raises db" "db_memories db = [m]" "db_similar db (mr_content m) query"
  shows "\<exists>r. trgm_search db query (Suc n) (Some agent) = [r] \<and> dict_get r ''agent_id'' = Some (JStr (mr_agent m))"
  using assms by (simp add: trgm_search_def trgm_where_def row_dict_def)

section \<open>Witnesses\<close>

definition hit_ex :: "string \<Rightarrow> search_hit" where
  "hit_ex i = \<lparr>sh_node = (demo_node ''T'' ''b'')\<lparr>nd_id := i, nd_slug := i\<rparr>, sh_score = 1, sh_reason = ''fts''\<rparr>"

theorem fusions_agree_witness:
  "\<exists>str_of. set (map (\<lambda>r. (item_id str_of r, row_score r)) (fuse_rows str_of 60 (map (map hit_row) [[hit_ex ''a'', hit_ex ''b''], [hit_ex ''b'']]))) =
   set (map (\<lambda>h. (hit_key h, sh_score h)) (rrf_fuse 5 60 [[hit_ex ''a'', hit_ex ''b''], [hit_ex ''b'']]))"
proof -
  let ?ls = "[[hit_ex ''a'', hit_ex ''b''], [hit_ex ''b'']]"
  have hits: "all_hits ?ls = {hit_ex ''a'', hit_ex ''b''}"
    by (auto simp: all_hits_def)
  have keys: "hit_key (hit_ex ''a'') = ''a''" "hit_key (hit_ex ''b'') = ''b''"
    by (simp_all add: hit_key_def hit_ex_def)
  have "\<And>h. h \<in> all_hits ?ls \<Longrightarrow> hit_key h \<noteq> []" "card (hit_key ` all_hits ?ls) \<le> 5"
    unfolding hits using keys by auto
  then show ?thesis
    by (intro exI) (rule fusions_agree[where str_of = "case_json [] (\<lambda>b. []) (\<lambda>i. []) (\<lambda>r. []) (\<lambda>s. s) (\<lambda>l. []) (\<lambda>l. [])",
        THEN conjunct1], simp, blast, assumption)
qed

definition db_ex :: memory_db where
  "db_ex = \<lparr>db_memories = [\<lparr>mr_id = ''m1'', mr_agent = ''a1'', mr_content = ''x'', mr_columns = []\<rparr>,
                            \<lparr>mr_id = ''m2'', mr_agent = ''a2'', mr_content = ''x'', mr_columns = []\<rparr>],
     db_concepts = [], db_fts_rank = (\<lambda>q m. Some 1), db_similarity = (\<lambda>a b. 0), db_similar = (\<lambda>a b. False),
     db_ilike = (\<lambda>a b. False), db_fts_raises = False, db_concepts_raise = False, db_memories_raise = False\<rparr>"

theorem hybrid_search_respects_agent_witness:
  "\<exists>rs. hybrid_search (\<lambda>v. case v of JStr s \<Rightarrow> s | _ \<Rightarrow> []) db_ex ''x'' [] 5 (Some ''a1'') True True 60 = Some rs \<and>
     rs \<noteq> [] \<and> (\<forall>r\<in>set rs. of_agent (Some ''a1'') r)"
proof -
  let ?rs = "fuse_rows (\<lambda>v. case v of JStr s \<Rightarrow> s | _ \<Rightarrow> []) 60 [[], fts_search db_ex ''x'' 10 (Some ''a1'')]"
  have fts: "fts_search db_ex ''x'' 10 (Some ''a1'') = [row_dict ''fts_rank'' (\<lambda>m. 1) \<lparr>mr_id = ''m1'', mr_agent = ''a1'', mr_content = ''x'', mr_columns = []\<rparr>]"
    by (simp add: fts_search_def db_ex_def agent_ok_def)
  have call: "hybrid_search (\<lambda>v. case v of JStr s \<Rightarrow> s | _ \<Rightarrow> []) db_ex ''x'' [] 5 (Some ''a1'') True True 60 = Some (take 5 ?rs)"
    unfolding hybrid_search_def by (simp add: fts concept_search_memories_def concept_lookup_def db_ex_def[THEN arg_cong[where f = db_concepts]])
  have "?rs \<noteq> []"
    by (simp add: fts fuse_rows_def fuse_table_def fuse_add_def item_id_def row_dict_def Let_def)
  then show ?thesis
    using hybrid_search_respects_agent[OF call] by (intro exI[of _ "take 5 ?rs"]) (auto simp: call)
qed

end
