(* ===== verification/Ingest_Resolve.thy ===== *)
theory Ingest_Resolve imports Prelude begin

text \<open>
  Turning references in source code into links between ingested symbols: the parser types
  (\<open>memu/ingest/parsers/base.py\<close>), the names a Python parser derives without looking at the
  syntax tree (\<open>parsers/python_ast.py\<close>, \<open>parsers/__init__.py\<close>) and the resolver
  (\<open>memu/ingest/resolve.py\<close>). The syntax tree itself is the \<open>ast\<close> module of Python: a parsed
  file is an argument.

  Proved: every link points at an ingested module or one of its symbols, under its slug, and
  never at its own source; a symbol has one link per target, in the order of its references.
  Shown as well: a bare name in a method goes to the sibling method even when it is imported,
  the relative imports of a package file lose a level, and two symbols can share a slug.
\<close>

section \<open>Dotted names\<close>

fun split_on :: "char \<Rightarrow> string \<Rightarrow> string list" where
  "split_on sep [] = [[]]"
| "split_on sep (c # cs) =
     (if c = sep then [] # split_on sep cs
      else (case split_on sep cs of p # ps \<Rightarrow> (c # p) # ps | [] \<Rightarrow> [[c]]))"

abbreviation dots :: "string \<Rightarrow> string list" where
  "dots s \<equiv> split_on CHR ''.'' s"

abbreviation dotted :: "string list \<Rightarrow> string" where
  "dotted ps \<equiv> join_strings ''.'' ps"

lemma split_on_not_Nil [simp]: "split_on sep s \<noteq> []"
  by (induction s) (auto split: list.splits)

lemma join_split_on: "join_strings [sep] (split_on sep s) = s"
proof (induction s)
  case (Cons c cs)
  obtain p ps where p: "split_on sep cs = p # ps"
    using split_on_not_Nil[of sep cs] by (cases "split_on sep cs") auto
  then show ?case
    using Cons.IH by (cases ps) simp_all
qed simp

section \<open>Parser types\<close>

record reference =
  rf_name :: string
  rf_line :: int

record import_clause =
  im_module :: string
  im_names :: "(string \<times> string) list"
  im_relative :: bool
  im_line :: int

datatype symbol_kind = Module_Symbol | Class_Symbol | Function_Symbol | Method_Symbol

record parsed_symbol =
  ps_qualname :: string
  ps_kind :: symbol_kind
  ps_start :: int
  ps_end :: int
  ps_signature :: string
  ps_docstring :: "string option"
  ps_snippet :: string
  ps_references :: "reference list"
  ps_private :: bool

record parsed_file =
  pf_rel_path :: string
  pf_module :: string
  pf_language :: string
  pf_hash :: string
  pf_docstring :: "string option"
  pf_imports :: "import_clause list"
  pf_symbols :: "parsed_symbol list"

definition detect_language :: "string \<Rightarrow> string option" where
  "detect_language suffix = (if lower suffix \<in> {''.py'', ''.pyi''} then Some ''python'' else None)"

definition package_of :: "string \<Rightarrow> string" where
  "package_of fqn = dotted (butlast (dots fqn))"

definition resolve_relative :: "string \<Rightarrow> nat \<Rightarrow> string \<Rightarrow> string" where
  "resolve_relative md level package =
     (let parts = (if package \<noteq> [] then dots package else []) in
      if level = 0 \<or> level > length parts then md
      else let base = dotted (take (length parts - (level - 1)) parts) in
           if md \<noteq> [] then (if base \<noteq> [] then base @ ''.'' @ md else md) else base)"

section \<open>The resolver\<close>

record resolved_link =
  rl_src_module :: string
  rl_src_qualname :: string
  rl_dst_slug :: string
  rl_dst_module :: string
  rl_dst_name :: string
  rl_line :: int

record resolver =
  rs_modules :: "string set"
  rs_symbols :: "string \<Rightarrow> string set"
  rs_tops :: "string \<Rightarrow> string set"

definition first_part :: "string \<Rightarrow> string" where
  "first_part q = hd (dots q)"

text \<open>Of two files with the same module name the later one counts; unknown modules have no symbols.\<close>

definition resolver_init :: "parsed_file list \<Rightarrow> resolver" where
  "resolver_init files =
     fold (\<lambda>f R. let qualnames = set (map ps_qualname (pf_symbols f)) in
             \<lparr>rs_modules = insert (pf_module f) (rs_modules R),
              rs_symbols = (rs_symbols R)(pf_module f := qualnames),
              rs_tops = (rs_tops R)(pf_module f := first_part ` qualnames)\<rparr>)
       files \<lparr>rs_modules = {}, rs_symbols = \<lambda>m. {}, rs_tops = \<lambda>m. {}\<rparr>"

definition module_to_slug :: "string \<Rightarrow> string \<Rightarrow> string" where
  "module_to_slug md qualname =
     (let path = map (\<lambda>c. if c = CHR ''.'' then CHR ''/'' else c) md in
      if qualname = [] then ''code/'' @ path else ''code/'' @ path @ ''/'' @ qualname)"

fun longest_prefix :: "string list \<Rightarrow> string set \<Rightarrow> nat \<Rightarrow> string" where
  "longest_prefix parts known 0 = []"
| "longest_prefix parts known (Suc i) =
     (let candidate = dotted (take (Suc i) parts) in
      if candidate \<in> known then candidate else longest_prefix parts known i)"

definition longest_symbol_prefix :: "string list \<Rightarrow> string set \<Rightarrow> string" where
  "longest_symbol_prefix parts known = longest_prefix parts known (length parts)"

type_synonym alias_table = "(string, string \<times> string list) dict"

definition alias_add :: "string \<Rightarrow> string \<Rightarrow> string list \<Rightarrow> alias_table \<Rightarrow> alias_table" where
  "alias_add local md target t =
     (if local \<noteq> [] \<and> dict_get t local = None then dict_set local (md, target) t else t)"

fun match_from :: "alias_table \<Rightarrow> string list \<Rightarrow> nat \<Rightarrow> (string \<times> string list) option" where
  "match_from t parts 0 = None"
| "match_from t parts (Suc i) =
     (case dict_get t (dotted (take (Suc i) parts)) of
        Some (md, bound) \<Rightarrow> Some (md, bound @ drop (Suc i) parts)
      | None \<Rightarrow> match_from t parts i)"

definition best_match :: "alias_table \<Rightarrow> string list \<Rightarrow> (string \<times> string list) option" where
  "best_match t parts = match_from t parts (length parts)"

definition add_import :: "string set \<Rightarrow> import_clause \<Rightarrow> alias_table \<Rightarrow> alias_table" where
  "add_import known imp t =
     (case im_names imp of
        [] \<Rightarrow> t
      | [([], alias_name)] \<Rightarrow> alias_add alias_name (im_module imp) [] t
      | names \<Rightarrow>
          fold (\<lambda>(orig, alias_name) t.
             if alias_name = [] then t
             else let submodule = (if im_module imp \<noteq> [] then im_module imp @ ''.'' @ orig else orig) in
               if submodule \<in> known then alias_add alias_name submodule [] t
               else alias_add alias_name (im_module imp) [orig] t) names t)"

definition build_alias_table :: "string set \<Rightarrow> import_clause list \<Rightarrow> alias_table" where
  "build_alias_table known imports = fold (add_import known) imports []"

definition make_link :: "parsed_file \<Rightarrow> parsed_symbol \<Rightarrow> int \<Rightarrow> string \<Rightarrow> string \<Rightarrow> resolved_link option" where
  "make_link file sb line dst_module dst_name =
     (let dst = module_to_slug dst_module dst_name in
      if dst = module_to_slug (pf_module file) (ps_qualname sb) then None
      else Some \<lparr>rl_src_module = pf_module file, rl_src_qualname = ps_qualname sb, rl_dst_slug = dst,
                 rl_dst_module = dst_module, rl_dst_name = dst_name, rl_line = line\<rparr>)"

definition maybe_link ::
  "resolver \<Rightarrow> parsed_file \<Rightarrow> parsed_symbol \<Rightarrow> int \<Rightarrow> string \<Rightarrow> string \<Rightarrow> resolved_link option" where
  "maybe_link R file sb line dst_module dst_name =
     (if dst_module \<notin> rs_modules R then None
      else let known = rs_symbols R dst_module;
               name = (if dst_name \<noteq> [] \<and> dst_name \<notin> known
                       then (if first_part dst_name \<in> known then first_part dst_name else [])
                       else dst_name)
           in make_link file sb line dst_module name)"

text \<open>The prefixes of a qualified name as a module, longest first; the first that fits is linked.\<close>

fun qualified_target :: "resolver \<Rightarrow> string list \<Rightarrow> nat \<Rightarrow> (string \<times> string) option" where
  "qualified_target R parts 0 = None"
| "qualified_target R parts (Suc i) =
     (let md = dotted (take (Suc i) parts); remainder = drop (Suc i) parts;
          dst = longest_symbol_prefix remainder (rs_symbols R md)
      in if md \<in> rs_modules R \<and> (dst \<noteq> [] \<or> remainder = []) then Some (md, dst)
         else qualified_target R parts i)"

definition sibling_of :: "resolver \<Rightarrow> parsed_file \<Rightarrow> parsed_symbol \<Rightarrow> string list \<Rightarrow> string option" where
  "sibling_of R file sb parts =
     (let sibling = first_part (ps_qualname sb) @ ''.'' @ hd parts in
      if ps_kind sb = Method_Symbol \<and> length parts = 1 \<and> CHR ''.'' \<in> set (ps_qualname sb) \<and>
         sibling \<in> rs_symbols R (pf_module file)
      then Some sibling else None)"

definition resolve_one ::
  "resolver \<Rightarrow> parsed_file \<Rightarrow> alias_table \<Rightarrow> string set \<Rightarrow> parsed_symbol \<Rightarrow> reference \<Rightarrow> resolved_link option" where
  "resolve_one R file aliases tops sb ref =
     (let parts = dots (rf_name ref); line = rf_line ref;
          own = longest_symbol_prefix parts (rs_symbols R (pf_module file)) in
      case sibling_of R file sb parts of
        Some sibling \<Rightarrow> make_link file sb line (pf_module file) sibling
      | None \<Rightarrow>
          (case best_match aliases parts of
             Some (md, target) \<Rightarrow> maybe_link R file sb line md (dotted target)
           | None \<Rightarrow>
               if hd parts \<in> tops \<and> own \<noteq> [] then make_link file sb line (pf_module file) own
               else case qualified_target R parts (length parts) of
                      Some (md, dst) \<Rightarrow> make_link file sb line md dst
                    | None \<Rightarrow> None))"

text \<open>One link per target.\<close>

fun collect_links :: "(reference \<Rightarrow> resolved_link option) \<Rightarrow> string set \<Rightarrow> reference list \<Rightarrow> resolved_link list" where
  "collect_links resolve seen [] = []"
| "collect_links resolve seen (ref # refs) =
     (case resolve ref of
        None \<Rightarrow> collect_links resolve seen refs
      | Some link \<Rightarrow>
          if rl_dst_slug link \<in> seen then collect_links resolve seen refs
          else link # collect_links resolve (insert (rl_dst_slug link) seen) refs)"

definition resolve_file :: "resolver \<Rightarrow> parsed_file \<Rightarrow> (string, resolved_link list) dict" where
  "resolve_file R file =
     (let aliases = build_alias_table (rs_modules R) (pf_imports file); tops = rs_tops R (pf_module file) in
      fold (\<lambda>sb out. let links = collect_links (resolve_one R file aliases tops sb) {} (ps_references sb) in
              if links \<noteq> [] then dict_set (ps_qualname sb) links out else out) (pf_symbols file) [])"

definition resolve_symbol :: "resolver \<Rightarrow> parsed_file \<Rightarrow> parsed_symbol \<Rightarrow> resolved_link list" where
  "resolve_symbol R file sb =
     (case dict_get (resolve_file R file) (ps_qualname sb) of Some links \<Rightarrow> links | None \<Rightarrow> [])"

section \<open>Correctness\<close>

text \<open>A link is real when it names an ingested module, or one of its symbols, by slug.\<close>

definition real_link :: "resolver \<Rightarrow> parsed_file \<Rightarrow> resolved_link \<Rightarrow> bool" where
  "real_link R file l \<longleftrightarrow>
     rl_src_module l = pf_module file \<and> rl_dst_module l \<in> rs_modules R \<and>
     (rl_dst_name l = [] \<or> rl_dst_name l \<in> rs_symbols R (rl_dst_module l)) \<and>
     rl_dst_slug l = module_to_slug (rl_dst_module l) (rl_dst_name l) \<and>
     rl_dst_slug l \<noteq> module_to_slug (pf_module file) (rl_src_qualname l)"

text \<open>Only ingested modules have symbols; what \<open>resolver_init\<close> yields.\<close>

definition resolver_ok :: "resolver \<Rightarrow> bool" where
  "resolver_ok R \<longleftrightarrow> (\<forall>m. rs_symbols R m \<noteq> {} \<longrightarrow> m \<in> rs_modules R) \<and> (\<forall>m. rs_tops R m = first_part ` rs_symbols R m)"

lemma resolver_init_ok: "resolver_ok (resolver_init files)"
proof -
  have "resolver_ok R \<Longrightarrow> resolver_ok (fold (\<lambda>f R. let qualnames = set (map ps_qualname (pf_symbols f)) in
             \<lparr>rs_modules = insert (pf_module f) (rs_modules R),
              rs_symbols = (rs_symbols R)(pf_module f := qualnames),
              rs_tops = (rs_tops R)(pf_module f := first_part ` qualnames)\<rparr>) files R)" for R
    by (induction files arbitrary: R) (simp_all add: resolver_ok_def Let_def)
  then show ?thesis
    by (simp add: resolver_init_def resolver_ok_def)
qed

lemma resolver_init_facts:
  "m \<in> rs_modules (resolver_init files) \<Longrightarrow> \<exists>f\<in>set files. pf_module f = m"
  "q \<in> rs_symbols (resolver_init files) m \<Longrightarrow> \<exists>f\<in>set files. pf_module f = m \<and> q \<in> ps_qualname ` set (pf_symbols f)"
proof -
  let ?step = "\<lambda>f R. let qualnames = set (map ps_qualname (pf_symbols f)) in
             \<lparr>rs_modules = insert (pf_module f) (rs_modules R),
              rs_symbols = (rs_symbols R)(pf_module f := qualnames),
              rs_tops = (rs_tops R)(pf_module f := first_part ` qualnames)\<rparr>"
  have m: "m \<in> rs_modules (fold ?step fs R) \<Longrightarrow> m \<in> rs_modules R \<or> (\<exists>f\<in>set fs. pf_module f = m)" for fs R
    by (induction fs arbitrary: R) (fastforce simp: Let_def)+
  have q: "q \<in> rs_symbols (fold ?step fs R) m \<Longrightarrow>
      q \<in> rs_symbols R m \<or> (\<exists>f\<in>set fs. pf_module f = m \<and> q \<in> ps_qualname ` set (pf_symbols f))" for fs R
    by (induction fs arbitrary: R) (fastforce simp: Let_def split: if_splits)+
  show "m \<in> rs_modules (resolver_init files) \<Longrightarrow> \<exists>f\<in>set files. pf_module f = m"
    "q \<in> rs_symbols (resolver_init files) m \<Longrightarrow> \<exists>f\<in>set files. pf_module f = m \<and> q \<in> ps_qualname ` set (pf_symbols f)"
    using m[of files] q[of files] by (fastforce simp: resolver_init_def)+
qed

lemma longest_prefix_known: "longest_prefix parts known i \<noteq> [] \<Longrightarrow> longest_prefix parts known i \<in> known"
  by (induction i) (auto simp: Let_def split: if_splits)

lemma make_link_real:
  "make_link file sb line m d = Some l \<Longrightarrow> m \<in> rs_modules R \<Longrightarrow> d = [] \<or> d \<in> rs_symbols R m \<Longrightarrow>
   real_link R file l \<and> rl_src_qualname l = ps_qualname sb"
  by (auto simp: make_link_def real_link_def Let_def split: if_splits)

lemma qualified_target_known:
  "qualified_target R parts i = Some (m, d) \<Longrightarrow> m \<in> rs_modules R \<and> (d = [] \<or> d \<in> rs_symbols R m)"
proof (induction i)
  case (Suc i)
  let ?m = "dotted (take (Suc i) parts)" and ?d = "longest_symbol_prefix (drop (Suc i) parts) (rs_symbols R (dotted (take (Suc i) parts)))"
  have known: "?d = [] \<or> ?d \<in> rs_symbols R ?m"
    unfolding longest_symbol_prefix_def using longest_prefix_known by blast
  show ?case
  proof (cases "?m \<in> rs_modules R \<and> (?d \<noteq> [] \<or> drop (Suc i) parts = [])")
    case True
    have "qualified_target R parts (Suc i) = Some (?m, ?d)"
      unfolding qualified_target.simps Let_def by (rule if_P[OF True])
    then have "m = ?m" "d = ?d"
      using Suc.prems by (simp_all only: option.inject prod.inject)
    then show ?thesis
      using True known by blast
  next
    case False
    have "qualified_target R parts (Suc i) = qualified_target R parts i"
      unfolding qualified_target.simps Let_def by (rule if_not_P[OF False])
    then have "qualified_target R parts i = Some (m, d)"
      using Suc.prems by (simp only:)
    then show ?thesis
      by (rule Suc.IH)
  qed
qed simp

lemma resolve_one_real:
  assumes R: "resolver_ok R" and l: "resolve_one R file aliases tops sb ref = Some l"
  shows "real_link R file l \<and> rl_src_qualname l = ps_qualname sb"
proof -
  let ?parts = "dots (rf_name ref)"
  have ingested: "m \<in> rs_modules R" if "d \<in> rs_symbols R m" for m d
    using R that unfolding resolver_ok_def by blast
  consider (sib) s where "sibling_of R file sb ?parts = Some s"
    | (imported) m t where "sibling_of R file sb ?parts = None" "best_match aliases ?parts = Some (m, t)"
    | (rest) "sibling_of R file sb ?parts = None" "best_match aliases ?parts = None"
    by (cases "sibling_of R file sb ?parts"; cases "best_match aliases ?parts") auto
  then show ?thesis
  proof cases
    case sib
    then have "s \<in> rs_symbols R (pf_module file)"
      by (simp add: sibling_of_def Let_def split: if_splits)
    moreover have "make_link file sb (rf_line ref) (pf_module file) s = Some l"
      using l sib by (simp add: resolve_one_def)
    ultimately show ?thesis
      using ingested make_link_real by blast
  next
    case imported
    then have "maybe_link R file sb (rf_line ref) m (dotted t) = Some l"
      using l by (simp add: resolve_one_def)
    then obtain d where d: "make_link file sb (rf_line ref) m d = Some l" "m \<in> rs_modules R" "d = [] \<or> d \<in> rs_symbols R m"
      by (auto simp: maybe_link_def Let_def split: if_splits)
    then show ?thesis
      by (rule make_link_real)
  next
    case rest
    let ?own = "longest_symbol_prefix ?parts (rs_symbols R (pf_module file))"
    consider "hd ?parts \<in> tops" "?own \<noteq> []" "make_link file sb (rf_line ref) (pf_module file) ?own = Some l"
      | m d where "qualified_target R ?parts (length ?parts) = Some (m, d)" "make_link file sb (rf_line ref) m d = Some l"
      using l rest unfolding resolve_one_def Let_def by (auto split: if_splits option.splits)
    then show ?thesis
    proof cases
      case 1
      then have "?own \<in> rs_symbols R (pf_module file)"
        unfolding longest_symbol_prefix_def by (intro longest_prefix_known)
      then show ?thesis
        using 1(3) ingested make_link_real by blast
    next
      case 2
      then show ?thesis
        using qualified_target_known make_link_real by blast
    qed
  qed
qed

lemma collect_links_from: "l \<in> set (collect_links resolve seen refs) \<Longrightarrow> \<exists>ref\<in>set refs. resolve ref = Some l"
  by (induction resolve seen refs rule: collect_links.induct) (auto split: option.splits if_splits)

lemma collect_links_new: "l \<in> set (collect_links resolve seen refs) \<Longrightarrow> rl_dst_slug l \<notin> seen"
  by (induction resolve seen refs rule: collect_links.induct) (auto split: option.splits if_splits)

lemma collect_links_distinct: "distinct (map rl_dst_slug (collect_links resolve seen refs))"
proof (induction resolve seen refs rule: collect_links.induct)
  case (2 resolve seen ref refs)
  have "rl_dst_slug a \<notin> rl_dst_slug ` set (collect_links resolve (insert (rl_dst_slug a) seen) refs)" for a
    using collect_links_new by (metis imageE insertI1)
  then show ?case
    using 2 by (auto split: option.splits)
qed simp

lemma collect_links_covers:
  "ref \<in> set refs \<Longrightarrow> resolve ref = Some l \<Longrightarrow> rl_dst_slug l \<in> seen \<union> rl_dst_slug ` set (collect_links resolve seen refs)"
proof (induction resolve seen refs rule: collect_links.induct)
  case (2 resolve seen r refs)
  then show ?case
    by (cases "resolve r") (auto split: if_splits)
qed simp

definition file_links :: "resolver \<Rightarrow> parsed_file \<Rightarrow> parsed_symbol \<Rightarrow> resolved_link list" where
  "file_links R file sb =
     collect_links (resolve_one R file (build_alias_table (rs_modules R) (pf_imports file)) (rs_tops R (pf_module file)) sb) {}
       (ps_references sb)"

lemma resolve_file_eq:
  "resolve_file R file =
     fold (\<lambda>sb out. if file_links R file sb \<noteq> [] then dict_set (ps_qualname sb) (file_links R file sb) out else out)
       (pf_symbols file) []"
  unfolding resolve_file_def file_links_def Let_def by (rule refl)

lemma resolve_file_from:
  assumes "dict_get (resolve_file R file) q = Some links"
  shows "\<exists>sb\<in>set (pf_symbols file). ps_qualname sb = q \<and> links = file_links R file sb"
proof -
  have "dict_get (fold (\<lambda>sb out. if file_links R file sb \<noteq> [] then dict_set (ps_qualname sb) (file_links R file sb) out else out)
      sbs out) q = Some links \<Longrightarrow>
      dict_get out q = Some links \<or> (\<exists>sb\<in>set sbs. ps_qualname sb = q \<and> links = file_links R file sb)" for sbs out
    by (induction sbs arbitrary: out) (fastforce split: if_splits)+
  from this[of "pf_symbols file" "[]"] show ?thesis
    using assms unfolding resolve_file_eq by simp
qed

lemma resolve_file_other:
  "q \<notin> ps_qualname ` set sbs \<Longrightarrow>
   dict_get (fold (\<lambda>sb out. if file_links R file sb \<noteq> [] then dict_set (ps_qualname sb) (file_links R file sb) out else out) sbs out) q =
   dict_get out q"
  by (induction sbs arbitrary: out) auto

lemma resolve_symbol_links:
  assumes "distinct (map ps_qualname (pf_symbols file))" "sb \<in> set (pf_symbols file)"
  shows "resolve_symbol R file sb = file_links R file sb"
proof -
  let ?step = "\<lambda>sb out. if file_links R file sb \<noteq> [] then dict_set (ps_qualname sb) (file_links R file sb) out else out"
  obtain xs ys where split: "pf_symbols file = xs @ sb # ys"
    using split_list[OF assms(2)] by blast
  have q: "ps_qualname sb \<notin> ps_qualname ` set xs" "ps_qualname sb \<notin> ps_qualname ` set ys"
    using assms(1) unfolding split by auto
  have "dict_get (resolve_file R file) (ps_qualname sb) = dict_get (?step sb (fold ?step xs [])) (ps_qualname sb)"
    unfolding resolve_file_eq split using resolve_file_other[OF q(2)] by simp
  also have "\<dots> = (if file_links R file sb \<noteq> [] then Some (file_links R file sb) else None)"
    using resolve_file_other[OF q(1), of R _ "[]"] by simp
  finally show ?thesis
    by (simp add: resolve_symbol_def)
qed

lemma resolve_symbol_from:
  "resolve_symbol R f sb = [] \<or> (\<exists>s. ps_qualname s = ps_qualname sb \<and> resolve_symbol R f sb = file_links R f s)"
  using resolve_file_from[of R f "ps_qualname sb"]
  by (cases "dict_get (resolve_file R f) (ps_qualname sb)") (auto simp: resolve_symbol_def)

lemma resolve_symbol_real:
  assumes R: "resolver_ok R" and l: "l \<in> set (resolve_symbol R f sb)"
  shows "real_link R f l \<and> rl_src_qualname l = ps_qualname sb"
proof -
  obtain s where s: "ps_qualname s = ps_qualname sb" "l \<in> set (file_links R f s)"
    using resolve_symbol_from[of R f sb] l by auto
  obtain ref where "resolve_one R f (build_alias_table (rs_modules R) (pf_imports f)) (rs_tops R (pf_module f)) s ref = Some l"
    using collect_links_from[OF s(2)[unfolded file_links_def]] by blast
  then show ?thesis
    using resolve_one_real[OF R] s(1) by simp
qed

text \<open>
  Resolution invents no edge: every link of a symbol points, by slug, at an ingested module
  or at a symbol of one, not at the symbol itself; a target occurs once, and, where qualified
  names are unique in the file, the targets are exactly those its references resolve to.
\<close>

theorem resolved_links_are_real:
  fixes files f sb
  defines "R \<equiv> resolver_init files"
  defines "resolve \<equiv> resolve_one R f (build_alias_table (rs_modules R) (pf_imports f)) (rs_tops R (pf_module f)) sb"
  shows "(\<forall>l\<in>set (resolve_symbol R f sb). real_link R f l \<and> rl_src_qualname l = ps_qualname sb) \<and>
    distinct (map rl_dst_slug (resolve_symbol R f sb)) \<and>
    (distinct (map ps_qualname (pf_symbols f)) \<and> sb \<in> set (pf_symbols f) \<longrightarrow>
       rl_dst_slug ` set (resolve_symbol R f sb) = {rl_dst_slug l | l. \<exists>ref\<in>set (ps_references sb). resolve ref = Some l})"
proof -
  have R: "resolver_ok R"
    unfolding R_def by (rule resolver_init_ok)
  have "rl_dst_slug ` set (resolve_symbol R f sb) = {rl_dst_slug l | l. \<exists>ref\<in>set (ps_references sb). resolve ref = Some l}"
    if u: "distinct (map ps_qualname (pf_symbols f))" "sb \<in> set (pf_symbols f)"
  proof (intro equalityI subsetI)
    fix x assume "x \<in> rl_dst_slug ` set (resolve_symbol R f sb)"
    then obtain l where "l \<in> set (file_links R f sb)" "x = rl_dst_slug l"
      unfolding resolve_symbol_links[OF u] by blast
    then show "x \<in> {rl_dst_slug l | l. \<exists>ref\<in>set (ps_references sb). resolve ref = Some l}"
      using collect_links_from unfolding file_links_def resolve_def by blast
  next
    fix x assume "x \<in> {rl_dst_slug l | l. \<exists>ref\<in>set (ps_references sb). resolve ref = Some l}"
    then obtain l ref where "x = rl_dst_slug l" "ref \<in> set (ps_references sb)" "resolve ref = Some l"
      by blast
    then show "x \<in> rl_dst_slug ` set (resolve_symbol R f sb)"
      using collect_links_covers[of ref "ps_references sb" resolve l "{}"]
      unfolding resolve_symbol_links[OF u] file_links_def resolve_def by simp
  qed
  moreover have "distinct (map rl_dst_slug (resolve_symbol R f sb))"
    using resolve_symbol_from[of R f sb] by (auto simp: file_links_def collect_links_distinct)
  moreover have "\<forall>l\<in>set (resolve_symbol R f sb). real_link R f l \<and> rl_src_qualname l = ps_qualname sb"
    using resolve_symbol_real[OF R] by blast
  ultimately show ?thesis
    by blast
qed

text \<open>A bare name in a method of a class with a method of that name is linked to the method, imported or not.\<close>

lemma bare_name_goes_to_sibling:
  assumes "ps_kind sb = Method_Symbol" "ps_qualname sb = cls @ ''.'' @ m" "CHR ''.'' \<notin> set cls" "CHR ''.'' \<notin> set name"
    "cls @ ''.'' @ name \<in> rs_symbols R (pf_module file)" "name \<noteq> m"
  shows "resolve_one R file aliases tops sb \<lparr>rf_name = name, rf_line = n\<rparr> =
    make_link file sb n (pf_module file) (cls @ ''.'' @ name)"
proof -
  have one: "dots s = [s]" if "CHR ''.'' \<notin> set s" for s
    using that by (induction s) auto
  have "dots (s @ CHR ''.'' # t) = s # dots t" if "CHR ''.'' \<notin> set s" for s t
    using that by (induction s) auto
  then have "first_part (ps_qualname sb) = cls"
    using assms(2,3) by (simp add: first_part_def)
  then show ?thesis
    using assms one[OF assms(4)] by (simp add: resolve_one_def sibling_of_def)
qed

text \<open>In the file of a package a single leading dot means the package, but is resolved one level up.\<close>

lemma package_file_loses_a_level:
  "resolve_relative ''core'' 1 (package_of ''pkg.sub'') = ''pkg.core''" "resolve_relative ''core'' 1 (package_of ''pkg'') = ''core''"
  by (simp_all add: resolve_relative_def package_of_def)

text \<open>A function of a package and a module beside it can have the same slug.\<close>

lemma slugs_collide: "module_to_slug ''pkg'' ''mod'' = module_to_slug ''pkg.mod'' []"
  by (simp add: module_to_slug_def)

section \<open>Witness\<close>

definition sym_ex :: "string \<Rightarrow> reference list \<Rightarrow> parsed_symbol" where
  "sym_ex q refs =
     \<lparr>ps_qualname = q, ps_kind = Function_Symbol, ps_start = 1, ps_end = 2, ps_signature = [], ps_docstring = None,
      ps_snippet = [], ps_references = refs, ps_private = False\<rparr>"

definition file_ex :: "string \<Rightarrow> import_clause list \<Rightarrow> parsed_symbol list \<Rightarrow> parsed_file" where
  "file_ex m imports sbs =
     \<lparr>pf_rel_path = m @ ''.py'', pf_module = m, pf_language = ''python'', pf_hash = ''h'' @ m, pf_docstring = None,
      pf_imports = imports, pf_symbols = sbs\<rparr>"

definition run_ex :: parsed_symbol where
  "run_ex = sym_ex ''run'' [\<lparr>rf_name = ''u.helper'', rf_line = 3\<rparr>, \<lparr>rf_name = ''u.helper'', rf_line = 4\<rparr>, \<lparr>rf_name = ''os.path'', rf_line = 5\<rparr>]"

definition main_ex :: parsed_file where
  "main_ex = file_ex ''main'' [\<lparr>im_module = ''utils'', im_names = [([], ''u'')], im_relative = False, im_line = 1\<rparr>] [run_ex]"

definition utils_ex :: parsed_file where
  "utils_ex = file_ex ''utils'' [] [sym_ex ''helper'' []]"

theorem resolved_links_are_real_witness:
  "\<exists>l. resolve_symbol (resolver_init [main_ex, utils_ex]) main_ex run_ex = [l] \<and>
     rl_dst_slug l = ''code/utils/helper'' \<and> real_link (resolver_init [main_ex, utils_ex]) main_ex l"
proof -
  have "map rl_dst_slug (resolve_symbol (resolver_init [main_ex, utils_ex]) main_ex run_ex) = [''code/utils/helper'']"
    by code_simp
  then obtain l where l: "resolve_symbol (resolver_init [main_ex, utils_ex]) main_ex run_ex = [l]" "rl_dst_slug l = ''code/utils/helper''"
    by (auto simp: map_eq_Cons_conv)
  then show ?thesis
    using resolved_links_are_real[of "[main_ex, utils_ex]" main_ex run_ex] by simp
qed

end
