(* ===== verification/Ingest_Filters.thy ===== *)
theory Ingest_Filters imports Frontmatter begin

text \<open>
  Which files of a source tree are ingested (\<open>memu/ingest/filters.py\<close>): glob patterns, the
  \<open>.gitignore\<close> subset, and the walk. A path is the list of its parts below the root. The file
  system is a tree: a file with its text (\<open>None\<close> when it cannot be decoded), a directory with its
  entries (\<open>None\<close> when it cannot be listed), symbolic links, which the ingester does not follow
  and which hold no ignore rules here, and other entries.

  \<open>fnmatch\<close> and the regular expressions built from a pattern are token lists with one matcher;
  the elements of a character class are ASCII, and a class whose first range is empty and
  followed by an exclamation mark is read as Python means it, not as it reads it.

  Proved: the walk yields exactly the accepted files none of whose directories is pruned; the
  last matching rule, shallow files first, decides whether a path is ignored; what a pattern
  without special characters matches. A star crosses directories, unlike in git, and the ignore
  file of a directory can prune the directory itself.
\<close>

section \<open>Glob patterns\<close>

datatype glob =
    G_Star
  | G_Any
  | G_Class bool "(char \<times> char) list"
  | G_Seg_Star
  | G_Seg_Any
  | G_Line_Star
  | G_Dirs
  | G_Sub
  | G_Lit char
  | G_End

text \<open>One character is one byte and the bytes that continue it.\<close>

definition rest_char :: "string \<Rightarrow> string" where
  "rest_char s = dropWhile (\<lambda>c. of_char c \<in> {128..191 :: nat}) (tl s)"

definition in_class :: "(char \<times> char) list \<Rightarrow> char \<Rightarrow> bool" where
  "in_class items c \<longleftrightarrow> (\<exists>(a, b)\<in>set items. a \<le> c \<and> c \<le> b)"

definition glob_weight :: "glob list \<Rightarrow> nat" where
  "glob_weight ts = sum_list (map (\<lambda>t. if t = G_Dirs \<or> t = G_Sub then 3 else 1) ts)"

lemma rest_char_shorter: "s \<noteq> [] \<Longrightarrow> length (rest_char s) < length s"
  unfolding rest_char_def by (rule le_less_trans[OF length_dropWhile_le]) simp

declare conj_cong [fundef_cong]

function glob_match :: "glob list \<Rightarrow> string \<Rightarrow> bool" where
  "glob_match [] s = (s = [])"
| "glob_match (G_Star # ts) s = (glob_match ts s \<or> (s \<noteq> [] \<and> glob_match (G_Star # ts) (tl s)))"
| "glob_match (G_Line_Star # ts) s =
     (glob_match ts s \<or> (s \<noteq> [] \<and> hd s \<noteq> CHR 0x0A \<and> glob_match (G_Line_Star # ts) (tl s)))"
| "glob_match (G_Seg_Star # ts) s =
     (glob_match ts s \<or> (s \<noteq> [] \<and> hd s \<noteq> CHR ''/'' \<and> glob_match (G_Seg_Star # ts) (tl s)))"
| "glob_match (G_Any # ts) s = (s \<noteq> [] \<and> glob_match ts (rest_char s))"
| "glob_match (G_Seg_Any # ts) s = (s \<noteq> [] \<and> hd s \<noteq> CHR ''/'' \<and> glob_match ts (rest_char s))"
| "glob_match (G_Class neg items # ts) s = (s \<noteq> [] \<and> in_class items (hd s) \<noteq> neg \<and> glob_match ts (rest_char s))"
| "glob_match (G_Lit c # ts) s = (s \<noteq> [] \<and> hd s = c \<and> glob_match ts (tl s))"
| "glob_match (G_Dirs # ts) s = (glob_match ts s \<or> glob_match (G_Line_Star # G_Lit CHR ''/'' # ts) s)"
| "glob_match (G_Sub # ts) s = (glob_match ts s \<or> glob_match (G_Lit CHR ''/'' # G_Line_Star # ts) s)"
| "glob_match (G_End # ts) s = (s \<in> {[], newline} \<and> glob_match ts [])"
  by pat_completeness auto
termination
  by (relation "measures [\<lambda>(ts, s). length s, \<lambda>(ts, s). glob_weight ts]")
    (auto simp: rest_char_shorter glob_weight_def)

declare conj_cong [fundef_cong del]

text \<open>\<open>fnmatch.translate\<close>. The text of a class is read from the left, a dash between two characters being a range.\<close>

fun class_items :: "string \<Rightarrow> (char \<times> char) list" where
  "class_items (a # d # b # s) =
     (if d = CHR ''-'' then (a, b) # class_items s else (a, a) # class_items (d # b # s))"
| "class_items (a # s) = (a, a) # class_items s"
| "class_items [] = []"

definition class_end :: "string \<Rightarrow> nat" where
  "class_end s =
     (let k = (if is_prefix ''!'' s then 1 else 0);
          k' = (if is_prefix '']'' (drop k s) then k + 1 else k)
      in k' + length (takeWhile (\<lambda>c. c \<noteq> CHR '']'') (drop k' s)))"

definition class_of :: "string \<Rightarrow> glob" where
  "class_of stuff = (if is_prefix ''!'' stuff then G_Class True (class_items (tl stuff)) else G_Class False (class_items stuff))"

function fnmatch_tokens :: "string \<Rightarrow> glob list" where
  "fnmatch_tokens [] = []"
| "fnmatch_tokens (c # s) =
     (if c = CHR ''*'' then G_Star # fnmatch_tokens s
      else if c = CHR ''?'' then G_Any # fnmatch_tokens s
      else if c = CHR ''['' \<and> class_end s < length s
      then class_of (take (class_end s) s) # fnmatch_tokens (drop (class_end s + 1) s)
      else G_Lit c # fnmatch_tokens s)"
  by pat_completeness auto
termination by (relation "measure length") auto

definition fnmatch :: "string \<Rightarrow> string \<Rightarrow> bool" where
  "fnmatch name pattern \<longleftrightarrow> glob_match (fnmatch_tokens pattern) name"

function glob_tokens :: "string \<Rightarrow> glob list" where
  "glob_tokens s =
     (if s = [] then [G_End]
      else if is_prefix ''**/'' s then G_Dirs # glob_tokens (drop 3 s)
      else if is_prefix ''/**'' s then G_Sub # glob_tokens (drop 3 s)
      else if hd s = CHR ''*'' then G_Seg_Star # glob_tokens (tl s)
      else if hd s = CHR ''?'' then G_Seg_Any # glob_tokens (tl s)
      else G_Lit (hd s) # glob_tokens (tl s))"
  by auto
termination by (relation "measure length") auto

declare glob_tokens.simps [simp del]

fun has_double_star :: "string \<Rightarrow> bool" where
  "has_double_star (a # b # s) = (a = CHR ''*'' \<and> b = CHR ''*'' \<or> has_double_star (b # s))"
| "has_double_star _ = False"

definition single_match :: "string \<Rightarrow> string \<Rightarrow> bool" where
  "single_match rel pattern \<longleftrightarrow>
     fnmatch rel pattern \<or> (has_double_star pattern \<and> glob_match (glob_tokens pattern) rel)"

type_synonym rel_path = "string list"

text \<open>The path of the root itself is a dot.\<close>

definition rel_posix :: "rel_path \<Rightarrow> string" where
  "rel_posix p = (if p = [] then ''.'' else join_strings ''/'' p)"

definition matches_any :: "rel_path \<Rightarrow> string list \<Rightarrow> bool" where
  "matches_any p patterns \<longleftrightarrow> (\<exists>pat\<in>set patterns. single_match (rel_posix p) pat)"

section \<open>Ignore rules\<close>

record ignore_rule =
  ir_pattern :: string
  ir_negated :: bool
  ir_dir_only :: bool
  ir_anchored :: bool

definition rule_matches :: "ignore_rule \<Rightarrow> rel_path \<Rightarrow> bool \<Rightarrow> bool" where
  "rule_matches r p is_dir \<longleftrightarrow>
     (if ir_dir_only r \<and> \<not> is_dir then False
      else if ir_anchored r then single_match (rel_posix p) (ir_pattern r)
      else \<exists>i<length p. single_match (join_strings ''/'' (drop i p)) (ir_pattern r))"

definition parse_rule :: "string \<Rightarrow> ignore_rule option" where
  "parse_rule raw =
     (if raw = [] \<or> is_prefix ''#'' raw then None
      else let negated = is_prefix ''!'' raw; l1 = (if negated then tl raw else raw);
               dir_only = (l1 \<noteq> [] \<and> last l1 = CHR ''/''); l2 = (if dir_only then butlast l1 else l1);
               anchored = is_prefix ''/'' l2; l3 = (if anchored then tl l2 else l2)
           in if l3 = [] then None
              else Some \<lparr>ir_pattern = l3, ir_negated = negated, ir_dir_only = dir_only, ir_anchored = anchored\<rparr>)"

definition parse_gitignore :: "string \<Rightarrow> ignore_rule list" where
  "parse_gitignore s = List.map_filter parse_rule (split_lines False [] s)"

section \<open>The walker\<close>

datatype fs_entry = FS_File "string option" | FS_Dir "(string \<times> fs_entry) list option" | FS_Link | FS_Special

record walker =
  wk_includes :: "string list"
  wk_excludes :: "string list"
  wk_ignores :: "(rel_path \<times> ignore_rule list) list"

definition excluded_dirs :: "string set" where
  "excluded_dirs = {''.git'', ''.hg'', ''.svn'', ''.idea'', ''.vscode'', ''.mypy_cache'', ''.pytest_cache'', ''.ruff_cache'',
     ''.tox'', ''.venv'', ''venv'', ''env'', ''__pycache__'', ''node_modules'', ''dist'', ''build'', ''target'', ''_index'', ''.memu''}"

definition below_scope :: "rel_path \<Rightarrow> rel_path \<Rightarrow> rel_path option" where
  "below_scope scope p = (if take (length scope) p = scope then Some (drop (length scope) p) else None)"

definition scope_ignores :: "rel_path \<Rightarrow> bool \<Rightarrow> rel_path \<times> ignore_rule list \<Rightarrow> bool \<Rightarrow> bool" where
  "scope_ignores p is_dir sr matched =
     (case below_scope (fst sr) p of
        None \<Rightarrow> matched
      | Some rel \<Rightarrow> fold (\<lambda>r m. if rule_matches r rel is_dir then \<not> ir_negated r else m) (snd sr) matched)"

definition gitignore_matches :: "walker \<Rightarrow> rel_path \<Rightarrow> bool \<Rightarrow> bool" where
  "gitignore_matches w p is_dir = fold (scope_ignores p is_dir) (sort_key (\<lambda>sr. length (fst sr)) (wk_ignores w)) False"

definition in_excluded_dir :: "rel_path \<Rightarrow> bool" where
  "in_excluded_dir p \<longleftrightarrow> (\<exists>part\<in>set (butlast p). part \<in> excluded_dirs)"

definition accept :: "walker \<Rightarrow> rel_path \<Rightarrow> bool" where
  "accept w p \<longleftrightarrow>
     \<not> in_excluded_dir p \<and> \<not> (wk_excludes w \<noteq> [] \<and> matches_any p (wk_excludes w)) \<and>
     \<not> (wk_includes w \<noteq> [] \<and> \<not> matches_any p (wk_includes w)) \<and> \<not> gitignore_matches w p False"

definition pruned :: "walker \<Rightarrow> rel_path \<Rightarrow> bool" where
  "pruned w p \<longleftrightarrow> last p \<in> excluded_dirs \<or> gitignore_matches w p True \<or> (wk_excludes w \<noteq> [] \<and> matches_any p (wk_excludes w))"

text \<open>An entry before its contents: what the walk does with a file or a directory it meets.\<close>

fun walk :: "walker \<Rightarrow> rel_path \<Rightarrow> fs_entry \<Rightarrow> rel_path list" where
  "walk w d (FS_Dir (Some es)) =
     concat (map (\<lambda>ne. case snd ne of
                     FS_File c \<Rightarrow> if accept w (d @ [fst ne]) then [d @ [fst ne]] else []
                   | FS_Dir c \<Rightarrow> if pruned w (d @ [fst ne]) then [] else walk w (d @ [fst ne]) (snd ne)
                   | _ \<Rightarrow> [])
       (sort_key fst es))"
| "walk w d _ = []"

text \<open>\<open>None\<close>: an ignore file that cannot be decoded raises.\<close>

fun all_some :: "'a list option list \<Rightarrow> 'a list option" where
  "all_some [] = Some []"
| "all_some (None # xs) = None"
| "all_some (Some ys # xs) = map_option (\<lambda>zs. ys @ zs) (all_some xs)"

definition own_ignores :: "rel_path \<Rightarrow> (string \<times> fs_entry) list \<Rightarrow> (rel_path \<times> ignore_rule list) list option" where
  "own_ignores d es =
     (case map_of es ''.gitignore'' of
        Some (FS_File (Some s)) \<Rightarrow> Some (if parse_gitignore s \<noteq> [] then [(d, parse_gitignore s)] else [])
      | Some (FS_File None) \<Rightarrow> None
      | _ \<Rightarrow> Some [])"

fun load_gitignores :: "rel_path \<Rightarrow> fs_entry \<Rightarrow> (rel_path \<times> ignore_rule list) list option" where
  "load_gitignores d (FS_Dir (Some es)) =
     all_some (own_ignores d es #
       map (\<lambda>ne. if fst ne \<in> excluded_dirs then Some [] else load_gitignores (d @ [fst ne]) (snd ne)) es)"
| "load_gitignores d _ = Some []"

definition build_walker :: "fs_entry \<Rightarrow> string list \<Rightarrow> string list \<Rightarrow> bool \<Rightarrow> walker option" where
  "build_walker tree includes excludes respect_gitignore =
     (if \<not> respect_gitignore then Some \<lparr>wk_includes = includes, wk_excludes = excludes, wk_ignores = []\<rparr>
      else case load_gitignores [] tree of
             None \<Rightarrow> None
           | Some rules \<Rightarrow> Some \<lparr>wk_includes = includes, wk_excludes = excludes, wk_ignores = rules\<rparr>)"

definition iter_files :: "walker \<Rightarrow> fs_entry \<Rightarrow> rel_path list" where
  "iter_files w tree = walk w [] tree"

section \<open>Correctness\<close>

text \<open>A pattern without special characters matches itself only.\<close>

definition plain_pattern :: "string \<Rightarrow> bool" where
  "plain_pattern p \<longleftrightarrow> list_all (\<lambda>c. c \<noteq> CHR ''*'' \<and> c \<noteq> CHR ''?'' \<and> c \<noteq> CHR ''['') p"

lemma plain_pattern_matches: "plain_pattern p \<Longrightarrow> single_match rel p \<longleftrightarrow> rel = p"
proof -
  assume p: "plain_pattern p"
  then have "fnmatch_tokens p = map G_Lit p"
    unfolding plain_pattern_def by (induction p) simp_all
  moreover have "glob_match (map G_Lit p) s = (s = p)" for s
  proof (induction p arbitrary: s)
    case (Cons c p)
    show ?case
      by (cases s) (auto simp: Cons.IH)
  qed simp
  moreover have "\<not> has_double_star p"
    using p unfolding plain_pattern_def by (induction p rule: has_double_star.induct) simp_all
  ultimately show ?thesis
    by (simp add: single_match_def fnmatch_def)
qed

text \<open>The rules of the ignore files, shallow files first, that match a path.\<close>

definition matching_rules :: "walker \<Rightarrow> rel_path \<Rightarrow> bool \<Rightarrow> ignore_rule list" where
  "matching_rules w p is_dir =
     concat (map (\<lambda>sr. case below_scope (fst sr) p of
                   None \<Rightarrow> [] | Some rel \<Rightarrow> filter (\<lambda>r. rule_matches r rel is_dir) (snd sr))
       (sort_key (\<lambda>sr. length (fst sr)) (wk_ignores w)))"

lemma fold_rules:
  "fold (\<lambda>r m. if P r then \<not> ir_negated r else m) rs matched =
     (if filter P rs = [] then matched else \<not> ir_negated (last (filter P rs)))"
  by (induction rs arbitrary: matched) auto

lemma fold_scopes:
  "fold (scope_ignores p is_dir) srs matched =
     (let rs = concat (map (\<lambda>sr. case below_scope (fst sr) p of
                              None \<Rightarrow> [] | Some rel \<Rightarrow> filter (\<lambda>r. rule_matches r rel is_dir) (snd sr)) srs)
      in if rs = [] then matched else \<not> ir_negated (last rs))"
  by (induction srs arbitrary: matched)
    (auto simp: scope_ignores_def fold_rules Let_def split: option.splits)

text \<open>A path is ignored exactly when some rule matches it and the last one that does is not a negation.\<close>

theorem last_matching_rule_decides:
  "gitignore_matches w p is_dir \<longleftrightarrow>
     matching_rules w p is_dir \<noteq> [] \<and> \<not> ir_negated (last (matching_rules w p is_dir))"
  by (simp add: gitignore_matches_def matching_rules_def fold_scopes Let_def)

text \<open>The files of a tree, by their path.\<close>

fun file_at :: "fs_entry \<Rightarrow> rel_path \<Rightarrow> bool" where
  "file_at (FS_File c) [] = True"
| "file_at (FS_Dir (Some es)) (n # p) = (\<exists>ne\<in>set es. fst ne = n \<and> file_at (snd ne) p)"
| "file_at _ _ = False"

definition reached :: "walker \<Rightarrow> rel_path \<Rightarrow> rel_path \<Rightarrow> bool" where
  "reached w d q \<longleftrightarrow> (\<forall>i. 0 < i \<and> i < length q \<longrightarrow> \<not> pruned w (d @ take i q))"

lemma reached_Cons:
  "reached w d (n # q) \<longleftrightarrow> q = [] \<or> (\<not> pruned w (d @ [n]) \<and> reached w (d @ [n]) q)"
proof -
  have "reached w d (n # q) \<longleftrightarrow> (\<forall>i. i < length q \<longrightarrow> \<not> pruned w (d @ n # take i q))"
    unfolding reached_def by (auto simp: gr0_conv_Suc)
  also have "\<dots> \<longleftrightarrow> q = [] \<or> (\<not> pruned w (d @ [n]) \<and> reached w (d @ [n]) q)"
  proof (cases "q = []")
    case False
    have "(\<forall>i<length q. P i) \<longleftrightarrow> P 0 \<and> (\<forall>i. 0 < i \<and> i < length q \<longrightarrow> P i)" for P :: "nat \<Rightarrow> bool"
      using False by (metis gr0I length_greater_0_conv)
    from this[of "\<lambda>i. \<not> pruned w (d @ n # take i q)"] show ?thesis
      using False by (simp add: reached_def)
  qed simp
  finally show ?thesis .
qed

lemma walk_iff: "p \<in> set (walk w d t) \<longleftrightarrow> (\<exists>q. p = d @ q \<and> q \<noteq> [] \<and> file_at t q \<and> accept w p \<and> reached w d q)"
proof (induction w d t arbitrary: p rule: walk.induct)
  case (1 w d es)
  have entry: "p \<in> set (case e of FS_File c \<Rightarrow> if accept w (d @ [n]) then [d @ [n]] else []
                   | FS_Dir c \<Rightarrow> if pruned w (d @ [n]) then [] else walk w (d @ [n]) e | _ \<Rightarrow> []) \<longleftrightarrow>
      (\<exists>q. p = d @ n # q \<and> file_at e q \<and> accept w p \<and> reached w d (n # q))" if "(n, e) \<in> set es" for n e
  proof (cases e)
    case (FS_File c)
    have "file_at (FS_File c) q \<longleftrightarrow> q = []" for q
      by (cases q) auto
    then show ?thesis
      by (auto simp: FS_File reached_Cons)
  next
    case (FS_Dir c)
    have "q \<noteq> []" if "file_at (FS_Dir c) q" for q
      using that by (cases q) auto
    moreover have "p \<in> set (walk w (d @ [n]) e) \<longleftrightarrow>
        (\<exists>q. p = (d @ [n]) @ q \<and> q \<noteq> [] \<and> file_at e q \<and> accept w p \<and> reached w (d @ [n]) q)" if "\<not> pruned w (d @ [n])"
      using 1[of "(n, e)" c p] \<open>(n, e) \<in> set es\<close> that FS_Dir by simp
    ultimately show ?thesis
      by (auto simp: FS_Dir reached_Cons)
  qed auto
  have "p \<in> set (walk w d (FS_Dir (Some es))) \<longleftrightarrow>
      (\<exists>(n, e)\<in>set es. \<exists>q. p = d @ n # q \<and> file_at e q \<and> accept w p \<and> reached w d (n # q))"
    using entry by (auto simp: split_beta)
  also have "\<dots> \<longleftrightarrow> (\<exists>q. p = d @ q \<and> q \<noteq> [] \<and> file_at (FS_Dir (Some es)) q \<and> accept w p \<and> reached w d q)"
  proof
    assume "\<exists>(n, e)\<in>set es. \<exists>q. p = d @ n # q \<and> file_at e q \<and> accept w p \<and> reached w d (n # q)"
    then obtain n e q where "(n, e) \<in> set es" "p = d @ n # q" "file_at e q" "accept w p" "reached w d (n # q)"
      by blast
    then show "\<exists>q. p = d @ q \<and> q \<noteq> [] \<and> file_at (FS_Dir (Some es)) q \<and> accept w p \<and> reached w d q"
      by (intro exI[of _ "n # q"]) force
  next
    assume "\<exists>q. p = d @ q \<and> q \<noteq> [] \<and> file_at (FS_Dir (Some es)) q \<and> accept w p \<and> reached w d q"
    then obtain n q where q: "p = d @ n # q" "file_at (FS_Dir (Some es)) (n # q)" "accept w p" "reached w d (n # q)"
      by (metis neq_Nil_conv)
    then obtain ne where "ne \<in> set es" "fst ne = n" "file_at (snd ne) q"
      by auto
    then show "\<exists>(n, e)\<in>set es. \<exists>q. p = d @ n # q \<and> file_at e q \<and> accept w p \<and> reached w d (n # q)"
      using q by (cases ne) auto
  qed
  finally show ?case .
qed (auto elim: file_at.elims)

text \<open>
  The walk yields a path exactly when it is that of a file, the rules accept it, and no
  directory on the way to it is pruned.
\<close>

theorem walk_yields_accepted:
  "p \<in> set (iter_files w tree) \<longleftrightarrow>
     p \<noteq> [] \<and> file_at tree p \<and> accept w p \<and> (\<forall>i. 0 < i \<and> i < length p \<longrightarrow> \<not> pruned w (take i p))"
  using walk_iff[of p w "[]" tree] by (auto simp: iter_files_def reached_def)

definition filters_tree :: fs_entry where
  "filters_tree = FS_Dir (Some [(''pkg'', FS_Dir (Some [(''a.py'', FS_File (Some []))])), (''build'', FS_Dir (Some [(''b.py'', FS_File (Some []))]))])"

definition filters_walker :: walker where
  "filters_walker = \<lparr>wk_includes = [''**/*.py''], wk_excludes = [], wk_ignores = []\<rparr>"

theorem walk_yields_accepted_witness:
  "[''pkg'', ''a.py''] \<in> set (iter_files filters_walker filters_tree) \<and> [''build'', ''b.py''] \<notin> set (iter_files filters_walker filters_tree)"
proof -
  have "file_at filters_tree [''pkg'', ''a.py'']" "accept filters_walker [''pkg'', ''a.py'']" "\<not> pruned filters_walker [''pkg'']"
    by code_simp+
  moreover have "take i [''pkg'', ''a.py''] = [''pkg'']" if "0 < i \<and> i < length [''pkg'', ''a.py'']" for i
    using that by (cases i) auto
  ultimately have "[''pkg'', ''a.py''] \<in> set (iter_files filters_walker filters_tree)"
    by (subst walk_yields_accepted) simp
  moreover have "\<not> accept filters_walker [''build'', ''b.py'']"
    by code_simp
  then have "[''build'', ''b.py''] \<notin> set (iter_files filters_walker filters_tree)"
    by (subst walk_yields_accepted) simp
  ultimately show ?thesis ..
qed

text \<open>A star in an anchored rule crosses directories, as \<open>fnmatch\<close> is tried first.\<close>

lemma star_crosses_directories: "single_match ''docs/a/b.md'' ''docs/*.md''"
  by code_simp

text \<open>The ignore file of a directory is asked about the directory itself, before its exceptions can count.\<close>

lemma own_rules_prune_directory:
  "iter_files \<lparr>wk_includes = [], wk_excludes = [],
       wk_ignores = [([''pkg''], [\<lparr>ir_pattern = ''*'', ir_negated = False, ir_dir_only = False, ir_anchored = True\<rparr>,
                                 \<lparr>ir_pattern = ''keep.py'', ir_negated = True, ir_dir_only = False, ir_anchored = True\<rparr>])]\<rparr>
     (FS_Dir (Some [(''pkg'', FS_Dir (Some [(''keep.py'', FS_File (Some []))]))])) = []"
  by code_simp

end
