(* ===== verification/Ingest_Codebase.thy ===== *)
theory Ingest_Codebase imports Ingest_Resolve Ingest_Filters Vault_Sync begin

text \<open>
  Writing one wiki node per module and symbol of a source tree (\<open>memu/ingest/codebase.py\<close>): the
  files the walk yields are parsed, their references resolved over the whole set, and each node
  is put into a storage backend unless the node at its slug was made from the same source.

  The Python parser is an argument from text, path and module name to a parsed file, as are the
  backend (\<open>get\<close>, \<open>put\<close>), the fresh ids and the clock. Elapsed times and log lines are left out.

  Proved: on the SQLite backend an ingestion whose nodes the backend accepts succeeds, and a
  second ingestion of the same files writes nothing, whatever its ids and clock, if files that
  share a slug have the same source; each emitted slug is a code slug and each link of a node
  goes out of it. Shown against the code: an empty file is emitted twice, files with constants
  only are counted as errors, and a new link to an unchanged file is never written.
\<close>

section \<open>Result\<close>

record ingest_result =
  ig_added :: "string list"
  ig_updated :: "string list"
  ig_unchanged :: "string list"
  ig_skipped :: nat
  ig_scanned :: nat
  ig_errors :: nat
  ig_commit :: "string option"

definition empty_result :: "string option \<Rightarrow> ingest_result" where
  "empty_result commit =
     \<lparr>ig_added = [], ig_updated = [], ig_unchanged = [], ig_skipped = 0, ig_scanned = 0, ig_errors = 0, ig_commit = commit\<rparr>"

section \<open>Parsing\<close>

definition before_last_dot :: "string \<Rightarrow> string" where
  "before_last_dot name =
     (if CHR ''.'' \<in> set name then rev (tl (dropWhile (\<lambda>c. c \<noteq> CHR ''.'') (rev name))) else name)"

definition module_fqn_for :: "rel_path \<Rightarrow> string option \<Rightarrow> string" where
  "module_fqn_for rel package =
     (if rel = [] then (if nonempty package then the package else [])
      else let stem = before_last_dot (last rel);
               parts = (if stem = ''__init__'' then butlast rel else butlast rel @ [stem])
           in if nonempty package then dotted (the package # parts) else dotted parts)"

fun text_at :: "fs_entry \<Rightarrow> rel_path \<Rightarrow> string option" where
  "text_at (FS_File c) [] = c"
| "text_at (FS_Dir (Some es)) (n # p) = (case map_of es n of Some e \<Rightarrow> text_at e p | None \<Rightarrow> None)"
| "text_at _ _ = None"

definition root_package :: "string \<Rightarrow> fs_entry \<Rightarrow> string option" where
  "root_package root_name tree =
     (case tree of FS_Dir (Some es) \<Rightarrow> (if map_of es ''__init__.py'' \<noteq> None then Some root_name else None) | _ \<Rightarrow> None)"

type_synonym parser = "string \<Rightarrow> string \<Rightarrow> string \<Rightarrow> parsed_file"

definition no_content :: "parsed_file \<Rightarrow> bool" where
  "no_content f \<longleftrightarrow> pf_symbols f = [] \<and> pf_docstring f = None \<and> pf_imports f = []"

text \<open>A file without content is an error unless it is empty; an empty one is yielded before the common yield.\<close>

definition parse_one ::
  "parser \<Rightarrow> string option \<Rightarrow> fs_entry \<Rightarrow> string set option \<Rightarrow> rel_path \<Rightarrow> ingest_result \<Rightarrow> parsed_file list \<times> ingest_result" where
  "parse_one parse package tree allowed p r =
     (case detect_language (name_suffix (last p)) of
        None \<Rightarrow> ([], r)
      | Some language \<Rightarrow>
          if allowed \<noteq> None \<and> language \<notin> the allowed then ([], r)
          else let r1 = r\<lparr>ig_scanned := ig_scanned r + 1\<rparr> in
            (case text_at tree p of
               None \<Rightarrow> ([], r1\<lparr>ig_skipped := ig_skipped r1 + 1\<rparr>)
             | Some source \<Rightarrow>
                 let f = parse source (rel_posix p) (module_fqn_for p package) in
                 if no_content f then
                   (if length source \<le> 2 then ([f, f], r1) else ([], r1\<lparr>ig_errors := ig_errors r1 + 1\<rparr>))
                 else ([f], r1)))"

fun parse_all ::
  "parser \<Rightarrow> string option \<Rightarrow> fs_entry \<Rightarrow> string set option \<Rightarrow> rel_path list \<Rightarrow> ingest_result \<Rightarrow> parsed_file list \<times> ingest_result" where
  "parse_all parse package tree allowed [] r = ([], r)"
| "parse_all parse package tree allowed (p # ps) r =
     (case parse_one parse package tree allowed p r of
        (fs, r1) \<Rightarrow> (case parse_all parse package tree allowed ps r1 of (fs', r2) \<Rightarrow> (fs @ fs', r2)))"

section \<open>Rendering\<close>

definition ellipsis :: string where
  "ellipsis = [CHR 0xE2, CHR 0x80, CHR 0xA6]"

definition ellipsize :: "string \<Rightarrow> nat \<Rightarrow> string" where
  "ellipsize s width =
     (let t = strip s in if char_len t \<le> width then t else char_take (max 1 (width - 1)) t @ ellipsis)"

definition max_body_lines :: nat where
  "max_body_lines = 400"

definition truncate_snippet :: "string \<Rightarrow> string" where
  "truncate_snippet s =
     (let ls = split_lines False [] s in
      if length ls \<le> max_body_lines then s
      else join_strings newline (take (max_body_lines div 2) ls) @
           (newline @ ''# ... ('' @ show_nat (length ls - max_body_lines) @ '' lines elided) ...'' @ newline) @
           join_strings newline (drop (length ls - max_body_lines div 2) ls))"

definition rstrip :: "string \<Rightarrow> string" where
  "rstrip s = rev (dropWhile is_space (rev s))"

definition short_dst :: "resolved_link \<Rightarrow> string" where
  "short_dst l = (if rl_dst_name l \<noteq> [] then rl_dst_module l @ ''.'' @ rl_dst_name l else rl_dst_module l)"

definition section_of :: "string \<Rightarrow> string list \<Rightarrow> string list" where
  "section_of title items = (if items \<noteq> [] then [''## '' @ title] @ items @ [[]] else [])"

definition code_block :: "string \<Rightarrow> string list" where
  "code_block s = [''```python'', s, ''```'', []]"

definition docstring_lines :: "string option \<Rightarrow> string list" where
  "docstring_lines d = (if nonempty d then [strip (the d), []] else [])"

definition symbol_item :: "parsed_file \<Rightarrow> parsed_symbol \<Rightarrow> string" where
  "symbol_item f sb =
     ''- [['' @ module_to_slug (pf_module f) (ps_qualname sb) @ ''|'' @ ps_qualname sb @ '']] '' @ em_dash @ '' `'' @
     (if ps_signature sb \<noteq> [] then ellipsize (ps_signature sb) 120 else ps_qualname sb) @ ''`''"

definition render_module_body :: "parsed_file \<Rightarrow> link_record list \<Rightarrow> string" where
  "render_module_body f import_links =
     join_strings newline
       ([''# `'' @ pf_module f @ ''`'', []] @ docstring_lines (pf_docstring f) @
        section_of ''Symbols'' (map (symbol_item f) (pf_symbols f)) @
        section_of ''Imports'' (map (\<lambda>l. ''- [['' @ lk_dst_slug l @ '']]'') import_links) @
        [''_Source:_ `'' @ pf_rel_path f @ ''`'']) @ newline"

definition reference_item :: "resolved_link \<Rightarrow> string" where
  "reference_item l = ''- [['' @ rl_dst_slug l @ ''|'' @ short_dst l @ '']] (line '' @ show_int (rl_line l) @ '')''"

definition render_symbol_body :: "parsed_file \<Rightarrow> parsed_symbol \<Rightarrow> resolved_link list \<Rightarrow> string" where
  "render_symbol_body f sb resolved =
     join_strings newline
       ([''# `'' @ ps_qualname sb @ ''`'', []] @
        (if ps_signature sb \<noteq> [] then code_block (ps_signature sb) else []) @ docstring_lines (ps_docstring sb) @
        (if ps_snippet sb \<noteq> [] then code_block (rstrip (truncate_snippet (ps_snippet sb))) else []) @
        section_of ''References'' (map reference_item resolved) @
        [''_Source:_ `'' @ pf_rel_path f @ (if ps_start sb \<noteq> 0 then '':'' @ show_int (ps_start sb) else []) @ ''`'']) @ newline"

section \<open>Nodes\<close>

definition code_link :: "string \<Rightarrow> string \<Rightarrow> string \<Rightarrow> real \<Rightarrow> link_record" where
  "code_link src dst kind strength =
     \<lparr>lk_src_slug = src, lk_dst_slug = dst, lk_type = kind, lk_strength = strength, lk_src_id = None, lk_dst_id = None\<rparr>"

text \<open>The distinct slugs of the imported modules that are ingested, without the module itself.\<close>

definition import_only_links :: "resolver \<Rightarrow> parsed_file \<Rightarrow> link_record list" where
  "import_only_links R f =
     (let slug = module_to_slug (pf_module f) [];
          dsts = map (\<lambda>i. module_to_slug (im_module i) []) (filter (\<lambda>i. im_module i \<in> rs_modules R) (pf_imports f))
      in map (\<lambda>dst. code_link slug dst ''related'' 0.5) (dedup (filter (\<lambda>dst. dst \<noteq> slug) dsts)))"

definition kind_text :: "symbol_kind \<Rightarrow> string" where
  "kind_text k = (case k of Module_Symbol \<Rightarrow> ''module'' | Class_Symbol \<Rightarrow> ''class''
                     | Function_Symbol \<Rightarrow> ''function'' | Method_Symbol \<Rightarrow> ''method'')"

definition node_source :: "parsed_file \<Rightarrow> parsed_symbol option \<Rightarrow> string option \<Rightarrow> string option \<Rightarrow> payload" where
  "node_source f sb commit repo =
     [(''path'', JStr (pf_rel_path f)), (''language'', JStr (pf_language f)), (''module'', JStr (pf_module f))] @
     (case sb of
        None \<Rightarrow> []
      | Some s \<Rightarrow> [(''symbol'', JStr (ps_qualname s)), (''start_line'', JInt (ps_start s)), (''end_line'', JInt (ps_end s))] @
                 (if ps_signature s \<noteq> [] then [(''signature'', JStr (ps_signature s))] else [])) @
     (if nonempty commit then [(''commit'', JStr (the commit))] else []) @
     (if nonempty repo then [(''repo'', JStr (the repo))] else [])"

record ingest_env =
  ie_commit :: "string option"
  ie_repo :: "string option"
  ie_agent :: string
  ie_force :: bool

type_synonym node_maker = "uuid \<Rightarrow> time \<Rightarrow> wiki_node"

definition build_node ::
  "ingest_env \<Rightarrow> string \<Rightarrow> string \<Rightarrow> string \<Rightarrow> link_record list \<Rightarrow> parsed_file \<Rightarrow> parsed_symbol option \<Rightarrow> node_maker" where
  "build_node env slug title body links f sb i now =
     \<lparr>nd_id = i, nd_slug = slug, nd_kind = ''code'', nd_title = title, nd_body = body,
      nd_tags = [''code'', pf_language f] @
                (case sb of None \<Rightarrow> [] | Some s \<Rightarrow> kind_text (ps_kind s) # (if ps_private s then [''private''] else [])),
      nd_links = links, nd_metadata = [(''source_hash'', JStr (pf_hash f))],
      nd_created = Some now, nd_updated = None, nd_happened = None, nd_salience = 0.5, nd_confidence = 0.9,
      nd_agent = ie_agent env, nd_type = ''observation'', nd_source = Some (node_source f sb (ie_commit env) (ie_repo env)),
      nd_extra = [], nd_reinforced = 0, nd_last_reinforced = None\<rparr>"

definition module_node :: "ingest_env \<Rightarrow> resolver \<Rightarrow> parsed_file \<Rightarrow> node_maker" where
  "module_node env R f =
     (let links = import_only_links R f in
      build_node env (module_to_slug (pf_module f) [])
        (if pf_module f \<noteq> [] then pf_module f @ '' (module)'' else pf_rel_path f)
        (render_module_body f links) links f None)"

definition parent_links :: "parsed_file \<Rightarrow> parsed_symbol \<Rightarrow> link_record list" where
  "parent_links f sb =
     (let slug = module_to_slug (pf_module f) (ps_qualname sb);
          parent = module_to_slug (pf_module f) (first_part (ps_qualname sb))
      in if ps_kind sb = Method_Symbol \<and> CHR ''.'' \<in> set (ps_qualname sb) \<and> parent \<noteq> slug
         then [code_link slug parent ''extends'' 0.8] else [])"

definition symbol_node :: "ingest_env \<Rightarrow> resolver \<Rightarrow> parsed_file \<Rightarrow> parsed_symbol \<Rightarrow> node_maker" where
  "symbol_node env R f sb =
     (let resolved = resolve_symbol R f sb; slug = module_to_slug (pf_module f) (ps_qualname sb) in
      build_node env slug (pf_module f @ ''.'' @ ps_qualname sb) (render_symbol_body f sb resolved)
        (map (\<lambda>l. code_link slug (rl_dst_slug l) ''related'' 0.6) resolved @ parent_links f sb) f (Some sb))"

definition file_nodes :: "ingest_env \<Rightarrow> resolver \<Rightarrow> parsed_file \<Rightarrow> (node_maker \<times> string) list" where
  "file_nodes env R f = (module_node env R f, pf_hash f) # map (\<lambda>sb. (symbol_node env R f sb, pf_hash f)) (pf_symbols f)"

definition code_nodes :: "ingest_env \<Rightarrow> parsed_file list \<Rightarrow> (node_maker \<times> string) list" where
  "code_nodes env files = concat (map (file_nodes env (resolver_init files)) files)"

section \<open>Writing\<close>

definition metadata_hash :: "payload \<Rightarrow> json option" where
  "metadata_hash md =
     (case dict_get md ''source_hash'' of
        Some v \<Rightarrow> if truthy v then Some v else dict_get md ''content_hash''
      | None \<Rightarrow> dict_get md ''content_hash'')"

definition source_hash_of :: "wiki_node \<Rightarrow> json option" where
  "source_hash_of m = metadata_hash (nd_metadata m)"

definition put_with_hash ::
  "'s node_get \<Rightarrow> 's node_put \<Rightarrow> bool \<Rightarrow> wiki_node \<Rightarrow> string \<Rightarrow> ingest_result \<Rightarrow> 's \<Rightarrow> (store_error + ingest_result) \<times> 's" where
  "put_with_hash get put force n hash r s =
     (case get s (nd_slug n) of
        Inl e \<Rightarrow> (Inl e, s)
      | Inr None \<Rightarrow>
          (case put n s of (Inl e, s1) \<Rightarrow> (Inl e, s1) | (Inr m, s1) \<Rightarrow> (Inr (r\<lparr>ig_added := ig_added r @ [nd_slug n]\<rparr>), s1))
      | Inr (Some old) \<Rightarrow>
          if \<not> force \<and> source_hash_of old = Some (JStr hash)
          then (Inr (r\<lparr>ig_unchanged := ig_unchanged r @ [nd_slug n]\<rparr>), s)
          else (case put (n\<lparr>nd_id := nd_id old, nd_created := nd_created old\<rparr>) s of
                  (Inl e, s1) \<Rightarrow> (Inl e, s1)
                | (Inr m, s1) \<Rightarrow> (Inr (r\<lparr>ig_updated := ig_updated r @ [nd_slug n]\<rparr>), s1)))"

fun put_all ::
  "'s node_get \<Rightarrow> 's node_put \<Rightarrow> bool \<Rightarrow> (nat \<Rightarrow> uuid) \<Rightarrow> time \<Rightarrow> (node_maker \<times> string) list \<Rightarrow> ingest_result \<Rightarrow> 's \<Rightarrow>
   (store_error + ingest_result) \<times> 's" where
  "put_all get put force fresh now [] r s = (Inr r, s)"
| "put_all get put force fresh now ((mk, hash) # nodes) r s =
     (case put_with_hash get put force (mk (fresh 0) now) hash r s of
        (Inl e, s1) \<Rightarrow> (Inl e, s1)
      | (Inr r1, s1) \<Rightarrow> put_all get put force (\<lambda>i. fresh (i + 1)) now nodes r1 s1)"

datatype ingest_error = Undecodable_Ignore_File | Store_Failed store_error

definition ingest_codebase ::
  "'s node_get \<Rightarrow> 's node_put \<Rightarrow> parser \<Rightarrow> (nat \<Rightarrow> uuid) \<Rightarrow> time \<Rightarrow> ingest_env \<Rightarrow> string \<Rightarrow> fs_entry \<Rightarrow> string list option \<Rightarrow>
   string list \<Rightarrow> string list \<Rightarrow> bool \<Rightarrow> 's \<Rightarrow> (ingest_error + ingest_result) \<times> 's" where
  "ingest_codebase get put parse fresh now env root_name tree languages includes excludes respect_gitignore s =
     (case build_walker tree includes excludes respect_gitignore of
        None \<Rightarrow> (Inl Undecodable_Ignore_File, s)
      | Some w \<Rightarrow>
          (case parse_all parse (root_package root_name tree) tree
                  (case languages of Some (l # ls) \<Rightarrow> Some (set (l # ls)) | _ \<Rightarrow> None)
                  (iter_files w tree) (empty_result (ie_commit env)) of
             (files, r) \<Rightarrow>
               if files = [] then (Inr r, s)
               else (case put_all get put (ie_force env) fresh now (code_nodes env files) r s of
                       (Inl e, s1) \<Rightarrow> (Inl (Store_Failed e), s1)
                     | (Inr r1, s1) \<Rightarrow> (Inr r1, s1))))"

section \<open>The commit\<close>

text \<open>
  The directories, the files and their texts (\<open>None\<close> when reading raises an \<open>OSError\<close>) around
  the root, by absolute path; symbolic links in the path of a git directory are not resolved.
\<close>

record git_fs =
  gf_dir :: "path \<Rightarrow> bool"
  gf_file :: "path \<Rightarrow> bool"
  gf_text :: "path \<Rightarrow> string option"

definition join_path :: "path \<Rightarrow> string \<Rightarrow> path" where
  "join_path base s =
     (let parts = filter (\<lambda>p. p \<noteq> [] \<and> p \<noteq> ''.'') (split_on CHR ''/'' s)
      in if is_prefix ''/'' s then parts else base @ parts)"

definition drop_updirs :: "path \<Rightarrow> path" where
  "drop_updirs p = rev (fold (\<lambda>part acc. if part = ''..'' then tl acc else part # acc) p [])"

fun find_git_dir :: "git_fs \<Rightarrow> path list \<Rightarrow> path option" where
  "find_git_dir fs [] = None"
| "find_git_dir fs (c # cs) =
     (let d = c @ [''.git''] in
      if gf_dir fs d then Some d
      else if gf_file fs d then
        (case gf_text fs d of
           None \<Rightarrow> None
         | Some t \<Rightarrow>
             if is_prefix ''gitdir: '' (strip t) then Some (drop_updirs (join_path c (drop 8 (strip t))))
             else find_git_dir fs cs)
      else find_git_dir fs cs)"

definition with_parents :: "path \<Rightarrow> path list" where
  "with_parents p = map (\<lambda>i. take (length p - i) p) [0..<length p + 1]"

definition is_sha :: "string \<Rightarrow> bool" where
  "is_sha s \<longleftrightarrow> 7 \<le> length s \<and> length s \<le> 40 \<and> set s \<subseteq> set ''0123456789abcdef''"

definition packed_ref :: "string \<Rightarrow> string \<Rightarrow> string option" where
  "packed_ref ref packed =
     (case filter (\<lambda>line. ends_with line (CHR '' '' # ref)) (split_lines False [] packed) of
        [] \<Rightarrow> None
      | line # lines \<Rightarrow> Some (takeWhile (\<lambda>c. \<not> is_space c) (dropWhile is_space line)))"

definition read_commit_sha :: "git_fs \<Rightarrow> path \<Rightarrow> string option" where
  "read_commit_sha fs base =
     (case find_git_dir fs (with_parents base) of
        None \<Rightarrow> None
      | Some d \<Rightarrow>
          if \<not> gf_file fs (d @ [''HEAD'']) \<and> \<not> gf_dir fs (d @ [''HEAD'']) then None
          else case map_option strip (gf_text fs (d @ [''HEAD''])) of
            None \<Rightarrow> None
          | Some head \<Rightarrow>
              if is_prefix ''ref: '' head then
                (case gf_text fs (join_path d (drop 5 head)) of
                   Some t \<Rightarrow> Some (strip t)
                 | None \<Rightarrow>
                     if gf_file fs (d @ [''packed-refs'']) \<or> gf_dir fs (d @ [''packed-refs'']) then
                       (case gf_text fs (d @ [''packed-refs'']) of Some t \<Rightarrow> packed_ref (drop 5 head) t | None \<Rightarrow> None)
                     else None)
              else if is_sha head then Some head else None)"

text \<open>In a linked worktree HEAD names a branch whose ref is in the common directory: there is no commit.\<close>

lemma worktree_has_no_commit:
  assumes "find_git_dir fs (with_parents base) = Some d" "gf_text fs (d @ [''HEAD'']) = Some (''ref: '' @ ref)"
    "strip (''ref: '' @ ref) = ''ref: '' @ ref" "gf_text fs (join_path d ref) = None"
    "\<not> gf_file fs (d @ [''packed-refs''])" "\<not> gf_dir fs (d @ [''packed-refs''])"
  shows "read_commit_sha fs base = None"
  using assms by (simp add: read_commit_sha_def is_prefix_def)

section \<open>What ingesting relies on\<close>

definition meta_at :: "'s node_get \<Rightarrow> 's \<Rightarrow> string \<Rightarrow> payload option" where
  "meta_at get s slug = (case get s slug of Inr (Some m) \<Rightarrow> Some (nd_metadata m) | _ \<Rightarrow> None)"

definition code_slug :: "string \<Rightarrow> bool" where
  "code_slug slug \<longleftrightarrow> is_prefix ''code/'' slug"

lemma module_to_slug_code [simp]: "code_slug (module_to_slug m q)"
  by (simp add: code_slug_def module_to_slug_def is_prefix_def Let_def)

text \<open>A put leaves what is found under other code slugs.\<close>

locale code_store = indexed_store +
  assumes get_never_fails: "inv s \<Longrightarrow> \<exists>m. get s slug = Inr m"
    and put_others: "inv s \<Longrightarrow> accepts s n \<Longrightarrow> code_slug slug \<Longrightarrow> slug \<noteq> nd_slug n \<Longrightarrow>
      meta_at get (snd (put n s)) slug = meta_at get s slug"
begin

text \<open>What the backend accepts of a list of nodes, put one after the other.\<close>

definition put_target :: "wiki_node \<Rightarrow> 'a \<Rightarrow> wiki_node" where
  "put_target n s = (case get s (nd_slug n) of Inr (Some old) \<Rightarrow> n\<lparr>nd_id := nd_id old, nd_created := nd_created old\<rparr> | _ \<Rightarrow> n)"

lemma put_target_same [simp]: "nd_slug (put_target n s) = nd_slug n" "nd_metadata (put_target n s) = nd_metadata n"
  by (simp_all add: put_target_def split: sum.splits option.splits)

lemma put_with_hash_step:
  assumes s: "inv s" and ok: "accepts s (put_target n s)" and slug: "code_slug (nd_slug n)"
    and h: "nd_metadata n = [(''source_hash'', JStr hash)]" "hash \<noteq> []"
  shows "\<exists>r1 s1. put_with_hash get put force n hash r s = (Inr r1, s1) \<and> inv s1 \<and>
    (\<exists>m. get s1 (nd_slug n) = Inr (Some m) \<and> source_hash_of m = Some (JStr hash)) \<and>
    (\<forall>slug. code_slug slug \<and> slug \<noteq> nd_slug n \<longrightarrow> meta_at get s1 slug = meta_at get s slug)"
proof -
  let ?n = "put_target n s"
  obtain found where found: "get s (nd_slug n) = Inr found"
    using get_never_fails[OF s] by blast
  have hash_of: "source_hash_of m = Some (JStr hash)" if "nd_metadata m = nd_metadata n" for m
    using that h by (simp add: source_hash_of_def metadata_hash_def)
  show ?thesis
  proof (cases "\<exists>old. found = Some old \<and> \<not> force \<and> source_hash_of old = Some (JStr hash)")
    case True
    then show ?thesis
      using found s by (auto simp: put_with_hash_def)
  next
    case False
    obtain n' m where n': "fst (put ?n s) = Inr n'" and m: "get (snd (put ?n s)) (nd_slug ?n) = Inr (Some m)" "nd_metadata m = nd_metadata ?n"
      using put_found[OF s ok] by blast
    have call: "\<exists>r1. put_with_hash get put force n hash r s = (Inr r1, snd (put ?n s))"
      using False found n' by (cases "put ?n s") (auto simp: put_with_hash_def put_target_def split: option.splits)
    have others: "meta_at get (snd (put ?n s)) slug = meta_at get s slug" if "code_slug slug" "slug \<noteq> nd_slug n" for slug
      using put_others[OF s ok that(1)] that(2) by simp
    have "source_hash_of m = Some (JStr hash)"
      using m(2) by (intro hash_of) simp
    then show ?thesis
      using call others put_inv[OF s ok] m(1) by auto
  qed
qed

end

fun accepts_all ::
  "'s node_get \<Rightarrow> 's node_put \<Rightarrow> ('s \<Rightarrow> wiki_node \<Rightarrow> bool) \<Rightarrow> bool \<Rightarrow> (nat \<Rightarrow> uuid) \<Rightarrow> time \<Rightarrow> (node_maker \<times> string) list \<Rightarrow> 's \<Rightarrow> bool" where
  "accepts_all get put accepts force fresh now [] s = True"
| "accepts_all get put accepts force fresh now ((mk, hash) # nodes) s =
     (let n = mk (fresh 0) now in
      accepts s (case get s (nd_slug n) of Inr (Some old) \<Rightarrow> n\<lparr>nd_id := nd_id old, nd_created := nd_created old\<rparr> | _ \<Rightarrow> n) \<and>
      accepts_all get put accepts force (\<lambda>i. fresh (i + 1)) now nodes
        (snd (put_with_hash get put force n hash (empty_result None) s)))"

text \<open>A maker makes nodes of one slug that carry the hash.\<close>

definition makes :: "node_maker \<times> string \<Rightarrow> string \<Rightarrow> bool" where
  "makes node slug \<longleftrightarrow> code_slug slug \<and> snd node \<noteq> [] \<and>
     (\<forall>i now. nd_slug (fst node i now) = slug \<and> nd_metadata (fst node i now) = [(''source_hash'', JStr (snd node))])"

text \<open>The store after a put does not depend on the result collected so far.\<close>

lemma put_with_hash_state: "snd (put_with_hash get put force n hash r s) = snd (put_with_hash get put force n hash r' s)"
  by (simp add: put_with_hash_def split: sum.splits option.splits prod.splits)

context code_store begin

lemma put_all_step:
  assumes "inv s" "accepts_all get put accepts force fresh now nodes s"
    and "list_all2 makes nodes slugs"
    and "\<And>i j. i < length nodes \<Longrightarrow> j < length nodes \<Longrightarrow> slugs ! i = slugs ! j \<Longrightarrow> snd (nodes ! i) = snd (nodes ! j)"
  shows "\<exists>r1 s1. put_all get put force fresh now nodes r s = (Inr r1, s1) \<and> inv s1 \<and>
    (\<forall>i<length nodes. \<exists>m. get s1 (slugs ! i) = Inr (Some m) \<and> source_hash_of m = Some (JStr (snd (nodes ! i)))) \<and>
    (\<forall>slug. code_slug slug \<and> slug \<notin> set slugs \<longrightarrow> meta_at get s1 slug = meta_at get s slug)"
  using assms
proof (induction nodes arbitrary: fresh slugs s r)
  case (Cons node nodes)
  obtain slug slugs' where slugs: "slugs = slug # slugs'" "makes node slug" "list_all2 makes nodes slugs'"
    using Cons.prems(3) by (auto simp: list_all2_Cons1)
  let ?n = "fst node (fresh 0) now"
  have n: "nd_slug ?n = slug" "nd_metadata ?n = [(''source_hash'', JStr (snd node))]" "snd node \<noteq> []" "code_slug slug"
    using slugs(2) by (simp_all add: makes_def)
  have "accepts s (put_target ?n s)"
    using Cons.prems(2) by (cases node) (simp add: Let_def put_target_def)
  then obtain r1 s1 where step: "put_with_hash get put force ?n (snd node) r s = (Inr r1, s1)" "inv s1"
    "\<exists>m. get s1 slug = Inr (Some m) \<and> source_hash_of m = Some (JStr (snd node))"
    "\<And>x. code_slug x \<Longrightarrow> x \<noteq> slug \<Longrightarrow> meta_at get s1 x = meta_at get s x"
    using put_with_hash_step[OF Cons.prems(1), of ?n "snd node" force r] n by auto
  have "s1 = snd (put_with_hash get put force ?n (snd node) (empty_result None) s)"
    using put_with_hash_state[of get put force ?n "snd node" r s "empty_result None"] step(1) by simp
  then have acc: "accepts_all get put accepts force (\<lambda>i. fresh (i + 1)) now nodes s1"
    using Cons.prems(2) by (cases node) (simp add: Let_def)
  have same: "snd (nodes ! i) = snd (nodes ! j)"
    if "i < length nodes" "j < length nodes" "slugs' ! i = slugs' ! j" for i j
    using Cons.prems(4)[of "Suc i" "Suc j"] that by (simp add: slugs(1))
  obtain r2 s2 where rest: "put_all get put force (\<lambda>i. fresh (i + 1)) now nodes r1 s1 = (Inr r2, s2)" "inv s2"
    "\<And>i. i < length nodes \<Longrightarrow> \<exists>m. get s2 (slugs' ! i) = Inr (Some m) \<and> source_hash_of m = Some (JStr (snd (nodes ! i)))"
    "\<And>x. code_slug x \<Longrightarrow> x \<notin> set slugs' \<Longrightarrow> meta_at get s2 x = meta_at get s1 x"
    using Cons.IH[OF step(2) acc slugs(3) same, of r1] by blast
  have first: "\<exists>m. get s2 slug = Inr (Some m) \<and> source_hash_of m = Some (JStr (snd node))"
  proof (cases "slug \<in> set slugs'")
    case True
    then obtain j where j: "j < length nodes" "slugs' ! j = slug"
      using slugs(3) by (auto simp: in_set_conv_nth list_all2_lengthD)
    then have "snd (nodes ! j) = snd node"
      using Cons.prems(4)[of 0 "Suc j"] by (simp add: slugs(1))
    then show ?thesis
      using rest(3)[OF j(1)] j(2) by simp
  next
    case False
    obtain m where m: "get s1 slug = Inr (Some m)" "source_hash_of m = Some (JStr (snd node))"
      using step(3) by blast
    have "meta_at get s2 slug = Some (nd_metadata m)"
      using rest(4)[OF n(4) False] m(1) by (simp add: meta_at_def)
    then obtain m2 where "get s2 slug = Inr (Some m2)" "nd_metadata m2 = nd_metadata m"
      by (auto simp: meta_at_def split: sum.splits option.splits)
    then show ?thesis
      using m(2) by (simp add: source_hash_of_def)
  qed
  have "\<exists>m. get s2 (slugs ! i) = Inr (Some m) \<and> source_hash_of m = Some (JStr (snd ((node # nodes) ! i)))"
    if "i < length (node # nodes)" for i
    using that first rest(3) by (cases i) (simp_all add: slugs(1))
  moreover have "meta_at get s2 x = meta_at get s x" if "code_slug x" "x \<notin> set slugs" for x
    using that rest(4)[of x] step(4)[of x] by (simp add: slugs(1))
  moreover have "put_all get put force fresh now (node # nodes) r s = (Inr r2, s2)"
    using step(1) rest(1) by (cases node) simp
  ultimately show ?case
    using rest(2) by blast
qed simp

lemma put_all_again:
  assumes "list_all2 makes nodes slugs"
    and "\<And>i. i < length nodes \<Longrightarrow> \<exists>m. get s (slugs ! i) = Inr (Some m) \<and> source_hash_of m = Some (JStr (snd (nodes ! i)))"
  shows "put_all get put False fresh now nodes r s = (Inr (r\<lparr>ig_unchanged := ig_unchanged r @ slugs\<rparr>), s)"
  using assms
proof (induction nodes arbitrary: fresh slugs r)
  case (Cons node nodes)
  obtain slug slugs' where slugs: "slugs = slug # slugs'" "makes node slug" "list_all2 makes nodes slugs'"
    using Cons.prems(1) by (auto simp: list_all2_Cons1)
  have n: "nd_slug (fst node (fresh 0) now) = slug"
    using slugs(2) by (simp add: makes_def)
  obtain m where m: "get s slug = Inr (Some m)" "source_hash_of m = Some (JStr (snd node))"
    using Cons.prems(2)[of 0] by (auto simp: slugs(1))
  have "\<And>i. i < length nodes \<Longrightarrow> \<exists>m. get s (slugs' ! i) = Inr (Some m) \<and> source_hash_of m = Some (JStr (snd (nodes ! i)))"
    using Cons.prems(2)[of "Suc i" for i] by (simp add: slugs(1))
  note IH = Cons.IH[OF slugs(3) this]
  show ?case
    using IH m n by (cases node) (simp add: put_with_hash_def slugs(1))
qed simp

end

section \<open>The SQLite backend\<close>

text \<open>Besides what indexing asks: a known id keeps its slug, and no id looks like a code slug.\<close>

definition sqlite_code :: "sqlite_store \<Rightarrow> wiki_node \<Rightarrow> bool" where
  "sqlite_code S n \<longleftrightarrow> sqlite_files S n \<and> (\<forall>r\<in>set (ss_nodes S). sn_id r = nd_id n \<longrightarrow> sn_slug r = nd_slug n) \<and>
     \<not> code_slug (nd_id n)"

lemma find_map_same:
  assumes "\<And>x. x \<in> set xs \<Longrightarrow> f x = x \<or> (\<not> P x \<and> \<not> P (f x))"
  shows "find P (map f xs) = find P xs"
  using assms
proof (induction xs)
  case (Cons x xs)
  then have "find P (map f xs) = find P xs"
    by simp
  moreover have "f x = x \<or> (\<not> P x \<and> \<not> P (f x))"
    using Cons.prems by simp
  ultimately show ?case
    by auto
qed simp

lemma find_append_other: "\<not> P r \<Longrightarrow> find P (xs @ [r]) = find P xs"
  by (induction xs) auto

lemma sqlite_put_others:
  assumes ok: "sqlite_code S n" and slug: "code_slug slug" "slug \<noteq> nd_slug n"
  shows "meta_at sqlite_get (snd (sqlite_put_node now n S)) slug = meta_at sqlite_get S slug"
proof -
  let ?P = "\<lambda>r. sn_id r = slug \<or> sn_slug r = slug" and ?row = "node_to_row now n"
  have clash: "\<not> slug_clash S n"
    using ok by (simp add: sqlite_code_def sqlite_files_def sqlite_accepts_def)
  have id: "slug \<noteq> nd_id n"
    using ok slug(1) by (auto simp: sqlite_code_def)
  have row: "sn_id ?row = nd_id n" "sn_slug ?row = nd_slug n"
    by (simp_all add: node_to_row_def)
  have "find ?P (upsert_row ?row (ss_nodes S)) = find ?P (ss_nodes S)"
  proof (cases "nd_id n \<in> sn_id ` set (ss_nodes S)")
    case True
    have "merge_row ?row r = r \<or> (\<not> ?P r \<and> \<not> ?P (merge_row ?row r))" if "r \<in> set (ss_nodes S)" for r
    proof (cases "sn_id r = nd_id n")
      case True
      then have "sn_slug r = nd_slug n"
        using ok that by (simp add: sqlite_code_def)
      then show ?thesis
        using True id slug(2) row by (simp add: merge_row_def)
    qed (simp add: merge_row_def row)
    then show ?thesis
      using True unfolding upsert_row_def row by (simp add: find_map_same)
  next
    case False
    have "\<not> ?P ?row"
      using id slug(2) row by simp
    then have "find ?P (ss_nodes S @ [?row]) = find ?P (ss_nodes S)"
      by (rule find_append_other)
    then show ?thesis
      using False unfolding upsert_row_def row by simp
  qed
  then have "map_option sn_metadata (find ?P (ss_nodes (snd (sqlite_put_node now n S)))) = map_option sn_metadata (find ?P (ss_nodes S))"
    by (simp add: sqlite_put_state[OF clash])
  then show ?thesis
    by (cases "find ?P (ss_nodes S)"; cases "find ?P (ss_nodes (snd (sqlite_put_node now n S)))")
      (simp_all add: meta_at_def sqlite_get_def sqlite_get_node_def row_to_node_def)
qed

interpretation sqlite_code: code_store sqlite_get "sqlite_put_node now" sqlite_inv sqlite_code for now
proof
  fix S n assume S: "sqlite_inv S" "sqlite_code S n"
  then have ok: "sqlite_files S n"
    by (simp add: sqlite_code_def)
  show "sqlite_inv (snd (sqlite_put_node now n S))"
    by (rule sqlite_index.put_inv[OF S(1) ok])
  show "(\<exists>n'. fst (sqlite_put_node now n S) = Inr n') \<and>
      (\<exists>m. sqlite_get (snd (sqlite_put_node now n S)) (nd_slug n) = Inr (Some m) \<and> nd_metadata m = nd_metadata n)"
    by (rule sqlite_index.put_found[OF S(1) ok])
next
  fix S slug show "\<exists>m. sqlite_get S slug = Inr m"
    by (simp add: sqlite_get_def)
qed (rule sqlite_put_others)

section \<open>Properties\<close>

definition file_slugs :: "parsed_file \<Rightarrow> string list" where
  "file_slugs f = module_to_slug (pf_module f) [] # map (\<lambda>sb. module_to_slug (pf_module f) (ps_qualname sb)) (pf_symbols f)"

lemma built_node [simp]:
  "nd_slug (build_node env slug title body links f sb i now) = slug"
  "nd_metadata (build_node env slug title body links f sb i now) = [(''source_hash'', JStr (pf_hash f))]"
  "nd_links (build_node env slug title body links f sb i now) = links"
  by (simp_all add: build_node_def)

lemma file_nodes_make:
  assumes "pf_hash f \<noteq> []"
  shows "list_all2 makes (file_nodes env R f) (file_slugs f)"
proof -
  have "makes (module_node env R f, pf_hash f) (module_to_slug (pf_module f) [])"
    using assms by (simp add: makes_def module_node_def Let_def)
  moreover have "makes (symbol_node env R f sb, pf_hash f) (module_to_slug (pf_module f) (ps_qualname sb))" for sb
    using assms by (simp add: makes_def symbol_node_def Let_def)
  ultimately show ?thesis
    by (simp add: file_nodes_def file_slugs_def list_all2_map1 list_all2_map2 list_all2_same)
qed

lemma code_nodes_make:
  assumes "\<And>f. f \<in> set files \<Longrightarrow> pf_hash f \<noteq> []"
  shows "list_all2 makes (code_nodes env files) (concat (map file_slugs files))"
proof -
  have "list_all2 makes (concat (map (file_nodes env R) fs)) (concat (map file_slugs fs))" if "set fs \<subseteq> set files" for R fs
    using that by (induction fs) (auto intro!: list_all2_appendI file_nodes_make assms)
  then show ?thesis
    by (simp add: code_nodes_def)
qed

text \<open>Each emitted node has the hash of its file.\<close>

lemma code_node_file:
  assumes "i < length (concat (map file_slugs files))"
  shows "\<exists>f\<in>set files. concat (map file_slugs files) ! i \<in> set (file_slugs f) \<and> snd (code_nodes env files ! i) = pf_hash f"
proof -
  have "\<exists>f\<in>set fs. concat (map file_slugs fs) ! i \<in> set (file_slugs f) \<and> snd (concat (map (file_nodes env R) fs) ! i) = pf_hash f"
    if "i < length (concat (map file_slugs fs))" for R fs
    using that
  proof (induction fs arbitrary: i)
    case (Cons f fs)
    have len: "length (file_nodes env R f) = length (file_slugs f)"
      by (simp add: file_nodes_def file_slugs_def)
    show ?case
    proof (cases "i < length (file_slugs f)")
      case True
      have "snd (file_nodes env R f ! i) = pf_hash f"
        using True by (cases i) (simp_all add: file_nodes_def file_slugs_def)
      then show ?thesis
        using True len by (auto simp: nth_append)
    next
      case False
      then have "i - length (file_slugs f) < length (concat (map file_slugs fs))"
        using Cons.prems by simp
      from Cons.IH[OF this] show ?thesis
        using False len by (auto simp: nth_append)
    qed
  qed simp
  then show ?thesis
    using assms by (simp add: code_nodes_def)
qed

lemma code_nodes_id: "node \<in> set (code_nodes env files) \<Longrightarrow> nd_id (fst node i now) = i"
  by (auto simp: code_nodes_def file_nodes_def module_node_def symbol_node_def build_node_def Let_def)

text \<open>New nodes under new slugs and fresh ids are accepted one after the other.\<close>

lemma fresh_ingest_accepted:
  assumes "list_all2 makes nodes slugs" and "distinct slugs"
    and "\<And>node i now. node \<in> set nodes \<Longrightarrow> nd_id (fst node i now) = i"
    and "inj fresh" and "\<And>i. fresh i \<noteq> [] \<and> \<not> code_slug (fresh i)"
    and "\<And>r. r \<in> set (ss_nodes S) \<Longrightarrow> code_slug (sn_slug r) \<and> \<not> code_slug (sn_id r) \<and> sn_slug r \<notin> set slugs \<and> sn_id r \<notin> range fresh"
  shows "accepts_all sqlite_get (sqlite_put_node t) sqlite_code force fresh now nodes S"
  using assms
proof (induction nodes arbitrary: fresh slugs S)
  case (Cons node nodes)
  obtain slug slugs' where slugs: "slugs = slug # slugs'" "makes node slug" "list_all2 makes nodes slugs'"
    using Cons.prems(1) by (auto simp: list_all2_Cons1)
  let ?n = "fst node (fresh 0) now" and ?fresh = "\<lambda>i. fresh (i + 1)"
  have n: "nd_slug ?n = slug" "code_slug slug" "nd_id ?n = fresh 0"
    using slugs(2) Cons.prems(3) by (simp_all add: makes_def)
  have old: "code_slug (sn_slug r)" "\<not> code_slug (sn_id r)" "sn_slug r \<noteq> slug" "sn_id r \<noteq> fresh i" if "r \<in> set (ss_nodes S)" for r i
    using Cons.prems(6)[OF that] by (auto simp: slugs(1))
  have new: "fresh 0 \<noteq> []" "\<not> code_slug (fresh 0)"
    using Cons.prems(5)[of 0] by simp_all
  have "sn_id r \<noteq> slug \<and> sn_slug r \<noteq> slug" if "r \<in> set (ss_nodes S)" for r
    using old[OF that] n(2) by auto
  then have none: "sqlite_get S slug = Inr None"
    by (simp add: sqlite_get_def sqlite_get_node_def find_None_iff)
  have clash: "\<not> slug_clash S ?n"
    using old(3) by (auto simp: slug_clash_def n)
  have "sn_slug r \<noteq> fresh 0 \<and> sn_id r \<noteq> slug \<and> sn_id r \<noteq> fresh 0" if "r \<in> set (ss_nodes S)" for r
    using old[OF that] n(2) new(2) by metis
  then have "sqlite_code S ?n"
    unfolding sqlite_code_def sqlite_files_def sqlite_accepts_def n using new clash by auto
  moreover have "accepts_all sqlite_get (sqlite_put_node t) sqlite_code force ?fresh now nodes (snd (sqlite_put_node t ?n S))"
  proof (rule Cons.IH[OF slugs(3)])
    show "distinct slugs'"
      using Cons.prems(2) by (simp add: slugs(1))
    show "inj ?fresh"
      by (rule injI) (use injD[OF Cons.prems(4)] in fastforce)
    show "nd_id (fst nd i nw) = i" if "nd \<in> set nodes" for nd i nw
      using Cons.prems(3) that by simp
    show "?fresh i \<noteq> [] \<and> \<not> code_slug (?fresh i)" for i
      using Cons.prems(5) by simp
    fix r assume "r \<in> set (ss_nodes (snd (sqlite_put_node t ?n S)))"
    then have "r \<in> set (upsert_row (node_to_row t ?n) (ss_nodes S))"
      by (simp add: sqlite_put_state[OF clash])
    moreover have "nd_id ?n \<notin> sn_id ` set (ss_nodes S)"
      unfolding n(3) using old(4) by (metis imageE)
    ultimately consider "r \<in> set (ss_nodes S)" | "r = node_to_row t ?n"
      by (auto simp: upsert_row_def node_to_row_def)
    then show "code_slug (sn_slug r) \<and> \<not> code_slug (sn_id r) \<and> sn_slug r \<notin> set slugs' \<and> sn_id r \<notin> range ?fresh"
    proof cases
      case 1
      then show ?thesis
        using Cons.prems(6)[OF 1] by (auto simp: slugs(1))
    next
      case 2
      have "fresh 0 \<notin> range ?fresh"
        using Cons.prems(4) by (auto dest: injD)
      then show ?thesis
        using 2 n new Cons.prems(2) by (simp add: node_to_row_def slugs(1))
    qed
  qed
  moreover have "snd (put_with_hash sqlite_get (sqlite_put_node t) force ?n (snd node) (empty_result None) S) = snd (sqlite_put_node t ?n S)"
    by (simp add: put_with_hash_def n(1) none split: prod.splits sum.splits)
  moreover have "sqlite_get S (nd_slug ?n) = Inr None"
    by (simp add: n(1) none)
  ultimately show ?case
    by (cases node) (simp add: Let_def)
qed simp

text \<open>
  (C27) On the SQLite backend an ingestion whose nodes the backend accepts one after the other
  succeeds and keeps the store in order, and a second one of the same files, with any ids and at
  any time, reports every slug unchanged and leaves the store as it is, if files that share a
  slug have the same source.
\<close>

theorem ingest_is_idempotent:
  assumes S: "sqlite_inv S" and hashes: "\<And>f. f \<in> set files \<Longrightarrow> pf_hash f \<noteq> []"
    and shared: "\<And>f g slug. f \<in> set files \<Longrightarrow> g \<in> set files \<Longrightarrow> slug \<in> set (file_slugs f) \<Longrightarrow> slug \<in> set (file_slugs g) \<Longrightarrow>
      pf_hash f = pf_hash g"
    and ok: "accepts_all sqlite_get (sqlite_put_node t) sqlite_code force fresh now (code_nodes env files) S"
  shows "\<exists>r1 S1. put_all sqlite_get (sqlite_put_node t) force fresh now (code_nodes env files) r S = (Inr r1, S1) \<and> sqlite_inv S1 \<and>
    put_all sqlite_get (sqlite_put_node t') False fresh' now' (code_nodes env' files) r' S1 =
      (Inr (r'\<lparr>ig_unchanged := ig_unchanged r' @ concat (map file_slugs files)\<rparr>), S1)"
proof -
  let ?slugs = "concat (map file_slugs files)"
  have makes: "list_all2 makes (code_nodes e files) ?slugs" for e
    by (rule code_nodes_make[OF hashes])
  have len: "length (code_nodes e files) = length ?slugs" for e
    by (rule list_all2_lengthD[OF makes])
  have hash_at: "snd (code_nodes e files ! i) = snd (code_nodes e' files ! j)"
    if h: "i < length ?slugs" "j < length ?slugs" "?slugs ! i = ?slugs ! j" for e e' i j
  proof -
    obtain f where f: "f \<in> set files" "?slugs ! i \<in> set (file_slugs f)" "snd (code_nodes e files ! i) = pf_hash f"
      using code_node_file[OF h(1), of e] by blast
    obtain g where g: "g \<in> set files" "?slugs ! j \<in> set (file_slugs g)" "snd (code_nodes e' files ! j) = pf_hash g"
      using code_node_file[OF h(2), of e'] by blast
    show ?thesis
      using shared[OF f(1) g(1) f(2)] f(3) g(2,3) h(3) by simp
  qed
  obtain r1 S1 where run: "put_all sqlite_get (sqlite_put_node t) force fresh now (code_nodes env files) r S = (Inr r1, S1)" "sqlite_inv S1"
    "\<And>i. i < length ?slugs \<Longrightarrow> \<exists>m. sqlite_get S1 (?slugs ! i) = Inr (Some m) \<and> source_hash_of m = Some (JStr (snd (code_nodes env files ! i)))"
    using sqlite_code.put_all_step[OF S ok makes, of r] hash_at[where e = env and e' = env] unfolding len by blast
  have "put_all sqlite_get (sqlite_put_node t') False fresh' now' (code_nodes env' files) r' S1 =
      (Inr (r'\<lparr>ig_unchanged := ig_unchanged r' @ ?slugs\<rparr>), S1)"
  proof (rule sqlite_code.put_all_again[OF makes])
    fix i assume i: "i < length (code_nodes env' files)"
    then show "\<exists>m. sqlite_get S1 (?slugs ! i) = Inr (Some m) \<and> source_hash_of m = Some (JStr (snd (code_nodes env' files ! i)))"
      using run(3)[of i] hash_at[of i i env env'] unfolding len by simp
  qed
  then show ?thesis
    using run(1,2) by blast
qed

lemma real_link_emitted: "real_link (resolver_init files) f l \<Longrightarrow> rl_dst_slug l \<in> set (concat (map file_slugs files))"
proof -
  assume l: "real_link (resolver_init files) f l"
  show ?thesis
  proof (cases "rl_dst_name l = []")
    case True
    obtain g where "g \<in> set files" "pf_module g = rl_dst_module l"
      using l resolver_init_facts(1) unfolding real_link_def by blast
    then show ?thesis
      using l True by (auto simp: real_link_def file_slugs_def intro!: bexI[of _ g])
  next
    case False
    then obtain g where g: "g \<in> set files" "pf_module g = rl_dst_module l" "rl_dst_name l \<in> ps_qualname ` set (pf_symbols g)"
      using l resolver_init_facts(2) unfolding real_link_def by blast
    then have "module_to_slug (rl_dst_module l) (rl_dst_name l) \<in> set (file_slugs g)"
      by (auto simp: file_slugs_def)
    then show ?thesis
      using l g(1) by (auto simp: real_link_def)
  qed
qed

text \<open>
  Every link of an emitted node goes out of that node and not back to it, and every
  "related" link points at a node the same ingestion emits.
\<close>

theorem emitted_links_resolve:
  assumes "node \<in> set (code_nodes env files)" and "l \<in> set (nd_links (fst node i now))"
  shows "lk_src_slug l = nd_slug (fst node i now) \<and> lk_dst_slug l \<noteq> lk_src_slug l \<and>
    (lk_type l = ''related'' \<longrightarrow> lk_dst_slug l \<in> set (concat (map file_slugs files)))"
proof -
  let ?R = "resolver_init files"
  obtain f where f: "f \<in> set files" "node \<in> set (file_nodes env ?R f)"
    using assms(1) by (auto simp: code_nodes_def)
  show ?thesis
  proof (cases "node = (module_node env ?R f, pf_hash f)")
    case True
    then have "l \<in> set (import_only_links ?R f)"
      using assms(2) by (simp add: module_node_def Let_def)
    then obtain m where m: "l = code_link (module_to_slug (pf_module f) []) (module_to_slug m []) ''related'' 0.5"
      "m \<in> rs_modules ?R" "module_to_slug m [] \<noteq> module_to_slug (pf_module f) []"
      by (auto simp: import_only_links_def Let_def)
    obtain g where "g \<in> set files" "pf_module g = m"
      using resolver_init_facts(1)[OF m(2)] by blast
    then have "module_to_slug m [] \<in> set (concat (map file_slugs files))"
      by (auto simp: file_slugs_def intro!: bexI[of _ g])
    then show ?thesis
      using m(1,3) by (simp add: True code_link_def module_node_def Let_def)
  next
    case False
    then obtain sb where node: "node = (symbol_node env ?R f sb, pf_hash f)"
      using f(2) by (auto simp: file_nodes_def)
    let ?slug = "module_to_slug (pf_module f) (ps_qualname sb)"
    have slug: "nd_slug (fst node i now) = ?slug"
      by (simp add: node symbol_node_def Let_def)
    have "l \<in> (\<lambda>r. code_link ?slug (rl_dst_slug r) ''related'' 0.6) ` set (resolve_symbol ?R f sb) \<union> set (parent_links f sb)"
      using assms(2) by (simp add: node symbol_node_def Let_def)
    then consider r where "l = code_link ?slug (rl_dst_slug r) ''related'' 0.6" "r \<in> set (resolve_symbol ?R f sb)"
      | "l \<in> set (parent_links f sb)"
      by blast
    then show ?thesis
    proof cases
      case 1
      note real = resolve_symbol_real[OF resolver_init_ok 1(2)]
      have "rl_dst_slug r \<noteq> ?slug"
        using real by (auto simp: real_link_def)
      then show ?thesis
        using 1(1) real real_link_emitted[of files f r] slug by (simp add: code_link_def)
    next
      case 2
      then show ?thesis
        using slug by (auto simp: parent_links_def code_link_def Let_def split: if_splits)
    qed
  qed
qed

text \<open>An empty file is emitted twice, and a file that only binds constants is counted as an error.\<close>

lemma empty_file_twice:
  assumes "text_at tree p = Some []" "name_suffix (last p) = ''.py''" "no_content (parse [] (rel_posix p) (module_fqn_for p pkg))"
  shows "fst (parse_one parse pkg tree None p r) = replicate 2 (parse [] (rel_posix p) (module_fqn_for p pkg))"
  using assms by (simp add: parse_one_def detect_language_def lower_def ascii_lower_def less_eq_char_def Let_def numeral_2_eq_2)

lemma constants_are_errors:
  assumes "text_at tree p = Some source" "length source > 2" "name_suffix (last p) = ''.py''"
    "no_content (parse source (rel_posix p) (module_fqn_for p pkg))"
  shows "fst (parse_one parse pkg tree None p r) = [] \<and> ig_errors (snd (parse_one parse pkg tree None p r)) = ig_errors r + 1"
  using assms by (simp add: parse_one_def detect_language_def lower_def ascii_lower_def less_eq_char_def Let_def)

text \<open>What an unchanged file links to now is not written: its node is skipped on the hash of the file alone.\<close>

lemma new_links_of_unchanged_file:
  assumes "get s (nd_slug n) = Inr (Some old)" "source_hash_of old = Some (JStr hash)"
  shows "put_with_hash get put False n hash r s = (Inr (r\<lparr>ig_unchanged := ig_unchanged r @ [nd_slug n]\<rparr>), s)"
  using assms by (simp add: put_with_hash_def)

section \<open>Witnesses\<close>

definition ingest_ex :: ingest_env where
  "ingest_ex = \<lparr>ie_commit = None, ie_repo = None, ie_agent = ''ingest.codebase'', ie_force = False\<rparr>"

definition fresh_ex :: "nat \<Rightarrow> uuid" where
  "fresh_ex i = replicate (i + 1) CHR ''a''"

theorem ingest_is_idempotent_witness:
  "\<exists>r1 S1. put_all sqlite_get (sqlite_put_node 5) False fresh_ex 5 (code_nodes ingest_ex [main_ex, utils_ex]) (empty_result None) sqlite_empty = (Inr r1, S1) \<and>
    put_all sqlite_get (sqlite_put_node 9) False (\<lambda>i. ''z'') 9 (code_nodes ingest_ex [main_ex, utils_ex]) (empty_result None) S1 =
      (Inr ((empty_result None)\<lparr>ig_unchanged := [''code/main'', ''code/main/run'', ''code/utils'', ''code/utils/helper'']\<rparr>), S1)"
proof -
  have slugs: "file_slugs main_ex = [''code/main'', ''code/main/run'']" "file_slugs utils_ex = [''code/utils'', ''code/utils/helper'']"
    by (simp_all add: file_slugs_def main_ex_def utils_ex_def run_ex_def file_ex_def sym_ex_def module_to_slug_def Let_def)
  have hash: "pf_hash main_ex \<noteq> []" "pf_hash utils_ex \<noteq> []"
    by (simp_all add: main_ex_def utils_ex_def file_ex_def)
  have acc: "accepts_all sqlite_get (sqlite_put_node 5) sqlite_code False fresh_ex 5 (code_nodes ingest_ex [main_ex, utils_ex]) sqlite_empty"
  proof (rule fresh_ingest_accepted)
    show "list_all2 makes (code_nodes ingest_ex [main_ex, utils_ex]) (concat (map file_slugs [main_ex, utils_ex]))"
      using hash by (intro code_nodes_make) auto
    show "inj fresh_ex"
      by (rule injI) (simp add: fresh_ex_def)
    show "fresh_ex i \<noteq> [] \<and> \<not> code_slug (fresh_ex i)" for i
      by (simp add: fresh_ex_def code_slug_def is_prefix_def)
  qed (auto simp: slugs sqlite_empty_def dest: code_nodes_id)
  have hashes: "\<And>f. f \<in> set [main_ex, utils_ex] \<Longrightarrow> pf_hash f \<noteq> []"
    using hash by auto
  have shared: "\<And>f g slug. f \<in> set [main_ex, utils_ex] \<Longrightarrow> g \<in> set [main_ex, utils_ex] \<Longrightarrow> slug \<in> set (file_slugs f) \<Longrightarrow>
      slug \<in> set (file_slugs g) \<Longrightarrow> pf_hash f = pf_hash g"
    by (auto simp: slugs)
  have "\<exists>r1 S1. put_all sqlite_get (sqlite_put_node 5) False fresh_ex 5 (code_nodes ingest_ex [main_ex, utils_ex]) (empty_result None) sqlite_empty = (Inr r1, S1) \<and>
    sqlite_inv S1 \<and> put_all sqlite_get (sqlite_put_node 9) False (\<lambda>i. ''z'') 9 (code_nodes ingest_ex [main_ex, utils_ex]) (empty_result None) S1 =
      (Inr ((empty_result None)\<lparr>ig_unchanged := ig_unchanged (empty_result None) @ concat (map file_slugs [main_ex, utils_ex])\<rparr>), S1)"
    using hashes shared by (intro ingest_is_idempotent[OF sqlite_inv_empty _ _ acc]) blast+
  moreover have "ig_unchanged (empty_result None) @ concat (map file_slugs [main_ex, utils_ex]) =
      [''code/main'', ''code/main/run'', ''code/utils'', ''code/utils/helper'']"
    by (simp add: slugs empty_result_def)
  ultimately show ?thesis
    by (simp only:) blast
qed

theorem emitted_links_resolve_witness:
  "\<exists>node\<in>set (code_nodes ingest_ex [main_ex, utils_ex]). \<exists>l\<in>set (nd_links (fst node ''i'' 5)).
     lk_type l = ''related'' \<and> lk_dst_slug l \<in> set (concat (map file_slugs [main_ex, utils_ex]))"
proof -
  let ?R = "resolver_init [main_ex, utils_ex]"
  let ?node = "(module_node ingest_ex ?R main_ex, pf_hash main_ex)" and ?l = "code_link ''code/main'' ''code/utils'' ''related'' 0.5"
  have "rs_modules ?R = {''main'', ''utils''}"
    by (auto simp: resolver_init_def Let_def main_ex_def utils_ex_def file_ex_def)
  then have "import_only_links ?R main_ex = [?l]"
    by (simp add: import_only_links_def main_ex_def file_ex_def module_to_slug_def dedup_def Let_def)
  then have l: "?l \<in> set (nd_links (fst ?node ''i'' 5))"
    by (simp add: module_node_def Let_def)
  have node: "?node \<in> set (code_nodes ingest_ex [main_ex, utils_ex])"
    by (simp add: code_nodes_def file_nodes_def)
  have "lk_type ?l = ''related''"
    by (simp add: code_link_def)
  then show ?thesis
    using emitted_links_resolve[OF node l] node l by blast
qed

end
