(* ===== verification/Api_Base.thy ===== *)
theory Api_Base imports Frontmatter begin

text \<open>
  What every route of \<open>memu/api.py\<close> shares: HTTP errors, the request counters and readiness, the
  API key and the tenant it stands for (\<open>memu/tenancy.py\<close>).

  A route returns \<open>Inl (Http code detail)\<close> where the code raises \<open>HTTPException\<close>; an exception of the
  database driver or of the code itself becomes status 500, a request that fails validation 422,
  both without a modelled detail. The database and its clock, SHA-256 and the text of a float are
  arguments.

  Proved: the counters agree with each other after any sequence of requests, the service is ready
  exactly when its checks are, a request is let in only with the configured key, and all requests
  that are let in act for one tenant once a tenant is cached.
\<close>

section \<open>Errors and texts\<close>

datatype api_error = Http nat json

abbreviation unprocessable :: api_error where "unprocessable \<equiv> Http 422 JNull"
abbreviation server_error :: api_error where "server_error \<equiv> Http 500 JNull"

abbreviation http_error :: "nat \<Rightarrow> string \<Rightarrow> api_error" where
  "http_error code detail \<equiv> Http code (JStr detail)"

text \<open>A column of type \<open>VARCHAR(n)\<close> refuses a longer text; \<open>NULL\<close> fits.\<close>

definition varchar_fits :: "nat \<Rightarrow> string option \<Rightarrow> bool" where
  "varchar_fits n v = (case v of None \<Rightarrow> True | Some s \<Rightarrow> char_len s \<le> n)"

definition json_opt :: "string option \<Rightarrow> json" where
  "json_opt v = (case v of None \<Rightarrow> JNull | Some s \<Rightarrow> JStr s)"

text \<open>SQL \<open>COALESCE(a, b)\<close>.\<close>

definition coalesce :: "'a option \<Rightarrow> 'a option \<Rightarrow> 'a option" where
  "coalesce a b = (case a of None \<Rightarrow> b | Some x \<Rightarrow> Some x)"

lemma coalesce_simps [simp]: "coalesce None b = b" "coalesce (Some x) b = Some x"
  by (simp_all add: coalesce_def)

text \<open>\<open>a || b\<close> on \<open>jsonb\<close> objects: the entries of \<open>b\<close> replace those of \<open>a\<close>.\<close>

definition jsonb_concat :: "payload \<Rightarrow> payload \<Rightarrow> payload" where
  "jsonb_concat a b = fold (\<lambda>(k, v) d. dict_set k v d) b a"

lemma jsonb_concat_Nil [simp]: "jsonb_concat a [] = a"
  by (simp add: jsonb_concat_def)

lemma jsonb_concat_get:
  assumes "distinct (dict_keys b)"
  shows "dict_get (jsonb_concat a b) k = (case dict_get b k of None \<Rightarrow> dict_get a k | Some v \<Rightarrow> Some v)"
  using assms
proof (induction b arbitrary: a)
  case Nil
  then show ?case by (simp add: jsonb_concat_def)
next
  case (Cons e b)
  obtain x v where e: "e = (x, v)" by (cases e)
  have "dict_get b x = None"
    using Cons.prems e by (auto simp: map_of_eq_None_iff)
  then show ?case
    using Cons.IH[of "dict_set x v a"] Cons.prems e
    by (auto simp: jsonb_concat_def update_conv split: option.splits)
qed

text \<open>
  \<open>isoformat()\<close> of an instant in UTC, an instant counting microseconds from 1970-01-01; the
  civil date is that of the proleptic Gregorian calendar, which \<open>datetime\<close> uses.
\<close>

definition civil_date :: "int \<Rightarrow> int \<times> int \<times> int" where
  "civil_date days =
     (let z = days + 719468; era = z div 146097; doe = z mod 146097;
          yoe = (doe - doe div 1460 + doe div 36524 - doe div 146096) div 365;
          doy = doe - (365 * yoe + yoe div 4 - yoe div 100);
          mp = (5 * doy + 2) div 153;
          mon = (if mp < 10 then mp + 3 else mp - 9)
      in (yoe + era * 400 + (if mon \<le> 2 then 1 else 0), mon, doy - (153 * mp + 2) div 5 + 1))"

definition zero_pad :: "nat \<Rightarrow> int \<Rightarrow> string" where
  "zero_pad w i = (let s = show_int i in replicate (w - length s) (CHR ''0'') @ s)"

definition iso_utc :: "time \<Rightarrow> string" where
  "iso_utc t =
     (let days = t div 86400000000; us = t mod 86400000000;
          (y, mon, d) = civil_date days; s = us div 1000000; f = us mod 1000000
      in zero_pad 4 y @ ''-'' @ zero_pad 2 mon @ ''-'' @ zero_pad 2 d @ ''T'' @
         zero_pad 2 (s div 3600) @ '':'' @ zero_pad 2 (s div 60 mod 60) @ '':'' @ zero_pad 2 (s mod 60) @
         (if f = 0 then [] else ''.'' @ zero_pad 6 f) @ ''+00:00'')"

section \<open>Request counters\<close>

record http_metrics =
  mx_total :: nat
  mx_by_class :: "(string, nat) dict"
  mx_errors :: nat
  mx_latency_sum :: real
  mx_latency_count :: nat
  mx_readiness_failures :: nat

definition new_metrics :: http_metrics where
  "new_metrics = \<lparr>mx_total = 0, mx_by_class = [], mx_errors = 0, mx_latency_sum = 0, mx_latency_count = 0,
     mx_readiness_failures = 0\<rparr>"

definition record_http_request :: "nat \<Rightarrow> real \<Rightarrow> http_metrics \<Rightarrow> http_metrics" where
  "record_http_request status elapsed mx =
     (let cls = show_nat (status div 100) @ ''xx'' in
      mx\<lparr>mx_total := mx_total mx + 1,
         mx_by_class := dict_set cls (dict_get_default (mx_by_class mx) cls 0 + 1) (mx_by_class mx),
         mx_errors := mx_errors mx + (if 500 \<le> status then 1 else 0),
         mx_latency_sum := mx_latency_sum mx + elapsed,
         mx_latency_count := mx_latency_count mx + 1\<rparr>)"

text \<open>\<open>fmt6\<close> is the format \<open>.6f\<close> of a float.\<close>

definition render_metrics :: "(real \<Rightarrow> string) \<Rightarrow> http_metrics \<Rightarrow> string" where
  "render_metrics fmt6 mx = join_strings newline (
     [''# TYPE memu_http_requests_total counter'',
      ''memu_http_requests_total '' @ show_nat (mx_total mx),
      ''# TYPE memu_http_requests_by_status_class_total counter''] @
     map (\<lambda>c. ''memu_http_requests_by_status_class_total{status_class=\"'' @ c @ ''\"} '' @
            show_nat (dict_get_default (mx_by_class mx) c 0)) (sort (dict_keys (mx_by_class mx))) @
     [''# TYPE memu_http_request_errors_total counter'',
      ''memu_http_request_errors_total '' @ show_nat (mx_errors mx),
      ''# TYPE memu_http_request_latency_seconds_sum counter'',
      ''memu_http_request_latency_seconds_sum '' @ fmt6 (mx_latency_sum mx),
      ''# TYPE memu_http_request_latency_seconds_count counter'',
      ''memu_http_request_latency_seconds_count '' @ show_nat (mx_latency_count mx),
      ''# TYPE memu_readiness_failures_total counter'',
      ''memu_readiness_failures_total '' @ show_nat (mx_readiness_failures mx)]) @ newline"

text \<open>The middleware: a handler that raises is counted as status 500 and its exception passed on.\<close>

definition metrics_middleware :: "'e + nat \<Rightarrow> real \<Rightarrow> http_metrics \<Rightarrow> ('e + nat) \<times> http_metrics" where
  "metrics_middleware response elapsed mx =
     (response, record_http_request (case response of Inl e \<Rightarrow> 500 | Inr code \<Rightarrow> code) elapsed mx)"

definition shutdown_guard :: "bool \<Rightarrow> ('s \<Rightarrow> nat \<times> 's) \<Rightarrow> 's \<Rightarrow> nat \<times> 's" where
  "shutdown_guard shutting_down call_next s = (if shutting_down then (503, s) else call_next s)"

definition metrics_ok :: "http_metrics \<Rightarrow> bool" where
  "metrics_ok mx \<longleftrightarrow> wf_dict (mx_by_class mx) \<and> mx_total mx = sum_list (dict_values (mx_by_class mx)) \<and>
     mx_latency_count mx = mx_total mx \<and> mx_errors mx \<le> mx_total mx"

lemma sum_dict_bump:
  "wf_dict d \<Longrightarrow> sum_list (dict_values (dict_set k (Suc (dict_get_default d k 0)) d)) = Suc (sum_list (dict_values d))"
proof (induction d)
  case Nil
  then show ?case by (simp add: dict_get_default_def)
next
  case (Cons e d)
  obtain x v where e: "e = (x, v)" by (cases e)
  show ?case
    using Cons e by (auto simp: dict_get_default_def wf_dict_def split: option.splits)
qed

lemma metrics_accounts: "metrics_ok (fold (\<lambda>(code, el). record_http_request code el) rs new_metrics)"
proof -
  have "metrics_ok mx \<Longrightarrow> metrics_ok (record_http_request code el mx)" for mx code el
    by (auto simp: metrics_ok_def record_http_request_def Let_def sum_dict_bump wf_dict_set)
  then have "metrics_ok mx \<Longrightarrow> metrics_ok (fold (\<lambda>(code, el). record_http_request code el) rs mx)" for mx
    by (induction rs arbitrary: mx) (auto split: prod.splits)
  moreover have "metrics_ok new_metrics"
    by (simp add: metrics_ok_def new_metrics_def wf_dict_def)
  ultimately show ?thesis
    by blast
qed

section \<open>Readiness\<close>

text \<open>
  \<open>pool\<close>: no pool, or what \<open>SELECT 1\<close> does (\<open>Inl\<close> the text of the exception). \<open>counts\<close> is the query of
  the migration table: an exception, no row, or the counts of failed and applied migrations.
\<close>

definition check_failed :: "string \<Rightarrow> payload" where
  "check_failed detail = [(''ok'', JBool False), (''detail'', JStr detail)]"

definition database_readiness :: "(string + unit) option \<Rightarrow> payload" where
  "database_readiness pool =
     (case pool of None \<Rightarrow> check_failed ''database pool is not initialized''
      | Some (Inl exc) \<Rightarrow> check_failed exc
      | Some (Inr u) \<Rightarrow> [(''ok'', JBool True)])"

definition migration_readiness ::
    "string option \<Rightarrow> bool \<Rightarrow> bool \<Rightarrow> string + (nat \<times> nat) option \<Rightarrow> payload" where
  "migration_readiness startup_error migrations_ok has_pool counts =
     (if nonempty startup_error then check_failed (the startup_error)
      else if \<not> migrations_ok then check_failed ''migrations have not completed successfully''
      else if \<not> has_pool then check_failed ''database pool is not initialized''
      else case counts of
        Inl exc \<Rightarrow> check_failed exc
      | Inr row \<Rightarrow>
          let (failed, applied) = (case row of None \<Rightarrow> (0, 0) | Some r \<Rightarrow> r)
          in [(''ok'', JBool (failed = 0)), (''failed_count'', JInt (int failed)), (''applied_count'', JInt (int applied))] @
             (if failed = 0 then [] else [(''detail'', JStr (show_nat failed @ '' migration(s) are marked failed''))]))"

definition embedding_readiness :: "bool \<Rightarrow> int \<Rightarrow> payload" where
  "embedding_readiness schema_ok dims =
     (if schema_ok then [(''ok'', JBool True), (''configured_dims'', JInt dims)]
      else [(''ok'', JBool False), (''configured_dims'', JInt dims),
            (''detail'', JStr ''embedding schema does not match configured embedding contract'')])"

text \<open>\<open>cluster\<close>: none, or what \<open>active_connection\<close> does.\<close>

definition nats_startup_readiness :: "bool \<Rightarrow> (string + unit) option \<Rightarrow> payload" where
  "nats_startup_readiness enabled cluster =
     (if \<not> enabled then [(''ok'', JBool True), (''required'', JBool False)]
      else case cluster of
        None \<Rightarrow> [(''ok'', JBool False), (''required'', JBool True), (''detail'', JStr ''startup NATS is enabled but not connected'')]
      | Some (Inl exc) \<Rightarrow> [(''ok'', JBool False), (''required'', JBool True), (''detail'', JStr exc)]
      | Some (Inr u) \<Rightarrow> [(''ok'', JBool True), (''required'', JBool True)])"

definition env_flag :: "string option \<Rightarrow> string \<Rightarrow> bool" where
  "env_flag value_of_name dflt =
     (lower (strip (case value_of_name of None \<Rightarrow> dflt | Some v \<Rightarrow> v)) \<in> {''1'', ''true'', ''yes'', ''on''})"

record readiness_env =
  re_pool :: "(string + unit) option"
  re_startup_error :: "string option"
  re_migrations_ok :: bool
  re_counts :: "string + (nat \<times> nat) option"
  re_schema_ok :: bool
  re_dims :: int
  re_nats_enabled :: bool
  re_cluster :: "(string + unit) option"

definition readiness_checks :: "readiness_env \<Rightarrow> (string \<times> payload) list" where
  "readiness_checks e =
     [(''database'', database_readiness (re_pool e)),
      (''migrations'', migration_readiness (re_startup_error e) (re_migrations_ok e) (re_pool e \<noteq> None) (re_counts e)),
      (''embedding_schema'', embedding_readiness (re_schema_ok e) (re_dims e))] @
     (if re_nats_enabled e then [(''nats_startup'', nats_startup_readiness True (re_cluster e))] else [])"

definition readiness_payload :: "readiness_env \<Rightarrow> http_metrics \<Rightarrow> (nat \<times> payload) \<times> http_metrics" where
  "readiness_payload e mx =
     (let checks = readiness_checks e;
          ready = list_all (\<lambda>(name, check). dict_get check ''ok'' = Some (JBool True)) checks
      in ((if ready then 200 else 503,
           [(''status'', JStr (if ready then ''ready'' else ''not_ready'')), (''version'', JStr ''0.1.0''),
            (''checks'', JObj (map (\<lambda>(name, check). (name, JObj check)) checks))]),
          if ready then mx else mx\<lparr>mx_readiness_failures := mx_readiness_failures mx + 1\<rparr>))"

lemma ready_iff:
  "fst (fst (readiness_payload e mx)) = 200 \<longleftrightarrow>
     re_pool e = Some (Inr ()) \<and> re_migrations_ok e \<and> \<not> nonempty (re_startup_error e) \<and>
     (\<exists>row. re_counts e = Inr row \<and> (case row of None \<Rightarrow> True | Some (failed, applied) \<Rightarrow> failed = 0)) \<and>
     re_schema_ok e \<and> (re_nats_enabled e \<longrightarrow> re_cluster e = Some (Inr ()))"
proof -
  have db: "dict_get (database_readiness p) ''ok'' = Some (JBool True) \<longleftrightarrow> p = Some (Inr ())" for p
    by (auto simp: database_readiness_def check_failed_def split: option.splits sum.splits)
  have mig: "dict_get (migration_readiness se ok hp c) ''ok'' = Some (JBool True) \<longleftrightarrow>
      ok \<and> hp \<and> \<not> nonempty se \<and> (\<exists>row. c = Inr row \<and> (case row of None \<Rightarrow> True | Some (failed, applied) \<Rightarrow> failed = 0))"
    for se ok hp c
    by (cases c) (auto simp: migration_readiness_def check_failed_def split: option.splits)
  have emb: "dict_get (embedding_readiness s d) ''ok'' = Some (JBool True) \<longleftrightarrow> s" for s d
    by (simp add: embedding_readiness_def)
  have nats: "dict_get (nats_startup_readiness True c) ''ok'' = Some (JBool True) \<longleftrightarrow> c = Some (Inr ())" for c
    by (auto simp: nats_startup_readiness_def split: option.splits sum.splits)
  show ?thesis
    by (auto simp: readiness_payload_def readiness_checks_def Let_def db mig emb nats)
qed

section \<open>API key and tenant\<close>

definition DEFAULT_TENANT_ID :: uuid where
  "DEFAULT_TENANT_ID = ''00000000-0000-0000-0000-000000000001''"

text \<open>Rows of the table \<open>api_keys\<close>.\<close>

record api_key_row =
  ak_hash :: string
  ak_tenant :: "uuid option"
  ak_revoked :: "time option"

definition tenant_of_hash :: "api_key_row list \<Rightarrow> string \<Rightarrow> uuid option" where
  "tenant_of_hash keys h =
     (case find (\<lambda>r. ak_hash r = h \<and> ak_revoked r = None) keys of None \<Rightarrow> None | Some r \<Rightarrow> ak_tenant r)"

text \<open>Also returns the process-wide cache. \<open>sha\<close> is the hexadecimal SHA-256.\<close>

definition resolve_tenant_id ::
    "bool \<Rightarrow> (string \<Rightarrow> string) \<Rightarrow> api_key_row list \<Rightarrow> string \<Rightarrow> (string \<rightharpoonup> uuid) \<Rightarrow> uuid \<times> (string \<rightharpoonup> uuid)" where
  "resolve_tenant_id single_tenant sha keys api_key cache =
     (if single_tenant then (DEFAULT_TENANT_ID, cache)
      else case cache api_key of
        Some t \<Rightarrow> (t, cache)
      | None \<Rightarrow>
          (case tenant_of_hash keys (sha api_key) of
             Some t \<Rightarrow> (t, cache(api_key \<mapsto> t))
           | None \<Rightarrow>
               (case tenant_of_hash keys api_key of
                  Some t \<Rightarrow> (t, cache(api_key \<mapsto> t))
                | None \<Rightarrow> (DEFAULT_TENANT_ID, cache))))"

record auth_context =
  au_key :: string
  au_tenant :: uuid

text \<open>\<open>keys\<close> is \<open>None\<close> without a pool. The configured key comes from the environment.\<close>

definition verify_api_key ::
    "string \<Rightarrow> bool \<Rightarrow> (string \<Rightarrow> string) \<Rightarrow> api_key_row list option \<Rightarrow> string option \<Rightarrow> string option \<Rightarrow>
     (string \<rightharpoonup> uuid) \<Rightarrow> (api_error + auth_context) \<times> (string \<rightharpoonup> uuid)" where
  "verify_api_key configured single_tenant sha keys memu_key legacy_key cache =
     (let key = (if nonempty memu_key then memu_key else legacy_key) in
      if \<not> nonempty key \<or> key \<noteq> Some configured then (Inl (http_error 401 ''Invalid API key''), cache)
      else let (tid, cache) = (case keys of None \<Rightarrow> (DEFAULT_TENANT_ID, cache)
                               | Some ks \<Rightarrow> resolve_tenant_id single_tenant sha ks (the key) cache)
           in (Inr \<lparr>au_key = the key, au_tenant = tid\<rparr>, cache))"

text \<open>
  A connection of the pool carries the session setting \<open>app.current_tenant\<close>. The body runs with it
  set to the tenant; afterwards it is reset, unless that statement fails, which is swallowed.
\<close>

definition tenant_connection ::
    "uuid \<Rightarrow> (string \<Rightarrow> 's \<Rightarrow> 'r \<times> 's) \<Rightarrow> bool \<Rightarrow> string \<times> 's \<Rightarrow> 'r \<times> string \<times> 's" where
  "tenant_connection tenant body reset_works conn =
     (let (r, s) = body tenant (snd conn) in (r, if reset_works then [] else tenant, s))"

lemma accepted_key:
  "verify_api_key configured single sha keys memu_key legacy_key cache = (Inr au, cache') \<Longrightarrow>
     au_key au = configured \<and> configured \<noteq> [] \<and> (memu_key = Some configured \<or> legacy_key = Some configured)"
  by (auto simp: verify_api_key_def Let_def split: if_splits prod.splits)

text \<open>
  Every accepted request carries the same key, so once it is cached every caller acts for one
  tenant, whatever the key table says: the table cannot separate callers, and revoking the key
  changes nothing until a restart.
\<close>

lemma cached_tenant_is_everyones:
  assumes "cache configured = Some t"
    and "verify_api_key configured False sha (Some keys) memu_key legacy_key cache = (Inr au, cache')"
  shows "au_tenant au = t \<and> cache' = cache"
  using assms accepted_key[OF assms(2)]
  by (cases au) (auto simp: verify_api_key_def resolve_tenant_id_def Let_def split: if_splits)

text \<open>A revoked key is still let in, and acts for the default tenant.\<close>

lemma revoked_key_gets_default_tenant:
  assumes "configured \<noteq> []" "\<forall>r\<in>set keys. ak_revoked r \<noteq> None" "cache configured = None"
  shows "verify_api_key configured False sha (Some keys) (Some configured) None cache =
    (Inr \<lparr>au_key = configured, au_tenant = DEFAULT_TENANT_ID\<rparr>, cache)"
proof -
  have "tenant_of_hash keys h = None" for h
  proof -
    have "find (\<lambda>r. ak_hash r = h \<and> ak_revoked r = None) keys = None"
      using assms(2) by (auto simp: find_None_iff)
    then show ?thesis by (simp add: tenant_of_hash_def)
  qed
  then show ?thesis
    using assms(1,3) by (cases configured) (simp_all add: verify_api_key_def resolve_tenant_id_def)
qed

end
