(* ===== verification/Gateway_Leases.thy ===== *)
theory Gateway_Leases imports Api_Base begin

text \<open>
  The topic leases of the gateways: the four routes under \<open>/api/v1/gateway-leases\<close> of
  \<open>memu/api.py\<close> over the table \<open>gateway_topic_leases\<close> (migration 013).

  The table is a map from lease keys to rows. A handler gets the instant of the process
  (\<open>datetime.now\<close>), the database's instant (\<open>NOW()\<close>, in the trigger on \<open>updated_at\<close>) and returns its
  response or error, the table, and the events it hands to the publisher. Every handler runs one
  transaction that locks the row it reads, so it is one step of the table; two first
  acquisitions that both find no row are ordered by the primary key, and the loser's error is not
  modelled.

  Proved: an acquired lease keeps its row and refuses every other gateway until the instant it
  was granted to, whatever the others send; the granted time is within a second of the one asked
  for; the version counts the accepted requests since the row was inserted; who holds a lease
  follows the obvious specification, which the three writing operations refine.
\<close>

section \<open>Requests, rows and validation\<close>

record gateway_lease =
  tl_owner :: string
  tl_backup :: "string option"
  tl_expires :: time
  tl_message :: "string option"
  tl_reply :: "string option"
  tl_digest :: "string option"
  tl_state :: payload
  tl_metadata :: payload
  tl_version :: int
  tl_created :: time
  tl_updated :: time

type_synonym lease_table = "string \<rightharpoonup> gateway_lease"

record acquire_request =
  aq_key :: string
  aq_gateway :: string
  aq_backup :: "string option"
  aq_ttl :: int
  aq_message :: "string option"
  aq_digest :: "string option"
  aq_state :: "payload option"
  aq_metadata :: "payload option"

record renew_request =
  rq_key :: string
  rq_gateway :: string
  rq_ttl :: int
  rq_message :: "string option"
  rq_reply :: "string option"
  rq_digest :: "string option"
  rq_state :: "payload option"
  rq_metadata :: "payload option"

record release_request =
  rl_key :: string
  rl_gateway :: string

definition valid_names :: "string \<Rightarrow> string \<Rightarrow> bool" where
  "valid_names key gateway \<longleftrightarrow> char_len key \<in> {1..255} \<and> char_len gateway \<in> {1..128}"

definition valid_acquire :: "acquire_request \<Rightarrow> bool" where
  "valid_acquire req \<longleftrightarrow> valid_names (aq_key req) (aq_gateway req) \<and>
     varchar_fits 128 (aq_backup req) \<and> aq_ttl req \<in> {5..3600}"

definition valid_renew :: "renew_request \<Rightarrow> bool" where
  "valid_renew req \<longleftrightarrow> valid_names (rq_key req) (rq_gateway req) \<and> rq_ttl req \<in> {5..3600}"

text \<open>\<open>now.replace(microsecond=0) + timedelta(seconds=ttl)\<close>.\<close>

definition lease_until :: "time \<Rightarrow> int \<Rightarrow> time" where
  "lease_until now ttl = now - now mod 1000000 + seconds ttl"

definition or_empty :: "payload option \<Rightarrow> payload" where
  "or_empty p = (case p of None \<Rightarrow> [] | Some d \<Rightarrow> d)"

text \<open>\<open>CASE WHEN new = '{}' THEN old ELSE new END\<close>.\<close>

definition state_or :: "payload \<Rightarrow> payload \<Rightarrow> payload" where
  "state_or new old = (if new = [] then old else new)"

text \<open>The event of an action; without a publisher nothing is sent, and a failing one is ignored.\<close>

definition lease_event :: "time \<Rightarrow> string \<Rightarrow> string \<Rightarrow> gateway_lease \<Rightarrow> string \<times> payload" where
  "lease_event now action key l =
     (''swarm.gateway.lease.'' @ action,
      [(''action'', JStr action), (''lease_key'', JStr key), (''owner_gateway'', JStr (tl_owner l)),
       (''backup_gateway'', json_opt (tl_backup l)), (''lease_expires_at'', JStr (iso_utc (tl_expires l))),
       (''version'', JInt (tl_version l)), (''last_message_id'', json_opt (tl_message l)),
       (''last_reply_id'', json_opt (tl_reply l)), (''timestamp'', JStr (iso_utc now))])"

definition publish_lease_event ::
    "bool \<Rightarrow> time \<Rightarrow> string \<Rightarrow> string \<Rightarrow> gateway_lease \<Rightarrow> (string \<times> payload) list" where
  "publish_lease_event publisher now action key l = (if publisher then [lease_event now action key l] else [])"

section \<open>The handlers\<close>

record lease_env =
  le_now :: time
  le_db_now :: time
  le_publisher :: bool

definition inserted_lease :: "lease_env \<Rightarrow> acquire_request \<Rightarrow> gateway_lease" where
  "inserted_lease e req =
     \<lparr>tl_owner = aq_gateway req, tl_backup = aq_backup req, tl_expires = lease_until (le_now e) (aq_ttl req),
      tl_message = aq_message req, tl_reply = None, tl_digest = aq_digest req,
      tl_state = or_empty (aq_state req), tl_metadata = or_empty (aq_metadata req), tl_version = 1,
      tl_created = le_db_now e, tl_updated = le_db_now e\<rparr>"

definition acquired_lease :: "lease_env \<Rightarrow> acquire_request \<Rightarrow> gateway_lease \<Rightarrow> gateway_lease" where
  "acquired_lease e req r =
     r\<lparr>tl_owner := aq_gateway req, tl_backup := coalesce (aq_backup req) (tl_backup r),
       tl_expires := lease_until (le_now e) (aq_ttl req),
       tl_message := coalesce (aq_message req) (tl_message r), tl_digest := coalesce (aq_digest req) (tl_digest r),
       tl_state := state_or (or_empty (aq_state req)) (tl_state r),
       tl_metadata := jsonb_concat (tl_metadata r) (or_empty (aq_metadata req)),
       tl_version := tl_version r + 1, tl_updated := le_db_now e\<rparr>"

definition renewed_lease :: "lease_env \<Rightarrow> renew_request \<Rightarrow> gateway_lease \<Rightarrow> gateway_lease" where
  "renewed_lease e req r =
     r\<lparr>tl_expires := lease_until (le_now e) (rq_ttl req),
       tl_message := coalesce (rq_message req) (tl_message r), tl_reply := coalesce (rq_reply req) (tl_reply r),
       tl_digest := coalesce (rq_digest req) (tl_digest r),
       tl_state := state_or (or_empty (rq_state req)) (tl_state r),
       tl_metadata := jsonb_concat (tl_metadata r) (or_empty (rq_metadata req)),
       tl_version := tl_version r + 1, tl_updated := le_db_now e\<rparr>"

definition held_by_other :: "gateway_lease \<Rightarrow> api_error" where
  "held_by_other r = Http 409 (JObj
     [(''message'', JStr ''Lease is currently held by another gateway''), (''owner_gateway'', JStr (tl_owner r)),
      (''lease_expires_at'', JStr (iso_utc (tl_expires r))), (''version'', JInt (tl_version r))])"

text \<open>An over-long message id is refused by its column, after the check of the holder.\<close>

definition acquire_gateway_lease ::
    "lease_env \<Rightarrow> acquire_request \<Rightarrow> lease_table \<Rightarrow>
     (api_error + string \<times> gateway_lease) \<times> lease_table \<times> (string \<times> payload) list" where
  "acquire_gateway_lease e req T =
     (let answer = (\<lambda>status l.
        if \<not> varchar_fits 255 (aq_message req) then (Inl server_error, T, [])
        else (Inr (status, l), T(aq_key req \<mapsto> l),
              publish_lease_event (le_publisher e) (le_now e) status (aq_key req) l))
      in if \<not> valid_acquire req then (Inl unprocessable, T, [])
      else case T (aq_key req) of
        None \<Rightarrow> answer ''claimed'' (inserted_lease e req)
      | Some r \<Rightarrow>
          if tl_owner r = aq_gateway req then answer ''renewed'' (acquired_lease e req r)
          else if tl_expires r > le_now e then (Inl (held_by_other r), T, [])
          else answer ''stolen'' (acquired_lease e req r))"

definition renew_gateway_lease ::
    "lease_env \<Rightarrow> renew_request \<Rightarrow> lease_table \<Rightarrow>
     (api_error + string \<times> gateway_lease) \<times> lease_table \<times> (string \<times> payload) list" where
  "renew_gateway_lease e req T =
     (let refused = (Inl (http_error 409 ''Lease renew rejected: caller is not current owner''), T, [])
      in if \<not> valid_renew req then (Inl unprocessable, T, [])
      else case T (rq_key req) of
        None \<Rightarrow> refused
      | Some r \<Rightarrow>
          if tl_owner r \<noteq> rq_gateway req then refused
          else if \<not> varchar_fits 255 (rq_message req) \<or> \<not> varchar_fits 255 (rq_reply req) then (Inl server_error, T, [])
          else let l = renewed_lease e req r in
            (Inr (''renewed'', l), T(rq_key req \<mapsto> l),
             publish_lease_event (le_publisher e) (le_now e) ''renewed'' (rq_key req) l))"

definition release_gateway_lease ::
    "lease_env \<Rightarrow> release_request \<Rightarrow> lease_table \<Rightarrow>
     (api_error + string \<times> gateway_lease) \<times> lease_table \<times> (string \<times> payload) list" where
  "release_gateway_lease e req T =
     (let refused = (Inl (http_error 409 ''Lease release rejected: caller is not current owner''), T, [])
      in if \<not> valid_names (rl_key req) (rl_gateway req) then (Inl unprocessable, T, [])
      else case T (rl_key req) of
        None \<Rightarrow> refused
      | Some r \<Rightarrow>
          if tl_owner r \<noteq> rl_gateway req then refused
          else (Inr (''released'', r), T(rl_key req := None),
                publish_lease_event (le_publisher e) (le_now e) ''released'' (rl_key req) r))"

definition get_gateway_lease :: "string \<Rightarrow> lease_table \<Rightarrow> api_error + gateway_lease" where
  "get_gateway_lease key T =
     (case T key of None \<Rightarrow> Inl (http_error 404 ''Lease not found'') | Some r \<Rightarrow> Inr r)"

section \<open>Sequences of requests\<close>

datatype lease_call = Acquire acquire_request | Renew renew_request | Release release_request

fun call_key :: "lease_call \<Rightarrow> string" where
  "call_key (Acquire req) = aq_key req"
| "call_key (Renew req) = rq_key req"
| "call_key (Release req) = rl_key req"

fun call_gateway :: "lease_call \<Rightarrow> string" where
  "call_gateway (Acquire req) = aq_gateway req"
| "call_gateway (Renew req) = rq_gateway req"
| "call_gateway (Release req) = rl_gateway req"

fun lease_step ::
    "lease_env \<times> lease_call \<Rightarrow> lease_table \<Rightarrow>
     (api_error + string \<times> gateway_lease) \<times> lease_table \<times> (string \<times> payload) list" where
  "lease_step (e, Acquire req) T = acquire_gateway_lease e req T"
| "lease_step (e, Renew req) T = renew_gateway_lease e req T"
| "lease_step (e, Release req) T = release_gateway_lease e req T"

fun lease_run :: "(lease_env \<times> lease_call) list \<Rightarrow> lease_table \<Rightarrow>
    (api_error + string \<times> gateway_lease) list \<times> lease_table" where
  "lease_run [] T = ([], T)"
| "lease_run (c # cs) T =
     (let (r, T', out) = lease_step c T; (rs, T'') = lease_run cs T' in (r # rs, T''))"

section \<open>Correctness\<close>

lemma iso_epoch: "iso_utc 1767323045000000 = ''2026-01-02T03:04:05+00:00''"
  by code_simp

lemma lease_until_bounds: "now + seconds (ttl - 1) < lease_until now ttl" "lease_until now ttl \<le> now + seconds ttl"
  unfolding lease_until_def by auto

lemma acquire_Inr:
  assumes "acquire_gateway_lease e req T = (Inr (status, l), T', out)"
  shows "T' = T(aq_key req \<mapsto> l)" "tl_owner l = aq_gateway req" "tl_expires l = lease_until (le_now e) (aq_ttl req)"
    "valid_acquire req"
    "T (aq_key req) = None \<and> tl_version l = 1 \<or> (\<exists>r. T (aq_key req) = Some r \<and> tl_version l = tl_version r + 1 \<and>
       (tl_owner r = aq_gateway req \<or> tl_expires r \<le> le_now e))"
  using assms
  by (auto simp: acquire_gateway_lease_def Let_def inserted_lease_def acquired_lease_def
      split: if_splits option.splits)

lemma acquire_Inl: "acquire_gateway_lease e req T = (Inl err, T', out) \<Longrightarrow> T' = T \<and> out = []"
  by (auto simp: acquire_gateway_lease_def Let_def split: if_splits option.splits)

lemma renew_Inr:
  assumes "renew_gateway_lease e req T = (Inr (status, l), T', out)"
  obtains r where "T (rq_key req) = Some r" "tl_owner r = rq_gateway req" "T' = T(rq_key req \<mapsto> l)"
    "tl_owner l = tl_owner r" "tl_expires l = lease_until (le_now e) (rq_ttl req)" "tl_version l = tl_version r + 1"
  using assms
  by (auto simp: renew_gateway_lease_def Let_def renewed_lease_def split: if_splits option.splits)

lemma renew_Inl: "renew_gateway_lease e req T = (Inl err, T', out) \<Longrightarrow> T' = T \<and> out = []"
  by (auto simp: renew_gateway_lease_def Let_def split: if_splits option.splits)

lemma release_Inr:
  assumes "release_gateway_lease e req T = (Inr (status, l), T', out)"
  shows "T (rl_key req) = Some l" "tl_owner l = rl_gateway req" "T' = T(rl_key req := None)"
  using assms by (auto simp: release_gateway_lease_def Let_def split: if_splits option.splits)

lemma release_Inl: "release_gateway_lease e req T = (Inl err, T', out) \<Longrightarrow> T' = T \<and> out = []"
  by (auto simp: release_gateway_lease_def Let_def split: if_splits option.splits)

lemmas call_results = acquire_Inl renew_Inl release_Inl

lemma lease_step_Inl: "lease_step (e, c) T = (Inl err, T', out) \<Longrightarrow> T' = T \<and> out = []"
  by (cases c) (simp_all add: call_results)

lemma lease_step_other:
  assumes s: "lease_step (e, c) T = (r, T', out)" and k: "call_key c \<noteq> key"
  shows "T' key = T key"
proof (cases r)
  case (Inl err)
  then show ?thesis
    using lease_step_Inl[of e c T err T' out] s by simp
next
  case (Inr p)
  obtain status l where p: "p = (status, l)" by (cases p)
  show "T' key = T key"
  proof (cases c)
    case (Acquire req)
    then show ?thesis using acquire_Inr(1)[of e req T status l T' out] s k Inr p by simp
  next
    case (Renew req)
    then show ?thesis using s k Inr p by (auto elim!: renew_Inr)
  next
    case (Release req)
    then show ?thesis using release_Inr(3)[of e req T status l T' out] s k Inr p by simp
  qed
qed

text \<open>A live lease of another gateway refuses the call and stays as it is.\<close>

lemma live_lease_refuses:
  assumes "T (call_key c) = Some l" "tl_owner l \<noteq> call_gateway c" "le_now e < tl_expires l"
  shows "\<exists>err. lease_step (e, c) T = (Inl err, T, [])"
  using assms
  by (cases c) (auto simp: acquire_gateway_lease_def renew_gateway_lease_def release_gateway_lease_def Let_def)

lemma lease_run_holds:
  assumes "T key = Some l"
    and "\<forall>(e, c)\<in>set cs. le_now e < tl_expires l \<and> (call_key c = key \<longrightarrow> call_gateway c \<noteq> tl_owner l)"
  shows "snd (lease_run cs T) key = Some l \<and>
    list_all2 (\<lambda>(e, c) r. call_key c = key \<longrightarrow> isl r) cs (fst (lease_run cs T))"
  using assms
proof (induction cs arbitrary: T)
  case Nil
  then show ?case by simp
next
  case (Cons ec cs)
  obtain e c where ec: "ec = (e, c)" by (cases ec)
  obtain r T' out where s: "lease_step (e, c) T = (r, T', out)" by (cases "lease_step (e, c) T")
  have "T' key = Some l \<and> (call_key c = key \<longrightarrow> isl r)"
  proof (cases "call_key c = key")
    case True
    then show ?thesis
      using live_lease_refuses[of T c l e] Cons.prems ec s by auto
  next
    case False
    then show ?thesis
      using lease_step_other[OF s] Cons.prems(1) by simp
  qed
  with Cons.IH[of T'] Cons.prems(2) show ?case
    by (simp add: ec s split_beta)
qed

text \<open>
  (C28) Once a gateway has acquired a lease, the row stays exactly as granted and every call of
  another gateway on that key is refused, whatever others send in any order, until the instant
  the lease was granted to; that instant is at most a second before the time asked for.
\<close>

theorem acquired_lease_is_exclusive:
  assumes acq: "acquire_gateway_lease e req T = (Inr (status, l), T1, out)"
    and others: "\<forall>(e', c)\<in>set cs. le_now e' < tl_expires l \<and> (call_key c = aq_key req \<longrightarrow> call_gateway c \<noteq> aq_gateway req)"
  shows "snd (lease_run cs T1) (aq_key req) = Some l \<and>
    list_all2 (\<lambda>(e', c) r. call_key c = aq_key req \<longrightarrow> isl r) cs (fst (lease_run cs T1)) \<and>
    le_now e + seconds (aq_ttl req - 1) < tl_expires l \<and> tl_expires l \<le> le_now e + seconds (aq_ttl req)"
  using lease_run_holds[of T1 "aq_key req" l cs] others acquire_Inr[OF acq] lease_until_bounds by simp

text \<open>The number of calls on a key that were accepted.\<close>

fun accepted_calls :: "string \<Rightarrow> (lease_env \<times> lease_call) list \<Rightarrow> (api_error + 'r) list \<Rightarrow> int" where
  "accepted_calls key ((e, c) # cs) (r # rs) =
     (if call_key c = key \<and> \<not> isl r then 1 else 0) + accepted_calls key cs rs"
| "accepted_calls key cs rs = 0"

definition releases :: "string \<Rightarrow> lease_call \<Rightarrow> bool" where
  "releases key c \<longleftrightarrow> (\<exists>req. c = Release req \<and> rl_key req = key)"

lemma lease_step_version:
  assumes "lease_step (e, c) T = (r, T', out)" "T key = Some l" "\<not> releases key c"
  obtains l' where "T' key = Some l'" "tl_version l' = tl_version l + (if call_key c = key \<and> \<not> isl r then 1 else 0)"
proof (cases "call_key c = key \<and> \<not> isl r")
  case False
  then have "T' key = T key"
    using assms(1) lease_step_other[OF assms(1)] lease_step_Inl[of e c T] by (cases r) auto
  with assms(2) False that[of l] show ?thesis by simp
next
  case True
  then obtain status l' where r: "r = Inr (status, l')" by (cases r) auto
  show ?thesis
  proof (cases c)
    case (Acquire req)
    have "acquire_gateway_lease e req T = (Inr (status, l'), T', out)"
      using assms(1) r Acquire by simp
    from acquire_Inr[OF this] show ?thesis
      using True assms(2) Acquire that[of l'] by auto
  next
    case (Renew req)
    have "renew_gateway_lease e req T = (Inr (status, l'), T', out)"
      using assms(1) r Renew by simp
    then obtain r0 where "T (rq_key req) = Some r0" "T' = T(rq_key req \<mapsto> l')" "tl_version l' = tl_version r0 + 1"
      by (rule renew_Inr)
    then show ?thesis
      using True assms(2) Renew that[of l'] by simp
  next
    case (Release req)
    then show ?thesis using True assms(3) by (simp add: releases_def)
  qed
qed

text \<open>
  While a key is not released, its version counts exactly the accepted calls on it, so a
  reader that sees a version twice has missed no change.
\<close>

theorem version_counts_accepted_calls:
  assumes "T key = Some l" "\<forall>(e, c)\<in>set cs. \<not> releases key c"
  shows "\<exists>l'. snd (lease_run cs T) key = Some l' \<and>
    tl_version l' = tl_version l + accepted_calls key cs (fst (lease_run cs T))"
  using assms
proof (induction cs arbitrary: T l)
  case Nil
  then show ?case by simp
next
  case (Cons ec cs)
  obtain e c where ec: "ec = (e, c)" by (cases ec)
  obtain r T' out where s: "lease_step (e, c) T = (r, T', out)" by (cases "lease_step (e, c) T")
  have "\<not> releases key c"
    using Cons.prems(2) ec by simp
  from lease_step_version[OF s Cons.prems(1) this] obtain l' where
    l': "T' key = Some l'" "tl_version l' = tl_version l + (if call_key c = key \<and> \<not> isl r then 1 else 0)"
    by blast
  have "\<forall>(e, c)\<in>set cs. \<not> releases key c"
    using Cons.prems(2) by simp
  from Cons.IH[of T' l', OF l'(1) this] show ?case
    by (simp add: ec s split_beta l'(2) algebra_simps)
qed

text \<open>
  Who holds a key until when, with nothing else of the rows: taking succeeds when nobody, the
  caller or an expired holder has the key; keeping and giving back are for the holder.
\<close>

type_synonym holders = "string \<rightharpoonup> string \<times> time"

definition spec_take :: "time \<Rightarrow> time \<Rightarrow> string \<Rightarrow> string \<Rightarrow> holders \<Rightarrow> holders option" where
  "spec_take now until key g H =
     (case H key of None \<Rightarrow> Some (H(key \<mapsto> (g, until)))
      | Some (holder, till) \<Rightarrow> if holder = g \<or> till \<le> now then Some (H(key \<mapsto> (g, until))) else None)"

definition spec_keep :: "time \<Rightarrow> string \<Rightarrow> string \<Rightarrow> holders \<Rightarrow> holders option" where
  "spec_keep until key g H =
     (case H key of None \<Rightarrow> None | Some (holder, till) \<Rightarrow> if holder = g then Some (H(key \<mapsto> (g, until))) else None)"

definition spec_give :: "string \<Rightarrow> string \<Rightarrow> holders \<Rightarrow> holders option" where
  "spec_give key g H =
     (case H key of None \<Rightarrow> None | Some (holder, till) \<Rightarrow> if holder = g then Some (H(key := None)) else None)"

fun spec_call :: "lease_env \<times> lease_call \<Rightarrow> holders \<Rightarrow> holders option" where
  "spec_call (e, Acquire req) H = spec_take (le_now e) (lease_until (le_now e) (aq_ttl req)) (aq_key req) (aq_gateway req) H"
| "spec_call (e, Renew req) H = spec_keep (lease_until (le_now e) (rq_ttl req)) (rq_key req) (rq_gateway req) H"
| "spec_call (e, Release req) H = spec_give (rl_key req) (rl_gateway req) H"

fun well_formed_call :: "lease_call \<Rightarrow> bool" where
  "well_formed_call (Acquire req) \<longleftrightarrow> valid_acquire req \<and> varchar_fits 255 (aq_message req)"
| "well_formed_call (Renew req) \<longleftrightarrow> valid_renew req \<and> varchar_fits 255 (rq_message req) \<and> varchar_fits 255 (rq_reply req)"
| "well_formed_call (Release req) \<longleftrightarrow> valid_names (rl_key req) (rl_gateway req)"

definition holders_of :: "lease_table \<Rightarrow> holders" where
  "holders_of T key = map_option (\<lambda>l. (tl_owner l, tl_expires l)) (T key)"

lemma holders_of_upd [simp]:
  "holders_of (T(key \<mapsto> l)) = (holders_of T)(key \<mapsto> (tl_owner l, tl_expires l))"
  "holders_of (T(key := None)) = (holders_of T)(key := None)"
  by (auto simp: holders_of_def)

lemma lease_step_refines:
  assumes "well_formed_call c" "lease_step (e, c) T = (r, T', out)"
  shows "case spec_call (e, c) (holders_of T) of None \<Rightarrow> isl r \<and> T' = T | Some H \<Rightarrow> \<not> isl r \<and> holders_of T' = H"
proof (cases c)
  case (Acquire req)
  then show ?thesis
    using assms by (cases "T (aq_key req)")
      (auto simp: acquire_gateway_lease_def spec_take_def holders_of_def inserted_lease_def acquired_lease_def Let_def
        split: if_splits)
next
  case (Renew req)
  then show ?thesis
    using assms by (cases "T (rq_key req)")
      (auto simp: renew_gateway_lease_def spec_keep_def holders_of_def renewed_lease_def Let_def split: if_splits)
next
  case (Release req)
  then show ?thesis
    using assms by (cases "T (rl_key req)")
      (auto simp: release_gateway_lease_def spec_give_def holders_of_def Let_def split: if_splits)
qed

text \<open>
  A release and a new acquisition start again at version 1, so the version is no fencing token
  across releases; and a lease can be renewed after it expired, as long as nobody took it.
\<close>

definition lease_req :: "string \<Rightarrow> acquire_request" where
  "lease_req g = \<lparr>aq_key = ''k'', aq_gateway = g, aq_backup = None, aq_ttl = 10, aq_message = None, aq_digest = None,
     aq_state = None, aq_metadata = None\<rparr>"

definition lease_env_at :: "int \<Rightarrow> lease_env" where
  "lease_env_at s = \<lparr>le_now = seconds s, le_db_now = seconds s, le_publisher = True\<rparr>"

lemma version_restarts_after_release:
  "map (map_sum id (\<lambda>(status, l). tl_version l)) (fst (lease_run
     [(lease_env_at 0, Acquire (lease_req ''g1'')), (lease_env_at 1, Acquire (lease_req ''g1'')),
      (lease_env_at 2, Release \<lparr>rl_key = ''k'', rl_gateway = ''g1''\<rparr>), (lease_env_at 3, Acquire (lease_req ''g2''))] Map.empty))
   = [Inr 1, Inr 2, Inr 2, Inr 1]"
  by (simp add: lease_env_at_def lease_req_def acquire_gateway_lease_def release_gateway_lease_def valid_acquire_def
      valid_names_def varchar_fits_def inserted_lease_def acquired_lease_def Let_def)

lemma expired_lease_renewed:
  assumes "T (rq_key req) = Some r" "tl_owner r = rq_gateway req" "valid_renew req"
    and "varchar_fits 255 (rq_message req)" "varchar_fits 255 (rq_reply req)"
  shows "\<exists>l T' out. renew_gateway_lease e req T = (Inr (''renewed'', l), T', out) \<and>
    tl_expires l = lease_until (le_now e) (rq_ttl req)"
  using assms by (auto simp: renew_gateway_lease_def Let_def renewed_lease_def)

lemma lease_ex_accepted:
  "acquire_gateway_lease (lease_env_at 0) (lease_req ''g1'') Map.empty =
     (Inr (''claimed'', inserted_lease (lease_env_at 0) (lease_req ''g1'')),
      [''k'' \<mapsto> inserted_lease (lease_env_at 0) (lease_req ''g1'')],
      publish_lease_event True 0 ''claimed'' ''k'' (inserted_lease (lease_env_at 0) (lease_req ''g1'')))"
  by (simp add: acquire_gateway_lease_def lease_req_def lease_env_at_def valid_acquire_def valid_names_def varchar_fits_def Let_def)

theorem acquired_lease_is_exclusive_witness:
  "\<exists>T1 l. snd (lease_run [(lease_env_at 4, Acquire (lease_req ''g2'')), (lease_env_at 9, Release \<lparr>rl_key = ''k'', rl_gateway = ''g2''\<rparr>)] T1) ''k'' = Some l \<and>
     tl_owner l = ''g1'' \<and> tl_expires l = seconds 10"
proof -
  have "tl_expires (inserted_lease (lease_env_at 0) (lease_req ''g1'')) = seconds 10" "tl_owner (inserted_lease (lease_env_at 0) (lease_req ''g1'')) = ''g1''"
    by (simp_all add: inserted_lease_def lease_env_at_def lease_req_def lease_until_def)
  with acquired_lease_is_exclusive[OF lease_ex_accepted,
      of "[(lease_env_at 4, Acquire (lease_req ''g2'')), (lease_env_at 9, Release \<lparr>rl_key = ''k'', rl_gateway = ''g2''\<rparr>)]"]
  show ?thesis
    by (auto simp: lease_env_at_def lease_req_def)
qed

theorem version_counts_accepted_calls_witness:
  "\<exists>l'. snd (lease_run [(lease_env_at 1, Acquire (lease_req ''g1'')), (lease_env_at 2, Acquire (lease_req ''g2''))]
      [''k'' \<mapsto> inserted_lease (lease_env_at 0) (lease_req ''g1'')]) ''k'' = Some l' \<and> tl_version l' = 2"
proof -
  let ?T = "[''k'' \<mapsto> inserted_lease (lease_env_at 0) (lease_req ''g1'')]"
  let ?cs = "[(lease_env_at 1, Acquire (lease_req ''g1'')), (lease_env_at 2, Acquire (lease_req ''g2''))]"
  have "accepted_calls ''k'' ?cs (fst (lease_run ?cs ?T)) = 1"
    by (simp add: lease_env_at_def lease_req_def acquire_gateway_lease_def valid_acquire_def valid_names_def varchar_fits_def
        inserted_lease_def acquired_lease_def lease_until_def Let_def)
  moreover have "tl_version (inserted_lease (lease_env_at 0) (lease_req ''g1'')) = 1"
    by (simp add: inserted_lease_def)
  ultimately show ?thesis
    using version_counts_accepted_calls[of ?T "''k''" "inserted_lease (lease_env_at 0) (lease_req ''g1'')" ?cs]
    by (simp add: releases_def)
qed

end
