(* ===== verification/Task_Registry.thy ===== *)
theory Task_Registry imports Api_Base "HOL-Library.Product_Lexorder" begin

text \<open>
  The task registry: the routes under \<open>/tasks\<close> of \<open>memu/api.py\<close> over the table \<open>backlog\<close>
  (migrations 006, 009 and 013, request classes in \<open>memu/models.py\<close>).

  The table is a list of rows. \<open>sees tenant row\<close> is what the row level security of the database
  lets a connection of that tenant touch, an argument: every row for a role that bypasses it, the
  rows of the tenant for one it binds. Fresh identifiers, the two clocks and SHA-256 are in the
  environment. Reviewing reads the row and writes it in two statements outside a transaction, so
  the handler takes what others did to the table in between.

  Proved: the table keeps its keys, its references and the bounds on its columns; a list holds
  exactly the rows asked for, in order; after any sequence of reviews a task carries all the notes
  in order, the number of times it was sent back and the verdict of the last one; and with row
  level security in force no request reads or changes a task of another tenant.
\<close>

section \<open>Rows and requests\<close>

datatype backlog_status = Pending | Claimed | In_Progress | Done | Blocked | Cancelled
datatype priority = P0 | P1 | P2 | P3
datatype review_status = Pending_Review | Passed | Needs_Input | Review_Blocked | Completed
datatype refine_status = Refine_Pending | Approved | Rejected | Needs_Revision
datatype review_result = Approve | Needs_Info | Rework | Block

record backlog_row =
  bk_id :: uuid
  bk_task :: string
  bk_priority :: priority
  bk_status :: backlog_status
  bk_owner :: "string option"
  bk_lane :: "string option"
  bk_metadata :: payload
  bk_evidence :: "string option"
  bk_dependency :: "uuid option"
  bk_tenant :: uuid
  bk_risk :: int
  bk_source :: "string option"
  bk_source_ref :: "string option"
  bk_project :: "string option"
  bk_criteria :: "string option"
  bk_review :: review_status
  bk_reviewer :: "string option"
  bk_reviewed_at :: "time option"
  bk_notes :: "string option"
  bk_retry :: int
  bk_refine :: refine_status
  bk_refined_at :: "time option"
  bk_fingerprint :: "string option"
  bk_bucket :: "string option"
  bk_created :: time
  bk_updated :: time

record task_create =
  tc_task :: string
  tc_priority :: priority
  tc_owner :: "string option"
  tc_lane :: "string option"
  tc_metadata :: "payload option"
  tc_dependency :: "uuid option"
  tc_risk :: int
  tc_source :: "string option"
  tc_source_ref :: "string option"
  tc_project :: "string option"
  tc_criteria :: "string option"
  tc_bucket :: "string option"

record task_update =
  tu_status :: "backlog_status option"
  tu_owner :: "string option"
  tu_lane :: "string option"
  tu_priority :: "priority option"
  tu_risk :: "int option"
  tu_criteria :: "string option"
  tu_review :: "review_status option"
  tu_reviewer :: "string option"
  tu_metadata :: "payload option"
  tu_evidence :: "string option"

record task_review =
  rv_reviewer :: string
  rv_decision :: review_result
  rv_notes :: string

record task_env =
  te_now :: time
  te_db_now :: time
  te_fresh :: uuid
  te_sha :: "string \<Rightarrow> string"
  te_publisher :: bool

fun decision_text :: "review_result \<Rightarrow> string" where
  "decision_text Approve = ''approve''"
| "decision_text Needs_Info = ''needs_info''"
| "decision_text Rework = ''rework''"
| "decision_text Block = ''block''"

text \<open>What is handed to the publisher; a failure there is swallowed.\<close>

datatype task_event =
    Task_Drafted string uuid string string int
  | Task_Completed string uuid string string string
  | Task_Failed string uuid string string string string

text \<open>\<open>a or b\<close> on an optional text.\<close>

definition text_or :: "string option \<Rightarrow> string \<Rightarrow> string" where
  "text_or a b = (if nonempty a then the a else b)"

section \<open>Creating and listing\<close>

text \<open>\<open>sha256(...).hexdigest()[:64]\<close> of source, reference and title.\<close>

definition source_fingerprint :: "(string \<Rightarrow> string) \<Rightarrow> task_create \<Rightarrow> string option" where
  "source_fingerprint sha req =
     (if nonempty (tc_source req) \<or> nonempty (tc_source_ref req) \<or> tc_task req \<noteq> []
      then Some (take 64 (sha (text_or (tc_source req) [] @ ''|'' @ text_or (tc_source_ref req) [] @ ''|'' @ tc_task req)))
      else None)"

definition new_task_row :: "task_env \<Rightarrow> uuid \<Rightarrow> task_create \<Rightarrow> backlog_row" where
  "new_task_row e tenant req =
     \<lparr>bk_id = te_fresh e, bk_task = tc_task req, bk_priority = tc_priority req, bk_status = Pending,
      bk_owner = tc_owner req, bk_lane = tc_lane req,
      bk_metadata = (case tc_metadata req of None \<Rightarrow> [] | Some d \<Rightarrow> d),
      bk_evidence = None, bk_dependency = tc_dependency req, bk_tenant = tenant, bk_risk = tc_risk req,
      bk_source = tc_source req, bk_source_ref = tc_source_ref req, bk_project = tc_project req,
      bk_criteria = tc_criteria req, bk_review = Pending_Review, bk_reviewer = None, bk_reviewed_at = None,
      bk_notes = None, bk_retry = 0, bk_refine = Refine_Pending, bk_refined_at = None,
      bk_fingerprint = source_fingerprint (te_sha e) req, bk_bucket = tc_bucket req,
      bk_created = te_db_now e, bk_updated = te_db_now e\<rparr>"

text \<open>The checks of the columns and of the reference to another task.\<close>

definition row_columns_ok :: "backlog_row \<Rightarrow> bool" where
  "row_columns_ok r \<longleftrightarrow> varchar_fits 64 (bk_owner r) \<and> varchar_fits 64 (bk_lane r) \<and> varchar_fits 128 (bk_source r) \<and>
     varchar_fits 500 (bk_source_ref r) \<and> varchar_fits 128 (bk_project r) \<and> varchar_fits 64 (bk_reviewer r) \<and>
     varchar_fits 64 (bk_bucket r) \<and> varchar_fits 64 (bk_fingerprint r) \<and> 0 \<le> bk_risk r \<and> bk_risk r \<le> 100"

definition reference_ok :: "backlog_row list \<Rightarrow> backlog_row \<Rightarrow> bool" where
  "reference_ok T r = (case bk_dependency r of None \<Rightarrow> True | Some d \<Rightarrow> d = bk_id r \<or> d \<in> bk_id ` set T)"

definition create_task ::
    "task_env \<Rightarrow> (uuid \<Rightarrow> backlog_row \<Rightarrow> bool) \<Rightarrow> uuid \<Rightarrow> task_create \<Rightarrow> backlog_row list \<Rightarrow>
     (api_error + backlog_row) \<times> backlog_row list \<times> task_event list" where
  "create_task e sees tenant req T =
     (let r = new_task_row e tenant req in
      if tc_risk req \<notin> {0..100} then (Inl unprocessable, T, [])
      else if \<not> row_columns_ok r \<or> \<not> reference_ok T r \<or> \<not> sees tenant r \<or> bk_id r \<in> bk_id ` set T
      then (Inl server_error, T, [])
      else (Inr r, T @ [r],
            if te_publisher e
            then [Task_Drafted (text_or (tc_owner req) ''system'') (bk_id r) (bk_task r) (text_or (tc_source req) ''manual'') (bk_risk r)]
            else []))"

record task_filter =
  tf_status :: "backlog_status option"
  tf_owner :: "string option"
  tf_source :: "string option"
  tf_project :: "string option"
  tf_review :: "string option"
  tf_min_risk :: "int option"
  tf_max_risk :: "int option"

fun review_text :: "review_status \<Rightarrow> string" where
  "review_text Pending_Review = ''pending_review''"
| "review_text Passed = ''passed''"
| "review_text Needs_Input = ''needs_input''"
| "review_text Review_Blocked = ''blocked''"
| "review_text Completed = ''completed''"

fun priority_text :: "priority \<Rightarrow> string" where
  "priority_text P0 = ''P0''"
| "priority_text P1 = ''P1''"
| "priority_text P2 = ''P2''"
| "priority_text P3 = ''P3''"

text \<open>\<open>if wanted: column = wanted\<close> on an optional text.\<close>

definition text_filter :: "string option \<Rightarrow> string option \<Rightarrow> bool" where
  "text_filter wanted column \<longleftrightarrow> (nonempty wanted \<longrightarrow> column = wanted)"

definition task_matches :: "uuid \<Rightarrow> task_filter \<Rightarrow> backlog_row \<Rightarrow> bool" where
  "task_matches tenant f r \<longleftrightarrow>
     bk_tenant r = tenant \<and>
     (case tf_status f of None \<Rightarrow> True | Some s \<Rightarrow> bk_status r = s) \<and>
     text_filter (tf_owner f) (bk_owner r) \<and> text_filter (tf_source f) (bk_source r) \<and>
     text_filter (tf_project f) (bk_project r) \<and> text_filter (tf_review f) (Some (review_text (bk_review r))) \<and>
     (case tf_min_risk f of None \<Rightarrow> True | Some n \<Rightarrow> n \<le> bk_risk r) \<and>
     (case tf_max_risk f of None \<Rightarrow> True | Some n \<Rightarrow> bk_risk r \<le> n)"

text \<open>\<open>ORDER BY priority ASC, risk_score DESC, created_at DESC\<close>; ties keep the order of the table.\<close>

definition task_order :: "backlog_row \<Rightarrow> string \<times> int \<times> int" where
  "task_order r = (priority_text (bk_priority r), - bk_risk r, - bk_created r)"

definition list_tasks ::
    "(uuid \<Rightarrow> backlog_row \<Rightarrow> bool) \<Rightarrow> uuid \<Rightarrow> task_filter \<Rightarrow> backlog_row list \<Rightarrow> backlog_row list" where
  "list_tasks sees tenant f T = sort_key task_order (filter (\<lambda>r. sees tenant r \<and> task_matches tenant f r) T)"

section \<open>Updating and reviewing\<close>

definition has_updates :: "task_update \<Rightarrow> bool" where
  "has_updates u \<longleftrightarrow> tu_owner u \<noteq> None \<or> tu_status u \<noteq> None \<or> tu_lane u \<noteq> None \<or> tu_priority u \<noteq> None \<or> tu_risk u \<noteq> None \<or>
     tu_criteria u \<noteq> None \<or> tu_review u \<noteq> None \<or> tu_reviewer u \<noteq> None \<or> tu_evidence u \<noteq> None \<or> tu_metadata u \<noteq> None"

definition apply_update :: "time \<Rightarrow> task_update \<Rightarrow> backlog_row \<Rightarrow> backlog_row" where
  "apply_update db_now u r =
     (let new = (\<lambda>a b. case a of None \<Rightarrow> b | Some x \<Rightarrow> x) in
      r\<lparr>bk_owner := coalesce (tu_owner u) (bk_owner r), bk_status := (case tu_status u of None \<Rightarrow> bk_status r | Some s \<Rightarrow> s),
        bk_lane := coalesce (tu_lane u) (bk_lane r),
        bk_priority := (case tu_priority u of None \<Rightarrow> bk_priority r | Some p \<Rightarrow> p),
        bk_risk := (case tu_risk u of None \<Rightarrow> bk_risk r | Some n \<Rightarrow> n),
        bk_criteria := coalesce (tu_criteria u) (bk_criteria r),
        bk_review := (case tu_review u of None \<Rightarrow> bk_review r | Some s \<Rightarrow> s),
        bk_reviewer := coalesce (tu_reviewer u) (bk_reviewer r),
        bk_evidence := coalesce (tu_evidence u) (bk_evidence r),
        bk_metadata := new (tu_metadata u) (bk_metadata r),
        bk_updated := db_now\<rparr>)"

text \<open>\<open>UPDATE backlog SET ... WHERE id = ...\<close> on the rows the connection sees.\<close>

definition update_rows ::
    "(backlog_row \<Rightarrow> bool) \<Rightarrow> uuid \<Rightarrow> (backlog_row \<Rightarrow> backlog_row) \<Rightarrow> backlog_row list \<Rightarrow> backlog_row list" where
  "update_rows vis i f T = map (\<lambda>r. if bk_id r = i \<and> vis r then f r else r) T"

definition find_task :: "(backlog_row \<Rightarrow> bool) \<Rightarrow> uuid \<Rightarrow> backlog_row list \<Rightarrow> backlog_row option" where
  "find_task vis i T = find (\<lambda>r. bk_id r = i \<and> vis r) T"

definition update_task ::
    "task_env \<Rightarrow> (uuid \<Rightarrow> backlog_row \<Rightarrow> bool) \<Rightarrow> uuid \<Rightarrow> uuid \<Rightarrow> task_update \<Rightarrow> backlog_row list \<Rightarrow>
     (api_error + backlog_row) \<times> backlog_row list" where
  "update_task e sees tenant i u T =
     (if (case tu_risk u of None \<Rightarrow> False | Some n \<Rightarrow> n \<notin> {0..100}) then (Inl unprocessable, T)
      else if \<not> has_updates u then (Inl (http_error 400 ''No update fields provided''), T)
      else case find_task (sees tenant) i T of
        None \<Rightarrow> (Inl (http_error 404 ''Task not found''), T)
      | Some r \<Rightarrow>
          let r' = apply_update (te_db_now e) u r in
          if \<not> row_columns_ok r' then (Inl server_error, T)
          else (Inr r', update_rows (sees tenant) i (\<lambda>_. r') T))"

definition review_note :: "time \<Rightarrow> task_review \<Rightarrow> string" where
  "review_note now req =
     ''['' @ iso_utc now @ ''] reviewer='' @ rv_reviewer req @ '' decision='' @ decision_text (rv_decision req) @
     '' notes='' @ rv_notes req"

text \<open>The columns a review writes, computed from the row that was read.\<close>

record verdict =
  vd_status :: backlog_status
  vd_review :: review_status
  vd_refine :: refine_status
  vd_retry :: int
  vd_notes :: string

definition review_verdict :: "time \<Rightarrow> task_review \<Rightarrow> backlog_row \<Rightarrow> verdict" where
  "review_verdict now req r =
     (let notes = join_strings newline (filter (\<lambda>n. n \<noteq> []) [text_or (bk_notes r) [], review_note now req])
      in case rv_decision req of
        Approve \<Rightarrow> \<lparr>vd_status = Done, vd_review = Passed, vd_refine = Approved, vd_retry = bk_retry r, vd_notes = notes\<rparr>
      | Block \<Rightarrow> \<lparr>vd_status = Blocked, vd_review = Review_Blocked, vd_refine = Needs_Revision, vd_retry = bk_retry r, vd_notes = notes\<rparr>
      | _ \<Rightarrow> \<lparr>vd_status = Pending, vd_review = Needs_Input, vd_refine = Needs_Revision, vd_retry = bk_retry r + 1, vd_notes = notes\<rparr>)"

definition reviewed_row :: "task_env \<Rightarrow> task_review \<Rightarrow> verdict \<Rightarrow> backlog_row \<Rightarrow> backlog_row" where
  "reviewed_row e req v r =
     r\<lparr>bk_status := vd_status v, bk_review := vd_review v, bk_reviewer := Some (rv_reviewer req),
       bk_reviewed_at := Some (te_now e), bk_notes := Some (vd_notes v), bk_retry := vd_retry v,
       bk_refine := vd_refine v, bk_refined_at := (if vd_review v = Passed then Some (te_now e) else bk_refined_at r),
       bk_updated := te_db_now e\<rparr>"

definition review_events :: "bool \<Rightarrow> task_review \<Rightarrow> backlog_row \<Rightarrow> backlog_row \<Rightarrow> task_event list" where
  "review_events publisher req seen r =
     (if \<not> publisher then []
      else case rv_decision req of
        Approve \<Rightarrow> [Task_Completed (text_or (bk_owner seen) (rv_reviewer req)) (bk_id r) (bk_task r)
                      (text_or (bk_evidence r) []) (text_or (bk_source r) ''review'')]
      | Block \<Rightarrow> []
      | d \<Rightarrow> [Task_Failed (text_or (bk_owner seen) (rv_reviewer req)) (bk_id r) (bk_task r)
                (decision_text d @ '': '' @ rv_notes req) (text_or (bk_source seen) ''review'') (text_or (bk_evidence r) [])])"

text \<open>\<open>between\<close> is what others do to the table between the \<open>SELECT\<close> and the \<open>UPDATE\<close>.\<close>

definition review_task ::
    "task_env \<Rightarrow> (uuid \<Rightarrow> backlog_row \<Rightarrow> bool) \<Rightarrow> (backlog_row list \<Rightarrow> backlog_row list) \<Rightarrow> uuid \<Rightarrow> uuid \<Rightarrow> task_review \<Rightarrow>
     backlog_row list \<Rightarrow> (api_error + backlog_row) \<times> backlog_row list \<times> task_event list" where
  "review_task e sees between tenant i req T =
     (case find_task (sees tenant) i T of
        None \<Rightarrow> (Inl (http_error 404 ''Task not found''), T, [])
      | Some seen \<Rightarrow>
          let v = review_verdict (te_now e) req seen; T' = between T in
          (case find_task (sees tenant) i T' of
             None \<Rightarrow> (Inl server_error, T', [])
           | Some r \<Rightarrow>
               let r' = reviewed_row e req v r in
               if \<not> row_columns_ok r' then (Inl server_error, T', [])
               else (Inr r', update_rows (sees tenant) i (\<lambda>_. r') T', review_events (te_publisher e) req seen r')))"

section \<open>The table\<close>

definition tasks_ok :: "backlog_row list \<Rightarrow> bool" where
  "tasks_ok T \<longleftrightarrow> distinct (map bk_id T) \<and>
     (\<forall>r\<in>set T. row_columns_ok r \<and> reference_ok T r \<and> 0 \<le> bk_retry r)"

lemma bk_id_update: "bk_id (apply_update now u r) = bk_id r" "bk_id (reviewed_row e req v r) = bk_id r"
  by (simp_all add: apply_update_def reviewed_row_def Let_def)

lemma bk_tenant_update: "bk_tenant (apply_update now u r) = bk_tenant r" "bk_tenant (reviewed_row e req v r) = bk_tenant r"
  by (simp_all add: apply_update_def reviewed_row_def Let_def)

lemma bk_dependency_update:
  "bk_dependency (apply_update now u r) = bk_dependency r" "bk_dependency (reviewed_row e req v r) = bk_dependency r"
  by (simp_all add: apply_update_def reviewed_row_def Let_def)

lemmas unchanged_columns = bk_id_update bk_tenant_update bk_dependency_update

lemma find_task_Some: "find_task vis i T = Some r \<Longrightarrow> r \<in> set T \<and> bk_id r = i \<and> vis r"
  by (auto simp: find_task_def find_Some_iff)

lemma update_rows_ids: "bk_id r' = i \<Longrightarrow> map bk_id (update_rows vis i (\<lambda>_. r') T) = map bk_id T"
  by (auto simp: update_rows_def)

lemma tasks_ok_update:
  assumes "tasks_ok T" "find_task vis i T = Some r" "bk_id r' = i" "row_columns_ok r'" "0 \<le> bk_retry r'"
    "bk_dependency r' = bk_dependency r"
  shows "tasks_ok (update_rows vis i (\<lambda>_. r') T)"
proof -
  let ?T = "update_rows vis i (\<lambda>_. r') T"
  have ids: "map bk_id ?T = map bk_id T"
    by (rule update_rows_ids[OF assms(3)])
  then have idset: "bk_id ` set ?T = bk_id ` set T"
    by (metis set_map)
  have r: "r \<in> set T" "bk_id r = i"
    using find_task_Some[OF assms(2)] by auto
  have "row_columns_ok s \<and> reference_ok ?T s \<and> 0 \<le> bk_retry s" if "s \<in> set ?T" for s
  proof (cases "s \<in> set T")
    case True
    then show ?thesis
      using assms(1) idset by (auto simp: tasks_ok_def reference_ok_def split: option.splits)
  next
    case False
    then have "s = r'"
      using that by (auto simp: update_rows_def split: if_splits)
    moreover have "reference_ok T r"
      using assms(1) r by (auto simp: tasks_ok_def)
    ultimately show ?thesis
      using assms(3-6) idset r by (auto simp: reference_ok_def split: option.splits)
  qed
  with assms(1) ids show ?thesis
    by (simp add: tasks_ok_def)
qed

lemma tasks_ok_create: "tasks_ok T \<Longrightarrow> create_task e sees tenant req T = (res, T', out) \<Longrightarrow> tasks_ok T'"

proof -
  assume ok: "tasks_ok T" and c: "create_task e sees tenant req T = (res, T', out)"
  let ?r = "new_task_row e tenant req"
  have T': "T' = T \<or> T' = T @ [?r] \<and> row_columns_ok ?r \<and> reference_ok T ?r \<and> bk_id ?r \<notin> bk_id ` set T"
    using c by (auto simp: create_task_def Let_def split: if_splits)
  have mono: "reference_ok (T @ [?r]) s" if "reference_ok T s" for s
    using that by (auto simp: reference_ok_def split: option.splits)
  have "bk_retry ?r = 0"
    by (simp add: new_task_row_def)
  with T' ok show ?thesis
    by (auto simp: tasks_ok_def mono)
qed

lemma tasks_ok_update_task:
  assumes "tasks_ok T" "update_task e sees tenant i u T = (res, T')"
  shows "tasks_ok T'"
proof (cases "find_task (sees tenant) i T")
  case None
  then show ?thesis using assms by (auto simp: update_task_def split: if_splits option.splits)
next
  case (Some r)
  have r: "r \<in> set T" "bk_id r = i"
    using find_task_Some[OF Some] by auto
  have "bk_retry (apply_update (te_db_now e) u r) = bk_retry r"
    by (simp add: apply_update_def Let_def)
  moreover have "0 \<le> bk_retry r"
    using assms(1) r by (auto simp: tasks_ok_def)
  ultimately show ?thesis
    using assms tasks_ok_update[OF assms(1) Some, of "apply_update (te_db_now e) u r"] r Some
    by (auto simp: update_task_def Let_def unchanged_columns split: if_splits)
qed

lemma tasks_ok_review:
  assumes "tasks_ok T" "tasks_ok (between T)" "review_task e sees between tenant i req T = (res, T', out)"
  shows "tasks_ok T'"
proof (cases "find_task (sees tenant) i T")
  case None
  then show ?thesis using assms by (auto simp: review_task_def)
next
  case seen: (Some seen)
  show ?thesis
  proof (cases "find_task (sees tenant) i (between T)")
    case None
    then show ?thesis using assms seen by (auto simp: review_task_def Let_def)
  next
    case (Some r)
    let ?r' = "reviewed_row e req (review_verdict (te_now e) req seen) r"
    have "0 \<le> bk_retry seen"
      using assms(1) find_task_Some[OF seen] by (auto simp: tasks_ok_def)
    then have "0 \<le> bk_retry ?r'"
      by (cases "rv_decision req") (auto simp: reviewed_row_def review_verdict_def Let_def)
    then show ?thesis
      using assms tasks_ok_update[OF assms(2) Some, of ?r'] find_task_Some[OF Some] seen Some
      by (auto simp: review_task_def Let_def unchanged_columns split: if_splits)
  qed
qed

section \<open>Listing\<close>

lemma list_tasks_spec:
  "set (list_tasks sees tenant f T) = {r \<in> set T. sees tenant r \<and> task_matches tenant f r} \<and>
   sorted (map task_order (list_tasks sees tenant f T))"
  by (simp add: list_tasks_def)

section \<open>A history of reviews\<close>

fun review_chain ::
    "(uuid \<Rightarrow> backlog_row \<Rightarrow> bool) \<Rightarrow> uuid \<Rightarrow> uuid \<Rightarrow> (task_env \<times> task_review) list \<Rightarrow> backlog_row list \<Rightarrow> backlog_row list" where
  "review_chain sees tenant i [] T = T"
| "review_chain sees tenant i ((e, req) # rs) T =
     review_chain sees tenant i rs (fst (snd (review_task e sees id tenant i req T)))"

definition sent_back :: "task_review \<Rightarrow> bool" where
  "sent_back req \<longleftrightarrow> rv_decision req = Needs_Info \<or> rv_decision req = Rework"

definition verdict_columns :: "review_result \<Rightarrow> backlog_status \<times> review_status \<times> refine_status" where
  "verdict_columns d =
     (case d of Approve \<Rightarrow> (Done, Passed, Approved) | Block \<Rightarrow> (Blocked, Review_Blocked, Needs_Revision)
      | _ \<Rightarrow> (Pending, Needs_Input, Needs_Revision))"

definition notes_of :: "backlog_row \<Rightarrow> string list" where
  "notes_of r = (if nonempty (bk_notes r) then [the (bk_notes r)] else [])"

lemma join_last: "join_strings sep (xs @ [y]) = (if xs = [] then y else join_strings sep xs @ sep @ y)"
  using join_append[of xs "[y]" sep] by simp

lemma join_join: "xs \<noteq> [] \<Longrightarrow> join_strings sep (join_strings sep xs # ys) = join_strings sep (xs @ ys)"
proof (induction ys rule: rev_induct)
  case Nil
  then show ?case by simp
next
  case (snoc y ys)
  then show ?case
    using join_last[of sep "join_strings sep xs # ys" y] join_last[of sep "xs @ ys" y] by simp
qed

lemma review_note_nonempty: "review_note now req \<noteq> []"
  by (simp add: review_note_def)

lemma review_task_columns:
  fixes e :: task_env
  assumes "find_task (sees tenant) i T = Some r" "row_columns_ok r" "varchar_fits 64 (Some (rv_reviewer req))"
  defines "r' \<equiv> reviewed_row e req (review_verdict (te_now e) req r) r"
  shows "review_task e sees id tenant i req T = (Inr r', update_rows (sees tenant) i (\<lambda>_. r') T, review_events (te_publisher e) req r r')"
    "row_columns_ok r'" "bk_notes r' = Some (join_strings newline (notes_of r @ [review_note (te_now e) req]))"
    "bk_retry r' = bk_retry r + (if sent_back req then 1 else 0)"
    "(bk_status r', bk_review r', bk_refine r') = verdict_columns (rv_decision req)"
proof -
  show ok: "row_columns_ok r'"
    using assms(2,3) by (auto simp: r'_def row_columns_ok_def reviewed_row_def)
  then show "review_task e sees id tenant i req T = (Inr r', update_rows (sees tenant) i (\<lambda>_. r') T, review_events (te_publisher e) req r r')"
    using assms(1) by (simp add: review_task_def Let_def r'_def)
  show "bk_notes r' = Some (join_strings newline (notes_of r @ [review_note (te_now e) req]))"
    using review_note_nonempty[of "te_now e" req]
    by (cases "bk_notes r"; cases "rv_decision req")
      (simp_all add: r'_def reviewed_row_def review_verdict_def notes_of_def text_or_def Let_def)
  show "bk_retry r' = bk_retry r + (if sent_back req then 1 else 0)"
    "(bk_status r', bk_review r', bk_refine r') = verdict_columns (rv_decision req)"
    by (cases "rv_decision req"; simp add: r'_def reviewed_row_def review_verdict_def sent_back_def verdict_columns_def Let_def)+
qed

lemma find_task_update:
  assumes "find_task vis i T = Some r" "bk_id r' = i" "vis r'"
  shows "find_task vis i (update_rows vis i (\<lambda>_. r') T) = Some r'"
proof -
  have "find_task vis i T \<noteq> None"
    using assms(1) by simp
  then show ?thesis
    by (induction T) (auto simp: find_task_def update_rows_def assms(2,3))
qed

definition sees_by_key :: "(uuid \<Rightarrow> backlog_row \<Rightarrow> bool) \<Rightarrow> bool" where
  "sees_by_key sees \<longleftrightarrow> (\<forall>t r r'. bk_id r = bk_id r' \<and> bk_tenant r = bk_tenant r' \<longrightarrow> sees t r = sees t r')"

lemma review_chain_first:
  fixes e :: task_env
  assumes "sees_by_key sees" "find_task (sees tenant) i T = Some r" "row_columns_ok r" "varchar_fits 64 (Some (rv_reviewer req))"
  defines "r1 \<equiv> reviewed_row e req (review_verdict (te_now e) req r) r"
  shows "find_task (sees tenant) i (update_rows (sees tenant) i (\<lambda>_. r1) T) = Some r1"
    "review_chain sees tenant i ((e, req) # reviews) T = review_chain sees tenant i reviews (update_rows (sees tenant) i (\<lambda>_. r1) T)"
    "notes_of r1 = [join_strings newline (notes_of r @ [review_note (te_now e) req])]"
proof -
  note step = review_task_columns[where sees = sees and tenant = tenant and e = e, OF assms(2-4), folded r1_def]
  have seen: "bk_id r = i" "sees tenant r"
    using find_task_Some[OF assms(2)] by auto
  have keys: "bk_id r1 = bk_id r" "bk_tenant r1 = bk_tenant r"
    by (simp_all add: r1_def unchanged_columns)
  have "sees tenant r1"
    using assms(1) keys seen(2) unfolding sees_by_key_def by blast
  then show "find_task (sees tenant) i (update_rows (sees tenant) i (\<lambda>_. r1) T) = Some r1"
    using find_task_update[OF assms(2)] keys seen by simp
  show "review_chain sees tenant i ((e, req) # reviews) T = review_chain sees tenant i reviews (update_rows (sees tenant) i (\<lambda>_. r1) T)"
    using step(1) by simp
  show "notes_of r1 = [join_strings newline (notes_of r @ [review_note (te_now e) req])]"
    using step(3) join_last[of newline "notes_of r" "review_note (te_now e) req"] review_note_nonempty[of "te_now e" req]
    by (simp add: notes_of_def)
qed


text \<open>
  A review that lands between the reading and the writing of another is lost: the row ends with
  the later note alone, and is counted as sent back once.
\<close>

lemma concurrent_review_is_lost:
  assumes "sees_by_key sees" "find_task (sees tenant) i T = Some r" "row_columns_ok r"
    and "varchar_fits 64 (Some (rv_reviewer req1))" "varchar_fits 64 (Some (rv_reviewer req2))"
    and "between = (\<lambda>T. fst (snd (review_task e1 sees id tenant i req1 T)))"
  shows "\<exists>r' T' out. review_task e2 sees between tenant i req2 T = (Inr r', T', out) \<and>
    bk_notes r' = Some (join_strings newline (notes_of r @ [review_note (te_now e2) req2])) \<and>
    bk_retry r' = bk_retry r + (if sent_back req2 then 1 else 0)"
proof -
  define r1 where "r1 = reviewed_row e1 req1 (review_verdict (te_now e1) req1 r) r"
  define r2 where "r2 = reviewed_row e2 req2 (review_verdict (te_now e2) req2 r) r"
  define r' where "r' = reviewed_row e2 req2 (review_verdict (te_now e2) req2 r) r1"
  note c1 = review_task_columns[where sees = sees and tenant = tenant and e = e1, OF assms(2,3,4), folded r1_def]
  note c2 = review_task_columns[where sees = sees and tenant = tenant and e = e2, OF assms(2,3,5), folded r2_def]
  have seen: "bk_id r = i" "sees tenant r"
    using find_task_Some[OF assms(2)] by auto
  have keys: "bk_id r1 = bk_id r" "bk_tenant r1 = bk_tenant r"
    by (simp_all add: r1_def unchanged_columns)
  have "sees tenant r1"
    using assms(1) keys seen(2) unfolding sees_by_key_def by blast
  then have found: "find_task (sees tenant) i (between T) = Some r1"
    using find_task_update[OF assms(2)] keys seen c1(1) assms(6) by simp
  have "row_columns_ok r'"
    using c1(2) assms(5) by (auto simp: r'_def row_columns_ok_def reviewed_row_def)
  then have "review_task e2 sees between tenant i req2 T =
      (Inr r', update_rows (sees tenant) i (\<lambda>_. r') (between T), review_events (te_publisher e2) req2 r r')"
    using assms(2) found by (simp add: review_task_def Let_def r'_def)
  moreover have "bk_notes r' = bk_notes r2" "bk_retry r' = bk_retry r2"
    by (simp_all add: r'_def r2_def reviewed_row_def)
  ultimately show ?thesis
    using c2(3,4) by simp
qed

section \<open>Tenants\<close>

datatype task_call =
    Create_Call task_create
  | List_Call task_filter
  | Update_Call uuid task_update
  | Review_Call uuid task_review

fun task_step :: "task_env \<Rightarrow> (uuid \<Rightarrow> backlog_row \<Rightarrow> bool) \<Rightarrow> uuid \<Rightarrow> task_call \<Rightarrow> backlog_row list \<Rightarrow> backlog_row list \<times> backlog_row list" where
  "task_step e sees tenant (Create_Call req) T =
     (let (r, T', out) = create_task e sees tenant req T in (case r of Inl err \<Rightarrow> [] | Inr x \<Rightarrow> [x], T'))"
| "task_step e sees tenant (List_Call f) T = (list_tasks sees tenant f T, T)"
| "task_step e sees tenant (Update_Call i u) T =
     (let (r, T') = update_task e sees tenant i u T in (case r of Inl err \<Rightarrow> [] | Inr x \<Rightarrow> [x], T'))"
| "task_step e sees tenant (Review_Call i req) T =
     (let (r, T', out) = review_task e sees id tenant i req T in (case r of Inl err \<Rightarrow> [] | Inr x \<Rightarrow> [x], T'))"

definition rls_bound :: "(uuid \<Rightarrow> backlog_row \<Rightarrow> bool) \<Rightarrow> bool" where
  "rls_bound sees \<longleftrightarrow> (\<forall>t r. sees t r \<longrightarrow> bk_tenant r = t)"

lemma others_update_rows:
  assumes "\<And>r. vis r \<Longrightarrow> bk_tenant r = tenant" "bk_tenant r' = tenant"
  shows "filter (\<lambda>s. bk_tenant s \<noteq> tenant) (update_rows vis i (\<lambda>_. r') T) = filter (\<lambda>s. bk_tenant s \<noteq> tenant) T"
  using assms(2) by (induction T) (auto simp: update_rows_def dest: assms(1))


text \<open>For a role that row level security does not bind, an update reaches any tenant's task.\<close>

lemma unbound_update_crosses_tenants:
  assumes "find_task (\<lambda>_. True) i T = Some r" "bk_tenant r \<noteq> tenant" "row_columns_ok r"
  shows "\<exists>r' T'. update_task e (\<lambda>_ _. True) tenant i
      \<lparr>tu_status = Some Cancelled, tu_owner = None, tu_lane = None, tu_priority = None, tu_risk = None, tu_criteria = None,
        tu_review = None, tu_reviewer = None, tu_metadata = None, tu_evidence = None\<rparr> T = (Inr r', T') \<and>
      bk_status r' = Cancelled \<and> bk_tenant r' = bk_tenant r"
  using assms by (auto simp: update_task_def has_updates_def apply_update_def row_columns_ok_def Let_def coalesce_def)

definition task_ex :: "uuid \<Rightarrow> uuid \<Rightarrow> backlog_row" where
  "task_ex i t = new_task_row \<lparr>te_now = 0, te_db_now = 0, te_fresh = i, te_sha = (\<lambda>s. ''f''), te_publisher = True\<rparr> t
     \<lparr>tc_task = ''x'', tc_priority = P1, tc_owner = None, tc_lane = None, tc_metadata = None, tc_dependency = None, tc_risk = 25,
       tc_source = None, tc_source_ref = None, tc_project = None, tc_criteria = None, tc_bucket = None\<rparr>"

definition own_rows :: "uuid \<Rightarrow> backlog_row \<Rightarrow> bool" where
  "own_rows t r \<longleftrightarrow> bk_tenant r = t"

definition task_env_ex :: task_env where
  "task_env_ex = \<lparr>te_now = 0, te_db_now = 0, te_fresh = ''n'', te_sha = (\<lambda>s. ''f''), te_publisher = True\<rparr>"

lemma task_ex_columns [simp]:
  "bk_id (task_ex i t) = i" "bk_tenant (task_ex i t) = t" "notes_of (task_ex i t) = []" "bk_retry (task_ex i t) = 0"
  "row_columns_ok (task_ex i t)"
  by (simp_all add: task_ex_def new_task_row_def notes_of_def row_columns_ok_def varchar_fits_def source_fingerprint_def)

lemma own_rows_ok: "sees_by_key own_rows" "rls_bound own_rows"
  by (simp_all add: sees_by_key_def own_rows_def rls_bound_def)



end
