(* ===== verification/Memory_Contract.thy ===== *)
theory Memory_Contract imports Prelude begin

text \<open>
  What the writing and the ranking of memories share: the canonical payload of evidence and the
  classification of old rows (\<open>memu/schema_contract.py\<close>), and decay (\<open>memu/decay.py\<close>).

  Scores are reals. \<open>digest\<close> is the hexadecimal SHA-256 of the JSON text of an object with sorted
  keys; a decay rate above one, for which Python's power leaves the reals, is outside the model.

  Proved: the payload hash depends on the canonical fields only; every old row is classified, and
  only evidence is left without a review status; the score of a memory stays between bounds that
  do not depend on its age, falls with age and rises with similarity, accesses and salience.
\<close>

section \<open>The canonical payload\<close>

definition canonical_metadata_fields :: "string list" where
  "canonical_metadata_fields =
     [''task_id'', ''session_id'', ''gateway_id'', ''event_type'', ''event_at'', ''source'', ''source_ref'']"

text \<open>\<open>m.get(field)\<close> that is not \<open>None\<close>.\<close>

definition present :: "payload \<Rightarrow> string \<Rightarrow> json option" where
  "present md k = (case dict_get md k of None \<Rightarrow> None | Some JNull \<Rightarrow> None | Some v \<Rightarrow> Some v)"

definition canonical_payload :: "string \<Rightarrow> string \<Rightarrow> string \<Rightarrow> payload \<Rightarrow> payload" where
  "canonical_payload content memory_type agent_id md =
     [(''content'', JStr (strip content)), (''memory_type'', JStr memory_type), (''agent_id'', JStr agent_id)] @
     concat (map (\<lambda>k. case present md k of None \<Rightarrow> [] | Some v \<Rightarrow> [(k, v)]) canonical_metadata_fields)"

definition compute_canonical_payload_hash ::
    "(payload \<Rightarrow> string) \<Rightarrow> string \<Rightarrow> string \<Rightarrow> string \<Rightarrow> payload \<Rightarrow> string" where
  "compute_canonical_payload_hash digest content memory_type agent_id md =
     take 64 (digest (sort_key fst (canonical_payload content memory_type agent_id md)))"

text \<open>Metadata outside the canonical fields, the transport fields among it, does not reach the hash.\<close>

lemma canonical_payload_hash_cong:
  assumes "\<forall>k\<in>set canonical_metadata_fields. present md k = present md' k" "strip content = strip content'"
  shows "compute_canonical_payload_hash digest content t a md = compute_canonical_payload_hash digest content' t a md'"
proof -
  have "map (\<lambda>k. case present md k of None \<Rightarrow> [] | Some v \<Rightarrow> [(k, v)]) canonical_metadata_fields =
      map (\<lambda>k. case present md' k of None \<Rightarrow> [] | Some v \<Rightarrow> [(k, v)]) canonical_metadata_fields"
    using assms(1) by simp
  then show ?thesis
    using assms(2) by (simp only: compute_canonical_payload_hash_def canonical_payload_def)
qed

lemma transport_field_not_hashed:
  assumes "k \<notin> set canonical_metadata_fields"
  shows "compute_canonical_payload_hash digest content t a (dict_set k v md) = compute_canonical_payload_hash digest content t a md"
proof (rule canonical_payload_hash_cong)
  show "\<forall>j\<in>set canonical_metadata_fields. present (dict_set k v md) j = present md j"
    using assms by (auto simp: present_def update_conv)
qed simp

section \<open>Classifying old rows\<close>

definition LEARNING_MEMORY_TYPES :: "string set" where
  "LEARNING_MEMORY_TYPES = {''lesson'', ''decision'', ''pattern'', ''procedural'', ''fact'', ''reflection'', ''plan'', ''goal''}"

definition EVIDENCE_MEMORY_TYPES :: "string set" where
  "EVIDENCE_MEMORY_TYPES = {''user_action'', ''external'', ''failure''}"

definition UNCERTAIN_MEMORY_TYPES :: "string set" where
  "UNCERTAIN_MEMORY_TYPES = {''observation''}"

definition OPENCLAW_EXECUTION_METADATA_KEYS :: "string set" where
  "OPENCLAW_EXECUTION_METADATA_KEYS = {''task_id'', ''session_id'', ''gateway_id'', ''event_type''}"

definition classify_legacy_row :: "string \<Rightarrow> payload \<Rightarrow> string \<times> string option" where
  "classify_legacy_row memory_type md =
     (if memory_type \<in> LEARNING_MEMORY_TYPES then (''learning'', Some ''legacy'')
      else if memory_type \<in> EVIDENCE_MEMORY_TYPES then (''evidence'', None)
      else if memory_type \<in> UNCERTAIN_MEMORY_TYPES then
        if \<exists>k\<in>OPENCLAW_EXECUTION_METADATA_KEYS. dict_get md k \<noteq> None then (''evidence'', None) else (''learning'', Some ''legacy'')
      else (''learning'', Some ''legacy''))"

lemma classify_legacy_row_iff:
  "fst (classify_legacy_row t md) = ''evidence'' \<longleftrightarrow>
     t \<in> EVIDENCE_MEMORY_TYPES \<or> (t = ''observation'' \<and> (\<exists>k\<in>OPENCLAW_EXECUTION_METADATA_KEYS. dict_get md k \<noteq> None))"
  "snd (classify_legacy_row t md) = (if fst (classify_legacy_row t md) = ''evidence'' then None else Some ''legacy'')"
  by (auto simp: classify_legacy_row_def LEARNING_MEMORY_TYPES_def EVIDENCE_MEMORY_TYPES_def UNCERTAIN_MEMORY_TYPES_def)

section \<open>Decay\<close>

definition compute_effective_decay_rate :: "real \<Rightarrow> real \<Rightarrow> real" where
  "compute_effective_decay_rate base_rate salience = base_rate * (1 - max 0 (min 1 salience))"

text \<open>\<open>x ** y\<close> for \<open>x \<ge> 0\<close>.\<close>

definition py_pow :: "real \<Rightarrow> real \<Rightarrow> real" where
  "py_pow x y = (if y = 0 then 1 else x powr y)"

definition days_between :: "time \<Rightarrow> time \<Rightarrow> real" where
  "days_between now created = max (real_of_int (now - created) / 1000000 / 86400) 0"

definition decay_factor :: "time \<Rightarrow> time \<Rightarrow> real \<Rightarrow> real \<Rightarrow> real \<Rightarrow> real" where
  "decay_factor now created rate min_score salience =
     max (py_pow (1 - compute_effective_decay_rate rate salience) (days_between now created)) min_score"

definition compute_final_score ::
    "time \<Rightarrow> real \<Rightarrow> time \<Rightarrow> nat \<Rightarrow> real \<Rightarrow> real \<Rightarrow> real \<Rightarrow> real \<Rightarrow> real" where
  "compute_final_score now similarity created access_count rate temporal_weight min_score salience =
     (let f = decay_factor now created rate min_score salience;
          access_boost = 1 + ln (real access_count + 1);
          blended = (1 - temporal_weight) * similarity + temporal_weight * f
      in blended * access_boost * f)"

definition should_deduplicate :: "real \<Rightarrow> real \<Rightarrow> bool" where
  "should_deduplicate similarity threshold \<longleftrightarrow> threshold \<le> similarity"

lemma effective_rate_bounds: "0 \<le> rate \<Longrightarrow> compute_effective_decay_rate rate s \<in> {0..rate}"
  by (auto simp: compute_effective_decay_rate_def mult_left_le)

lemma effective_rate_antimono: "0 \<le> rate \<Longrightarrow> s \<le> s' \<Longrightarrow> compute_effective_decay_rate rate s' \<le> compute_effective_decay_rate rate s"
  by (auto simp: compute_effective_decay_rate_def intro!: mult_left_mono)

lemma py_pow_bounds: "0 \<le> x \<Longrightarrow> x \<le> 1 \<Longrightarrow> 0 \<le> y \<Longrightarrow> py_pow x y \<in> {0..1}"
  by (auto simp: py_pow_def powr_le1)

lemma py_pow_mono: "0 \<le> x \<Longrightarrow> x \<le> x' \<Longrightarrow> 0 \<le> y \<Longrightarrow> py_pow x y \<le> py_pow x' y"
  by (auto simp: py_pow_def intro: powr_mono2)

lemma py_pow_antimono:
  assumes "0 \<le> x" "x \<le> 1" "0 \<le> y" "y \<le> y'"
  shows "py_pow x y' \<le> py_pow x y"
proof (cases "x = 0 \<or> y = 0")
  case True
  then show ?thesis
    using assms py_pow_bounds[of x y'] by (auto simp: py_pow_def)
next
  case False
  then have "0 < x" "0 < y" "y' \<noteq> 0" using assms by auto
  then show ?thesis
    using assms by (simp add: py_pow_def powr_mono')
qed

lemma days_between_nonneg [simp]: "0 \<le> days_between now created"
  by (simp add: days_between_def)

lemma days_between_mono: "created' \<le> created \<Longrightarrow> days_between now created \<le> days_between now created'"
  unfolding days_between_def by (intro max.mono divide_right_mono) auto

lemma decay_base:
  assumes "0 \<le> rate" "rate \<le> 1"
  shows "0 \<le> 1 - compute_effective_decay_rate rate s" "1 - compute_effective_decay_rate rate s \<le> 1"
  using effective_rate_bounds[of rate s] assms by auto

lemma decay_factor_bounds:
  assumes "0 \<le> rate" "rate \<le> 1" "0 \<le> min_score" "min_score \<le> 1"
  shows "decay_factor now created rate min_score s \<in> {min_score..1}"
  using py_pow_bounds[OF decay_base[OF assms(1,2)] days_between_nonneg, of s now created] assms(3,4)
  by (auto simp: decay_factor_def)

lemma decay_factor_mono:
  assumes "0 \<le> rate" "rate \<le> 1" "created \<le> created'" "s \<le> s'"
  shows "decay_factor now created rate min_score s \<le> decay_factor now created' rate min_score s'"
proof -
  let ?x = "\<lambda>s. 1 - compute_effective_decay_rate rate s"
  note base = decay_base[OF assms(1,2)]
  have "py_pow (?x s) (days_between now created) \<le> py_pow (?x s) (days_between now created')"
    using py_pow_antimono[OF base days_between_nonneg days_between_mono[OF assms(3)]] .
  also have "\<dots> \<le> py_pow (?x s') (days_between now created')"
    using py_pow_mono[OF base(1), of s "?x s'"] effective_rate_antimono[OF assms(1,4)] by simp
  finally show ?thesis
    by (auto simp: decay_factor_def)
qed

text \<open>
  (C31) For a similarity, a temporal weight and a floor between zero and one, the score of a memory
  lies between the floor's share and the access boost however old it is, and it does not fall when
  the memory is newer, more similar, accessed more often or more salient.
\<close>

theorem final_score_bounded_and_monotone:
  assumes "0 \<le> rate" "rate \<le> 1" "0 \<le> w" "w \<le> 1" "0 \<le> m" "m \<le> 1" "0 \<le> sim" "sim' \<le> 1"
    and "sim \<le> sim'" "created \<le> created'" "n \<le> n'" "s \<le> s'"
  shows "w * m\<^sup>2 \<le> compute_final_score now sim created n rate w m s \<and>
    compute_final_score now sim' created' n' rate w m s' \<le> 1 + ln (real n' + 1) \<and>
    compute_final_score now sim created n rate w m s \<le> compute_final_score now sim' created' n' rate w m s'"
proof -
  define f f' where "f = decay_factor now created rate m s" and "f' = decay_factor now created' rate m s'"
  define b b' where "b = (1 - w) * sim + w * f" and "b' = (1 - w) * sim' + w * f'"
  define a a' where "a = 1 + ln (real n + 1)" and "a' = 1 + ln (real n' + 1)"
  have f: "m \<le> f" "f \<le> 1" "m \<le> f'" "f' \<le> 1" "f \<le> f'"
    using decay_factor_bounds[OF assms(1,2,5,6)] decay_factor_mono[OF assms(1,2,10,12)] by (auto simp: f_def f'_def)
  have a: "1 \<le> a" "a \<le> a'"
    using assms(11) by (auto simp: a_def a'_def)
  have b: "w * m \<le> b" "b \<le> b'"
  proof -
    have "w * m \<le> w * f" "0 \<le> (1 - w) * sim"
      using f assms by (auto intro: mult_left_mono)
    then show "w * m \<le> b" by (simp add: b_def)
    show "b \<le> b'"
      unfolding b_def b'_def using f assms by (intro add_mono mult_left_mono) auto
  qed
  have "b' \<le> (1 - w) * 1 + w * 1"
    unfolding b'_def using f assms by (intro add_mono mult_left_mono) auto
  then have "b' \<le> 1" by simp
  have scores: "compute_final_score now sim created n rate w m s = b * a * f"
    "compute_final_score now sim' created' n' rate w m s' = b' * a' * f'"
    by (simp_all add: compute_final_score_def Let_def f_def f'_def b_def b'_def a_def a'_def)
  have pos: "0 \<le> w * m" "0 \<le> b" "0 \<le> b'" "0 \<le> f" "0 \<le> f'" "0 \<le> a" "0 \<le> a'"
    using assms f a b order_trans[of 0 "w * m" b] mult_nonneg_nonneg[of w m] by auto
  have "(w * m) * 1 * m \<le> b * a * f"
    using f a b pos assms by (intro mult_mono) auto
  moreover have "b' * a' * f' \<le> 1 * a' * 1"
    using f \<open>b' \<le> 1\<close> pos by (intro mult_mono) auto
  moreover have "b * a * f \<le> b' * a' * f'"
    using f a b pos by (intro mult_mono) auto
  ultimately show ?thesis
    unfolding scores by (simp add: a'_def power2_eq_square)
qed

theorem final_score_bounded_and_monotone_witness:
  "(3 / 10) * (1 / 10)\<^sup>2 \<le> compute_final_score 0 (1 / 2) (- seconds 86400) 0 (1 / 100) (3 / 10) (1 / 10) (1 / 2) \<and>
   compute_final_score 0 (1 / 2) (- seconds 86400) 0 (1 / 100) (3 / 10) (1 / 10) (1 / 2) \<le>
     compute_final_score 0 (3 / 4) 0 3 (1 / 100) (3 / 10) (1 / 10) 1"
  using final_score_bounded_and_monotone[of "1 / 100" "3 / 10" "1 / 10" "1 / 2" "3 / 4" "- seconds 86400" 0 0 3 "1 / 2" 1 0]
  by simp

end
