(* ===== verification/Memory_Helpers.thy ===== *)
theory Memory_Helpers imports Api_Base begin

text \<open>
  The pure helpers of the memory routes of \<open>memu/api.py\<close>: lists of superseded identifiers, which
  rows of a result are still current, entity overlap, the rearrangement of results and the
  widening of limits.

  A row is what the code reads of it: metadata is the value the driver delivers, which for a
  \<open>jsonb\<close> column is its text unless a codec is set. \<open>fromiso\<close> is \<open>datetime.fromisoformat\<close> with the
  result in UTC, \<open>None\<close> when it raises. Entities are looked for in ASCII text.

  Proved: identifier lists are distinct and complete; a filtered result holds exactly the current
  rows that no row of the result invalidates, but with metadata as text only the end of validity
  counts; the rearrangement keeps the rows and puts the best fifth first and the next fifth last;
  the limits never fall and never exceed their cap.
\<close>

section \<open>Identifier lists\<close>

text \<open>\<open>str(value)\<close> of the values whose text can be read as a UUID; no other value's can.\<close>

definition uuid_text :: "json \<Rightarrow> string" where
  "uuid_text v = (case v of JStr s \<Rightarrow> s | JInt i \<Rightarrow> show_int i | _ \<Rightarrow> [])"

definition coerce_values :: "json list \<Rightarrow> uuid list" where
  "coerce_values vs = dedup (concat (map (\<lambda>v.
     if v = JNull \<or> v = JStr [] then [] else case uuid_parse (uuid_text v) of None \<Rightarrow> [] | Some u \<Rightarrow> [u]) vs))"

definition coerce_uuid_list :: "json option \<Rightarrow> uuid list" where
  "coerce_uuid_list values =
     (case values of None \<Rightarrow> [] | Some JNull \<Rightarrow> [] | Some (JList vs) \<Rightarrow> coerce_values vs | Some v \<Rightarrow> coerce_values [v])"

definition extract_superseding_targets :: "payload \<Rightarrow> uuid option \<Rightarrow> uuid list \<Rightarrow> uuid list" where
  "extract_superseding_targets md supersedes invalidates =
     dedup ((case supersedes of None \<Rightarrow> [] | Some u \<Rightarrow> [u]) @ invalidates @
       coerce_uuid_list (dict_get md ''supersedes'') @ coerce_uuid_list (dict_get md ''invalidates'') @
       coerce_uuid_list (dict_get md ''invalidated_ids''))"

definition apply_superseding_metadata :: "payload \<Rightarrow> uuid list \<Rightarrow> payload" where
  "apply_superseding_metadata md ids =
     (if ids = [] then md
      else let serialized = map JStr ids in
        dict_set ''invalidates'' (JList serialized)
          (dict_set ''supersedes'' (if length serialized = 1 then hd serialized else JList serialized) md))"

lemma coerce_values_facts: "distinct (coerce_values vs)"
  by (simp add: coerce_values_def dedup_distinct)

lemma coerce_uuid_list_distinct: "distinct (coerce_uuid_list v)"
  by (auto simp: coerce_uuid_list_def coerce_values_facts split: option.splits json.splits)

lemma extract_targets_facts:
  "distinct (extract_superseding_targets md sp iv)"
  "set (extract_superseding_targets md sp iv) = set_option sp \<union> set iv \<union>
     set (coerce_uuid_list (dict_get md ''supersedes'')) \<union> set (coerce_uuid_list (dict_get md ''invalidates'')) \<union>
     set (coerce_uuid_list (dict_get md ''invalidated_ids''))"
  by (auto simp: extract_superseding_targets_def dedup_distinct set_dedup split: option.splits)

section \<open>Which rows are current\<close>

datatype end_value = No_End | End_At time | End_Text string

record result_row =
  rr_id :: "uuid option"
  rr_end :: end_value
  rr_metadata :: json

definition collect_invalidated_ids :: "result_row list \<Rightarrow> uuid set" where
  "collect_invalidated_ids rows = (\<Union>r\<in>set rows. case rr_metadata r of
     JObj md \<Rightarrow> (\<Union>k\<in>{''supersedes'', ''invalidates'', ''invalidated_ids''}. set (coerce_uuid_list (dict_get md k)))
   | _ \<Rightarrow> {})"

text \<open>\<open>_parse_optional_iso\<close>: \<open>Z\<close> is rewritten, the empty text is \<open>None\<close>; the outer option is an exception.\<close>

definition parse_optional_iso :: "(string \<Rightarrow> time option) \<Rightarrow> string \<Rightarrow> time option option" where
  "parse_optional_iso fromiso s =
     (if s = [] then Some None else map_option Some (fromiso (replace_all ''Z'' ''+00:00'' s)))"

definition end_instant :: "(string \<Rightarrow> time option) \<Rightarrow> end_value \<Rightarrow> time option" where
  "end_instant fromiso e =
     (case e of No_End \<Rightarrow> None | End_At t \<Rightarrow> Some t
      | End_Text s \<Rightarrow> (case parse_optional_iso fromiso s of None \<Rightarrow> None | Some t \<Rightarrow> t))"

definition is_current_memory_row :: "(string \<Rightarrow> time option) \<Rightarrow> time \<Rightarrow> result_row \<Rightarrow> bool" where
  "is_current_memory_row fromiso now r \<longleftrightarrow>
     (case end_instant fromiso (rr_end r) of None \<Rightarrow> True | Some t \<Rightarrow> now < t) \<and>
     (case rr_metadata r of
        JObj md \<Rightarrow>
          (case dict_get md ''stale_after'' of
             Some (JStr s) \<Rightarrow> (case parse_optional_iso fromiso s of Some (Some t) \<Rightarrow> now < t | _ \<Rightarrow> True)
           | _ \<Rightarrow> True) \<and>
          \<not> ((case dict_get md ''invalidated_by'' of None \<Rightarrow> False | Some v \<Rightarrow> truthy v) \<and>
             (case dict_get md ''invalidated_at'' of None \<Rightarrow> False | Some v \<Rightarrow> truthy v))
      | _ \<Rightarrow> True)"

definition filter_current_search_rows :: "(string \<Rightarrow> time option) \<Rightarrow> time \<Rightarrow> result_row list \<Rightarrow> result_row list" where
  "filter_current_search_rows fromiso now rows =
     filter (\<lambda>r. \<not> (case rr_id r of None \<Rightarrow> False | Some i \<Rightarrow> i \<in> collect_invalidated_ids rows) \<and>
                 is_current_memory_row fromiso now r) rows"

text \<open>
  Rows as the driver delivers them carry their metadata as text: then nothing a memory says of
  itself or of others is looked at, and a row without an end of validity is always kept.
\<close>

lemma text_metadata_is_ignored:
  assumes "\<forall>r\<in>set rows. (\<exists>s. rr_metadata r = JStr s) \<and> rr_end r = No_End"
  shows "filter_current_search_rows fromiso now rows = rows"
proof -
  have "collect_invalidated_ids rows = {}"
    using assms by (auto simp: collect_invalidated_ids_def split: json.splits)
  then show ?thesis
    using assms by (auto simp: filter_current_search_rows_def is_current_memory_row_def end_instant_def
        intro!: filter_True split: option.splits)
qed

section \<open>Ranking helpers\<close>

definition word_char :: "char \<Rightarrow> bool" where
  "word_char c \<longleftrightarrow> is_letter c \<or> is_digit c \<or> c = CHR ''_''"

definition entity_char :: "char \<Rightarrow> bool" where
  "entity_char c \<longleftrightarrow> word_char c \<or> c = CHR ''-''"

text \<open>
  The longest run of entity characters that ends at a word boundary: after the run a word
  character is followed by none, a dash is not at a boundary and is given back.
\<close>

definition entity_tail :: "string \<Rightarrow> string" where
  "entity_tail s = rev (dropWhile (\<lambda>c. c = CHR ''-'') (rev (takeWhile entity_char s)))"

lemma entity_tail_length: "length (entity_tail s) \<le> length s"
proof -
  have "length (entity_tail s) \<le> length (takeWhile entity_char s)"
    using length_dropWhile_le[of "\<lambda>c. c = CHR ''-''" "rev (takeWhile entity_char s)"] by (simp add: entity_tail_def)
  then show ?thesis
    using length_takeWhile_le[of entity_char s] by linarith
qed

text \<open>\<open>re.findall\<close>: the flag says whether the character before is a word character.\<close>

function find_entities :: "bool \<Rightarrow> string \<Rightarrow> string list" where
  "find_entities after_word [] = []"
| "find_entities after_word (c # s) =
     (if \<not> after_word \<and> is_letter c \<and> ascii_lower c \<noteq> c \<and> 2 \<le> length (entity_tail s)
      then (c # entity_tail s) # find_entities True (drop (length (entity_tail s)) s)
      else find_entities (word_char c) s)"
  by pat_completeness auto
termination by (relation "measure (\<lambda>(b, s). length s)") auto

definition extract_entities :: "string \<Rightarrow> string set" where
  "extract_entities s = lower ` set (find_entities False s)"

definition entity_overlap_score :: "string \<Rightarrow> string \<Rightarrow> real" where
  "entity_overlap_score query content =
     (let q = extract_entities query; c = extract_entities content in
      if q = {} \<or> c = {} then 0 else real (card (q \<inter> c)) / real (card q))"

lemma entity_overlap_bounds: "entity_overlap_score q c \<in> {0..1}"
proof -
  have "card (extract_entities q \<inter> extract_entities c) \<le> card (extract_entities q)"
    by (intro card_mono) (auto simp: extract_entities_def)
  then show ?thesis
    by (auto simp: entity_overlap_score_def Let_def divide_le_eq)
qed

definition rerank_lost_in_middle :: "'a list \<Rightarrow> 'a list" where
  "rerank_lost_in_middle results =
     (let n = length results; top_count = max 1 (n div 5); bottom_count = max 1 (n div 5) in
      if n \<le> 2 \<or> top_count + bottom_count \<ge> n then results
      else take top_count results @ drop (top_count + bottom_count) results @ take bottom_count (drop top_count results))"

lemma rerank_split:
  assumes "k = max 1 (length xs div 5)"
  shows "rerank_lost_in_middle xs =
    (if length xs \<le> 2 \<or> length xs \<le> k + k then xs else take k xs @ drop (k + k) xs @ take k (drop k xs))"
  unfolding rerank_lost_in_middle_def Let_def assms by (rule refl)

lemma rerank_facts:
  assumes "3 \<le> length xs" and k: "k = max 1 (length xs div 5)"
  shows "take k (rerank_lost_in_middle xs) = take k xs"
    "drop (length xs - k) (rerank_lost_in_middle xs) = take k (drop k xs)"
proof -
  have "k + k < length xs"
    using assms by (auto simp: max_def)
  then have "rerank_lost_in_middle xs = take k xs @ drop (k + k) xs @ take k (drop k xs)" "k + k < length xs"
    using assms(1) by (simp_all add: rerank_split[OF k])
  then show "take k (rerank_lost_in_middle xs) = take k xs"
    "drop (length xs - k) (rerank_lost_in_middle xs) = take k (drop k xs)"
    by simp_all
qed

lemma set_rerank [simp]: "set (rerank_lost_in_middle xs) = set xs"
proof -
  have "set xs = set (take a xs) \<union> set (take b (drop a xs)) \<union> set (drop b (drop a xs))" for a b
    by (metis append_take_drop_id set_append sup_assoc)
  from this[of "max 1 (length xs div 5)" "max 1 (length xs div 5)"] show ?thesis
    by (auto simp: rerank_lost_in_middle_def Let_def)
qed

lemma length_rerank [simp]: "length (rerank_lost_in_middle xs) = length xs"
proof -
  define k where "k = max 1 (length xs div 5)"
  show ?thesis
    by (simp add: rerank_split[OF k_def]) linarith
qed

fun doubled_limits :: "nat \<Rightarrow> int \<Rightarrow> int \<Rightarrow> int list" where
  "doubled_limits 0 cap n = []"
| "doubled_limits (Suc k) cap n = min n cap # doubled_limits k cap (min (n * 2) cap)"

definition expansion_schedule :: "int \<Rightarrow> int \<Rightarrow> int list" where
  "expansion_schedule base_limit max_steps =
     doubled_limits (nat (max max_steps 1)) (min 400 (max base_limit 1 * 8)) (max base_limit 1)"

lemma doubled_limits_bounds: "1 \<le> n \<Longrightarrow> 1 \<le> cap \<Longrightarrow> l \<in> set (doubled_limits k cap n) \<Longrightarrow> min n cap \<le> l \<and> l \<le> cap"
proof (induction k cap n rule: doubled_limits.induct)
  case (2 k cap n)
  then show ?case by fastforce
qed simp

lemma expansion_schedule_facts:
  "expansion_schedule b m \<noteq> []" "sorted (expansion_schedule b m)"
  "l \<in> set (expansion_schedule b m) \<Longrightarrow> 1 \<le> l \<and> l \<le> 400"
proof -
  show "expansion_schedule b m \<noteq> []"
    by (cases "nat (max m 1)") (auto simp: expansion_schedule_def)
  have "1 \<le> n \<Longrightarrow> 1 \<le> cap \<Longrightarrow> sorted (doubled_limits k cap n)" for k cap n
  proof (induction k cap n rule: doubled_limits.induct)
    case (2 k cap n)
    have "min n cap \<le> l" if "l \<in> set (doubled_limits k cap (min (n * 2) cap))" for l
      using doubled_limits_bounds[OF _ 2(3) that] 2(2,3) by linarith
    then show ?case
      using 2 by simp
  qed simp
  then show "sorted (expansion_schedule b m)"
    by (simp add: expansion_schedule_def)
  show "1 \<le> l \<and> l \<le> 400" if "l \<in> set (expansion_schedule b m)"
    using doubled_limits_bounds[OF _ _ that[unfolded expansion_schedule_def]] by force
qed

end
