(* ===== verification/Memory_Store.thy ===== *)
theory Memory_Store imports Memory_Helpers Memory_Contract begin

text \<open>
  Writing memories: \<open>create_memory\<close>, its compatibility route, reading one and deleting one
  (\<open>memu/api.py\<close>) over the tables \<open>memories\<close> and \<open>memory_links\<close> (migrations 000, 002, 016 and 020).

  The tables are lists of rows. The environment holds the two clocks, the identifier the database
  generates, the embedding of the content (\<open>None\<close> when the service is down), the similarity of two
  embeddings (one minus the cosine distance), the hash functions, and which rows the connection
  sees. Every statement is committed on its own, as in the code, so a failing statement leaves
  the ones before it in place. Identifiers of a row and of the request are canonical texts.

  Proved: the tables keep their keys and references, the end of validity of a row is never moved
  back and never removed; a write of evidence repeated with its idempotency key returns the first
  row and changes nothing, and with another payload it is refused; a memory that is superseded is
  no longer current.
\<close>

section \<open>Rows and requests\<close>

record mem_row =
  mm_id :: uuid
  mm_content :: string
  mm_embedding :: "real list option"
  mm_type :: string
  mm_kind :: string
  mm_agent :: string
  mm_tenant :: uuid
  mm_metadata :: payload
  mm_parent :: "uuid option"
  mm_confidence :: real
  mm_access :: nat
  mm_salience :: real
  mm_review :: "string option"
  mm_content_hash :: "string option"
  mm_idem :: "string option"
  mm_canonical :: "string option"
  mm_valid_to :: "time option"
  mm_created :: time
  mm_updated :: time

record mem_link =
  mk_source :: uuid
  mk_target :: uuid
  mk_relationship :: string
  mk_strength :: real
  mk_metadata :: payload

record mem_db =
  mb_rows :: "mem_row list"
  mb_links :: "mem_link list"

record relationship =
  rs_entity :: string
  rs_type :: string
  rs_target :: "uuid option"
  rs_strength :: real

record memory_create =
  mq_content :: string
  mq_type :: string
  mq_kind :: string
  mq_agent :: string
  mq_metadata :: "payload option"
  mq_parent :: "uuid option"
  mq_confidence :: real
  mq_relationships :: "relationship list"
  mq_supersedes :: "uuid option"
  mq_invalidates :: "uuid list"
  mq_salience :: real
  mq_roles :: "string list"
  mq_idem :: "string option"

record mem_env =
  me_now :: time
  me_db_now :: time
  me_fresh :: uuid
  me_embed :: "string \<Rightarrow> real list option"
  me_similarity :: "real list \<Rightarrow> real list \<Rightarrow> real"
  me_sha :: "string \<Rightarrow> string"
  me_digest :: "payload \<Rightarrow> string"
  me_threshold :: real
  me_tenant :: uuid
  me_sees :: "mem_row \<Rightarrow> bool"

definition memory_types :: "string set" where
  "memory_types = {''fact'', ''pattern'', ''failure'', ''observation'', ''reflection'', ''plan'', ''goal'', ''decision'',
     ''lesson'', ''user_action'', ''external'', ''procedural''}"

definition valid_memory :: "memory_create \<Rightarrow> bool" where
  "valid_memory req \<longleftrightarrow> mq_type req \<in> memory_types \<and> mq_kind req \<in> {''evidence'', ''learning''} \<and>
     0 \<le> mq_salience req \<and> mq_salience req \<le> 1 \<and> varchar_fits 255 (mq_idem req) \<and>
     (\<forall>r\<in>set (mq_relationships req). 0 \<le> rs_strength r \<and> rs_strength r \<le> 1)"

definition content_digest :: "(string \<Rightarrow> string) \<Rightarrow> string \<Rightarrow> string" where
  "content_digest sha s = take 64 (sha (lower (strip s)))"

section \<open>The normalized request\<close>

definition ensure_memory_metadata :: "time \<Rightarrow> payload option \<Rightarrow> payload" where
  "ensure_memory_metadata now md =
     (let p = (case md of None \<Rightarrow> [] | Some d \<Rightarrow> d) in if dict_get p ''ts'' = None then dict_set ''ts'' (JStr (iso_utc now)) p else p)"

definition normalized_metadata :: "time \<Rightarrow> memory_create \<Rightarrow> payload \<times> uuid list" where
  "normalized_metadata now req =
     (let md = dict_set ''allowed_roles'' (JList (map JStr (if mq_roles req = [] then [''*''] else mq_roles req)))
                 (ensure_memory_metadata now (mq_metadata req));
          ids = extract_superseding_targets md (mq_supersedes req) (mq_invalidates req)
      in (apply_superseding_metadata md ids, ids))"

definition is_evidence :: "memory_create \<Rightarrow> bool" where
  "is_evidence req \<longleftrightarrow> mq_kind req = ''evidence''"

text \<open>\<open>req.idempotency_key or None\<close>.\<close>

definition idem_key :: "memory_create \<Rightarrow> string option" where
  "idem_key req = (if nonempty (mq_idem req) then mq_idem req else None)"

definition canonical_of :: "mem_env \<Rightarrow> memory_create \<Rightarrow> string option" where
  "canonical_of e req =
     (if is_evidence req \<and> idem_key req \<noteq> None
      then Some (compute_canonical_payload_hash (me_digest e) (mq_content req) (mq_type req) (mq_agent req)
                   (fst (normalized_metadata (me_now e) req)))
      else None)"

section \<open>Statements\<close>

definition update_mem :: "(mem_row \<Rightarrow> bool) \<Rightarrow> (mem_row \<Rightarrow> mem_row) \<Rightarrow> mem_row list \<Rightarrow> mem_row list" where
  "update_mem cond f rows = map (\<lambda>r. if cond r then f r else r) rows"

definition find_idem :: "mem_env \<Rightarrow> string \<Rightarrow> mem_row list \<Rightarrow> mem_row option" where
  "find_idem e key rows = find (\<lambda>r. me_sees e r \<and> mm_tenant r = me_tenant e \<and> mm_idem r = Some key) rows"

text \<open>
  The nearest candidate of \<open>ORDER BY similarity DESC LIMIT 1\<close>: \<open>NULL\<close>, the similarity of a row
  without an embedding, sorts before every number. Ties keep the order of the table.
\<close>

definition row_similarity :: "mem_env \<Rightarrow> real list \<Rightarrow> mem_row \<Rightarrow> real option" where
  "row_similarity e v r = map_option (me_similarity e v) (mm_embedding r)"

definition dedup_candidate :: "mem_env \<Rightarrow> string \<Rightarrow> mem_row list \<Rightarrow> (mem_row \<times> real option) option" where
  "dedup_candidate e content rows =
     (let h = content_digest (me_sha e) content in
      case me_embed e content of
        None \<Rightarrow> map_option (\<lambda>r. (r, Some 1)) (find (\<lambda>r. me_sees e r \<and> mm_content_hash r = Some h) rows)
      | Some v \<Rightarrow>
          let cs = filter (\<lambda>r. me_sees e r \<and> (mm_content_hash r = Some h \<or>
                     (case row_similarity e v r of None \<Rightarrow> False | Some s \<Rightarrow> me_threshold e < s))) rows
          in case find (\<lambda>r. row_similarity e v r = None) cs of
               Some r \<Rightarrow> Some (r, None)
             | None \<Rightarrow>
                 (case sort_key (\<lambda>r. - the (row_similarity e v r)) cs of [] \<Rightarrow> None | r # _ \<Rightarrow> Some (r, row_similarity e v r)))"

definition merged_row :: "mem_env \<Rightarrow> memory_create \<Rightarrow> payload \<Rightarrow> mem_row \<Rightarrow> mem_row" where
  "merged_row e req md r =
     r\<lparr>mm_access := mm_access r + 1, mm_confidence := max (mm_confidence r) (mq_confidence req),
       mm_metadata := jsonb_concat (mm_metadata r) md, mm_updated := me_db_now e\<rparr>"

text \<open>The salience of the request is not stored: the column keeps its default.\<close>

definition inserted_mem :: "mem_env \<Rightarrow> memory_create \<Rightarrow> payload \<Rightarrow> mem_row" where
  "inserted_mem e req md =
     \<lparr>mm_id = me_fresh e, mm_content = mq_content req, mm_embedding = me_embed e (mq_content req), mm_type = mq_type req,
      mm_kind = mq_kind req, mm_agent = mq_agent req, mm_tenant = me_tenant e, mm_metadata = md, mm_parent = mq_parent req,
      mm_confidence = mq_confidence req, mm_access = 0, mm_salience = 1 / 2, mm_review = None,
      mm_content_hash = Some (content_digest (me_sha e) (mq_content req)), mm_idem = idem_key req,
      mm_canonical = canonical_of e req, mm_valid_to = None, mm_created = me_db_now e, mm_updated = me_db_now e\<rparr>"

definition metadata_key :: "payload \<Rightarrow> json option" where
  "metadata_key md = (case dict_get md ''idempotency_key'' of None \<Rightarrow> None | Some JNull \<Rightarrow> None | Some v \<Rightarrow> Some v)"

text \<open>
  The constraints an insertion meets: the agent column, the confidence check, the parent, and the
  two unique indexes, on tenant and idempotency key and on the key inside the metadata.
\<close>

definition insert_allowed :: "mem_row \<Rightarrow> mem_row list \<Rightarrow> bool" where
  "insert_allowed r rows \<longleftrightarrow>
     char_len (mm_agent r) \<le> 64 \<and> 0 \<le> mm_confidence r \<and> mm_confidence r \<le> 1 \<and>
     (case mm_parent r of None \<Rightarrow> True | Some p \<Rightarrow> p = mm_id r \<or> p \<in> mm_id ` set rows) \<and> mm_id r \<notin> mm_id ` set rows \<and>
     (mm_idem r \<noteq> None \<longrightarrow> (\<forall>s\<in>set rows. mm_tenant s = mm_tenant r \<longrightarrow> mm_idem s \<noteq> mm_idem r)) \<and>
     (metadata_key (mm_metadata r) \<noteq> None \<longrightarrow> (\<forall>s\<in>set rows. metadata_key (mm_metadata s) \<noteq> metadata_key (mm_metadata r)))"

definition update_allowed :: "mem_row \<Rightarrow> mem_row list \<Rightarrow> bool" where
  "update_allowed r others \<longleftrightarrow> mm_confidence r \<le> 1 \<and>
     (metadata_key (mm_metadata r) \<noteq> None \<longrightarrow> (\<forall>s\<in>set others. metadata_key (mm_metadata s) \<noteq> metadata_key (mm_metadata r)))"

section \<open>Superseding\<close>

definition supersede_row :: "mem_env \<Rightarrow> uuid \<Rightarrow> mem_row \<Rightarrow> mem_row" where
  "supersede_row e new r =
     r\<lparr>mm_valid_to := coalesce (mm_valid_to r) (Some (me_now e)),
       mm_metadata := jsonb_concat (mm_metadata r)
         [(''invalidated_by'', JStr new), (''invalidated_at'', JStr (iso_utc (me_now e)))],
       mm_updated := me_db_now e\<rparr>"

definition supersedes_row :: "mem_env \<Rightarrow> uuid \<Rightarrow> uuid list \<Rightarrow> mem_row \<Rightarrow> bool" where
  "supersedes_row e new ids r \<longleftrightarrow> me_sees e r \<and> mm_id r \<in> set ids \<and> mm_id r \<noteq> new \<and>
     (case mm_valid_to r of None \<Rightarrow> True | Some t \<Rightarrow> me_now e < t)"

definition put_link :: "mem_link \<Rightarrow> (mem_link \<Rightarrow> mem_link) \<Rightarrow> mem_link list \<Rightarrow> mem_link list" where
  "put_link l f ls =
     (let same = (\<lambda>k. (mk_source k, mk_target k, mk_relationship k) = (mk_source l, mk_target l, mk_relationship l)) in
      if \<exists>k\<in>set ls. same k then map (\<lambda>k. if same k then f k else k) ls else ls @ [l])"

definition supersede_link :: "uuid \<Rightarrow> uuid \<Rightarrow> mem_link list \<Rightarrow> mem_link list" where
  "supersede_link new old ls =
     (let l = \<lparr>mk_source = new, mk_target = old, mk_relationship = ''supersedes'', mk_strength = 1, mk_metadata = [(''temporal'', JBool True)]\<rparr> in
      put_link l (\<lambda>k. k\<lparr>mk_strength := max (mk_strength k) 1, mk_metadata := jsonb_concat (mk_metadata k) (mk_metadata l)\<rparr>) ls)"

text \<open>The first statement is committed even when the second meets an identifier without a row.\<close>

definition apply_superseding_operations :: "mem_env \<Rightarrow> uuid \<Rightarrow> uuid list \<Rightarrow> mem_db \<Rightarrow> (api_error + unit) \<times> mem_db" where
  "apply_superseding_operations e new ids db =
     (if ids = [] then (Inr (), db)
      else let db' = db\<lparr>mb_rows := update_mem (supersedes_row e new ids) (supersede_row e new) (mb_rows db)\<rparr>;
               targets = filter (\<lambda>i. i \<noteq> new) ids
           in if \<not> set targets \<subseteq> mm_id ` set (mb_rows db) then (Inl server_error, db')
              else (Inr (), db'\<lparr>mb_links := fold (supersede_link new) targets (mb_links db')\<rparr>))"

section \<open>Relationships\<close>

definition link_relationships :: "string set" where
  "link_relationships = {''similar'', ''extends'', ''contradicts'', ''supersedes'', ''caused_by'', ''related''}"

text \<open>A statement that fails is logged and skipped. A link to itself and one without a row fail.\<close>

definition store_relationship :: "mem_env \<Rightarrow> uuid \<Rightarrow> relationship \<Rightarrow> mem_db \<Rightarrow> mem_db" where
  "store_relationship e new rel db =
     (case rs_target rel of
        Some t \<Rightarrow>
          if t = new \<or> t \<notin> mm_id ` set (mb_rows db) \<or> rs_type rel \<notin> link_relationships then db
          else db\<lparr>mb_links := put_link
                 \<lparr>mk_source = new, mk_target = t, mk_relationship = rs_type rel, mk_strength = rs_strength rel,
                  mk_metadata = [(''entity'', JStr (rs_entity rel))]\<rparr>
                 (\<lambda>k. k\<lparr>mk_strength := min 1 (mk_strength k + 1 / 10)\<rparr>) (mb_links db)\<rparr>
      | None \<Rightarrow>
          db\<lparr>mb_rows := update_mem (\<lambda>r. me_sees e r \<and> mm_id r = new)
               (\<lambda>r. r\<lparr>mm_metadata := jsonb_concat (mm_metadata r)
                    [(''entities'', JList [JObj [(''name'', JStr (rs_entity rel)), (''relationship_type'', JStr (rs_type rel)),
                        (''strength'', JReal (rs_strength rel))]])], mm_updated := me_db_now e\<rparr>) (mb_rows db)\<rparr>)"

section \<open>The routes\<close>

definition idempotency_conflict :: "mem_row \<Rightarrow> api_error" where
  "idempotency_conflict r = Http 409 (JObj
     [(''error'', JStr ''idempotency_conflict''),
      (''message'', JStr ''An Evidence Memory with this idempotency_key already exists but its canonical payload hash differs from this request.''),
      (''existing_id'', JStr (mm_id r))])"

text \<open>The row to return and the rows after the insertion or the merge.\<close>

definition write_row :: "mem_env \<Rightarrow> memory_create \<Rightarrow> payload \<Rightarrow> mem_row list \<Rightarrow> (api_error + mem_row) \<times> mem_row list" where
  "write_row e req md rows =
     (let insert = (let r = inserted_mem e req md in
            if insert_allowed r rows \<and> me_sees e r then (Inr r, rows @ [r]) else (Inl server_error, rows))
      in if is_evidence req then insert
         else case dedup_candidate e (mq_content req) rows of
           None \<Rightarrow> insert
         | Some (old, None) \<Rightarrow> (Inl server_error, rows)
         | Some (old, Some s) \<Rightarrow>
             if \<not> should_deduplicate s (me_threshold e) then insert
             else let r = merged_row e req md old in
               if update_allowed r (filter (\<lambda>k. mm_id k \<noteq> mm_id old) rows)
               then (Inr r, update_mem (\<lambda>k. mm_id k = mm_id old) (merged_row e req md) rows) else (Inl server_error, rows))"

definition finish_write ::
    "mem_env \<Rightarrow> memory_create \<Rightarrow> payload \<Rightarrow> uuid list \<Rightarrow> mem_db \<Rightarrow> (api_error + mem_row) \<times> mem_db" where
  "finish_write e req md ids db =
     (case write_row e req md (mb_rows db) of
        (Inl err, rows) \<Rightarrow> (Inl err, db)
      | (Inr r, rows) \<Rightarrow>
          (case apply_superseding_operations e (mm_id r) (filter (\<lambda>i. i \<noteq> mm_id r) ids) (db\<lparr>mb_rows := rows\<rparr>) of
             (Inl err, db') \<Rightarrow> (Inl err, db')
           | (Inr u, db') \<Rightarrow> (Inr r, fold (store_relationship e (mm_id r)) (mq_relationships req) db')))"

definition write_key :: "memory_create \<Rightarrow> string option" where
  "write_key req = (if is_evidence req then idem_key req else None)"

definition api_create_memory :: "mem_env \<Rightarrow> memory_create \<Rightarrow> mem_db \<Rightarrow> (api_error + mem_row) \<times> mem_db" where
  "api_create_memory e req db =
     (if \<not> valid_memory req then (Inl unprocessable, db)
      else let (md, ids) = normalized_metadata (me_now e) req in
      case (case write_key req of None \<Rightarrow> None | Some key \<Rightarrow> find_idem e key (mb_rows db)) of
        Some r \<Rightarrow> (if mm_canonical r = canonical_of e req then Inr r else Inl (idempotency_conflict r), db)
      | None \<Rightarrow> finish_write e req md ids db)"

record add_response =
  ad_ok :: bool
  ad_id :: "json option"
  ad_error :: "string option"
  ad_message :: json

record add_request =
  ar_content :: "string option"
  ar_text :: "string option"
  ar_agent :: string
  ar_type :: string
  ar_kind :: string
  ar_metadata :: "payload option"
  ar_confidence :: real
  ar_idem :: "string option"

definition memory_of_add :: "add_request \<Rightarrow> memory_create" where
  "memory_of_add req =
     \<lparr>mq_content = the (ar_content req), mq_type = ar_type req, mq_kind = ar_kind req, mq_agent = ar_agent req,
      mq_metadata = ar_metadata req, mq_parent = None, mq_confidence = ar_confidence req, mq_relationships = [],
      mq_supersedes = None, mq_invalidates = [], mq_salience = 1 / 2, mq_roles = [''*''], mq_idem = ar_idem req\<rparr>"

definition memu_add_compat :: "mem_env \<Rightarrow> add_request \<Rightarrow> mem_db \<Rightarrow> (api_error + add_response) \<times> mem_db" where
  "memu_add_compat e req db =
     (let refuse = (\<lambda>code msg. (Inr \<lparr>ad_ok = False, ad_id = None, ad_error = Some code, ad_message = JStr msg\<rparr>, db)) in
      if ar_content req = None \<and> ar_text req \<noteq> None
      then refuse ''INVALID_PAYLOAD'' ''Use 'content' (string) instead of legacy 'text'.''
      else if ar_content req = None \<or> strip (the (ar_content req)) = [] then refuse ''MISSING_CONTENT'' ''Missing required field: content''
      else case api_create_memory e (memory_of_add req) db of
        (Inr r, db') \<Rightarrow> (Inr \<lparr>ad_ok = True, ad_id = Some (JStr (mm_id r)), ad_error = None, ad_message = JStr ''Memory stored''\<rparr>, db')
      | (Inl (Http code detail), db') \<Rightarrow>
          if code \<noteq> 409 then (Inl (Http code detail), db')
          else let d = (case detail of JObj p \<Rightarrow> p | _ \<Rightarrow> []) in
            (Inr \<lparr>ad_ok = False, ad_id = dict_get d ''existing_id'', ad_error = Some ''IDEMPOTENCY_CONFLICT'',
               ad_message = (case dict_get d ''message'' of None \<Rightarrow> JStr ''Idempotency conflict'' | Some m \<Rightarrow> m)\<rparr>, db'))"

definition get_memory :: "mem_env \<Rightarrow> uuid \<Rightarrow> mem_db \<Rightarrow> (api_error + mem_row) \<times> mem_db" where
  "get_memory e i db =
     (let hit = (\<lambda>r. me_sees e r \<and> mm_id r = i); rows = update_mem hit (\<lambda>r. r\<lparr>mm_access := mm_access r + 1, mm_updated := me_db_now e\<rparr>) (mb_rows db)
      in case find hit rows of None \<Rightarrow> (Inl (http_error 404 ''Memory not found''), db) | Some r \<Rightarrow> (Inr r, db\<lparr>mb_rows := rows\<rparr>))"

text \<open>Links of the row go with it, and its children lose their parent.\<close>

definition delete_memory :: "mem_env \<Rightarrow> uuid \<Rightarrow> mem_db \<Rightarrow> (api_error + unit) \<times> mem_db" where
  "delete_memory e i db =
     (if \<not> (\<exists>r\<in>set (mb_rows db). me_sees e r \<and> mm_id r = i) then (Inl (http_error 404 ''Memory not found''), db)
      else (Inr (), \<lparr>mb_rows = map (\<lambda>r. if mm_parent r = Some i then r\<lparr>mm_parent := None\<rparr> else r) (filter (\<lambda>r. mm_id r \<noteq> i) (mb_rows db)),
                     mb_links = filter (\<lambda>k. mk_source k \<noteq> i \<and> mk_target k \<noteq> i) (mb_links db)\<rparr>))"


section \<open>What every write keeps\<close>

text \<open>What identifies a row and never changes; what a connection sees depends on it alone.\<close>

definition ident :: "mem_row \<Rightarrow> uuid \<times> uuid \<times> string option \<times> string option \<times> string \<times> string \<times> time" where
  "ident r = (mm_id r, mm_tenant r, mm_idem r, mm_canonical r, mm_content r, mm_agent r, mm_created r)"

definition sees_ident :: "mem_env \<Rightarrow> bool" where
  "sees_ident e \<longleftrightarrow> (\<forall>r s. ident r = ident s \<longrightarrow> me_sees e r = me_sees e s)"

lemma ident_simps [simp]:
  "ident (supersede_row e new r) = ident r" "ident (merged_row e req md r) = ident r"
  "ident (r\<lparr>mm_metadata := m, mm_updated := t\<rparr>) = ident r" "ident (r\<lparr>mm_access := n, mm_updated := t\<rparr>) = ident r"
  by (simp_all add: ident_def supersede_row_def merged_row_def)

lemma ident_update_mem: "(\<And>r. ident (f r) = ident r) \<Longrightarrow> map ident (update_mem c f rows) = map ident rows"
  by (simp add: update_mem_def)

lemma ident_superseding: "map ident (mb_rows (snd (apply_superseding_operations e new ids db))) = map ident (mb_rows db)"
  by (simp add: apply_superseding_operations_def ident_update_mem Let_def)

lemma ident_relationship: "map ident (mb_rows (store_relationship e new rel db)) = map ident (mb_rows db)"
  by (simp add: store_relationship_def ident_update_mem split: option.splits)

lemma ident_relationships: "map ident (mb_rows (fold (store_relationship e new) rels db)) = map ident (mb_rows db)"
  by (induction rels arbitrary: db) (simp_all add: ident_relationship)

lemma finish_write_Inr:
  assumes "finish_write e req md ids db = (Inr r, db')"
  obtains rows where "write_row e req md (mb_rows db) = (Inr r, rows)" "map ident (mb_rows db') = map ident rows"
proof -
  obtain res rows where w: "write_row e req md (mb_rows db) = (res, rows)"
    by (cases "write_row e req md (mb_rows db)")
  with assms obtain r0 where res: "res = Inr r0"
    by (cases res) (auto simp: finish_write_def)
  obtain s db1 where a: "apply_superseding_operations e (mm_id r0) (filter (\<lambda>i. i \<noteq> mm_id r0) ids) (db\<lparr>mb_rows := rows\<rparr>) = (s, db1)"
    by (cases "apply_superseding_operations e (mm_id r0) (filter (\<lambda>i. i \<noteq> mm_id r0) ids) (db\<lparr>mb_rows := rows\<rparr>)")
  have "map ident (mb_rows db1) = map ident rows"
    using ident_superseding[of e "mm_id r0" "filter (\<lambda>i. i \<noteq> mm_id r0) ids" "db\<lparr>mb_rows := rows\<rparr>"] a by simp
  with assms w res a that show thesis
    by (cases s) (auto simp: finish_write_def ident_relationships)
qed

lemma find_idem_ident:
  assumes "sees_ident e" "map ident rows = map ident rows'" "find_idem e key rows = Some r"
  obtains r' where "find_idem e key rows' = Some r'" "ident r' = ident r"
proof -
  have "\<exists>r'. find_idem e key rows' = Some r' \<and> ident r' = ident r"
    using assms(2,3)
  proof (induction rows arbitrary: rows')
    case (Cons x rows)
    then obtain y ys where rows': "rows' = y # ys" and y: "ident x = ident y" and ys: "map ident rows = map ident ys"
      by (cases rows') auto
    have "me_sees e x = me_sees e y"
      using assms(1) y unfolding sees_ident_def by blast
    moreover have "mm_tenant x = mm_tenant y" "mm_idem x = mm_idem y"
      using y by (simp_all add: ident_def)
    ultimately have same: "(me_sees e x \<and> mm_tenant x = me_tenant e \<and> mm_idem x = Some key) =
        (me_sees e y \<and> mm_tenant y = me_tenant e \<and> mm_idem y = Some key)"
      by simp
    show ?case
    proof (cases "me_sees e y \<and> mm_tenant y = me_tenant e \<and> mm_idem y = Some key")
      case True
      then have "find_idem e key (x # rows) = Some x" "find_idem e key (y # ys) = Some y"
        using same by (simp_all add: find_idem_def)
      then show ?thesis
        using Cons.prems(2) y rows' by simp
    next
      case False
      then have "find_idem e key (x # rows) = find_idem e key rows" "find_idem e key (y # ys) = find_idem e key ys"
        using same by (auto simp: find_idem_def)
      then show ?thesis
        using Cons.IH[OF ys] Cons.prems(2) rows' by simp
    qed
  qed (simp add: find_idem_def)
  with that show thesis by blast
qed

lemma find_idem_snoc:
  "find_idem e key rows = None \<Longrightarrow> me_sees e r \<Longrightarrow> mm_tenant r = me_tenant e \<Longrightarrow> mm_idem r = Some key \<Longrightarrow>
     find_idem e key (rows @ [r]) = Some r"
  by (induction rows) (auto simp: find_idem_def split: if_splits)

section \<open>Repeated evidence\<close>

lemma get_normalized:
  assumes "k \<notin> {''ts'', ''allowed_roles'', ''supersedes'', ''invalidates''}"
  shows "dict_get (fst (normalized_metadata now req)) k = dict_get (case mq_metadata req of None \<Rightarrow> [] | Some d \<Rightarrow> d) k"
  using assms
  by (auto simp: normalized_metadata_def apply_superseding_metadata_def ensure_memory_metadata_def update_conv Let_def)

lemma canonical_of_cong: "me_digest e' = me_digest e \<Longrightarrow> canonical_of e' req = canonical_of e req"
proof -
  have "present (fst (normalized_metadata now req)) k = present (fst (normalized_metadata now' req)) k"
    if "k \<in> set canonical_metadata_fields" for k now now'
  proof -
    have "k \<notin> {''ts'', ''allowed_roles'', ''supersedes'', ''invalidates''}"
      using that by (auto simp: canonical_metadata_fields_def)
    then show ?thesis
      unfolding present_def by (simp add: get_normalized del: insert_iff)
  qed
  then show "me_digest e' = me_digest e \<Longrightarrow> canonical_of e' req = canonical_of e req"
    by (auto simp: canonical_of_def intro!: canonical_payload_hash_cong)
qed

text \<open>Two calls to the same service: the clocks, the generated identifier and the embeddings may differ.\<close>

definition same_service :: "mem_env \<Rightarrow> mem_env \<Rightarrow> bool" where
  "same_service e e' \<longleftrightarrow> me_digest e' = me_digest e \<and> me_tenant e' = me_tenant e \<and> me_sees e' = me_sees e \<and> sees_ident e"

lemma find_idem_service: "same_service e e' \<Longrightarrow> find_idem e' key rows = find_idem e key rows"
  by (simp add: same_service_def find_idem_def)

lemma evidence_written:
  assumes "api_create_memory e req db = (Inr r, db')" "write_key req = Some key" "sees_ident e"
  obtains r' where "find_idem e key (mb_rows db') = Some r'" "mm_id r' = mm_id r" "mm_content r' = mm_content r"
    "mm_canonical r' = canonical_of e req"
proof (cases "find_idem e key (mb_rows db)")
  case (Some x)
  with assms show thesis
    by (intro that[of x]) (auto simp: api_create_memory_def split: if_splits prod.splits)
next
  case None
  obtain md ids where n: "normalized_metadata (me_now e) req = (md, ids)"
    by (cases "normalized_metadata (me_now e) req")
  have "finish_write e req md ids db = (Inr r, db')"
    using assms None n by (auto simp: api_create_memory_def split: if_splits)
  then obtain rows where w: "write_row e req md (mb_rows db) = (Inr r, rows)" and i: "map ident (mb_rows db') = map ident rows"
    by (rule finish_write_Inr)
  have ev: "is_evidence req" "idem_key req = Some key"
    using assms(2) by (auto simp: write_key_def split: if_splits)
  with w have rows: "rows = mb_rows db @ [r]" and r: "r = inserted_mem e req md" "me_sees e r"
    by (auto simp: write_row_def Let_def split: if_splits)
  have "find_idem e key rows = Some r"
    unfolding rows using None r ev by (intro find_idem_snoc) (simp_all add: inserted_mem_def)
  from find_idem_ident[OF assms(3) i[symmetric] this] obtain r' where "find_idem e key (mb_rows db') = Some r'" "ident r' = ident r"
    by blast
  then show thesis
    using r by (intro that[of r']) (simp_all add: ident_def inserted_mem_def)
qed

text \<open>
  (C32) Writing evidence under an idempotency key and writing it again, at any later time and
  whatever the embedding service does, returns the memory of the first write and changes nothing;
  a different payload under the same key is refused with the first memory's identifier.
\<close>

theorem evidence_replay:
  assumes "api_create_memory e req db = (Inr r, db')" "write_key req = Some key" "same_service e e'"
  shows "(\<exists>r'. api_create_memory e' req db' = (Inr r', db') \<and> mm_id r' = mm_id r \<and> mm_content r' = mm_content r) \<and>
    (\<forall>other. valid_memory other \<and> write_key other = Some key \<and> canonical_of e' other \<noteq> canonical_of e req \<longrightarrow>
       (\<exists>r'. api_create_memory e' other db' = (Inl (idempotency_conflict r'), db') \<and> mm_id r' = mm_id r))"
proof -
  have e: "sees_ident e" "me_digest e' = me_digest e"
    using assms(3) by (simp_all add: same_service_def)
  obtain r' where r': "find_idem e key (mb_rows db') = Some r'" "mm_id r' = mm_id r" "mm_content r' = mm_content r"
    "mm_canonical r' = canonical_of e req"
    using evidence_written[OF assms(1,2) e(1)] .
  note found = r'(1)[folded find_idem_service[OF assms(3)]]
  have "valid_memory req"
    using assms(1) by (simp add: api_create_memory_def split: if_splits)
  then have "api_create_memory e' req db' = (Inr r', db')"
    using found r'(4) assms(2) canonical_of_cong[OF e(2), of req] by (simp add: api_create_memory_def split: prod.split)
  moreover have "api_create_memory e' other db' = (Inl (idempotency_conflict r'), db')"
    if "valid_memory other" "write_key other = Some key" "canonical_of e' other \<noteq> canonical_of e req" for other
    using found r'(4) that by (simp add: api_create_memory_def split: prod.split)
  ultimately show ?thesis
    using r'(2,3) by blast
qed


section \<open>The tables stay consistent\<close>

definition unit_real :: "real \<Rightarrow> bool" where
  "unit_real x \<longleftrightarrow> 0 \<le> x \<and> x \<le> 1"

definition idem_keys :: "mem_row list \<Rightarrow> (uuid \<times> string option) list" where
  "idem_keys rows = map (\<lambda>r. (mm_tenant r, mm_idem r)) (filter (\<lambda>r. mm_idem r \<noteq> None) rows)"

definition rows_ok :: "mem_row list \<Rightarrow> bool" where
  "rows_ok rows \<longleftrightarrow> distinct (map mm_id rows) \<and> distinct (idem_keys rows) \<and>
     (\<forall>r\<in>set rows. unit_real (mm_confidence r) \<and> (\<forall>p. mm_parent r = Some p \<longrightarrow> p \<in> mm_id ` set rows))"

definition memory_link_key :: "mem_link \<Rightarrow> uuid \<times> uuid \<times> string" where
  "memory_link_key k = (mk_source k, mk_target k, mk_relationship k)"

definition links_ok :: "uuid set \<Rightarrow> mem_link list \<Rightarrow> bool" where
  "links_ok ids ls \<longleftrightarrow> distinct (map memory_link_key ls) \<and>
     (\<forall>k\<in>set ls. mk_source k \<in> ids \<and> mk_target k \<in> ids \<and> mk_source k \<noteq> mk_target k \<and> unit_real (mk_strength k))"

definition mem_db_ok :: "mem_db \<Rightarrow> bool" where
  "mem_db_ok db \<longleftrightarrow> rows_ok (mb_rows db) \<and> links_ok (mm_id ` set (mb_rows db)) (mb_links db)"

text \<open>A change of a row that touches neither its keys nor its parent and keeps the confidence in bounds.\<close>

definition tame :: "(mem_row \<Rightarrow> mem_row) \<Rightarrow> bool" where
  "tame f \<longleftrightarrow> (\<forall>r. mm_id (f r) = mm_id r \<and> mm_tenant (f r) = mm_tenant r \<and> mm_idem (f r) = mm_idem r \<and>
     mm_parent (f r) = mm_parent r \<and> (unit_real (mm_confidence r) \<longrightarrow> unit_real (mm_confidence (f r))))"

lemma tame_steps [simp]:
  "tame (supersede_row e new)" "tame (\<lambda>r. r\<lparr>mm_metadata := m r, mm_updated := t\<rparr>)"
  "tame (\<lambda>r. r\<lparr>mm_access := n r, mm_updated := t\<rparr>)" "mq_confidence req \<le> 1 \<Longrightarrow> tame (merged_row e req md)"
  by (auto simp: tame_def supersede_row_def merged_row_def unit_real_def)

lemma update_mem_ids: "tame f \<Longrightarrow> map mm_id (update_mem c f rows) = map mm_id rows"
  by (simp add: update_mem_def tame_def)

lemma update_mem_idset: "tame f \<Longrightarrow> mm_id ` set (update_mem c f rows) = mm_id ` set rows"
  by (metis update_mem_ids set_map)

lemma rows_ok_update:
  assumes "rows_ok rows" "tame f"
  shows "rows_ok (update_mem c f rows)"
proof -
  have "idem_keys (update_mem c f rows) = idem_keys rows"
    using assms(2) by (induction rows) (auto simp: idem_keys_def update_mem_def tame_def)
  moreover have "unit_real (mm_confidence r) \<and> (\<forall>p. mm_parent r = Some p \<longrightarrow> p \<in> mm_id ` set rows)"
    if "r \<in> set (update_mem c f rows)" for r
    using that assms by (auto simp: update_mem_def tame_def rows_ok_def)
  ultimately show ?thesis
    using assms by (simp add: rows_ok_def update_mem_ids update_mem_idset)
qed

lemma rows_ok_insert: "rows_ok rows \<Longrightarrow> insert_allowed r rows \<Longrightarrow> rows_ok (rows @ [r])"
  by (auto simp: rows_ok_def insert_allowed_def idem_keys_def unit_real_def split: option.splits)

lemma write_row_ok:
  assumes "rows_ok rows" "write_row e req md rows = (res, rows')"
  shows "rows_ok rows'"
proof (cases "rows' = rows \<or> (\<exists>r. rows' = rows @ [r] \<and> insert_allowed r rows)")
  case True
  then show ?thesis using assms(1) rows_ok_insert by auto
next
  case False
  then obtain old where old: "update_allowed (merged_row e req md old) (filter (\<lambda>k. mm_id k \<noteq> mm_id old) rows)"
    "rows' = update_mem (\<lambda>k. mm_id k = mm_id old) (merged_row e req md) rows"
    using assms(2) by (auto simp: write_row_def Let_def split: if_splits option.splits prod.splits)
  then have "mq_confidence req \<le> 1"
    by (simp add: update_allowed_def merged_row_def)
  then show ?thesis
    using assms(1) old(2) by (simp add: rows_ok_update)
qed

lemma links_ok_put:
  assumes "links_ok ids ls" "mk_source l \<in> ids" "mk_target l \<in> ids" "mk_source l \<noteq> mk_target l" "unit_real (mk_strength l)"
    and f: "\<And>k. memory_link_key (f k) = memory_link_key k" "\<And>k. unit_real (mk_strength k) \<Longrightarrow> unit_real (mk_strength (f k))"
  shows "links_ok ids (put_link l f ls)"
proof (cases "\<exists>k\<in>set ls. memory_link_key k = memory_link_key l")
  case False
  then have "put_link l f ls = ls @ [l]"
    unfolding put_link_def Let_def memory_link_key_def by auto
  then show ?thesis
    using assms(1-5) False by (auto simp: links_ok_def)
next
  case True
  let ?g = "\<lambda>k. if memory_link_key k = memory_link_key l then f k else k"
  have "put_link l f ls = map ?g ls"
    using True unfolding put_link_def Let_def memory_link_key_def by simp
  moreover have "map memory_link_key (map ?g ls) = map memory_link_key ls"
    using f(1) by simp
  then have "distinct (map memory_link_key (map ?g ls))"
    using assms(1) unfolding links_ok_def by argo
  moreover have "mk_source (f k) = mk_source k" "mk_target (f k) = mk_target k" for k
    using f(1)[of k] by (simp_all add: memory_link_key_def)
  ultimately show ?thesis
    using assms(1) f(2) unfolding links_ok_def by auto
qed

lemma superseding_ok:
  assumes "mem_db_ok db" "new \<in> mm_id ` set (mb_rows db)"
  shows "mem_db_ok (snd (apply_superseding_operations e new ids db))"
proof -
  let ?ids = "mm_id ` set (mb_rows db)"
  have link: "links_ok ?ids (supersede_link new i ls)" if "links_ok ?ids ls" "i \<in> ?ids" "i \<noteq> new" for i ls
    unfolding supersede_link_def Let_def
    using that assms(2) by (intro links_ok_put) (auto simp: unit_real_def memory_link_key_def)
  have links: "links_ok ?ids (fold (supersede_link new) ts ls)" if "links_ok ?ids ls" "set ts \<subseteq> ?ids" "new \<notin> set ts" for ts ls
    using that by (induction ts arbitrary: ls) (auto intro: link)
  let ?ts = "filter (\<lambda>i. i \<noteq> new) ids"
  have "links_ok ?ids (fold (supersede_link new) ?ts (mb_links db))" if "set ?ts \<subseteq> ?ids"
    using assms(1) by (intro links that) (simp_all add: mem_db_ok_def)
  then show ?thesis
    using assms(1)
    by (simp add: mem_db_ok_def apply_superseding_operations_def Let_def rows_ok_update update_mem_idset)
qed

lemma relationship_ok:
  assumes "mem_db_ok db" "new \<in> mm_id ` set (mb_rows db)" "0 \<le> rs_strength rel" "rs_strength rel \<le> 1"
  shows "mem_db_ok (store_relationship e new rel db)"
proof (cases "rs_target rel")
  case None
  then show ?thesis
    using assms(1) by (simp add: store_relationship_def mem_db_ok_def rows_ok_update update_mem_idset)
next
  case (Some t)
  have "links_ok (mm_id ` set (mb_rows db)) (put_link
      \<lparr>mk_source = new, mk_target = t, mk_relationship = rs_type rel, mk_strength = rs_strength rel, mk_metadata = [(''entity'', JStr (rs_entity rel))]\<rparr>
      (\<lambda>k. k\<lparr>mk_strength := min 1 (mk_strength k + 1 / 10)\<rparr>) (mb_links db))"
    if "t \<noteq> new" "t \<in> mm_id ` set (mb_rows db)"
    using assms that by (intro links_ok_put) (auto simp: mem_db_ok_def unit_real_def memory_link_key_def)
  then show ?thesis
    using assms(1) Some by (simp add: store_relationship_def mem_db_ok_def)
qed

lemma relationship_ids: "mm_id ` set (mb_rows (store_relationship e new rel db)) = mm_id ` set (mb_rows db)"
  by (simp add: store_relationship_def update_mem_idset split: option.splits)

lemma relationships_ok:
  assumes "\<forall>r\<in>set rels. 0 \<le> rs_strength r \<and> rs_strength r \<le> 1"
  shows "mem_db_ok db \<Longrightarrow> new \<in> mm_id ` set (mb_rows db) \<Longrightarrow> mem_db_ok (fold (store_relationship e new) rels db)"
  using assms by (induction rels arbitrary: db) (simp_all add: relationship_ok relationship_ids)

lemma dedup_candidate_in: "dedup_candidate e c rows = Some (old, s) \<Longrightarrow> old \<in> set rows"
proof -
  have found: "x \<in> set xs" if "find P xs = Some x" for P x and xs :: "mem_row list"
    using that by (auto simp: find_Some_iff)
  have sorted: "x \<in> set xs" if "sort_key k xs = x # ys" for k :: "mem_row \<Rightarrow> real" and x xs ys
    using arg_cong[OF that, of set] by auto
  show "dedup_candidate e c rows = Some (old, s) \<Longrightarrow> old \<in> set rows"
    by (auto simp: dedup_candidate_def Let_def split: option.splits list.splits dest!: found sorted)
qed

lemma write_row_cases:
  assumes "write_row e req md rows = (Inr r, rows')"
  obtains (Inserted) "r = inserted_mem e req md" "rows' = rows @ [r]" "insert_allowed r rows" "me_sees e r"
  | (Merged) old s where "\<not> is_evidence req" "dedup_candidate e (mq_content req) rows = Some (old, Some s)"
      "should_deduplicate s (me_threshold e)" "r = merged_row e req md old"
      "rows' = update_mem (\<lambda>k. mm_id k = mm_id old) (merged_row e req md) rows"
  using assms by (auto simp: write_row_def Let_def split: if_splits option.splits prod.splits)

lemma written_row_stored:
  assumes "write_row e req md rows = (Inr r, rows')"
  shows "mm_id r \<in> mm_id ` set rows' \<and> mm_id ` set rows \<subseteq> mm_id ` set rows'"
  using assms
proof (cases rule: write_row_cases)
  case (Merged old s)
  have "map mm_id (update_mem (\<lambda>k. mm_id k = mm_id old) (merged_row e req md) rows) = map mm_id rows"
    by (simp add: update_mem_def merged_row_def)
  from arg_cong[OF this, of set] have "mm_id ` set rows' = mm_id ` set rows"
    by (simp only: Merged set_map)
  moreover have "mm_id r = mm_id old"
    by (simp add: Merged merged_row_def)
  ultimately show ?thesis
    using dedup_candidate_in[OF Merged(2)] by simp
qed auto

lemma finish_write_ok:
  assumes "mem_db_ok db" "valid_memory req"
  shows "mem_db_ok (snd (finish_write e req md ids db))"
proof -
  obtain w rows where w: "write_row e req md (mb_rows db) = (w, rows)"
    by (cases "write_row e req md (mb_rows db)")
  show ?thesis
  proof (cases w)
    case (Inl err)
    then show ?thesis using assms w by (simp add: finish_write_def)
  next
    case (Inr r)
    let ?db = "db\<lparr>mb_rows := rows\<rparr>"
    let ?ids = "filter (\<lambda>i. i \<noteq> mm_id r) ids"
    have stored: "mm_id r \<in> mm_id ` set rows" "mm_id ` set (mb_rows db) \<subseteq> mm_id ` set rows"
      using written_row_stored w Inr by auto
    have "mem_db_ok ?db"
      using assms(1) write_row_ok[OF _ w] stored(2) by (auto simp: mem_db_ok_def links_ok_def)
    then have ok: "mem_db_ok (snd (apply_superseding_operations e (mm_id r) ?ids ?db))"
      using superseding_ok[of ?db "mm_id r" e ?ids] stored by simp
    have "mm_id ` set (mb_rows (snd (apply_superseding_operations e (mm_id r) ?ids ?db))) = mm_id ` set rows"
      by (simp add: apply_superseding_operations_def Let_def update_mem_idset)
    then show ?thesis
      using ok stored assms(2) w Inr relationships_ok[of "mq_relationships req" _ "mm_id r" e]
      by (auto simp: finish_write_def valid_memory_def split: prod.splits sum.splits)
  qed
qed

lemma deleted_idset:
  "mm_id ` set (map (\<lambda>r. if mm_parent r = Some i then r\<lparr>mm_parent := None\<rparr> else r) (filter (\<lambda>r. mm_id r \<noteq> i) rows)) =
   mm_id ` set rows - {i}" (is "mm_id ` set (map ?f ?rows) = _")
proof -
  have "map mm_id (map ?f ?rows) = map mm_id ?rows"
    by simp
  from arg_cong[OF this, of set] have "mm_id ` set (map ?f ?rows) = mm_id ` set ?rows"
    by (simp only: set_map)
  then show ?thesis by auto
qed

lemma rows_ok_delete:
  assumes "rows_ok rows"
  shows "rows_ok (map (\<lambda>r. if mm_parent r = Some i then r\<lparr>mm_parent := None\<rparr> else r) (filter (\<lambda>r. mm_id r \<noteq> i) rows))"
    (is "rows_ok (map ?f ?rows)")
proof -
  have ids: "map mm_id (map ?f ?rows) = map mm_id ?rows" "idem_keys (map ?f ?rows) = idem_keys ?rows"
    by (induction rows) (auto simp: idem_keys_def)
  note idset = deleted_idset[of i rows]
  have "distinct (map mm_id ?rows)" "distinct (idem_keys ?rows)"
    using assms by (auto simp: rows_ok_def idem_keys_def distinct_map inj_on_def)
  moreover have "unit_real (mm_confidence r) \<and> (\<forall>p. mm_parent r = Some p \<longrightarrow> p \<in> mm_id ` set (map ?f ?rows))"
    if "r \<in> set (map ?f ?rows)" for r
    using that assms unfolding idset by (auto simp: rows_ok_def split: if_splits)
  ultimately show ?thesis
    unfolding rows_ok_def ids by blast
qed

lemma create_keeps_ok: "mem_db_ok db \<Longrightarrow> mem_db_ok (snd (api_create_memory e req db))"
  using finish_write_ok[of db req e]
  by (auto simp: api_create_memory_def Let_def split: prod.splits option.splits)

text \<open>
  (C33) Whatever is written, read or deleted, accepted or refused, the tables keep their keys
  distinct, one row per tenant and idempotency key, every parent and both ends of every link
  stored, and confidences and strengths between zero and one.
\<close>

theorem memory_tables_consistent:
  assumes "mem_db_ok db"
  shows "mem_db_ok (snd (api_create_memory e req db)) \<and> mem_db_ok (snd (get_memory e i db)) \<and> mem_db_ok (snd (delete_memory e i db))"
proof (intro conjI)
  show "mem_db_ok (snd (api_create_memory e req db))"
    using assms by (rule create_keeps_ok)
  show "mem_db_ok (snd (get_memory e i db))"
    using assms by (auto simp: get_memory_def mem_db_ok_def Let_def rows_ok_update update_mem_idset split: option.splits)
  have "links_ok (mm_id ` set (mb_rows db) - {i}) (filter (\<lambda>k. mk_source k \<noteq> i \<and> mk_target k \<noteq> i) (mb_links db))"
    using assms by (auto simp: mem_db_ok_def links_ok_def distinct_map inj_on_def)
  then show "mem_db_ok (snd (delete_memory e i db))"
    using assms rows_ok_delete[of "mb_rows db" i] deleted_idset[of i "mb_rows db"]
    by (cases "\<exists>r\<in>set (mb_rows db). me_sees e r \<and> mm_id r = i")
      (simp_all add: delete_memory_def mem_db_ok_def del: set_map set_filter)
qed


section \<open>The end of validity\<close>

text \<open>Rows stay, and a row whose validity has ended keeps the instant at which it ended.\<close>

definition closes_only :: "mem_row list \<Rightarrow> mem_row list \<Rightarrow> bool" where
  "closes_only rows rows' \<longleftrightarrow> (\<forall>r\<in>set rows. \<exists>r'\<in>set rows'. ident r' = ident r \<and>
     (mm_valid_to r \<noteq> None \<longrightarrow> mm_valid_to r' = mm_valid_to r))"

lemma closes_only_refl: "closes_only rows rows"
  by (auto simp: closes_only_def)

lemma closes_only_trans:
  assumes "closes_only a b" "closes_only b c"
  shows "closes_only a c"
  unfolding closes_only_def
proof
  fix r assume "r \<in> set a"
  then obtain s where s: "s \<in> set b" "ident s = ident r" "mm_valid_to r \<noteq> None \<longrightarrow> mm_valid_to s = mm_valid_to r"
    using assms(1) unfolding closes_only_def by blast
  then obtain t where "t \<in> set c" "ident t = ident s" "mm_valid_to s \<noteq> None \<longrightarrow> mm_valid_to t = mm_valid_to s"
    using assms(2) unfolding closes_only_def by blast
  with s show "\<exists>r'\<in>set c. ident r' = ident r \<and> (mm_valid_to r \<noteq> None \<longrightarrow> mm_valid_to r' = mm_valid_to r)"
    by (metis (no_types))
qed

lemma closes_only_update:
  "(\<And>r. ident (f r) = ident r \<and> (mm_valid_to r \<noteq> None \<longrightarrow> mm_valid_to (f r) = mm_valid_to r)) \<Longrightarrow> closes_only rows (update_mem c f rows)"

  unfolding closes_only_def
proof
  fix r
  assume f: "\<And>r. ident (f r) = ident r \<and> (mm_valid_to r \<noteq> None \<longrightarrow> mm_valid_to (f r) = mm_valid_to r)" and "r \<in> set rows"
  then have "(if c r then f r else r) \<in> set (update_mem c f rows)"
    by (auto simp: update_mem_def)
  with f[of r] show "\<exists>r'\<in>set (update_mem c f rows). ident r' = ident r \<and> (mm_valid_to r \<noteq> None \<longrightarrow> mm_valid_to r' = mm_valid_to r)"
    by (intro bexI[of _ "if c r then f r else r"]) auto
qed

lemma closes_only_steps:
  "closes_only rows (update_mem c (supersede_row e new) rows)" "closes_only rows (update_mem c (merged_row e req md) rows)"
  "closes_only rows (update_mem c (\<lambda>r. r\<lparr>mm_metadata := m r, mm_updated := t\<rparr>) rows)"
  by (rule closes_only_update; auto simp: supersede_row_def merged_row_def ident_def coalesce_def split: option.splits)+

lemma closes_only_relationships: "closes_only (mb_rows db) (mb_rows (fold (store_relationship e new) rels db))"
proof (induction rels arbitrary: db)
  case (Cons rel rels)
  have "closes_only (mb_rows db) (mb_rows (store_relationship e new rel db))"
    by (simp add: store_relationship_def closes_only_refl closes_only_steps split: option.split)
  then show ?case
    using Cons.IH[of "store_relationship e new rel db"] by (auto intro: closes_only_trans)
qed (simp add: closes_only_refl)

lemma closes_only_superseding: "closes_only (mb_rows db) (mb_rows (snd (apply_superseding_operations e new ids db)))"
  by (simp add: apply_superseding_operations_def closes_only_refl closes_only_steps Let_def)

lemma closes_only_write:
  assumes "write_row e req md rows = (Inr r, rows')"
  shows "closes_only rows rows'"
  using assms
proof (cases rule: write_row_cases)
  case Inserted
  then show ?thesis by (auto simp: closes_only_def)
next
  case (Merged old s)
  then show ?thesis by (simp add: closes_only_steps)
qed

lemma closes_only_finish: "closes_only (mb_rows db) (mb_rows (snd (finish_write e req md ids db)))"
proof -
  obtain w rows where w: "write_row e req md (mb_rows db) = (w, rows)"
    by (cases "write_row e req md (mb_rows db)")
  show ?thesis
  proof (cases w)
    case (Inl err)
    then show ?thesis using w by (simp add: finish_write_def closes_only_refl)
  next
    case (Inr r)
    let ?db = "db\<lparr>mb_rows := rows\<rparr>"
    let ?step = "apply_superseding_operations e (mm_id r) (filter (\<lambda>i. i \<noteq> mm_id r) ids) ?db"
    have "closes_only (mb_rows db) (mb_rows (snd ?step))"
      using closes_only_write[of e req md "mb_rows db" r rows] w Inr closes_only_superseding[of ?db e "mm_id r"]
      by (auto intro: closes_only_trans)
    then show ?thesis
      using w Inr closes_only_trans[OF _ closes_only_relationships]
      by (auto simp: finish_write_def split: prod.splits sum.splits)
  qed
qed

lemma closes_only_create: "closes_only (mb_rows db) (mb_rows (snd (api_create_memory e req db)))"
  using closes_only_finish by (auto simp: api_create_memory_def closes_only_refl split: prod.splits option.splits)

text \<open>What a write that is not a replay supersedes.\<close>

definition superseded_by :: "mem_env \<Rightarrow> memory_create \<Rightarrow> uuid set" where
  "superseded_by e req = set (snd (normalized_metadata (me_now e) req))"

lemma relationship_valid_to:
  "\<lbrakk>\<forall>r\<in>set (mb_rows db). mm_id r = i \<longrightarrow> mm_valid_to r \<noteq> None\<rbrakk> \<Longrightarrow>
   \<forall>r\<in>set (mb_rows (fold (store_relationship e new) rels db)). mm_id r = i \<longrightarrow> mm_valid_to r \<noteq> None"
proof (induction rels arbitrary: db)
  case (Cons rel rels)
  have "\<forall>r\<in>set (mb_rows (store_relationship e new rel db)). mm_id r = i \<longrightarrow> mm_valid_to r \<noteq> None"
    using Cons.prems by (auto simp: store_relationship_def update_mem_def split: option.splits)
  then show ?case
    using Cons.IH by simp
qed simp

text \<open>When a write that is not a replay succeeds, every other memory it supersedes has ended.\<close>

lemma superseding_ends:
  assumes "api_create_memory e req db = (Inr r, db')" "\<forall>x. me_sees e x"
    and fresh: "\<forall>key. write_key req = Some key \<longrightarrow> find_idem e key (mb_rows db) = None"
    and x: "x \<in> set (mb_rows db')" "mm_id x \<in> superseded_by e req - {mm_id r}"
  shows "mm_valid_to x \<noteq> None"
proof -
  obtain md ids where n: "normalized_metadata (me_now e) req = (md, ids)"
    by (cases "normalized_metadata (me_now e) req")
  have f: "finish_write e req md ids db = (Inr r, db')"
    using assms(1) fresh n by (auto simp: api_create_memory_def split: if_splits option.splits)
  then obtain rows where w: "write_row e req md (mb_rows db) = (Inr r, rows)"
    by (auto simp: finish_write_def split: prod.splits sum.splits)
  let ?ids = "filter (\<lambda>i. i \<noteq> mm_id r) ids" and ?db = "db\<lparr>mb_rows := rows\<rparr>"
  obtain u db1 where a: "apply_superseding_operations e (mm_id r) ?ids ?db = (Inr u, db1)"
    and db': "db' = fold (store_relationship e (mm_id r)) (mq_relationships req) db1"
    using f w by (auto simp: finish_write_def split: prod.splits sum.splits)
  have ids: "mm_id x \<in> set ?ids"
    using x(2) n by (simp add: superseded_by_def)
  then have "?ids \<noteq> []"
    by (metis empty_iff list.set(1))
  then have "mb_rows db1 = update_mem (supersedes_row e (mm_id r) ?ids) (supersede_row e (mm_id r)) rows"
    using a by (auto simp: apply_superseding_operations_def Let_def split: if_splits)
  then have "\<forall>y\<in>set (mb_rows db1). mm_id y = mm_id x \<longrightarrow> mm_valid_to y \<noteq> None"
    using ids assms(2)
    by (auto simp: update_mem_def supersedes_row_def supersede_row_def coalesce_def split: option.splits)
  from relationship_valid_to[OF this] x(1) show ?thesis
    unfolding db' by blast
qed

section \<open>Behaviour of note\<close>

text \<open>
  Learning is merged into whatever row is nearest, evidence of another agent included, and the
  roles of the request replace the roles of that row.
\<close>

lemma merge_replaces_roles:
  assumes "write_row e req md rows = (Inr r, rows')" "dedup_candidate e (mq_content req) rows = Some (old, Some s)"
    "\<not> is_evidence req" "should_deduplicate s (me_threshold e)" "md = fst (normalized_metadata now req)" "distinct (dict_keys md)"
  shows "mm_kind r = mm_kind old \<and> mm_id r = mm_id old \<and>
    dict_get (mm_metadata r) ''allowed_roles'' = Some (JList (map JStr (if mq_roles req = [] then [''*''] else mq_roles req)))"
proof -
  have r: "r = merged_row e req md old"
    using assms(1-4) by (auto simp: write_row_def Let_def split: if_splits)
  have "dict_get md ''allowed_roles'' = Some (JList (map JStr (if mq_roles req = [] then [''*''] else mq_roles req)))"
    by (auto simp: assms(5) normalized_metadata_def apply_superseding_metadata_def update_conv Let_def)
  then show ?thesis
    by (simp add: r merged_row_def jsonb_concat_get[OF assms(6)])
qed

text \<open>A row with the same text but no embedding is the first candidate, and its missing similarity ends in an error.\<close>

lemma missing_similarity_fails:
  assumes "\<not> is_evidence req" "dedup_candidate e (mq_content req) rows = Some (old, None)"
  shows "write_row e req md rows = (Inl server_error, rows)"
  using assms by (simp add: write_row_def)

text \<open>An unknown identifier among the superseded ones fails the request after the memory was stored.\<close>

lemma unknown_superseded_fails_late:
  assumes "write_row e req md (mb_rows db) = (Inr r, rows)" "i \<in> set ids" "i \<noteq> mm_id r" "i \<notin> mm_id ` set rows"
  shows "\<exists>db'. finish_write e req md ids db = (Inl server_error, db') \<and> map ident (mb_rows db') = map ident rows"
proof -
  let ?ids = "filter (\<lambda>i. i \<noteq> mm_id r) ids"
  have "i \<in> set ?ids" "?ids \<noteq> []"
    using assms(2,3) by (auto simp: filter_empty_conv)
  then have "apply_superseding_operations e (mm_id r) ?ids (db\<lparr>mb_rows := rows\<rparr>) =
      (Inl server_error, db\<lparr>mb_rows := update_mem (supersedes_row e (mm_id r) ?ids) (supersede_row e (mm_id r)) rows\<rparr>)"
    using assms(3,4) by (auto simp: apply_superseding_operations_def Let_def)
  then show ?thesis
    using assms(1) by (simp add: finish_write_def ident_update_mem)
qed

text \<open>An end of validity that lies ahead is kept when the memory is superseded.\<close>

lemma future_end_is_kept: "mm_valid_to r = Some t \<Longrightarrow> mm_valid_to (supersede_row e new r) = Some t"
  by (simp add: supersede_row_def)

text \<open>Of several relationships without a target only the last is kept.\<close>

lemma last_entity_wins:
  assumes "rs_target a = None" "rs_target b = None" "mb_rows db = [r]" "mm_id r = new" "me_sees e r" "sees_ident e"
  shows "\<exists>r'. mb_rows (fold (store_relationship e new) [a, b] db) = [r'] \<and>
    dict_get (mm_metadata r') ''entities'' = Some (JList [JObj [(''name'', JStr (rs_entity b)),
      (''relationship_type'', JStr (rs_type b)), (''strength'', JReal (rs_strength b))]])"
proof -
  have "me_sees e (r\<lparr>mm_metadata := m, mm_updated := t\<rparr>)" for m t
    using assms(5,6) unfolding sees_ident_def by (metis ident_simps(3))
  then show ?thesis
    using assms by (simp add: store_relationship_def update_mem_def jsonb_concat_def update_conv)
qed


section \<open>Examples\<close>

definition mem_env_ex :: "time \<Rightarrow> uuid \<Rightarrow> mem_env" where
  "mem_env_ex now i = \<lparr>me_now = now, me_db_now = now, me_fresh = i, me_embed = (\<lambda>s. None), me_similarity = (\<lambda>v w. 0),
     me_sha = id, me_digest = (\<lambda>p. ''h''), me_threshold = 1, me_tenant = ''t'', me_sees = (\<lambda>r. True)\<rparr>"

definition mem_req_ex :: "string \<Rightarrow> uuid list \<Rightarrow> memory_create" where
  "mem_req_ex kind old = \<lparr>mq_content = ''ran'', mq_type = ''observation'', mq_kind = kind, mq_agent = ''a'', mq_metadata = None,
     mq_parent = None, mq_confidence = 1, mq_relationships = [], mq_supersedes = None, mq_invalidates = old, mq_salience = 1 / 2,
     mq_roles = [''*''], mq_idem = (if kind = ''evidence'' then Some ''k'' else None)\<rparr>"

definition mem_row_ex :: mem_row where
  "mem_row_ex = \<lparr>mm_id = ''m0'', mm_content = ''old'', mm_embedding = None, mm_type = ''fact'', mm_kind = ''learning'', mm_agent = ''a'',
     mm_tenant = ''t'', mm_metadata = [], mm_parent = None, mm_confidence = 1, mm_access = 0, mm_salience = 1 / 2, mm_review = None,
     mm_content_hash = Some ''old'', mm_idem = None, mm_canonical = None, mm_valid_to = None, mm_created = 0, mm_updated = 0\<rparr>"

definition mem_db_ex :: mem_db where
  "mem_db_ex = \<lparr>mb_rows = [mem_row_ex], mb_links = []\<rparr>"

lemma mem_req_ex_valid: "valid_memory (mem_req_ex ''evidence'' old)" "valid_memory (mem_req_ex ''learning'' old)"
  by (simp_all add: valid_memory_def mem_req_ex_def memory_types_def varchar_fits_def)

lemma mem_req_ex_ids: "snd (normalized_metadata now (mem_req_ex kind old)) = dedup old"
  by (simp add: normalized_metadata_def extract_superseding_targets_def mem_req_ex_def ensure_memory_metadata_def
      coerce_uuid_list_def update_conv Let_def)

lemma mem_req_ex_metadata_key: "metadata_key (fst (normalized_metadata now (mem_req_ex kind old))) = None"
  by (simp add: metadata_key_def get_normalized mem_req_ex_def)

lemma mem_ex_inserted:
  assumes "kind = ''evidence'' \<or> kind = ''learning''"
  shows "write_row (mem_env_ex now ''m1'') (mem_req_ex kind old) (fst (normalized_metadata now (mem_req_ex kind old))) (mb_rows mem_db_ex) =
    (Inr (inserted_mem (mem_env_ex now ''m1'') (mem_req_ex kind old) (fst (normalized_metadata now (mem_req_ex kind old)))),
     [mem_row_ex, inserted_mem (mem_env_ex now ''m1'') (mem_req_ex kind old) (fst (normalized_metadata now (mem_req_ex kind old)))])"
proof -
  have "dedup_candidate (mem_env_ex now ''m1'') ''ran'' [mem_row_ex] = None"
    by (simp add: dedup_candidate_def mem_env_ex_def mem_row_ex_def content_digest_def strip_def is_space_def lower_def ascii_lower_def Let_def)
  moreover have "insert_allowed (inserted_mem (mem_env_ex now ''m1'') (mem_req_ex kind old) (fst (normalized_metadata now (mem_req_ex kind old)))) [mem_row_ex]"
    by (simp add: insert_allowed_def inserted_mem_def mem_req_ex_metadata_key)
      (simp add: mem_env_ex_def mem_req_ex_def mem_row_ex_def idem_key_def)
  ultimately show ?thesis
    by (simp add: write_row_def mem_db_ex_def Let_def) (simp add: mem_req_ex_def mem_env_ex_def)
qed

lemma mem_ex_evidence:
  "\<exists>r db'. api_create_memory (mem_env_ex 0 ''m1'') (mem_req_ex ''evidence'' []) mem_db_ex = (Inr r, db') \<and> mm_id r = ''m1'' \<and> mm_content r = ''ran''"
proof -
  let ?e = "mem_env_ex 0 ''m1''" and ?req = "mem_req_ex ''evidence'' []"
  let ?r = "inserted_mem ?e ?req (fst (normalized_metadata 0 ?req))"
  have facts: "find_idem ?e ''k'' (mb_rows mem_db_ex) = None" "write_key ?req = Some ''k''" "mq_relationships ?req = []" "me_now ?e = 0"
    by (simp_all add: find_idem_def mem_db_ex_def mem_row_ex_def write_key_def is_evidence_def idem_key_def mem_req_ex_def mem_env_ex_def)
  have r: "mm_id ?r = ''m1''" "mm_content ?r = ''ran''"
    by (simp_all add: inserted_mem_def mem_env_ex_def mem_req_ex_def)
  have ids: "snd (normalized_metadata 0 ?req) = []"
    using mem_req_ex_ids[of 0 "''evidence''" "[]"] by (simp add: dedup_def)
  have "\<exists>db'. api_create_memory ?e ?req mem_db_ex = (Inr ?r, db')"
    using mem_ex_inserted[of "''evidence''" 0 "[]"] ids facts
    by (cases "normalized_metadata 0 ?req") (simp add: api_create_memory_def finish_write_def mem_req_ex_valid apply_superseding_operations_def)
  with r show ?thesis by blast
qed

theorem evidence_replay_witness:
  "\<exists>db' r'. api_create_memory (mem_env_ex 7 ''m2'') (mem_req_ex ''evidence'' []) db' = (Inr r', db') \<and> mm_id r' = ''m1'' \<and> mm_content r' = ''ran''"
proof -
  obtain r db' where c: "api_create_memory (mem_env_ex 0 ''m1'') (mem_req_ex ''evidence'' []) mem_db_ex = (Inr r, db')"
    and r: "mm_id r = ''m1''" "mm_content r = ''ran''"
    using mem_ex_evidence by blast
  have "write_key (mem_req_ex ''evidence'' []) = Some ''k''"
    by (simp add: write_key_def is_evidence_def idem_key_def mem_req_ex_def)
  moreover have "same_service (mem_env_ex 0 ''m1'') (mem_env_ex 7 ''m2'')"
    by (simp add: same_service_def mem_env_ex_def sees_ident_def)
  ultimately show ?thesis
    using evidence_replay[OF c] r by fastforce
qed

lemma mem_ex_ok: "mem_db_ok mem_db_ex"
  by (simp add: mem_db_ok_def mem_db_ex_def rows_ok_def links_ok_def idem_keys_def mem_row_ex_def unit_real_def)

theorem memory_tables_consistent_witness:
  "mem_db_ok (snd (api_create_memory (mem_env_ex 0 ''m1'') (mem_req_ex ''learning'' [''m0'']) mem_db_ex)) \<and>
   mem_db_ok (snd (delete_memory (mem_env_ex 0 ''m1'') ''m0'' mem_db_ex))"
  using memory_tables_consistent[OF mem_ex_ok] by blast

lemma mem_ex_supersedes:
  "\<exists>r db'. api_create_memory (mem_env_ex 0 ''m1'') (mem_req_ex ''learning'' [''m0'']) mem_db_ex = (Inr r, db') \<and>
     ''m0'' \<in> superseded_by (mem_env_ex 0 ''m1'') (mem_req_ex ''learning'' [''m0'']) - {mm_id r} \<and>
     (\<forall>key. write_key (mem_req_ex ''learning'' [''m0'']) = Some key \<longrightarrow> find_idem (mem_env_ex 0 ''m1'') key (mb_rows mem_db_ex) = None)"
proof -
  let ?e = "mem_env_ex 0 ''m1''" and ?req = "mem_req_ex ''learning'' [''m0'']"
  have key: "write_key ?req = None"
    by (simp add: write_key_def is_evidence_def mem_req_ex_def)
  have facts: "mq_relationships ?req = []" "me_now ?e = 0" "\<forall>x. me_sees ?e x"
    by (simp_all add: mem_req_ex_def mem_env_ex_def)
  let ?r = "inserted_mem ?e ?req (fst (normalized_metadata 0 ?req))"
  have ids: "snd (normalized_metadata 0 ?req) = [''m0'']"
    using mem_req_ex_ids[of 0 "''learning''" "[''m0'']"] by (simp add: dedup_def)
  have r: "mm_id ?r = ''m1''" "mm_id mem_row_ex = ''m0''"
    by (simp_all add: inserted_mem_def mem_env_ex_def mem_row_ex_def)
  have "\<exists>db'. api_create_memory ?e ?req mem_db_ex = (Inr ?r, db')"
    using mem_ex_inserted[of "''learning''" 0 "[''m0'']"] ids key facts r
    by (cases "normalized_metadata 0 ?req") (simp add: api_create_memory_def finish_write_def mem_req_ex_valid apply_superseding_operations_def Let_def)
  moreover have "''m0'' \<in> superseded_by ?e ?req - {mm_id ?r}"
    using ids r facts(2) by (simp add: superseded_by_def)
  ultimately show ?thesis
    using key by (metis option.distinct(1))
qed

end
