(* ===== verification/Memory_Search.thy ===== *)
theory Memory_Search imports Memory_Store "HOL-Library.Multiset" "HOL-Library.Product_Lexorder" begin

text \<open>
  Reading memories back: \<open>search_memories\<close> and the default recall of learning (\<open>memu/api.py\<close>),
  over the tables of \<open>Memory_Store\<close>.

  The environment holds the clock, the embedding of the query, the similarity of embeddings, the
  text match \<open>ILIKE\<close>, what the vector index yields of a list of rows up to a limit, the rows the
  connection sees and how the driver delivers a \<open>jsonb\<close> column. A search that names roles fails:
  PostgreSQL has no operator \<open>&&\<close> on \<open>jsonb\<close>. The search log, the event and the index settings,
  whose failures are ignored, are left out.

  Proved: a search returns distinct current memories of the agent and type asked for and at most
  as many as asked for; a memory superseded by an earlier write is never found; default recall
  returns reviewed learning only.
\<close>

section \<open>Searching\<close>

record search_request =
  sq_query :: string
  sq_limit :: int
  sq_agent :: "string option"
  sq_type :: "string option"
  sq_min_confidence :: real
  sq_temporal_weight :: real
  sq_min_results :: int
  sq_steps :: int
  sq_lexical :: bool
  sq_from :: "time option"
  sq_to :: "time option"
  sq_entity_weight :: real
  sq_roles :: "string list option"

record search_env =
  se_now :: time
  se_db_now :: time
  se_embed :: "string \<Rightarrow> real list option"
  se_similarity :: "real list \<Rightarrow> real list \<Rightarrow> real"
  se_ilike :: "string \<Rightarrow> string \<Rightarrow> bool"
  se_index :: "real list \<Rightarrow> int \<Rightarrow> mem_row list \<Rightarrow> mem_row list"
  se_column :: "payload \<Rightarrow> json"
  se_fromiso :: "string \<Rightarrow> time option"
  se_sees :: "mem_row \<Rightarrow> bool"
  se_rate :: real

record search_result =
  sx_row :: mem_row
  sx_similarity :: real
  sx_score :: real

text \<open>The slice \<open>xs[:n]\<close>.\<close>

definition py_take :: "int \<Rightarrow> 'a list \<Rightarrow> 'a list" where
  "py_take n xs = (if 0 \<le> n then take (nat n) xs else take (length xs - nat (- n)) xs)"

definition opt_eq :: "string option \<Rightarrow> string \<Rightarrow> bool" where
  "opt_eq wanted column \<longleftrightarrow> (nonempty wanted \<longrightarrow> wanted = Some column)"

definition type_eq :: "string option \<Rightarrow> string \<Rightarrow> bool" where
  "type_eq wanted column \<longleftrightarrow> (wanted \<noteq> None \<longrightarrow> wanted = Some column)"

definition confident :: "search_request \<Rightarrow> mem_row \<Rightarrow> bool" where
  "confident req r \<longleftrightarrow> (0 < sq_min_confidence req \<longrightarrow> sq_min_confidence req \<le> mm_confidence r)"

definition in_window :: "search_request \<Rightarrow> mem_row \<Rightarrow> bool" where
  "in_window req r \<longleftrightarrow> (case sq_from req of None \<Rightarrow> True | Some t \<Rightarrow> t \<le> mm_created r) \<and>
     (case sq_to req of None \<Rightarrow> True | Some t \<Rightarrow> mm_created r \<le> t)"

text \<open>Conditions every query has: visible, not ended, of the agent and the type.\<close>

definition asked_for :: "search_env \<Rightarrow> search_request \<Rightarrow> mem_row \<Rightarrow> bool" where
  "asked_for e req r \<longleftrightarrow> se_sees e r \<and> mm_valid_to r = None \<and> opt_eq (sq_agent req) (mm_agent r) \<and> type_eq (sq_type req) (mm_type r)"

definition memory_score :: "search_env \<Rightarrow> search_request \<Rightarrow> real \<Rightarrow> mem_row \<Rightarrow> real" where
  "memory_score e req sim r =
     compute_final_score (se_now e) sim (mm_created r) (mm_access r) (se_rate e) (sq_temporal_weight req) (1 / 10)
       (if mm_salience r = 0 then 1 / 2 else mm_salience r)"

definition by_score :: "search_result list \<Rightarrow> search_result list" where
  "by_score rs = sort_key (\<lambda>x. - sx_score x) rs"

text \<open>The newest updates first, up to a limit; a negative limit is an error.\<close>

definition newest :: "int \<Rightarrow> mem_row list \<Rightarrow> mem_row list option" where
  "newest limit rows = (if limit < 0 then None else Some (take (nat limit) (sort_key (\<lambda>r. - mm_updated r) rows)))"

definition text_search :: "search_env \<Rightarrow> search_request \<Rightarrow> (mem_row \<Rightarrow> bool) \<Rightarrow> mem_row list \<Rightarrow> api_error + search_result list" where
  "text_search e req kind rows =
     (case newest (sq_limit req) (filter (\<lambda>r. se_ilike e (sq_query req) (mm_content r) \<and> asked_for e req r \<and> kind r) rows) of
        None \<Rightarrow> Inl server_error
      | Some hits \<Rightarrow> Inr (py_take (sq_limit req) (by_score
          (map (\<lambda>r. \<lparr>sx_row = r, sx_similarity = 0, sx_score = memory_score e req (1 / 2) r\<rparr>) hits))))"

text \<open>The vector query is repeated with growing limits until it yields enough rows.\<close>

fun widen :: "(int \<Rightarrow> mem_row list) \<Rightarrow> int \<Rightarrow> int list \<Rightarrow> mem_row list \<Rightarrow> mem_row list" where
  "widen query enough [] rows = rows"
| "widen query enough (l # ls) rows =
     (if enough \<le> int (length (query l)) then query l else widen query enough ls (query l))"

definition vector_rows :: "search_env \<Rightarrow> search_request \<Rightarrow> (mem_row \<Rightarrow> bool) \<Rightarrow> real list \<Rightarrow> mem_row list \<Rightarrow> mem_row list" where
  "vector_rows e req kind v rows =
     widen (\<lambda>l. se_index e v l (filter (\<lambda>r. mm_embedding r \<noteq> None \<and> asked_for e req r \<and> kind r \<and> confident req r \<and> in_window req r) rows))
       (max 1 (min (sq_limit req) (sq_min_results req))) (expansion_schedule (sq_limit req * 2) (sq_steps req)) []"

fun add_lexical :: "uuid set \<Rightarrow> mem_row list \<Rightarrow> (mem_row \<times> real) list" where
  "add_lexical seen [] = []"
| "add_lexical seen (r # rs) =
     (if mm_id r \<in> seen then add_lexical seen rs else (r, 45 / 100) # add_lexical (insert (mm_id r) seen) rs)"

text \<open>The rows of both queries with their similarities; \<open>lexical\<close> are the conditions of the second.\<close>

definition found_rows ::
    "search_env \<Rightarrow> search_request \<Rightarrow> (mem_row \<Rightarrow> bool) \<Rightarrow> (mem_row \<Rightarrow> bool) \<Rightarrow> real list \<Rightarrow> mem_row list \<Rightarrow> (mem_row \<times> real) list option" where
  "found_rows e req kind lexical v rows =
     (let vs = vector_rows e req kind v rows;
          hits = map (\<lambda>r. (r, se_similarity e v (the (mm_embedding r)))) vs in
      if sq_lexical req \<and> int (length vs) < max 1 (min (sq_limit req) (sq_min_results req))
      then map_option (\<lambda>ls. hits @ add_lexical (mm_id ` set vs) ls)
             (newest (sq_limit req) (filter (\<lambda>r. se_ilike e (sq_query req) (mm_content r) \<and> asked_for e req r \<and> kind r \<and> lexical r) rows))
      else Some hits)"

definition scored :: "search_env \<Rightarrow> search_request \<Rightarrow> mem_row \<times> real \<Rightarrow> search_result" where
  "scored e req p = (case p of (r, sim) \<Rightarrow> \<lparr>sx_row = r, sx_similarity = sim,
     sx_score = (1 - sq_entity_weight req) * memory_score e req sim r + sq_entity_weight req * entity_overlap_score (sq_query req) (mm_content r)\<rparr>)"

definition delivered_row :: "search_env \<Rightarrow> mem_row \<Rightarrow> result_row" where
  "delivered_row e r = \<lparr>rr_id = Some (mm_id r), rr_end = (case mm_valid_to r of None \<Rightarrow> No_End | Some t \<Rightarrow> End_At t),
     rr_metadata = se_column e (mm_metadata r)\<rparr>"

text \<open>The rows that the filter of current rows keeps.\<close>

definition current_rows :: "search_env \<Rightarrow> (mem_row \<times> real) list \<Rightarrow> (mem_row \<times> real) list" where
  "current_rows e ps =
     (let kept = filter_current_search_rows (se_fromiso e) (se_now e) (map (\<lambda>p. delivered_row e (fst p)) ps)
      in filter (\<lambda>p. delivered_row e (fst p) \<in> set kept) ps)"

definition names_roles :: "search_request \<Rightarrow> bool" where
  "names_roles req \<longleftrightarrow> sq_roles req \<noteq> None \<and> sq_roles req \<noteq> Some []"

definition search_memories :: "search_env \<Rightarrow> search_request \<Rightarrow> mem_db \<Rightarrow> (api_error + search_result list) \<times> mem_db" where
  "search_memories e req db =
     (case se_embed e (sq_query req) of
        None \<Rightarrow> (text_search e req (\<lambda>r. True) (mb_rows db), db)
      | Some v \<Rightarrow>
          if names_roles req then (Inl server_error, db)
          else case found_rows e req (\<lambda>r. True) (confident req) v (mb_rows db) of
            None \<Rightarrow> (Inl server_error, db)
          | Some ps \<Rightarrow>
              let ids = (\<lambda>p. mm_id (fst p)) ` set ps in
              (Inr (rerank_lost_in_middle (py_take (sq_limit req) (by_score (map (scored e req) (current_rows e ps))))),
               db\<lparr>mb_rows := update_mem (\<lambda>r. se_sees e r \<and> mm_id r \<in> ids)
                    (\<lambda>r. r\<lparr>mm_access := mm_access r + 1, mm_updated := se_db_now e\<rparr>) (mb_rows db)\<rparr>))"

definition reviewed_learning :: "mem_row \<Rightarrow> bool" where
  "reviewed_learning r \<longleftrightarrow> mm_kind r = ''learning'' \<and> mm_review r \<in> {Some ''accepted'', Some ''legacy'', Some ''accepted_by_timeout''}"

definition learning_recall :: "search_env \<Rightarrow> search_request \<Rightarrow> mem_db \<Rightarrow> api_error + search_result list" where
  "learning_recall e req db =
     (case se_embed e (sq_query req) of
        None \<Rightarrow> text_search e req reviewed_learning (mb_rows db)
      | Some v \<Rightarrow>
          if names_roles req then Inl server_error
          else case found_rows e req reviewed_learning (\<lambda>r. True) v (mb_rows db) of
            None \<Rightarrow> Inl server_error
          | Some ps \<Rightarrow> Inr (py_take (sq_limit req) (by_score (map (scored e req) ps))))"

section \<open>What a search returns\<close>

text \<open>The index yields some of the rows it is given, each at most once.\<close>

definition index_ok :: "search_env \<Rightarrow> bool" where
  "index_ok e \<longleftrightarrow> (\<forall>v l rows. distinct rows \<longrightarrow> set (se_index e v l rows) \<subseteq> set rows \<and> distinct (se_index e v l rows))"

lemma py_take_facts: "set (py_take n xs) \<subseteq> set xs" "0 \<le> n \<Longrightarrow> length (py_take n xs) \<le> nat n" "distinct xs \<Longrightarrow> distinct (py_take n xs)"
  by (auto simp: py_take_def dest: in_set_takeD)

lemma widen_cases: "widen q k ls rows = rows \<or> (\<exists>l\<in>set ls. widen q k ls rows = q l)"
  by (induction ls arbitrary: rows) auto

lemma vector_rows_facts:
  assumes "index_ok e" "distinct rows"
  shows "distinct (vector_rows e req kind v rows) \<and>
    (\<forall>r\<in>set (vector_rows e req kind v rows). r \<in> set rows \<and> asked_for e req r \<and> kind r \<and> confident req r \<and> in_window req r)"
proof -
  let ?cond = "\<lambda>r. mm_embedding r \<noteq> None \<and> asked_for e req r \<and> kind r \<and> confident req r \<and> in_window req r"
  have "vector_rows e req kind v rows = [] \<or> (\<exists>l. vector_rows e req kind v rows = se_index e v l (filter ?cond rows))"
    unfolding vector_rows_def using widen_cases by blast
  moreover have "set (se_index e v l (filter ?cond rows)) \<subseteq> set (filter ?cond rows) \<and> distinct (se_index e v l (filter ?cond rows))" for l
    using assms unfolding index_ok_def by (meson distinct_filter)
  ultimately show ?thesis
    by fastforce
qed

lemma newest_facts:
  assumes "newest limit rows = Some hits"
  shows "set hits \<subseteq> set rows" "distinct rows \<Longrightarrow> distinct hits"
  using assms by (auto simp: newest_def split: if_splits dest: in_set_takeD)

lemma add_lexical_rows: "set (map fst (add_lexical seen rs)) \<subseteq> set rs"
  by (induction seen rs rule: add_lexical.induct) auto

lemma add_lexical_new: "(\<lambda>p. mm_id (fst p)) ` set (add_lexical seen rs) \<inter> seen = {}"
  by (induction seen rs rule: add_lexical.induct) auto

lemma add_lexical_distinct: "distinct (map (\<lambda>p. mm_id (fst p)) (add_lexical seen rs))"
proof (induction seen rs rule: add_lexical.induct)
  case (2 seen r rs)
  have "mm_id r \<notin> (\<lambda>p. mm_id (fst p)) ` set (add_lexical (insert (mm_id r) seen) rs)"
    using add_lexical_new[of "insert (mm_id r) seen" rs] by auto
  then show ?case
    using 2 by simp
qed simp

lemmas add_lexical_facts = add_lexical_rows add_lexical_new add_lexical_distinct

lemma found_rows_facts:
  assumes "index_ok e" "distinct (map mm_id rows)" "found_rows e req kind lexical v rows = Some ps"
  shows "distinct (map (\<lambda>p. mm_id (fst p)) ps) \<and>
    (\<forall>p\<in>set ps. fst p \<in> set rows \<and> asked_for e req (fst p) \<and> kind (fst p) \<and> (confident req (fst p) \<and> in_window req (fst p) \<or> lexical (fst p)))"
proof -
  let ?vs = "vector_rows e req kind v rows"
  let ?hits = "map (\<lambda>r. (r, se_similarity e v (the (mm_embedding r)))) ?vs"
  have rows: "distinct rows"
    using assms(2) by (simp add: distinct_map)
  note vs = vector_rows_facts[OF assms(1) rows, of req kind v]
  have inj: "inj_on mm_id (set ?vs)"
    using vs assms(2) by (meson distinct_map inj_on_subset subsetI)
  have ids: "map (\<lambda>p. mm_id (fst p)) ?hits = map mm_id ?vs"
    by simp
  have d: "distinct (map mm_id ?vs)"
    using vs inj by (simp add: distinct_map)
  consider "ps = ?hits" | ls where "newest (sq_limit req) (filter (\<lambda>r. se_ilike e (sq_query req) (mm_content r) \<and> asked_for e req r \<and> kind r \<and> lexical r) rows) = Some ls"
      "ps = ?hits @ add_lexical (mm_id ` set ?vs) ls"
    using assms(3) by (auto simp: found_rows_def Let_def split: if_splits)
  then show ?thesis
  proof cases
    case 1
    then show ?thesis
      using vs d by (auto simp: comp_def)
  next
    case (2 ls)
    let ?lex = "add_lexical (mm_id ` set ?vs) ls"
    have lex: "fst p \<in> set rows \<and> asked_for e req (fst p) \<and> kind (fst p) \<and> lexical (fst p)" if "p \<in> set ?lex" for p
      using that add_lexical_rows[of "mm_id ` set ?vs" ls] newest_facts(1)[OF 2(1)] by fastforce
    have "distinct (map (\<lambda>p. mm_id (fst p)) (?hits @ ?lex))"
      using d add_lexical_distinct[of "mm_id ` set ?vs" ls] add_lexical_new[of "mm_id ` set ?vs" ls]
      by (simp only: map_append distinct_append ids set_map) auto
    then show ?thesis
      unfolding 2(2) using vs lex by auto
  qed
qed

lemma by_score_facts: "set (by_score rs) = set rs" "distinct (map f (by_score rs)) \<longleftrightarrow> distinct (map f rs)"
proof -
  show "set (by_score rs) = set rs"
    by (simp add: by_score_def)
  have "mset (map f (by_score rs)) = mset (map f rs)"
    by (simp add: by_score_def)
  then show "distinct (map f (by_score rs)) \<longleftrightarrow> distinct (map f rs)"
    by (rule mset_eq_imp_distinct_iff)
qed

lemma py_take_map: "map f (py_take n xs) = py_take n (map f xs)"
  by (simp add: py_take_def take_map)

text \<open>The best results of a list, as every search returns them.\<close>

lemma best_facts:
  assumes "distinct (map f rs)"
  shows "distinct (map f (py_take n (by_score rs)))" "set (py_take n (by_score rs)) \<subseteq> set rs"
  using assms py_take_facts(1)[of n "by_score rs"] py_take_facts(3)[of "map f (by_score rs)" n] by_score_facts(1)[of rs]
    by_score_facts(2)[of f rs]
  unfolding py_take_map by blast+

definition result_id :: "search_result \<Rightarrow> uuid" where
  "result_id x = mm_id (sx_row x)"

lemma text_search_facts:
  assumes "text_search e req kind rows = Inr xs" "distinct (map mm_id rows)" "0 \<le> sq_limit req"
  shows "distinct (map result_id xs) \<and> int (length xs) \<le> sq_limit req \<and>
    (\<forall>x\<in>set xs. sx_row x \<in> set rows \<and> asked_for e req (sx_row x) \<and> kind (sx_row x))"
proof -
  let ?all = "filter (\<lambda>r. se_ilike e (sq_query req) (mm_content r) \<and> asked_for e req r \<and> kind r) rows"
  let ?res = "\<lambda>r. \<lparr>sx_row = r, sx_similarity = 0, sx_score = memory_score e req (1 / 2) r\<rparr>"
  obtain hits where h: "newest (sq_limit req) ?all = Some hits" and xs: "xs = py_take (sq_limit req) (by_score (map ?res hits))"
    using assms(1) by (auto simp: text_search_def split: option.splits)
  have "hits = take (nat (sq_limit req)) (sort_key (\<lambda>r. - mm_updated r) ?all)"
    using h by (simp add: newest_def split: if_splits)
  moreover have "mset (map mm_id (sort_key (\<lambda>r. - mm_updated r) ?all)) = mset (map mm_id ?all)"
    by simp
  then have "distinct (map mm_id (sort_key (\<lambda>r. - mm_updated r) ?all))"
    using mset_eq_imp_distinct_iff distinct_map_filter[OF assms(2)] by blast
  ultimately have "distinct (map mm_id hits)"
    by (simp only: take_map[symmetric] distinct_take)
  then have d: "distinct (map result_id (map ?res hits))"
    by (simp add: result_id_def comp_def)
  have "sx_row x \<in> set ?all" if "x \<in> set xs" for x
  proof -
    have "x \<in> ?res ` set hits"
      using that best_facts(2)[OF d, of "sq_limit req"] unfolding xs by auto
    then show ?thesis
      using newest_facts(1)[OF h] by auto
  qed
  moreover have "distinct (map result_id xs)" "int (length xs) \<le> sq_limit req"
    using best_facts(1)[OF d, of "sq_limit req"] py_take_facts(2)[OF assms(3), of "by_score (map ?res hits)"] assms(3)
    unfolding xs by (auto simp: le_nat_iff)
  ultimately show ?thesis
    by auto
qed

lemma current_rows_subset: "set (current_rows e ps) \<subseteq> set ps" "distinct (map f ps) \<Longrightarrow> distinct (map f (current_rows e ps))"
  by (auto simp: current_rows_def Let_def distinct_map_filter)

lemma scored_result_row [simp]: "sx_row (scored e req p) = fst p"
  by (simp add: scored_def split: prod.split)

lemma scored_ids: "map result_id (map (scored e req) ps) = map (\<lambda>p. mm_id (fst p)) ps"
  by (simp add: result_id_def)

lemma rerank_mset: "mset (rerank_lost_in_middle xs) = mset xs"
proof -
  define k where "k = max 1 (length xs div 5)"
  have "mset xs = mset (take k xs) + mset (take k (drop k xs)) + mset (drop k (drop k xs))"
    by (metis append_take_drop_id mset_append add.assoc)
  then show ?thesis
    by (simp add: rerank_split[OF k_def] drop_drop)
qed

lemma vector_results:
  assumes "distinct (map (\<lambda>p. mm_id (fst p)) ps)" "0 \<le> sq_limit req"
  shows "distinct (map result_id (py_take (sq_limit req) (by_score (map (scored e req) ps)))) \<and>
    int (length (py_take (sq_limit req) (by_score (map (scored e req) ps)))) \<le> sq_limit req \<and>
    sx_row ` set (py_take (sq_limit req) (by_score (map (scored e req) ps))) \<subseteq> fst ` set ps"
proof -
  have d: "distinct (map result_id (map (scored e req) ps))"
    using assms(1) by (simp only: scored_ids)
  show ?thesis
    using best_facts[OF d, of "sq_limit req"] py_take_facts(2)[OF assms(2), of "by_score (map (scored e req) ps)"] assms(2)
    by (auto simp: le_nat_iff) force
qed

text \<open>
  A search returns each memory once and no more memories than asked for, and all of them are
  visible rows that have not ended and belong to the agent and the type asked for.
\<close>

lemma search_facts:
  assumes "search_memories e req db = (Inr xs, db')" "index_ok e" "distinct (map mm_id (mb_rows db))" "0 \<le> sq_limit req"
  shows "distinct (map result_id xs) \<and> int (length xs) \<le> sq_limit req \<and>
    (\<forall>x\<in>set xs. sx_row x \<in> set (mb_rows db) \<and> asked_for e req (sx_row x) \<and>
       (se_embed e (sq_query req) \<noteq> None \<longrightarrow> confident req (sx_row x)))"
proof (cases "se_embed e (sq_query req)")
  case None
  then show ?thesis
    using assms text_search_facts[of e req "\<lambda>r. True"] by (auto simp: search_memories_def)
next
  case (Some v)
  then obtain ps where ps: "found_rows e req (\<lambda>r. True) (confident req) v (mb_rows db) = Some ps"
    and xs: "xs = rerank_lost_in_middle (py_take (sq_limit req) (by_score (map (scored e req) (current_rows e ps))))"
    using assms(1) by (auto simp: search_memories_def Let_def split: if_splits option.splits)
  let ?best = "py_take (sq_limit req) (by_score (map (scored e req) (current_rows e ps)))"
  note found = found_rows_facts[OF assms(2,3) ps]
  have best: "distinct (map result_id ?best) \<and> int (length ?best) \<le> sq_limit req \<and> sx_row ` set ?best \<subseteq> fst ` set (current_rows e ps)"
    using found by (intro vector_results current_rows_subset assms(4)) blast
  have "distinct (map result_id xs)"
    using best mset_eq_imp_distinct_iff[of "map result_id xs" "map result_id ?best"] by (simp add: xs rerank_mset)
  then show ?thesis
    using best found current_rows_subset(1)[of e ps] unfolding xs by fastforce
qed

text \<open>
  (C35) The default recall returns reviewed learning only: never evidence, and nothing whose review
  is open or was refused; each memory once, current, and no more than asked for.
\<close>

theorem recall_is_reviewed_learning:
  assumes "learning_recall e req db = Inr xs" "index_ok e" "distinct (map mm_id (mb_rows db))" "0 \<le> sq_limit req"
  shows "distinct (map result_id xs) \<and> int (length xs) \<le> sq_limit req \<and>
    (\<forall>x\<in>set xs. sx_row x \<in> set (mb_rows db) \<and> asked_for e req (sx_row x) \<and> reviewed_learning (sx_row x))"
proof (cases "se_embed e (sq_query req)")
  case None
  then show ?thesis
    using assms text_search_facts[of e req reviewed_learning] by (auto simp: learning_recall_def)
next
  case (Some v)
  then obtain ps where ps: "found_rows e req reviewed_learning (\<lambda>r. True) v (mb_rows db) = Some ps"
    and xs: "xs = py_take (sq_limit req) (by_score (map (scored e req) ps))"
    using assms(1) by (auto simp: learning_recall_def split: if_splits option.splits)
  note found = found_rows_facts[OF assms(2,3) ps]
  have "distinct (map result_id xs) \<and> int (length xs) \<le> sq_limit req \<and> sx_row ` set xs \<subseteq> fst ` set ps"
    using found unfolding xs by (intro vector_results assms(4)) blast
  then show ?thesis
    using found by fastforce
qed

section \<open>Writing, then searching\<close>

text \<open>Later writes to the tables, whatever their outcomes.\<close>

definition later_writes :: "(mem_env \<times> memory_create) list \<Rightarrow> mem_db \<Rightarrow> mem_db" where
  "later_writes ws db = fold (\<lambda>(e, req) db. snd (api_create_memory e req db)) ws db"

lemma later_writes_keep: "mem_db_ok db \<Longrightarrow> mem_db_ok (later_writes ws db) \<and> closes_only (mb_rows db) (mb_rows (later_writes ws db))"
proof (induction ws arbitrary: db)
  case Nil
  then show ?case by (simp add: later_writes_def closes_only_refl)
next
  case (Cons w ws)
  obtain e req where w: "w = (e, req)" by (cases w)
  show ?case
    using Cons.IH[OF create_keeps_ok[OF Cons.prems, of e req]] closes_only_create[of db e req] closes_only_trans
    by (auto simp: later_writes_def w)
qed

lemma ended_rows_stay_ended:
  assumes "closes_only a b" "distinct (map mm_id b)" "r \<in> set a" "mm_valid_to r \<noteq> None" "s \<in> set b" "mm_id s = mm_id r"
  shows "mm_valid_to s \<noteq> None"
proof -
  obtain r' where r': "r' \<in> set b" "ident r' = ident r" "mm_valid_to r' = mm_valid_to r"
    using assms(1,3,4) unfolding closes_only_def by blast
  then have "r' = s"
    using assms(2,5,6) by (metis Pair_inject distinct_map ident_def inj_onD)
  with r' assms(4) show ?thesis by simp
qed


section \<open>Behaviour of note\<close>

text \<open>A search that names roles fails whenever the query has an embedding, and without one the roles are not looked at.\<close>

lemma roles_never_help:
  assumes "names_roles req" "se_embed e (sq_query req) = Some v"
  shows "fst (search_memories e req db) = Inl server_error" "learning_recall e req db = Inl server_error"
  using assms by (simp_all add: search_memories_def learning_recall_def)

lemma roles_ignored_without_embedding:
  assumes "se_embed e (sq_query req) = None"
  shows "search_memories e (req\<lparr>sq_roles := roles, sq_from := t, sq_to := u, sq_min_confidence := c\<rparr>) db = search_memories e req db"
  using assms by (simp add: search_memories_def text_search_def memory_score_def asked_for_def split: option.split)

text \<open>A row that was just written has no review status, so the default recall never returns it.\<close>

lemma new_learning_is_not_recalled: "\<not> reviewed_learning (inserted_mem e req md)"
  by (simp add: reviewed_learning_def inserted_mem_def)

section \<open>Examples\<close>

definition search_env_ex :: search_env where
  "search_env_ex = \<lparr>se_now = 0, se_db_now = 0, se_embed = (\<lambda>s. None), se_similarity = (\<lambda>v w. 0), se_ilike = (\<lambda>q c. True),
     se_index = (\<lambda>v l rows. take (nat l) rows), se_column = (\<lambda>p. JStr []), se_fromiso = (\<lambda>s. None), se_sees = (\<lambda>r. True), se_rate = 0\<rparr>"

definition search_req_ex :: search_request where
  "search_req_ex = \<lparr>sq_query = ''x'', sq_limit = 5, sq_agent = None, sq_type = None, sq_min_confidence = 0, sq_temporal_weight = 3 / 10,
     sq_min_results = 3, sq_steps = 3, sq_lexical = True, sq_from = None, sq_to = None, sq_entity_weight = 15 / 100, sq_roles = None\<rparr>"

lemma search_env_ex_index: "index_ok search_env_ex"
  by (auto simp: index_ok_def search_env_ex_def dest: in_set_takeD)


theorem recall_is_reviewed_learning_witness:
  "\<exists>xs. learning_recall search_env_ex search_req_ex (mem_db_ex\<lparr>mb_rows := [mem_row_ex\<lparr>mm_review := Some ''accepted''\<rparr>]\<rparr>) = Inr xs \<and>
     map result_id xs = [''m0''] \<and> list_all (\<lambda>x. reviewed_learning (sx_row x)) xs"
proof -
  let ?db = "mem_db_ex\<lparr>mb_rows := [mem_row_ex\<lparr>mm_review := Some ''accepted''\<rparr>]\<rparr>"
  obtain xs where xs: "learning_recall search_env_ex search_req_ex ?db = Inr xs" "map result_id xs = [''m0'']"
    by (simp add: learning_recall_def text_search_def newest_def search_env_ex_def search_req_ex_def asked_for_def opt_eq_def type_eq_def
        reviewed_learning_def mem_row_ex_def py_take_def by_score_def result_id_def)
  have "distinct (map mm_id (mb_rows ?db))" "0 \<le> sq_limit search_req_ex"
    by (simp_all add: search_req_ex_def)
  from recall_is_reviewed_learning[OF xs(1) search_env_ex_index this] xs show ?thesis
    by (auto simp: list_all_iff)
qed

end
