(* ===== verification/Forensic_Recall.thy ===== *)
theory Forensic_Recall imports Memory_Store "HOL-Library.Product_Lexorder" begin

text \<open>
  The forensic recall of evidence (\<open>forensic_recall\<close>, \<open>_build_forensic_item\<close> and
  \<open>_has_role_access\<close> of \<open>memu/api.py\<close>) over the tables of \<open>Memory_Store\<close>: filters, pages with a
  cursor, and what is shown of a record.

  \<open>fe_pystr\<close> is \<open>str\<close> of a JSON value and \<open>fe_jsonb_text\<close> its text in PostgreSQL; \<open>fe_fromiso\<close> is
  \<open>datetime.fromisoformat\<close>; \<open>fe_timestamptz\<close> is what driver and database make of a text bound to a
  parameter of type \<open>timestamptz\<close>, \<open>None\<close> when they refuse it. \<open>read_pages\<close> is a client that asks for
  page after page. Identifiers compare as their texts do.

  Proved: following the cursors from the first page yields every matching record exactly once, in
  order of creation, and ends; content is shown only when it was asked for and the roles allow it.
\<close>

section \<open>Roles and redaction\<close>

definition has_role_access :: "string list \<Rightarrow> string list option \<Rightarrow> bool" where
  "has_role_access allowed roles \<longleftrightarrow>
     (case roles of None \<Rightarrow> True | Some rs \<Rightarrow> ''*'' \<in> set allowed \<or> set allowed \<inter> set rs \<noteq> {})"

record forensic_env =
  fe_sees :: "mem_row \<Rightarrow> bool"
  fe_pystr :: "json \<Rightarrow> string"
  fe_jsonb_text :: "json \<Rightarrow> string"
  fe_fromiso :: "string \<Rightarrow> time option"
  fe_timestamptz :: "string \<Rightarrow> time option"

record forensic_item =
  fi_id :: uuid
  fi_kind :: string
  fi_type :: string
  fi_content :: "string option"
  fi_redacted :: bool
  fi_reason :: "string option"
  fi_event_type :: "string option"
  fi_event_at :: "time option"
  fi_task :: "string option"
  fi_session :: "string option"
  fi_gateway :: "string option"
  fi_agent :: string
  fi_source :: "string option"
  fi_source_ref :: "string option"
  fi_artifacts :: "string list"
  fi_roles :: "string list"
  fi_provenance :: "string list"
  fi_created :: time

definition as_text :: "json \<Rightarrow> string option" where
  "as_text v = (case v of JStr s \<Rightarrow> Some s | _ \<Rightarrow> None)"

text \<open>A field the response declares as an optional text; a value of another type fails validation.\<close>

definition text_field :: "payload \<Rightarrow> string \<Rightarrow> string option option" where
  "text_field md k = (case dict_get md k of None \<Rightarrow> Some None | Some JNull \<Rightarrow> Some None | Some v \<Rightarrow> map_option Some (as_text v))"

text \<open>\<open>metadata.get("allowed_roles") or ["*"]\<close>, which the response declares as a list of texts.\<close>

definition item_roles :: "payload \<Rightarrow> string list option" where
  "item_roles md =
     (case dict_get md ''allowed_roles'' of None \<Rightarrow> Some [''*'']
      | Some v \<Rightarrow> if \<not> truthy v then Some [''*''] else case v of JList vs \<Rightarrow> those (map as_text vs) | _ \<Rightarrow> None)"

text \<open>A list of values or one text, as texts.\<close>

definition texts_of :: "forensic_env \<Rightarrow> payload \<Rightarrow> string \<Rightarrow> string list" where
  "texts_of e md k =
     (case dict_get md k of Some (JList vs) \<Rightarrow> map (fe_pystr e) vs
      | Some (JStr s) \<Rightarrow> if s = [] then [] else [s]
      | _ \<Rightarrow> [])"

definition item_event_at :: "forensic_env \<Rightarrow> payload \<Rightarrow> time option" where
  "item_event_at e md =
     (case dict_get md ''event_at'' of None \<Rightarrow> None
      | Some v \<Rightarrow> if truthy v then fe_fromiso e (replace_all ''Z'' ''+00:00'' (fe_pystr e v)) else None)"

definition redaction :: "bool \<Rightarrow> string list \<Rightarrow> string list option \<Rightarrow> string option" where
  "redaction include_content allowed roles =
     (if \<not> include_content then Some ''content_excluded_by_request''
      else if \<not> has_role_access allowed roles then Some ''role_access_denied'' else None)"

definition build_forensic_item :: "forensic_env \<Rightarrow> bool \<Rightarrow> string list option \<Rightarrow> mem_row \<Rightarrow> forensic_item option" where
  "build_forensic_item e include_content roles r =
     (let md = mm_metadata r in
      case (item_roles md, those (map (text_field md) [''event_type'', ''task_id'', ''session_id'', ''gateway_id'', ''source'', ''source_ref''])) of
        (Some allowed, Some [event_type, task, session, gateway, source, source_ref]) \<Rightarrow>
          let why = redaction include_content allowed roles in
          Some \<lparr>fi_id = mm_id r,
            fi_kind = (if mm_kind r = [] then ''evidence'' else mm_kind r),
            fi_type = (if mm_type r = [] then ''unknown'' else mm_type r),
            fi_content = (if why = None then Some (mm_content r) else None),
            fi_redacted = (why \<noteq> None), fi_reason = why,
            fi_event_type = event_type, fi_event_at = item_event_at e md,
            fi_task = task, fi_session = session, fi_gateway = gateway, fi_agent = mm_agent r,
            fi_source = source, fi_source_ref = source_ref,
            fi_artifacts = texts_of e md ''artifact_refs'', fi_roles = allowed,
            fi_provenance = concat (map (texts_of e md) [''source_evidence_ids'', ''superseded_ids'', ''correction_of'']),
            fi_created = mm_created r\<rparr>
      | _ \<Rightarrow> None)"

section \<open>Filters, cursors and pages\<close>

record forensic_request =
  fq_query :: "string option"
  fq_task :: "string option"
  fq_session :: "string option"
  fq_gateway :: "string option"
  fq_agent :: "string option"
  fq_event :: "string option"
  fq_from :: "time option"
  fq_to :: "time option"
  fq_artifact :: "string option"
  fq_limit :: int
  fq_cursor :: "string option"
  fq_content :: bool
  fq_roles :: "string list option"

text \<open>The operator \<open>->>\<close>.\<close>

definition field_text :: "forensic_env \<Rightarrow> payload \<Rightarrow> string \<Rightarrow> string option" where
  "field_text e md k =
     (case dict_get md k of None \<Rightarrow> None | Some JNull \<Rightarrow> None | Some (JStr s) \<Rightarrow> Some s | Some v \<Rightarrow> Some (fe_jsonb_text e v))"

definition wants :: "string option \<Rightarrow> string option \<Rightarrow> bool" where
  "wants wanted actual \<longleftrightarrow> (nonempty wanted \<longrightarrow> actual = wanted)"

definition forensic_match :: "forensic_env \<Rightarrow> forensic_request \<Rightarrow> mem_row \<Rightarrow> bool" where
  "forensic_match e req r \<longleftrightarrow>
     (let md = mm_metadata r in
      fe_sees e r \<and> mm_kind r = ''evidence'' \<and> mm_valid_to r = None \<and>
      wants (fq_task req) (field_text e md ''task_id'') \<and>
      wants (fq_session req) (field_text e md ''session_id'') \<and>
      wants (fq_gateway req) (field_text e md ''gateway_id'') \<and>
      wants (fq_agent req) (Some (mm_agent r)) \<and>
      wants (fq_event req) (field_text e md ''event_type'') \<and>
      (case fq_from req of None \<Rightarrow> True | Some t \<Rightarrow> t \<le> mm_created r) \<and>
      (case fq_to req of None \<Rightarrow> True | Some t \<Rightarrow> mm_created r \<le> t) \<and>
      (nonempty (fq_artifact req) \<longrightarrow>
        (case dict_get md ''artifact_refs'' of Some (JList vs) \<Rightarrow> JStr (the (fq_artifact req)) \<in> set vs | _ \<Rightarrow> False)))"

text \<open>\<open>rsplit("__", 1)\<close>: the parts around the last marker.\<close>

fun rsplit_marker :: "string \<Rightarrow> (string \<times> string) option" where
  "rsplit_marker [] = None"
| "rsplit_marker (c # s) =
     (case rsplit_marker s of
        Some (a, b) \<Rightarrow> Some (c # a, b)
      | None \<Rightarrow> if is_prefix ''__'' (c # s) then Some ([], drop 1 s) else None)"

text \<open>The rows after the one a cursor names; without a cursor, all rows.\<close>

definition after_cursor :: "forensic_env \<Rightarrow> string option \<Rightarrow> api_error + (mem_row \<Rightarrow> bool)" where
  "after_cursor e cursor =
     (if \<not> nonempty cursor then Inr (\<lambda>r. True)
      else case rsplit_marker (the cursor) of
        None \<Rightarrow> Inl (http_error 400 ''Invalid pagination cursor.'')
      | Some (ts, i) \<Rightarrow>
          (case fe_timestamptz e ts of
             None \<Rightarrow> Inl server_error
           | Some t \<Rightarrow> Inr (\<lambda>r. t < mm_created r \<or> mm_created r = t \<and> i < mm_id r)))"

record forensic_page =
  fp_items :: "forensic_item list"
  fp_next :: "string option"

definition cursor_text :: "mem_row \<Rightarrow> string" where
  "cursor_text r = iso_utc (mm_created r) @ ''__'' @ mm_id r"

definition row_order :: "mem_row \<Rightarrow> time \<times> uuid" where
  "row_order r = (mm_created r, mm_id r)"

definition forensic_recall :: "forensic_env \<Rightarrow> forensic_request \<Rightarrow> mem_db \<Rightarrow> api_error + forensic_page" where
  "forensic_recall e req db =
     (if fq_limit req < 1 \<or> 200 < fq_limit req then Inl unprocessable
      else case after_cursor e (fq_cursor req) of
        Inl err \<Rightarrow> Inl err
      | Inr after \<Rightarrow>
          let limit = nat (fq_limit req);
              rows = take (limit + 1) (sort_key row_order (filter (\<lambda>r. forensic_match e req r \<and> after r) (mb_rows db)));
              page = take limit rows in
          (case those (map (build_forensic_item e (fq_content req) (fq_roles req)) page) of
             None \<Rightarrow> Inl server_error
           | Some items \<Rightarrow> Inr \<lparr>fp_items = items,
               fp_next = (if limit < length rows \<and> page \<noteq> [] then Some (cursor_text (last page)) else None)\<rparr>))"

section \<open>What is shown\<close>

lemma those_Some: "those xs = Some ys \<longleftrightarrow> xs = map Some ys"
proof (induction xs arbitrary: ys)
  case (Cons x xs)
  then show ?case by (cases ys) (auto split: option.splits)
qed auto

lemma content_shown_to_roles:
  assumes "build_forensic_item e include_content roles r = Some i" "fi_content i = Some c"
  shows "include_content \<and> c = mm_content r \<and>
    (\<exists>allowed. item_roles (mm_metadata r) = Some allowed \<and> has_role_access allowed roles)"
  using assms by (auto simp: build_forensic_item_def Let_def redaction_def split: option.splits list.splits if_splits)

lemma item_identity:
  assumes "build_forensic_item e include_content roles r = Some i"
  shows "fi_id i = mm_id r \<and> fi_created i = mm_created r \<and> (fi_redacted i \<longleftrightarrow> fi_content i = None)"
  using assms by (auto simp: build_forensic_item_def Let_def split: option.splits list.splits if_splits)

section \<open>Following the cursors\<close>

fun read_pages :: "nat \<Rightarrow> forensic_env \<Rightarrow> forensic_request \<Rightarrow> mem_db \<Rightarrow> forensic_item list option" where
  "read_pages 0 e req db = None"
| "read_pages (Suc n) e req db =
     (case forensic_recall e req db of
        Inl err \<Rightarrow> None
      | Inr p \<Rightarrow> (case fp_next p of
            None \<Rightarrow> Some (fp_items p)
          | Some c \<Rightarrow> map_option (\<lambda>rest. fp_items p @ rest) (read_pages n e (req\<lparr>fq_cursor := Some c\<rparr>) db)))"

lemma no_marker: "CHR ''_'' \<notin> set s \<Longrightarrow> rsplit_marker s = None"
  by (induction s) (auto simp: is_prefix_def split: option.splits)

lemma rsplit_at_marker:
  assumes "CHR ''_'' \<notin> set b"
  shows "rsplit_marker (a @ ''__'' @ b) = Some (a, b)"
proof (induction a)
  case Nil
  have "rsplit_marker (CHR ''_'' # b) = None"
    using assms no_marker[OF assms] by (cases b) (auto simp: is_prefix_def)
  then show ?case by (simp add: is_prefix_def)
next
  case (Cons c a)
  then show ?case by simp
qed

text \<open>What the cursor of a row stands for, when the database reads back the instant it printed.\<close>

lemma after_cursor_text:
  assumes "fe_timestamptz e (iso_utc (mm_created y)) = Some (mm_created y)" "CHR ''_'' \<notin> set (mm_id y)"
  shows "after_cursor e (Some (cursor_text y)) = Inr (\<lambda>r. row_order y < row_order r)"
proof -
  have "rsplit_marker (cursor_text y) = Some (iso_utc (mm_created y), mm_id y)"
    unfolding cursor_text_def by (rule rsplit_at_marker[OF assms(2)])
  moreover have "nonempty (Some (cursor_text y))"
    by (simp add: cursor_text_def)
  moreover have "(\<lambda>r. mm_created y < mm_created r \<or> mm_created r = mm_created y \<and> mm_id y < mm_id r) = (\<lambda>r. row_order y < row_order r)"
    by (auto simp: row_order_def less_prod_def')
  ultimately show ?thesis
    using assms(1) by (simp add: after_cursor_def)
qed

text \<open>In a list of distinct keys in order, the elements after one are those with a greater key.\<close>

lemma greater_is_rest:
  assumes "sorted (map f (xs @ y # ys))" "distinct (map f (xs @ y # ys))"
  shows "filter (\<lambda>r. f y < f r) (xs @ y # ys) = ys"
proof -
  have "\<not> f y < f r" if "r \<in> set xs" for r
    using assms(1) that by (auto simp: sorted_append)
  moreover have "f y < f r" if "r \<in> set ys" for r
    using assms that by (auto simp: sorted_append order.strict_iff_order)
  ultimately show ?thesis
    by (simp add: filter_empty_conv[THEN iffD2] filter_id_conv[THEN iffD2])
qed

definition evidence_in_order :: "forensic_env \<Rightarrow> forensic_request \<Rightarrow> mem_db \<Rightarrow> mem_row list" where
  "evidence_in_order e req db = sort_key row_order (filter (forensic_match e req) (mb_rows db))"

lemma forensic_match_request:
  "forensic_match e (req\<lparr>fq_cursor := c\<rparr>) = forensic_match e req" "forensic_match e (req\<lparr>fq_query := c\<rparr>) = forensic_match e req"
  by (intro ext; simp add: forensic_match_def Let_def split: option.split json.split)+

lemma evidence_in_order_facts:
  assumes "distinct (map mm_id (mb_rows db))"
  shows "sorted (map row_order (evidence_in_order e req db))" "distinct (map row_order (evidence_in_order e req db))"
    "set (evidence_in_order e req db) = {r \<in> set (mb_rows db). forensic_match e req r}"
proof -
  show "sorted (map row_order (evidence_in_order e req db))"
    by (simp add: evidence_in_order_def)
  show "set (evidence_in_order e req db) = {r \<in> set (mb_rows db). forensic_match e req r}"
    by (auto simp: evidence_in_order_def)
  have "inj_on row_order (set (mb_rows db))" "distinct (mb_rows db)"
    using assms by (auto simp: distinct_map inj_on_def row_order_def)
  then show "distinct (map row_order (evidence_in_order e req db))"
    by (auto simp: evidence_in_order_def distinct_map intro: inj_on_subset)
qed

text \<open>The request at any cursor: its page is the front of the records that remain.\<close>

lemma page_of_rest:
  assumes "1 \<le> fq_limit req" "fq_limit req \<le> 200" "after_cursor e (fq_cursor req) = Inr after"
    and rest: "filter after (evidence_in_order e req db) = rest"
    and items: "map (build_forensic_item e (fq_content req) (fq_roles req)) rest = map Some is"
  shows "forensic_recall e req db = Inr \<lparr>fp_items = take (nat (fq_limit req)) is,
    fp_next = (if nat (fq_limit req) < length rest then Some (cursor_text (rest ! (nat (fq_limit req) - 1))) else None)\<rparr>"
proof -
  let ?n = "nat (fq_limit req)"
  have n: "0 < ?n"
    using assms(1) by simp
  have rows: "sort_key row_order (filter (\<lambda>r. forensic_match e req r \<and> after r) (mb_rows db)) = rest"
    unfolding rest[symmetric] evidence_in_order_def
    by (simp add: filter_sort conj_commute)
  have "those (map (build_forensic_item e (fq_content req) (fq_roles req)) (take ?n rest)) = Some (take ?n is)"
    using items by (simp add: those_Some take_map[symmetric])
  moreover have "last (take ?n rest) = rest ! (?n - 1)" if "?n < length rest"
    using that n by (subst last_conv_nth) auto
  ultimately show ?thesis
    using assms(1-3) n rows by (auto simp: forensic_recall_def Let_def min_def)
qed

lemma read_pages_rest:
  assumes "1 \<le> fq_limit req" "fq_limit req \<le> 200" "after_cursor e (fq_cursor req) = Inr after"
    and "evidence_in_order e req db = before @ rest" "filter after (evidence_in_order e req db) = rest"
    and "map (build_forensic_item e (fq_content req) (fq_roles req)) rest = map Some is" "length rest < n"
    and ts: "\<forall>r\<in>set (mb_rows db). fe_timestamptz e (iso_utc (mm_created r)) = Some (mm_created r)" and ids: "\<forall>r\<in>set (mb_rows db). CHR ''_'' \<notin> set (mm_id r)"
    and d: "distinct (map mm_id (mb_rows db))"
  shows "read_pages n e req db = Some is"
  using assms(1-7)
proof (induction n arbitrary: req after before rest "is")
  case (Suc n)
  let ?l = "nat (fq_limit req)"
  note page = page_of_rest[OF Suc.prems(1-3,5,6)]
  have len: "length is = length rest"
    using Suc.prems(6) by (metis length_map)
  show ?case
  proof (cases "?l < length rest")
    case False
    then show ?thesis
      using page len by simp
  next
    case True
    let ?y = "rest ! (?l - 1)" and ?req = "req\<lparr>fq_cursor := Some (cursor_text (rest ! (?l - 1)))\<rparr>"
    have l: "0 < ?l"
      using Suc.prems(1) by simp
    have split: "evidence_in_order e req db = (before @ take (?l - 1) rest) @ ?y # drop ?l rest"
      using Suc.prems(4) True l id_take_nth_drop[of "?l - 1" rest] by simp
    have same: "evidence_in_order e ?req db = evidence_in_order e req db"
      by (simp add: evidence_in_order_def forensic_match_request)
    have "?y \<in> set (mb_rows db)"
      using split evidence_in_order_facts(3)[OF d, of e req] by (metis (no_types, lifting) in_set_conv_decomp mem_Collect_eq)
    then have after: "after_cursor e (fq_cursor ?req) = Inr (\<lambda>r. row_order ?y < row_order r)"
      using after_cursor_text ts ids by simp
    have rest: "filter (\<lambda>r. row_order ?y < row_order r) (evidence_in_order e ?req db) = drop ?l rest"
      using greater_is_rest[of row_order "before @ take (?l - 1) rest" ?y "drop ?l rest"] evidence_in_order_facts(1,2)[OF d, of e req]
      unfolding same split by blast
    have "read_pages n e ?req db = Some (drop ?l is)"
    proof (rule Suc.IH[OF _ _ after _ rest])
      show "evidence_in_order e ?req db = (before @ take ?l rest) @ drop ?l rest"
        using Suc.prems(4) same by simp
      show "map (build_forensic_item e (fq_content ?req) (fq_roles ?req)) (drop ?l rest) = map Some (drop ?l is)"
        using Suc.prems(6) by (simp add: drop_map[symmetric])
      show "length (drop ?l rest) < n"
        using Suc.prems(7) True l by simp
    qed (use Suc.prems in simp_all)
    then show ?thesis
      using page True by simp
  qed
qed simp


section \<open>Behaviour of note\<close>

text \<open>With a driver that takes no text for the cursor's instant, every page after the first fails.\<close>

lemma refused_instants_end_paging:
  assumes "\<forall>ts. fe_timestamptz e ts = None" "nonempty (fq_cursor req)"
  shows "\<exists>err. forensic_recall e req db = Inl err"
  using assms by (auto simp: forensic_recall_def after_cursor_def split: option.splits)

text \<open>The query of a request is never looked at.\<close>

lemma query_is_ignored: "forensic_recall e (req\<lparr>fq_query := q\<rparr>) db = forensic_recall e req db"
  by (simp add: forensic_recall_def forensic_match_request cong: sum.case_cong)

text \<open>One record whose task identifier is a number makes every page it belongs to fail.\<close>

lemma number_for_text_fails:
  assumes "dict_get (mm_metadata r) k = Some (JInt i)"
    "k \<in> {''event_type'', ''task_id'', ''session_id'', ''gateway_id'', ''source'', ''source_ref''}"
  shows "build_forensic_item e include_content roles r = None"
proof -
  have "text_field (mm_metadata r) k = None"
    using assms(1) by (simp add: text_field_def as_text_def)
  then have "those (map (text_field (mm_metadata r)) [''event_type'', ''task_id'', ''session_id'', ''gateway_id'', ''source'', ''source_ref'']) = None"
    using assms(2) by (auto split: option.splits)
  then show ?thesis
    by (simp add: build_forensic_item_def Let_def del: those.simps list.map split: option.split)
qed

section \<open>Examples\<close>

definition forensic_env_ex :: forensic_env where
  "forensic_env_ex = \<lparr>fe_sees = (\<lambda>r. True), fe_pystr = (\<lambda>v. []), fe_jsonb_text = (\<lambda>v. []), fe_fromiso = (\<lambda>s. None),
     fe_timestamptz = (\<lambda>s. Some (if s = iso_utc 0 then 0 else 1000000))\<rparr>"

definition forensic_req_ex :: forensic_request where
  "forensic_req_ex = \<lparr>fq_query = None, fq_task = None, fq_session = None, fq_gateway = None, fq_agent = None, fq_event = None,
     fq_from = None, fq_to = None, fq_artifact = None, fq_limit = 1, fq_cursor = None, fq_content = True, fq_roles = Some []\<rparr>"

definition forensic_db_ex :: mem_db where
  "forensic_db_ex = \<lparr>mb_rows = [mem_row_ex\<lparr>mm_kind := ''evidence'', mm_created := 1000000\<rparr>,
     mem_row_ex\<lparr>mm_id := ''m1'', mm_kind := ''evidence'', mm_metadata := [(''allowed_roles'', JList [JStr ''auditor''])]\<rparr>], mb_links = []\<rparr>"


end
