(* ===== verification/Temporal_Queries.thy ===== *)
theory Temporal_Queries imports Memory_Search begin

text \<open>
  Superseding a memory by hand, its history, links, current entities and the two queries about time
  of \<open>memu/api.py\<close>, over the tables of \<open>Memory_Store\<close>.

  \<open>valid_from\<close> is written by no statement: its default is the instant of the insert, as that of
  \<open>created_at\<close>. Links keep the order in which they were inserted, which is that of their
  \<open>created_at\<close>. \<open>takes_dict\<close> says whether the driver takes a dict for a \<open>jsonb\<close> parameter; \<open>fromiso\<close> is
  \<open>datetime.fromisoformat\<close>, with the result as an instant. The age that a temporal search reports is
  not rounded.

  Proved: superseding either ends exactly the old memory and links it to the new one or changes
  nothing, and keeps the tables consistent; and what a point in time answers about the past is not
  changed by later writes and supersessions.
\<close>

section \<open>Superseding\<close>

record supersede_request =
  su_old :: uuid
  su_new :: uuid
  su_relationship :: string
  su_strength :: real
  su_metadata :: "payload option"

text \<open>A current row with an identifier that the connection sees.\<close>

definition current_row :: "mem_env \<Rightarrow> uuid \<Rightarrow> mem_row \<Rightarrow> bool" where
  "current_row e i r \<longleftrightarrow> me_sees e r \<and> mm_id r = i \<and> mm_valid_to r = None"

definition end_now :: "mem_env \<Rightarrow> mem_row \<Rightarrow> mem_row" where
  "end_now e r = r\<lparr>mm_valid_to := Some (me_db_now e), mm_updated := me_db_now e\<rparr>"

definition link_refused :: "mem_link \<Rightarrow> bool" where
  "link_refused l \<longleftrightarrow> mk_relationship l \<notin> link_relationships \<or> mk_strength l < 0 \<or> 1 < mk_strength l \<or> mk_source l = mk_target l"

definition requested_link :: "supersede_request \<Rightarrow> mem_link" where
  "requested_link req = \<lparr>mk_source = su_new req, mk_target = su_old req, mk_relationship = su_relationship req,
     mk_strength = su_strength req, mk_metadata = (case su_metadata req of None \<Rightarrow> [] | Some md \<Rightarrow> md)\<rparr>"

text \<open>
  One transaction: when a step raises, nothing is changed. The result is the link; when one with
  the same key is there, it is the first link between the two memories.
\<close>

definition supersede_entity :: "mem_env \<Rightarrow> bool \<Rightarrow> supersede_request \<Rightarrow> mem_db \<Rightarrow> (api_error + mem_link) \<times> mem_db" where
  "supersede_entity e takes_dict req db =
     (if \<not> (\<exists>r\<in>set (mb_rows db). current_row e (su_old req) r)
      then (Inl (http_error 404 (''Memory '' @ su_old req @ '' not found or already superseded'')), db)
      else let rows = update_mem (current_row e (su_old req)) (end_now e) (mb_rows db); l = requested_link req in
        if \<not> (\<exists>r\<in>set rows. current_row e (su_new req) r)
        then (Inl (http_error 404 (''Superseding memory '' @ su_new req @ '' not found or already superseded'')), db)
        else if \<not> takes_dict \<or> link_refused l then (Inl server_error, db)
        else let k = (if \<exists>k\<in>set (mb_links db). memory_link_key k = memory_link_key l
                      then the (find (\<lambda>k. mk_source k = su_new req \<and> mk_target k = su_old req) (mb_links db)) else l)
          in (Inr k, db\<lparr>mb_rows := rows, mb_links := put_link l (\<lambda>k. k) (mb_links db)\<rparr>))"

record link_request =
  lq_source :: uuid
  lq_target :: uuid
  lq_relationship :: string
  lq_strength :: real

text \<open>Every failure of the statement is answered with status 400 and the text of the exception.\<close>

definition create_link :: "(mem_link \<Rightarrow> string) \<Rightarrow> link_request \<Rightarrow> mem_db \<Rightarrow> (api_error + mem_link) \<times> mem_db" where
  "create_link message req db =
     (let l = \<lparr>mk_source = lq_source req, mk_target = lq_target req, mk_relationship = lq_relationship req,
               mk_strength = lq_strength req, mk_metadata = []\<rparr>;
          links = put_link l (\<lambda>k. k\<lparr>mk_strength := min 1 (mk_strength k + 1 / 10)\<rparr>) (mb_links db) in
      if link_refused l \<or> \<not> {lq_source req, lq_target req} \<subseteq> mm_id ` set (mb_rows db) then (Inl (http_error 400 (message l)), db)
      else case find (\<lambda>k. memory_link_key k = memory_link_key l) links of
        None \<Rightarrow> (Inl (http_error 400 (message l)), db)
      | Some k \<Rightarrow> (Inr k, db\<lparr>mb_links := links\<rparr>))"

text \<open>The links of a memory with the memory at the other end, the strongest first.\<close>

definition get_links :: "(mem_row \<Rightarrow> bool) \<Rightarrow> uuid \<Rightarrow> mem_db \<Rightarrow> (mem_link \<times> mem_row) list" where
  "get_links sees i db =
     sort_key (\<lambda>(k, r). - mk_strength k)
       (concat (map (\<lambda>k. map (Pair k) (filter (\<lambda>r. sees r \<and> mm_id r = (if mk_source k = i then mk_target k else mk_source k)) (mb_rows db)))
          (filter (\<lambda>k. mk_source k = i \<or> mk_target k = i) (mb_links db))))"

text \<open>The memories that a memory supersedes, the latest link first, and the latest that supersedes it.\<close>

definition superseding_links :: "(mem_row \<Rightarrow> bool) \<Rightarrow> (mem_link \<Rightarrow> uuid) \<Rightarrow> (mem_link \<Rightarrow> uuid) \<Rightarrow> uuid \<Rightarrow> mem_db \<Rightarrow> (mem_link \<times> mem_row) list" where
  "superseding_links sees here there i db =
     rev (concat (map (\<lambda>k. map (Pair k) (filter (\<lambda>r. sees r \<and> mm_id r = there k) (mb_rows db)))
       (filter (\<lambda>k. here k = i \<and> mk_relationship k = ''supersedes'') (mb_links db))))"

definition get_superseded_history :: "(mem_row \<Rightarrow> bool) \<Rightarrow> uuid \<Rightarrow> mem_db \<Rightarrow> (mem_link \<times> mem_row) option \<times> (mem_link \<times> mem_row) list" where
  "get_superseded_history sees i db =
     ((case superseding_links sees mk_target mk_source i db of [] \<Rightarrow> None | h # _ \<Rightarrow> Some h),
      superseding_links sees mk_source mk_target i db)"

section \<open>Queries\<close>

definition newest_created :: "int \<Rightarrow> mem_row list \<Rightarrow> api_error + mem_row list" where
  "newest_created limit rows =
     (if limit < 0 then Inl server_error else Inr (take (nat limit) (sort_key (\<lambda>r. - mm_created r) rows)))"

definition get_current_entities ::
    "(mem_row \<Rightarrow> bool) \<Rightarrow> string option \<Rightarrow> string option \<Rightarrow> int \<Rightarrow> mem_db \<Rightarrow> api_error + mem_row list" where
  "get_current_entities sees agent memory_type limit db =
     newest_created limit (filter (\<lambda>r. sees r \<and> mm_valid_to r = None \<and> opt_eq agent (mm_agent r) \<and> opt_eq memory_type (mm_type r)) (mb_rows db))"

text \<open>A memory known at an instant: created by then and not ended by then.\<close>

definition known_at :: "time \<Rightarrow> mem_row \<Rightarrow> bool" where
  "known_at p r \<longleftrightarrow> mm_created r \<le> p \<and> (case mm_valid_to r of None \<Rightarrow> True | Some t \<Rightarrow> p < t)"

definition point_in_time_query ::
    "(mem_row \<Rightarrow> bool) \<Rightarrow> (string \<Rightarrow> time option) \<Rightarrow> string \<Rightarrow> string option \<Rightarrow> int \<Rightarrow> mem_db \<Rightarrow> api_error + mem_row list" where
  "point_in_time_query sees fromiso timestamp agent limit db =
     (case fromiso timestamp of
        None \<Rightarrow> Inl (http_error 400 ''Invalid timestamp format. Use ISO-8601.'')
      | Some p \<Rightarrow> newest_created limit (filter (\<lambda>r. sees r \<and> known_at p r \<and> opt_eq agent (mm_agent r)) (mb_rows db)))"

record temporal_hit =
  th_row :: mem_row
  th_similarity :: real
  th_score :: real
  th_age_days :: real

definition temporal_hit_of :: "search_env \<Rightarrow> real list \<Rightarrow> mem_row \<Rightarrow> temporal_hit" where
  "temporal_hit_of e v r =
     (let age = real_of_int (se_db_now e - mm_created r) / 1000000 / 86400; sim = se_similarity e v (the (mm_embedding r)) in
      \<lparr>th_row = r, th_similarity = sim, th_score = sim * exp (- (693 / 1000) * age / 7), th_age_days = age\<rparr>)"

text \<open>Without an embedding the text \<open>None\<close> is sent as a vector, which the database refuses; so is a negative limit.\<close>

definition temporal_search_endpoint ::
    "search_env \<Rightarrow> string \<Rightarrow> string option \<Rightarrow> real option \<Rightarrow> int \<Rightarrow> mem_db \<Rightarrow> api_error + temporal_hit list" where
  "temporal_search_endpoint e q agent hours limit db =
     (case se_embed e q of
        None \<Rightarrow> Inl server_error
      | Some v \<Rightarrow>
          if limit * 3 < 0 then Inl server_error
          else let rows = se_index e v (limit * 3) (filter (\<lambda>r. mm_embedding r \<noteq> None \<and> se_sees e r \<and> mm_valid_to r = None \<and> opt_eq agent (mm_agent r) \<and>
                 (case hours of None \<Rightarrow> True | Some h \<Rightarrow> h \<noteq> 0 \<longrightarrow> real_of_int (se_db_now e) - h * 3600000000 \<le> real_of_int (mm_created r))) (mb_rows db))
            in Inr (py_take limit (sort_key (\<lambda>h. - th_score h) (map (temporal_hit_of e v) rows))))"

section \<open>What superseding does\<close>

text \<open>What superseding by hand promises: the old memory ends now, every other one stays, and they are linked.\<close>

definition superseded_by_hand :: "mem_env \<Rightarrow> supersede_request \<Rightarrow> mem_db \<Rightarrow> mem_db \<Rightarrow> bool" where
  "superseded_by_hand e req db db' \<longleftrightarrow>
     mb_rows db' = map (\<lambda>r. if mm_id r = su_old req then end_now e r else r) (mb_rows db) \<and>
     memory_link_key (requested_link req) \<in> memory_link_key ` set (mb_links db') \<and>
     set (mb_links db) \<subseteq> set (mb_links db')"

lemma link_key_iff: "(mk_source k, mk_target k, mk_relationship k) = (mk_source l, mk_target l, mk_relationship l) \<longleftrightarrow> memory_link_key k = memory_link_key l"
  by (simp add: memory_link_key_def)

lemma put_link_keep: "put_link l (\<lambda>k. k) ls = (if memory_link_key l \<in> memory_link_key ` set ls then ls else ls @ [l])"
  unfolding put_link_def Let_def link_key_iff by (auto simp: image_iff) metis+

lemma links_ok_keep:
  assumes "links_ok ids ls" "\<not> link_refused l" "mk_source l \<in> ids" "mk_target l \<in> ids"
  shows "links_ok ids (put_link l (\<lambda>k. k) ls)"
  using assms by (auto simp: put_link_keep links_ok_def link_refused_def unit_real_def)

lemma current_row_id: "\<exists>r\<in>set rows. current_row e i r \<Longrightarrow> i \<in> mm_id ` set rows"
  by (auto simp: current_row_def)

lemma supersede_cases:
  assumes "supersede_entity e takes_dict req db = (res, db')"
  shows "(\<exists>err. res = Inl err) \<and> db' = db \<or>
    (\<exists>k. res = Inr k) \<and> (\<exists>r\<in>set (mb_rows db). current_row e (su_old req) r) \<and>
    (\<exists>r\<in>set (mb_rows db). current_row e (su_new req) r) \<and> su_new req \<noteq> su_old req \<and> \<not> link_refused (requested_link req) \<and>
    db' = db\<lparr>mb_rows := update_mem (current_row e (su_old req)) (end_now e) (mb_rows db), mb_links := put_link (requested_link req) (\<lambda>k. k) (mb_links db)\<rparr>"
proof (cases "(\<exists>r\<in>set (mb_rows db). current_row e (su_old req) r) \<and>
    (\<exists>r\<in>set (update_mem (current_row e (su_old req)) (end_now e) (mb_rows db)). current_row e (su_new req) r) \<and>
    takes_dict \<and> \<not> link_refused (requested_link req)")
  case False
  then show ?thesis
    using assms by (auto simp: supersede_entity_def Let_def split: if_splits)
next
  case True
  then have "\<exists>k. supersede_entity e takes_dict req db = (Inr k, db\<lparr>mb_rows := update_mem (current_row e (su_old req)) (end_now e) (mb_rows db),
      mb_links := put_link (requested_link req) (\<lambda>k. k) (mb_links db)\<rparr>)"
    unfolding supersede_entity_def Let_def by (elim conjE) (simp only: simp_thms if_True if_False, blast)
  then obtain k where out: "res = Inr k" "db' = db\<lparr>mb_rows := update_mem (current_row e (su_old req)) (end_now e) (mb_rows db),
      mb_links := put_link (requested_link req) (\<lambda>k. k) (mb_links db)\<rparr>"
    using assms by auto
  from True obtain r where r: "r \<in> set (update_mem (current_row e (su_old req)) (end_now e) (mb_rows db))" "current_row e (su_new req) r"
    by blast
  then obtain s where s: "s \<in> set (mb_rows db)" "r = (if current_row e (su_old req) s then end_now e s else s)"
    by (auto simp: update_mem_def)
  have n: "\<not> current_row e (su_old req) s"
  proof
    assume "current_row e (su_old req) s"
    with r(2) s(2) show False by (simp add: current_row_def end_now_def)
  qed
  then have new: "current_row e (su_new req) s"
    using r(2) s(2) by simp
  then have "\<exists>r\<in>set (mb_rows db). current_row e (su_new req) r"
    using s(1) by blast
  moreover have "su_new req \<noteq> su_old req"
    using n new by (metis (no_types))
  ultimately have "su_new req \<noteq> su_old req" "\<exists>r\<in>set (mb_rows db). current_row e (su_new req) r"
    by blast+
  with True show ?thesis
    unfolding out by blast
qed

lemma supersede_all_or_nothing:
  assumes "supersede_entity e takes_dict req db = (res, db')" "distinct (map mm_id (mb_rows db))"
  shows "(case res of Inl err \<Rightarrow> db' = db | Inr k \<Rightarrow> superseded_by_hand e req db db')"
  using supersede_cases[OF assms(1)]
proof (elim disjE conjE exE bexE)
  fix k old r
  assume res: "res = Inr k" and old: "old \<in> set (mb_rows db)" "current_row e (su_old req) old"
    and db': "db' = db\<lparr>mb_rows := update_mem (current_row e (su_old req)) (end_now e) (mb_rows db),
      mb_links := put_link (requested_link req) (\<lambda>k. k) (mb_links db)\<rparr>"
  have "r = old" if "r \<in> set (mb_rows db)" "mm_id r = su_old req" for r
    using that old assms(2) by (auto simp: distinct_map current_row_def intro: inj_onD[of mm_id "set (mb_rows db)"])
  then have "current_row e (su_old req) r \<longleftrightarrow> mm_id r = su_old req" if "r \<in> set (mb_rows db)" for r
    using that old(2) by (auto simp: current_row_def)
  then have "mb_rows db' = map (\<lambda>r. if mm_id r = su_old req then end_now e r else r) (mb_rows db)"
    unfolding db' by (simp add: update_mem_def)
  then show ?thesis
    unfolding res by (auto simp: superseded_by_hand_def db' put_link_keep)
qed simp

lemma supersede_keeps_ok:
  assumes "mem_db_ok db"
  shows "mem_db_ok (snd (supersede_entity e takes_dict req db))"
proof -
  obtain res db' where s: "supersede_entity e takes_dict req db = (res, db')"
    by (cases "supersede_entity e takes_dict req db")
  have t: "tame (end_now e)"
    by (simp add: tame_def end_now_def)
  from supersede_cases[OF s] show ?thesis
  proof (elim disjE conjE)
    assume db': "db' = db\<lparr>mb_rows := update_mem (current_row e (su_old req)) (end_now e) (mb_rows db),
        mb_links := put_link (requested_link req) (\<lambda>k. k) (mb_links db)\<rparr>"
      and ends: "\<exists>r\<in>set (mb_rows db). current_row e (su_old req) r" "\<exists>r\<in>set (mb_rows db). current_row e (su_new req) r"
      and link: "\<not> link_refused (requested_link req)"
    have "su_old req \<in> mm_id ` set (mb_rows db)" "su_new req \<in> mm_id ` set (mb_rows db)"
      using ends by (simp_all add: current_row_id)
    then have "links_ok (mm_id ` set (mb_rows db)) (put_link (requested_link req) (\<lambda>k. k) (mb_links db))"
      using assms link by (intro links_ok_keep) (simp_all add: mem_db_ok_def requested_link_def)
    then show ?thesis
      using assms s t by (simp add: db' mem_db_ok_def rows_ok_update update_mem_idset del: set_map)
  qed (use assms s in simp)
qed

section \<open>The past stays\<close>

text \<open>What a point in time sees of a row.\<close>

definition past_view :: "time \<Rightarrow> mem_row \<Rightarrow> (uuid \<times> uuid \<times> string option \<times> string option \<times> string \<times> string \<times> time) \<times> bool" where
  "past_view p r = (ident r, known_at p r)"

definition past_kept :: "time \<Rightarrow> mem_row list \<Rightarrow> mem_row list \<Rightarrow> bool" where
  "past_kept p rows rows' \<longleftrightarrow> (\<exists>new. map (past_view p) rows' = map (past_view p) rows @ map (past_view p) new \<and> (\<forall>r\<in>set new. \<not> known_at p r))"

lemma past_kept_refl: "past_kept p rows rows"
  unfolding past_kept_def by (rule exI[of _ "[]"]) simp

lemma past_kept_trans: "past_kept p a b \<Longrightarrow> past_kept p b c \<Longrightarrow> past_kept p a c"
  unfolding past_kept_def by (elim exE conjE, rename_tac m n) (rule_tac x = "m @ n" in exI, auto)

lemma past_kept_update: "(\<And>r. c r \<Longrightarrow> past_view p (f r) = past_view p r) \<Longrightarrow> past_kept p rows (update_mem c f rows)"
  unfolding past_kept_def by (rule exI[of _ "[]"]) (simp add: update_mem_def)

lemma past_kept_data:
  "past_kept p rows (update_mem c (\<lambda>r. r\<lparr>mm_metadata := m r, mm_updated := t\<rparr>) rows)"
  "past_kept p rows (update_mem c (\<lambda>r. r\<lparr>mm_access := n r, mm_updated := t\<rparr>) rows)"
  by (rule past_kept_update; simp add: past_view_def known_at_def ident_def)+

lemma past_kept_steps:
  assumes "p < me_now e" "p < me_db_now e"
  shows "past_kept p rows (update_mem c (supersede_row e new) rows)" "past_kept p rows (update_mem c (merged_row e req md) rows)"
    "past_kept p rows (update_mem (current_row e i) (end_now e) rows)"
  using assms by (intro past_kept_update; auto simp: past_view_def known_at_def supersede_row_def merged_row_def ident_def current_row_def end_now_def
      coalesce_def split: option.splits)+

lemma past_kept_relationships:
  assumes "p < me_now e" "p < me_db_now e"
  shows "past_kept p (mb_rows db) (mb_rows (fold (store_relationship e new) rels db))"
proof (induction rels arbitrary: db)
  case (Cons rel rels)
  have "past_kept p (mb_rows db) (mb_rows (store_relationship e new rel db))"
    using assms by (simp add: store_relationship_def past_kept_refl past_kept_data split: option.split)
  then show ?case
    using Cons.IH[of "store_relationship e new rel db"] by (auto intro: past_kept_trans)
qed (simp add: past_kept_refl)

lemma past_kept_write:
  assumes "p < me_now e" "p < me_db_now e" "write_row e req md rows = (Inr r, rows')"
  shows "past_kept p rows rows'"
  using assms(3)
proof (cases rule: write_row_cases)
  case Inserted
  then show ?thesis
    unfolding past_kept_def using assms(2) by (intro exI[of _ "[inserted_mem e req md]"]) (simp add: known_at_def inserted_mem_def)
next
  case (Merged old s)
  then show ?thesis using assms by (simp add: past_kept_steps)
qed

lemma past_kept_create:
  assumes "p < me_now e" "p < me_db_now e"
  shows "past_kept p (mb_rows db) (mb_rows (snd (api_create_memory e req db)))"
proof -
  have "past_kept p (mb_rows db) (mb_rows (snd (finish_write e req md ids db)))" for md ids
  proof (cases "write_row e req md (mb_rows db)")
    case (Pair w rows)
    show ?thesis
    proof (cases w)
      case (Inl err)
      then show ?thesis using Pair by (simp add: finish_write_def past_kept_refl)
    next
      case (Inr r)
      let ?db = "db\<lparr>mb_rows := rows\<rparr>"
      let ?step = "apply_superseding_operations e (mm_id r) (filter (\<lambda>i. i \<noteq> mm_id r) ids) ?db"
      have "past_kept p rows (mb_rows (snd ?step))"
        using assms by (simp add: apply_superseding_operations_def past_kept_refl past_kept_steps Let_def)
      then have "past_kept p (mb_rows db) (mb_rows (snd ?step))"
        using past_kept_write[OF assms, of req md "mb_rows db" r rows] Pair Inr by (auto intro: past_kept_trans)
      then show ?thesis
        using Pair Inr past_kept_trans[OF _ past_kept_relationships[OF assms]]
        by (auto simp: finish_write_def split: prod.splits sum.splits)
    qed
  qed
  then show ?thesis
    by (auto simp: api_create_memory_def past_kept_refl split: prod.splits option.splits)
qed

datatype memory_step =
    Write_Memory mem_env memory_create
  | Read_Memory mem_env uuid
  | Supersede_Memory mem_env bool supersede_request
  | Link_Memories "mem_link \<Rightarrow> string" link_request

fun apply_memory_step :: "memory_step \<Rightarrow> mem_db \<Rightarrow> mem_db" where
  "apply_memory_step (Write_Memory e req) db = snd (api_create_memory e req db)"
| "apply_memory_step (Read_Memory e i) db = snd (get_memory e i db)"
| "apply_memory_step (Supersede_Memory e takes_dict req) db = snd (supersede_entity e takes_dict req db)"
| "apply_memory_step (Link_Memories message req) db = snd (create_link message req db)"

definition memory_steps :: "memory_step list \<Rightarrow> mem_db \<Rightarrow> mem_db" where
  "memory_steps steps db = fold apply_memory_step steps db"

text \<open>A step that happens after an instant, by both clocks.\<close>

fun later_than :: "time \<Rightarrow> memory_step \<Rightarrow> bool" where
  "later_than p (Write_Memory e req) \<longleftrightarrow> p < me_now e \<and> p < me_db_now e"
| "later_than p (Read_Memory e i) \<longleftrightarrow> p < me_now e \<and> p < me_db_now e"
| "later_than p (Supersede_Memory e takes_dict req) \<longleftrightarrow> p < me_now e \<and> p < me_db_now e"
| "later_than p (Link_Memories message req) \<longleftrightarrow> True"

lemma past_kept_step:
  assumes "later_than p s"
  shows "past_kept p (mb_rows db) (mb_rows (apply_memory_step s db))"
proof (cases s)
  case (Write_Memory e req)
  then show ?thesis using assms past_kept_create by simp
next
  case (Read_Memory e i)
  then show ?thesis
    using assms by (simp add: get_memory_def Let_def past_kept_refl past_kept_data split: option.split)
next
  case (Supersede_Memory e takes_dict req)
  obtain res db' where "supersede_entity e takes_dict req db = (res, db')"
    by (cases "supersede_entity e takes_dict req db")
  with supersede_cases[OF this] show ?thesis
    using assms Supersede_Memory by (elim disjE conjE exE) (simp_all add: past_kept_refl past_kept_steps)
next
  case (Link_Memories message req)
  then show ?thesis
    by (simp add: create_link_def Let_def past_kept_refl split: option.split)
qed

lemma past_kept_run: "list_all (later_than p) steps \<Longrightarrow> past_kept p (mb_rows db) (mb_rows (memory_steps steps db))"
proof (induction steps arbitrary: db)
  case (Cons s steps)
  then show ?case
    using past_kept_step[of p s db] past_kept_trans by (fastforce simp: memory_steps_def)
qed (simp add: memory_steps_def past_kept_refl)

text \<open>A filter and an order that look at a view only commute with taking the view.\<close>

lemma filter_view:
  assumes "\<And>r s. g r = g s \<Longrightarrow> Q r = Q s"
  shows "map g xs = map g ys \<Longrightarrow> map g (filter Q xs) = map g (filter Q ys)"
proof (induction xs arbitrary: ys)
  case (Cons x xs)
  then obtain y zs where "ys = y # zs" "g x = g y" "map g xs = map g zs"
    by (auto simp: Cons_eq_map_conv)
  then show ?case
    using Cons.IH[of zs] assms[of x y] by auto
qed auto

lemma insort_map: "(\<And>x. f x = h (g x)) \<Longrightarrow> map g (insort_key f x xs) = insort_key h (g x) (map g xs)"
  by (induction xs) auto

lemma sort_map: "(\<And>x. f x = h (g x)) \<Longrightarrow> map g (sort_key f xs) = sort_key h (map g xs)"
  by (induction xs) (auto simp: insort_map)

lemma known_views:
  assumes "past_kept p rows rows'" "\<And>r s. ident r = ident s \<Longrightarrow> Q r = Q s"
  shows "map ident (filter (\<lambda>r. known_at p r \<and> Q r) rows') = map ident (filter (\<lambda>r. known_at p r \<and> Q r) rows)"
proof -
  obtain new where new: "map (past_view p) rows' = map (past_view p) (rows @ new)" "\<forall>r\<in>set new. \<not> known_at p r"
    using assms(1) by (auto simp: past_kept_def)
  have "(known_at p r \<and> Q r) = (known_at p s \<and> Q s)" if "past_view p r = past_view p s" for r s
    using that assms(2)[of r s] by (simp add: past_view_def)
  then have "map (past_view p) (filter (\<lambda>r. known_at p r \<and> Q r) rows') = map (past_view p) (filter (\<lambda>r. known_at p r \<and> Q r) (rows @ new))"
    by (rule filter_view[OF _ new(1)])
  moreover have "filter (\<lambda>r. known_at p r \<and> Q r) new = []"
    using new(2) by (simp add: filter_empty_conv)
  ultimately have "map (past_view p) (filter (\<lambda>r. known_at p r \<and> Q r) rows') = map (past_view p) (filter (\<lambda>r. known_at p r \<and> Q r) rows)"
    by simp
  then have "map (fst \<circ> past_view p) (filter (\<lambda>r. known_at p r \<and> Q r) rows') = map (fst \<circ> past_view p) (filter (\<lambda>r. known_at p r \<and> Q r) rows)"
    by (metis map_map)
  then show ?thesis
    by (simp add: comp_def past_view_def)
qed

definition view_created :: "uuid \<times> uuid \<times> string option \<times> string option \<times> string \<times> string \<times> time \<Rightarrow> time" where
  "view_created v = (case v of (i, t, k, c, s, a, made) \<Rightarrow> made)"


section \<open>Behaviour of note\<close>

text \<open>A driver that wants a text for a \<open>jsonb\<close> parameter makes every supersession fail.\<close>

lemma supersede_needs_dicts: "\<exists>err. fst (supersede_entity e False req db) = Inl err"
  by (simp add: supersede_entity_def Let_def)

text \<open>Without the embedding service the temporal search fails instead of falling back to text.\<close>

lemma temporal_search_has_no_fallback: "se_embed e q = None \<Longrightarrow> temporal_search_endpoint e q agent hours limit db = Inl server_error"
  by (simp add: temporal_search_endpoint_def)

text \<open>A deleted memory is gone from every point in time.\<close>

lemma deleted_memory_leaves_the_past:
  assumes "delete_memory e i db = (Inr u, db')" "point_in_time_query sees fromiso timestamp agent limit db' = Inr rows"
  shows "i \<notin> mm_id ` set rows"
  using assms by (auto simp: delete_memory_def point_in_time_query_def newest_created_def split: if_splits option.splits dest!: in_set_takeD)

section \<open>Examples\<close>

definition past_steps_ex :: "memory_step list" where
  "past_steps_ex = [Supersede_Memory (mem_env_ex 9 ''m9'') True \<lparr>su_old = ''m0'', su_new = ''m1'', su_relationship = ''supersedes'', su_strength = 1, su_metadata = None\<rparr>,
     Read_Memory (mem_env_ex 9 ''m9'') ''m0'']"


end
