(* ===== verification/Memory_Hygiene.thy ===== *)
theory Memory_Hygiene imports Temporal_Queries begin

text \<open>
  Upkeep of the memory table in \<open>memu/api.py\<close>: merging rows of equal content hash
  (\<open>dedupe_memories\<close>), importing a text in pieces (\<open>bulk_import\<close>), the latest memories and the counts.

  The statements of a merge are committed one by one; the groups come in the order of their first
  rows. Rows written by the archive and by the workflow activities have no content hash
  (\<open>None\<close>), and \<open>GROUP BY\<close> puts them in one group. The embedding of a piece is \<open>None\<close> when the
  service fails.

  Proved: a merge that succeeds leaves one row for each content hash, the oldest, loses no access
  count and leaves a second merge nothing to do; a second import of the same text adds nothing.
\<close>

section \<open>Merging rows of equal content\<close>

text \<open>The rows of a group, the oldest first.\<close>

definition hash_group :: "string option \<Rightarrow> mem_row list \<Rightarrow> mem_row list" where
  "hash_group h rows = sort_key mm_created (filter (\<lambda>r. mm_content_hash r = h) rows)"

definition duplicate_groups :: "mem_row list \<Rightarrow> mem_row list list" where
  "duplicate_groups rows = filter (\<lambda>g. 1 < length g) (map (\<lambda>h. hash_group h rows) (remdups (map mm_content_hash rows)))"

text \<open>
  An update of one end of the links of some rows. It fails as a whole when a link would join a row
  to itself or two links would have one key.
\<close>

definition relink :: "(mem_link \<Rightarrow> uuid) \<Rightarrow> (uuid \<Rightarrow> mem_link \<Rightarrow> mem_link) \<Rightarrow> uuid \<Rightarrow> uuid set \<Rightarrow> mem_link list \<Rightarrow> mem_link list option" where
  "relink end set_end keep drops ls =
     (let ls' = map (\<lambda>k. if end k \<in> drops \<and> end k \<noteq> keep then set_end keep k else k) ls in
      if distinct (map memory_link_key ls') \<and> (\<forall>k\<in>set ls'. mk_source k \<noteq> mk_target k) then Some ls' else None)"

definition drop_rows :: "uuid set \<Rightarrow> mem_db \<Rightarrow> mem_db" where
  "drop_rows drops db =
     \<lparr>mb_rows = map (\<lambda>r. case mm_parent r of Some p \<Rightarrow> if p \<in> drops then r\<lparr>mm_parent := None\<rparr> else r | None \<Rightarrow> r)
        (filter (\<lambda>r. mm_id r \<notin> drops) (mb_rows db)),
      mb_links = filter (\<lambda>k. mk_source k \<notin> drops \<and> mk_target k \<notin> drops) (mb_links db)\<rparr>"

definition total_access :: "mem_row list \<Rightarrow> nat" where
  "total_access g = sum_list (map mm_access g)"

definition merge_group :: "time \<Rightarrow> mem_row list \<Rightarrow> mem_db \<Rightarrow> bool \<times> mem_db" where
  "merge_group now g db =
     (let keep = mm_id (hd g); drops = mm_id ` set (tl g);
          db1 = db\<lparr>mb_rows := update_mem (\<lambda>r. mm_id r = keep) (\<lambda>r. r\<lparr>mm_access := total_access g, mm_updated := now\<rparr>) (mb_rows db)\<rparr> in
      case relink mk_source (\<lambda>i k. k\<lparr>mk_source := i\<rparr>) keep drops (mb_links db1) of
        None \<Rightarrow> (False, db1)
      | Some ls \<Rightarrow>
          (case relink mk_target (\<lambda>i k. k\<lparr>mk_target := i\<rparr>) keep drops ls of
             None \<Rightarrow> (False, db1\<lparr>mb_links := ls\<rparr>)
           | Some ls' \<Rightarrow> (True, drop_rows drops (db1\<lparr>mb_links := ls'\<rparr>))))"

fun merge_groups :: "time \<Rightarrow> mem_row list list \<Rightarrow> mem_db \<Rightarrow> bool \<times> mem_db" where
  "merge_groups now [] db = (True, db)"
| "merge_groups now (g # gs) db =
     (case merge_group now g db of (ok, db') \<Rightarrow> if ok then merge_groups now gs db' else (False, db'))"

record dedupe_response =
  dr_deleted :: nat
  dr_merged :: nat
  dr_dry_run :: bool

definition dedupe_memories :: "(mem_row \<Rightarrow> bool) \<Rightarrow> time \<Rightarrow> bool \<Rightarrow> mem_db \<Rightarrow> (api_error + dedupe_response) \<times> mem_db" where
  "dedupe_memories sees now dry_run db =
     (let gs = duplicate_groups (filter sees (mb_rows db));
          response = \<lparr>dr_deleted = sum_list (map (\<lambda>g. length g - 1) gs), dr_merged = sum_list (map total_access gs), dr_dry_run = dry_run\<rparr> in
      if dry_run then (Inr response, db)
      else case merge_groups now gs db of (ok, db') \<Rightarrow> (if ok then Inr response else Inl server_error, db'))"

section \<open>Importing, recent memories and counts\<close>

text \<open>\<open>split\<close> at a separator that is not empty.\<close>

function split_at_text :: "string \<Rightarrow> string \<Rightarrow> string \<Rightarrow> string list" where
  "split_at_text sep piece [] = [piece]"
| "split_at_text sep piece (c # s) =
     (if is_prefix sep (c # s) \<and> sep \<noteq> [] then piece # split_at_text sep [] (drop (length sep) (c # s))
      else split_at_text sep (piece @ [c]) s)"
  by pat_completeness auto
termination
  by (relation "measure (\<lambda>(sep, piece, s). length s)") auto

record import_request =
  ir_content :: string
  ir_agent :: string
  ir_type :: string
  ir_split_on :: string

record import_response =
  io_imported :: nat
  io_duplicates :: nat

definition import_chunks :: "import_request \<Rightarrow> string list" where
  "import_chunks req = filter (\<lambda>c. c \<noteq> []) (map strip (split_at_text (ir_split_on req) [] (ir_content req)))"

text \<open>
  The columns an import does not name get their defaults, the tenant among them. A piece is skipped
  when its statement fails: for a constraint it breaks or a row the connection may not write.
\<close>

definition imported_row :: "mem_env \<Rightarrow> uuid \<Rightarrow> import_request \<Rightarrow> string \<Rightarrow> mem_row" where
  "imported_row e i req chunk =
     \<lparr>mm_id = i, mm_content = chunk, mm_embedding = me_embed e chunk, mm_type = ir_type req, mm_kind = ''learning'', mm_agent = ir_agent req,
      mm_tenant = DEFAULT_TENANT_ID, mm_metadata = [], mm_parent = None, mm_confidence = 1, mm_access = 0, mm_salience = 1 / 2, mm_review = None,
      mm_content_hash = Some (content_digest (me_sha e) chunk), mm_idem = None, mm_canonical = None, mm_valid_to = None,
      mm_created = me_db_now e, mm_updated = me_db_now e\<rparr>"

definition import_chunk :: "mem_env \<Rightarrow> import_request \<Rightarrow> uuid \<times> string \<Rightarrow> import_response \<times> mem_db \<Rightarrow> import_response \<times> mem_db" where
  "import_chunk e req = (\<lambda>(i, chunk) (out, db).
     if \<exists>r\<in>set (mb_rows db). me_sees e r \<and> mm_content_hash r = Some (content_digest (me_sha e) chunk)
     then (out\<lparr>io_duplicates := io_duplicates out + 1\<rparr>, db)
     else if \<not> insert_allowed (imported_row e i req chunk) (mb_rows db) \<or> \<not> me_sees e (imported_row e i req chunk) then (out, db)
     else (out\<lparr>io_imported := io_imported out + 1\<rparr>, db\<lparr>mb_rows := mb_rows db @ [imported_row e i req chunk]\<rparr>))"

text \<open>An empty separator raises \<open>ValueError\<close>.\<close>

definition bulk_import :: "mem_env \<Rightarrow> uuid list \<Rightarrow> import_request \<Rightarrow> mem_db \<Rightarrow> (api_error + import_response) \<times> mem_db" where
  "bulk_import e ids req db =
     (if ir_split_on req = [] then (Inl server_error, db)
      else let (out, db') = fold (import_chunk e req) (zip ids (import_chunks req)) (\<lparr>io_imported = 0, io_duplicates = 0\<rparr>, db)
           in (Inr out, db'))"

text \<open>Recent memories and counts are read without a tenant, from all rows the role of the pool sees.\<close>

definition get_recent_memories :: "(mem_row \<Rightarrow> bool) \<Rightarrow> int \<Rightarrow> string option \<Rightarrow> string option \<Rightarrow> mem_db \<Rightarrow> api_error + mem_row list" where
  "get_recent_memories pool_sees limit agent memory_type db =
     newest_created limit (filter (\<lambda>r. pool_sees r \<and> opt_eq agent (mm_agent r) \<and> opt_eq memory_type (mm_type r)) (mb_rows db))"

definition count_by :: "(mem_row \<Rightarrow> string) \<Rightarrow> mem_row list \<Rightarrow> (string \<times> nat) list" where
  "count_by f rows = map (\<lambda>k. (k, length (filter (\<lambda>r. f r = k) rows))) (remdups (map f rows))"

definition get_stats :: "(mem_row \<Rightarrow> bool) \<Rightarrow> mem_db \<Rightarrow> nat \<times> (string \<times> nat) list \<times> (string \<times> nat) list" where
  "get_stats pool_sees db = (let rows = filter pool_sees (mb_rows db) in (length rows, count_by mm_type rows, count_by mm_agent rows))"

section \<open>What a merge leaves\<close>

text \<open>What the argument looks at in a row: its identifier, its hash and its access count.\<close>

definition core :: "mem_row \<Rightarrow> uuid \<times> string option \<times> nat" where
  "core r = (mm_id r, mm_content_hash r, mm_access r)"

definition core_keep :: "mem_row list \<Rightarrow> uuid \<times> string option \<times> nat \<Rightarrow> uuid \<times> string option \<times> nat" where
  "core_keep g c = (if fst c = mm_id (hd g) then (fst c, fst (snd c), total_access g) else c)"

definition stays :: "mem_row list list \<Rightarrow> uuid \<Rightarrow> bool" where
  "stays gs i \<longleftrightarrow> (\<forall>g\<in>set gs. i \<notin> mm_id ` set (tl g))"

lemma core_keep_id [simp]: "fst (core_keep g c) = fst c" "fst (snd (core_keep g c)) = fst (snd c)"
  by (simp_all add: core_keep_def)

lemma fold_core_keep_id [simp]: "fst (fold core_keep gs c) = fst c" "fst (snd (fold core_keep gs c)) = fst (snd c)"
  by (induction gs arbitrary: c) simp_all

lemma drop_rows_core: "map core (mb_rows (drop_rows drops db)) = filter (\<lambda>c. fst c \<notin> drops) (map core (mb_rows db))"
proof -
  have "core (case mm_parent r of Some p \<Rightarrow> if p \<in> drops then r\<lparr>mm_parent := None\<rparr> else r | None \<Rightarrow> r) = core r" for r
    by (simp add: core_def split: option.split)
  then show ?thesis
    by (simp add: drop_rows_def filter_map comp_def core_def)
qed

lemma merge_group_core:
  assumes "merge_group now g db = (True, db')"
  shows "map core (mb_rows db') = map (core_keep g) (filter (\<lambda>c. fst c \<notin> mm_id ` set (tl g)) (map core (mb_rows db)))"
proof -
  let ?rows = "update_mem (\<lambda>r. mm_id r = mm_id (hd g)) (\<lambda>r. r\<lparr>mm_access := total_access g, mm_updated := now\<rparr>) (mb_rows db)"
  obtain ls where db': "db' = drop_rows (mm_id ` set (tl g)) (db\<lparr>mb_rows := ?rows, mb_links := ls\<rparr>)"
    using assms by (auto simp: merge_group_def Let_def split: option.splits)
  have "map core ?rows = map (core_keep g) (map core (mb_rows db))"
    by (simp add: update_mem_def core_def core_keep_def)
  then show ?thesis
    unfolding db' drop_rows_core by (simp add: filter_map comp_def)
qed

lemma merge_groups_core:
  assumes "merge_groups now gs db = (True, db')"
  shows "map core (mb_rows db') = map (fold core_keep gs) (filter (\<lambda>c. stays gs (fst c)) (map core (mb_rows db)))"
  using assms
proof (induction gs arbitrary: db)
  case (Cons g gs)
  then obtain db1 where g: "merge_group now g db = (True, db1)" and gs: "merge_groups now gs db1 = (True, db')"
    by (auto split: prod.splits if_splits)
  show ?case
    unfolding Cons.IH[OF gs] merge_group_core[OF g] filter_map filter_filter
    by (auto simp: comp_def stays_def intro!: arg_cong[where f = "map _"] filter_cong)
qed (simp add: stays_def)

lemma set_hash_group: "set (hash_group h rows) = {r \<in> set rows. mm_content_hash r = h}"
  by (simp add: hash_group_def)

lemma distinct_hash_group: "distinct rows \<Longrightarrow> distinct (hash_group h rows)"
  by (simp add: hash_group_def)

lemma group_of: "g \<in> set (duplicate_groups rows) \<Longrightarrow> r \<in> set g \<Longrightarrow> g = hash_group (mm_content_hash r) rows"
  by (auto simp: duplicate_groups_def set_hash_group)

lemma group_rows: "g \<in> set (duplicate_groups rows) \<Longrightarrow> set g \<subseteq> set rows"
  by (auto simp: duplicate_groups_def set_hash_group)

lemma group_head:
  assumes "r \<in> set rows"
  shows "hash_group (mm_content_hash r) rows \<noteq> []" "hd (hash_group (mm_content_hash r) rows) \<in> set rows"
    "mm_content_hash (hd (hash_group (mm_content_hash r) rows)) = mm_content_hash r"
proof -
  have "r \<in> set (hash_group (mm_content_hash r) rows)"
    using assms by (simp add: set_hash_group)
  then show ne: "hash_group (mm_content_hash r) rows \<noteq> []"
    by (metis empty_iff empty_set)
  show "hd (hash_group (mm_content_hash r) rows) \<in> set rows"
    "mm_content_hash (hd (hash_group (mm_content_hash r) rows)) = mm_content_hash r"
    using hd_in_set[OF ne] by (simp_all add: set_hash_group)
qed

lemma same_id: "distinct (map mm_id rows) \<Longrightarrow> r \<in> set rows \<Longrightarrow> s \<in> set rows \<Longrightarrow> mm_id r = mm_id s \<Longrightarrow> r = s"
  by (simp add: distinct_map inj_on_def)

lemma hd_not_in_tl: "distinct xs \<Longrightarrow> hd xs \<notin> set (tl xs)"
  by (cases xs) auto

lemma stays_iff_oldest:
  assumes "distinct (map mm_id rows)" "r \<in> set rows"
  shows "stays (duplicate_groups rows) (mm_id r) \<longleftrightarrow> r = hd (hash_group (mm_content_hash r) rows)"
proof
  let ?g = "hash_group (mm_content_hash r) rows"
  have r: "r \<in> set ?g" "?g \<noteq> []"
    using assms(2) group_head(1) by (auto simp: set_hash_group)
  assume stays: "stays (duplicate_groups rows) (mm_id r)"
  show "r = hd ?g"
  proof (cases "1 < length ?g")
    case True
    then have "?g \<in> set (duplicate_groups rows)"
      using assms(2) by (auto simp: duplicate_groups_def)
    then have "r \<notin> set (tl ?g)"
      using stays by (auto simp: stays_def)
    then show ?thesis
      using r by (metis list.exhaust_sel set_ConsD)
  next
    case False
    then show ?thesis
      using r by (cases ?g) auto
  qed
next
  assume head: "r = hd (hash_group (mm_content_hash r) rows)"
  show "stays (duplicate_groups rows) (mm_id r)"
    unfolding stays_def
  proof (intro ballI notI)
    fix g assume g: "g \<in> set (duplicate_groups rows)" and "mm_id r \<in> mm_id ` set (tl g)"
    then obtain s where s: "s \<in> set (tl g)" "mm_id r = mm_id s"
      by blast
    have "s \<in> set g"
      using s(1) by (cases g) auto
    then have "g = hash_group (mm_content_hash s) rows" "s \<in> set rows"
      using group_of[OF g] group_rows[OF g] by auto
    moreover have "r = s"
      using same_id[OF assms] calculation(2) s(2) by simp
    ultimately have "hd g \<in> set (tl g)" "g = hash_group (mm_content_hash r) rows"
      using head s(1) by simp_all
    moreover have "distinct (hash_group (mm_content_hash r) rows)"
      using assms(1) by (intro distinct_hash_group) (simp add: distinct_map)
    then have "distinct g"
      using calculation(2) by (simp only:)
    ultimately show False
      using hd_not_in_tl by blast
  qed
qed

lemma fold_core_keep_one:
  assumes "\<forall>g\<in>set gs. mm_id (hd g) = fst c \<longrightarrow> total_access g = n"
  shows "fold core_keep gs c = (if \<exists>g\<in>set gs. mm_id (hd g) = fst c then (fst c, fst (snd c), n) else c)"
  using assms
proof (induction gs arbitrary: c)
  case (Cons g gs)
  have "\<forall>g\<in>set gs. mm_id (hd g) = fst (core_keep g' c) \<longrightarrow> total_access g = n" for g'
    using Cons.prems by simp
  from Cons.IH[OF this] show ?case
    using Cons.prems by (auto simp: core_keep_def)
qed simp

text \<open>The row that stays carries the access counts of its whole group.\<close>

lemma kept_access:
  assumes "distinct (map mm_id rows)" "r \<in> set rows" "r = hd (hash_group (mm_content_hash r) rows)"
  shows "snd (snd (fold core_keep (duplicate_groups rows) (core r))) = total_access (hash_group (mm_content_hash r) rows)"
proof -
  let ?g = "hash_group (mm_content_hash r) rows" and ?gs = "duplicate_groups rows"
  have mine: "g = ?g" if "g \<in> set ?gs" "mm_id (hd g) = mm_id r" for g
  proof -
    have "hd g \<in> set g"
      using that(1) by (auto simp: duplicate_groups_def intro!: hd_in_set)
    then have "g = hash_group (mm_content_hash (hd g)) rows" "hd g \<in> set rows"
      using group_of[OF that(1)] group_rows[OF that(1)] by auto
    with same_id[OF assms(1) _ assms(2) that(2)] show ?thesis by simp
  qed
  have "\<forall>g\<in>set ?gs. mm_id (hd g) = fst (core r) \<longrightarrow> total_access g = total_access ?g"
    using mine by (auto simp: core_def)
  note keep = fold_core_keep_one[OF this]
  show ?thesis
  proof (cases "1 < length ?g")
    case True
    then have "?g \<in> set ?gs"
      using assms(2) by (auto simp: duplicate_groups_def)
    then have "\<exists>g\<in>set ?gs. mm_id (hd g) = fst (core r)"
      using assms(3) by (intro bexI[of _ ?g]) (simp_all add: core_def)
    then show ?thesis
      unfolding keep by simp
  next
    case False
    then have single: "?g = [r]"
      using group_head(1)[OF assms(2)] assms(3) by (cases ?g) auto
    have "1 < length g" if "g \<in> set ?gs" for g
      using that by (simp add: duplicate_groups_def)
    then have "\<not> (\<exists>g\<in>set ?gs. mm_id (hd g) = fst (core r))"
      using mine single by (fastforce simp: core_def)
    then show ?thesis
      unfolding keep single by (simp add: core_def total_access_def)
  qed
qed

lemma one_of_each: "distinct (map f rows) \<Longrightarrow> length (filter (\<lambda>r. f r = h) rows) \<le> 1"
proof (induction rows)
  case (Cons r rows)
  then have "filter (\<lambda>s. f s = f r) rows = []"
    by (auto simp: filter_empty_conv image_iff)
  then show ?case
    using Cons by auto
qed simp

lemma kept_hashes_distinct:
  assumes "distinct (map mm_id rows)"
  shows "distinct (map mm_content_hash (filter (\<lambda>r. stays (duplicate_groups rows) (mm_id r)) rows))" (is "distinct (map _ ?kept)")
proof -
  have oldest: "r = hd (hash_group (mm_content_hash r) rows)" if "r \<in> set ?kept" for r
    using that stays_iff_oldest[OF assms] by auto
  have "inj_on mm_content_hash (set ?kept)"
  proof (rule inj_onI)
    fix r s assume rs: "r \<in> set ?kept" "s \<in> set ?kept" and h: "mm_content_hash r = mm_content_hash s"
    show "r = s"
      using oldest[OF rs(1)] oldest[OF rs(2), symmetric] unfolding h by (rule trans)
  qed
  moreover have "distinct ?kept"
    using assms by (simp add: distinct_map)
  ultimately show ?thesis
    by (simp add: distinct_map)
qed

text \<open>The rows that stay are the heads of the groups of all hashes.\<close>

lemma kept_heads:
  assumes "distinct (map mm_id rows)"
  shows "(\<lambda>r. (mm_id r, mm_content_hash r, total_access (hash_group (mm_content_hash r) rows))) ` {r \<in> set rows. stays (duplicate_groups rows) (mm_id r)} =
    (\<lambda>h. let g = hash_group h rows in (mm_id (hd g), h, total_access g)) ` mm_content_hash ` set rows" (is "?L = ?R")
proof
  show "?L \<subseteq> ?R"
    using stays_iff_oldest[OF assms] by (force simp: Let_def)
  show "?R \<subseteq> ?L"
  proof
    fix c assume "c \<in> ?R"
    then obtain r where r: "r \<in> set rows" and c: "c = (mm_id (hd (hash_group (mm_content_hash r) rows)), mm_content_hash r,
        total_access (hash_group (mm_content_hash r) rows))"
      by (auto simp: Let_def)
    let ?h = "hd (hash_group (mm_content_hash r) rows)"
    have "?h \<in> {r \<in> set rows. stays (duplicate_groups rows) (mm_id r)}"
      using group_head[OF r] stays_iff_oldest[OF assms, of ?h] by simp
    then show "c \<in> ?L"
      unfolding c using group_head(3)[OF r] by (intro image_eqI[of _ _ ?h]) simp_all
  qed
qed

lemma one_row_per_hash: "distinct (map mm_content_hash rows) \<Longrightarrow> duplicate_groups rows = []"
  using one_of_each[of mm_content_hash rows] by (simp add: duplicate_groups_def hash_group_def filter_empty_conv not_less)


section \<open>Importing twice\<close>

text \<open>A chunk whose hash is stored is counted as a duplicate and stored no more.\<close>

definition hash_stored :: "mem_env \<Rightarrow> mem_db \<Rightarrow> string \<Rightarrow> bool" where
  "hash_stored e db chunk \<longleftrightarrow> (\<exists>r\<in>set (mb_rows db). me_sees e r \<and> mm_content_hash r = Some (content_digest (me_sha e) chunk))"

lemma import_chunk_grows: "set (mb_rows db) \<subseteq> set (mb_rows (snd (import_chunk e req p (out, db))))"
  by (auto simp: import_chunk_def split: prod.splits)

lemma import_grows: "set (mb_rows (snd od)) \<subseteq> set (mb_rows (snd (fold (import_chunk e req) ps od)))"
proof (induction ps arbitrary: od)
  case (Cons p ps)
  show ?case
    using import_chunk_grows[of "snd od" e req p "fst od"] Cons.IH[of "import_chunk e req p od"] by auto
qed simp

lemma stored_after_import:
  assumes "fst p \<notin> mm_id ` set (mb_rows db)" "me_sees e (imported_row e (fst p) req (snd p))" "char_len (ir_agent req) \<le> 64"
  shows "hash_stored e (snd (import_chunk e req p (out, db))) (snd p)"
proof -
  have "insert_allowed (imported_row e (fst p) req (snd p)) (mb_rows db)"
    using assms by (simp add: insert_allowed_def imported_row_def metadata_key_def)
  then show ?thesis
    using assms(2) by (auto simp: import_chunk_def hash_stored_def imported_row_def split: prod.splits)
qed

lemma import_stored:
  assumes "\<forall>p\<in>set ps. hash_stored e db (snd p)"
  shows "fold (import_chunk e req) ps (out, db) = (out\<lparr>io_duplicates := io_duplicates out + length ps\<rparr>, db)"
  using assms
proof (induction ps arbitrary: out)
  case (Cons p ps)
  have "import_chunk e req p (out, db) = (out\<lparr>io_duplicates := io_duplicates out + 1\<rparr>, db)"
    using Cons.prems by (auto simp: import_chunk_def hash_stored_def split: prod.splits)
  then show ?case
    using Cons by simp
qed simp

lemma hash_stored_mono: "set (mb_rows db) \<subseteq> set (mb_rows db') \<Longrightarrow> hash_stored e db c \<Longrightarrow> hash_stored e db' c"
  by (auto simp: hash_stored_def)

lemma import_ids: "mm_id ` set (mb_rows (snd (import_chunk e req p (out, db)))) \<subseteq> insert (fst p) (mm_id ` set (mb_rows db))"
  by (auto simp: import_chunk_def imported_row_def split: prod.splits)

lemma disjoint_grow: "B' \<subseteq> insert x B \<Longrightarrow> x \<notin> A \<Longrightarrow> A \<inter> B = {} \<Longrightarrow> A \<inter> B' = {}"
  by blast

lemma all_stored_after_import:
  assumes "distinct (map fst ps)" "fst ` set ps \<inter> mm_id ` set (mb_rows db) = {}" "\<forall>i c. me_sees e (imported_row e i req c)"
    and agent: "char_len (ir_agent req) \<le> 64"
  shows "\<forall>p\<in>set ps. hash_stored e (snd (fold (import_chunk e req) ps (out, db))) (snd p)"
  using assms(1,2)
proof (induction ps arbitrary: out db)
  case (Cons p ps)
  obtain out1 db1 where o1: "import_chunk e req p (out, db) = (out1, db1)"
    by (cases "import_chunk e req p (out, db)")
  have "hash_stored e db1 (snd p)"
    using stored_after_import[of p db e req out] Cons.prems assms(3) agent o1 by auto
  then have first: "hash_stored e (snd (fold (import_chunk e req) ps (out1, db1))) (snd p)"
    using hash_stored_mono import_grows[of "(out1, db1)" e req ps] by auto
  have "mm_id ` set (mb_rows db1) \<subseteq> insert (fst p) (mm_id ` set (mb_rows db))"
    using import_ids[of e req p out db] o1 by simp
  moreover have "fst p \<notin> fst ` set ps"
    using Cons.prems(1) by simp
  moreover have "fst ` set ps \<inter> mm_id ` set (mb_rows db) = {}"
    using Cons.prems(2) by (simp add: Int_insert_left split: if_splits)
  ultimately have "fst ` set ps \<inter> mm_id ` set (mb_rows db1) = {}"
    by (rule disjoint_grow)
  moreover have "distinct (map fst ps)"
    using Cons.prems(1) by simp
  ultimately have "\<forall>p\<in>set ps. hash_stored e (snd (fold (import_chunk e req) ps (out1, db1))) (snd p)"
    using Cons.IH[of db1 out1] by blast
  with first show ?case
    by (simp add: o1)
qed simp

text \<open>
  Importing a text again, with whatever fresh identifiers, imports nothing, changes nothing and
  counts every piece as a duplicate.
\<close>

theorem import_twice_adds_nothing:
  assumes "bulk_import e ids req db = (Inr out, db')" "length (import_chunks req) \<le> length ids" "distinct ids"
    and "set ids \<inter> mm_id ` set (mb_rows db) = {}" "\<forall>i c. me_sees e (imported_row e i req c)"
    and "length (import_chunks req) \<le> length ids'" "char_len (ir_agent req) \<le> 64"
  shows "bulk_import e ids' req db' = (Inr \<lparr>io_imported = 0, io_duplicates = length (import_chunks req)\<rparr>, db')"
proof -
  let ?ps = "zip ids (import_chunks req)" and ?zero = "\<lparr>io_imported = 0, io_duplicates = 0\<rparr>"
  have sep: "ir_split_on req \<noteq> []" and db': "db' = snd (fold (import_chunk e req) ?ps (?zero, db))"
    using assms(1) by (auto simp: bulk_import_def Let_def split: if_splits prod.splits)
  have fst: "map fst ?ps = take (length (import_chunks req)) ids"
    using assms(2) by (simp add: map_fst_zip_take)
  have "distinct (map fst ?ps)" "fst ` set ?ps \<inter> mm_id ` set (mb_rows db) = {}"
    using assms(3,4) in_set_takeD[of _ "length (import_chunks req)" ids] unfolding set_map[symmetric] fst by auto
  from all_stored_after_import[OF this assms(5,7), of ?zero]
  have "\<forall>p\<in>set ?ps. hash_stored e db' (snd p)"
    unfolding db' .
  moreover have "snd ` set ?ps = set (import_chunks req)"
    using assms(2) by (metis list.set_map map_snd_zip_take min.absorb1 min.commute take_all_iff order_refl)
  ultimately have "\<forall>c\<in>set (import_chunks req). hash_stored e db' c"
    by (metis imageE)
  then have "\<forall>p\<in>set (zip ids' (import_chunks req)). hash_stored e db' (snd p)"
    by (auto dest: set_zip_rightD)
  from import_stored[OF this, of req ?zero] show ?thesis
    using sep assms(6) by (simp add: bulk_import_def)
qed

section \<open>Behaviour of note\<close>

text \<open>
  Of two rows with equal hashes the older stays, whatever they say and whichever has ended: also
  when both have no hash, and when the older has been superseded by the other.
\<close>

lemma older_of_two_stays:
  assumes "dedupe_memories (\<lambda>r. True) now False db = (Inr out, db')" "mb_rows db = [a, b]" "mm_id a \<noteq> mm_id b"
    and "mm_content_hash a = mm_content_hash b" "mm_created a \<le> mm_created b"
  shows "mm_id ` set (mb_rows db') = {mm_id a}"
proof -
  have "merge_groups now (duplicate_groups (mb_rows db)) db = (True, db')"
    using assms(1) by (auto simp: dedupe_memories_def Let_def split: prod.splits if_splits)
  from arg_cong[OF merge_groups_core[OF this], of "\<lambda>cs. fst ` set cs"] show ?thesis
    using assms(2-5) by (simp add: duplicate_groups_def hash_group_def stays_def image_image core_def)
qed

section \<open>Examples\<close>

definition dup_db_ex :: mem_db where
  "dup_db_ex = \<lparr>mb_rows = [mem_row_ex\<lparr>mm_id := ''b'', mm_created := 5, mm_access := 2\<rparr>, mem_row_ex\<lparr>mm_id := ''a'', mm_access := 1\<rparr>], mb_links = []\<rparr>"


definition import_req_ex :: import_request where
  "import_req_ex = \<lparr>ir_content = ''x|y'', ir_agent = ''a'', ir_type = ''fact'', ir_split_on = ''|''\<rparr>"

lemma import_chunks_ex: "import_chunks import_req_ex = [''x'', ''y'']"
  by code_simp

theorem import_twice_adds_nothing_witness:
  "\<exists>out db'. bulk_import (mem_env_ex 0 ''f'') [''i'', ''j''] import_req_ex mem_db_ex = (Inr out, db') \<and>
     bulk_import (mem_env_ex 0 ''f'') [''k'', ''l''] import_req_ex db' = (Inr \<lparr>io_imported = 0, io_duplicates = 2\<rparr>, db')"
proof -
  have "ir_split_on import_req_ex \<noteq> []"
    by (simp add: import_req_ex_def)
  then have "\<exists>out db'. bulk_import (mem_env_ex 0 ''f'') [''i'', ''j''] import_req_ex mem_db_ex = (Inr out, db')"
    by (simp add: bulk_import_def split: prod.split)
  then obtain out db' where b: "bulk_import (mem_env_ex 0 ''f'') [''i'', ''j''] import_req_ex mem_db_ex = (Inr out, db')"
    by blast
  have "set [''i'', ''j''] \<inter> mm_id ` set (mb_rows mem_db_ex) = {}" "\<forall>i c. me_sees (mem_env_ex 0 ''f'') (imported_row (mem_env_ex 0 ''f'') i import_req_ex c)"
    by (simp_all add: mem_db_ex_def mem_row_ex_def mem_env_ex_def)
  moreover have "char_len (ir_agent import_req_ex) \<le> 64"
    by (simp add: import_req_ex_def)
  ultimately show ?thesis
    using import_twice_adds_nothing[OF b, of "[''k'', ''l'']"] b by (simp add: import_chunks_ex)
qed

end
