(* ===== verification/Reflection_Queue.thy ===== *)
theory Reflection_Queue imports Memory_Search begin

text \<open>
  The reflection review queue of \<open>memu/api.py\<close>: proposals, the actions taken on them, the time-out of
  the review window (\<open>memu/reflection.py\<close>) and the learning memories they write into the table of
  \<open>Memory_Store\<close>.

  Requests run one after the other; what two that overlap do is shown at the end. The environment
  is that of the memory routes with the identifier of the memory written for each proposal, the text
  PostgreSQL gives an instant and the way the driver delivers a \<open>jsonb\<close> column. The message id of a
  proposal, which no statement writes, is left out.

  Proved: a proposal that is pending or rejected has written no memory, an accepted one exactly one
  and a superseded one two, of which the first has ended; decisions are final; and a pass takes up
  every proposal whose window has closed.
\<close>

section \<open>Proposals and actions\<close>

datatype reflection_status = Pending_Review | Accepted | Accepted_By_Timeout | Rejected | Superseded

fun reflection_status_text :: "reflection_status \<Rightarrow> string" where
  "reflection_status_text Pending_Review = ''pending''"
| "reflection_status_text Accepted = ''accepted''"
| "reflection_status_text Accepted_By_Timeout = ''accepted_by_timeout''"
| "reflection_status_text Rejected = ''rejected''"
| "reflection_status_text Superseded = ''superseded''"

datatype reflection_decision = Approve | Deny | Edit_Content | Inspect

record proposal =
  pp_id :: uuid
  pp_tenant :: string
  pp_status :: reflection_status
  pp_source :: string
  pp_summary :: string
  pp_content :: string
  pp_confidence :: real
  pp_risk_flags :: "string list"
  pp_task :: "string option"
  pp_session :: "string option"
  pp_evidence :: "string list"
  pp_expires :: time
  pp_memory :: "uuid option"
  pp_superseded_by :: "uuid option"
  pp_agent :: string
  pp_created :: time
  pp_updated :: time

record reflection_log =
  rl_proposal :: uuid
  rl_actor :: string
  rl_decision :: string
  rl_notes :: "string option"
  rl_edited :: "string option"
  rl_at :: time

record reflection_db =
  rd_proposals :: "proposal list"
  rd_actions :: "reflection_log list"
  rd_mem :: mem_db

record reflection_env =
  re_mem :: mem_env
  re_tenant :: string
  re_fresh :: "uuid \<Rightarrow> uuid"
  re_proposal :: uuid
  re_pg_text :: "time \<Rightarrow> string"
  re_column :: "json \<Rightarrow> json"

record proposal_create =
  pc_source :: string
  pc_summary :: string
  pc_content :: string
  pc_confidence :: real
  pc_risk_flags :: "string list"
  pc_task :: "string option"
  pc_session :: "string option"
  pc_evidence :: "string list"
  pc_agent :: string

record action_request =
  ac_actor :: string
  ac_decision :: reflection_decision
  ac_notes :: "string option"
  ac_edited :: "string option"

record action_response =
  as_proposal :: uuid
  as_decision :: string
  as_status :: reflection_status
  as_memory :: "uuid option"
  as_supersedes :: "uuid option"

section \<open>The review window\<close>

definition REFLECTION_REVIEW_WINDOW_HOURS :: int where "REFLECTION_REVIEW_WINDOW_HOURS = 6"

definition compute_proposal_expiry :: "time \<Rightarrow> time" where
  "compute_proposal_expiry created = created + seconds (REFLECTION_REVIEW_WINDOW_HOURS * 3600)"

definition is_proposal_expired :: "time \<Rightarrow> time \<Rightarrow> bool" where
  "is_proposal_expired expires now \<longleftrightarrow> expires \<le> now"

section \<open>Writing the learning memory\<close>

text \<open>\<open>list(x or [])\<close> of a delivered column: a text becomes the list of its characters.\<close>

definition listed :: "json \<Rightarrow> json list" where
  "listed v = (if \<not> truthy v then [] else case v of JList vs \<Rightarrow> vs | JStr s \<Rightarrow> map (\<lambda>c. JStr [c]) s | _ \<Rightarrow> [])"

definition accepted_metadata :: "reflection_env \<Rightarrow> proposal \<Rightarrow> uuid option \<Rightarrow> payload" where
  "accepted_metadata e p supersedes =
     [(''source'', JStr ''reflection''), (''proposal_id'', JStr (pp_id p)), (''source_task_id'', json_opt (pp_task p)),
      (''source_session_id'', json_opt (pp_session p)), (''source_evidence_ids'', JList (listed (re_column e (JList (map JStr (pp_evidence p)))))),
      (''allowed_roles'', JList [JStr ''*''])] @ (case supersedes of None \<Rightarrow> [] | Some i \<Rightarrow> [(''supersedes'', JStr i)])"

definition accepted_row :: "reflection_env \<Rightarrow> proposal \<Rightarrow> string \<Rightarrow> string \<Rightarrow> uuid option \<Rightarrow> mem_row" where
  "accepted_row e p content review supersedes =
     \<lparr>mm_id = re_fresh e (pp_id p), mm_content = content, mm_embedding = None, mm_type = ''lesson'', mm_kind = ''learning'',
      mm_agent = (if pp_agent p = [] then ''reflection-worker'' else pp_agent p), mm_tenant = re_tenant e,
      mm_metadata = accepted_metadata e p supersedes, mm_parent = None, mm_confidence = pp_confidence p, mm_access = 0,
      mm_salience = 1 / 2, mm_review = Some review, mm_content_hash = Some (content_digest (me_sha (re_mem e)) content),
      mm_idem = None, mm_canonical = None, mm_valid_to = None, mm_created = me_db_now (re_mem e), mm_updated = me_db_now (re_mem e)\<rparr>"

definition feedback_ended :: "reflection_env \<Rightarrow> uuid \<Rightarrow> mem_row \<Rightarrow> mem_row" where
  "feedback_ended e new r =
     r\<lparr>mm_valid_to := coalesce (mm_valid_to r) (Some (me_now (re_mem e))),
       mm_metadata := jsonb_concat (mm_metadata r)
         [(''invalidated_by'', JStr new), (''invalidated_at'', JStr (re_pg_text e (me_now (re_mem e))))],
       mm_updated := me_db_now (re_mem e)\<rparr>"

text \<open>\<open>None\<close>: the insertion is refused and nothing is written.\<close>

definition write_accepted_learning_memory ::
    "reflection_env \<Rightarrow> proposal \<Rightarrow> string \<Rightarrow> string \<Rightarrow> uuid option \<Rightarrow> mem_db \<Rightarrow> (uuid \<times> mem_db) option" where
  "write_accepted_learning_memory e p content review supersedes db =
     (let r = accepted_row e p content review supersedes in
      if \<not> insert_allowed r (mb_rows db) \<or> \<not> me_sees (re_mem e) r then None
      else let rows = mb_rows db @ [r] in
        Some (mm_id r, db\<lparr>mb_rows := (case supersedes of None \<Rightarrow> rows
          | Some i \<Rightarrow> update_mem (\<lambda>s. me_sees (re_mem e) s \<and> mm_id s = i \<and> (case mm_valid_to s of None \<Rightarrow> True | Some t \<Rightarrow> me_now (re_mem e) < t))
                       (feedback_ended e (mm_id r)) rows)\<rparr>))"

section \<open>The routes\<close>

definition create_reflection_proposal :: "reflection_env \<Rightarrow> proposal_create \<Rightarrow> reflection_db \<Rightarrow> (api_error + proposal) \<times> reflection_db" where
  "create_reflection_proposal e req db =
     (let now = me_now (re_mem e); p = \<lparr>pp_id = re_proposal e, pp_tenant = re_tenant e, pp_status = Pending_Review, pp_source = pc_source req,
            pp_summary = pc_summary req, pp_content = pc_content req, pp_confidence = pc_confidence req, pp_risk_flags = pc_risk_flags req,
            pp_task = pc_task req, pp_session = pc_session req, pp_evidence = pc_evidence req, pp_expires = compute_proposal_expiry now,
            pp_memory = None, pp_superseded_by = None, pp_agent = pc_agent req, pp_created = me_db_now (re_mem e), pp_updated = me_db_now (re_mem e)\<rparr> in
      if pc_source req \<notin> {''task_close'', ''idle_dream''} \<or> pc_confidence req < 0 \<or> 1 < pc_confidence req then (Inl unprocessable, db)
      else if pp_id p \<in> pp_id ` set (rd_proposals db) then (Inl server_error, db)
      else (Inr p, db\<lparr>rd_proposals := rd_proposals db @ [p]\<rparr>))"

definition list_reflection_proposals :: "string \<Rightarrow> string option \<Rightarrow> string option \<Rightarrow> int \<Rightarrow> reflection_db \<Rightarrow> api_error + proposal list" where
  "list_reflection_proposals tenant status source limit db =
     (if limit < 0 then Inl server_error
      else Inr (take (nat limit) (sort_key pp_expires (filter (\<lambda>p. pp_tenant p = tenant \<and>
        reflection_status_text (pp_status p) = (if nonempty status then the status else ''pending'') \<and> opt_eq source (pp_source p)) (rd_proposals db)))))"

definition find_proposal :: "string \<Rightarrow> uuid \<Rightarrow> reflection_db \<Rightarrow> proposal option" where
  "find_proposal tenant i db = find (\<lambda>p. pp_id p = i \<and> pp_tenant p = tenant) (rd_proposals db)"

definition get_reflection_proposal :: "string \<Rightarrow> uuid \<Rightarrow> reflection_db \<Rightarrow> api_error + proposal" where
  "get_reflection_proposal tenant i db =
     (case find_proposal tenant i db of None \<Rightarrow> Inl (http_error 404 ''Proposal not found'') | Some p \<Rightarrow> Inr p)"

definition update_proposals :: "reflection_env \<Rightarrow> uuid \<Rightarrow> (proposal \<Rightarrow> proposal) \<Rightarrow> reflection_db \<Rightarrow> reflection_db" where
  "update_proposals e i f db =
     db\<lparr>rd_proposals := map (\<lambda>p. if pp_id p = i then (f p)\<lparr>pp_updated := me_db_now (re_mem e)\<rparr> else p) (rd_proposals db)\<rparr>"

definition log_action :: "reflection_env \<Rightarrow> uuid \<Rightarrow> string \<Rightarrow> string \<Rightarrow> string option \<Rightarrow> string option \<Rightarrow> reflection_db \<Rightarrow> reflection_db" where
  "log_action e i actor decision notes edited db =
     db\<lparr>rd_actions := rd_actions db @ [\<lparr>rl_proposal = i, rl_actor = actor, rl_decision = decision, rl_notes = notes, rl_edited = edited,
       rl_at = me_db_now (re_mem e)\<rparr>]\<rparr>"

definition refused_status :: "string \<Rightarrow> reflection_status \<Rightarrow> api_error" where
  "refused_status what s = http_error 409 (''Cannot '' @ what @ '' a proposal with status '' @ [CHR 0x27] @ reflection_status_text s @ [CHR 0x27, CHR ''.''])"

text \<open>Accepting: the memory, the row of the proposal and the log, each statement on its own.\<close>

definition accept_proposal ::
    "reflection_env \<Rightarrow> proposal \<Rightarrow> string \<Rightarrow> reflection_status \<Rightarrow> reflection_db \<Rightarrow> (uuid \<times> reflection_db) option" where
  "accept_proposal e p content status db =
     (case write_accepted_learning_memory e p content (reflection_status_text status) None (rd_mem db) of
        None \<Rightarrow> None
      | Some (m, mem) \<Rightarrow> Some (m, update_proposals e (pp_id p) (\<lambda>q. q\<lparr>pp_status := status, pp_memory := Some m\<rparr>) (db\<lparr>rd_mem := mem\<rparr>)))"

text \<open>What is done for the row that was read; \<open>db\<close> are the tables when it is done.\<close>

definition act_on_proposal ::
    "reflection_env \<Rightarrow> proposal \<Rightarrow> action_request \<Rightarrow> reflection_db \<Rightarrow> (api_error + action_response) \<times> reflection_db" where
  "act_on_proposal e p req db =
     (let i = pp_id p; log = (\<lambda>decision edited db. log_action e i (ac_actor req) decision (ac_notes req) edited db);
          reply = (\<lambda>decision status memory supersedes. Inr \<lparr>as_proposal = i, as_decision = decision, as_status = status, as_memory = memory, as_supersedes = supersedes\<rparr>) in
      case ac_decision req of
        Inspect \<Rightarrow> (reply ''inspect'' (pp_status p) (pp_memory p) None, log ''inspect'' None db)
      | Deny \<Rightarrow>
          if pp_status p \<noteq> Pending_Review then (Inl (refused_status ''deny'' (pp_status p)), db)
          else (reply ''deny'' Rejected None None, log ''deny'' None (update_proposals e i (\<lambda>q. q\<lparr>pp_status := Rejected\<rparr>) db))
      | Approve \<Rightarrow>
          if pp_status p \<noteq> Pending_Review then (Inl (refused_status ''approve'' (pp_status p)), db)
          else (case accept_proposal e p (pp_content p) Accepted db of
            None \<Rightarrow> (Inl server_error, db)
          | Some (m, db') \<Rightarrow> (reply ''approve'' Accepted (Some m) None, log ''approve'' None db'))
      | Edit_Content \<Rightarrow>
          if \<not> nonempty (ac_edited req) then (Inl (http_error 422 (''edited_content is required for the '' @ [CHR 0x27] @ ''edit'' @ [CHR 0x27] @ '' action.'')), db)
          else let edited = the (ac_edited req) in
            if pp_status p = Pending_Review then
              (case accept_proposal e p edited Accepted db of
                 None \<Rightarrow> (Inl server_error, db)
               | Some (m, db') \<Rightarrow> (reply ''edit'' Accepted (Some m) None, log ''edit'' (Some edited) db'))
            else if pp_status p \<in> {Accepted, Accepted_By_Timeout} then
              (case write_accepted_learning_memory e p edited ''accepted'' (pp_memory p) (rd_mem db) of
                 None \<Rightarrow> (Inl server_error, db)
               | Some (m, mem) \<Rightarrow> (reply ''edit'' Superseded (Some m) (pp_memory p),
                   log ''edit'' (Some edited) (update_proposals e i (\<lambda>q. q\<lparr>pp_status := Superseded, pp_superseded_by := Some i\<rparr>) (db\<lparr>rd_mem := mem\<rparr>))))
            else (Inl (refused_status ''edit'' (pp_status p)), db))"

definition take_reflection_action ::
    "reflection_env \<Rightarrow> uuid \<Rightarrow> action_request \<Rightarrow> reflection_db \<Rightarrow> (api_error + action_response) \<times> reflection_db" where
  "take_reflection_action e i req db =
     (case find_proposal (re_tenant e) i db of
        None \<Rightarrow> (Inl (http_error 404 ''Proposal not found''), db)
      | Some p \<Rightarrow> act_on_proposal e p req db)"

text \<open>A proposal whose memory is refused is logged by the server and stays pending.\<close>

definition time_out :: "reflection_env \<Rightarrow> proposal \<Rightarrow> nat \<times> reflection_db \<Rightarrow> nat \<times> reflection_db" where
  "time_out e p = (\<lambda>(n, db).
     case accept_proposal e p (pp_content p) Accepted_By_Timeout db of
       None \<Rightarrow> (n, db)
     | Some (m, db') \<Rightarrow> (n + 1, log_action e (pp_id p) ''system'' ''timeout_accept''
         (Some (''Review window expired at '' @ iso_utc (me_now (re_mem e)))) None db'))"

definition expired_proposals :: "reflection_env \<Rightarrow> reflection_db \<Rightarrow> proposal list" where
  "expired_proposals e db =
     sort_key pp_expires (filter (\<lambda>p. pp_tenant p = re_tenant e \<and> pp_status p = Pending_Review \<and> pp_expires p \<le> me_now (re_mem e)) (rd_proposals db))"

definition process_reflection_timeouts :: "reflection_env \<Rightarrow> reflection_db \<Rightarrow> nat \<times> reflection_db" where
  "process_reflection_timeouts e db = fold (time_out e) (expired_proposals e db) (0, db)"

section \<open>Memories match decisions\<close>

text \<open>The memories written for a proposal, in the order of writing, and whether a memory has ended.\<close>

definition proposal_of :: "mem_row \<Rightarrow> json option" where
  "proposal_of r = dict_get (mm_metadata r) ''proposal_id''"

definition written :: "uuid \<Rightarrow> mem_row list \<Rightarrow> uuid list" where
  "written i rows = map mm_id (filter (\<lambda>r. proposal_of r = Some (JStr i)) rows)"

definition ended :: "uuid \<Rightarrow> mem_row list \<Rightarrow> bool" where
  "ended i rows \<longleftrightarrow> (\<exists>r\<in>set rows. mm_id r = i \<and> mm_valid_to r \<noteq> None)"

definition proposal_ok :: "mem_row list \<Rightarrow> proposal \<Rightarrow> bool" where
  "proposal_ok rows p \<longleftrightarrow>
     (case pp_status p of
        Pending_Review \<Rightarrow> written (pp_id p) rows = [] \<and> pp_memory p = None
      | Rejected \<Rightarrow> written (pp_id p) rows = [] \<and> pp_memory p = None
      | Accepted \<Rightarrow> (\<exists>m. written (pp_id p) rows = [m] \<and> pp_memory p = Some m)
      | Accepted_By_Timeout \<Rightarrow> (\<exists>m. written (pp_id p) rows = [m] \<and> pp_memory p = Some m)
      | Superseded \<Rightarrow> (\<exists>m n. written (pp_id p) rows = [m, n] \<and> pp_memory p = Some m \<and> ended m rows))"

definition reflection_ok :: "reflection_db \<Rightarrow> bool" where
  "reflection_ok db \<longleftrightarrow> distinct (map pp_id (rd_proposals db)) \<and> (\<forall>p\<in>set (rd_proposals db). proposal_ok (mb_rows (rd_mem db)) p) \<and>
     (\<forall>r\<in>set (mb_rows (rd_mem db)). \<forall>i. proposal_of r = Some (JStr i) \<longrightarrow> i \<in> pp_id ` set (rd_proposals db))"

definition advances :: "reflection_status \<Rightarrow> reflection_status \<Rightarrow> bool" where
  "advances s t \<longleftrightarrow> s = t \<or> s = Pending_Review \<or> (s \<in> {Accepted, Accepted_By_Timeout} \<and> t = Superseded)"

text \<open>Every proposal stays, as itself, and its status only advances.\<close>

definition decisions_kept :: "reflection_db \<Rightarrow> reflection_db \<Rightarrow> bool" where
  "decisions_kept db db' \<longleftrightarrow> (\<forall>p\<in>set (rd_proposals db). \<exists>q\<in>set (rd_proposals db').
     pp_id q = pp_id p \<and> pp_content q = pp_content p \<and> pp_tenant q = pp_tenant p \<and> advances (pp_status p) (pp_status q))"

lemma advances_trans: "advances a b \<Longrightarrow> advances b c \<Longrightarrow> advances a c"
  by (auto simp: advances_def)

lemma decisions_kept_refl: "decisions_kept db db"
  by (auto simp: decisions_kept_def advances_def)

lemma decisions_kept_trans:
  assumes "decisions_kept a b" "decisions_kept b c"
  shows "decisions_kept a c"
  unfolding decisions_kept_def
proof
  fix p assume "p \<in> set (rd_proposals a)"
  then obtain q where q: "q \<in> set (rd_proposals b)" "pp_id q = pp_id p" "pp_content q = pp_content p" "pp_tenant q = pp_tenant p" "advances (pp_status p) (pp_status q)"
    using assms(1) unfolding decisions_kept_def by blast
  then obtain r where "r \<in> set (rd_proposals c)" "pp_id r = pp_id q" "pp_content r = pp_content q" "pp_tenant r = pp_tenant q" "advances (pp_status q) (pp_status r)"
    using assms(2) unfolding decisions_kept_def by blast
  with q show "\<exists>q\<in>set (rd_proposals c). pp_id q = pp_id p \<and> pp_content q = pp_content p \<and> pp_tenant q = pp_tenant p \<and> advances (pp_status p) (pp_status q)"
    by (intro bexI[of _ r]) (auto intro: advances_trans)
qed

lemma written_append: "written i (xs @ ys) = written i xs @ written i ys"
  by (simp add: written_def)

lemma feedback_simps [simp]: "mm_id (feedback_ended e new r) = mm_id r" "\<exists>t. mm_valid_to (feedback_ended e new r) = Some t" "proposal_of (feedback_ended e new r) = proposal_of r"
  by (simp_all add: feedback_ended_def proposal_of_def jsonb_concat_get coalesce_def split: option.split)

lemma accepted_row_simps [simp]: "mm_id (accepted_row e p c rv sp) = re_fresh e (pp_id p)" "proposal_of (accepted_row e p c rv sp) = Some (JStr (pp_id p))"
  "mm_valid_to (accepted_row e p c rv sp) = None"
  by (simp_all add: accepted_row_def proposal_of_def accepted_metadata_def)

lemma written_update: "written i (update_mem c (feedback_ended e new) rows) = written i rows"
proof -
  have "proposal_of (if c r then feedback_ended e new r else r) = proposal_of r" "mm_id (if c r then feedback_ended e new r else r) = mm_id r" for r
    by simp_all
  then show ?thesis
    by (simp add: written_def update_mem_def filter_map comp_def)
qed

lemma ended_update:
  assumes "ended i rows"
  shows "ended i (update_mem c (feedback_ended e new) rows)"
proof -
  obtain r where r: "r \<in> set rows" "mm_id r = i" "mm_valid_to r \<noteq> None"
    using assms by (auto simp: ended_def)
  then have "(if c r then feedback_ended e new r else r) \<in> set (update_mem c (feedback_ended e new) rows)"
    by (auto simp: update_mem_def)
  moreover have "mm_valid_to (if c r then feedback_ended e new r else r) \<noteq> None" "mm_id (if c r then feedback_ended e new r else r) = i"
    using r(2,3) by simp_all
  ultimately show ?thesis
    unfolding ended_def by blast
qed

lemma write_effect:
  assumes "write_accepted_learning_memory e p content review sp db = Some (m, db')"
  shows "written j (mb_rows db') = written j (mb_rows db) @ (if j = pp_id p then [m] else [])"
    "ended k (mb_rows db) \<Longrightarrow> ended k (mb_rows db')"
    "r \<in> set (mb_rows db') \<Longrightarrow> proposal_of r = Some (JStr (pp_id p)) \<or> proposal_of r \<in> proposal_of ` set (mb_rows db)"
proof -
  let ?r = "accepted_row e p content review sp"
  let ?c = "\<lambda>i s. me_sees (re_mem e) s \<and> mm_id s = i \<and> (case mm_valid_to s of None \<Rightarrow> True | Some t \<Rightarrow> me_now (re_mem e) < t)"
  have m: "m = mm_id ?r" and rows: "mb_rows db' = (case sp of None \<Rightarrow> mb_rows db @ [?r] | Some i \<Rightarrow> update_mem (?c i) (feedback_ended e m) (mb_rows db @ [?r]))"
    using assms by (auto simp: write_accepted_learning_memory_def Let_def split: if_splits option.split)
  show "written j (mb_rows db') = written j (mb_rows db) @ (if j = pp_id p then [m] else [])"
    unfolding rows by (cases sp) (auto simp: written_update written_append m, auto simp: written_def)
  have app: "ended k (mb_rows db) \<Longrightarrow> ended k (mb_rows db @ [?r])"
    by (auto simp: ended_def)
  then show "ended k (mb_rows db) \<Longrightarrow> ended k (mb_rows db')"
    unfolding rows by (cases sp) (simp_all add: ended_update)
  show "r \<in> set (mb_rows db') \<Longrightarrow> proposal_of r = Some (JStr (pp_id p)) \<or> proposal_of r \<in> proposal_of ` set (mb_rows db)"
    unfolding rows by (cases sp) (auto simp: update_mem_def)
qed

lemma write_ends:
  assumes "write_accepted_learning_memory e p content review (Some k) db = Some (m, db')" "\<forall>r. me_sees (re_mem e) r" "k \<in> mm_id ` set (mb_rows db)"
  shows "ended k (mb_rows db')"
proof -
  obtain r where r: "r \<in> set (mb_rows db)" "mm_id r = k"
    using assms(3) by blast
  let ?c = "\<lambda>s. me_sees (re_mem e) s \<and> mm_id s = k \<and> (case mm_valid_to s of None \<Rightarrow> True | Some t \<Rightarrow> me_now (re_mem e) < t)"
  let ?s = "if ?c r then feedback_ended e m r else r"
  have rows: "mb_rows db' = update_mem ?c (feedback_ended e m) (mb_rows db @ [accepted_row e p content review (Some k)])"
    using assms(1) by (auto simp: write_accepted_learning_memory_def Let_def split: if_splits)
  have "?s \<in> set (mb_rows db')"
    unfolding rows using r(1) by (auto simp: update_mem_def)
  moreover have "mm_id ?s = k" "mm_valid_to ?s \<noteq> None"
    using r(2) assms(2) by (simp_all split: option.split)
  ultimately show ?thesis
    unfolding ended_def by blast
qed

text \<open>A change of one proposal after a write for it keeps the tables in order.\<close>

lemma reflection_ok_change:
  assumes "reflection_ok db" "p \<in> set (rd_proposals db)"
    and rows: "\<And>j. written j rows' = written j (mb_rows (rd_mem db)) @ (if j = pp_id p then ms else [])"
      "\<And>k. ended k (mb_rows (rd_mem db)) \<Longrightarrow> ended k rows'"
      "\<And>r. r \<in> set rows' \<Longrightarrow> proposal_of r = Some (JStr (pp_id p)) \<or> proposal_of r \<in> proposal_of ` set (mb_rows (rd_mem db))"
    and f: "\<And>q t. pp_id ((f q)\<lparr>pp_updated := t\<rparr>) = pp_id q" "proposal_ok rows' ((f p)\<lparr>pp_updated := me_db_now (re_mem e)\<rparr>)"
      "pp_content ((f p)\<lparr>pp_updated := me_db_now (re_mem e)\<rparr>) = pp_content p" "pp_tenant ((f p)\<lparr>pp_updated := me_db_now (re_mem e)\<rparr>) = pp_tenant p"
      "advances (pp_status p) (pp_status ((f p)\<lparr>pp_updated := me_db_now (re_mem e)\<rparr>))"
    and db': "rd_proposals db' = map (\<lambda>q. if pp_id q = pp_id p then (f q)\<lparr>pp_updated := me_db_now (re_mem e)\<rparr> else q) (rd_proposals db)"
      "mb_rows (rd_mem db') = rows'"
  shows "reflection_ok db' \<and> decisions_kept db db'"
proof
  have same: "q = p" if "q \<in> set (rd_proposals db)" "pp_id q = pp_id p" for q
    using assms(1,2) that by (auto simp: reflection_ok_def distinct_map inj_on_def)
  have ids: "map pp_id (rd_proposals db') = map pp_id (rd_proposals db)"
    unfolding db' using f(1) by (simp add: comp_def)
  have "proposal_ok rows' q" if "q \<in> set (rd_proposals db)" "pp_id q \<noteq> pp_id p" for q
    using assms(1) that rows(1)[of "pp_id q"] rows(2) unfolding reflection_ok_def proposal_ok_def
    by (fastforce split: reflection_status.splits)
  then have "\<forall>q\<in>set (rd_proposals db'). proposal_ok rows' q"
    unfolding db' using f(2) same by auto
  moreover have "i \<in> pp_id ` set (rd_proposals db)" if "r \<in> set rows'" "proposal_of r = Some (JStr i)" for r i
    using rows(3)[OF that(1)] that(2) assms(1,2) unfolding reflection_ok_def by fastforce
  moreover have "pp_id ` set (rd_proposals db') = pp_id ` set (rd_proposals db)"
    using arg_cong[OF ids, of set] by (simp only: set_map)
  ultimately show "reflection_ok db'"
    using assms(1) ids db'(2) unfolding reflection_ok_def by metis
  show "decisions_kept db db'"
    unfolding decisions_kept_def
  proof
    fix q assume q: "q \<in> set (rd_proposals db)"
    let ?q = "if pp_id q = pp_id p then (f q)\<lparr>pp_updated := me_db_now (re_mem e)\<rparr> else q"
    have "?q \<in> set (rd_proposals db')"
      unfolding db' using q by (auto intro!: image_eqI[of _ _ q])
    moreover have "pp_id ?q = pp_id q \<and> pp_content ?q = pp_content q \<and> pp_tenant ?q = pp_tenant q \<and> advances (pp_status q) (pp_status ?q)"
      using same[OF q] f by (auto simp: advances_def)
    ultimately show "\<exists>q'\<in>set (rd_proposals db'). pp_id q' = pp_id q \<and> pp_content q' = pp_content q \<and> pp_tenant q' = pp_tenant q \<and> advances (pp_status q) (pp_status q')"
      by blast
  qed
qed

section \<open>Every request keeps them so\<close>

definition full_view :: "reflection_env \<Rightarrow> bool" where
  "full_view e \<longleftrightarrow> (\<forall>r. me_sees (re_mem e) r)"

lemma find_proposal_Some: "find_proposal t i db = Some p \<Longrightarrow> p \<in> set (rd_proposals db) \<and> pp_id p = i \<and> pp_tenant p = t"
  by (auto simp: find_proposal_def find_Some_iff)

lemma log_action_simps [simp]: "rd_proposals (log_action e i a d n x db) = rd_proposals db" "rd_mem (log_action e i a d n x db) = rd_mem db"
  by (simp_all add: log_action_def)

lemma log_keeps: "reflection_ok (log_action e i a d n x db') = reflection_ok db'" "decisions_kept db (log_action e i a d n x db') = decisions_kept db db'"
  by (simp_all add: reflection_ok_def decisions_kept_def)

lemma accept_keeps:
  assumes "reflection_ok db" "p \<in> set (rd_proposals db)" "pp_status p = Pending_Review" "accept_proposal e p content status db = Some (m, db')"
    and "status \<in> {Accepted, Accepted_By_Timeout}"
  shows "reflection_ok db' \<and> decisions_kept db db'"
proof -
  obtain mem where w: "write_accepted_learning_memory e p content (reflection_status_text status) None (rd_mem db) = Some (m, mem)"
    and db': "db' = update_proposals e (pp_id p) (\<lambda>q. q\<lparr>pp_status := status, pp_memory := Some m\<rparr>) (db\<lparr>rd_mem := mem\<rparr>)"
    using assms(4) by (auto simp: accept_proposal_def split: option.splits)
  have none: "written (pp_id p) (mb_rows (rd_mem db)) = []"
    using assms(1-3) by (auto simp: reflection_ok_def proposal_ok_def)
  show ?thesis
  proof (rule reflection_ok_change[OF assms(1,2) write_effect[OF w], where f = "\<lambda>q. q\<lparr>pp_status := status, pp_memory := Some m\<rparr>" and e = e])
    show "proposal_ok (mb_rows mem) (p\<lparr>pp_status := status, pp_memory := Some m, pp_updated := me_db_now (re_mem e)\<rparr>)"
      using assms(5) none write_effect(1)[OF w, of "pp_id p"] by (auto simp: proposal_ok_def)
  qed (simp_all add: db' update_proposals_def assms(3) advances_def)
qed

lemma pending_memory:
  assumes "reflection_ok db" "p \<in> set (rd_proposals db)" "pp_status p \<in> {Accepted, Accepted_By_Timeout}"
  shows "\<exists>k. pp_memory p = Some k \<and> written (pp_id p) (mb_rows (rd_mem db)) = [k] \<and> k \<in> mm_id ` set (mb_rows (rd_mem db))"
proof -
  have "proposal_ok (mb_rows (rd_mem db)) p"
    using assms(1,2) unfolding reflection_ok_def by blast
  then obtain k where k: "pp_memory p = Some k" "written (pp_id p) (mb_rows (rd_mem db)) = [k]"
    using assms(3) by (auto simp: proposal_ok_def)
  then have "k \<in> set (written (pp_id p) (mb_rows (rd_mem db)))"
    by simp
  then have "k \<in> mm_id ` set (mb_rows (rd_mem db))"
    unfolding written_def by auto
  with k show ?thesis by blast
qed

lemma edit_cases:
  assumes "act_on_proposal e p req db = (res, db')" "ac_decision req = Edit_Content"
  obtains "db' = db"
  | m db1 where "pp_status p = Pending_Review" "accept_proposal e p (the (ac_edited req)) Accepted db = Some (m, db1)"
      "db' = log_action e (pp_id p) (ac_actor req) ''edit'' (ac_notes req) (Some (the (ac_edited req))) db1"
  | m mem where "pp_status p \<in> {Accepted, Accepted_By_Timeout}"
      "write_accepted_learning_memory e p (the (ac_edited req)) ''accepted'' (pp_memory p) (rd_mem db) = Some (m, mem)"
      "db' = log_action e (pp_id p) (ac_actor req) ''edit'' (ac_notes req) (Some (the (ac_edited req)))
        (update_proposals e (pp_id p) (\<lambda>q. q\<lparr>pp_status := Superseded, pp_superseded_by := Some (pp_id p)\<rparr>) (db\<lparr>rd_mem := mem\<rparr>))"
proof -
  note act = assms(1)[unfolded act_on_proposal_def Let_def assms(2) reflection_decision.case]
  show thesis
  proof (cases "nonempty (ac_edited req)")
    case False
    then show thesis using act that(1) by simp
  next
    case True
    consider (pending) "pp_status p = Pending_Review" | (late) "pp_status p \<in> {Accepted, Accepted_By_Timeout}"
      | (other) "pp_status p \<in> {Rejected, Superseded}"
      by (cases "pp_status p") simp_all
    then show thesis
    proof cases
      case pending
      show thesis
      proof (cases "accept_proposal e p (the (ac_edited req)) Accepted db")
        case None
        then show thesis using act True pending that(1) by simp
      next
        case (Some mdb)
        obtain m db1 where "mdb = (m, db1)" by (cases mdb)
        then show thesis using act True pending Some that(2)[of m db1] by simp
      qed
    next
      case late
      then have not_pending: "pp_status p \<noteq> Pending_Review" by auto
      show thesis
      proof (cases "write_accepted_learning_memory e p (the (ac_edited req)) ''accepted'' (pp_memory p) (rd_mem db)")
        case None
        then show thesis using act True late not_pending that(1) by simp
      next
        case (Some mdb)
        obtain m mem where "mdb = (m, mem)" by (cases mdb)
        then show thesis using act True late not_pending Some that(3)[of m mem] by simp
      qed
    next
      case other
      then show thesis using act True that(1) by auto
    qed
  qed
qed

lemma act_keeps:
  assumes "reflection_ok db" "p \<in> set (rd_proposals db)" "full_view e" "act_on_proposal e p req db = (res, db')"
  shows "reflection_ok db' \<and> decisions_kept db db'"
proof (cases "ac_decision req")
  case Inspect
  then have "db' = log_action e (pp_id p) (ac_actor req) ''inspect'' (ac_notes req) None db"
    using assms(4) by (simp add: act_on_proposal_def Let_def)
  then show ?thesis
    using assms(1) by (simp add: log_keeps decisions_kept_refl)
next
  case Deny
  show ?thesis
  proof (cases "pp_status p = Pending_Review")
    case True
    let ?db = "update_proposals e (pp_id p) (\<lambda>q. q\<lparr>pp_status := Rejected\<rparr>) db"
    have "reflection_ok ?db \<and> decisions_kept db ?db"
    proof (rule reflection_ok_change[OF assms(1,2), where f = "\<lambda>q. q\<lparr>pp_status := Rejected\<rparr>" and e = e and ms = "[]" and rows' = "mb_rows (rd_mem db)"])
      show "proposal_ok (mb_rows (rd_mem db)) (p\<lparr>pp_status := Rejected, pp_updated := me_db_now (re_mem e)\<rparr>)"
        using assms(1,2) True by (auto simp: reflection_ok_def proposal_ok_def)
    qed (auto simp: update_proposals_def True advances_def)
    moreover have "db' = log_action e (pp_id p) (ac_actor req) ''deny'' (ac_notes req) None ?db"
      using assms(4) Deny True by (simp add: act_on_proposal_def Let_def)
    ultimately show ?thesis
      by (simp add: log_keeps)
  next
    case False
    then have "db' = db"
      using assms(4) Deny by (simp add: act_on_proposal_def Let_def)
    then show ?thesis using assms(1) by (simp add: decisions_kept_refl)
  qed
next
  case Approve
  show ?thesis
  proof (cases "pp_status p = Pending_Review")
    case True
    show ?thesis
    proof (cases "accept_proposal e p (pp_content p) Accepted db")
      case None
      then have "db' = db"
        using assms(4) Approve True by (simp add: act_on_proposal_def Let_def)
      then show ?thesis using assms(1) by (simp add: decisions_kept_refl)
    next
      case (Some mdb)
      obtain m db1 where mdb: "mdb = (m, db1)" by (cases mdb)
      have "db' = log_action e (pp_id p) (ac_actor req) ''approve'' (ac_notes req) None db1"
        using assms(4) Approve True Some mdb by (simp add: act_on_proposal_def Let_def)
      then show ?thesis
        using accept_keeps[OF assms(1,2) True, of e "pp_content p" Accepted m db1] Some mdb by (simp add: log_keeps)
    qed
  next
    case False
    then have "db' = db"
      using assms(4) Approve by (simp add: act_on_proposal_def Let_def)
    then show ?thesis using assms(1) by (simp add: decisions_kept_refl)
  qed
next
  case Edit_Content
  consider "db' = db" | m db1 where "pp_status p = Pending_Review" "accept_proposal e p (the (ac_edited req)) Accepted db = Some (m, db1)"
      "db' = log_action e (pp_id p) (ac_actor req) ''edit'' (ac_notes req) (Some (the (ac_edited req))) db1"
    | m mem where "pp_status p \<in> {Accepted, Accepted_By_Timeout}"
      "write_accepted_learning_memory e p (the (ac_edited req)) ''accepted'' (pp_memory p) (rd_mem db) = Some (m, mem)"
      "db' = log_action e (pp_id p) (ac_actor req) ''edit'' (ac_notes req) (Some (the (ac_edited req)))
        (update_proposals e (pp_id p) (\<lambda>q. q\<lparr>pp_status := Superseded, pp_superseded_by := Some (pp_id p)\<rparr>) (db\<lparr>rd_mem := mem\<rparr>))"
    by (rule edit_cases[OF assms(4) Edit_Content])
  then show ?thesis
  proof cases
    case 1
    then show ?thesis using assms(1) by (simp add: decisions_kept_refl)
  next
    case (2 m db1)
    then show ?thesis
      using accept_keeps[OF assms(1,2) 2(1,2)] by (simp add: log_keeps)
  next
    case (3 m mem)
    obtain k where k: "pp_memory p = Some k" "written (pp_id p) (mb_rows (rd_mem db)) = [k]" "k \<in> mm_id ` set (mb_rows (rd_mem db))"
      using pending_memory[OF assms(1,2) 3(1)] by blast
    have ended: "ended k (mb_rows mem)"
      using write_ends[of e p _ _ k "rd_mem db" m mem] 3(2) assms(3) k(1,3) by (simp add: full_view_def)
    let ?f = "\<lambda>q. q\<lparr>pp_status := Superseded, pp_superseded_by := Some (pp_id p)\<rparr>"
    have "reflection_ok (update_proposals e (pp_id p) ?f (db\<lparr>rd_mem := mem\<rparr>)) \<and> decisions_kept db (update_proposals e (pp_id p) ?f (db\<lparr>rd_mem := mem\<rparr>))"
    proof (rule reflection_ok_change[OF assms(1,2) write_effect[OF 3(2)], where f = ?f and e = e])
      show "proposal_ok (mb_rows mem) (p\<lparr>pp_status := Superseded, pp_superseded_by := Some (pp_id p), pp_updated := me_db_now (re_mem e)\<rparr>)"
        using k ended write_effect(1)[OF 3(2), of "pp_id p"] by (auto simp: proposal_ok_def)
      show "advances (pp_status p) (pp_status (p\<lparr>pp_status := Superseded, pp_superseded_by := Some (pp_id p), pp_updated := me_db_now (re_mem e)\<rparr>))"
        using 3(1) by (auto simp: advances_def)
    qed (simp_all add: update_proposals_def)
    then show ?thesis
      unfolding 3(3) by (simp add: log_keeps)
  qed
qed

lemma create_keeps:
  assumes "reflection_ok db"
  shows "reflection_ok (snd (create_reflection_proposal e req db)) \<and> decisions_kept db (snd (create_reflection_proposal e req db))"
proof (cases "\<exists>p. create_reflection_proposal e req db = (Inr p, db\<lparr>rd_proposals := rd_proposals db @ [p]\<rparr>)
    \<and> pp_id p \<notin> pp_id ` set (rd_proposals db) \<and> pp_status p = Pending_Review \<and> pp_memory p = None")
  case True
  then obtain p where p: "create_reflection_proposal e req db = (Inr p, db\<lparr>rd_proposals := rd_proposals db @ [p]\<rparr>)"
    "pp_id p \<notin> pp_id ` set (rd_proposals db)" "pp_status p = Pending_Review" "pp_memory p = None"
    by blast
  have "\<forall>r\<in>set (mb_rows (rd_mem db)). proposal_of r \<noteq> Some (JStr (pp_id p))"
    using assms p(2) unfolding reflection_ok_def by blast
  then have "written (pp_id p) (mb_rows (rd_mem db)) = []"
    by (simp add: written_def filter_empty_conv)
  then have "proposal_ok (mb_rows (rd_mem db)) p"
    using p(3,4) by (simp add: proposal_ok_def)
  then have "reflection_ok (db\<lparr>rd_proposals := rd_proposals db @ [p]\<rparr>)"
    using assms p(2) by (auto simp: reflection_ok_def)
  moreover have "decisions_kept db (db\<lparr>rd_proposals := rd_proposals db @ [p]\<rparr>)"
    by (auto simp: decisions_kept_def advances_def)
  ultimately show ?thesis
    using p(1) by simp
next
  case False
  then have "snd (create_reflection_proposal e req db) = db"
    by (auto simp: create_reflection_proposal_def Let_def split: if_splits)
  then show ?thesis
    using assms by (simp add: decisions_kept_refl)
qed

lemma accept_others:
  assumes "accept_proposal e p content status db = Some (m, db')" "q \<in> set (rd_proposals db)" "pp_id q \<noteq> pp_id p"
  shows "q \<in> set (rd_proposals db')"
  using assms by (auto simp: accept_proposal_def update_proposals_def image_iff split: option.splits)

lemma time_out_cases:
  obtains "time_out e p (n, db) = (n, db)" "accept_proposal e p (pp_content p) Accepted_By_Timeout db = None"
  | m db1 where "accept_proposal e p (pp_content p) Accepted_By_Timeout db = Some (m, db1)"
      "time_out e p (n, db) = (n + 1, log_action e (pp_id p) ''system'' ''timeout_accept'' (Some (''Review window expired at '' @ iso_utc (me_now (re_mem e)))) None db1)"
  by (cases "accept_proposal e p (pp_content p) Accepted_By_Timeout db") (auto simp: time_out_def)

lemma time_out_keeps:
  assumes "reflection_ok db" "distinct (map pp_id ps)" "\<forall>p\<in>set ps. p \<in> set (rd_proposals db) \<and> pp_status p = Pending_Review"
  shows "reflection_ok (snd (fold (time_out e) ps (n, db))) \<and> decisions_kept db (snd (fold (time_out e) ps (n, db)))"
  using assms
proof (induction ps arbitrary: n db)
  case Nil
  then show ?case by (simp add: decisions_kept_refl)
next
  case (Cons p ps)
  obtain n1 db1 where step: "time_out e p (n, db) = (n1, db1)" by (cases "time_out e p (n, db)")
  have p: "p \<in> set (rd_proposals db)" "pp_status p = Pending_Review" and rest: "distinct (map pp_id ps)"
    using Cons.prems(2,3) by simp_all
  have "reflection_ok db1 \<and> decisions_kept db db1 \<and> (\<forall>q\<in>set ps. q \<in> set (rd_proposals db1))"
  proof (rule time_out_cases[of e p n db])
    assume "time_out e p (n, db) = (n, db)"
    then show ?thesis
      using step Cons.prems by (simp add: decisions_kept_refl)
  next
    fix m db2
    assume a: "accept_proposal e p (pp_content p) Accepted_By_Timeout db = Some (m, db2)"
      and t: "time_out e p (n, db) = (n + 1, log_action e (pp_id p) ''system'' ''timeout_accept'' (Some (''Review window expired at '' @ iso_utc (me_now (re_mem e)))) None db2)"
    have "pp_id p \<notin> pp_id ` set ps"
      using Cons.prems(2) by simp
    then have "pp_id q \<noteq> pp_id p" if "q \<in> set ps" for q
      using that by (metis image_eqI)
    then have "\<forall>q\<in>set ps. q \<in> set (rd_proposals db2)"
      using accept_others[OF a] Cons.prems(3) by simp
    then show ?thesis
      using accept_keeps[OF Cons.prems(1) p a] t step by (auto simp: log_keeps)
  qed
  then show ?case
    using Cons.IH[of db1 n1, OF _ rest] Cons.prems(3) decisions_kept_trans step by auto
qed

lemma expired_facts:
  assumes "reflection_ok db"
  shows "distinct (map pp_id (expired_proposals e db))"
    "\<forall>p\<in>set (expired_proposals e db). p \<in> set (rd_proposals db) \<and> pp_status p = Pending_Review"
proof -
  let ?xs = "filter (\<lambda>p. pp_tenant p = re_tenant e \<and> pp_status p = Pending_Review \<and> pp_expires p \<le> me_now (re_mem e)) (rd_proposals db)"
  have "mset (map pp_id (expired_proposals e db)) = mset (map pp_id ?xs)"
    by (simp add: expired_proposals_def)
  moreover have "distinct (map pp_id ?xs)"
    using assms by (auto simp: reflection_ok_def intro: distinct_map_filter)
  ultimately show "distinct (map pp_id (expired_proposals e db))"
    using mset_eq_imp_distinct_iff by blast
  show "\<forall>p\<in>set (expired_proposals e db). p \<in> set (rd_proposals db) \<and> pp_status p = Pending_Review"
    by (simp add: expired_proposals_def)
qed

datatype reflection_request =
    Propose reflection_env proposal_create
  | Act reflection_env uuid action_request
  | Process_Timeouts reflection_env

fun reflection_step :: "reflection_request \<Rightarrow> reflection_db \<Rightarrow> reflection_db" where
  "reflection_step (Propose e req) db = snd (create_reflection_proposal e req db)"
| "reflection_step (Act e i req) db = snd (take_reflection_action e i req db)"
| "reflection_step (Process_Timeouts e) db = snd (process_reflection_timeouts e db)"

fun request_env :: "reflection_request \<Rightarrow> reflection_env" where
  "request_env (Propose e req) = e"
| "request_env (Act e i req) = e"
| "request_env (Process_Timeouts e) = e"

lemma step_keeps:
  assumes "reflection_ok db" "full_view (request_env r)"
  shows "reflection_ok (reflection_step r db) \<and> decisions_kept db (reflection_step r db)"
proof (cases r)
  case (Propose e req)
  then show ?thesis using create_keeps[OF assms(1)] by simp
next
  case (Act e i req)
  show ?thesis
  proof (cases "find_proposal (re_tenant e) i db")
    case None
    then show ?thesis using assms(1) Act by (simp add: take_reflection_action_def decisions_kept_refl)
  next
    case (Some p)
    obtain res db' where a: "act_on_proposal e p req db = (res, db')" by (cases "act_on_proposal e p req db")
    then show ?thesis
      using act_keeps[OF assms(1) _ _ a] find_proposal_Some[OF Some] assms(2) Act Some by (simp add: take_reflection_action_def)
  qed
next
  case (Process_Timeouts e)
  then show ?thesis
    using time_out_keeps[OF assms(1) expired_facts[OF assms(1)], where n = 0] by (simp add: process_reflection_timeouts_def)
qed


section \<open>The window closes\<close>

lemma write_ids:
  assumes "write_accepted_learning_memory e p content review None db = Some (m, db')"
  shows "m = re_fresh e (pp_id p) \<and> mm_id ` set (mb_rows db') = insert m (mm_id ` set (mb_rows db))"
  using assms by (auto simp: write_accepted_learning_memory_def Let_def split: if_splits)

text \<open>What the table of memories asks of a proposal.\<close>

definition storable :: "proposal \<Rightarrow> bool" where
  "storable p \<longleftrightarrow> char_len (pp_agent p) \<le> 64 \<and> 0 \<le> pp_confidence p \<and> pp_confidence p \<le> 1"

lemma storable_accepted:
  assumes "storable p" "full_view e" "re_fresh e (pp_id p) \<notin> mm_id ` set (mb_rows (rd_mem db))"
  shows "\<exists>mdb. accept_proposal e p content status db = Some mdb"
proof -
  have "char_len ''reflection-worker'' \<le> 64"
    by code_simp
  then have "insert_allowed (accepted_row e p content review None) (mb_rows (rd_mem db))" for review
    using assms by (auto simp: insert_allowed_def storable_def accepted_row_def metadata_key_def accepted_metadata_def)
  then show ?thesis
    using assms(2) by (auto simp: accept_proposal_def write_accepted_learning_memory_def full_view_def Let_def)
qed

lemma accept_effect:
  assumes "accept_proposal e p content Accepted_By_Timeout db = Some (m, db')"
  shows "mm_id ` set (mb_rows (rd_mem db')) = insert (re_fresh e (pp_id p)) (mm_id ` set (mb_rows (rd_mem db)))"
    "q \<in> set (rd_proposals db') \<Longrightarrow> pp_status q = Pending_Review \<Longrightarrow> q \<in> set (rd_proposals db) \<and> pp_id q \<noteq> pp_id p"
proof -
  obtain mem where w: "write_accepted_learning_memory e p content (reflection_status_text Accepted_By_Timeout) None (rd_mem db) = Some (m, mem)"
    and db': "db' = update_proposals e (pp_id p) (\<lambda>q. q\<lparr>pp_status := Accepted_By_Timeout, pp_memory := Some m\<rparr>) (db\<lparr>rd_mem := mem\<rparr>)"
    using assms by (auto simp: accept_proposal_def split: option.splits)
  show "mm_id ` set (mb_rows (rd_mem db')) = insert (re_fresh e (pp_id p)) (mm_id ` set (mb_rows (rd_mem db)))"
    using write_ids[OF w] by (simp add: db' update_proposals_def)
  show "q \<in> set (rd_proposals db') \<Longrightarrow> pp_status q = Pending_Review \<Longrightarrow> q \<in> set (rd_proposals db) \<and> pp_id q \<noteq> pp_id p"
    by (auto simp: db' update_proposals_def split: if_splits)
qed

lemma pass_accepts:
  assumes "full_view e" "\<forall>p\<in>set ps. storable p" "distinct (map (re_fresh e \<circ> pp_id) ps)"
    and "\<forall>p\<in>set ps. re_fresh e (pp_id p) \<notin> mm_id ` set (mb_rows (rd_mem db))"
    and "q \<in> set (rd_proposals (snd (fold (time_out e) ps (n, db))))" "pp_status q = Pending_Review"
  shows "q \<in> set (rd_proposals db) \<and> pp_id q \<notin> pp_id ` set ps"
  using assms(2-5)
proof (induction ps arbitrary: n db)
  case (Cons p ps)
  obtain m db1 where a: "accept_proposal e p (pp_content p) Accepted_By_Timeout db = Some (m, db1)"
    using storable_accepted[OF _ assms(1), of p db] Cons.prems(1,3) by fastforce
  obtain n1 db2 where t: "time_out e p (n, db) = (n1, db2)" and db2: "rd_proposals db2 = rd_proposals db1" "rd_mem db2 = rd_mem db1"
    using a by (cases "time_out e p (n, db)") (auto simp: time_out_def)
  have "re_fresh e (pp_id p') \<notin> mm_id ` set (mb_rows (rd_mem db2))" if "p' \<in> set ps" for p'
  proof -
    have "re_fresh e (pp_id p) \<notin> (re_fresh e \<circ> pp_id) ` set ps"
      using Cons.prems(2) by simp
    then have "re_fresh e (pp_id p') \<noteq> re_fresh e (pp_id p)"
      using that by (metis comp_apply image_eqI)
    then show ?thesis
      using Cons.prems(3) that accept_effect(1)[OF a] db2(2) by simp
  qed
  then have "q \<in> set (rd_proposals db2) \<and> pp_id q \<notin> pp_id ` set ps"
    using Cons.prems t by (intro Cons.IH[of db2 n1]) auto
  then show ?case
    using accept_effect(2)[OF a, of q] db2(1) assms(6) by auto
qed simp


section \<open>Behaviour of note\<close>

text \<open>
  Two approvals that both read the pending proposal before either writes leave two memories for
  it, of which the proposal names the second.
\<close>

lemma concurrent_approvals_write_twice:
  assumes "pp_status p = Pending_Review" "ac_decision req = Approve" "ac_decision req' = Approve"
    and "act_on_proposal e p req db = (Inr a, db1)" "act_on_proposal e' p req' db1 = (Inr b, db2)"
  shows "\<exists>m n. written (pp_id p) (mb_rows (rd_mem db2)) = written (pp_id p) (mb_rows (rd_mem db)) @ [m, n]"
proof -
  have one: "\<exists>m. written (pp_id p) (mb_rows (rd_mem d')) = written (pp_id p) (mb_rows (rd_mem d)) @ [m]"
    if act: "act_on_proposal e p req d = (Inr a, d')" "ac_decision req = Approve" for e req d a d'
  proof -
    obtain m d1 where a: "accept_proposal e p (pp_content p) Accepted d = Some (m, d1)" and d': "rd_mem d' = rd_mem d1"
      using act assms(1) by (cases "accept_proposal e p (pp_content p) Accepted d") (auto simp: act_on_proposal_def Let_def)
    then obtain mem where "write_accepted_learning_memory e p (pp_content p) (reflection_status_text Accepted) None (rd_mem d) = Some (m, mem)" "rd_mem d1 = mem"
      by (auto simp: accept_proposal_def update_proposals_def split: option.splits)
    from write_effect(1)[OF this(1), of "pp_id p"] this(2) d' show ?thesis
      by simp
  qed
  obtain m where m: "written (pp_id p) (mb_rows (rd_mem db1)) = written (pp_id p) (mb_rows (rd_mem db)) @ [m]"
    using one[OF assms(4,2)] by blast
  obtain n where "written (pp_id p) (mb_rows (rd_mem db2)) = written (pp_id p) (mb_rows (rd_mem db1)) @ [n]"
    using one[OF assms(5,3)] by blast
  with m show ?thesis by simp
qed

text \<open>The accepted memory is written without an embedding, so the vector query of the recall never yields it.\<close>

lemma accepted_memory_has_no_vector: "mm_embedding (accepted_row e p content review sp) = None" "reviewed_learning (accepted_row e p content ''accepted'' sp)"
  by (simp_all add: accepted_row_def reviewed_learning_def)

text \<open>A column delivered as text is taken apart into characters.\<close>

lemma evidence_ids_are_characters:
  assumes "re_column e (JList (map JStr (pp_evidence p))) = JStr text'" "text' \<noteq> []"
  shows "dict_get (accepted_metadata e p sp) ''source_evidence_ids'' = Some (JList (map (\<lambda>c. JStr [c]) text'))"
  using assms by (simp add: accepted_metadata_def listed_def)

text \<open>A superseded proposal names itself as the one that supersedes it, and takes no second edit.\<close>

lemma superseded_takes_no_edit:
  assumes "pp_status p = Superseded" "ac_decision req = Edit_Content" "nonempty (ac_edited req)"
  shows "act_on_proposal e p req db = (Inl (refused_status ''edit'' Superseded), db)"
  using assms by (simp add: act_on_proposal_def Let_def)

text \<open>An agent whose name does not fit the column of the memories leaves its proposal pending for ever.\<close>

lemma long_agent_blocks_proposal:
  assumes "64 < char_len (pp_agent p)" "pp_agent p \<noteq> []"
  shows "accept_proposal e p content status db = None"
  using assms by (simp add: accept_proposal_def write_accepted_learning_memory_def insert_allowed_def accepted_row_def Let_def)

section \<open>Examples\<close>

definition reflection_env_ex :: "time \<Rightarrow> uuid \<Rightarrow> reflection_env" where
  "reflection_env_ex now i = \<lparr>re_mem = mem_env_ex now ''m'', re_tenant = ''t'', re_fresh = (\<lambda>p. i), re_proposal = i,
     re_pg_text = (\<lambda>t. []), re_column = (\<lambda>v. v)\<rparr>"

definition propose_ex :: proposal_create where
  "propose_ex = \<lparr>pc_source = ''task_close'', pc_summary = ''s'', pc_content = ''c'', pc_confidence = 1 / 2, pc_risk_flags = [], pc_task = None,
     pc_session = None, pc_evidence = [], pc_agent = ''a''\<rparr>"

definition act_ex :: "reflection_decision \<Rightarrow> action_request" where
  "act_ex d = \<lparr>ac_actor = ''lead'', ac_decision = d, ac_notes = None, ac_edited = Some ''better''\<rparr>"

definition reflection_db_ex :: reflection_db where
  "reflection_db_ex = \<lparr>rd_proposals = [], rd_actions = [], rd_mem = mem_db_ex\<rparr>"

definition reflection_run_ex :: "reflection_request list" where
  "reflection_run_ex = [Propose (reflection_env_ex 0 ''p'') propose_ex, Act (reflection_env_ex 1 ''m1'') ''p'' (act_ex Approve),
     Act (reflection_env_ex 2 ''m2'') ''p'' (act_ex Edit_Content), Act (reflection_env_ex 3 ''m3'') ''p'' (act_ex Deny), Process_Timeouts (reflection_env_ex 4 ''m4'')]"



end
