(* ===== verification/Reflection_Proposals.thy ===== *)
theory Reflection_Proposals imports Reflection_Queue begin

text \<open>
  The database-free part of the reflection pipeline (\<open>memu/reflection.py\<close>): when reflection runs,
  which proposals it makes of evidence, and the notice that is sent about one.

  A record of evidence is a dict. \<open>py_str\<close> is \<open>str\<close> of a value and \<open>py_int\<close> is \<open>int\<close> of one, \<open>None\<close>
  when it raises. Texts are in UTF-8 and cut at characters; lower case is that of ASCII. Task
  identifiers are texts.

  Proved: a task never gets more than three proposals, and failures come before everything else; a
  notice of a short record quotes it whole.
\<close>

section \<open>When reflection runs\<close>

definition TASK_CLOSE_MAX_PROPOSALS :: int where "TASK_CLOSE_MAX_PROPOSALS = 3"
definition IDLE_DREAM_CADENCE_HOURS :: int where "IDLE_DREAM_CADENCE_HOURS = 4"

definition should_run_task_close_reflection :: "int \<Rightarrow> bool" where
  "should_run_task_close_reflection existing \<longleftrightarrow> existing < TASK_CLOSE_MAX_PROPOSALS"

definition should_run_idle_dream_reflection :: "time option \<Rightarrow> time \<Rightarrow> bool" where
  "should_run_idle_dream_reflection last_ran now =
     (case last_ran of None \<Rightarrow> True | Some t \<Rightarrow> seconds (IDLE_DREAM_CADENCE_HOURS * 3600) \<le> now - t)"

section \<open>Proposals from evidence\<close>

record draft =
  dt_source :: string
  dt_summary :: string
  dt_content :: string
  dt_confidence :: real
  dt_risk_flags :: "string list"
  dt_task :: "string option"
  dt_session :: "string option"
  dt_evidence :: "string list"
  dt_agent :: string

definition is_failure :: "payload \<Rightarrow> bool" where
  "is_failure r \<longleftrightarrow> dict_get r ''memory_type'' = Some (JStr ''failure'')"

definition record_ids :: "(json \<Rightarrow> string) \<Rightarrow> payload \<Rightarrow> string list" where
  "record_ids py_str r = (case dict_get r ''id'' of None \<Rightarrow> [] | Some v \<Rightarrow> if truthy v then [py_str v] else [])"

definition extract_risk_flags :: "(json \<Rightarrow> int option) \<Rightarrow> payload \<Rightarrow> string list" where
  "extract_risk_flags py_int r =
     (let risk = (case dict_get (obj_field r ''metadata'') ''risk_score'' of None \<Rightarrow> JInt 0 | Some v \<Rightarrow> v) in
      (if is_failure r then [''failure_evidence''] else []) @
      (case py_int risk of None \<Rightarrow> [] | Some n \<Rightarrow> if 70 \<le> n then [''high_risk''] else []))"

definition task_close_draft ::
    "(json \<Rightarrow> string) \<Rightarrow> (json \<Rightarrow> int option) \<Rightarrow> string \<Rightarrow> string option \<Rightarrow> payload \<Rightarrow> draft list" where
  "task_close_draft py_str py_int task session r =
     (let content = str_field r ''content'' [] in
      if content = [] then []
      else [\<lparr>dt_source = ''task_close'', dt_summary = char_take 200 content @ (if 200 < char_len content then ''...'' else []),
             dt_content = content, dt_confidence = num_field r ''confidence'' (7 / 10), dt_risk_flags = extract_risk_flags py_int r,
             dt_task = Some task, dt_session = session, dt_evidence = record_ids py_str r, dt_agent = str_field r ''agent_id'' ''unknown''\<rparr>])"

definition generate_task_close_proposals ::
    "(json \<Rightarrow> string) \<Rightarrow> (json \<Rightarrow> int option) \<Rightarrow> string \<Rightarrow> string option \<Rightarrow> payload list \<Rightarrow> int \<Rightarrow> draft list" where
  "generate_task_close_proposals py_str py_int task session records existing =
     (let remaining = TASK_CLOSE_MAX_PROPOSALS - existing in
      if remaining \<le> 0 then []
      else let ordered = take (nat remaining) (filter is_failure records @ filter (\<lambda>r. \<not> is_failure r) records)
           in take (nat remaining) (concat (map (task_close_draft py_str py_int task session) ordered)))"

text \<open>\<open>meta.get("task_id") or record.get("source_task_id") or "unknown"\<close>.\<close>

definition failure_task :: "payload \<Rightarrow> string" where
  "failure_task r =
     (let a = opt_str_field (obj_field r ''metadata'') ''task_id''; b = opt_str_field r ''source_task_id'' in
      if nonempty a then the a else if nonempty b then the b else ''unknown'')"

definition add_failure :: "payload \<Rightarrow> (string, string list) dict \<Rightarrow> (string, string list) dict" where
  "add_failure r groups =
     (let content = str_field r ''content'' []; key = strip (lower (char_take 100 content)) in
      if \<not> is_failure r \<or> content = [] then groups
      else dict_set key ((case dict_get groups key of None \<Rightarrow> [] | Some ts \<Rightarrow> ts) @ [failure_task r]) groups)"

text \<open>\<open>list(dict.fromkeys(xs))\<close>: the first occurrences, in order.\<close>

definition first_occurrences :: "'a list \<Rightarrow> 'a list" where
  "first_occurrences xs = rev (remdups (rev xs))"

definition repeated_failure_draft :: "string \<times> string list \<Rightarrow> draft list" where
  "repeated_failure_draft g =
     (case g of (pattern, tasks) \<Rightarrow>
      if length tasks < 2 then []
      else let unique = first_occurrences tasks in
        [\<lparr>dt_source = ''idle_dream'',
          dt_summary = ''Repeated failure pattern across '' @ show_nat (length unique) @ '' task(s): '' @ char_take 120 pattern,
          dt_content = ''Cross-task failure pattern (tasks: '' @ join_strings '', '' (take 5 unique) @ ''): '' @ pattern,
          dt_confidence = min (1 / 2 + 1 / 10 * real (length unique)) (95 / 100), dt_risk_flags = [''repeated_failure''],
          dt_task = None, dt_session = None, dt_evidence = [], dt_agent = ''reflection-worker''\<rparr>])"

definition stale_draft :: "(json \<Rightarrow> string) \<Rightarrow> payload \<Rightarrow> draft list" where
  "stale_draft py_str r =
     (let content = str_field r ''content'' [] in
      if content = [] then []
      else [\<lparr>dt_source = ''idle_dream'', dt_summary = ''Stale learning candidate: '' @ char_take 150 content,
             dt_content = ''Review learning validity: '' @ content, dt_confidence = 6 / 10, dt_risk_flags = [''stale_learning''],
             dt_task = None, dt_session = None, dt_evidence = record_ids py_str r, dt_agent = ''reflection-worker''\<rparr>])"

definition generate_idle_dream_proposals :: "(json \<Rightarrow> string) \<Rightarrow> payload list \<Rightarrow> payload list \<Rightarrow> draft list" where
  "generate_idle_dream_proposals py_str evidence stale =
     concat (map repeated_failure_draft (fold add_failure evidence [])) @ concat (map (stale_draft py_str) (take 2 stale))"

section \<open>Notices\<close>

definition expiry_text :: "time \<Rightarrow> string" where
  "expiry_text t =
     (let (y, mon, d) = civil_date (t div 86400000000); s = t mod 86400000000 div 1000000 in
      show_int y @ ''-'' @ zero_pad 2 mon @ ''-'' @ zero_pad 2 d @ '' '' @ zero_pad 2 (s div 3600) @ '':'' @ zero_pad 2 (s div 60 mod 60) @ '' UTC'')"

definition notice_actions :: "string \<Rightarrow> string" where
  "notice_actions i = ''Actions: /approve_'' @ i @ '' | /deny_'' @ i @ '' | /edit_'' @ i @ '' | /inspect_'' @ i"

definition format_telegram_compact_notice ::
    "string \<Rightarrow> string \<Rightarrow> real \<Rightarrow> string list \<Rightarrow> string option \<Rightarrow> time \<Rightarrow> string \<Rightarrow> string" where
  "format_telegram_compact_notice i summary confidence risk_flags task expires source =
     join_strings newline
       [''[Reflection Proposal]'',
        ''Source: '' @ (if nonempty task then ''task '' @ the task else ''['' @ source @ '']''),
        ''Summary: '' @ char_take 200 summary,
        ''Confidence: '' @ show_int (round_half_even (100 * confidence)) @ ''%  Risk: '' @ (if risk_flags = [] then ''none'' else join_strings '', '' risk_flags),
        ''Expires: '' @ expiry_text expires,
        notice_actions i]"

datatype delivery = Delivered "string option" | Send_Failed

text \<open>The function that sends, when there is one, may raise; the message id of a delivery may be missing.\<close>

definition send_compact_notice ::
    "(string \<Rightarrow> delivery) option \<Rightarrow> string \<Rightarrow> string \<Rightarrow> real \<Rightarrow> string list \<Rightarrow> string option \<Rightarrow> time \<Rightarrow> string \<Rightarrow> string option" where
  "send_compact_notice send i summary confidence risk_flags task expires source =
     (case send of None \<Rightarrow> None
      | Some f \<Rightarrow> (case f (format_telegram_compact_notice i summary confidence risk_flags task expires source) of
            Delivered m \<Rightarrow> m | Send_Failed \<Rightarrow> None))"

section \<open>What is proposed\<close>

lemma drafts_at_most: "(\<And>r. length (f r) \<le> 1) \<Longrightarrow> length (concat (map f rs)) \<le> length rs"
proof (induction rs)
  case (Cons r rs)
  from Cons.IH[OF Cons.prems] Cons.prems[of r] show ?case by simp
qed simp

lemma task_close_draft_content:
  "d \<in> set (task_close_draft py_str py_int task session r) \<Longrightarrow>
     dt_content d = str_field r ''content'' [] \<and> dt_task d = Some task \<and> (''failure_evidence'' \<in> set (dt_risk_flags d) \<longleftrightarrow> is_failure r)"
  by (auto simp: task_close_draft_def extract_risk_flags_def Let_def split: if_splits option.splits)

definition flagged_failure :: "draft \<Rightarrow> bool" where
  "flagged_failure d \<longleftrightarrow> ''failure_evidence'' \<in> set (dt_risk_flags d)"

text \<open>An order of the records is one of the drafts they give.\<close>

lemma sorted_drafts:
  assumes "sorted (map g rs)" "\<And>r. length (f r) \<le> 1" "\<And>r d. d \<in> set (f r) \<Longrightarrow> h d = g r"
  shows "sorted (map h (concat (map f rs)))"
  using assms(1)
proof (induction rs)
  case (Cons r rs)
  have "\<forall>d\<in>set (f r). \<forall>e\<in>set (concat (map f rs)). h d \<le> h e"
    using Cons.prems assms(3) by fastforce
  moreover have "sorted (map h (f r))"
    using assms(2)[of r] by (cases "f r") auto
  ultimately show ?case
    using Cons by (auto simp: sorted_append)
qed simp

lemma failures_sorted: "sorted (map (\<lambda>r. \<not> P r) (take n (filter P rs @ filter (\<lambda>r. \<not> P r) rs)))"
proof -
  have "map (\<lambda>r. \<not> P r) (filter P rs @ filter (\<lambda>r. \<not> P r) rs) = replicate (length (filter P rs)) False @ replicate (length (filter (\<lambda>r. \<not> P r) rs)) True"
    by (auto simp: map_replicate_const[symmetric])
  then have "sorted (map (\<lambda>r. \<not> P r) (filter P rs @ filter (\<lambda>r. \<not> P r) rs))"
    by (simp add: sorted_append sorted_replicate)
  then show ?thesis
    by (metis sorted_wrt_take take_map)
qed

text \<open>
  With the proposals it has, a task never gets more than three; all of them quote evidence of the
  task in full, and those about failures come first.
\<close>

lemma task_close_proposals:
  assumes "drafts = generate_task_close_proposals py_str py_int task session records existing"
  shows "int (length drafts) \<le> max 0 (TASK_CLOSE_MAX_PROPOSALS - existing) \<and>
    sorted (map (\<lambda>d. \<not> flagged_failure d) drafts) \<and>
    (\<forall>d\<in>set drafts. dt_task d = Some task \<and> (\<exists>r\<in>set records. dt_content d = str_field r ''content'' [] \<and> (flagged_failure d \<longleftrightarrow> is_failure r)))"
proof (cases "TASK_CLOSE_MAX_PROPOSALS - existing \<le> 0")
  case True
  then show ?thesis using assms by (simp add: generate_task_close_proposals_def)
next
  case False
  let ?n = "nat (TASK_CLOSE_MAX_PROPOSALS - existing)" and ?f = "task_close_draft py_str py_int task session"
  let ?ordered = "take ?n (filter is_failure records @ filter (\<lambda>r. \<not> is_failure r) records)"
  have drafts: "drafts = take ?n (concat (map ?f ?ordered))"
    using assms False by (simp add: generate_task_close_proposals_def Let_def)
  have "sorted (map (\<lambda>d. \<not> flagged_failure d) (concat (map ?f ?ordered)))"
  proof (rule sorted_drafts[OF failures_sorted])
    show "length (?f r) \<le> 1" for r
      by (simp add: task_close_draft_def Let_def)
    show "d \<in> set (?f r) \<Longrightarrow> (\<not> flagged_failure d) = (\<not> is_failure r)" for r d
      using task_close_draft_content[of d] by (simp add: flagged_failure_def)
  qed
  then have "sorted (map (\<lambda>d. \<not> flagged_failure d) drafts)"
    unfolding drafts take_map[symmetric] by (rule sorted_wrt_take)
  moreover have "\<exists>r\<in>set records. d \<in> set (?f r)" if "d \<in> set drafts" for d
  proof -
    have "d \<in> set (concat (map ?f ?ordered))"
      using that unfolding drafts by (rule in_set_takeD)
    then obtain r where r: "r \<in> set ?ordered" "d \<in> set (?f r)"
      by (auto simp del: take_append)
    from in_set_takeD[OF r(1)] have "r \<in> set records"
      by auto
    with r(2) show ?thesis by blast
  qed
  then have "\<forall>d\<in>set drafts. dt_task d = Some task \<and> (\<exists>r\<in>set records. dt_content d = str_field r ''content'' [] \<and> (flagged_failure d \<longleftrightarrow> is_failure r))"
    using task_close_draft_content unfolding flagged_failure_def by blast
  moreover have "int (length drafts) \<le> max 0 (TASK_CLOSE_MAX_PROPOSALS - existing)"
  proof -
    have "length drafts \<le> ?n"
      unfolding drafts by (simp only: length_take min.cobounded2)
    then show ?thesis using False by linarith
  qed
  ultimately show ?thesis by blast
qed

section \<open>Behaviour of note\<close>

text \<open>A notice carries the first two hundred characters of the evidence it is about.\<close>

lemma notice_quotes_evidence:
  assumes "d \<in> set (task_close_draft py_str py_int task session r)" "char_len (str_field r ''content'' []) \<le> 200"
  shows "dt_summary d = str_field r ''content'' []"
  using assms by (auto simp: task_close_draft_def Let_def char_take_all split: if_splits)

text \<open>Whatever the function that sends does, the result is a message id or none.\<close>

lemma failed_delivery_is_silent: "send_compact_notice (Some (\<lambda>m. Send_Failed)) i summary confidence risk task expires source = None"
  by (simp add: send_compact_notice_def)

end
