(* ===== verification/Spec2Isabelle.thy ===== *)
theory Spec2Isabelle imports
  Prelude
  Lock_Spec
  Neighborhood_Lock
  Sqlite_Locks
  Markdown_Locks
  Worker_Router
  Swarm_Models
  Bridge_Ledger
  Dag_Projection
  Projection_Agreement
  Storage_Base
  Slug_Registry
  Sqlite_Backend
  Rlm
  Markdown_Backend
  Core_Memory
  Hardening
  Lane_Lock
  Frontmatter
  Vault_Codec
  Archival_Pager
  Context_Isolation
  Memu_Client
  Task_Orchestrator
  Wikilink
  Vault_Sync
  Warden_Runtime
  Url_Parts
  Cluster_Manager
  Supply_Chain
  Concept_Search
  Ingest_Resolve
  Ingest_Filters
  Ingest_Codebase
  Api_Base
  Gateway_Leases
  Task_Registry
  Memory_Contract
  Memory_Helpers
  Memory_Store
  Memory_Search
  Forensic_Recall
  Temporal_Queries
  Memory_Hygiene
  Reflection_Queue
  Reflection_Proposals
begin

text \<open>
  Verification development for the memory evidence plane \<open>fumemory\<close> (package \<open>memu/\<close>).

  \<^bold>\<open>The program.\<close> Agents share a memory of wiki nodes, kept by a storage backend (SQLite or a vault of
  markdown files); they edit it under neighborhood locks, search it by keyword, vector and graph, and
  ingest source trees into it. Around it run the services of a swarm: an event bridge with two projections
  of the task DAG, a router of work to workers, lane locks and a context filter between agents, a core
  memory of small blocks with a pager to the archive, a warden that watches gateways and starts
  containers, and a connection manager over two message servers.

  \<^bold>\<open>How the theories follow the code.\<close> Every theory opens with its own correspondence; the groups are:
  \<^item> \<open>Prelude\<close>: Python dicts as association lists in insertion order (\<open>dict_get\<close>, \<open>dict_set\<close>, \<open>dict_del\<close>),
    JSON values, text functions (\<open>strip\<close>, \<open>split\<close>, \<open>replace\<close>), instants as integers of microseconds, results as
    sums (\<open>Inl\<close> a raised exception), and the lemmas on them.
  \<^item> Locks (\<open>memu/neighborhood_lock.py\<close>): \<open>Lock_Spec\<close> has the records, the abstract lease table with
    fencing counters and the locale \<open>lock_registry\<close>; \<open>Neighborhood_Lock\<close> the context manager over any
    registry; \<open>Sqlite_Locks\<close> and \<open>Markdown_Locks\<close> the two registries with their interpretations.
    \<open>Lane_Lock\<close> is \<open>memu/lane_lock.py\<close>: programs whose calls interleave with other agents' at every await.
  \<^item> Storage (\<open>memu/storage/\<close>): \<open>Storage_Base\<close> (records, content hash), \<open>Slug_Registry\<close> (locale
    \<open>node_store\<close>), \<open>Sqlite_Backend\<close>, \<open>Markdown_Backend\<close>, \<open>Frontmatter\<close> and \<open>Vault_Codec\<close> (the files of
    the vault), \<open>Url_Parts\<close> (the choice of the backend), \<open>Vault_Sync\<close> (locale \<open>indexed_store\<close>: an index kept
    in step with a vault), \<open>Wikilink\<close>.
  \<^item> Ingestion (\<open>memu/ingest/\<close>): \<open>Ingest_Filters\<close> (which files), \<open>Ingest_Resolve\<close> (which links),
    \<open>Ingest_Codebase\<close> (locale \<open>code_store\<close>: incremental writing over any backend).
  \<^item> Retrieval: \<open>Rlm\<close> (\<open>memu/rlm/\<close>: scores, rank fusion, the recursive orchestrator) and
    \<open>Concept_Search\<close> (the same fusion over rows of PostgreSQL).
  \<^item> Events: \<open>Swarm_Models\<close>, \<open>Bridge_Ledger\<close> (the ledger in memory), \<open>Dag_Projection\<close> (the projection from
    the table), \<open>Projection_Agreement\<close> (the two compared), \<open>Task_Orchestrator\<close>.
  \<^item> Agents and services: \<open>Worker_Router\<close>, \<open>Context_Isolation\<close>, \<open>Core_Memory\<close>, \<open>Archival_Pager\<close>,
    \<open>Warden_Runtime\<close>, \<open>Cluster_Manager\<close>, \<open>Memu_Client\<close>, \<open>Hardening\<close>, \<open>Supply_Chain\<close>.
  \<^item> The API over PostgreSQL (\<open>memu/api.py\<close>), each table a list of rows or a map: \<open>Api_Base\<close> (errors,
    counters, readiness, key and tenant), \<open>Gateway_Leases\<close>, \<open>Task_Registry\<close>, \<open>Memory_Contract\<close>
    (\<open>schema_contract.py\<close>, \<open>decay.py\<close>), \<open>Memory_Helpers\<close>, \<open>Memory_Store\<close> (writing), \<open>Memory_Search\<close> (search and
    recall), \<open>Forensic_Recall\<close>, \<open>Temporal_Queries\<close> (superseding, links, points in time), \<open>Memory_Hygiene\<close>
    (merging and import), \<open>Reflection_Queue\<close> and \<open>Reflection_Proposals\<close> (\<open>reflection.py\<close>).

  A class of the code is a record, its methods functions from the record to a result and the new record;
  names are those of the code, with a short prefix on record fields. A method that can raise returns a
  sum, one that may publish or start something returns the list of what it sent. Where other parties act
  between two awaits, the model is a list of steps or a program over an outside service, and the theorems
  quantify over all interleavings.

  \<^bold>\<open>What the lemmas show.\<close> Per component: the invariant of its state and that every operation keeps it;
  the result of every branch, errors included; and the contract with its neighbours. The main ones:
  both lock registries refine the abstract lease table, so a superseded lease is fenced off and a failed
  entry rolls back; the SQLite tables keep their keys and foreign keys, what is put is read back, and graph
  search returns shortest depths; the frontmatter codec round-trips; a second sync or ingestion writes
  nothing; every link that ingestion emits ends at an ingested node; the projections agree; a batch of the
  router closes exactly when every subtask has reported; paging loses no text that both sides accept;
  the warden never exceeds its cap; the connection manager only hands out an address it dialled.
  For the API: a live lease is refused to everyone else; reviews of a task add up and tenants do not see each
  other's tasks; evidence written again is the first memory; the memory tables keep their keys and foreign
  keys; what a write supersedes is found by no later search; the default recall returns reviewed learning only;
  the pages of a forensic recall together are the matching evidence, each record once; later writes do not
  change what a point in time answers; a merge keeps the oldest memory of each content hash and all access counts;
  the memories of the review queue match the decisions taken on its proposals.

  \<^bold>\<open>Interfaces.\<close> \<open>lock_registry\<close> is interpreted on both registries, \<open>node_store\<close> and \<open>indexed_store\<close> on both
  backends, \<open>code_store\<close> (which extends \<open>indexed_store\<close>) on SQLite; the properties rest on those
  interpretations.

  \<^bold>\<open>Bounds.\<close> Python integers are \<open>int\<close> or \<open>nat\<close>; scores are reals, so rounding of floats is not
  modelled. Loops over finite data recurse on it; the archive loop, the rank-fusion folds and the walk over a
  tree are structural. Sleeping loops (monitors, polls, the watchdog) are modelled one pass at a time, and
  a run is a list of passes, so no fuel bounds them. The recursive orchestrator uses the depth bound the
  code itself carries. Texts are lists of 8-bit characters; the lengths and cuts of longer characters are
  computed by \<open>char_len\<close> where the code counts encoded bytes.

  \<^bold>\<open>Outside code\<close> is an argument: hash functions, clocks, fresh identifiers, embedding and language models,
  full-text ranking, the servers of NATS, PostgreSQL and Docker, the tree-sitter and \<open>ast\<close> parsers.
  Hypotheses on them state documented behaviour only and each has a witness with a concrete function.

  \<^bold>\<open>Not modelled.\<close> Of the API the routes for graphs, chat, text search, concepts and compactions,
  tenants, lanes, Notion, task forensics and agent runs (SQL or calls of other services);
  the rows of the tables are seen through an argument, since row level security lies in the database. Process start-up, HTTP routing, the MCP and command-line front ends,
  Notion, language-model prompts and compaction, Temporal activities, container providers and exporters are I/O around the
  parts above; migrations and the PostgreSQL backend are SQL text or a stub.
\<close>

end
